(* ===== verification/Prelude.thy ===== *)
theory Prelude
  imports Main "HOL-Library.List_Lexorder" "HOL-Library.Sublist"
begin

text \<open>
  The part of the Rust standard library that the modelled code uses, and the helper lemmas
  the component theories share.

  \<^item> \<open>'e + 'a\<close> is \<open>Result\<close>: \<open>Inl\<close> the error, \<open>Inr\<close> the value. \<open>traverse\<close> is
    \<open>iter().map(f).collect::<Result<Vec<_>>>()\<close> and \<open>fold_res\<close> a \<open>for\<close> loop whose body
    may leave with \<open>?\<close>.
  \<^item> \<open>str\<close> is \<open>String\<close>: the list of its Unicode scalar values. Rust compares strings by
    their UTF-8 bytes and SQLite's BINARY collation does the same; the lexicographic order
    of scalar values is that order (\<open>Utf8.utf8_less_iff\<close>).
  \<^item> \<open>i64\<close> values are \<open>int\<close> with the bounds written out where the code checks them.
\<close>

section \<open>Collections of facts\<close>

named_theorems res_simps \<open>unfolding of the result combinators\<close>
named_theorems text_simps \<open>evaluation of the string operations\<close>

section \<open>Results\<close>

fun traverse :: "('a \<Rightarrow> 'e + 'b) \<Rightarrow> 'a list \<Rightarrow> 'e + 'b list" where
  "traverse f [] = Inr []"
| "traverse f (x # xs) =
     (case f x of
        Inl e \<Rightarrow> Inl e
      | Inr y \<Rightarrow> (case traverse f xs of Inl e \<Rightarrow> Inl e | Inr ys \<Rightarrow> Inr (y # ys)))"

fun fold_res :: "('a \<Rightarrow> 's \<Rightarrow> 'e + 's) \<Rightarrow> 'a list \<Rightarrow> 's \<Rightarrow> 'e + 's" where
  "fold_res f [] s = Inr s"
| "fold_res f (x # xs) s = (case f x s of Inl e \<Rightarrow> Inl e | Inr s' \<Rightarrow> fold_res f xs s')"

definition bind_res :: "'e + 'a \<Rightarrow> ('a \<Rightarrow> 'e + 'b) \<Rightarrow> 'e + 'b" where
  "bind_res m f = (case m of Inl e \<Rightarrow> Inl e | Inr x \<Rightarrow> f x)"

definition guard_res :: "bool \<Rightarrow> 'e \<Rightarrow> 'e + unit" where
  "guard_res c e = (if c then Inr () else Inl e)"

lemma bind_res_simps [simp]: "bind_res (Inl e) f = Inl e" "bind_res (Inr x) f = f x"
  by (simp_all add: bind_res_def)

lemma bind_res_Inr_iff [res_simps]:
  "bind_res m f = Inr y \<longleftrightarrow> (\<exists>x. m = Inr x \<and> f x = Inr y)"
  by (cases m) simp_all

lemma bind_res_Inl_iff:
  "bind_res m f = Inl e \<longleftrightarrow> m = Inl e \<or> (\<exists>x. m = Inr x \<and> f x = Inl e)"
  by (cases m) simp_all

lemma guard_res_simps [simp]: "guard_res True e = Inr ()" "guard_res False e = Inl e"
  by (simp_all add: guard_res_def)

lemma guard_res_Inr_iff [res_simps]: "guard_res c e = Inr u \<longleftrightarrow> c"
  by (simp add: guard_res_def)

lemma guard_res_Inl_iff: "guard_res c e = Inl e' \<longleftrightarrow> \<not> c \<and> e' = e"
  by (auto simp: guard_res_def)

lemma fold_res_append:
  "fold_res f (xs @ ys) s = (case fold_res f xs s of Inl e \<Rightarrow> Inl e | Inr s' \<Rightarrow> fold_res f ys s')"
  by (induction xs arbitrary: s) (auto split: sum.splits)

lemma fold_res_invariant:
  assumes "fold_res f xs s = Inr s'" and "P s"
    and "\<And>x s s'. x \<in> set xs \<Longrightarrow> P s \<Longrightarrow> f x s = Inr s' \<Longrightarrow> P s'"
  shows "P s'"
  using assms
proof (induction xs arbitrary: s)
  case Nil
  then show ?case by simp
next
  case (Cons x xs)
  from Cons.prems(1) obtain t where t: "f x s = Inr t" and rest: "fold_res f xs t = Inr s'"
    by (auto split: sum.splits)
  from Cons.prems(2,3) t have "P t" by auto
  with rest show ?case by (rule Cons.IH) (use Cons.prems(3) in auto)
qed

lemma fold_res_const:
  assumes "fold_res f xs s = Inr s'"
    and "\<And>x s s'. x \<in> set xs \<Longrightarrow> f x s = Inr s' \<Longrightarrow> g s' = g s"
  shows "g s' = g s"
  using assms by (auto intro: fold_res_invariant [where P = "\<lambda>t. g t = g s"])

lemma traverse_Inr_length: "traverse f xs = Inr ys \<Longrightarrow> length ys = length xs"
  by (induction xs arbitrary: ys) (auto split: sum.splits)

lemma traverse_Inr_map:
  "traverse f xs = Inr ys \<Longrightarrow> (\<And>x y. f x = Inr y \<Longrightarrow> g y = h x) \<Longrightarrow> map g ys = map h xs"
  by (induction xs arbitrary: ys) (auto split: sum.splits)

lemma traverse_mem: "traverse f xs = Inr ys \<Longrightarrow> y \<in> set ys \<Longrightarrow> \<exists>x \<in> set xs. f x = Inr y"
  by (induction xs arbitrary: ys) (auto split: sum.splits)

lemma traverse_total:
  "(\<And>x. x \<in> set xs \<Longrightarrow> f x = Inr (g x)) \<Longrightarrow> traverse f xs = Inr (map g xs)"
  by (induction xs) auto

lemma traverse_ex:
  "(\<And>x. x \<in> set xs \<Longrightarrow> \<exists>y. f x = Inr y) \<Longrightarrow> \<exists>ys. traverse f xs = Inr ys"
proof (induction xs)
  case Nil
  then show ?case by simp
next
  case (Cons x xs)
  from Cons.prems obtain y where "f x = Inr y" by auto
  moreover from Cons obtain ys where "traverse f xs = Inr ys" by auto
  ultimately show ?case by simp
qed

section \<open>Signed 64-bit integers\<close>

definition i64_min :: int where "i64_min = - (2 ^ 63)"
definition i64_max :: int where "i64_max = 2 ^ 63 - 1"

definition in_i64 :: "int \<Rightarrow> bool" where
  "in_i64 x \<longleftrightarrow> i64_min \<le> x \<and> x \<le> i64_max"

text \<open>\<open>i64::checked_add\<close>, \<open>i64::checked_sub\<close>, \<open>i64::saturating_sub\<close>, \<open>i64::saturating_add\<close>.\<close>

definition checked_add :: "int \<Rightarrow> int \<Rightarrow> int option" where
  "checked_add a b = (if in_i64 (a + b) then Some (a + b) else None)"

definition checked_sub :: "int \<Rightarrow> int \<Rightarrow> int option" where
  "checked_sub a b = (if in_i64 (a - b) then Some (a - b) else None)"

definition saturate :: "int \<Rightarrow> int" where
  "saturate x = max i64_min (min i64_max x)"

definition saturating_sub :: "int \<Rightarrow> int \<Rightarrow> int" where
  "saturating_sub a b = saturate (a - b)"

definition saturating_add :: "int \<Rightarrow> int \<Rightarrow> int" where
  "saturating_add a b = saturate (a + b)"

lemmas i64_defs = i64_min_def i64_max_def in_i64_def

lemma checked_add_Some_iff [simp]:
  "checked_add a b = Some c \<longleftrightarrow> c = a + b \<and> in_i64 (a + b)"
  by (auto simp: checked_add_def)

lemma checked_sub_Some_iff [simp]:
  "checked_sub a b = Some c \<longleftrightarrow> c = a - b \<and> in_i64 (a - b)"
  by (auto simp: checked_sub_def)

lemma checked_add_None_iff [simp]: "checked_add a b = None \<longleftrightarrow> \<not> in_i64 (a + b)"
  by (auto simp: checked_add_def)

lemma checked_sub_None_iff [simp]: "checked_sub a b = None \<longleftrightarrow> \<not> in_i64 (a - b)"
  by (auto simp: checked_sub_def)

lemma saturate_id [simp]: "in_i64 x \<Longrightarrow> saturate x = x"
  by (auto simp: saturate_def in_i64_def)

section \<open>Strings\<close>

type_synonym str = "nat list"

text \<open>A string literal of the source: every literal the model uses is ASCII.\<close>

definition lit :: "string \<Rightarrow> str" where
  "lit s = map of_char s"

lemma lit_simps [simp]: "lit [] = []" "lit (c # cs) = of_char c # lit cs"
  by (simp_all add: lit_def)

text \<open>\<open>char\<close>: a Unicode scalar value, so no surrogates.\<close>

definition scalar :: "nat \<Rightarrow> bool" where
  "scalar c \<longleftrightarrow> c < 0xD800 \<or> 0xE000 \<le> c \<and> c \<le> 0x10FFFF"

definition valid_text :: "str \<Rightarrow> bool" where
  "valid_text s \<longleftrightarrow> list_all scalar s"

text \<open>\<open>char::is_whitespace\<close>: the Unicode property White\_Space.\<close>

definition is_white :: "nat \<Rightarrow> bool" where
  "is_white c \<longleftrightarrow> 9 \<le> c \<and> c \<le> 13 \<or> c = 32 \<or> c = 0x85 \<or> c = 0xA0 \<or> c = 0x1680
     \<or> 0x2000 \<le> c \<and> c \<le> 0x200A \<or> c = 0x2028 \<or> c = 0x2029 \<or> c = 0x202F \<or> c = 0x205F
     \<or> c = 0x3000"

definition trim_start_by :: "('a \<Rightarrow> bool) \<Rightarrow> 'a list \<Rightarrow> 'a list" where
  "trim_start_by P s = dropWhile P s"

definition trim_end_by :: "('a \<Rightarrow> bool) \<Rightarrow> 'a list \<Rightarrow> 'a list" where
  "trim_end_by P s = rev (dropWhile P (rev s))"

definition trim_by :: "('a \<Rightarrow> bool) \<Rightarrow> 'a list \<Rightarrow> 'a list" where
  "trim_by P s = trim_end_by P (trim_start_by P s)"

definition trim :: "str \<Rightarrow> str" where
  "trim s = trim_by is_white s"

text \<open>\<open>str::split(c)\<close>: always at least one piece.\<close>

fun split_on :: "'a \<Rightarrow> 'a list \<Rightarrow> 'a list list" where
  "split_on c [] = [[]]"
| "split_on c (x # xs) =
     (if x = c then [] # split_on c xs
      else (case split_on c xs of [] \<Rightarrow> [[x]] | p # ps \<Rightarrow> (x # p) # ps))"

text \<open>\<open>str::split_once(c)\<close>.\<close>

fun split_once :: "'a \<Rightarrow> 'a list \<Rightarrow> ('a list \<times> 'a list) option" where
  "split_once c [] = None"
| "split_once c (x # xs) =
     (if x = c then Some ([], xs) else map_option (\<lambda>(a, b). (x # a, b)) (split_once c xs))"

text \<open>\<open>str::strip_prefix\<close>, \<open>str::strip_suffix\<close>, \<open>str::find\<close> and \<open>str::contains\<close>.\<close>

definition strip_prefix :: "'a list \<Rightarrow> 'a list \<Rightarrow> 'a list option" where
  "strip_prefix p s = (if prefix p s then Some (drop (length p) s) else None)"

definition strip_suffix :: "'a list \<Rightarrow> 'a list \<Rightarrow> 'a list option" where
  "strip_suffix p s =
     (if suffix p s then Some (take (length s - length p) s) else None)"

fun find_sub :: "'a list \<Rightarrow> 'a list \<Rightarrow> nat option" where
  "find_sub p [] = (if p = [] then Some 0 else None)"
| "find_sub p (x # xs) =
     (if prefix p (x # xs) then Some 0 else map_option Suc (find_sub p xs))"

definition contains :: "'a list \<Rightarrow> 'a list \<Rightarrow> bool" where
  "contains s p \<longleftrightarrow> find_sub p s \<noteq> None"

definition ascii_lower :: "nat \<Rightarrow> nat" where
  "ascii_lower c = (if 65 \<le> c \<and> c \<le> 90 then c + 32 else c)"

definition ascii_upper :: "nat \<Rightarrow> nat" where
  "ascii_upper c = (if 97 \<le> c \<and> c \<le> 122 then c - 32 else c)"

definition to_ascii_lowercase :: "str \<Rightarrow> str" where
  "to_ascii_lowercase s = map ascii_lower s"

definition to_ascii_uppercase :: "str \<Rightarrow> str" where
  "to_ascii_uppercase s = map ascii_upper s"

definition eq_ignore_ascii_case :: "str \<Rightarrow> str \<Rightarrow> bool" where
  "eq_ignore_ascii_case a b \<longleftrightarrow> to_ascii_lowercase a = to_ascii_lowercase b"

definition is_digit :: "nat \<Rightarrow> bool" where
  "is_digit c \<longleftrightarrow> 48 \<le> c \<and> c \<le> 57"

definition is_ascii_alphanumeric :: "nat \<Rightarrow> bool" where
  "is_ascii_alphanumeric c \<longleftrightarrow> is_digit c \<or> 65 \<le> c \<and> c \<le> 90 \<or> 97 \<le> c \<and> c \<le> 122"

text \<open>\<open>str::parse\<close> for the integer types and \<open>Display\<close> of an integer.\<close>

fun digits_value :: "nat \<Rightarrow> str \<Rightarrow> nat" where
  "digits_value acc [] = acc"
| "digits_value acc (c # cs) = digits_value (10 * acc + (c - 48)) cs"

definition parse_digits :: "str \<Rightarrow> nat option" where
  "parse_digits s = (if s \<noteq> [] \<and> list_all is_digit s then Some (digits_value 0 s) else None)"

definition parse_int :: "int \<Rightarrow> int \<Rightarrow> str \<Rightarrow> int option" where
  "parse_int lo hi s =
     (let parsed =
        (case s of
           [] \<Rightarrow> None
         | c # cs \<Rightarrow>
             if c = 43 then map_option int (parse_digits cs)
             else if c = 45 \<and> lo < 0 then map_option (\<lambda>n. - int n) (parse_digits cs)
             else map_option int (parse_digits s))
      in (case parsed of
            None \<Rightarrow> None
          | Some n \<Rightarrow> if lo \<le> n \<and> n \<le> hi then Some n else None))"

definition parse_i64 :: "str \<Rightarrow> int option" where
  "parse_i64 = parse_int i64_min i64_max"

definition parse_i32 :: "str \<Rightarrow> int option" where
  "parse_i32 = parse_int (- (2 ^ 31)) (2 ^ 31 - 1)"

definition parse_usize :: "str \<Rightarrow> nat option" where
  "parse_usize s = map_option nat (parse_int 0 (2 ^ 64 - 1) s)"

fun show_nat :: "nat \<Rightarrow> str" where
  "show_nat n = (if n < 10 then [48 + n] else show_nat (n div 10) @ [48 + n mod 10])"

declare show_nat.simps [simp del]

definition show_int :: "int \<Rightarrow> str" where
  "show_int i = (if i < 0 then 45 # show_nat (nat (- i)) else show_nat (nat i))"

section \<open>Lemmas on strings and lists\<close>

lemma split_on_nonempty [simp]: "split_on c s \<noteq> []"
  by (induction s) (auto split: list.splits)

lemma strip_prefix_Some_iff: "strip_prefix p s = Some r \<longleftrightarrow> s = p @ r"
  by (auto simp: strip_prefix_def elim: prefixE)

lemma strip_suffix_Some_iff: "strip_suffix p s = Some r \<longleftrightarrow> s = r @ p"
  by (auto simp: strip_suffix_def suffix_def)

lemma find_sub_Some_split: "find_sub p s = Some i \<Longrightarrow> take (i + length p) s = take i s @ p"
proof (induction s arbitrary: i)
  case Nil
  then show ?case by (auto split: if_splits)
next
  case (Cons x xs)
  then show ?case by (auto split: if_splits elim: prefixE)
qed

lemma split_once_Some_iff:
  "split_once c s = Some (a, b) \<longleftrightarrow> s = a @ c # b \<and> c \<notin> set a"
proof (induction s arbitrary: a)
  case (Cons x s)
  then show ?case by (cases a) auto
qed simp

lemma digits_value_append: "digits_value a (s @ t) = digits_value (digits_value a s) t"
  by (induction s arbitrary: a) auto

lemma digits_value_show_nat [simp]: "digits_value 0 (show_nat n) = n"
proof (induction n rule: show_nat.induct)
  case (1 n)
  then show ?case
    by (subst show_nat.simps) (auto simp: digits_value_append)
qed

lemma show_nat_digits: "list_all is_digit (show_nat n) \<and> show_nat n \<noteq> []"
proof (induction n rule: show_nat.induct)
  case (1 n)
  have "is_digit (48 + n mod 10)" and "n < 10 \<Longrightarrow> is_digit (48 + n)"
    by (auto simp: is_digit_def)
  with 1 show ?case
    by (subst (1 2) show_nat.simps) auto
qed

lemma parse_digits_show_nat [simp]: "parse_digits (show_nat n) = Some n"
  by (simp add: parse_digits_def show_nat_digits)

lemma parse_i64_show_int: "in_i64 i \<Longrightarrow> parse_i64 (show_int i) = Some i"
proof -
  assume i: "in_i64 i"
  have hd: "is_digit (hd (show_nat n))" for n
    using show_nat_digits [of n] by (cases "show_nat n") auto
  obtain c cs where s: "show_nat (nat i) = c # cs" "is_digit c"
    using hd [of "nat i"] show_nat_digits [of "nat i"] by (cases "show_nat (nat i)") auto
  show ?thesis
  proof (cases "i < 0")
    case True
    with i show ?thesis
      by (simp add: parse_i64_def parse_int_def show_int_def i64_defs)
  next
    case False
    with s have "parse_digits (c # cs) = Some (nat i)"
      using parse_digits_show_nat [of "nat i"] by simp
    with False s i show ?thesis
      by (auto simp: parse_i64_def parse_int_def show_int_def i64_defs is_digit_def)
  qed
qed

lemma count_list_insort_key:
  "count_list (map f (insort_key g x xs)) b = count_list (map f (x # xs)) b"
  by (induction xs) auto

lemma count_list_sort_key [simp]:
  "count_list (map f (sort_key g xs)) b = count_list (map f xs) b"
  by (induction xs) (auto simp: count_list_insort_key)

lemma count_list_filter_split:
  "count_list (map f (filter P xs)) b + count_list (map f (filter (\<lambda>x. \<not> P x) xs)) b
     = count_list (map f xs) b"
  by (induction xs) auto

lemma count_list_filter_mem: "count_list (filter P xs) x = (if P x then count_list xs x else 0)"
  by (induction xs) auto

lemma count_list_pos_iff: "0 < count_list xs x \<longleftrightarrow> x \<in> set xs"
  by (induction xs) auto

lemma count_list_distinct: "distinct xs \<Longrightarrow> count_list xs x = (if x \<in> set xs then 1 else 0)"
  by (induction xs) auto

lemma filter_eq_Nil_iff: "filter P xs = [] \<longleftrightarrow> (\<forall>x \<in> set xs. \<not> P x)"
  by (induction xs) auto

lemma sorted_filter_key: "sorted (map f xs) \<Longrightarrow> sorted (map f (filter P xs))"
  by (induction xs) auto

lemma sort_key_sorted_id: "sorted (map f xs) \<Longrightarrow> sort_key f xs = xs"
  by (induction xs) (auto simp: insort_is_Cons)

lemma distinct_filter_fst:
  "distinct (map (\<lambda>r. (f r, g r)) xs) \<Longrightarrow> distinct (map g (filter (\<lambda>r. f r = b) xs))"
proof (induction xs)
  case (Cons a xs)
  then have "g a \<notin> g ` set (filter (\<lambda>r. f r = b) xs)" if "f a = b"
    using that by (auto simp: image_iff)
  with Cons show ?case by simp
qed simp

lemma map_insort_key: "map f (insort_key f x xs) = insort (f x) (map f xs)"
  by (induction xs) auto

lemma map_sort_key_inj: "map f (sort_key f xs) = sort (map f xs)"
  by (induction xs) (simp_all add: map_insort_key)

end
