(* ===== verification/Model.thy ===== *)
theory Model
  imports Prelude
begin

text \<open>
  \<open>src/model.rs\<close>: the records and enums every other component exchanges, the ETag
  conditions, and \<open>key_successor\<close>, the upper bound of a key prefix on which the listing
  queries rest. Also the errors of the code as values (\<open>error\<close>) with their \<open>Display\<close> text.
\<close>

section \<open>Errors\<close>

text \<open>
  The code raises \<open>anyhow\<close> errors that carry a message. Each message the code raises and
  some caller distinguishes is a constructor; \<open>Other\<close> carries any other message.
  \<open>SlowDownGc\<close> is the message of \<open>ensure_blocks_not_queued\<close>; \<open>Sql\<close> stands for the
  errors SQLite reports for a violated constraint. \<open>Telegram_Failure\<close> is the struct
  \<open>TelegramFailure\<close> of \<open>telegram/bot_api.rs\<close> (the status code, the text the \<open>http\<close> crate
  displays for it, the description, the seconds to wait before a retry), \<open>Transport\<close> an
  error of the HTTP client.
\<close>

datatype sql_constraint = UniqueViolation | ForeignKeyViolation

datatype error =
    NoSuchBucket | NoSuchKey | NoSuchUpload | EntityTooLarge | SlowDown | SlowDownGc
  | PreconditionFailed | NotModified | BucketNotEmpty | EntityTooSmall
  | IncompleteBody int int | InvalidPartOrder | InvalidPart | InvalidRequest | InvalidRange
  | InvalidArgument | InvalidBucketName | MalformedXML | NotImplemented | MethodNotAllowed
  | AccessDenied | SignatureDoesNotMatch | RequestTimeTooSkewed
  | InvalidLayout
  | Sql sql_constraint
  | Telegram_Failure nat str str "nat option"
  | Transport str
  | Other str

primrec error_text :: "error \<Rightarrow> str" where
  "error_text NoSuchBucket = lit ''NoSuchBucket''"
| "error_text NoSuchKey = lit ''NoSuchKey''"
| "error_text NoSuchUpload = lit ''NoSuchUpload''"
| "error_text EntityTooLarge = lit ''EntityTooLarge''"
| "error_text SlowDown = lit ''SlowDown''"
| "error_text SlowDownGc = lit ''SlowDown: upload block is pending garbage collection''"
| "error_text PreconditionFailed = lit ''PreconditionFailed''"
| "error_text NotModified = lit ''NotModified''"
| "error_text BucketNotEmpty = lit ''BucketNotEmpty''"
| "error_text EntityTooSmall = lit ''EntityTooSmall''"
| "error_text (IncompleteBody expected actual) =
     lit ''IncompleteBody: request Content-Length '' @ show_int expected
     @ lit '' does not match body length '' @ show_int actual"
| "error_text InvalidPartOrder = lit ''InvalidPartOrder''"
| "error_text InvalidPart = lit ''InvalidPart''"
| "error_text InvalidRequest = lit ''InvalidRequest''"
| "error_text InvalidRange = lit ''InvalidRange''"
| "error_text InvalidArgument = lit ''InvalidArgument''"
| "error_text InvalidBucketName = lit ''InvalidBucketName''"
| "error_text MalformedXML = lit ''MalformedXML''"
| "error_text NotImplemented = lit ''NotImplemented''"
| "error_text MethodNotAllowed = lit ''MethodNotAllowed''"
| "error_text AccessDenied = lit ''AccessDenied''"
| "error_text SignatureDoesNotMatch = lit ''SignatureDoesNotMatch''"
| "error_text RequestTimeTooSkewed = lit ''RequestTimeTooSkewed''"
| "error_text InvalidLayout = lit ''object storage layout is invalid''"
| "error_text (Sql c) =
     (case c of
        UniqueViolation \<Rightarrow>
          lit ''error returned from database: (code: 2067) UNIQUE constraint failed''
      | ForeignKeyViolation \<Rightarrow>
          lit ''error returned from database: (code: 787) FOREIGN KEY constraint failed'')"
| "error_text (Telegram_Failure code status description retry_after) =
     lit ''Telegram '' @ status @ lit '': '' @ description"
| "error_text (Transport m) = m"
| "error_text (Other m) = m"

section \<open>Telegram backends\<close>

datatype telegram_backend = BotApi | Grammers

fun backend_as_str :: "telegram_backend \<Rightarrow> str" where
  "backend_as_str BotApi = lit ''bot_api''"
| "backend_as_str Grammers = lit ''grammers''"

definition backend_from_str :: "str \<Rightarrow> str + telegram_backend" where
  "backend_from_str value =
     (let v = to_ascii_lowercase (trim value)
      in if v = lit ''bot_api'' \<or> v = lit ''bot-api'' then Inr BotApi
         else if v = lit ''grammers'' \<or> v = lit ''mtproto'' then Inr Grammers
         else Inl (lit ''expected bot_api or grammers''))"

lemma backend_roundtrip [simp]: "backend_from_str (backend_as_str b) = Inr b"
  by (cases b)
    (simp_all add: backend_from_str_def to_ascii_lowercase_def ascii_lower_def trim_def
      trim_by_def trim_start_by_def trim_end_by_def is_white_def)

section \<open>ETags and conditions\<close>

definition normalize_etag :: "str \<Rightarrow> str" where
  "normalize_etag value = trim_by (\<lambda>c. c = 34) (trim value)"

definition etag_matches :: "str \<Rightarrow> str option \<Rightarrow> bool" where
  "etag_matches value etag =
     (case etag of
        None \<Rightarrow> False
      | Some etag \<Rightarrow>
          value = lit ''*''
          \<or> list_ex (\<lambda>candidate. normalize_etag candidate = etag) (split_on 44 value))"

record object_condition =
  if_match :: "str option"
  if_none_match :: "str option"

definition default_condition :: object_condition where
  "default_condition = \<lparr>if_match = None, if_none_match = None\<rparr>"

definition condition_allows :: "object_condition \<Rightarrow> str option \<Rightarrow> bool" where
  "condition_allows c etag =
     (if (case if_match c of Some value \<Rightarrow> \<not> etag_matches value etag | None \<Rightarrow> False)
      then False
      else if (case if_none_match c of Some value \<Rightarrow> etag_matches value etag | None \<Rightarrow> False)
      then False
      else True)"

lemma default_condition_allows [simp]: "condition_allows default_condition etag"
  by (simp add: condition_allows_def default_condition_def)

section \<open>The successor of a key prefix\<close>

text \<open>
  \<open>key_successor\<close> pops characters off the end of the key until one can be incremented;
  \<open>key_successor_rev\<close> is that loop on the reversed character vector.
\<close>

definition next_char :: "nat \<Rightarrow> nat" where
  "next_char c = (let n = c + 1 in if 0xD800 \<le> n \<and> n \<le> 0xDFFF then 0xE000 else n)"

fun key_successor_rev :: "nat list \<Rightarrow> str option" where
  "key_successor_rev [] = None"
| "key_successor_rev (c # chars) =
     (if scalar (next_char c) then Some (rev (next_char c # chars))
      else key_successor_rev chars)"

definition key_successor :: "str \<Rightarrow> str option" where
  "key_successor value = key_successor_rev (rev value)"

section \<open>Records\<close>

record object_metadata =
  content_type :: "str option"
  content_disposition :: "str option"
  content_encoding :: "str option"
  cache_control :: "str option"
  expires :: "str option"
  user :: "(str \<times> str) list"

definition default_metadata :: object_metadata where
  "default_metadata = \<lparr>content_type = None, content_disposition = None, content_encoding = None,
     cache_control = None, expires = None, user = []\<rparr>"

record cors_configuration =
  allowed_origins :: "str list"
  allowed_methods :: "str list"
  allowed_headers :: "str list"
  expose_headers :: "str list"
  max_age_seconds :: nat

definition default_cors :: cors_configuration where
  "default_cors = \<lparr>
     allowed_origins = [lit ''*''],
     allowed_methods = [lit ''GET'', lit ''POST'', lit ''PUT'', lit ''DELETE'', lit ''HEAD''],
     allowed_headers = [lit ''*''],
     expose_headers = [lit ''ETag''],
     max_age_seconds = 3600\<rparr>"

record block_ref =
  blk_id :: int
  blk_ordinal :: int
  blk_offset :: int
  blk_size :: int
  blk_chat_id :: int
  blk_message_id :: int
  blk_backend :: telegram_backend
  blk_document_id :: "int option"
  blk_file_id :: str
  blk_file_unique_id :: str
  blk_message_date :: int

record object_record =
  obj_id :: int
  obj_bucket :: str
  obj_key :: str
  obj_size :: int
  obj_etag :: str
  obj_metadata :: object_metadata
  obj_created_at :: int
  obj_modified_at :: int
  obj_blocks :: "block_ref list"

record upload_record =
  up_upload_id :: str
  up_bucket :: str
  up_key :: str
  up_metadata :: object_metadata
  up_kind :: str
  up_created_at :: int

record part_record =
  part_upload_id :: str
  part_number :: int
  part_size :: int
  part_etag :: str
  part_blocks :: "block_ref list"

record bucket_record =
  bkt_name :: str
  bkt_created_at :: int

record listing_record =
  lst_key :: str
  lst_size :: int
  lst_etag :: str
  lst_modified_at :: int

record garbage_record =
  gb_block_id :: int
  gb_chat_id :: int
  gb_message_id :: int
  gb_backend :: telegram_backend
  gb_document_id :: "int option"
  gb_file_id :: str
  gb_file_unique_id :: str
  gb_message_date :: int
  gb_attempts :: int
  gb_next_attempt :: int
  gb_last_error :: "str option"

definition as_block_ref :: "garbage_record \<Rightarrow> block_ref" where
  "as_block_ref g = \<lparr>blk_id = gb_block_id g, blk_ordinal = 0, blk_offset = 0, blk_size = 0,
     blk_chat_id = gb_chat_id g, blk_message_id = gb_message_id g, blk_backend = gb_backend g,
     blk_document_id = gb_document_id g, blk_file_id = gb_file_id g,
     blk_file_unique_id = gb_file_unique_id g, blk_message_date = gb_message_date g\<rparr>"

section \<open>What \<open>key_successor\<close> bounds\<close>

lemma next_char_greater: "c < next_char c"
  by (simp add: next_char_def Let_def)

lemma next_char_least:
  assumes "scalar d" and "c < d"
  shows "next_char c \<le> d"
  using assms by (auto simp: next_char_def scalar_def Let_def)

lemma next_char_scalar_iff: "scalar c \<Longrightarrow> scalar (next_char c) \<longleftrightarrow> c \<noteq> 0x10FFFF"
  by (auto simp: next_char_def scalar_def Let_def)

text \<open>The successor replaces the last character that is not \<open>char::MAX\<close> and drops the rest.\<close>

lemma key_successor_rev_Some:
  "key_successor_rev cs = Some u \<Longrightarrow> list_all scalar cs \<Longrightarrow>
     \<exists>ms c chars. cs = ms @ c # chars \<and> (\<forall>m \<in> set ms. m = 0x10FFFF) \<and> c \<noteq> 0x10FFFF
       \<and> u = rev chars @ [next_char c] \<and> scalar (next_char c)"
proof (induction cs)
  case Nil
  then show ?case by simp
next
  case (Cons a cs)
  show ?case
  proof (cases "a = 0x10FFFF")
    case True
    with Cons.prems have "key_successor_rev cs = Some u"
      by (simp add: next_char_scalar_iff)
    with Cons obtain ms c chars where *: "cs = ms @ c # chars" "\<forall>m \<in> set ms. m = 0x10FFFF"
      "c \<noteq> 0x10FFFF" "u = rev chars @ [next_char c]" "scalar (next_char c)"
      by auto
    have "a # cs = (a # ms) @ c # chars" using *(1) by simp
    with * True show ?thesis
      by (intro exI [of _ "a # ms"] exI [of _ c] exI [of _ chars]) auto
  next
    case False
    with Cons.prems have "u = rev cs @ [next_char a]" "scalar (next_char a)"
      by (auto simp: next_char_scalar_iff)
    with False show ?thesis by (intro exI [of _ "[]"] exI [of _ a] exI [of _ cs]) auto
  qed
qed

lemma key_successor_Some:
  assumes "key_successor p = Some u" and "valid_text p"
  obtains w c ms where "p = w @ c # ms" "\<forall>m \<in> set ms. m = 0x10FFFF" "c \<noteq> 0x10FFFF"
    "u = w @ [next_char c]" "scalar (next_char c)"
proof -
  from assms obtain ms c chars where "rev p = ms @ c # chars" "\<forall>m \<in> set ms. m = 0x10FFFF"
    "c \<noteq> 0x10FFFF" "u = rev chars @ [next_char c]" "scalar (next_char c)"
    unfolding key_successor_def valid_text_def
    by (metis key_successor_rev_Some list_all_rev)
  then show ?thesis
    by (intro that [of "rev chars" c "rev ms"]) (auto simp: rev_swap)
qed

lemma key_successor_rev_None_iff:
  "list_all scalar cs \<Longrightarrow> key_successor_rev cs = None \<longleftrightarrow> (\<forall>c \<in> set cs. c = 0x10FFFF)"
  by (induction cs) (auto simp: next_char_scalar_iff)

lemma key_successor_None_iff:
  "valid_text p \<Longrightarrow> key_successor p = None \<longleftrightarrow> (\<forall>c \<in> set p. c = 0x10FFFF)"
  by (simp add: key_successor_def valid_text_def key_successor_rev_None_iff)

lemma append_less_mono: "(x :: str) < y \<Longrightarrow> w @ x < w @ y"
  by (induction w) auto

lemma append_less_cancel [simp]: "(w @ x < w @ y) = ((x :: str) < y)"
  by (induction w) auto

lemma append_le_cancel [simp]: "(w @ x \<le> w @ y) = ((x :: str) \<le> y)"
  by (induction w) auto

lemma prefix_imp_le: "prefix p k \<Longrightarrow> (p :: str) \<le> k"
  by (metis append_Nil2 append_le_cancel Nil_le_Cons list.exhaust prefixE)

text \<open>A string between \<open>ms\<close> (all \<open>char::MAX\<close>) and above starts with \<open>ms\<close>.\<close>

lemma max_chars_le_imp_prefix:
  "\<forall>m \<in> set ms. m = 0x10FFFF \<Longrightarrow> valid_text k \<Longrightarrow> ms \<le> k \<Longrightarrow> prefix ms k"
proof (induction ms arbitrary: k)
  case Nil
  then show ?case by simp
next
  case (Cons m ms)
  then obtain d k' where k: "k = d # k'" by (cases k) auto
  with Cons.prems have "d \<le> 0x10FFFF" and "valid_text k'"
    by (auto simp: valid_text_def scalar_def)
  with Cons k show ?case by auto
qed

lemma key_successor_range:
  assumes succ: "key_successor p = Some u" and p: "valid_text p" and k: "valid_text k"
  shows "prefix p k \<longleftrightarrow> p \<le> k \<and> k < u"
proof -
  obtain w c ms where d: "p = w @ c # ms" "\<forall>m \<in> set ms. m = 0x10FFFF"
    "u = w @ [next_char c]"
    using succ p by (rule key_successor_Some) blast
  show ?thesis
  proof
    assume "prefix p k"
    then obtain r where r: "k = p @ r" by (rule prefixE)
    with d have "k < u" by (simp add: next_char_greater)
    with \<open>prefix p k\<close> show "p \<le> k \<and> k < u" by (simp add: prefix_imp_le)
  next
    assume le: "p \<le> k \<and> k < u"
    have "prefix w k"
      using le d(1,3)
    proof (induction w arbitrary: k p u)
      case Nil
      then show ?case by simp
    next
      case (Cons a w)
      then show ?case by (cases k) auto
    qed
    then obtain r where r: "k = w @ r" by (rule prefixE)
    with le d have r': "c # ms \<le> r" "r < [next_char c]" by simp_all
    then obtain x r2 where x: "r = x # r2" by (cases r) auto
    with k r have sx: "scalar x" and v2: "valid_text r2" by (auto simp: valid_text_def)
    from r' x have "c \<le> x" and "x < next_char c" by auto
    with sx have "x = c" using next_char_least [of x c] by linarith
    with r' x have "ms \<le> r2" by auto
    with d(2) v2 have "prefix ms r2" by (rule max_chars_le_imp_prefix)
    with r x \<open>x = c\<close> d(1) show "prefix p k" by simp
  qed
qed

lemma key_successor_None_range:
  assumes "key_successor p = None" and "valid_text p" and "valid_text k"
  shows "prefix p k \<longleftrightarrow> p \<le> k"
  using assms max_chars_le_imp_prefix prefix_imp_le
  by (auto simp: key_successor_None_iff)

lemma key_successor_valid:
  assumes "key_successor p = Some u" and "valid_text p"
  shows "valid_text u"
  using assms by (auto elim!: key_successor_Some simp: valid_text_def)

lemma key_successor_greater:
  assumes "key_successor p = Some u" and "valid_text p"
  shows "p < u"
  using key_successor_range [OF assms assms(2)] by simp

end
