(* ===== verification/Db_Schema.thy ===== *)
theory Db_Schema
  imports Model
begin

text \<open>
  The SQLite database of \<open>src/db.rs\<close> and \<open>migrations/\<close>: one row record per table, the
  tables as lists in insertion order, and the SQL statements the code runs, with the
  constraints the schema declares (primary keys, \<open>UNIQUE\<close>, foreign keys with
  \<open>ON DELETE CASCADE\<close>; \<open>Db::open\<close> turns \<open>foreign_keys\<close> on).

  A statement that can violate a constraint returns \<open>Inl\<close>; a \<open>Db\<close> method whose transaction
  ends in \<open>Inl\<close> leaves the database as it was (the \<open>sqlx\<close> transaction rolls back on drop).
  The column \<open>metadata_json\<close> holds the \<open>serde_json\<close> text of an \<open>object_metadata\<close>, and
  \<open>configuration_json\<close> that of a \<open>cors_configuration\<close>; the model keeps the value itself.
  An \<open>INTEGER PRIMARY KEY\<close> column without \<open>AUTOINCREMENT\<close> gets the largest id in use plus
  one, so ids of deleted rows can come back.
\<close>

record bucket_row =
  brow_name :: str
  brow_created_at :: int

record object_row =
  orow_id :: int
  orow_bucket :: str
  orow_key :: str
  orow_size :: int
  orow_etag :: str
  orow_metadata :: object_metadata
  orow_created_at :: int
  orow_modified_at :: int

datatype block_state = Staged | Committed

record block_row =
  trow_id :: int
  trow_chat_id :: int
  trow_message_id :: int
  trow_backend :: str
  trow_document_id :: "int option"
  trow_file_id :: str
  trow_file_unique_id :: str
  trow_size :: int
  trow_message_date :: int
  trow_ref_count :: int
  trow_state :: block_state
  trow_created_at :: int

record object_block_row =
  ob_object_id :: int
  ob_ordinal :: int
  ob_block_id :: int
  ob_byte_offset :: int
  ob_size :: int

record upload_row =
  urow_upload_id :: str
  urow_bucket :: str
  urow_key :: str
  urow_metadata :: object_metadata
  urow_kind :: str
  urow_created_at :: int

record part_row =
  prow_upload_id :: str
  prow_number :: int
  prow_size :: int
  prow_etag :: str

record part_block_row =
  pb_upload_id :: str
  pb_number :: int
  pb_ordinal :: int
  pb_block_id :: int
  pb_byte_offset :: int
  pb_size :: int

datatype gc_state = Pending | Orphan

record gc_row =
  q_block_id :: int
  q_attempts :: int
  q_next_attempt :: int
  q_last_error :: "str option"
  q_state :: gc_state

record cors_row =
  crow_bucket :: str
  crow_configuration :: cors_configuration
  crow_created_at :: int
  crow_updated_at :: int

record db =
  buckets :: "bucket_row list"
  objects :: "object_row list"
  telegram_blocks :: "block_row list"
  object_blocks :: "object_block_row list"
  multipart_uploads :: "upload_row list"
  multipart_parts :: "part_row list"
  multipart_part_blocks :: "part_block_row list"
  gc_queue :: "gc_row list"
  bucket_cors :: "cors_row list"

definition empty_db :: db where
  "empty_db = \<lparr>buckets = [], objects = [], telegram_blocks = [], object_blocks = [],
     multipart_uploads = [], multipart_parts = [], multipart_part_blocks = [], gc_queue = [],
     bucket_cors = []\<rparr>"

section \<open>Row ids\<close>

fun max_id :: "int list \<Rightarrow> int" where
  "max_id [] = 0"
| "max_id (x # xs) = max x (max_id xs)"

definition next_rowid :: "int list \<Rightarrow> int" where
  "next_rowid ids = max_id ids + 1"

lemma max_id_ge: "x \<in> set ids \<Longrightarrow> x \<le> max_id ids"
  by (induction ids) auto

lemma max_id_nonneg: "0 \<le> max_id ids"
  by (induction ids) auto

lemma next_rowid_fresh [simp]: "next_rowid ids \<notin> set ids"
  using max_id_ge [of "next_rowid ids" ids] by (auto simp: next_rowid_def)

lemma next_rowid_pos: "0 < next_rowid ids"
  using max_id_nonneg [of ids] by (simp add: next_rowid_def)

section \<open>Queries\<close>

definition block_exists :: "db \<Rightarrow> int \<Rightarrow> bool" where
  "block_exists d b \<longleftrightarrow> b \<in> set (map trow_id (telegram_blocks d))"

text \<open>\<open>EXISTS(SELECT 1 FROM object_blocks WHERE block_id = b)\<close>, and the same for part blocks.\<close>

definition in_object :: "db \<Rightarrow> int \<Rightarrow> bool" where
  "in_object d b \<longleftrightarrow> b \<in> set (map ob_block_id (object_blocks d))"

definition in_part :: "db \<Rightarrow> int \<Rightarrow> bool" where
  "in_part d b \<longleftrightarrow> b \<in> set (map pb_block_id (multipart_part_blocks d))"

definition queued :: "db \<Rightarrow> int \<Rightarrow> bool" where
  "queued d b \<longleftrightarrow> b \<in> set (map q_block_id (gc_queue d))"

definition bucket_named :: "db \<Rightarrow> str \<Rightarrow> bool" where
  "bucket_named d n \<longleftrightarrow> n \<in> set (map brow_name (buckets d))"

definition upload_rows :: "db \<Rightarrow> str \<Rightarrow> upload_row list" where
  "upload_rows d u = filter (\<lambda>r. urow_upload_id r = u) (multipart_uploads d)"

definition object_rows :: "db \<Rightarrow> str \<Rightarrow> str \<Rightarrow> object_row list" where
  "object_rows d b k = filter (\<lambda>r. orow_bucket r = b \<and> orow_key r = k) (objects d)"

definition rows_of_object :: "db \<Rightarrow> int \<Rightarrow> object_block_row list" where
  "rows_of_object d oid = filter (\<lambda>r. ob_object_id r = oid) (object_blocks d)"

definition rows_of_upload :: "db \<Rightarrow> str \<Rightarrow> part_block_row list" where
  "rows_of_upload d u = filter (\<lambda>r. pb_upload_id r = u) (multipart_part_blocks d)"

definition rows_of_part :: "db \<Rightarrow> str \<Rightarrow> int \<Rightarrow> part_block_row list" where
  "rows_of_part d u n =
     filter (\<lambda>r. pb_upload_id r = u \<and> pb_number r = n) (multipart_part_blocks d)"

text \<open>\<open>FROM x JOIN telegram_blocks b ON b.id = x.block_id\<close>.\<close>

definition join_blocks :: "db \<Rightarrow> ('r \<Rightarrow> int) \<Rightarrow> 'r list \<Rightarrow> (block_row \<times> 'r) list" where
  "join_blocks d key rows =
     concat (map (\<lambda>r. map (\<lambda>b. (b, r)) (filter (\<lambda>b. trow_id b = key r) (telegram_blocks d))) rows)"

section \<open>Statements\<close>

definition insert_telegram_block :: "block_row \<Rightarrow> db \<Rightarrow> error + (int \<times> db)" where
  "insert_telegram_block r d =
     (if list_ex (\<lambda>b. trow_chat_id b = trow_chat_id r \<and> trow_message_id b = trow_message_id r)
           (telegram_blocks d)
      then Inl (Sql UniqueViolation)
      else let i = next_rowid (map trow_id (telegram_blocks d))
           in Inr (i, d\<lparr>telegram_blocks := telegram_blocks d @ [r\<lparr>trow_id := i\<rparr>]\<rparr>))"

definition insert_object :: "object_row \<Rightarrow> db \<Rightarrow> error + (int \<times> db)" where
  "insert_object r d =
     (if object_rows d (orow_bucket r) (orow_key r) \<noteq> [] then Inl (Sql UniqueViolation)
      else let i = next_rowid (map orow_id (objects d))
           in Inr (i, d\<lparr>objects := objects d @ [r\<lparr>orow_id := i\<rparr>]\<rparr>))"

definition insert_object_block :: "object_block_row \<Rightarrow> db \<Rightarrow> error + db" where
  "insert_object_block r d =
     (if list_ex (\<lambda>x. ob_object_id x = ob_object_id r \<and> ob_ordinal x = ob_ordinal r)
           (object_blocks d)
      then Inl (Sql UniqueViolation)
      else if \<not> (ob_object_id r \<in> set (map orow_id (objects d)) \<and> block_exists d (ob_block_id r))
      then Inl (Sql ForeignKeyViolation)
      else Inr (d\<lparr>object_blocks := object_blocks d @ [r]\<rparr>))"

definition insert_upload :: "upload_row \<Rightarrow> db \<Rightarrow> error + db" where
  "insert_upload r d =
     (if upload_rows d (urow_upload_id r) \<noteq> [] then Inl (Sql UniqueViolation)
      else Inr (d\<lparr>multipart_uploads := multipart_uploads d @ [r]\<rparr>))"

definition insert_part :: "part_row \<Rightarrow> db \<Rightarrow> error + db" where
  "insert_part r d =
     (if list_ex (\<lambda>x. prow_upload_id x = prow_upload_id r \<and> prow_number x = prow_number r)
           (multipart_parts d)
      then Inl (Sql UniqueViolation)
      else if upload_rows d (prow_upload_id r) = [] then Inl (Sql ForeignKeyViolation)
      else Inr (d\<lparr>multipart_parts := multipart_parts d @ [r]\<rparr>))"

definition insert_part_block :: "part_block_row \<Rightarrow> db \<Rightarrow> error + db" where
  "insert_part_block r d =
     (if list_ex (\<lambda>x. pb_upload_id x = pb_upload_id r \<and> pb_number x = pb_number r
           \<and> pb_ordinal x = pb_ordinal r) (multipart_part_blocks d)
      then Inl (Sql UniqueViolation)
      else if \<not> (block_exists d (pb_block_id r)
                 \<and> list_ex (\<lambda>x. prow_upload_id x = pb_upload_id r \<and> prow_number x = pb_number r)
                     (multipart_parts d))
      then Inl (Sql ForeignKeyViolation)
      else Inr (d\<lparr>multipart_part_blocks := multipart_part_blocks d @ [r]\<rparr>))"

text \<open>\<open>INSERT OR IGNORE INTO gc_queue(block_id, next_attempt, state)\<close>: a row with the same
  primary key is kept as it is.\<close>

definition enqueue_gc :: "int \<Rightarrow> int \<Rightarrow> db \<Rightarrow> db" where
  "enqueue_gc b t d =
     (if queued d b then d
      else d\<lparr>gc_queue := gc_queue d @ [\<lparr>q_block_id = b, q_attempts = 0, q_next_attempt = t,
             q_last_error = None, q_state = Pending\<rparr>]\<rparr>)"

definition dequeue_gc :: "int \<Rightarrow> db \<Rightarrow> db" where
  "dequeue_gc b d = d\<lparr>gc_queue := filter (\<lambda>q. q_block_id q \<noteq> b) (gc_queue d)\<rparr>"

definition update_block :: "int \<Rightarrow> (block_row \<Rightarrow> block_row) \<Rightarrow> db \<Rightarrow> db" where
  "update_block b f d =
     d\<lparr>telegram_blocks := map (\<lambda>r. if trow_id r = b then f r else r) (telegram_blocks d)\<rparr>"

text \<open>Deletions, with the cascades of the schema.\<close>

definition delete_object_row :: "int \<Rightarrow> db \<Rightarrow> db" where
  "delete_object_row oid d =
     d\<lparr>objects := filter (\<lambda>r. orow_id r \<noteq> oid) (objects d),
       object_blocks := filter (\<lambda>r. ob_object_id r \<noteq> oid) (object_blocks d)\<rparr>"

definition delete_part_row :: "str \<Rightarrow> int \<Rightarrow> db \<Rightarrow> db" where
  "delete_part_row u n d =
     d\<lparr>multipart_parts := filter (\<lambda>r. \<not> (prow_upload_id r = u \<and> prow_number r = n))
         (multipart_parts d),
       multipart_part_blocks := filter (\<lambda>r. \<not> (pb_upload_id r = u \<and> pb_number r = n))
         (multipart_part_blocks d)\<rparr>"

definition delete_upload_row :: "str \<Rightarrow> db \<Rightarrow> db" where
  "delete_upload_row u d =
     d\<lparr>multipart_uploads := filter (\<lambda>r. urow_upload_id r \<noteq> u) (multipart_uploads d),
       multipart_parts := filter (\<lambda>r. prow_upload_id r \<noteq> u) (multipart_parts d),
       multipart_part_blocks := filter (\<lambda>r. pb_upload_id r \<noteq> u) (multipart_part_blocks d)\<rparr>"

text \<open>
  Deleting a block row fails while a row of \<open>object_blocks\<close> or \<open>multipart_part_blocks\<close>
  refers to it (no cascade there), and takes its \<open>gc_queue\<close> row with it.
\<close>

definition delete_block_row :: "int \<Rightarrow> db \<Rightarrow> error + db" where
  "delete_block_row b d =
     (if block_exists d b \<and> (in_object d b \<or> in_part d b) then Inl (Sql ForeignKeyViolation)
      else Inr (d\<lparr>telegram_blocks := filter (\<lambda>r. trow_id r \<noteq> b) (telegram_blocks d),
                  gc_queue := filter (\<lambda>q. \<not> (q_block_id q = b \<and> block_exists d b)) (gc_queue d)\<rparr>))"

section \<open>What the statements leave alone\<close>

named_theorems query_defs \<open>definitions of the queries\<close>
named_theorems stmt_defs \<open>definitions of the SQL statements\<close>

lemmas [query_defs] = block_exists_def in_object_def in_part_def queued_def bucket_named_def
  upload_rows_def object_rows_def rows_of_object_def rows_of_upload_def rows_of_part_def

lemmas [stmt_defs] = insert_telegram_block_def insert_object_def insert_object_block_def
  insert_upload_def insert_part_def insert_part_block_def enqueue_gc_def dequeue_gc_def
  update_block_def delete_object_row_def delete_part_row_def delete_upload_row_def
  delete_block_row_def

lemma in_join_blocks:
  "(b, r) \<in> set (join_blocks d key rows) \<longleftrightarrow>
     r \<in> set rows \<and> b \<in> set (telegram_blocks d) \<and> trow_id b = key r"
  by (auto simp: join_blocks_def)

lemma update_block_ids [simp]:
  assumes "\<And>r. trow_id (f r) = trow_id r"
  shows "map trow_id (telegram_blocks (update_block b f d)) = map trow_id (telegram_blocks d)"
  using assms by (simp add: update_block_def)

lemma enqueue_gc_frame [simp]:
  "telegram_blocks (enqueue_gc b t d) = telegram_blocks d"
  "objects (enqueue_gc b t d) = objects d"
  "object_blocks (enqueue_gc b t d) = object_blocks d"
  "multipart_part_blocks (enqueue_gc b t d) = multipart_part_blocks d"
  "multipart_parts (enqueue_gc b t d) = multipart_parts d"
  "multipart_uploads (enqueue_gc b t d) = multipart_uploads d"
  "buckets (enqueue_gc b t d) = buckets d"
  "bucket_cors (enqueue_gc b t d) = bucket_cors d"
  by (simp_all add: enqueue_gc_def)

lemma queued_enqueue_gc [simp]: "queued (enqueue_gc b t d) x \<longleftrightarrow> queued d x \<or> x = b"
  by (auto simp: enqueue_gc_def queued_def)

lemma queued_dequeue_gc [simp]: "queued (dequeue_gc b d) x \<longleftrightarrow> queued d x \<and> x \<noteq> b"
  by (auto simp: dequeue_gc_def queued_def)

end
