(* ===== verification/Db_Support.thy ===== *)
theory Db_Support
  imports Db_Schema
begin

text \<open>
  \<open>src/db/support.rs\<close>: the helpers the \<open>Db\<close> methods share. A helper that takes a
  transaction takes the database and returns the changed one, or the error that makes the
  transaction roll back; \<open>t\<close> is what \<open>now()\<close> returned.
\<close>

section \<open>Decoding rows\<close>

definition parse_backend :: "str \<Rightarrow> error + telegram_backend" where
  "parse_backend value =
     (case backend_from_str value of
        Inl e \<Rightarrow> Inl (Other (lit ''invalid Telegram block backend: '' @ e))
      | Inr b \<Rightarrow> Inr b)"

definition block_from_row :: "block_row \<Rightarrow> int \<Rightarrow> int \<Rightarrow> int \<Rightarrow> error + block_ref" where
  "block_from_row b ordinal offset sz =
     (case parse_backend (trow_backend b) of
        Inl e \<Rightarrow> Inl e
      | Inr backend \<Rightarrow> Inr \<lparr>blk_id = trow_id b, blk_ordinal = ordinal, blk_offset = offset,
          blk_size = sz, blk_chat_id = trow_chat_id b, blk_message_id = trow_message_id b,
          blk_backend = backend, blk_document_id = trow_document_id b,
          blk_file_id = trow_file_id b, blk_file_unique_id = trow_file_unique_id b,
          blk_message_date = trow_message_date b\<rparr>)"

definition object_block_ref :: "block_row \<times> object_block_row \<Rightarrow> error + block_ref" where
  "object_block_ref = (\<lambda>(b, r). block_from_row b (ob_ordinal r) (ob_byte_offset r) (ob_size r))"

definition part_block_ref :: "block_row \<times> part_block_row \<Rightarrow> error + block_ref" where
  "part_block_ref = (\<lambda>(b, r). block_from_row b (pb_ordinal r) (pb_byte_offset r) (pb_size r))"

definition upload_from_row :: "upload_row \<Rightarrow> upload_record" where
  "upload_from_row r = \<lparr>up_upload_id = urow_upload_id r, up_bucket = urow_bucket r,
     up_key = urow_key r, up_metadata = urow_metadata r, up_kind = urow_kind r,
     up_created_at = urow_created_at r\<rparr>"

definition load_object_blocks :: "int \<Rightarrow> db \<Rightarrow> error + block_ref list" where
  "load_object_blocks oid d =
     traverse object_block_ref
       (join_blocks d ob_block_id (sort_key ob_ordinal (rows_of_object d oid)))"

section \<open>The layout of blocks\<close>

text \<open>
  The inner loop over the blocks of a part or object: sizes positive, offsets contiguous from
  \<open>offset\<close>, no block id twice (the set \<open>ids\<close> is the code's \<open>HashSet\<close>), no overflow.
\<close>

fun check_blocks :: "int \<Rightarrow> int set \<Rightarrow> block_ref list \<Rightarrow> error + (int \<times> int set)" where
  "check_blocks offset ids [] = Inr (offset, ids)"
| "check_blocks offset ids (b # bs) =
     (if blk_size b \<le> 0 \<or> blk_offset b \<noteq> offset \<or> blk_id b \<in> ids then Inl InvalidLayout
      else (case checked_add offset (blk_size b) of
              None \<Rightarrow> Inl InvalidLayout
            | Some offset' \<Rightarrow> check_blocks offset' (insert (blk_id b) ids) bs))"

fun check_parts :: "int \<Rightarrow> int set \<Rightarrow> part_record list \<Rightarrow> error + int" where
  "check_parts tot ids [] = Inr tot"
| "check_parts tot ids (p # ps) =
     (case check_blocks 0 ids (part_blocks p) of
        Inl e \<Rightarrow> Inl e
      | Inr (offset, ids') \<Rightarrow>
          if offset \<noteq> part_size p then Inl InvalidLayout
          else (case checked_add tot offset of
                  None \<Rightarrow> Inl InvalidLayout
                | Some tot' \<Rightarrow> check_parts tot' ids' ps))"

definition validate_parts_layout :: "part_record list \<Rightarrow> error + int" where
  "validate_parts_layout parts = check_parts 0 {} parts"

section \<open>Reference counts\<close>

definition decrement_block :: "int \<Rightarrow> int \<Rightarrow> db \<Rightarrow> db" where
  "decrement_block t b d =
     (let d' = update_block b
            (\<lambda>r. r\<lparr>trow_ref_count := if trow_ref_count r > 0 then trow_ref_count r - 1 else 0\<rparr>) d
      in if list_ex (\<lambda>r. trow_id r = b \<and> trow_ref_count r = 0) (telegram_blocks d')
         then enqueue_gc b t d' else d')"

definition decrement_blocks :: "int \<Rightarrow> block_ref list \<Rightarrow> db \<Rightarrow> db" where
  "decrement_blocks t bs d = fold (\<lambda>b. decrement_block t (blk_id b)) bs d"

text \<open>\<open>remove_existing_object\<close>: the deleted object's id and blocks, or \<open>None\<close>.\<close>

definition remove_existing_object ::
  "int \<Rightarrow> str \<Rightarrow> str \<Rightarrow> object_condition \<Rightarrow> db \<Rightarrow> error + ((int \<times> block_ref list) option \<times> db)"
where
  "remove_existing_object t bucket key condition d =
     (let old = (case object_rows d bucket key of [] \<Rightarrow> None | r # _ \<Rightarrow> Some r)
      in if \<not> condition_allows condition (map_option orow_etag old) then Inl PreconditionFailed
         else (case old of
                 None \<Rightarrow> Inr (None, d)
               | Some r \<Rightarrow>
                   (case load_object_blocks (orow_id r) d of
                      Inl e \<Rightarrow> Inl e
                    | Inr old_blocks \<Rightarrow>
                        Inr (Some (orow_id r, old_blocks),
                             decrement_blocks t old_blocks (delete_object_row (orow_id r) d)))))"

definition ensure_blocks_not_queued :: "int list \<Rightarrow> db \<Rightarrow> error + unit" where
  "ensure_blocks_not_queued ids d =
     (if ids = [] then Inr ()
      else if list_ex (\<lambda>q. q_block_id q \<in> set ids) (gc_queue d) then Inl SlowDownGc
      else Inr ())"

section \<open>Checking a completion against the persisted parts\<close>

text \<open>\<open>entry(k).or_default().push(x)\<close>.\<close>

definition push_entry :: "'k \<times> 'v \<Rightarrow> ('k \<rightharpoonup> 'v list) \<Rightarrow> ('k \<rightharpoonup> 'v list)" where
  "push_entry = (\<lambda>(k, x) m. m(k \<mapsto> (case m k of None \<Rightarrow> [] | Some l \<Rightarrow> l) @ [x]))"

definition group_entries :: "('k \<times> 'v) list \<Rightarrow> ('k \<rightharpoonup> 'v list)" where
  "group_entries kvs = fold push_entry kvs Map.empty"

text \<open>The rows of an upload's part blocks, \<open>ORDER BY part_number, ordinal\<close>.\<close>

definition ordered_part_blocks :: "db \<Rightarrow> str \<Rightarrow> part_block_row list" where
  "ordered_part_blocks d u =
     sort_key pb_number (sort_key pb_ordinal (rows_of_upload d u))"

fun blocks_agree :: "(int \<times> int \<times> int) list \<Rightarrow> block_ref list \<Rightarrow> bool" where
  "blocks_agree actual blocks \<longleftrightarrow>
     length actual = length blocks
     \<and> list_all (\<lambda>((i, offset, sz), b). i = blk_id b \<and> offset = blk_offset b \<and> sz = blk_size b)
         (zip actual blocks)"

fun verify_parts_loop ::
  "(int \<rightharpoonup> int \<times> str) \<Rightarrow> (int \<rightharpoonup> (int \<times> int \<times> int) list) \<Rightarrow> int set \<Rightarrow> part_record list
     \<Rightarrow> error + unit"
where
  "verify_parts_loop persisted pblocks seen [] = Inr ()"
| "verify_parts_loop persisted pblocks seen (p # ps) =
     (if part_number p \<in> seen then Inl InvalidPart
      else (case persisted (part_number p) of
              None \<Rightarrow> Inl InvalidPart
            | Some (sz, etag) \<Rightarrow>
                if sz \<noteq> part_size p \<or> normalize_etag etag \<noteq> normalize_etag (part_etag p)
                then Inl InvalidPart
                else if \<not> blocks_agree (case pblocks (part_number p) of None \<Rightarrow> [] | Some l \<Rightarrow> l)
                            (part_blocks p)
                then Inl InvalidPart
                else verify_parts_loop (persisted(part_number p := None))
                       (pblocks(part_number p := None)) (insert (part_number p) seen) ps))"

definition verify_parts :: "str \<Rightarrow> part_record list \<Rightarrow> db \<Rightarrow> error + unit" where
  "verify_parts u parts d =
     verify_parts_loop
       (map_of (rev (map (\<lambda>r. (prow_number r, (prow_size r, prow_etag r)))
          (sort_key prow_number (filter (\<lambda>r. prow_upload_id r = u) (multipart_parts d))))))
       (group_entries (map (\<lambda>r. (pb_number r, (pb_block_id r, pb_byte_offset r, pb_size r)))
          (ordered_part_blocks d u)))
       {} parts"

section \<open>Lemmas\<close>

lemma parse_backend_as_str [simp]: "parse_backend (backend_as_str b) = Inr b"
  by (simp add: parse_backend_def)

lemma block_from_row_Inr:
  "block_from_row b n off sz = Inr r \<Longrightarrow>
     blk_id r = trow_id b \<and> blk_ordinal r = n \<and> blk_offset r = off \<and> blk_size r = sz
     \<and> blk_message_id r = trow_message_id b"
  by (auto simp: block_from_row_def split: sum.splits)

lemma group_entries_lookup:
  "fold push_entry kvs m k =
     (let l = map snd (filter (\<lambda>x. fst x = k) kvs)
      in if l = [] then m k else Some ((case m k of None \<Rightarrow> [] | Some l0 \<Rightarrow> l0) @ l))"
  by (induction kvs arbitrary: m) (auto simp: push_entry_def Let_def split: option.splits)

lemma group_entries_eq:
  "(case group_entries kvs k of None \<Rightarrow> [] | Some l \<Rightarrow> l) = map snd (filter (\<lambda>x. fst x = k) kvs)"
  by (simp add: group_entries_def group_entries_lookup Let_def)

text \<open>What a successful \<open>check_blocks\<close> means.\<close>

fun contiguous :: "int \<Rightarrow> block_ref list \<Rightarrow> bool" where
  "contiguous offset [] \<longleftrightarrow> True"
| "contiguous offset (b # bs) \<longleftrightarrow>
     0 < blk_size b \<and> blk_offset b = offset \<and> contiguous (offset + blk_size b) bs"

definition total_size :: "block_ref list \<Rightarrow> int" where
  "total_size bs = sum_list (map blk_size bs)"

lemma total_size_simps [simp]:
  "total_size [] = 0" "total_size (b # bs) = blk_size b + total_size bs"
  "total_size (bs @ cs) = total_size bs + total_size cs"
  by (simp_all add: total_size_def)

lemma contiguous_total_nonneg: "contiguous offset bs \<Longrightarrow> 0 \<le> total_size bs"
  by (induction offset bs rule: contiguous.induct) auto

lemma check_blocks_Inr_iff:
  "0 \<le> offset \<Longrightarrow> offset \<le> i64_max \<Longrightarrow>
   check_blocks offset ids bs = Inr (offset', ids') \<longleftrightarrow>
     contiguous offset bs \<and> distinct (map blk_id bs) \<and> set (map blk_id bs) \<inter> ids = {}
     \<and> offset' = offset + total_size bs \<and> ids' = ids \<union> set (map blk_id bs)
     \<and> offset + total_size bs \<le> i64_max"
proof (induction bs arbitrary: offset ids)
  case Nil
  then show ?case by auto
next
  case (Cons b bs)
  show ?case
  proof (cases "blk_size b \<le> 0 \<or> blk_offset b \<noteq> offset \<or> blk_id b \<in> ids
      \<or> \<not> in_i64 (offset + blk_size b)")
    case True
    then show ?thesis
      using Cons.prems contiguous_total_nonneg [of "offset + blk_size b" bs]
      by (auto simp: i64_defs checked_add_def)
  next
    case False
    then have "0 \<le> offset + blk_size b" "offset + blk_size b \<le> i64_max"
      using Cons.prems by (auto simp: in_i64_def)
    then show ?thesis
      using False Cons.IH [of "offset + blk_size b" "insert (blk_id b) ids"]
      by (auto simp: checked_add_def)
  qed
qed

lemma part_sizes_nonneg:
  "(\<forall>q \<in> set ps. contiguous 0 (part_blocks q) \<and> total_size (part_blocks q) = part_size q)
     \<Longrightarrow> 0 \<le> sum_list (map part_size ps)"
proof (induction ps)
  case (Cons p ps)
  then show ?case using contiguous_total_nonneg [of 0 "part_blocks p"] by auto
qed simp

lemma check_parts_Inr_iff:
  "0 \<le> tot \<Longrightarrow> tot \<le> i64_max \<Longrightarrow>
   check_parts tot ids ps = Inr tot' \<longleftrightarrow>
     (\<forall>p \<in> set ps. contiguous 0 (part_blocks p) \<and> total_size (part_blocks p) = part_size p)
     \<and> distinct (map blk_id (concat (map part_blocks ps)))
     \<and> set (map blk_id (concat (map part_blocks ps))) \<inter> ids = {}
     \<and> tot' = tot + sum_list (map part_size ps) \<and> tot' \<le> i64_max"
proof (induction ps arbitrary: tot ids)
  case Nil
  then show ?case by auto
next
  case (Cons p ps)
  show ?case
  proof (cases "check_blocks 0 ids (part_blocks p)")
    case (Inl e)
    have no: "\<not> (contiguous 0 (part_blocks p) \<and> distinct (map blk_id (part_blocks p))
        \<and> set (map blk_id (part_blocks p)) \<inter> ids = {}
        \<and> total_size (part_blocks p) \<le> i64_max)"
      using check_blocks_Inr_iff [of 0 ids "part_blocks p"] Inl by (auto simp: i64_max_def)
    have lhs: "check_parts tot ids (p # ps) = Inr tot' \<longleftrightarrow> False"
      using Inl by simp
    show ?thesis
      unfolding lhs
    proof (rule iffI, blast, elim conjE)
      assume ps: "\<forall>p \<in> set (p # ps). contiguous 0 (part_blocks p)
          \<and> total_size (part_blocks p) = part_size p"
        and dst: "distinct (map blk_id (concat (map part_blocks (p # ps))))"
        and disj: "set (map blk_id (concat (map part_blocks (p # ps)))) \<inter> ids = {}"
        and sz: "tot' = tot + sum_list (map part_size (p # ps))" "tot' \<le> i64_max"
      from ps have "0 \<le> sum_list (map part_size ps)" by (intro part_sizes_nonneg) simp
      with sz ps Cons.prems have "total_size (part_blocks p) \<le> i64_max" by simp
      moreover have "set (map blk_id (part_blocks p)) \<inter> ids = {}" using disj by auto
      moreover have "distinct (map blk_id (part_blocks p))" using dst by simp
      ultimately show False using no ps by simp
    qed
  next
    case (Inr r)
    then obtain offset' ids' where r: "check_blocks 0 ids (part_blocks p) = Inr (offset', ids')"
      by (cases r) auto
    then have c: "contiguous 0 (part_blocks p)" "distinct (map blk_id (part_blocks p))"
        "set (map blk_id (part_blocks p)) \<inter> ids = {}" "offset' = total_size (part_blocks p)"
        "ids' = ids \<union> set (map blk_id (part_blocks p))" "offset' \<le> i64_max"
      using check_blocks_Inr_iff [of 0 ids "part_blocks p"] by (auto simp: i64_max_def)
    have nn: "0 \<le> offset'" using c(1,4) by (simp add: contiguous_total_nonneg)
    show ?thesis
    proof (cases "offset' = part_size p \<and> tot + offset' \<le> i64_max")
      case True
      then have "in_i64 (tot + offset')"
        using Cons.prems nn by (auto simp: i64_defs)
      then have step: "check_parts tot ids (p # ps) = check_parts (tot + offset') ids' ps"
        using True r by (simp add: checked_add_def)
      have "0 \<le> tot + offset'" "tot + offset' \<le> i64_max" using True Cons.prems nn by auto
      note IH = Cons.IH [OF this, of ids', unfolded c(5)]
      define A where "A = set (map blk_id (part_blocks p))"
      define B where "B = set (map blk_id (concat (map part_blocks ps)))"
      have dst: "distinct (map blk_id (concat (map part_blocks (p # ps)))) \<longleftrightarrow>
          distinct (map blk_id (concat (map part_blocks ps))) \<and> A \<inter> B = {}"
        using c(2) unfolding A_def B_def by simp
      have un: "set (map blk_id (concat (map part_blocks (p # ps)))) = A \<union> B"
        unfolding A_def B_def by simp
      have e1: "B \<inter> (ids \<union> A) = {} \<longleftrightarrow> B \<inter> ids = {} \<and> A \<inter> B = {}" by blast
      have e2: "(A \<union> B) \<inter> ids = {} \<longleftrightarrow> B \<inter> ids = {}"
        using c(3) unfolding A_def by blast
      show ?thesis
        unfolding step c(5) IH unfolding dst un A_def [symmetric] B_def [symmetric] e1 e2
        using True c(1,4) by (simp add: add.assoc) metis
    next
      case False
      then have lhs: "check_parts tot ids (p # ps) = Inr tot' \<longleftrightarrow> False"
        using r Cons.prems nn by (auto simp: i64_defs checked_add_def)
      show ?thesis
        unfolding lhs
      proof (rule iffI, blast, elim conjE)
        assume ps: "\<forall>p \<in> set (p # ps). contiguous 0 (part_blocks p)
            \<and> total_size (part_blocks p) = part_size p"
          and sz: "tot' = tot + sum_list (map part_size (p # ps))" "tot' \<le> i64_max"
        from ps have "0 \<le> sum_list (map part_size ps)" by (intro part_sizes_nonneg) simp
        with sz ps c(4) False show False by simp
      qed
    qed
  qed
qed

text \<open>What \<open>validate_parts_layout\<close> accepts.\<close>

lemma validate_parts_layout_iff:
  "validate_parts_layout parts = Inr sz \<longleftrightarrow>
     (\<forall>p \<in> set parts. contiguous 0 (part_blocks p) \<and> total_size (part_blocks p) = part_size p)
     \<and> distinct (map blk_id (concat (map part_blocks parts)))
     \<and> sz = sum_list (map part_size parts) \<and> sz \<le> i64_max"
  unfolding validate_parts_layout_def
  by (subst check_parts_Inr_iff) (auto simp: i64_max_def)

end
