(* ===== verification/Db_Ops.thy ===== *)
theory Db_Ops
  imports Db_Support
begin

text \<open>
  The \<open>Db\<close> methods of \<open>src/db/bucket.rs\<close>, \<open>object.rs\<close>, \<open>multipart.rs\<close> and \<open>gc.rs\<close>, in
  that order. A method that writes returns \<open>(error + result) \<times> db\<close>: \<open>transact\<close> keeps the old
  database when the transaction's body ends in an error. A method that only reads returns
  \<open>error + result\<close>. Every method is one atomic step: SQLite runs one write transaction at a
  time, and each writing method takes the write lock before it reads what it decides on.
  The parameter \<open>t\<close> is the value of \<open>now()\<close> during the call.
\<close>

definition transact :: "db \<Rightarrow> error + ('a \<times> db) \<Rightarrow> (error + 'a) \<times> db" where
  "transact d r = (case r of Inl e \<Rightarrow> (Inl e, d) | Inr (x, d') \<Rightarrow> (Inr x, d'))"

section \<open>Buckets (\<open>bucket.rs\<close>)\<close>

definition create_bucket :: "int \<Rightarrow> str \<Rightarrow> db \<Rightarrow> bool \<times> db" where
  "create_bucket t name d =
     (if bucket_named d name then (False, d)
      else (True, d\<lparr>buckets := buckets d @ [\<lparr>brow_name = name, brow_created_at = t\<rparr>]\<rparr>))"

definition bucket_exists :: "str \<Rightarrow> db \<Rightarrow> bool" where
  "bucket_exists name d \<longleftrightarrow> bucket_named d name"

definition has_backend :: "telegram_backend \<Rightarrow> db \<Rightarrow> bool" where
  "has_backend b d \<longleftrightarrow> list_ex (\<lambda>r. trow_backend r = backend_as_str b) (telegram_blocks d)"

definition list_buckets :: "db \<Rightarrow> bucket_record list" where
  "list_buckets d =
     map (\<lambda>r. \<lparr>bkt_name = brow_name r, bkt_created_at = brow_created_at r\<rparr>)
       (sort_key brow_name (buckets d))"

definition delete_bucket :: "str \<Rightarrow> db \<Rightarrow> bool option \<times> db" where
  "delete_bucket name d =
     (if \<not> bucket_named d name then (None, d)
      else if list_ex (\<lambda>r. orow_bucket r = name) (objects d)
        \<or> list_ex (\<lambda>r. urow_bucket r = name) (multipart_uploads d) then (Some False, d)
      else (Some True,
        d\<lparr>bucket_cors := filter (\<lambda>r. crow_bucket r \<noteq> name) (bucket_cors d),
          buckets := filter (\<lambda>r. brow_name r \<noteq> name) (buckets d)\<rparr>))"

definition get_bucket_cors :: "str \<Rightarrow> db \<Rightarrow> cors_configuration option" where
  "get_bucket_cors bucket d =
     (case filter (\<lambda>r. crow_bucket r = bucket) (bucket_cors d) of
        [] \<Rightarrow> None | r # _ \<Rightarrow> Some (crow_configuration r))"

definition set_bucket_cors :: "int \<Rightarrow> str \<Rightarrow> cors_configuration \<Rightarrow> db \<Rightarrow> db" where
  "set_bucket_cors t bucket configuration d =
     (if bucket \<in> set (map crow_bucket (bucket_cors d))
      then d\<lparr>bucket_cors := map (\<lambda>r. if crow_bucket r = bucket
               then r\<lparr>crow_configuration := configuration, crow_updated_at := t\<rparr> else r)
             (bucket_cors d)\<rparr>
      else d\<lparr>bucket_cors := bucket_cors d @ [\<lparr>crow_bucket = bucket,
               crow_configuration = configuration, crow_created_at = t, crow_updated_at = t\<rparr>]\<rparr>)"

definition delete_bucket_cors :: "str \<Rightarrow> db \<Rightarrow> db" where
  "delete_bucket_cors bucket d =
     d\<lparr>bucket_cors := filter (\<lambda>r. crow_bucket r \<noteq> bucket) (bucket_cors d)\<rparr>"

section \<open>Objects (\<open>object.rs\<close>)\<close>

definition object_from_row :: "object_row \<Rightarrow> block_ref list \<Rightarrow> object_record" where
  "object_from_row r blocks = \<lparr>obj_id = orow_id r, obj_bucket = orow_bucket r,
     obj_key = orow_key r, obj_size = orow_size r, obj_etag = orow_etag r,
     obj_metadata = orow_metadata r, obj_created_at = orow_created_at r,
     obj_modified_at = orow_modified_at r, obj_blocks = blocks\<rparr>"

definition get_object :: "str \<Rightarrow> str \<Rightarrow> db \<Rightarrow> error + object_record option" where
  "get_object bucket key d =
     (case object_rows d bucket key of
        [] \<Rightarrow> Inr None
      | r # _ \<Rightarrow>
          (case load_object_blocks (orow_id r) d of
             Inl e \<Rightarrow> Inl e
           | Inr blocks \<Rightarrow> Inr (Some (object_from_row r blocks))))"

text \<open>
  The listing query: keys \<open>\<ge>\<close> or \<open>>\<close> the lower bound, below the successor of the prefix
  when there is one, in key order, at most \<open>limit\<close> rows.
\<close>

definition list_objects ::
  "str \<Rightarrow> str \<Rightarrow> str \<Rightarrow> bool \<Rightarrow> nat \<Rightarrow> db \<Rightarrow> listing_record list"
where
  "list_objects bucket pre lower lower_inclusive limit d =
     (let (lower, lower_inclusive) =
            (if lower < pre then (pre, True) else (lower, lower_inclusive));
          upper = (if pre = [] then None else key_successor pre)
      in map (\<lambda>r. \<lparr>lst_key = orow_key r, lst_size = orow_size r, lst_etag = orow_etag r,
                   lst_modified_at = orow_modified_at r\<rparr>)
           (take limit (sort_key orow_key
              (filter (\<lambda>r. orow_bucket r = bucket
                 \<and> (if lower_inclusive then lower \<le> orow_key r else lower < orow_key r)
                 \<and> (case upper of None \<Rightarrow> True | Some u \<Rightarrow> orow_key r < u)) (objects d)))))"

definition delete_object ::
  "int \<Rightarrow> str \<Rightarrow> str \<Rightarrow> object_condition \<Rightarrow> db \<Rightarrow> (error + object_record option) \<times> db"
where
  "delete_object t bucket key condition d =
     transact d
       (case remove_existing_object t bucket key condition d of
          Inl e \<Rightarrow> Inl e
        | Inr (None, _) \<Rightarrow> Inr (None, d)
        | Inr (Some (oid, old_blocks), d') \<Rightarrow>
            Inr (Some \<lparr>obj_id = oid, obj_bucket = bucket, obj_key = key, obj_size = 0,
                   obj_etag = [], obj_metadata = default_metadata, obj_created_at = 0,
                   obj_modified_at = 0, obj_blocks = old_blocks\<rparr>, d'))"

text \<open>The body of the loop of \<open>copy_object\<close> over the source's blocks.\<close>

definition copy_block :: "int \<Rightarrow> block_ref \<Rightarrow> db \<Rightarrow> error + db" where
  "copy_block oid b d =
     insert_object_block \<lparr>ob_object_id = oid, ob_ordinal = blk_ordinal b,
         ob_block_id = blk_id b, ob_byte_offset = blk_offset b, ob_size = blk_size b\<rparr>
       (dequeue_gc (blk_id b)
         (update_block (blk_id b)
           (\<lambda>r. r\<lparr>trow_ref_count := trow_ref_count r + 1, trow_state := Committed\<rparr>) d))"

definition copy_object_tx ::
  "int \<Rightarrow> object_record \<Rightarrow> str \<Rightarrow> str \<Rightarrow> object_metadata \<Rightarrow> object_condition \<Rightarrow> db
     \<Rightarrow> error + (block_ref list \<times> db)"
where
  "copy_object_tx t source bucket key metadata condition d =
     (if length (filter (\<lambda>r. orow_id r = obj_id source \<and> orow_bucket r = obj_bucket source
            \<and> orow_key r = obj_key source) (objects d)) \<noteq> 1
      then Inl NoSuchKey
      else
        bind_res (ensure_blocks_not_queued (map blk_id (obj_blocks source)) d) (\<lambda>_.
        bind_res (remove_existing_object t bucket key condition d) (\<lambda>(removed, d1).
        bind_res (insert_object \<lparr>orow_id = 0, orow_bucket = bucket, orow_key = key,
            orow_size = obj_size source, orow_etag = obj_etag source, orow_metadata = metadata,
            orow_created_at = t, orow_modified_at = t\<rparr> d1) (\<lambda>(oid, d2).
        bind_res (fold_res (copy_block oid) (obj_blocks source) d2) (\<lambda>d3.
        Inr (case removed of None \<Rightarrow> [] | Some (_, blocks) \<Rightarrow> blocks, d3))))))"

text \<open>After the commit the new object is read back, outside the transaction.\<close>

definition read_back ::
  "str \<Rightarrow> str \<Rightarrow> error \<Rightarrow> (error + 'a) \<times> db \<Rightarrow> (error + object_record \<times> 'a) \<times> db"
where
  "read_back bucket key missing = (\<lambda>(r, d).
     (case r of
        Inl e \<Rightarrow> (Inl e, d)
      | Inr x \<Rightarrow>
          (case get_object bucket key d of
             Inl e \<Rightarrow> (Inl e, d)
           | Inr None \<Rightarrow> (Inl missing, d)
           | Inr (Some ob) \<Rightarrow> (Inr (ob, x), d))))"

definition copy_object ::
  "int \<Rightarrow> object_record \<Rightarrow> str \<Rightarrow> str \<Rightarrow> object_metadata \<Rightarrow> object_condition \<Rightarrow> db
     \<Rightarrow> (error + object_record \<times> block_ref list) \<times> db"
where
  "copy_object t source bucket key metadata condition d =
     read_back bucket key (Other (lit ''copy result disappeared''))
       (transact d (copy_object_tx t source bucket key metadata condition d))"

section \<open>Multipart uploads (\<open>multipart.rs\<close>)\<close>

definition create_upload :: "upload_record \<Rightarrow> db \<Rightarrow> (error + unit) \<times> db" where
  "create_upload up d =
     transact d
       (if \<not> bucket_named d (up_bucket up) then Inl NoSuchBucket
        else bind_res (insert_upload \<lparr>urow_upload_id = up_upload_id up,
               urow_bucket = up_bucket up, urow_key = up_key up, urow_metadata = up_metadata up,
               urow_kind = up_kind up, urow_created_at = up_created_at up\<rparr> d)
             (\<lambda>d'. Inr ((), d')))"

definition get_upload :: "str \<Rightarrow> db \<Rightarrow> upload_record option" where
  "get_upload u d =
     (case upload_rows d u of [] \<Rightarrow> None | r # _ \<Rightarrow> Some (upload_from_row r))"

definition list_uploads :: "str \<Rightarrow> str option \<Rightarrow> db \<Rightarrow> upload_record list" where
  "list_uploads bucket key d =
     map upload_from_row (sort_key urow_created_at
       (filter (\<lambda>r. urow_bucket r = bucket \<and> (case key of None \<Rightarrow> True | Some k \<Rightarrow> urow_key r = k))
         (multipart_uploads d)))"

definition add_staged_block :: "int \<Rightarrow> block_ref \<Rightarrow> db \<Rightarrow> (error + int) \<times> db" where
  "add_staged_block t b d =
     transact d (insert_telegram_block \<lparr>trow_id = 0, trow_chat_id = blk_chat_id b,
        trow_message_id = blk_message_id b, trow_backend = backend_as_str (blk_backend b),
        trow_document_id = blk_document_id b, trow_file_id = blk_file_id b,
        trow_file_unique_id = blk_file_unique_id b, trow_size = blk_size b,
        trow_message_date = blk_message_date b, trow_ref_count = 1, trow_state = Staged,
        trow_created_at = t\<rparr> d)"

definition insert_part_blocks :: "str \<Rightarrow> int \<Rightarrow> block_ref list \<Rightarrow> db \<Rightarrow> error + db" where
  "insert_part_blocks u n blocks d =
     fold_res (\<lambda>(ordinal, b). insert_part_block \<lparr>pb_upload_id = u, pb_number = n,
         pb_ordinal = int ordinal, pb_block_id = blk_id b, pb_byte_offset = blk_offset b,
         pb_size = blk_size b\<rparr>)
       (enumerate 0 blocks) d"

text \<open>
  \<open>replace_part\<close>: the blocks of the part's previous upload are read before the part is
  deleted; those the new upload does not keep lose a reference and are returned. (An error
  rolls everything back, so decoding all old rows before the first decrement is the same as
  the code's interleaving.)
\<close>

definition replace_part_tx ::
  "int \<Rightarrow> str \<Rightarrow> int \<Rightarrow> int \<Rightarrow> str \<Rightarrow> block_ref list \<Rightarrow> db \<Rightarrow> error + (block_ref list \<times> db)"
where
  "replace_part_tx t u n sz etag blocks d =
     (if length (upload_rows d u) \<noteq> 1 then Inl NoSuchUpload
      else
        bind_res (ensure_blocks_not_queued (map blk_id blocks) d) (\<lambda>_.
        if \<not> distinct (map blk_id blocks) then Inl InvalidPart
        else
        bind_res (traverse part_block_ref
            (join_blocks d pb_block_id (sort_key pb_ordinal (rows_of_part d u n)))) (\<lambda>old.
        let released = filter (\<lambda>b. blk_id b \<notin> set (map blk_id blocks)) old;
            d1 = decrement_blocks t released (delete_part_row u n d)
        in
        bind_res (insert_part \<lparr>prow_upload_id = u, prow_number = n, prow_size = sz,
            prow_etag = etag\<rparr> d1) (\<lambda>d2.
        bind_res (insert_part_blocks u n blocks d2) (\<lambda>d3.
        Inr (released, d3))))))"

definition replace_part ::
  "int \<Rightarrow> str \<Rightarrow> int \<Rightarrow> int \<Rightarrow> str \<Rightarrow> block_ref list \<Rightarrow> db \<Rightarrow> (error + block_ref list) \<times> db"
where
  "replace_part t u n sz etag blocks d = transact d (replace_part_tx t u n sz etag blocks d)"

definition get_parts :: "str \<Rightarrow> bool \<Rightarrow> db \<Rightarrow> error + part_record list" where
  "get_parts u include_internal d =
     (let rows = sort_key prow_number (filter (\<lambda>r. prow_upload_id r = u
                   \<and> (include_internal \<or> 0 < prow_number r)) (multipart_parts d));
          block_rows = join_blocks d pb_block_id
            (filter (\<lambda>r. include_internal \<or> 0 < pb_number r) (ordered_part_blocks d u))
      in bind_res (traverse (\<lambda>x. bind_res (part_block_ref x) (\<lambda>b. Inr (pb_number (snd x), b)))
             block_rows) (\<lambda>entries.
         let blocks_by_part = group_entries entries
         in Inr (map (\<lambda>r. \<lparr>part_upload_id = prow_upload_id r, part_number = prow_number r,
                    part_size = prow_size r, part_etag = prow_etag r,
                    part_blocks = (case blocks_by_part (prow_number r) of
                                     None \<Rightarrow> [] | Some l \<Rightarrow> l)\<rparr>) rows)))"

text \<open>
  The nested loop of \<open>commit_upload\<close> over the parts' blocks, with its counters \<open>ordinal\<close>
  and \<open>offset\<close>. The code adds them without a check; \<open>commit_offsets_in_i64\<close> shows that
  the layout check before the loop rules an overflow out.
\<close>

definition attach_block :: "int \<Rightarrow> int \<Rightarrow> int \<Rightarrow> block_ref \<Rightarrow> db \<Rightarrow> error + db" where
  "attach_block oid ordinal offset b d =
     bind_res (insert_object_block \<lparr>ob_object_id = oid, ob_ordinal = ordinal,
         ob_block_id = blk_id b, ob_byte_offset = offset, ob_size = blk_size b\<rparr> d) (\<lambda>d1.
     Inr (dequeue_gc (blk_id b)
       (update_block (blk_id b)
         (\<lambda>r. r\<lparr>trow_ref_count := if trow_ref_count r < 1 then 1 else trow_ref_count r,
                trow_state := Committed\<rparr>) d1)))"

fun attach_blocks :: "int \<Rightarrow> int \<Rightarrow> int \<Rightarrow> block_ref list \<Rightarrow> db \<Rightarrow> error + db" where
  "attach_blocks oid ordinal offset [] d = Inr d"
| "attach_blocks oid ordinal offset (b # bs) d =
     (case attach_block oid ordinal offset b d of
        Inl e \<Rightarrow> Inl e
      | Inr d' \<Rightarrow> attach_blocks oid (ordinal + 1) (offset + blk_size b) bs d')"

definition all_blocks :: "part_record list \<Rightarrow> block_ref list" where
  "all_blocks parts = concat (map part_blocks parts)"

definition commit_upload_tx ::
  "int \<Rightarrow> upload_row \<Rightarrow> int \<Rightarrow> str \<Rightarrow> part_record list \<Rightarrow> object_condition \<Rightarrow> db
     \<Rightarrow> error + (block_ref list \<times> db)"
where
  "commit_upload_tx t up sz etag parts condition d =
     bind_res (verify_parts (urow_upload_id up) parts d) (\<lambda>_.
     bind_res (ensure_blocks_not_queued (map blk_id (all_blocks parts)) d) (\<lambda>_.
     bind_res (remove_existing_object t (urow_bucket up) (urow_key up) condition d)
       (\<lambda>(removed, d1).
     bind_res (insert_object \<lparr>orow_id = 0, orow_bucket = urow_bucket up,
         orow_key = urow_key up, orow_size = sz, orow_etag = etag,
         orow_metadata = urow_metadata up, orow_created_at = urow_created_at up,
         orow_modified_at = t\<rparr> d1) (\<lambda>(oid, d2).
     bind_res (attach_blocks oid 0 0 (all_blocks parts) d2) (\<lambda>d3.
     bind_res (traverse part_block_ref
         (filter (\<lambda>x. pb_number (snd x) \<notin> set (map part_number parts))
           (join_blocks d3 pb_block_id (ordered_part_blocks d3 (urow_upload_id up)))))
       (\<lambda>unused.
     Inr ((case removed of None \<Rightarrow> [] | Some (_, blocks) \<Rightarrow> blocks) @ unused,
          delete_upload_row (urow_upload_id up) (decrement_blocks t unused d3))))))))"

definition commit_upload ::
  "int \<Rightarrow> str \<Rightarrow> int \<Rightarrow> str \<Rightarrow> part_record list \<Rightarrow> object_condition \<Rightarrow> db
     \<Rightarrow> (error + (object_record \<times> block_ref list) option) \<times> db"
where
  "commit_upload t u sz etag parts condition d =
     (case validate_parts_layout parts of
        Inl e \<Rightarrow> (Inl e, d)
      | Inr laid_out \<Rightarrow>
          if laid_out \<noteq> sz then (Inl InvalidLayout, d)
          else (case upload_rows d u of
                  [up] \<Rightarrow>
                    (case read_back (urow_bucket up) (urow_key up)
                            (Other (lit ''object disappeared after commit''))
                            (transact d (commit_upload_tx t up sz etag parts condition d)) of
                       (Inl e, d') \<Rightarrow> (Inl e, d')
                     | (Inr r, d') \<Rightarrow> (Inr (Some r), d'))
                | _ \<Rightarrow> (Inr None, d)))"

definition abort_upload_with_blocks ::
  "int \<Rightarrow> str \<Rightarrow> db \<Rightarrow> (error + block_ref list option) \<times> db"
where
  "abort_upload_with_blocks t u d =
     transact d
       (if length (upload_rows d u) \<noteq> 1 then Inr (None, d)
        else
          bind_res (traverse part_block_ref (join_blocks d pb_block_id (ordered_part_blocks d u)))
            (\<lambda>released. Inr (Some released, decrement_blocks t released (delete_upload_row u d))))"

definition abort_upload :: "int \<Rightarrow> str \<Rightarrow> db \<Rightarrow> (error + bool) \<times> db" where
  "abort_upload t u d =
     (case abort_upload_with_blocks t u d of
        (Inl e, d') \<Rightarrow> (Inl e, d')
      | (Inr r, d') \<Rightarrow> (Inr (r \<noteq> None), d'))"

section \<open>Garbage collection (\<open>gc.rs\<close>)\<close>

text \<open>The guard every deletion of a block row carries.\<close>

definition unreferenced :: "db \<Rightarrow> int \<Rightarrow> bool" where
  "unreferenced d b \<longleftrightarrow> \<not> in_object d b \<and> \<not> in_part d b"

definition garbage_from_row :: "gc_row \<times> block_row \<Rightarrow> error + garbage_record" where
  "garbage_from_row = (\<lambda>(q, b).
     (case parse_backend (trow_backend b) of
        Inl e \<Rightarrow> Inl e
      | Inr backend \<Rightarrow> Inr \<lparr>gb_block_id = q_block_id q, gb_chat_id = trow_chat_id b,
          gb_message_id = trow_message_id b, gb_backend = backend,
          gb_document_id = trow_document_id b, gb_file_id = trow_file_id b,
          gb_file_unique_id = trow_file_unique_id b, gb_message_date = trow_message_date b,
          gb_attempts = q_attempts q, gb_next_attempt = q_next_attempt q,
          gb_last_error = q_last_error q\<rparr>))"

definition collectable :: "int \<Rightarrow> db \<Rightarrow> gc_row \<times> block_row \<Rightarrow> bool" where
  "collectable t d = (\<lambda>(q, b). q_state q = Pending \<and> trow_ref_count b = 0
     \<and> q_next_attempt q \<le> t \<and> unreferenced d (trow_id b))"

definition gc_join :: "db \<Rightarrow> (gc_row \<times> block_row) list" where
  "gc_join d = map (\<lambda>(b, q). (q, b)) (join_blocks d q_block_id (gc_queue d))"

definition gc_candidates :: "int \<Rightarrow> nat \<Rightarrow> db \<Rightarrow> error + garbage_record list" where
  "gc_candidates t limit d =
     (if i64_max < int limit then Inl (Other (lit ''GC limit exceeds SQLite integer range''))
      else traverse garbage_from_row
        (take limit (sort_key (\<lambda>(q, b). q_next_attempt q) (filter (collectable t d) (gc_join d)))))"

definition gc_candidate :: "int \<Rightarrow> int \<Rightarrow> db \<Rightarrow> error + garbage_record option" where
  "gc_candidate bid t d =
     (case filter (\<lambda>x. q_block_id (fst x) = bid \<and> collectable t d x) (gc_join d) of
        [] \<Rightarrow> Inr None
      | x # _ \<Rightarrow> (case garbage_from_row x of Inl e \<Rightarrow> Inl e | Inr g \<Rightarrow> Inr (Some g)))"

text \<open>\<open>gc_success\<close> deletes the block row under its guard; the guard is what the foreign keys
  demand, so \<open>delete_block_row\<close> cannot fail here.\<close>

definition gc_success :: "int \<Rightarrow> db \<Rightarrow> db" where
  "gc_success bid d =
     (if list_ex (\<lambda>r. trow_id r = bid \<and> trow_ref_count r = 0) (telegram_blocks d)
         \<and> unreferenced d bid
      then (case delete_block_row bid d of Inl _ \<Rightarrow> d | Inr d' \<Rightarrow> d')
      else d)"

definition gc_failure :: "int \<Rightarrow> str \<Rightarrow> int \<Rightarrow> db \<Rightarrow> db" where
  "gc_failure bid err next_attempt d =
     d\<lparr>gc_queue := map (\<lambda>q. if q_block_id q = bid
          then q\<lparr>q_attempts := q_attempts q + 1, q_last_error := Some err,
                 q_next_attempt := next_attempt\<rparr> else q) (gc_queue d)\<rparr>"

definition gc_orphan :: "int \<Rightarrow> str \<Rightarrow> db \<Rightarrow> db" where
  "gc_orphan bid err d =
     d\<lparr>gc_queue := map (\<lambda>q. if q_block_id q = bid
          then q\<lparr>q_state := Orphan, q_last_error := Some err\<rparr> else q) (gc_queue d)\<rparr>"

fun expire_loop :: "int \<Rightarrow> str list \<Rightarrow> nat \<Rightarrow> db \<Rightarrow> (error + nat) \<times> db" where
  "expire_loop t [] n d = (Inr n, d)"
| "expire_loop t (u # us) n d =
     (case abort_upload t u d of
        (Inl e, d') \<Rightarrow> (Inl e, d')
      | (Inr aborted, d') \<Rightarrow> expire_loop t us (if aborted then n + 1 else n) d')"

definition expire_uploads :: "int \<Rightarrow> int \<Rightarrow> db \<Rightarrow> (error + nat) \<times> db" where
  "expire_uploads t before d =
     expire_loop t
       (map urow_upload_id (filter (\<lambda>r. urow_created_at r < before) (multipart_uploads d))) 0 d"

definition stale_blocks :: "int \<Rightarrow> nat \<Rightarrow> db \<Rightarrow> error + garbage_record list" where
  "stale_blocks before limit d =
     (if i64_max < int limit
      then Inl (Other (lit ''stale block limit exceeds SQLite integer range''))
      else traverse (\<lambda>b. garbage_from_row (\<lparr>q_block_id = trow_id b, q_attempts = 0,
             q_next_attempt = 0, q_last_error = None, q_state = Pending\<rparr>, b))
        (take limit (sort_key trow_created_at (sort_key trow_id
           (filter (\<lambda>b. trow_state b = Staged \<and> trow_created_at b < before
              \<and> unreferenced d (trow_id b)) (telegram_blocks d))))))"

definition queue_stale_block :: "int \<Rightarrow> int \<Rightarrow> db \<Rightarrow> bool \<times> db" where
  "queue_stale_block t bid d =
     (let d1 = (if unreferenced d bid
                then update_block bid (\<lambda>r. if trow_state r = Staged \<and> 0 < trow_ref_count r
                       then r\<lparr>trow_ref_count := 0\<rparr> else r) d
                else d);
          claimed = (list_ex (\<lambda>r. trow_id r = bid \<and> trow_state r = Staged \<and> trow_ref_count r = 0)
                       (telegram_blocks d1) \<and> unreferenced d1 bid);
          d2 = (if claimed then enqueue_gc bid t d1 else d1)
      in (claimed \<and> queued d2 bid, d2))"

end
