(* ===== verification/Db_Inv.thy ===== *)
theory Db_Inv
  imports Db_Ops
begin

text \<open>
  The invariant of the database and the proof that every \<open>Db\<close> method keeps it.

  \<^item> \<open>keys_ok\<close> and \<open>fk_ok\<close>: what the schema declares (keys, foreign keys), and that every
    stored backend name is one \<open>as_str\<close> writes.
  \<^item> \<open>balanced pend\<close>: the reference count of a block is the number of rows of
    \<open>object_blocks\<close> and \<open>multipart_part_blocks\<close> that name it plus \<open>pend\<close>, the references
    the running transaction has already dropped or moved but not yet accounted for (0 between
    transactions); a block with no reference is either staged and still counted once, or
    counted zero; it is in the collection queue exactly when it is counted zero.
  \<^item> \<open>layouts_ok\<close>: the rows of an object tile the bytes 0 to its size in order, with no
    block twice.
  \<^item> \<open>buckets_ok\<close>: an object or upload sits in an existing bucket.
\<close>

section \<open>The invariant\<close>

definition keys_ok :: "db \<Rightarrow> bool" where
  "keys_ok d \<longleftrightarrow>
     distinct (map trow_id (telegram_blocks d))
     \<and> distinct (map (\<lambda>r. (trow_chat_id r, trow_message_id r)) (telegram_blocks d))
     \<and> distinct (map orow_id (objects d))
     \<and> distinct (map (\<lambda>r. (orow_bucket r, orow_key r)) (objects d))
     \<and> distinct (map urow_upload_id (multipart_uploads d))
     \<and> distinct (map (\<lambda>r. (prow_upload_id r, prow_number r)) (multipart_parts d))
     \<and> distinct (map (\<lambda>r. (pb_upload_id r, pb_number r, pb_ordinal r)) (multipart_part_blocks d))
     \<and> distinct (map q_block_id (gc_queue d))
     \<and> distinct (map brow_name (buckets d))"

definition part_exists :: "db \<Rightarrow> str \<Rightarrow> int \<Rightarrow> bool" where
  "part_exists d u n \<longleftrightarrow>
     (u, n) \<in> set (map (\<lambda>r. (prow_upload_id r, prow_number r)) (multipart_parts d))"

definition fk_ok :: "db \<Rightarrow> bool" where
  "fk_ok d \<longleftrightarrow>
     (\<forall>r \<in> set (object_blocks d).
        ob_object_id r \<in> set (map orow_id (objects d)) \<and> block_exists d (ob_block_id r))
     \<and> (\<forall>r \<in> set (multipart_part_blocks d).
          block_exists d (pb_block_id r) \<and> part_exists d (pb_upload_id r) (pb_number r))
     \<and> (\<forall>r \<in> set (multipart_parts d). prow_upload_id r \<in> set (map urow_upload_id (multipart_uploads d)))
     \<and> (\<forall>q \<in> set (gc_queue d). block_exists d (q_block_id q))
     \<and> (\<forall>r \<in> set (telegram_blocks d). \<exists>b. trow_backend r = backend_as_str b)"

definition obj_refs :: "db \<Rightarrow> int \<Rightarrow> nat" where
  "obj_refs d b = count_list (map ob_block_id (object_blocks d)) b"

definition part_refs :: "db \<Rightarrow> int \<Rightarrow> nat" where
  "part_refs d b = count_list (map pb_block_id (multipart_part_blocks d)) b"

definition refs :: "db \<Rightarrow> int \<Rightarrow> int" where
  "refs d b = int (obj_refs d b) + int (part_refs d b)"

definition row_balanced :: "int \<Rightarrow> bool \<Rightarrow> bool \<Rightarrow> block_row \<Rightarrow> bool" where
  "row_balanced n is_queued is_in_object r \<longleftrightarrow>
     0 \<le> n
     \<and> (0 < n \<longrightarrow> trow_ref_count r = n)
     \<and> (n = 0 \<longrightarrow> trow_ref_count r = 0 \<or> trow_ref_count r = 1 \<and> trow_state r = Staged)
     \<and> (is_queued \<longleftrightarrow> trow_ref_count r = 0)
     \<and> (is_in_object \<longrightarrow> trow_state r = Committed)"

definition balanced :: "(int \<Rightarrow> int) \<Rightarrow> db \<Rightarrow> bool" where
  "balanced pend d \<longleftrightarrow>
     (\<forall>r \<in> set (telegram_blocks d).
        row_balanced (refs d (trow_id r) + pend (trow_id r)) (queued d (trow_id r))
          (in_object d (trow_id r)) r)"

fun rows_laid_out :: "int \<Rightarrow> int \<Rightarrow> object_block_row list \<Rightarrow> bool" where
  "rows_laid_out n offset [] \<longleftrightarrow> True"
| "rows_laid_out n offset (r # rs) \<longleftrightarrow>
     ob_ordinal r = n \<and> ob_byte_offset r = offset \<and> 0 < ob_size r
     \<and> rows_laid_out (n + 1) (offset + ob_size r) rs"

definition layout_ok :: "int \<Rightarrow> object_block_row list \<Rightarrow> bool" where
  "layout_ok sz rows \<longleftrightarrow>
     rows_laid_out 0 0 rows \<and> sum_list (map ob_size rows) = sz
     \<and> distinct (map ob_block_id rows) \<and> sz \<le> i64_max"

definition layouts_ok :: "db \<Rightarrow> bool" where
  "layouts_ok d \<longleftrightarrow> (\<forall>r \<in> set (objects d). layout_ok (orow_size r) (rows_of_object d (orow_id r)))"

definition buckets_ok :: "db \<Rightarrow> bool" where
  "buckets_ok d \<longleftrightarrow>
     (\<forall>r \<in> set (objects d). bucket_named d (orow_bucket r))
     \<and> (\<forall>r \<in> set (multipart_uploads d). bucket_named d (urow_bucket r))"

definition parts_distinct :: "db \<Rightarrow> bool" where
  "parts_distinct d \<longleftrightarrow> (\<forall>u n. distinct (map pb_block_id (rows_of_part d u n)))"

definition schema_ok :: "db \<Rightarrow> bool" where
  "schema_ok d \<longleftrightarrow> keys_ok d \<and> fk_ok d"

definition db_ok :: "db \<Rightarrow> bool" where
  "db_ok d \<longleftrightarrow> schema_ok d \<and> balanced (\<lambda>_. 0) d \<and> layouts_ok d \<and> buckets_ok d \<and> parts_distinct d"

lemmas schema_defs = schema_ok_def keys_ok_def fk_ok_def part_exists_def

lemma db_ok_empty [simp]: "db_ok empty_db"
  by (simp add: db_ok_def schema_defs balanced_def layouts_ok_def buckets_ok_def
      parts_distinct_def rows_of_part_def empty_db_def)

section \<open>Counting lemmas\<close>

lemma refs_pos_iff: "0 < refs d b \<longleftrightarrow> in_object d b \<or> in_part d b"
  unfolding refs_def obj_refs_def part_refs_def in_object_def in_part_def
  using count_list_pos_iff [of "map ob_block_id (object_blocks d)" b]
    count_list_pos_iff [of "map pb_block_id (multipart_part_blocks d)" b] by linarith

lemma refs_nonneg: "0 \<le> refs d b"
  by (simp add: refs_def)

lemma unreferenced_iff_refs: "unreferenced d b \<longleftrightarrow> refs d b = 0"
  using refs_pos_iff [of d b] refs_nonneg [of d b] unfolding unreferenced_def by linarith

lemma unreferenced_not_refs:
  "schema_ok d \<Longrightarrow> \<not> block_exists d b \<Longrightarrow> refs d b = 0 \<and> \<not> queued d b"
proof -
  assume ok: "schema_ok d" and no: "\<not> block_exists d b"
  then have "\<not> in_object d b" "\<not> in_part d b" "\<not> queued d b"
    by (auto simp: schema_defs in_object_def in_part_def queued_def)
  then show ?thesis using refs_pos_iff [of d b] refs_nonneg [of d b] by linarith
qed

section \<open>Joins on a consistent database\<close>

lemma filter_id_singleton:
  assumes "distinct (map f xs)" and "x \<in> set xs"
  shows "filter (\<lambda>y. f y = f x) xs = [x]"
  using assms
proof (induction xs)
  case (Cons a xs)
  have *: "f y \<noteq> f a" if "y \<in> set xs" for y
    using Cons.prems(1) that by (metis distinct.simps(2) image_eqI list.simps(9) set_map)
  show ?case
  proof (cases "x = a")
    case True
    with * show ?thesis by (simp add: filter_eq_Nil_iff)
  next
    case False
    with Cons.prems(2) have "x \<in> set xs" by simp
    with * [OF this] Cons show ?thesis by auto
  qed
qed simp

lemma upload_row_single:
  assumes "schema_ok d" and "r \<in> set (multipart_uploads d)"
  shows "upload_rows d (urow_upload_id r) = [r]"
  unfolding upload_rows_def by (rule filter_id_singleton) (use assms in \<open>simp_all add: schema_defs\<close>)

lemma one_upload:
  assumes "schema_ok d" and "upload_rows d u \<noteq> []"
  shows "\<exists>up. upload_rows d u = [up] \<and> urow_upload_id up = u"
proof -
  from assms(2) obtain r where "r \<in> set (multipart_uploads d)" "urow_upload_id r = u"
    by (auto simp: upload_rows_def filter_empty_conv)
  with upload_row_single [OF assms(1)] show ?thesis by metis
qed

lemma join_blocks_map_snd:
  assumes "schema_ok d" and "\<forall>r \<in> set rows. block_exists d (key r)"
  shows "map snd (join_blocks d key rows) = rows"
  using assms(2)
proof (induction rows)
  case Nil
  then show ?case by (simp add: join_blocks_def)
next
  case (Cons r rows)
  then obtain b where b: "b \<in> set (telegram_blocks d)" "trow_id b = key r"
    by (auto simp: block_exists_def)
  have "filter (\<lambda>x. trow_id x = key r) (telegram_blocks d) = [b]"
    using filter_id_singleton [of trow_id "telegram_blocks d" b] assms(1) b
    by (simp add: schema_defs)
  with Cons show ?case by (simp add: join_blocks_def)
qed

lemma traverse_refs_total:
  assumes "schema_ok d"
    and "\<And>b r. f (b, r) = block_from_row b (o1 r) (o2 r) (o3 r)"
    and "set xs \<subseteq> set (join_blocks d key rows)"
  shows "\<exists>bs. traverse f xs = Inr bs"
proof (rule traverse_ex)
  fix x
  assume x: "x \<in> set xs"
  obtain b r where x': "x = (b, r)" by (cases x) auto
  with x assms(3) have "b \<in> set (telegram_blocks d)" by (auto simp: in_join_blocks)
  with assms(1) obtain k where "trow_backend b = backend_as_str k"
    by (auto simp: schema_defs)
  then show "\<exists>y. f x = Inr y" by (simp add: x' assms(2) block_from_row_def)
qed

lemma join_ids:
  assumes "traverse f (join_blocks d key rows) = Inr bs"
    and "\<And>b r. f (b, r) = block_from_row b (o1 r) (o2 r) (o3 r)"
  shows "map blk_id bs = map (key \<circ> snd) (join_blocks d key rows)"
proof -
  have "map blk_id bs = map (trow_id \<circ> fst) (join_blocks d key rows)"
    using assms(1) by (rule traverse_Inr_map) (auto simp: assms(2) dest: block_from_row_Inr)
  also have "\<dots> = map (key \<circ> snd) (join_blocks d key rows)"
    by (rule map_cong) (auto simp: in_join_blocks)
  finally show ?thesis .
qed

end
