(* ===== verification/Db_Frame.thy ===== *)
theory Db_Frame
  imports Db_Inv
begin

text \<open>
  How each SQL statement changes the parts of the invariant: which tables it leaves alone,
  that it keeps the schema's constraints, and what it does to the reference balance.
\<close>

section \<open>Frames\<close>

lemma update_block_frame [simp]:
  "objects (update_block b f d) = objects d"
  "object_blocks (update_block b f d) = object_blocks d"
  "multipart_part_blocks (update_block b f d) = multipart_part_blocks d"
  "multipart_parts (update_block b f d) = multipart_parts d"
  "multipart_uploads (update_block b f d) = multipart_uploads d"
  "gc_queue (update_block b f d) = gc_queue d"
  "buckets (update_block b f d) = buckets d"
  "bucket_cors (update_block b f d) = bucket_cors d"
  by (simp_all add: update_block_def)

lemma dequeue_gc_frame [simp]:
  "telegram_blocks (dequeue_gc b d) = telegram_blocks d"
  "objects (dequeue_gc b d) = objects d"
  "object_blocks (dequeue_gc b d) = object_blocks d"
  "multipart_part_blocks (dequeue_gc b d) = multipart_part_blocks d"
  "multipart_parts (dequeue_gc b d) = multipart_parts d"
  "multipart_uploads (dequeue_gc b d) = multipart_uploads d"
  "buckets (dequeue_gc b d) = buckets d"
  "bucket_cors (dequeue_gc b d) = bucket_cors d"
  by (simp_all add: dequeue_gc_def)

lemma decrement_block_frame [simp]:
  "objects (decrement_block t b d) = objects d"
  "object_blocks (decrement_block t b d) = object_blocks d"
  "multipart_part_blocks (decrement_block t b d) = multipart_part_blocks d"
  "multipart_parts (decrement_block t b d) = multipart_parts d"
  "multipart_uploads (decrement_block t b d) = multipart_uploads d"
  "buckets (decrement_block t b d) = buckets d"
  "bucket_cors (decrement_block t b d) = bucket_cors d"
  by (simp_all add: decrement_block_def Let_def)

lemma decrement_blocks_simps [simp]:
  "decrement_blocks t [] d = d"
  "decrement_blocks t (b # bs) d = decrement_blocks t bs (decrement_block t (blk_id b) d)"
  by (simp_all add: decrement_blocks_def)

lemma decrement_blocks_frame [simp]:
  "objects (decrement_blocks t bs d) = objects d"
  "object_blocks (decrement_blocks t bs d) = object_blocks d"
  "multipart_part_blocks (decrement_blocks t bs d) = multipart_part_blocks d"
  "multipart_parts (decrement_blocks t bs d) = multipart_parts d"
  "multipart_uploads (decrement_blocks t bs d) = multipart_uploads d"
  "buckets (decrement_blocks t bs d) = buckets d"
  "bucket_cors (decrement_blocks t bs d) = bucket_cors d"
  by (induction bs arbitrary: d) simp_all

lemma delete_object_row_frame [simp]:
  "telegram_blocks (delete_object_row i d) = telegram_blocks d"
  "multipart_part_blocks (delete_object_row i d) = multipart_part_blocks d"
  "multipart_parts (delete_object_row i d) = multipart_parts d"
  "multipart_uploads (delete_object_row i d) = multipart_uploads d"
  "gc_queue (delete_object_row i d) = gc_queue d"
  "buckets (delete_object_row i d) = buckets d"
  by (simp_all add: delete_object_row_def)

lemma delete_part_row_frame [simp]:
  "telegram_blocks (delete_part_row u n d) = telegram_blocks d"
  "objects (delete_part_row u n d) = objects d"
  "object_blocks (delete_part_row u n d) = object_blocks d"
  "multipart_uploads (delete_part_row u n d) = multipart_uploads d"
  "gc_queue (delete_part_row u n d) = gc_queue d"
  "buckets (delete_part_row u n d) = buckets d"
  by (simp_all add: delete_part_row_def)

lemma delete_upload_row_frame [simp]:
  "telegram_blocks (delete_upload_row u d) = telegram_blocks d"
  "objects (delete_upload_row u d) = objects d"
  "object_blocks (delete_upload_row u d) = object_blocks d"
  "gc_queue (delete_upload_row u d) = gc_queue d"
  "buckets (delete_upload_row u d) = buckets d"
  by (simp_all add: delete_upload_row_def)

text \<open>The queries that read one table only are framed with it.\<close>

lemma query_frame:
  "object_blocks d' = object_blocks d \<Longrightarrow> in_object d' b = in_object d b"
  "object_blocks d' = object_blocks d \<Longrightarrow> rows_of_object d' i = rows_of_object d i"
  "object_blocks d' = object_blocks d \<Longrightarrow> obj_refs d' b = obj_refs d b"
  "multipart_part_blocks d' = multipart_part_blocks d \<Longrightarrow> in_part d' b = in_part d b"
  "multipart_part_blocks d' = multipart_part_blocks d \<Longrightarrow> part_refs d' b = part_refs d b"
  "multipart_part_blocks d' = multipart_part_blocks d \<Longrightarrow> rows_of_upload d' u = rows_of_upload d u"
  "multipart_part_blocks d' = multipart_part_blocks d \<Longrightarrow> rows_of_part d' u n = rows_of_part d u n"
  "multipart_parts d' = multipart_parts d \<Longrightarrow> part_exists d' u n = part_exists d u n"
  "gc_queue d' = gc_queue d \<Longrightarrow> queued d' b = queued d b"
  "buckets d' = buckets d \<Longrightarrow> bucket_named d' k = bucket_named d k"
  "objects d' = objects d \<Longrightarrow> object_rows d' bu k = object_rows d bu k"
  "multipart_uploads d' = multipart_uploads d \<Longrightarrow> upload_rows d' u = upload_rows d u"
  "map trow_id (telegram_blocks d') = map trow_id (telegram_blocks d)
     \<Longrightarrow> block_exists d' b = block_exists d b"
  by (simp_all add: query_defs obj_refs_def part_refs_def part_exists_def)

lemma refs_frame:
  "object_blocks d' = object_blocks d \<Longrightarrow> multipart_part_blocks d' = multipart_part_blocks d
     \<Longrightarrow> refs d' b = refs d b"
  by (simp add: refs_def obj_refs_def part_refs_def)

lemma unreferenced_frame:
  "object_blocks d' = object_blocks d \<Longrightarrow> multipart_part_blocks d' = multipart_part_blocks d
     \<Longrightarrow> unreferenced d' b = unreferenced d b"
  by (simp add: unreferenced_def in_object_def in_part_def)

section \<open>Statements keep the schema's constraints\<close>

lemma schema_ok_blocks_mono:
  assumes "schema_ok d"
    and "map trow_id (telegram_blocks d') = map trow_id (telegram_blocks d)"
    and "map (\<lambda>r. (trow_chat_id r, trow_message_id r)) (telegram_blocks d')
           = map (\<lambda>r. (trow_chat_id r, trow_message_id r)) (telegram_blocks d)"
    and "map trow_backend (telegram_blocks d') = map trow_backend (telegram_blocks d)"
    and "objects d' = objects d" "object_blocks d' = object_blocks d"
    and "multipart_part_blocks d' = multipart_part_blocks d"
    and "multipart_parts d' = multipart_parts d" "multipart_uploads d' = multipart_uploads d"
    and "buckets d' = buckets d"
    and "distinct (map q_block_id (gc_queue d'))"
    and "\<forall>q \<in> set (gc_queue d'). block_exists d (q_block_id q)"
  shows "schema_ok d'"
proof -
  have be: "block_exists d' b = block_exists d b" for b
    by (simp only: block_exists_def assms(2))
  have bk: "\<forall>r \<in> set (telegram_blocks d'). \<exists>b. trow_backend r = backend_as_str b"
  proof
    fix r assume "r \<in> set (telegram_blocks d')"
    then have "trow_backend r \<in> set (map trow_backend (telegram_blocks d))"
      by (simp flip: assms(4))
    with assms(1) show "\<exists>b. trow_backend r = backend_as_str b" by (auto simp: schema_defs)
  qed
  have "keys_ok d'"
    using assms(1) unfolding schema_ok_def keys_ok_def assms(2,3,5-10)
    by (simp add: assms(11))
  moreover have "fk_ok d'"
    using assms(1) assms(12) bk unfolding schema_ok_def fk_ok_def be part_exists_def assms(5-9)
    by simp
  ultimately show ?thesis by (simp add: schema_ok_def)
qed

lemma schema_ok_update_block [intro]:
  assumes "schema_ok d"
    and "\<And>r. trow_id (f r) = trow_id r" "\<And>r. trow_chat_id (f r) = trow_chat_id r"
      "\<And>r. trow_message_id (f r) = trow_message_id r" "\<And>r. trow_backend (f r) = trow_backend r"
  shows "schema_ok (update_block b f d)"
  using assms(1)
proof (rule schema_ok_blocks_mono)
  show "map (\<lambda>r. (trow_chat_id r, trow_message_id r)) (telegram_blocks (update_block b f d))
      = map (\<lambda>r. (trow_chat_id r, trow_message_id r)) (telegram_blocks d)"
    and "map trow_backend (telegram_blocks (update_block b f d)) = map trow_backend (telegram_blocks d)"
    by (simp_all add: update_block_def assms)
qed (use assms in \<open>simp_all add: schema_defs\<close>)

lemma schema_ok_dequeue [intro]:
  assumes "schema_ok d"
  shows "schema_ok (dequeue_gc b d)"
  by (rule schema_ok_blocks_mono [OF assms])
    (use assms in \<open>auto simp: schema_defs dequeue_gc_def distinct_map_filter\<close>)

lemma schema_ok_enqueue [intro]:
  assumes "schema_ok d" and "block_exists d b"
  shows "schema_ok (enqueue_gc b t d)"
  by (rule schema_ok_blocks_mono [OF assms(1)])
    (use assms in \<open>auto simp: schema_defs enqueue_gc_def queued_def\<close>)

lemma block_existsI: "r \<in> set (telegram_blocks d) \<Longrightarrow> trow_id r = b \<Longrightarrow> block_exists d b"
  by (auto simp: block_exists_def)

lemma schema_ok_decrement_block [intro]:
  assumes "schema_ok d"
  shows "schema_ok (decrement_block t b d)"
proof -
  define d1 where "d1 = update_block b
      (\<lambda>r. r\<lparr>trow_ref_count := if trow_ref_count r > 0 then trow_ref_count r - 1 else 0\<rparr>) d"
  have ok: "schema_ok d1"
    unfolding d1_def using assms by (rule schema_ok_update_block) simp_all
  have "schema_ok (enqueue_gc b t d1)"
    if "list_ex (\<lambda>r. trow_id r = b \<and> trow_ref_count r = 0) (telegram_blocks d1)"
    using that ok by (auto simp: list_ex_iff intro: schema_ok_enqueue block_existsI)
  with ok show ?thesis
    unfolding decrement_block_def Let_def d1_def [symmetric] by simp
qed

lemma schema_ok_decrement_blocks [intro]: "schema_ok d \<Longrightarrow> schema_ok (decrement_blocks t bs d)"
  by (induction bs arbitrary: d) auto

lemma schema_ok_delete_object [intro]: "schema_ok d \<Longrightarrow> schema_ok (delete_object_row i d)"
  by (auto simp: schema_defs delete_object_row_def distinct_map_filter block_exists_def)

lemma schema_ok_delete_part [intro]: "schema_ok d \<Longrightarrow> schema_ok (delete_part_row u n d)"
  by (force simp: schema_defs delete_part_row_def distinct_map_filter block_exists_def)

lemma schema_ok_delete_upload [intro]: "schema_ok d \<Longrightarrow> schema_ok (delete_upload_row u d)"
  by (force simp: schema_defs delete_upload_row_def distinct_map_filter block_exists_def)

lemma schema_ok_insert_object:
  assumes "schema_ok d" and "insert_object r d = Inr (i, d')"
  shows "schema_ok d'"
proof -
  have d': "d' = d\<lparr>objects := objects d @ [r\<lparr>orow_id := i\<rparr>]\<rparr>" "object_rows d (orow_bucket r) (orow_key r) = []"
    "i = next_rowid (map orow_id (objects d))"
    using assms(2) by (auto simp: insert_object_def Let_def split: if_splits)
  from d'(3) have "i \<notin> set (map orow_id (objects d))" by (simp only: next_rowid_fresh not_False_eq_True)
  with d' have d': "d' = d\<lparr>objects := objects d @ [r\<lparr>orow_id := i\<rparr>]\<rparr>" "object_rows d (orow_bucket r) (orow_key r) = []"
    "i \<notin> set (map orow_id (objects d))" by simp_all
  then show ?thesis
    using assms(1) by (auto simp: schema_defs block_exists_def object_rows_def filter_eq_Nil_iff)
qed

lemma schema_ok_insert_object_block:
  "schema_ok d \<Longrightarrow> insert_object_block r d = Inr d' \<Longrightarrow> schema_ok d'"
  by (auto simp: schema_defs insert_object_block_def block_exists_def split: if_splits)

lemma upload_rows_Nil_iff:
  "upload_rows d u = [] \<longleftrightarrow> u \<notin> set (map urow_upload_id (multipart_uploads d))"
  by (auto simp: upload_rows_def filter_eq_Nil_iff)

lemma schema_ok_insert_upload:
  "schema_ok d \<Longrightarrow> insert_upload r d = Inr d' \<Longrightarrow> schema_ok d'"
  by (auto simp: schema_defs insert_upload_def block_exists_def upload_rows_Nil_iff
      split: if_splits)

lemma schema_ok_insert_part:
  assumes "schema_ok d" and "insert_part r d = Inr d'"
  shows "schema_ok d'"
proof -
  have d': "d' = d\<lparr>multipart_parts := multipart_parts d @ [r]\<rparr>"
    "\<not> part_exists d (prow_upload_id r) (prow_number r)"
    "prow_upload_id r \<in> set (map urow_upload_id (multipart_uploads d))"
    using assms(2)
    by (auto simp: insert_part_def list_ex_iff upload_rows_Nil_iff part_exists_def
        split: if_splits)
  have "keys_ok d'"
    using assms(1) d'(2) by (simp add: schema_ok_def keys_ok_def d'(1) part_exists_def)
  moreover have "fk_ok d'"
    using assms(1) d'(3) by (auto simp: schema_ok_def fk_ok_def d'(1) part_exists_def block_exists_def)
  ultimately show ?thesis by (simp add: schema_ok_def)
qed

lemma schema_ok_insert_part_block:
  assumes "schema_ok d" and "insert_part_block r d = Inr d'"
  shows "schema_ok d'"
proof -
  have d': "d' = d\<lparr>multipart_part_blocks := multipart_part_blocks d @ [r]\<rparr>"
    "(pb_upload_id r, pb_number r, pb_ordinal r)
       \<notin> set (map (\<lambda>r. (pb_upload_id r, pb_number r, pb_ordinal r)) (multipart_part_blocks d))"
    "block_exists d (pb_block_id r)" "part_exists d (pb_upload_id r) (pb_number r)"
    using assms(2)
    by (auto simp: insert_part_block_def list_ex_iff part_exists_def split: if_splits)
      (metis (mono_tags, lifting) image_eqI)
  have "keys_ok d'"
    using assms(1) d'(2) by (simp add: schema_ok_def keys_ok_def d'(1))
  moreover have "fk_ok d'"
    using assms(1) d'(3,4) by (auto simp: schema_ok_def fk_ok_def d'(1) part_exists_def block_exists_def)
  ultimately show ?thesis by (simp add: schema_ok_def)
qed

lemma schema_ok_insert_block:
  assumes "schema_ok d" and "insert_telegram_block r d = Inr (i, d')"
    and "trow_backend r = backend_as_str k"
  shows "schema_ok d'"
proof -
  have d': "d' = d\<lparr>telegram_blocks := telegram_blocks d @ [r\<lparr>trow_id := i\<rparr>]\<rparr>"
    "\<not> list_ex (\<lambda>b. trow_chat_id b = trow_chat_id r \<and> trow_message_id b = trow_message_id r)
        (telegram_blocks d)"
    "i = next_rowid (map trow_id (telegram_blocks d))"
    using assms(2) by (auto simp: insert_telegram_block_def Let_def split: if_splits)
  have "i \<notin> set (map trow_id (telegram_blocks d))" by (simp only: d'(3) next_rowid_fresh not_False_eq_True)
  with d'(1,2) show ?thesis
    using assms(1,3) by (auto simp: schema_defs block_exists_def list_ex_iff)
qed

lemma schema_ok_delete_block:
  assumes "schema_ok d" and "delete_block_row b d = Inr d'"
  shows "schema_ok d'"
proof -
  have d': "d' = d\<lparr>telegram_blocks := filter (\<lambda>r. trow_id r \<noteq> b) (telegram_blocks d),
      gc_queue := filter (\<lambda>q. \<not> (q_block_id q = b \<and> block_exists d b)) (gc_queue d)\<rparr>"
    and ref: "block_exists d b \<longrightarrow> \<not> in_object d b \<and> \<not> in_part d b"
    using assms(2) by (auto simp: delete_block_row_def split: if_splits)
  have be: "block_exists d' x \<longleftrightarrow> block_exists d x \<and> x \<noteq> b" for x
    by (auto simp: block_exists_def d')
  have "keys_ok d'"
    using assms(1) by (auto simp: schema_defs d' distinct_map_filter)
  moreover have "fk_ok d'"
    using assms(1) ref unfolding schema_ok_def fk_ok_def be
    by (auto simp: d' in_object_def in_part_def part_exists_def)
  ultimately show ?thesis by (simp add: schema_ok_def)
qed

end
