(* ===== verification/Db_Balance.thy ===== *)
theory Db_Balance
  imports Db_Frame
begin

text \<open>
  What each statement and helper does to \<open>balanced\<close>, the accounting between a block's
  reference count and the rows that name it, in the middle of a transaction.
\<close>

lemma balancedI:
  assumes "\<And>r. r \<in> set (telegram_blocks d) \<Longrightarrow>
      row_balanced (refs d (trow_id r) + pend (trow_id r)) (queued d (trow_id r))
        (in_object d (trow_id r)) r"
  shows "balanced pend d"
  using assms by (simp add: balanced_def)

lemma balancedD:
  "balanced pend d \<Longrightarrow> r \<in> set (telegram_blocks d) \<Longrightarrow>
     row_balanced (refs d (trow_id r) + pend (trow_id r)) (queued d (trow_id r))
       (in_object d (trow_id r)) r"
  by (simp add: balanced_def)

lemma balanced_pend_cong:
  "balanced p d \<Longrightarrow> (\<And>b. block_exists d b \<Longrightarrow> p b = q b) \<Longrightarrow> balanced q d"
  by (auto simp: balanced_def block_exists_def)

lemma balanced_frame:
  assumes "balanced p d"
    and "telegram_blocks d' = telegram_blocks d" "object_blocks d' = object_blocks d"
      "multipart_part_blocks d' = multipart_part_blocks d" "gc_queue d' = gc_queue d"
  shows "balanced p d'"
  using assms by (simp add: balanced_def refs_def obj_refs_def part_refs_def queued_def in_object_def)

lemma same_id_same_row:
  "schema_ok d \<Longrightarrow> r \<in> set (telegram_blocks d) \<Longrightarrow> s \<in> set (telegram_blocks d)
     \<Longrightarrow> trow_id r = trow_id s \<Longrightarrow> r = s"
  by (auto simp: schema_defs distinct_map dest: inj_onD)

text \<open>A block that no transaction has touched yet and that is not referenced is not queued
  when it is counted once.\<close>

lemma balanced_ref_pos_iff:
  "balanced p d \<Longrightarrow> r \<in> set (telegram_blocks d) \<Longrightarrow> 0 < refs d (trow_id r) + p (trow_id r)
     \<Longrightarrow> trow_ref_count r = refs d (trow_id r) + p (trow_id r) \<and> \<not> queued d (trow_id r)"
  by (auto simp: balanced_def row_balanced_def)

section \<open>Dropping references\<close>

lemma balanced_decrement_block:
  assumes ok: "schema_ok d" and bal: "balanced p d" and pos: "block_exists d b \<Longrightarrow> 0 < refs d b + p b"
  shows "balanced (p(b := p b - 1)) (decrement_block t b d)"
proof -
  define f :: "block_row \<Rightarrow> block_row"
    where "f = (\<lambda>r. r\<lparr>trow_ref_count := if trow_ref_count r > 0 then trow_ref_count r - 1 else 0\<rparr>)"
  define d1 where "d1 = update_block b f d"
  have fid: "trow_id (f r) = trow_id r" "trow_state (f r) = trow_state r" for r
    by (simp_all add: f_def)
  have rows: "set (telegram_blocks d1) = (\<lambda>r. if trow_id r = b then f r else r) ` set (telegram_blocks d)"
    by (simp add: d1_def update_block_def)
  define z where "z \<longleftrightarrow> list_ex (\<lambda>r. trow_id r = b \<and> trow_ref_count r = 0) (telegram_blocks d1)"
  have dec: "decrement_block t b d = (if z then enqueue_gc b t d1 else d1)"
    unfolding decrement_block_def Let_def z_def d1_def f_def by simp
  have zero_iff: "z \<longleftrightarrow> refs d b + p b = 1" if r: "r \<in> set (telegram_blocks d)" "trow_id r = b" for r
  proof -
    have "0 < refs d b + p b" using pos r block_existsI by blast
    then have n: "trow_ref_count r = refs d b + p b"
      using balanced_ref_pos_iff [OF bal r(1)] r(2) by simp
    have "z \<longleftrightarrow> trow_ref_count (f r) = 0"
      using r same_id_same_row [OF ok] fid unfolding z_def list_ex_iff rows by fastforce
    then show ?thesis using n \<open>0 < refs d b + p b\<close> by (auto simp: f_def)
  qed
  have queue: "queued (decrement_block t b d) x \<longleftrightarrow> queued d x \<or> z \<and> x = b" for x
    by (simp add: dec) (simp add: d1_def queued_def)
  have same: "refs (decrement_block t b d) x = refs d x"
    "in_object (decrement_block t b d) x = in_object d x" for x
    by (simp_all add: refs_def obj_refs_def part_refs_def in_object_def)
  have tb: "telegram_blocks (decrement_block t b d) = telegram_blocks d1" by (simp add: dec)
  show ?thesis
  proof (rule balancedI)
    fix r' assume "r' \<in> set (telegram_blocks (decrement_block t b d))"
    then obtain r where r: "r \<in> set (telegram_blocks d)" "r' = (if trow_id r = b then f r else r)"
      unfolding tb rows by blast
    note old = balancedD [OF bal r(1)]
    show "row_balanced (refs (decrement_block t b d) (trow_id r') + (p(b := p b - 1)) (trow_id r'))
        (queued (decrement_block t b d) (trow_id r')) (in_object (decrement_block t b d) (trow_id r')) r'"
    proof (cases "trow_id r = b")
      case False
      with old r show ?thesis by (simp add: same queue)
    next
      case True
      then have "0 < refs d b + p b" using pos r block_existsI by blast
      with True old zero_iff [OF r(1) True] r(2) show ?thesis
        by (auto simp: same queue row_balanced_def fid f_def)
    qed
  qed
qed

lemma decrement_block_exists [simp]: "block_exists (decrement_block t b d) x = block_exists d x"
proof -
  have "map trow_id (telegram_blocks (decrement_block t b d)) = map trow_id (telegram_blocks d)"
    by (simp add: decrement_block_def Let_def)
  then show ?thesis by (simp only: block_exists_def)
qed

lemma decrement_blocks_exists [simp]: "block_exists (decrement_blocks t bs d) x = block_exists d x"
  by (induction bs arbitrary: d) simp_all

lemma balanced_decrement_blocks:
  assumes "schema_ok d" and "balanced p d"
    and "\<And>b. block_exists d b \<Longrightarrow> int (count_list (map blk_id bs) b) \<le> refs d b + p b"
  shows "balanced (\<lambda>b. p b - int (count_list (map blk_id bs) b)) (decrement_blocks t bs d)"
  using assms
proof (induction bs arbitrary: d p)
  case Nil
  then show ?case by simp
next
  case (Cons x bs)
  define p1 where "p1 = p(blk_id x := p (blk_id x) - 1)"
  define d1 where "d1 = decrement_block t (blk_id x) d"
  have "balanced p1 d1"
    unfolding p1_def d1_def using Cons.prems(1,2)
  proof (rule balanced_decrement_block)
    assume "block_exists d (blk_id x)"
    from Cons.prems(3) [OF this] show "0 < refs d (blk_id x) + p (blk_id x)" by simp
  qed
  moreover have "schema_ok d1" using Cons.prems(1) by (auto simp: d1_def)
  moreover have "int (count_list (map blk_id bs) b) \<le> refs d1 b + p1 b" if "block_exists d1 b" for b
  proof -
    have "refs d1 b = refs d b" by (rule refs_frame) (simp_all add: d1_def)
    moreover have "block_exists d b" using that by (simp add: d1_def)
    ultimately show ?thesis using Cons.prems(3) [of b] by (auto simp: p1_def split: if_splits)
  qed
  ultimately have "balanced (\<lambda>b. p1 b - int (count_list (map blk_id bs) b)) (decrement_blocks t bs d1)"
    by (intro Cons.IH)
  then have "balanced (\<lambda>b. p1 b - int (count_list (map blk_id bs) b)) (decrement_blocks t (x # bs) d)"
    by (simp add: d1_def)
  then show ?case
    by (rule balanced_pend_cong) (simp add: p1_def)
qed

section \<open>Deleting rows\<close>

lemma in_object_iff_refs: "in_object d b \<longleftrightarrow> 0 < obj_refs d b"
  unfolding in_object_def obj_refs_def by (simp add: count_list_pos_iff)

lemma obj_refs_delete_object:
  "int (obj_refs (delete_object_row i d) b)
     = int (obj_refs d b) - int (count_list (map ob_block_id (rows_of_object d i)) b)"
  using count_list_filter_split [of ob_block_id "\<lambda>r. ob_object_id r = i" "object_blocks d" b]
  by (simp add: obj_refs_def delete_object_row_def rows_of_object_def)

lemma part_refs_delete_part:
  "int (part_refs (delete_part_row u n d) b)
     = int (part_refs d b) - int (count_list (map pb_block_id (rows_of_part d u n)) b)"
  using count_list_filter_split [of pb_block_id "\<lambda>r. pb_upload_id r = u \<and> pb_number r = n"
      "multipart_part_blocks d" b]
  by (simp add: part_refs_def delete_part_row_def rows_of_part_def)

lemma part_refs_delete_upload:
  "int (part_refs (delete_upload_row u d) b)
     = int (part_refs d b) - int (count_list (map pb_block_id (rows_of_upload d u)) b)"
  using count_list_filter_split [of pb_block_id "\<lambda>r. pb_upload_id r = u" "multipart_part_blocks d" b]
  by (simp add: part_refs_def delete_upload_row_def rows_of_upload_def)

text \<open>Deleting rows without decrementing leaves their references pending.\<close>

lemma balanced_shrink:
  assumes "balanced p d" and "telegram_blocks d' = telegram_blocks d" "gc_queue d' = gc_queue d"
    and "\<And>b. refs d' b = refs d b - k b"
    and "\<And>b. in_object d' b \<Longrightarrow> in_object d b"
  shows "balanced (\<lambda>b. p b + k b) d'"
proof (rule balancedI)
  fix r assume "r \<in> set (telegram_blocks d')"
  then have r: "r \<in> set (telegram_blocks d)" by (simp add: assms)
  have "queued d' (trow_id r) = queued d (trow_id r)" by (simp add: queued_def assms)
  with balancedD [OF assms(1) r] assms(5) [of "trow_id r"]
  show "row_balanced (refs d' (trow_id r) + (p (trow_id r) + k (trow_id r))) (queued d' (trow_id r))
      (in_object d' (trow_id r)) r"
    by (simp add: assms(4) row_balanced_def)
qed

lemma in_object_delete_object: "in_object (delete_object_row i d) b \<Longrightarrow> in_object d b"
  by (auto simp: in_object_def delete_object_row_def)

lemma balanced_delete_object:
  "balanced p d \<Longrightarrow>
     balanced (\<lambda>b. p b + int (count_list (map ob_block_id (rows_of_object d i)) b))
       (delete_object_row i d)"
  by (erule balanced_shrink)
    (auto simp: refs_def obj_refs_delete_object part_refs_def dest: in_object_delete_object)

lemma balanced_delete_part:
  "balanced p d \<Longrightarrow>
     balanced (\<lambda>b. p b + int (count_list (map pb_block_id (rows_of_part d u n)) b))
       (delete_part_row u n d)"
  by (erule balanced_shrink)
    (auto simp: refs_def part_refs_delete_part obj_refs_def in_object_def)

lemma balanced_delete_upload:
  "balanced p d \<Longrightarrow>
     balanced (\<lambda>b. p b + int (count_list (map pb_block_id (rows_of_upload d u)) b))
       (delete_upload_row u d)"
  by (erule balanced_shrink)
    (auto simp: refs_def part_refs_delete_upload obj_refs_def in_object_def)

section \<open>Adding references\<close>

lemma insert_object_Inr:
  "insert_object r d = Inr (i, d') \<Longrightarrow>
     i = next_rowid (map orow_id (objects d)) \<and> object_rows d (orow_bucket r) (orow_key r) = []
     \<and> d' = d\<lparr>objects := objects d @ [r\<lparr>orow_id := i\<rparr>]\<rparr>"
  by (auto simp: insert_object_def Let_def split: if_splits)

lemma insert_object_block_Inr:
  "insert_object_block r d = Inr d' \<Longrightarrow> d' = d\<lparr>object_blocks := object_blocks d @ [r]\<rparr>
     \<and> block_exists d (ob_block_id r)"
  by (auto simp: insert_object_block_def split: if_splits)

lemma insert_part_block_Inr:
  "insert_part_block r d = Inr d' \<Longrightarrow>
     d' = d\<lparr>multipart_part_blocks := multipart_part_blocks d @ [r]\<rparr>"
  by (auto simp: insert_part_block_def split: if_splits)

lemma attach_block_Inr:
  assumes "attach_block oid n off b d = Inr d'"
  shows "d' = dequeue_gc (blk_id b) (update_block (blk_id b)
     (\<lambda>r. r\<lparr>trow_ref_count := if trow_ref_count r < 1 then 1 else trow_ref_count r,
            trow_state := Committed\<rparr>)
     (d\<lparr>object_blocks := object_blocks d @ [\<lparr>ob_object_id = oid, ob_ordinal = n,
         ob_block_id = blk_id b, ob_byte_offset = off, ob_size = blk_size b\<rparr>]\<rparr>))"
  using assms by (auto simp: attach_block_def bind_res_Inr_iff dest!: insert_object_block_Inr)

lemma balanced_attach_block:
  assumes bal: "balanced p d" and att: "attach_block oid n off b d = Inr d'"
    and pos: "block_exists d (blk_id b) \<Longrightarrow> 0 < refs d (blk_id b) + p (blk_id b)"
  shows "balanced (p(blk_id b := p (blk_id b) - 1)) d'"
proof (rule balancedI)
  note d' = attach_block_Inr [OF att]
  have refs': "refs d' x = refs d x + (if x = blk_id b then 1 else 0)" for x
    by (simp add: d' refs_def obj_refs_def part_refs_def)
  have q': "queued d' x \<longleftrightarrow> queued d x \<and> x \<noteq> blk_id b" for x
    by (auto simp: d' queued_def dequeue_gc_def)
  have io: "in_object d' x \<longleftrightarrow> in_object d x \<or> x = blk_id b" for x
    by (auto simp: d' in_object_def)
  fix r' assume "r' \<in> set (telegram_blocks d')"
  then obtain r where r: "r \<in> set (telegram_blocks d)"
    "r' = (if trow_id r = blk_id b then r\<lparr>trow_ref_count := if trow_ref_count r < 1 then 1
        else trow_ref_count r, trow_state := Committed\<rparr> else r)"
    unfolding d' by (auto simp: update_block_def)
  note old = balancedD [OF bal r(1)]
  show "row_balanced (refs d' (trow_id r') + (p(blk_id b := p (blk_id b) - 1)) (trow_id r'))
      (queued d' (trow_id r')) (in_object d' (trow_id r')) r'"
  proof (cases "trow_id r = blk_id b")
    case True
    then have "0 < refs d (blk_id b) + p (blk_id b)" using pos r block_existsI by blast
    with True old r(2) show ?thesis by (auto simp: refs' q' io row_balanced_def)
  next
    case False
    with old r(2) show ?thesis by (simp add: refs' q' io)
  qed
qed

definition committed :: "db \<Rightarrow> int \<Rightarrow> bool" where
  "committed d b \<longleftrightarrow> (\<forall>r \<in> set (telegram_blocks d). trow_id r = b \<longrightarrow> trow_state r = Committed)"

lemma committed_decrement_block [simp]: "committed d x \<Longrightarrow> committed (decrement_block t b d) x"
  by (auto simp: committed_def decrement_block_def Let_def update_block_def)

lemma committed_decrement_blocks [simp]: "committed d x \<Longrightarrow> committed (decrement_blocks t bs d) x"
  by (induction bs arbitrary: d) simp_all

lemma copy_block_Inr:
  assumes "copy_block oid b d = Inr d'"
  shows "d' = (dequeue_gc (blk_id b) (update_block (blk_id b)
       (\<lambda>r. r\<lparr>trow_ref_count := trow_ref_count r + 1, trow_state := Committed\<rparr>) d))
     \<lparr>object_blocks := object_blocks d @ [\<lparr>ob_object_id = oid, ob_ordinal = blk_ordinal b,
         ob_block_id = blk_id b, ob_byte_offset = blk_offset b, ob_size = blk_size b\<rparr>]\<rparr>"
  using assms by (auto simp: copy_block_def dest!: insert_object_block_Inr)

lemma balanced_copy_block:
  assumes bal: "balanced p d" and cp: "copy_block oid b d = Inr d'"
    and com: "committed d (blk_id b)"
  shows "balanced p d' \<and> (\<forall>x. committed d x \<longrightarrow> committed d' x)"
proof
  note d' = copy_block_Inr [OF cp]
  have refs': "refs d' x = refs d x + (if x = blk_id b then 1 else 0)" for x
    by (simp add: d' refs_def obj_refs_def part_refs_def)
  have q': "queued d' x \<longleftrightarrow> queued d x \<and> x \<noteq> blk_id b" for x
    by (auto simp: d' queued_def dequeue_gc_def)
  have io: "in_object d' x \<longleftrightarrow> in_object d x \<or> x = blk_id b" for x
    by (auto simp: d' in_object_def)
  show "balanced p d'"
  proof (rule balancedI)
    fix r' assume "r' \<in> set (telegram_blocks d')"
    then obtain r where r: "r \<in> set (telegram_blocks d)"
      "r' = (if trow_id r = blk_id b then r\<lparr>trow_ref_count := trow_ref_count r + 1,
          trow_state := Committed\<rparr> else r)"
      unfolding d' by (auto simp: update_block_def)
    note old = balancedD [OF bal r(1)]
    show "row_balanced (refs d' (trow_id r') + p (trow_id r'))
        (queued d' (trow_id r')) (in_object d' (trow_id r')) r'"
    proof (cases "trow_id r = blk_id b")
      case True
      with com r(1) have "trow_state r = Committed" by (simp add: committed_def)
      with old have "trow_ref_count r = refs d (trow_id r) + p (trow_id r)" "0 \<le> trow_ref_count r"
        by (auto simp: row_balanced_def)
      with True r(2) show ?thesis by (auto simp: refs' q' io row_balanced_def)
    next
      case False
      with old r(2) show ?thesis by (simp add: refs' q' io)
    qed
  qed
  show "\<forall>x. committed d x \<longrightarrow> committed d' x"
    by (auto simp: d' committed_def update_block_def)
qed

lemma balanced_insert_part_block_moved:
  assumes bal: "balanced p d" and ins: "insert_part_block r d = Inr d'"
  shows "balanced (p(pb_block_id r := p (pb_block_id r) - 1)) d'"
proof -
  note d' = insert_part_block_Inr [OF ins]
  have refs': "refs d' x = refs d x - (if x = pb_block_id r then - 1 else 0)" for x
    by (simp add: d' refs_def obj_refs_def part_refs_def)
  have "balanced (\<lambda>b. p b + (if b = pb_block_id r then - 1 else 0)) d'"
    using bal by (rule balanced_shrink) (simp_all add: refs', simp_all add: d' in_object_def)
  then show ?thesis by (rule balanced_pend_cong) simp
qed

lemma balanced_insert_part_block_fresh:
  assumes bal: "balanced p d" and ins: "insert_part_block r d = Inr d'"
    and fresh: "refs d (pb_block_id r) + p (pb_block_id r) = 0" "\<not> queued d (pb_block_id r)"
  shows "balanced p d'"
proof (rule balancedI)
  note d' = insert_part_block_Inr [OF ins]
  have refs': "refs d' x = refs d x + (if x = pb_block_id r then 1 else 0)" for x
    by (simp add: d' refs_def obj_refs_def part_refs_def)
  fix s assume "s \<in> set (telegram_blocks d')"
  then have s: "s \<in> set (telegram_blocks d)" by (simp add: d')
  have "queued d' (trow_id s) = queued d (trow_id s)" "in_object d' (trow_id s) = in_object d (trow_id s)"
    by (simp_all add: d' queued_def in_object_def)
  with balancedD [OF bal s] fresh
  show "row_balanced (refs d' (trow_id s) + p (trow_id s)) (queued d' (trow_id s))
      (in_object d' (trow_id s)) s"
    by (auto simp: refs' row_balanced_def)
qed

end
