(* ===== verification/Db_Preserve.thy ===== *)
theory Db_Preserve
  imports Db_Balance
begin

text \<open>
  Every \<open>Db\<close> method keeps \<open>db_ok\<close>: first the helpers inside the transactions
  (\<open>remove_existing_object\<close>, the loops that attach blocks), then the methods.
\<close>

section \<open>Blocks read through a join\<close>

lemma part_block_ref_eq: "part_block_ref (b, r) = block_from_row b (pb_ordinal r) (pb_byte_offset r) (pb_size r)"
  by (simp add: part_block_ref_def)

lemma object_block_ref_eq: "object_block_ref (b, r) = block_from_row b (ob_ordinal r) (ob_byte_offset r) (ob_size r)"
  by (simp add: object_block_ref_def)

lemma traverse_ids:
  assumes "traverse f xs = Inr bs" and "set xs \<subseteq> set (join_blocks d key rows)"
    and "\<And>b r. f (b, r) = block_from_row b (o1 r) (o2 r) (o3 r)"
  shows "map blk_id bs = map (key \<circ> snd) xs"
proof -
  have "map blk_id bs = map (trow_id \<circ> fst) xs"
    using assms(1) by (rule traverse_Inr_map) (auto simp: assms(3) dest: block_from_row_Inr)
  also have "\<dots> = map (key \<circ> snd) xs"
    using assms(2) by (auto simp: in_join_blocks)
  finally show ?thesis .
qed

lemma set_ordered_part_blocks [simp]: "set (ordered_part_blocks d u) = set (rows_of_upload d u)"
  by (simp add: ordered_part_blocks_def)

lemma rows_exist:
  assumes "schema_ok d"
  shows "\<forall>r \<in> set (rows_of_upload d u). block_exists d (pb_block_id r)"
    and "\<forall>r \<in> set (rows_of_part d u n). block_exists d (pb_block_id r)"
    and "\<forall>r \<in> set (rows_of_object d i). block_exists d (ob_block_id r)"
  using assms by (auto simp: schema_defs rows_of_upload_def rows_of_part_def rows_of_object_def)

lemma load_object_blocks_ids:
  assumes "schema_ok d" and "load_object_blocks i d = Inr bs"
  shows "map blk_id bs = map ob_block_id (sort_key ob_ordinal (rows_of_object d i))"
proof -
  have "map blk_id bs = map (ob_block_id \<circ> snd) (join_blocks d ob_block_id (sort_key ob_ordinal (rows_of_object d i)))"
    using assms(2) unfolding load_object_blocks_def
    by (rule traverse_ids) (auto simp: object_block_ref_eq)
  also have "\<dots> = map ob_block_id (map snd (join_blocks d ob_block_id (sort_key ob_ordinal (rows_of_object d i))))"
    by simp
  also have "map snd (join_blocks d ob_block_id (sort_key ob_ordinal (rows_of_object d i)))
      = sort_key ob_ordinal (rows_of_object d i)"
    by (rule join_blocks_map_snd [OF assms(1)]) (use rows_exist(3) [OF assms(1)] in simp)
  finally show ?thesis .
qed

section \<open>Removing the object under a key\<close>

definition removed_from :: "db \<Rightarrow> int \<Rightarrow> db \<Rightarrow> bool" where
  "removed_from d i d' \<longleftrightarrow>
     objects d' = filter (\<lambda>r. orow_id r \<noteq> i) (objects d)
     \<and> object_blocks d' = filter (\<lambda>r. ob_object_id r \<noteq> i) (object_blocks d)
     \<and> multipart_part_blocks d' = multipart_part_blocks d \<and> multipart_parts d' = multipart_parts d
     \<and> multipart_uploads d' = multipart_uploads d \<and> buckets d' = buckets d"

lemma remove_existing_object_cases:
  assumes "remove_existing_object t b k c d = Inr (rm, d')"
  shows "(rm = None \<and> d' = d \<and> object_rows d b k = [])
    \<or> (\<exists>r rs bs. object_rows d b k = r # rs \<and> rm = Some (orow_id r, bs)
         \<and> load_object_blocks (orow_id r) d = Inr bs
         \<and> d' = decrement_blocks t bs (delete_object_row (orow_id r) d))"
  using assms by (auto simp: remove_existing_object_def Let_def split: if_splits list.splits sum.splits)

lemma object_rows_single:
  assumes "schema_ok d" and "object_rows d b k = r # rs"
  shows "rs = []" "r \<in> set (objects d)" "orow_bucket r = b" "orow_key r = k"
proof -
  have "r \<in> set (object_rows d b k)" using assms(2) by simp
  then show r: "r \<in> set (objects d)" "orow_bucket r = b" "orow_key r = k"
    by (simp_all add: object_rows_def)
  have "object_rows d b k = filter (\<lambda>x. (orow_bucket x, orow_key x) = (orow_bucket r, orow_key r)) (objects d)"
    using r by (simp add: object_rows_def)
  also have "\<dots> = [r]"
    using assms(1) r by (intro filter_id_singleton) (simp_all add: schema_defs)
  finally show "rs = []" using assms(2) by simp
qed

lemma remove_existing_object_balanced:
  assumes ok: "schema_ok d" and bal: "balanced (\<lambda>_. 0) d"
    and rm: "remove_existing_object t b k c d = Inr (rm, d')"
  shows "schema_ok d' \<and> balanced (\<lambda>_. 0) d'"
proof -
  consider (same) "d' = d"
    | (removed) r :: object_row and bs where "load_object_blocks (orow_id r) d = Inr bs"
      "d' = decrement_blocks t bs (delete_object_row (orow_id r) d)"
    using remove_existing_object_cases [OF rm] by blast
  then show ?thesis
  proof cases
    case same
    with ok bal show ?thesis by simp
  next
    case (removed r bs)
    let ?i = "orow_id r" and ?d1 = "delete_object_row (orow_id r) d"
    have cnt: "count_list (map blk_id bs) x = count_list (map ob_block_id (rows_of_object d ?i)) x" for x
      using load_object_blocks_ids [OF ok removed(1)] by simp
    have ok1: "schema_ok ?d1" using ok by blast
    have "balanced (\<lambda>b. 0 + int (count_list (map ob_block_id (rows_of_object d ?i)) b)) ?d1"
      using bal by (rule balanced_delete_object)
    then have "balanced (\<lambda>b. int (count_list (map blk_id bs) b)) ?d1"
      by (simp add: cnt)
    with ok1 have "balanced (\<lambda>b. int (count_list (map blk_id bs) b) - int (count_list (map blk_id bs) b))
        (decrement_blocks t bs ?d1)"
      by (rule balanced_decrement_blocks) (simp add: refs_nonneg)
    with ok1 removed(2) show ?thesis by auto
  qed
qed

lemma remove_existing_object_removed:
  assumes ok: "schema_ok d" and rm: "remove_existing_object t b k c d = Inr (rm, d')"
  shows "\<exists>i. removed_from d i d'" "object_rows d' b k = []"
    "\<And>x. committed d x \<Longrightarrow> committed d' x" "\<And>x. block_exists d' x = block_exists d x"
proof -
  have *: "(\<exists>i. removed_from d i d') \<and> object_rows d' b k = []
      \<and> (\<forall>x. committed d x \<longrightarrow> committed d' x) \<and> (\<forall>x. block_exists d' x = block_exists d x)"
    using remove_existing_object_cases [OF rm]
  proof (elim disjE exE conjE)
    assume eq: "d' = d" and "object_rows d b k = []"
    define i where "i = max_id (map orow_id (objects d) @ map ob_object_id (object_blocks d)) + 1"
    have "i \<notin> set (map orow_id (objects d) @ map ob_object_id (object_blocks d))"
      unfolding i_def next_rowid_def [symmetric] by (rule next_rowid_fresh)
    then have "filter (\<lambda>r. orow_id r \<noteq> i) (objects d) = objects d"
      "filter (\<lambda>r. ob_object_id r \<noteq> i) (object_blocks d) = object_blocks d"
      by (auto simp: filter_id_conv)
    then have "removed_from d i d"
      by (simp add: removed_from_def)
    with eq \<open>object_rows d b k = []\<close> show ?thesis by auto
  next
    fix r rs bs
    assume r: "object_rows d b k = r # rs"
      and d': "d' = decrement_blocks t bs (delete_object_row (orow_id r) d)"
    have rs: "rs = []" and r2: "r \<in> set (objects d)"
      using object_rows_single [OF ok r] by simp_all
    have "removed_from d (orow_id r) d'"
      by (simp add: removed_from_def d' delete_object_row_def)
    moreover have "object_rows d' b k = []"
    proof -
      have "object_rows d' b k = filter (\<lambda>x. orow_id x \<noteq> orow_id r) (object_rows d b k)"
        by (simp add: object_rows_def d' delete_object_row_def conj_ac)
      then show ?thesis by (simp add: r rs)
    qed
    moreover have "committed d x \<Longrightarrow> committed d' x" for x
      unfolding d' by (rule committed_decrement_blocks) (simp add: committed_def)
    moreover have "block_exists d' x = block_exists d x" for x
      by (simp add: d') (simp add: block_exists_def)
    ultimately show ?thesis by blast
  qed
  then show "\<exists>i. removed_from d i d'" "object_rows d' b k = []"
    "\<And>x. committed d x \<Longrightarrow> committed d' x" "\<And>x. block_exists d' x = block_exists d x"
    by blast+
qed

lemma rows_of_object_removed:
  "removed_from d i d' \<Longrightarrow> j \<noteq> i \<Longrightarrow> rows_of_object d' j = rows_of_object d j"
  unfolding removed_from_def rows_of_object_def
  by (auto intro!: filter_cong)

lemma layouts_ok_removed:
  assumes "layouts_ok d" and "removed_from d i d'"
  shows "layouts_ok d'"
  unfolding layouts_ok_def
proof
  fix r assume "r \<in> set (objects d')"
  then have "r \<in> set (objects d)" "orow_id r \<noteq> i" using assms(2) by (auto simp: removed_from_def)
  with assms show "layout_ok (orow_size r) (rows_of_object d' (orow_id r))"
    by (simp add: layouts_ok_def rows_of_object_removed)
qed

lemma buckets_ok_frame:
  assumes "buckets_ok d" and "buckets d' = buckets d" "set (objects d') \<subseteq> set (objects d)"
    "set (multipart_uploads d') \<subseteq> set (multipart_uploads d)"
  shows "buckets_ok d'"
  using assms by (auto simp: buckets_ok_def bucket_named_def)

lemma parts_distinct_frame:
  "parts_distinct d \<Longrightarrow> multipart_part_blocks d' = multipart_part_blocks d \<Longrightarrow> parts_distinct d'"
  by (simp add: parts_distinct_def rows_of_part_def)

section \<open>Attaching the blocks of a new object\<close>

text \<open>The rows the loop of \<open>commit_upload\<close> inserts.\<close>

fun tile_rows :: "int \<Rightarrow> int \<Rightarrow> int \<Rightarrow> block_ref list \<Rightarrow> object_block_row list" where
  "tile_rows oid n off [] = []"
| "tile_rows oid n off (b # bs) =
     \<lparr>ob_object_id = oid, ob_ordinal = n, ob_block_id = blk_id b, ob_byte_offset = off,
       ob_size = blk_size b\<rparr> # tile_rows oid (n + 1) (off + blk_size b) bs"

lemma tile_rows_simps [simp]:
  "map ob_block_id (tile_rows oid n off bs) = map blk_id bs"
  "map ob_size (tile_rows oid n off bs) = map blk_size bs"
  by (induction bs arbitrary: n off) auto

lemma tile_rows_object: "r \<in> set (tile_rows oid n off bs) \<Longrightarrow> ob_object_id r = oid"
  by (induction bs arbitrary: n off) auto

lemma rows_laid_out_tile: "\<forall>b \<in> set bs. 0 < blk_size b \<Longrightarrow> rows_laid_out n off (tile_rows oid n off bs)"
  by (induction bs arbitrary: n off) auto

lemma attach_block_frame:
  assumes "attach_block oid n off b d = Inr d'"
  shows "objects d' = objects d \<and> multipart_part_blocks d' = multipart_part_blocks d
    \<and> multipart_parts d' = multipart_parts d \<and> multipart_uploads d' = multipart_uploads d
    \<and> buckets d' = buckets d
    \<and> map trow_id (telegram_blocks d') = map trow_id (telegram_blocks d)
    \<and> object_blocks d' = object_blocks d @ tile_rows oid n off [b]"
  using attach_block_Inr [OF assms] by (simp add: update_block_def)

lemma attach_block_schema:
  assumes "schema_ok d" and "attach_block oid n off b d = Inr d'"
  shows "schema_ok d'"
proof -
  obtain d1 where ins: "insert_object_block \<lparr>ob_object_id = oid, ob_ordinal = n,
         ob_block_id = blk_id b, ob_byte_offset = off, ob_size = blk_size b\<rparr> d = Inr d1"
    and d': "d' = dequeue_gc (blk_id b) (update_block (blk_id b)
         (\<lambda>r. r\<lparr>trow_ref_count := if trow_ref_count r < 1 then 1 else trow_ref_count r,
                trow_state := Committed\<rparr>) d1)"
    using assms(2) by (auto simp: attach_block_def bind_res_Inr_iff)
  have "schema_ok d1" using assms(1) ins by (rule schema_ok_insert_object_block)
  then show ?thesis unfolding d' by (intro schema_ok_dequeue schema_ok_update_block) simp_all
qed

lemma attach_blocks_frame:
  "attach_blocks oid n off bs d = Inr d' \<Longrightarrow>
     objects d' = objects d \<and> multipart_part_blocks d' = multipart_part_blocks d
     \<and> multipart_parts d' = multipart_parts d \<and> multipart_uploads d' = multipart_uploads d
     \<and> buckets d' = buckets d
     \<and> map trow_id (telegram_blocks d') = map trow_id (telegram_blocks d)
     \<and> object_blocks d' = object_blocks d @ tile_rows oid n off bs"
proof (induction bs arbitrary: n off d)
  case Nil
  then show ?case by simp
next
  case (Cons b bs)
  from Cons.prems obtain d1 where d1: "attach_block oid n off b d = Inr d1"
    "attach_blocks oid (n + 1) (off + blk_size b) bs d1 = Inr d'"
    by (auto split: sum.splits)
  from attach_block_frame [OF d1(1)] Cons.IH [OF d1(2)] show ?case by simp
qed

lemma attach_blocks_balanced:
  assumes "attach_blocks oid n off bs d = Inr d'" and "schema_ok d" and "balanced p d"
    and "\<And>b. b \<in> set bs \<Longrightarrow> block_exists d (blk_id b) \<Longrightarrow> 0 < refs d (blk_id b) + p (blk_id b)"
  shows "schema_ok d' \<and> balanced (\<lambda>b. p b - int (count_list (map blk_id bs) b)) d'"
  using assms
proof (induction bs arbitrary: n off d p)
  case Nil
  then show ?case by simp
next
  case (Cons b bs)
  from Cons.prems(1) obtain d1 where d1: "attach_block oid n off b d = Inr d1"
    "attach_blocks oid (n + 1) (off + blk_size b) bs d1 = Inr d'"
    by (auto split: sum.splits)
  define p1 where "p1 = p(blk_id b := p (blk_id b) - 1)"
  have ok1: "schema_ok d1" using Cons.prems(2) d1(1) by (rule attach_block_schema)
  have bal1: "balanced p1 d1"
    unfolding p1_def using Cons.prems(3) d1(1) by (rule balanced_attach_block) (simp add: Cons.prems(4))
  have refs1: "refs d1 x + p1 x = refs d x + p x" for x
    using attach_block_frame [OF d1(1)]
    by (simp add: refs_def obj_refs_def part_refs_def p1_def)
  have ex1: "block_exists d1 x = block_exists d x" for x
    using attach_block_frame [OF d1(1)] by (simp only: block_exists_def)
  have "schema_ok d' \<and> balanced (\<lambda>x. p1 x - int (count_list (map blk_id bs) x)) d'"
    using d1(2) ok1 bal1 by (rule Cons.IH) (simp add: refs1 ex1 Cons.prems(4))
  then show ?case
    by (auto simp: p1_def elim: balanced_pend_cong)
qed

lemma rows_of_object_fresh:
  assumes "schema_ok d" and "i = next_rowid (map orow_id (objects d))"
  shows "rows_of_object d i = []"
proof -
  have "i \<notin> set (map orow_id (objects d))" by (simp only: assms(2) next_rowid_fresh not_False_eq_True)
  with assms(1) show ?thesis
    by (auto simp: rows_of_object_def filter_eq_Nil_iff schema_defs)
qed

lemma layouts_ok_insert:
  assumes ok: "schema_ok d" and lay: "layouts_ok d"
    and obj: "objects d' = objects d @ [r]" and i: "orow_id r = next_rowid (map orow_id (objects d))"
    and blk: "object_blocks d' = object_blocks d @ rows"
    and rows: "\<forall>x \<in> set rows. ob_object_id x = orow_id r" and lr: "layout_ok (orow_size r) rows"
  shows "layouts_ok d'"
  unfolding layouts_ok_def
proof
  fix x assume "x \<in> set (objects d')"
  then consider "x \<in> set (objects d)" | "x = r" by (auto simp: obj)
  then show "layout_ok (orow_size x) (rows_of_object d' (orow_id x))"
  proof cases
    case 1
    have "orow_id r \<notin> set (map orow_id (objects d))" by (simp only: i next_rowid_fresh not_False_eq_True)
    with 1 have "orow_id x \<noteq> orow_id r" by (metis image_eqI set_map)
    with rows have "filter (\<lambda>y. ob_object_id y = orow_id x) rows = []"
      by (auto simp: filter_eq_Nil_iff)
    with 1 lay show ?thesis by (simp add: layouts_ok_def rows_of_object_def blk)
  next
    case 2
    have "filter (\<lambda>y. ob_object_id y = orow_id r) rows = rows" using rows by simp
    with 2 lr rows_of_object_fresh [OF ok i] show ?thesis
      by (simp add: rows_of_object_def blk)
  qed
qed

end
