(* ===== verification/Db_Methods.thy ===== *)
theory Db_Methods
  imports Db_Preserve
begin

text \<open>
  Every writing \<open>Db\<close> method of \<open>bucket.rs\<close>, \<open>object.rs\<close> and \<open>gc.rs\<close> keeps \<open>db_ok\<close>, and what
  the reading methods return on a consistent database.
\<close>

lemma transact_snd [simp]: "snd (transact d r) = (case r of Inl e \<Rightarrow> d | Inr (x, d') \<Rightarrow> d')"
  by (simp add: transact_def split: sum.splits prod.splits)

lemma transact_cases:
  assumes "P d" and "\<And>x d'. r = Inr (x, d') \<Longrightarrow> P d'"
  shows "P (snd (transact d r))"
  using assms by (auto split: sum.splits)

lemma read_back_snd [simp]: "snd (read_back b k e r) = snd r"
  by (auto simp: read_back_def split: prod.splits sum.splits option.splits)

section \<open>Buckets\<close>

lemma db_ok_buckets:
  assumes ok: "db_ok d" and bs: "distinct (map brow_name bs)"
    "\<forall>r \<in> set (objects d). orow_bucket r \<in> set (map brow_name bs)"
    "\<forall>r \<in> set (multipart_uploads d). urow_bucket r \<in> set (map brow_name bs)"
  shows "db_ok (d\<lparr>buckets := bs, bucket_cors := cs\<rparr>)"
  unfolding db_ok_def
proof (intro conjI)
  show "schema_ok (d\<lparr>buckets := bs, bucket_cors := cs\<rparr>)"
    using ok bs(1) by (simp add: db_ok_def schema_defs block_exists_def)
  show "balanced (\<lambda>_. 0) (d\<lparr>buckets := bs, bucket_cors := cs\<rparr>)"
    by (rule balanced_frame [of _ d]) (use ok in \<open>simp_all add: db_ok_def\<close>)
  show "layouts_ok (d\<lparr>buckets := bs, bucket_cors := cs\<rparr>)"
    using ok by (simp add: db_ok_def layouts_ok_def rows_of_object_def)
  show "buckets_ok (d\<lparr>buckets := bs, bucket_cors := cs\<rparr>)"
    using bs by (simp add: buckets_ok_def bucket_named_def)
  show "parts_distinct (d\<lparr>buckets := bs, bucket_cors := cs\<rparr>)"
    by (rule parts_distinct_frame [of d]) (use ok in \<open>simp_all add: db_ok_def\<close>)
qed

lemma db_ok_cors:
  assumes "db_ok d"
  shows "db_ok (d\<lparr>bucket_cors := cs\<rparr>)"
proof -
  have "db_ok (d\<lparr>buckets := buckets d, bucket_cors := cs\<rparr>)"
    using assms by (intro db_ok_buckets) (auto simp: db_ok_def schema_defs buckets_ok_def bucket_named_def)
  then show ?thesis by simp
qed

lemma db_ok_create_bucket: "db_ok d \<Longrightarrow> db_ok (snd (create_bucket t n d))"
proof -
  assume ok: "db_ok d"
  show ?thesis
  proof (cases "bucket_named d n")
    case False
    with ok have "db_ok (d\<lparr>buckets := buckets d @ [\<lparr>brow_name = n, brow_created_at = t\<rparr>],
        bucket_cors := bucket_cors d\<rparr>)"
      by (intro db_ok_buckets) (auto simp: db_ok_def schema_defs buckets_ok_def bucket_named_def)
    with False show ?thesis by (simp add: create_bucket_def)
  qed (use ok in \<open>simp add: create_bucket_def\<close>)
qed

lemma db_ok_delete_bucket: "db_ok d \<Longrightarrow> db_ok (snd (delete_bucket n d))"
proof -
  assume ok: "db_ok d"
  show ?thesis
  proof (cases "\<not> bucket_named d n \<or> list_ex (\<lambda>r. orow_bucket r = n) (objects d)
      \<or> list_ex (\<lambda>r. urow_bucket r = n) (multipart_uploads d)")
    case True
    with ok show ?thesis by (auto simp: delete_bucket_def)
  next
    case False
    have "db_ok (d\<lparr>buckets := filter (\<lambda>r. brow_name r \<noteq> n) (buckets d),
        bucket_cors := filter (\<lambda>r. crow_bucket r \<noteq> n) (bucket_cors d)\<rparr>)"
    proof (rule db_ok_buckets [OF ok])
      show "distinct (map brow_name (filter (\<lambda>r. brow_name r \<noteq> n) (buckets d)))"
        using ok by (simp add: db_ok_def schema_defs distinct_map_filter)
    qed (use ok False in \<open>fastforce simp: db_ok_def buckets_ok_def bucket_named_def list_ex_iff\<close>)+
    moreover have "d\<lparr>bucket_cors := cs, buckets := bs\<rparr> = d\<lparr>buckets := bs, bucket_cors := cs\<rparr>"
      for cs bs by (cases d) simp
    ultimately have "db_ok (d\<lparr>bucket_cors := filter (\<lambda>r. crow_bucket r \<noteq> n) (bucket_cors d),
        buckets := filter (\<lambda>r. brow_name r \<noteq> n) (buckets d)\<rparr>)" by (simp only:)
    with False show ?thesis by (simp add: delete_bucket_def)
  qed
qed

lemma db_ok_set_bucket_cors: "db_ok d \<Longrightarrow> db_ok (set_bucket_cors t b c d)"
  by (simp add: set_bucket_cors_def db_ok_cors)

lemma db_ok_delete_bucket_cors: "db_ok d \<Longrightarrow> db_ok (delete_bucket_cors b d)"
  by (simp add: delete_bucket_cors_def db_ok_cors)

section \<open>Objects\<close>

lemma remove_existing_object_ok:
  assumes ok: "db_ok d" and rm: "remove_existing_object t b k c d = Inr (rm, d')"
  shows "db_ok d'"
proof -
  have s: "schema_ok d" "balanced (\<lambda>_. 0) d" using ok by (simp_all add: db_ok_def)
  obtain i where i: "removed_from d i d'" using remove_existing_object_removed [OF s(1) rm] by blast
  have "schema_ok d' \<and> balanced (\<lambda>_. 0) d'" using s rm by (rule remove_existing_object_balanced)
  moreover have "layouts_ok d'" using ok i layouts_ok_removed by (auto simp: db_ok_def)
  moreover have "buckets_ok d'"
    by (rule buckets_ok_frame [of d]) (use ok i in \<open>auto simp: db_ok_def removed_from_def\<close>)
  moreover have "parts_distinct d'"
    by (rule parts_distinct_frame [of d]) (use ok i in \<open>auto simp: db_ok_def removed_from_def\<close>)
  ultimately show ?thesis by (simp add: db_ok_def)
qed

lemma db_ok_delete_object: "db_ok d \<Longrightarrow> db_ok (snd (delete_object t b k c d))"
  unfolding delete_object_def
  by (rule transact_cases)
    (auto split: sum.splits option.splits intro: remove_existing_object_ok)

text \<open>The object a query returns is the row under the key with the blocks that tile it.\<close>

lemma object_block_ref_total:
  "schema_ok d \<Longrightarrow> \<exists>bs. load_object_blocks i d = Inr bs"
  unfolding load_object_blocks_def
  by (rule traverse_refs_total) (auto simp: object_block_ref_eq)

lemma rows_laid_out_sorted:
  "rows_laid_out n off rows \<Longrightarrow> sorted (map ob_ordinal rows) \<and> (\<forall>r \<in> set rows. n \<le> ob_ordinal r)"
  by (induction rows arbitrary: n off) force+

definition block_of_row :: "object_block_row \<Rightarrow> block_ref \<Rightarrow> bool" where
  "block_of_row r b \<longleftrightarrow> blk_id b = ob_block_id r \<and> blk_ordinal b = ob_ordinal r
     \<and> blk_offset b = ob_byte_offset r \<and> blk_size b = ob_size r"

lemma traverse_list_all2:
  "traverse f xs = Inr ys \<Longrightarrow> (\<And>x y. x \<in> set xs \<Longrightarrow> f x = Inr y \<Longrightarrow> P x y) \<Longrightarrow> list_all2 P xs ys"
  by (induction xs arbitrary: ys) (auto split: sum.splits)

lemma load_object_blocks_rows:
  assumes ok: "schema_ok d" and lay: "rows_laid_out 0 0 (rows_of_object d i)"
    and bs: "load_object_blocks i d = Inr bs"
  shows "list_all2 block_of_row (rows_of_object d i) bs"
proof -
  have srt: "sort_key ob_ordinal (rows_of_object d i) = rows_of_object d i"
    using rows_laid_out_sorted [OF lay] by (simp add: sort_key_sorted_id)
  let ?j = "join_blocks d ob_block_id (rows_of_object d i)"
  have "traverse object_block_ref ?j = Inr bs" using bs by (simp add: load_object_blocks_def srt)
  then have "list_all2 (\<lambda>x b. block_of_row (snd x) b) ?j bs"
    by (rule traverse_list_all2)
      (auto simp: in_join_blocks object_block_ref_eq block_of_row_def dest!: block_from_row_Inr)
  then have "list_all2 block_of_row (map snd ?j) bs" by (simp add: list_all2_map1)
  moreover have "map snd ?j = rows_of_object d i"
    by (rule join_blocks_map_snd [OF ok]) (use rows_exist(3) [OF ok] in simp)
  ultimately show ?thesis by simp
qed

section \<open>Copies\<close>

text \<open>
  What \<open>copy_object\<close> relies on in its \<open>source\<close>: its blocks are numbered from 0 and tile its
  size, and those that still exist have been committed. \<open>get_object\<close> returns such objects.
\<close>

fun numbered :: "int \<Rightarrow> block_ref list \<Rightarrow> bool" where
  "numbered n [] \<longleftrightarrow> True"
| "numbered n (b # bs) \<longleftrightarrow> blk_ordinal b = n \<and> numbered (n + 1) bs"

definition source_valid :: "db \<Rightarrow> object_record \<Rightarrow> bool" where
  "source_valid d ob \<longleftrightarrow>
     numbered 0 (obj_blocks ob) \<and> contiguous 0 (obj_blocks ob)
     \<and> distinct (map blk_id (obj_blocks ob)) \<and> total_size (obj_blocks ob) = obj_size ob
     \<and> obj_size ob \<le> i64_max \<and> (\<forall>b \<in> set (obj_blocks ob). committed d (blk_id b))"

lemma rows_of_blocks:
  assumes "list_all2 block_of_row rows bs"
  shows "rows_laid_out n off rows \<longleftrightarrow> numbered n bs \<and> contiguous off bs"
    and "sum_list (map ob_size rows) = total_size bs"
    and "map ob_block_id rows = map blk_id bs"
  using assms by (induction arbitrary: n off) (auto simp: block_of_row_def)

lemma in_object_committed: "balanced p d \<Longrightarrow> in_object d b \<Longrightarrow> committed d b"
  by (auto simp: balanced_def committed_def row_balanced_def)

lemma get_object_Some:
  assumes ok: "db_ok d" and get: "get_object b k d = Inr (Some ob)"
  shows "\<exists>r. r \<in> set (objects d) \<and> obj_id ob = orow_id r \<and> obj_bucket ob = b \<and> obj_key ob = k
    \<and> orow_bucket r = b \<and> orow_key r = k
    \<and> obj_size ob = orow_size r \<and> obj_etag ob = orow_etag r \<and> obj_metadata ob = orow_metadata r
    \<and> list_all2 block_of_row (rows_of_object d (orow_id r)) (obj_blocks ob)"
proof -
  have s: "schema_ok d" using ok by (simp add: db_ok_def)
  from get obtain r rs bs where r: "object_rows d b k = r # rs"
      "load_object_blocks (orow_id r) d = Inr bs" "ob = object_from_row r bs"
    by (auto simp: get_object_def split: list.splits sum.splits)
  note r1 = object_rows_single [OF s r(1)]
  have "rows_laid_out 0 0 (rows_of_object d (orow_id r))"
    using ok r1(2) by (simp add: db_ok_def layouts_ok_def layout_ok_def)
  from load_object_blocks_rows [OF s this r(2)] r(3) r1 show ?thesis
    by (intro exI [of _ r]) (simp add: object_from_row_def)
qed

lemma get_object_source_valid:
  assumes ok: "db_ok d" and get: "get_object b k d = Inr (Some ob)"
  shows "source_valid d ob"
proof -
  from get_object_Some [OF assms] obtain r where r: "r \<in> set (objects d)"
      "obj_size ob = orow_size r"
      "list_all2 block_of_row (rows_of_object d (orow_id r)) (obj_blocks ob)" by blast
  have lay: "layout_ok (orow_size r) (rows_of_object d (orow_id r))"
    using ok r(1) by (simp add: db_ok_def layouts_ok_def)
  have "committed d (blk_id x)" if "x \<in> set (obj_blocks ob)" for x
  proof (rule in_object_committed [of "\<lambda>_. 0"])
    have "blk_id x \<in> set (map ob_block_id (rows_of_object d (orow_id r)))"
      using that rows_of_blocks(3) [OF r(3)] by simp
    then show "in_object d (blk_id x)" by (auto simp: in_object_def rows_of_object_def)
  qed (use ok in \<open>simp add: db_ok_def\<close>)
  moreover from lay have "numbered 0 (obj_blocks ob) \<and> contiguous 0 (obj_blocks ob)"
    using rows_of_blocks(1) [OF r(3)] by (simp add: layout_ok_def)
  ultimately show ?thesis
    using lay by (simp add: source_valid_def layout_ok_def rows_of_blocks [OF r(3)] r(2))
qed

lemma get_object_total: "db_ok d \<Longrightarrow> \<exists>r. get_object b k d = Inr r"
proof (cases "object_rows d b k")
  case (Cons r rs)
  assume "db_ok d"
  then obtain bs where "load_object_blocks (orow_id r) d = Inr bs"
    using object_block_ref_total [of d] unfolding db_ok_def by blast
  with Cons show ?thesis by (simp add: get_object_def)
qed (simp add: get_object_def)

text \<open>The rows the loop of \<open>copy_object\<close> inserts.\<close>

definition copied_row :: "int \<Rightarrow> block_ref \<Rightarrow> object_block_row" where
  "copied_row oid b = \<lparr>ob_object_id = oid, ob_ordinal = blk_ordinal b, ob_block_id = blk_id b,
     ob_byte_offset = blk_offset b, ob_size = blk_size b\<rparr>"

lemma copied_rows: "list_all2 block_of_row (map (copied_row oid) bs) bs"
  by (induction bs) (simp_all add: copied_row_def block_of_row_def)

lemma copy_block_frame:
  assumes "copy_block oid b d = Inr d'"
  shows "objects d' = objects d \<and> multipart_part_blocks d' = multipart_part_blocks d
    \<and> multipart_parts d' = multipart_parts d \<and> multipart_uploads d' = multipart_uploads d
    \<and> buckets d' = buckets d \<and> object_blocks d' = object_blocks d @ [copied_row oid b]"
  using copy_block_Inr [OF assms] by (simp add: copied_row_def)

lemma copy_block_schema:
  assumes "schema_ok d" and "copy_block oid b d = Inr d'"
  shows "schema_ok d'"
proof -
  have "schema_ok (dequeue_gc (blk_id b) (update_block (blk_id b)
           (\<lambda>r. r\<lparr>trow_ref_count := trow_ref_count r + 1, trow_state := Committed\<rparr>) d))"
    using assms(1) by (intro schema_ok_dequeue schema_ok_update_block) simp_all
  from this assms(2) [unfolded copy_block_def] show ?thesis by (rule schema_ok_insert_object_block)
qed

lemma copy_blocks:
  assumes "fold_res (copy_block oid) bs d = Inr d'" and "schema_ok d" and "balanced p d"
    and "\<forall>b \<in> set bs. committed d (blk_id b)"
  shows "schema_ok d' \<and> balanced p d' \<and> objects d' = objects d
    \<and> multipart_part_blocks d' = multipart_part_blocks d
    \<and> multipart_parts d' = multipart_parts d \<and> multipart_uploads d' = multipart_uploads d
    \<and> buckets d' = buckets d \<and> object_blocks d' = object_blocks d @ map (copied_row oid) bs"
  using assms
proof (induction bs arbitrary: d)
  case Nil
  then show ?case by simp
next
  case (Cons b bs)
  from Cons.prems(1) obtain d1 where d1: "copy_block oid b d = Inr d1"
      "fold_res (copy_block oid) bs d1 = Inr d'" by (auto split: sum.splits)
  have "committed d (blk_id b)" using Cons.prems(4) by simp
  from balanced_copy_block [OF Cons.prems(3) d1(1) this] Cons.prems(4)
  have "balanced p d1" "\<forall>b \<in> set bs. committed d1 (blk_id b)" by auto
  from Cons.IH [OF d1(2) copy_block_schema [OF Cons.prems(2) d1(1)] this] copy_block_frame [OF d1(1)]
  show ?case by simp
qed

lemma db_ok_copy_object_tx:
  assumes ok: "db_ok d" and src: "source_valid d source" and bk: "bucket_named d bucket"
    and tx: "copy_object_tx t source bucket key metadata condition d = Inr (old, d')"
  shows "db_ok d'"
proof -
  from tx obtain removed d1 oid d2 where
    rm: "remove_existing_object t bucket key condition d = Inr (removed, d1)" and
    ins: "insert_object \<lparr>orow_id = 0, orow_bucket = bucket, orow_key = key,
            orow_size = obj_size source, orow_etag = obj_etag source, orow_metadata = metadata,
            orow_created_at = t, orow_modified_at = t\<rparr> d1 = Inr (oid, d2)" and
    cp: "fold_res (copy_block oid) (obj_blocks source) d2 = Inr d'"
    by (auto simp: copy_object_tx_def bind_res_Inr_iff split: if_splits)
  have s: "schema_ok d" "balanced (\<lambda>_. 0) d" using ok by (simp_all add: db_ok_def)
  note rmd = remove_existing_object_removed [OF s(1) rm]
  obtain i where i: "removed_from d i d1" using rmd(1) by blast
  have ok1: "db_ok d1" using ok rm by (rule remove_existing_object_ok)
  from insert_object_Inr [OF ins] have oid: "oid = next_rowid (map orow_id (objects d1))"
    and d2: "d2 = d1\<lparr>objects := objects d1 @ [\<lparr>orow_id = oid, orow_bucket = bucket, orow_key = key,
            orow_size = obj_size source, orow_etag = obj_etag source, orow_metadata = metadata,
            orow_created_at = t, orow_modified_at = t\<rparr>]\<rparr>" by simp_all
  have "balanced (\<lambda>_. 0) d2"
    by (rule balanced_frame [of _ d1]) (use ok1 in \<open>simp_all add: db_ok_def d2\<close>)
  moreover have "schema_ok d2" using ok1 ins by (auto simp: db_ok_def intro: schema_ok_insert_object)
  moreover have "\<forall>b \<in> set (obj_blocks source). committed d2 (blk_id b)"
  proof
    fix b assume "b \<in> set (obj_blocks source)"
    with src have "committed d (blk_id b)" by (simp add: source_valid_def)
    then have "committed d1 (blk_id b)" by (rule rmd(3))
    then show "committed d2 (blk_id b)" by (simp add: committed_def d2)
  qed
  ultimately have fin: "schema_ok d' \<and> balanced (\<lambda>_. 0) d' \<and> objects d' = objects d2
    \<and> multipart_part_blocks d' = multipart_part_blocks d2
    \<and> multipart_parts d' = multipart_parts d2 \<and> multipart_uploads d' = multipart_uploads d2
    \<and> buckets d' = buckets d2
    \<and> object_blocks d' = object_blocks d2 @ map (copied_row oid) (obj_blocks source)"
    using cp by (intro copy_blocks) auto
  have "layouts_ok d'"
  proof (rule layouts_ok_insert)
    show "schema_ok d1" "layouts_ok d1" using ok1 by (simp_all add: db_ok_def)
    show "object_blocks d' = object_blocks d1 @ map (copied_row oid) (obj_blocks source)"
      using fin by (simp add: d2)
    show "objects d' = objects d1 @ [\<lparr>orow_id = oid, orow_bucket = bucket, orow_key = key,
            orow_size = obj_size source, orow_etag = obj_etag source, orow_metadata = metadata,
            orow_created_at = t, orow_modified_at = t\<rparr>]" using fin by (simp add: d2)
  qed (use src rows_of_blocks [OF copied_rows [of oid "obj_blocks source"]]
       in \<open>simp_all add: oid layout_ok_def source_valid_def del: map_map,
           simp_all add: copied_row_def\<close>)
  moreover have "buckets_ok d'"
    using ok1 bk fin i by (auto simp: db_ok_def buckets_ok_def bucket_named_def d2 removed_from_def)
  moreover have "parts_distinct d'"
    by (rule parts_distinct_frame [of d1]) (use ok1 fin in \<open>simp_all add: db_ok_def d2\<close>)
  ultimately show ?thesis using fin by (simp add: db_ok_def)
qed

lemma db_ok_copy_object:
  assumes "db_ok d" and "source_valid d source" and "bucket_named d bucket"
  shows "db_ok (snd (copy_object t source bucket key metadata condition d))"
  unfolding copy_object_def read_back_snd
  by (rule transact_cases) (use assms db_ok_copy_object_tx in blast)+

section \<open>Collection\<close>

lemma db_ok_gc_queue_map:
  assumes ok: "db_ok d" and f: "\<And>q. q_block_id (f q) = q_block_id q"
  shows "db_ok (d\<lparr>gc_queue := map f (gc_queue d)\<rparr>)"
proof -
  have ids: "map q_block_id (map f (gc_queue d)) = map q_block_id (gc_queue d)" by (simp add: f)
  have "schema_ok (d\<lparr>gc_queue := map f (gc_queue d)\<rparr>)"
  proof (rule schema_ok_blocks_mono [of d])
    show "distinct (map q_block_id (gc_queue (d\<lparr>gc_queue := map f (gc_queue d)\<rparr>)))"
      using ok ids by (simp add: db_ok_def schema_defs del: map_map)
    show "\<forall>q \<in> set (gc_queue (d\<lparr>gc_queue := map f (gc_queue d)\<rparr>)). block_exists d (q_block_id q)"
      using ok by (auto simp: db_ok_def schema_defs f)
  qed (use ok in \<open>simp_all add: db_ok_def\<close>)
  moreover have "queued (d\<lparr>gc_queue := map f (gc_queue d)\<rparr>) b = queued d b" for b
    unfolding queued_def by (simp add: image_comp comp_def f)
  ultimately show ?thesis
    using ok by (simp add: db_ok_def balanced_def refs_def obj_refs_def part_refs_def
        in_object_def layouts_ok_def rows_of_object_def buckets_ok_def bucket_named_def
        parts_distinct_def rows_of_part_def)
qed

lemma db_ok_gc_failure: "db_ok d \<Longrightarrow> db_ok (gc_failure b e n d)"
  unfolding gc_failure_def by (rule db_ok_gc_queue_map) simp_all

lemma db_ok_gc_orphan: "db_ok d \<Longrightarrow> db_ok (gc_orphan b e d)"
  unfolding gc_orphan_def by (rule db_ok_gc_queue_map) simp_all

lemma db_ok_delete_block:
  assumes ok: "db_ok d" and del: "delete_block_row b d = Inr d'"
  shows "db_ok d'"
proof -
  have d': "d' = d\<lparr>telegram_blocks := filter (\<lambda>r. trow_id r \<noteq> b) (telegram_blocks d),
      gc_queue := filter (\<lambda>q. \<not> (q_block_id q = b \<and> block_exists d b)) (gc_queue d)\<rparr>"
    using del by (auto simp: delete_block_row_def split: if_splits)
  have "schema_ok d'" using ok del by (auto simp: db_ok_def intro: schema_ok_delete_block)
  moreover have "balanced (\<lambda>_. 0) d'"
  proof (rule balancedI)
    fix r assume "r \<in> set (telegram_blocks d')"
    then have r: "r \<in> set (telegram_blocks d)" "trow_id r \<noteq> b" by (auto simp: d')
    from r(2) have "queued d' (trow_id r) = queued d (trow_id r)" by (auto simp: d' queued_def)
    moreover have "balanced (\<lambda>_. 0) d" using ok by (simp add: db_ok_def)
    note balancedD [OF this r(1)]
    ultimately show "row_balanced (refs d' (trow_id r) + 0) (queued d' (trow_id r))
        (in_object d' (trow_id r)) r"
      by (simp add: d' refs_def obj_refs_def part_refs_def in_object_def)
  qed
  ultimately show ?thesis
    using ok by (simp add: db_ok_def d' layouts_ok_def rows_of_object_def buckets_ok_def
        bucket_named_def parts_distinct_def rows_of_part_def)
qed

lemma db_ok_gc_success: "db_ok d \<Longrightarrow> db_ok (gc_success b d)"
  by (auto simp: gc_success_def split: sum.splits intro: db_ok_delete_block)

end
