(* ===== verification/Db_Uploads.thy ===== *)
theory Db_Uploads
  imports Db_Methods
begin

text \<open>
  The methods of \<open>multipart.rs\<close> and the sweeps of \<open>gc.rs\<close> keep \<open>db_ok\<close>; what
  \<open>verify_parts\<close> accepts.
\<close>

section \<open>Uploads and staged blocks\<close>

lemma db_ok_create_upload: "db_ok d \<Longrightarrow> db_ok (snd (create_upload up d))"
proof -
  assume ok: "db_ok d"
  show ?thesis
    unfolding create_upload_def
  proof (rule transact_cases [where P = db_ok, OF ok])
    fix x d'
    let ?r = "\<lparr>urow_upload_id = up_upload_id up, urow_bucket = up_bucket up,
        urow_key = up_key up, urow_metadata = up_metadata up, urow_kind = up_kind up,
        urow_created_at = up_created_at up\<rparr>"
    assume "(if \<not> bucket_named d (up_bucket up) then Inl NoSuchBucket
        else bind_res (insert_upload ?r d) (\<lambda>d'. Inr ((), d'))) = Inr (x, d')"
    then have b: "bucket_named d (up_bucket up)" and ins: "insert_upload ?r d = Inr d'"
      by (auto simp: bind_res_Inr_iff split: if_splits)
    then have d': "d' = d\<lparr>multipart_uploads := multipart_uploads d @ [?r]\<rparr>"
      by (auto simp: insert_upload_def split: if_splits)
    have "schema_ok d'" using ok ins by (auto simp: db_ok_def intro: schema_ok_insert_upload)
    moreover have "balanced (\<lambda>_. 0) d'"
      by (rule balanced_frame [of _ d]) (use ok in \<open>simp_all add: db_ok_def d'\<close>)
    ultimately show "db_ok d'"
      using ok b by (auto simp: db_ok_def d' layouts_ok_def rows_of_object_def buckets_ok_def
          bucket_named_def parts_distinct_def rows_of_part_def)
  qed
qed

lemma insert_telegram_block_Inr:
  "insert_telegram_block r d = Inr (i, d') \<Longrightarrow>
     i = next_rowid (map trow_id (telegram_blocks d)) \<and> \<not> block_exists d i
     \<and> d' = d\<lparr>telegram_blocks := telegram_blocks d @ [r\<lparr>trow_id := i\<rparr>]\<rparr>"
  using next_rowid_fresh [of "map trow_id (telegram_blocks d)"]
  by (auto simp: insert_telegram_block_def Let_def block_exists_def split: if_splits simp del: next_rowid_fresh)

lemma db_ok_add_staged_block: "db_ok d \<Longrightarrow> db_ok (snd (add_staged_block t b d))"
proof -
  assume ok: "db_ok d"
  then have s: "schema_ok d" "balanced (\<lambda>_. 0) d" by (simp_all add: db_ok_def)
  show ?thesis
    unfolding add_staged_block_def
  proof (rule transact_cases [where P = db_ok, OF ok])
    fix i d'
    let ?r = "\<lparr>trow_id = 0, trow_chat_id = blk_chat_id b,
        trow_message_id = blk_message_id b, trow_backend = backend_as_str (blk_backend b),
        trow_document_id = blk_document_id b, trow_file_id = blk_file_id b,
        trow_file_unique_id = blk_file_unique_id b, trow_size = blk_size b,
        trow_message_date = blk_message_date b, trow_ref_count = 1, trow_state = Staged,
        trow_created_at = t\<rparr>"
    assume ins: "insert_telegram_block ?r d = Inr (i, d')"
    from insert_telegram_block_Inr [OF this]
    have new: "\<not> block_exists d i" and d': "d' = d\<lparr>telegram_blocks := telegram_blocks d @ [?r\<lparr>trow_id := i\<rparr>]\<rparr>"
      by (metis insert_telegram_block_Inr [OF ins])+
    have same: "refs d' x = refs d x" "queued d' x = queued d x" "in_object d' x = in_object d x" for x
      by (simp_all add: d' refs_def obj_refs_def part_refs_def queued_def in_object_def)
    have "schema_ok d'" using s(1) ins by (rule schema_ok_insert_block) simp
    moreover have "balanced (\<lambda>_. 0) d'"
    proof (rule balancedI)
      fix r assume "r \<in> set (telegram_blocks d')"
      then consider "r \<in> set (telegram_blocks d)" | "r = ?r\<lparr>trow_id := i\<rparr>" by (auto simp: d')
      then show "row_balanced (refs d' (trow_id r) + 0) (queued d' (trow_id r)) (in_object d' (trow_id r)) r"
      proof cases
        case 1
        from balancedD [OF s(2) this] show ?thesis by (simp add: same)
      next
        case 2
        have "refs d i = 0 \<and> \<not> queued d i" using s(1) new by (rule unreferenced_not_refs)
        moreover have "\<not> in_object d i" using calculation refs_pos_iff [of d i] by simp
        ultimately show ?thesis by (simp add: 2 same row_balanced_def)
      qed
    qed
    ultimately show "db_ok d'"
      using ok by (auto simp: db_ok_def d' layouts_ok_def rows_of_object_def buckets_ok_def
          bucket_named_def parts_distinct_def rows_of_part_def)
  qed
qed

section \<open>Replacing a part\<close>

lemma ensure_blocks_not_queued_Inr:
  "ensure_blocks_not_queued ids d = Inr u \<longleftrightarrow> (\<forall>i \<in> set ids. \<not> queued d i)"
  by (auto simp: ensure_blocks_not_queued_def queued_def list_ex_iff)

lemma insert_part_blocks_Nil [simp]: "insert_part_blocks u n [] d = Inr d"
  by (simp add: insert_part_blocks_def)

definition new_part_row :: "str \<Rightarrow> int \<Rightarrow> nat \<times> block_ref \<Rightarrow> part_block_row" where
  "new_part_row u n = (\<lambda>(ordinal, b). \<lparr>pb_upload_id = u, pb_number = n, pb_ordinal = int ordinal,
     pb_block_id = blk_id b, pb_byte_offset = blk_offset b, pb_size = blk_size b\<rparr>)"

lemma new_part_row_ids [simp]:
  "map pb_block_id (map (new_part_row u n) (enumerate k bs)) = map blk_id bs"
  by (induction bs arbitrary: k) (simp_all add: new_part_row_def del: map_map)

lemma insert_part_blocks_rows:
  assumes "fold_res (\<lambda>x. insert_part_block (new_part_row u n x)) (enumerate k bs) d = Inr d'"
    and "schema_ok d" and "balanced p d" and "distinct (map blk_id bs)"
    and "\<forall>b \<in> set (map blk_id bs). p b = 1 \<or> p b = 0 \<and> refs d b = 0 \<and> \<not> queued d b"
  shows "schema_ok d' \<and> balanced (\<lambda>b. if b \<in> set (map blk_id bs) then 0 else p b) d'
    \<and> d' = d\<lparr>multipart_part_blocks := multipart_part_blocks d @ map (new_part_row u n) (enumerate k bs)\<rparr>"
  using assms
proof (induction bs arbitrary: d k p)
  case Nil
  then show ?case by simp
next
  case (Cons b bs)
  let ?r = "new_part_row u n (k, b)"
  from Cons.prems(1) obtain d1 where d1: "insert_part_block ?r d = Inr d1"
    "fold_res (\<lambda>x. insert_part_block (new_part_row u n x)) (enumerate (Suc k) bs) d1 = Inr d'"
    by (auto split: sum.splits)
  have id: "pb_block_id ?r = blk_id b" by (simp add: new_part_row_def)
  note d1_eq = insert_part_block_Inr [OF d1(1)]
  define p1 where "p1 = p(blk_id b := 0)"
  have ok1: "schema_ok d1" using Cons.prems(2) d1(1) by (rule schema_ok_insert_part_block)
  have bal1: "balanced p1 d1"
  proof (cases "p (blk_id b) = 1")
    case True
    have "balanced (p(pb_block_id ?r := p (pb_block_id ?r) - 1)) d1"
      using Cons.prems(3) d1(1) by (rule balanced_insert_part_block_moved)
    with True show ?thesis by (simp add: id p1_def)
  next
    case False
    with Cons.prems(5) have "p (blk_id b) = 0" "refs d (blk_id b) = 0" "\<not> queued d (blk_id b)" by auto
    note free = this
    have "balanced p d1"
      by (rule balanced_insert_part_block_fresh [OF Cons.prems(3) d1(1)]) (simp_all add: id free)
    with free show ?thesis by (simp add: p1_def fun_upd_idem)
  qed
  have "\<forall>x \<in> set (map blk_id bs). p1 x = 1 \<or> p1 x = 0 \<and> refs d1 x = 0 \<and> \<not> queued d1 x"
  proof
    fix x assume x: "x \<in> set (map blk_id bs)"
    with Cons.prems(4) have "x \<noteq> blk_id b" by (metis distinct.simps(2) list.simps(9))
    then have "refs d1 x = refs d x" "queued d1 x = queued d x" "p1 x = p x"
      by (simp_all add: d1_eq id refs_def obj_refs_def part_refs_def queued_def p1_def)
    with Cons.prems(5) x show "p1 x = 1 \<or> p1 x = 0 \<and> refs d1 x = 0 \<and> \<not> queued d1 x" by auto
  qed
  note free = this
  have dst: "distinct (map blk_id bs)" using Cons.prems(4) by simp
  have fin: "schema_ok d'" "balanced (\<lambda>x. if x \<in> set (map blk_id bs) then 0 else p1 x) d'"
    "d' = d1\<lparr>multipart_part_blocks := multipart_part_blocks d1 @ map (new_part_row u n) (enumerate (Suc k) bs)\<rparr>"
    using Cons.IH [OF d1(2) ok1 bal1 dst free] by blast+
  from fin(2) have "balanced (\<lambda>x. if x \<in> set (map blk_id (b # bs)) then 0 else p x) d'"
    by (rule balanced_pend_cong) (auto simp: p1_def)
  moreover have "d' = d\<lparr>multipart_part_blocks := multipart_part_blocks d
      @ map (new_part_row u n) (enumerate k (b # bs))\<rparr>"
    unfolding fin(3) d1_eq by simp
  ultimately show ?case using fin(1) by blast
qed

lemma queued_decrement_blocks:
  "queued (decrement_blocks t bs d) x \<Longrightarrow> queued d x \<or> x \<in> set (map blk_id bs)"
proof (induction bs arbitrary: d)
  case (Cons b bs)
  then have "queued (decrement_block t (blk_id b) d) x \<or> x \<in> set (map blk_id bs)" by simp
  moreover have "queued (decrement_block t (blk_id b) d) x \<Longrightarrow> queued d x \<or> x = blk_id b"
    by (auto simp: decrement_block_def Let_def queued_def update_block_def enqueue_gc_def split: if_splits)
  ultimately show ?case by auto
qed simp

lemma traverse_part_ids:
  assumes "schema_ok d" and "traverse part_block_ref (join_blocks d pb_block_id rows) = Inr bs"
    and "\<forall>r \<in> set rows. block_exists d (pb_block_id r)"
  shows "map blk_id bs = map pb_block_id rows"
proof -
  have "map blk_id bs = map (pb_block_id \<circ> snd) (join_blocks d pb_block_id rows)"
    using assms(2) by (rule traverse_ids) (auto simp: part_block_ref_eq)
  also have "\<dots> = map pb_block_id (map snd (join_blocks d pb_block_id rows))" by simp
  also have "map snd (join_blocks d pb_block_id rows) = rows"
    using assms(1,3) by (rule join_blocks_map_snd)
  finally show ?thesis .
qed

text \<open>
  The blocks handed to \<open>replace_part\<close> are either in the part already or referenced nowhere:
  the engine passes the ids that \<open>add_staged_block\<close> has just returned.
\<close>

definition blocks_free :: "db \<Rightarrow> str \<Rightarrow> int \<Rightarrow> block_ref list \<Rightarrow> bool" where
  "blocks_free d u n blocks \<longleftrightarrow>
     (\<forall>b \<in> set (map blk_id blocks).
        refs d b = int (count_list (map pb_block_id (rows_of_part d u n)) b))"

lemma db_ok_replace_part_tx:
  assumes ok: "db_ok d" and free: "blocks_free d u n blocks"
    and tx: "replace_part_tx t u n sz etag blocks d = Inr (released, d')"
  shows "db_ok d'"
proof -
  let ?ids = "set (map blk_id blocks)"
  let ?cnt = "\<lambda>b. int (count_list (map pb_block_id (rows_of_part d u n)) b)"
  have s: "schema_ok d" "balanced (\<lambda>_. 0) d" "parts_distinct d" using ok by (simp_all add: db_ok_def)
  from tx obtain old d2 where
    nq: "ensure_blocks_not_queued (map blk_id blocks) d = Inr ()" and dst: "distinct (map blk_id blocks)" and
    old: "traverse part_block_ref (join_blocks d pb_block_id (sort_key pb_ordinal (rows_of_part d u n))) = Inr old" and
    rel: "released = filter (\<lambda>b. blk_id b \<notin> ?ids) old" and
    ins: "insert_part \<lparr>prow_upload_id = u, prow_number = n, prow_size = sz, prow_etag = etag\<rparr>
        (decrement_blocks t released (delete_part_row u n d)) = Inr d2" and
    blk: "insert_part_blocks u n blocks d2 = Inr d'"
    by (auto simp: replace_part_tx_def bind_res_Inr_iff Let_def split: if_splits)
  have "map blk_id old = map pb_block_id (sort_key pb_ordinal (rows_of_part d u n))"
    using s(1) old by (rule traverse_part_ids) (use rows_exist(2) [OF s(1)] in simp)
  then have old_cnt: "int (count_list (map blk_id old) b) = ?cnt b" for b by simp
  have "map blk_id released = filter (\<lambda>i. i \<notin> ?ids) (map blk_id old)"
    by (simp add: rel filter_map comp_def)
  then have rel_cnt: "int (count_list (map blk_id released) b) = (if b \<in> ?ids then 0 else ?cnt b)" for b
    using old_cnt [of b] count_notin [of b "map blk_id released"]
    by (simp add: count_list_filter_mem)
  define d0 where "d0 = delete_part_row u n d"
  define d1 where "d1 = decrement_blocks t released d0"
  have b0: "balanced ?cnt d0"
    using balanced_delete_part [OF s(2), of u n] by (simp add: d0_def)
  have s0: "schema_ok d0" unfolding d0_def using s(1) by (rule schema_ok_delete_part)
  have "balanced (\<lambda>b. ?cnt b - int (count_list (map blk_id released) b)) d1"
    unfolding d1_def using s0 b0
    by (rule balanced_decrement_blocks) (simp add: rel_cnt refs_nonneg)
  then have b1: "balanced (\<lambda>b. if b \<in> ?ids then ?cnt b else 0) d1"
    by (rule balanced_pend_cong) (simp add: rel_cnt)
  have s1: "schema_ok d1" unfolding d1_def using s0 by (rule schema_ok_decrement_blocks)
  have d2: "d2 = d1\<lparr>multipart_parts := multipart_parts d1
      @ [\<lparr>prow_upload_id = u, prow_number = n, prow_size = sz, prow_etag = etag\<rparr>]\<rparr>"
    using ins by (auto simp: insert_part_def d1_def d0_def split: if_splits)
  have s2: "schema_ok d2" using s1 ins unfolding d1_def d0_def by (rule schema_ok_insert_part)
  have b2: "balanced (\<lambda>b. if b \<in> ?ids then ?cnt b else 0) d2"
    using b1 by (rule balanced_frame) (simp_all add: d2)
  have free2: "\<forall>b \<in> ?ids. (if b \<in> ?ids then ?cnt b else 0) = 1
      \<or> (if b \<in> ?ids then ?cnt b else 0) = 0 \<and> refs d2 b = 0 \<and> \<not> queued d2 b"
  proof
    fix b assume b: "b \<in> ?ids"
    have one: "?cnt b = 0 \<or> ?cnt b = 1"
      using s(3) by (simp add: parts_distinct_def count_list_distinct)
    have r: "refs d2 b = refs d b - ?cnt b"
      using part_refs_delete_part [of u n d b]
      by (simp add: d2 d1_def d0_def refs_def obj_refs_def part_refs_def)
    have "\<not> queued d b" using nq b by (auto simp: ensure_blocks_not_queued_Inr)
    moreover have "queued d0 b = queued d b" by (simp add: d0_def queued_def)
    moreover have "b \<notin> set (map blk_id released)" using b unfolding rel set_map set_filter by blast
    ultimately have "\<not> queued d1 b" using queued_decrement_blocks unfolding d1_def by blast
    then have "\<not> queued d2 b" by (simp add: d2 queued_def)
    with one r free b show "(if b \<in> ?ids then ?cnt b else 0) = 1
        \<or> (if b \<in> ?ids then ?cnt b else 0) = 0 \<and> refs d2 b = 0 \<and> \<not> queued d2 b"
      by (auto simp: blocks_free_def)
  qed
  have "fold_res (\<lambda>x. insert_part_block (new_part_row u n x)) (enumerate 0 blocks) d2 = Inr d'"
    using blk by (simp add: insert_part_blocks_def new_part_row_def split_def)
  from insert_part_blocks_rows [OF this s2 b2 dst free2]
  have s3: "schema_ok d'"
    and b3: "balanced (\<lambda>b. if b \<in> ?ids then 0 else if b \<in> ?ids then ?cnt b else 0) d'"
    and d': "d' = d2\<lparr>multipart_part_blocks := multipart_part_blocks d2
        @ map (new_part_row u n) (enumerate 0 blocks)\<rparr>" by blast+
  have "balanced (\<lambda>_. 0) d'" using b3 by (rule balanced_pend_cong) simp
  moreover have "layouts_ok d'" "buckets_ok d'"
    using ok by (simp_all add: db_ok_def d' d2 d1_def d0_def layouts_ok_def rows_of_object_def
        buckets_ok_def bucket_named_def)
  moreover have "parts_distinct d'"
    unfolding parts_distinct_def
  proof (intro allI)
    fix u' n'
    let ?new = "map (new_part_row u n) (enumerate 0 blocks)"
    have mine: "\<forall>r \<in> set ?new. pb_upload_id r = u \<and> pb_number r = n"
      by (auto simp: new_part_row_def)
    have split: "rows_of_part d' u' n' = rows_of_part d0 u' n'
        @ filter (\<lambda>r. pb_upload_id r = u' \<and> pb_number r = n') ?new"
      by (simp add: rows_of_part_def d' d2 d1_def)
    show "distinct (map pb_block_id (rows_of_part d' u' n'))"
    proof (cases "u' = u \<and> n' = n")
      case True
      have "rows_of_part d0 u n = []"
        by (simp add: rows_of_part_def d0_def delete_part_row_def filter_eq_Nil_iff)
      moreover have "filter (\<lambda>r. pb_upload_id r = u \<and> pb_number r = n) ?new = ?new"
        using mine by (simp add: filter_id_conv)
      ultimately show ?thesis using dst True split by (simp del: map_map)
    next
      case False
      have "filter (\<lambda>r. pb_upload_id r = u' \<and> pb_number r = n') ?new = []"
        using mine False by (auto simp: filter_eq_Nil_iff)
      moreover have "distinct (map pb_block_id (rows_of_part d0 u' n'))"
      proof -
        have "rows_of_part d0 u' n' = filter (\<lambda>r. \<not> (pb_upload_id r = u \<and> pb_number r = n)) (rows_of_part d u' n')"
          by (simp add: rows_of_part_def d0_def delete_part_row_def conj_ac)
        with s(3) show ?thesis by (simp add: parts_distinct_def distinct_map_filter)
      qed
      ultimately show ?thesis using split by simp
    qed
  qed
  ultimately show ?thesis using s3 by (simp add: db_ok_def)
qed

lemma db_ok_replace_part:
  "db_ok d \<Longrightarrow> blocks_free d u n blocks \<Longrightarrow> db_ok (snd (replace_part t u n sz etag blocks d))"
  unfolding replace_part_def by (rule transact_cases) (auto intro: db_ok_replace_part_tx)

end
