(* ===== verification/Db_Commit.thy ===== *)
theory Db_Commit
  imports Db_Uploads
begin

text \<open>
  \<open>commit_upload\<close>, \<open>abort_upload\<close> and the sweeps of \<open>gc.rs\<close>: what \<open>verify_parts\<close> accepts,
  that the reference counts balance when an upload's rows turn into an object's, and that
  the invariant is kept.
\<close>

section \<open>What \<open>verify_parts\<close> accepts\<close>

definition row_key :: "part_block_row \<Rightarrow> int \<times> int \<times> int" where
  "row_key r = (pb_block_id r, pb_byte_offset r, pb_size r)"

definition ref_key :: "block_ref \<Rightarrow> int \<times> int \<times> int" where
  "ref_key b = (blk_id b, blk_offset b, blk_size b)"

lemma blocks_agree_iff: "blocks_agree actual blocks \<longleftrightarrow> actual = map ref_key blocks"
proof (induction actual arbitrary: blocks)
  case Nil
  then show ?case by auto
next
  case (Cons a actual)
  then show ?case by (cases a; cases blocks) (auto simp: ref_key_def)
qed

lemma verify_parts_loop_Inr:
  "verify_parts_loop persisted pblocks seen parts = Inr u \<Longrightarrow>
     distinct (map part_number parts) \<and> set (map part_number parts) \<inter> seen = {}
     \<and> (\<forall>p \<in> set parts.
          (\<exists>etag. persisted (part_number p) = Some (part_size p, etag)
             \<and> normalize_etag etag = normalize_etag (part_etag p))
          \<and> map ref_key (part_blocks p)
              = (case pblocks (part_number p) of None \<Rightarrow> [] | Some l \<Rightarrow> l))"
proof (induction parts arbitrary: persisted pblocks seen)
  case Nil
  then show ?case by simp
next
  case (Cons p ps)
  let ?n = "part_number p"
  from Cons.prems obtain etag where
    p: "?n \<notin> seen" "persisted ?n = Some (part_size p, etag)"
      "normalize_etag etag = normalize_etag (part_etag p)"
      "map ref_key (part_blocks p) = (case pblocks ?n of None \<Rightarrow> [] | Some l \<Rightarrow> l)"
    and rest: "verify_parts_loop (persisted(?n := None)) (pblocks(?n := None)) (insert ?n seen) ps = Inr u"
    by (simp add: blocks_agree_iff del: blocks_agree.simps split: if_splits option.splits prod.splits)
  have IH: "distinct (map part_number ps)" "set (map part_number ps) \<inter> insert ?n seen = {}"
    and parts: "\<forall>q \<in> set ps.
       (\<exists>etag. (persisted(?n := None)) (part_number q) = Some (part_size q, etag)
          \<and> normalize_etag etag = normalize_etag (part_etag q))
       \<and> map ref_key (part_blocks q)
           = (case (pblocks(?n := None)) (part_number q) of None \<Rightarrow> [] | Some l \<Rightarrow> l)"
    using Cons.IH [OF rest] by blast+
  have neq: "part_number q \<noteq> ?n" if "q \<in> set ps" for q
    using IH(2) image_eqI [of _ part_number q, OF refl that] by auto
  have "\<forall>q \<in> set ps.
       (\<exists>etag. persisted (part_number q) = Some (part_size q, etag)
          \<and> normalize_etag etag = normalize_etag (part_etag q))
       \<and> map ref_key (part_blocks q)
           = (case pblocks (part_number q) of None \<Rightarrow> [] | Some l \<Rightarrow> l)"
    using parts neq by simp
  moreover have "?n \<notin> set (map part_number ps)" 
    using IH(2) by (metis IntI emptyE insertI1)
  moreover have "set (map part_number (p # ps)) \<inter> seen = {}" using IH(2) p(1) by simp
  ultimately show ?case using IH(1) p(2-4) by simp
qed

lemma verify_parts_Inr:
  assumes "verify_parts u parts d = Inr x"
  shows "distinct (map part_number parts)"
    and "p \<in> set parts \<Longrightarrow> map ref_key (part_blocks p)
      = map row_key (filter (\<lambda>r. pb_number r = part_number p) (ordered_part_blocks d u))"
    and "p \<in> set parts \<Longrightarrow> \<exists>r \<in> set (multipart_parts d). prow_upload_id r = u
      \<and> prow_number r = part_number p \<and> prow_size r = part_size p
      \<and> normalize_etag (prow_etag r) = normalize_etag (part_etag p)"
proof -
  note v = verify_parts_loop_Inr [OF assms [unfolded verify_parts_def]]
  show "distinct (map part_number parts)" using v by simp
  assume p: "p \<in> set parts"
  let ?kvs = "map (\<lambda>r. (pb_number r, (pb_block_id r, pb_byte_offset r, pb_size r))) (ordered_part_blocks d u)"
  have "map ref_key (part_blocks p) = (case group_entries ?kvs (part_number p) of None \<Rightarrow> [] | Some l \<Rightarrow> l)"
    using v p by blast
  also have "\<dots> = map snd (filter (\<lambda>x. fst x = part_number p) ?kvs)" by (rule group_entries_eq)
  also have "\<dots> = map row_key (filter (\<lambda>r. pb_number r = part_number p) (ordered_part_blocks d u))"
    by (simp add: filter_map comp_def row_key_def)
  finally show "map ref_key (part_blocks p)
      = map row_key (filter (\<lambda>r. pb_number r = part_number p) (ordered_part_blocks d u))" .
  from v p obtain etag where "map_of (rev (map (\<lambda>r. (prow_number r, (prow_size r, prow_etag r)))
          (sort_key prow_number (filter (\<lambda>r. prow_upload_id r = u) (multipart_parts d))))) (part_number p)
       = Some (part_size p, etag)" "normalize_etag etag = normalize_etag (part_etag p)" by blast
  from map_of_SomeD [OF this(1)] this(2)
  show "\<exists>r \<in> set (multipart_parts d). prow_upload_id r = u
      \<and> prow_number r = part_number p \<and> prow_size r = part_size p
      \<and> normalize_etag (prow_etag r) = normalize_etag (part_etag p)" by auto
qed

text \<open>The blocks of the completed parts, and the rows of the parts left out, are together the
  rows of the upload.\<close>

lemma count_by_number:
  "distinct ns \<Longrightarrow>
     sum_list (map (\<lambda>n. count_list (map f (filter (\<lambda>r. g r = n) xs)) b) ns)
       = count_list (map f (filter (\<lambda>r. g r \<in> set ns) xs)) b"
proof (induction ns)
  case (Cons n ns)
  have "count_list (map f (filter (\<lambda>r. g r \<in> set (n # ns)) xs)) b
      = count_list (map f (filter (\<lambda>r. g r = n) xs)) b
        + count_list (map f (filter (\<lambda>r. g r \<in> set ns) xs)) b"
    using Cons.prems by (induction xs) auto
  with Cons show ?case by simp
qed simp

lemma count_concat: "count_list (concat xss) b = sum_list (map (\<lambda>xs. count_list xs b) xss)"
  by (induction xss) simp_all

lemma verify_parts_ids:
  assumes "verify_parts u parts d = Inr x" and "p \<in> set parts"
  shows "map blk_id (part_blocks p)
    = map pb_block_id (filter (\<lambda>r. pb_number r = part_number p) (ordered_part_blocks d u))"
  using arg_cong [OF verify_parts_Inr(2) [OF assms], of "map fst"]
  by (simp add: comp_def ref_key_def row_key_def)

lemma verify_parts_count:
  assumes v: "verify_parts u parts d = Inr x"
  shows "count_list (map blk_id (all_blocks parts)) b
    = count_list (map pb_block_id
        (filter (\<lambda>r. pb_number r \<in> set (map part_number parts)) (ordered_part_blocks d u))) b"
proof -
  have "map blk_id (all_blocks parts)
      = concat (map (\<lambda>p. map blk_id (part_blocks p)) parts)"
    by (simp add: all_blocks_def map_concat comp_def)
  also have "\<dots> = concat (map (\<lambda>p. map pb_block_id
        (filter (\<lambda>r. pb_number r = part_number p) (ordered_part_blocks d u))) parts)"
    using verify_parts_ids [OF v] by (simp cong: map_cong)
  finally have "count_list (map blk_id (all_blocks parts)) b
      = sum_list (map (\<lambda>n. count_list (map pb_block_id
          (filter (\<lambda>r. pb_number r = n) (ordered_part_blocks d u))) b) (map part_number parts))"
    by (simp add: count_concat comp_def)
  also have "\<dots> = count_list (map pb_block_id
        (filter (\<lambda>r. pb_number r \<in> set (map part_number parts)) (ordered_part_blocks d u))) b"
    by (rule count_by_number [OF verify_parts_Inr(1) [OF v]])
  finally show ?thesis .
qed

lemma ordered_part_blocks_count [simp]:
  "count_list (map pb_block_id (ordered_part_blocks d u)) b
     = count_list (map pb_block_id (rows_of_upload d u)) b"
  by (simp add: ordered_part_blocks_def)

text \<open>A join commutes with a filter on the joined rows.\<close>

lemma filter_join: "filter (\<lambda>x. P (snd x)) (join_blocks d key rows) = join_blocks d key (filter P rows)"
proof (induction rows)
  case (Cons r rows)
  have "filter (\<lambda>x. P (snd x)) (map (\<lambda>b. (b, r)) bs) = (if P r then map (\<lambda>b. (b, r)) bs else [])" for bs
    by (induction bs) simp_all
  with Cons show ?case by (simp add: join_blocks_def)
qed (simp add: join_blocks_def)

section \<open>The commit\<close>

lemma unused_count:
  assumes "schema_ok d" and "verify_parts u parts d0 = Inr x"
    and "multipart_part_blocks d = multipart_part_blocks d0"
    and "traverse part_block_ref (filter (\<lambda>x. pb_number (snd x) \<notin> set (map part_number parts))
           (join_blocks d pb_block_id (ordered_part_blocks d u))) = Inr unused"
  shows "count_list (map blk_id (all_blocks parts)) b + count_list (map blk_id unused) b
    = count_list (map pb_block_id (rows_of_upload d u)) b"
proof -
  let ?N = "set (map part_number parts)"
  have op: "ordered_part_blocks d0 u = ordered_part_blocks d u"
    using assms(3) by (simp add: ordered_part_blocks_def rows_of_upload_def)
  have "map blk_id unused = map pb_block_id (filter (\<lambda>r. pb_number r \<notin> ?N) (ordered_part_blocks d u))"
    using assms(1) assms(4) [unfolded filter_join [of "\<lambda>r. pb_number r \<notin> ?N"]]
    by (rule traverse_part_ids) (use rows_exist(1) [OF assms(1), of u] in auto)
  then have "count_list (map blk_id unused) b
      = count_list (map pb_block_id (filter (\<lambda>r. pb_number r \<notin> ?N) (ordered_part_blocks d u))) b"
    by simp
  moreover have "count_list (map pb_block_id (ordered_part_blocks d u)) b
      = count_list (map pb_block_id (filter (\<lambda>r. pb_number r \<in> ?N) (ordered_part_blocks d u))) b
        + count_list (map pb_block_id (filter (\<lambda>r. pb_number r \<notin> ?N) (ordered_part_blocks d u))) b"
    using count_list_filter_split [of pb_block_id "\<lambda>r. pb_number r \<in> ?N" "ordered_part_blocks d u" b]
    by linarith
  ultimately show ?thesis
    using verify_parts_count [OF assms(2), of b] by (simp only: op ordered_part_blocks_count)
qed

lemma count_rows_le_refs: "int (count_list (map pb_block_id (rows_of_upload d u)) b) \<le> refs d b"
  using part_refs_delete_upload [of u d b] by (simp add: refs_def)

text \<open>The layout of the new object, from \<open>validate_parts_layout\<close>.\<close>

lemma sum_sizes_all_blocks:
  "\<forall>p \<in> set parts. total_size (part_blocks p) = part_size p
     \<Longrightarrow> total_size (all_blocks parts) = sum_list (map part_size parts)"
  by (induction parts) (simp_all add: all_blocks_def)

lemma contiguous_positive: "contiguous off bs \<Longrightarrow> \<forall>b \<in> set bs. 0 < blk_size b"
  by (induction off bs rule: contiguous.induct) simp_all

lemma layout_ok_tile:
  assumes "validate_parts_layout parts = Inr sz"
  shows "layout_ok sz (tile_rows oid 0 0 (all_blocks parts))"
proof -
  have v: "\<forall>p \<in> set parts. contiguous 0 (part_blocks p) \<and> total_size (part_blocks p) = part_size p"
    "distinct (map blk_id (all_blocks parts))" "sz = sum_list (map part_size parts)" "sz \<le> i64_max"
    using assms by (simp_all add: validate_parts_layout_iff all_blocks_def)
  have "\<forall>b \<in> set (all_blocks parts). 0 < blk_size b"
    using v(1) by (auto simp: all_blocks_def dest: contiguous_positive)
  then show ?thesis
    using v sum_sizes_all_blocks [of parts]
    by (simp add: layout_ok_def rows_laid_out_tile total_size_def)
qed

lemma db_ok_commit_upload_tx:
  assumes ok: "db_ok d" and up: "up \<in> set (multipart_uploads d)"
    and lay: "validate_parts_layout parts = Inr sz"
    and tx: "commit_upload_tx t up sz etag parts condition d = Inr (old, d')"
  shows "db_ok d'"
proof -
  let ?u = "urow_upload_id up" and ?all = "map blk_id (all_blocks parts)"
  let ?row = "\<lparr>orow_id = 0, orow_bucket = urow_bucket up,
         orow_key = urow_key up, orow_size = sz, orow_etag = etag,
         orow_metadata = urow_metadata up, orow_created_at = urow_created_at up,
         orow_modified_at = t\<rparr>"
  from tx obtain removed d1 oid d2 d3 unused where
    ver: "verify_parts ?u parts d = Inr ()" and
    rm: "remove_existing_object t (urow_bucket up) (urow_key up) condition d = Inr (removed, d1)" and
    ins: "insert_object ?row d1 = Inr (oid, d2)" and
    att: "attach_blocks oid 0 0 (all_blocks parts) d2 = Inr d3" and
    uns: "traverse part_block_ref (filter (\<lambda>x. pb_number (snd x) \<notin> set (map part_number parts))
           (join_blocks d3 pb_block_id (ordered_part_blocks d3 ?u))) = Inr unused" and
    d': "d' = delete_upload_row ?u (decrement_blocks t unused d3)"
    by (auto simp: commit_upload_tx_def bind_res_Inr_iff)
  have s: "schema_ok d" using ok by (simp add: db_ok_def)
  obtain i where i: "removed_from d i d1" using remove_existing_object_removed(1) [OF s rm] by blast
  have ok1: "db_ok d1" using ok rm by (rule remove_existing_object_ok)
  from insert_object_Inr [OF ins] have oid: "oid = next_rowid (map orow_id (objects d1))"
    and d2: "d2 = d1\<lparr>objects := objects d1 @ [?row\<lparr>orow_id := oid\<rparr>]\<rparr>" by simp_all
  have b2: "balanced (\<lambda>_. 0) d2"
    by (rule balanced_frame [of _ d1]) (use ok1 in \<open>simp_all add: db_ok_def d2\<close>)
  have s2: "schema_ok d2" using ok1 ins by (auto simp: db_ok_def intro: schema_ok_insert_object)
  note fr = attach_blocks_frame [OF att]
  have pb: "multipart_part_blocks d3 = multipart_part_blocks d" "multipart_part_blocks d2 = multipart_part_blocks d"
    using fr i by (simp_all add: d2 removed_from_def)
  have rows: "rows_of_upload d3 ?u = rows_of_upload d ?u" "rows_of_upload d2 ?u = rows_of_upload d ?u"
    by (simp_all add: rows_of_upload_def pb)
  have "0 < refs d2 (blk_id b) + 0" if "b \<in> set (all_blocks parts)" for b
  proof -
    from that obtain p where p: "p \<in> set parts" "b \<in> set (part_blocks p)" by (auto simp: all_blocks_def)
    then have "blk_id b \<in> set (map blk_id (part_blocks p))" by simp
    then have "blk_id b \<in> set (map pb_block_id (ordered_part_blocks d ?u))"
      unfolding verify_parts_ids [OF ver p(1)] by auto
    then have "in_part d2 (blk_id b)" by (auto simp: in_part_def pb rows_of_upload_def)
    then show ?thesis using refs_pos_iff [of d2 "blk_id b"] by simp
  qed
  from attach_blocks_balanced [OF att s2 b2 this]
  have s3: "schema_ok d3" and b3: "balanced (\<lambda>b. 0 - int (count_list ?all b)) d3" by blast+
  have cnt: "int (count_list ?all b) + int (count_list (map blk_id unused) b)
      = int (count_list (map pb_block_id (rows_of_upload d3 ?u)) b)" for b
    using unused_count [OF s3 ver pb(1) uns, of b] by linarith
  have refs3: "refs d3 b = refs d2 b + int (count_list ?all b)" for b
    using fr by (simp add: refs_def obj_refs_def part_refs_def d2)
  have "int (count_list (map blk_id unused) b) \<le> refs d3 b + (0 - int (count_list ?all b))" for b
  proof -
    have "int (count_list (map blk_id unused) b) \<le> int (count_list (map pb_block_id (rows_of_upload d2 ?u)) b)"
      using cnt [of b] by (simp add: rows)
    also have "\<dots> \<le> refs d2 b" by (rule count_rows_le_refs)
    finally show ?thesis by (simp add: refs3)
  qed
  then have b4: "balanced (\<lambda>b. 0 - int (count_list ?all b) - int (count_list (map blk_id unused) b))
      (decrement_blocks t unused d3)"
    using s3 b3 by (intro balanced_decrement_blocks)
  have rows4: "rows_of_upload (decrement_blocks t unused d3) ?u = rows_of_upload d3 ?u"
    by (simp add: rows_of_upload_def)
  have "balanced (\<lambda>b. 0 - int (count_list ?all b) - int (count_list (map blk_id unused) b)
      + int (count_list (map pb_block_id (rows_of_upload (decrement_blocks t unused d3) ?u)) b)) d'"
    unfolding d' using b4 by (rule balanced_delete_upload)
  then have "balanced (\<lambda>_. 0) d'"
  proof (rule balanced_pend_cong)
    fix b
    show "0 - int (count_list ?all b) - int (count_list (map blk_id unused) b)
      + int (count_list (map pb_block_id (rows_of_upload (decrement_blocks t unused d3) ?u)) b) = 0"
      using cnt [of b] unfolding rows4 by linarith
  qed
  moreover have "schema_ok d'" using s3 by (auto simp: d')
  moreover have "layouts_ok d'"
  proof (rule layouts_ok_insert)
    show "schema_ok d1" "layouts_ok d1" using ok1 by (simp_all add: db_ok_def)
    show "objects d' = objects d1 @ [?row\<lparr>orow_id := oid\<rparr>]" using fr by (simp add: d' d2)
    show "object_blocks d' = object_blocks d1 @ tile_rows oid 0 0 (all_blocks parts)"
      using fr by (simp add: d' d2)
    show "layout_ok (orow_size (?row\<lparr>orow_id := oid\<rparr>)) (tile_rows oid 0 0 (all_blocks parts))"
      using layout_ok_tile [OF lay] by simp
  qed (auto simp: oid dest: tile_rows_object)
  moreover have "buckets_ok d'"
  proof -
    have "bucket_named d (urow_bucket up)" using ok up by (simp add: db_ok_def buckets_ok_def)
    with ok1 fr i show ?thesis
      by (auto simp: db_ok_def buckets_ok_def bucket_named_def d' d2 removed_from_def delete_upload_row_def)
  qed
  moreover have "parts_distinct d'"
  proof -
    have "rows_of_part d' u n = filter (\<lambda>r. pb_upload_id r \<noteq> ?u) (rows_of_part d u n)" for u n
      by (simp add: rows_of_part_def d' delete_upload_row_def pb conj_ac)
    with ok show ?thesis by (simp add: db_ok_def parts_distinct_def distinct_map_filter)
  qed
  ultimately show ?thesis by (simp add: db_ok_def)
qed

lemma upload_rows_mem: "upload_rows d u = [up] \<Longrightarrow> up \<in> set (multipart_uploads d) \<and> urow_upload_id up = u"
proof -
  assume "upload_rows d u = [up]"
  then have "up \<in> set (upload_rows d u)" by simp
  then show ?thesis by (simp add: upload_rows_def)
qed

lemma commit_upload_snd:
  "snd (commit_upload t u sz etag parts condition d) = d
   \<or> (\<exists>up old. upload_rows d u = [up] \<and> validate_parts_layout parts = Inr sz
        \<and> commit_upload_tx t up sz etag parts condition d
            = Inr (old, snd (commit_upload t u sz etag parts condition d)))"
proof (cases "validate_parts_layout parts = Inr sz \<and> (\<exists>up. upload_rows d u = [up])")
  case True
  then obtain up where up: "upload_rows d u = [up]" "validate_parts_layout parts = Inr sz" by blast
  let ?r = "transact d (commit_upload_tx t up sz etag parts condition d)"
  have "snd (commit_upload t u sz etag parts condition d) = snd ?r"
    using up read_back_snd [of "urow_bucket up" "urow_key up"
        "Other (lit ''object disappeared after commit'')" ?r]
    by (auto simp: commit_upload_def split: sum.splits prod.splits simp del: read_back_snd transact_snd)
  with up show ?thesis by (auto split: sum.splits)
next
  case False
  then show ?thesis
    by (cases "validate_parts_layout parts") (auto simp: commit_upload_def split: list.splits)
qed

lemma db_ok_commit_upload: "db_ok d \<Longrightarrow> db_ok (snd (commit_upload t u sz etag parts condition d))"
proof -
  assume ok: "db_ok d"
  show ?thesis
    using commit_upload_snd [of t u sz etag parts condition d]
  proof (elim disjE exE conjE)
    fix up old
    assume "upload_rows d u = [up]" "validate_parts_layout parts = Inr sz"
      "commit_upload_tx t up sz etag parts condition d
            = Inr (old, snd (commit_upload t u sz etag parts condition d))"
    with ok show ?thesis by (meson db_ok_commit_upload_tx upload_rows_mem)
  qed (use ok in simp)
qed

section \<open>Aborting and sweeping\<close>

lemma db_ok_drop_upload:
  assumes ok: "db_ok d"
    and rel: "traverse part_block_ref (join_blocks d pb_block_id (ordered_part_blocks d u)) = Inr released"
  shows "db_ok (decrement_blocks t released (delete_upload_row u d))"
proof -
  let ?d1 = "delete_upload_row u d"
  have s: "schema_ok d" "balanced (\<lambda>_. 0) d" using ok by (simp_all add: db_ok_def)
  have "map blk_id released = map pb_block_id (ordered_part_blocks d u)"
    using s(1) rel by (rule traverse_part_ids) (use rows_exist(1) [OF s(1)] in simp)
  then have cnt: "count_list (map blk_id released) b = count_list (map pb_block_id (rows_of_upload d u)) b" for b
    by simp
  have s1: "schema_ok ?d1" using s(1) by blast
  have b1: "balanced (\<lambda>b. int (count_list (map blk_id released) b)) ?d1"
    using balanced_delete_upload [OF s(2), of u] by (simp only: cnt add_0)
  have "balanced (\<lambda>b. int (count_list (map blk_id released) b) - int (count_list (map blk_id released) b))
      (decrement_blocks t released ?d1)"
    using s1 b1 by (rule balanced_decrement_blocks) (simp add: refs_nonneg)
  then have "balanced (\<lambda>_. 0) (decrement_blocks t released ?d1)" by simp
  moreover have "schema_ok (decrement_blocks t released ?d1)" using s1 by blast
  moreover have "parts_distinct (decrement_blocks t released ?d1)"
  proof -
    have "rows_of_part (decrement_blocks t released ?d1) u' n
        = filter (\<lambda>r. pb_upload_id r \<noteq> u) (rows_of_part d u' n)" for u' n
      by (simp add: rows_of_part_def delete_upload_row_def conj_ac)
    with ok show ?thesis by (simp add: db_ok_def parts_distinct_def distinct_map_filter)
  qed
  moreover have "layouts_ok (decrement_blocks t released ?d1)" "buckets_ok (decrement_blocks t released ?d1)"
    using ok by (auto simp: db_ok_def layouts_ok_def rows_of_object_def buckets_ok_def
        bucket_named_def delete_upload_row_def)
  ultimately show ?thesis by (simp add: db_ok_def)
qed

lemma db_ok_abort_upload_with_blocks: "db_ok d \<Longrightarrow> db_ok (snd (abort_upload_with_blocks t u d))"
  unfolding abort_upload_with_blocks_def
  by (rule transact_cases)
    (auto simp: bind_res_Inr_iff split: if_splits intro: db_ok_drop_upload)

lemma abort_upload_snd: "snd (abort_upload t u d) = snd (abort_upload_with_blocks t u d)"
  by (auto simp: abort_upload_def split: prod.splits sum.splits)

lemma db_ok_abort_upload: "db_ok d \<Longrightarrow> db_ok (snd (abort_upload t u d))"
  by (simp add: abort_upload_snd db_ok_abort_upload_with_blocks)

lemma db_ok_expire_loop: "db_ok d \<Longrightarrow> db_ok (snd (expire_loop t us n d))"
proof (induction us arbitrary: n d)
  case (Cons u us)
  obtain r d1 where a: "abort_upload t u d = (r, d1)" by (cases "abort_upload t u d") auto
  then have "db_ok d1" using db_ok_abort_upload [OF Cons.prems, of t u] by simp
  with Cons.IH a show ?case by (cases r) simp_all
qed simp

lemma db_ok_expire_uploads: "db_ok d \<Longrightarrow> db_ok (snd (expire_uploads t before d))"
  by (simp add: expire_uploads_def db_ok_expire_loop)

text \<open>\<open>queue_stale_block\<close> drops the count a staged block has for being staged, and queues it.\<close>

lemma db_ok_queue_stale_block: "db_ok d \<Longrightarrow> db_ok (snd (queue_stale_block t b d))"
proof -
  assume ok: "db_ok d"
  then have s: "schema_ok d" and bal: "balanced (\<lambda>_. 0) d" by (simp_all add: db_ok_def)
  define f where "f = (\<lambda>r :: block_row. if trow_state r = Staged \<and> 0 < trow_ref_count r
      then r\<lparr>trow_ref_count := 0\<rparr> else r)"
  have f: "trow_id (f r) = trow_id r" "trow_chat_id (f r) = trow_chat_id r"
    "trow_message_id (f r) = trow_message_id r" "trow_backend (f r) = trow_backend r"
    "trow_state (f r) = trow_state r" for r by (simp_all add: f_def)
  define d1 where "d1 = (if unreferenced d b then update_block b f d else d)"
  define c where "c \<longleftrightarrow> list_ex (\<lambda>r. trow_id r = b \<and> trow_state r = Staged \<and> trow_ref_count r = 0)
      (telegram_blocks d1) \<and> unreferenced d1 b"
  define d2 where "d2 = (if c then enqueue_gc b t d1 else d1)"
  have res: "snd (queue_stale_block t b d) = d2"
    unfolding queue_stale_block_def Let_def d2_def c_def d1_def f_def by simp
  have s1: "schema_ok d1" using s f by (auto simp: d1_def intro!: schema_ok_update_block)
  have ex: "c \<Longrightarrow> block_exists d1 b" by (auto simp: c_def list_ex_iff intro: block_existsI)
  have s2: "schema_ok d2" using s1 ex by (auto simp: d2_def intro: schema_ok_enqueue)
  have tabs: "object_blocks d2 = object_blocks d" "multipart_part_blocks d2 = multipart_part_blocks d"
    "objects d2 = objects d" "buckets d2 = buckets d" "multipart_uploads d2 = multipart_uploads d"
    by (simp_all add: d2_def d1_def)
  have same: "refs d2 x = refs d x" "in_object d2 x = in_object d x"
    "unreferenced d1 b = unreferenced d b" for x
    by (simp_all add: refs_def obj_refs_def part_refs_def in_object_def tabs)
      (simp add: d1_def unreferenced_def in_object_def in_part_def)
  have q2: "queued d2 x \<longleftrightarrow> queued d x \<or> c \<and> x = b" for x
    by (simp add: d2_def) (simp add: d1_def queued_def)
  have tb: "telegram_blocks d2 = telegram_blocks d1" by (simp add: d2_def)
  have "balanced (\<lambda>_. 0) d2"
  proof (rule balancedI)
    fix r' assume r': "r' \<in> set (telegram_blocks d2)"
    show "row_balanced (refs d2 (trow_id r') + 0) (queued d2 (trow_id r')) (in_object d2 (trow_id r')) r'"
    proof (cases "unreferenced d b")
      case False
      then have "\<not> c" by (simp add: c_def same)
      moreover have "r' \<in> set (telegram_blocks d)" using r' False by (simp add: tb d1_def)
      ultimately show ?thesis using balancedD [OF bal] by (simp add: same q2)
    next
      case True
      then obtain r where r: "r \<in> set (telegram_blocks d)" "r' = (if trow_id r = b then f r else r)"
        using r' by (auto simp: tb d1_def update_block_def)
      note old = balancedD [OF bal r(1)]
      show ?thesis
      proof (cases "trow_id r = b")
        case False
        with old r show ?thesis by (simp add: same q2)
      next
        case eq: True
        have z: "refs d b = 0" using True by (simp add: unreferenced_iff_refs)
        have "trow_ref_count r' = 0"
          using old z r(2) eq by (auto simp: row_balanced_def f_def)
        moreover have "\<not> in_object d b" using True by (simp add: unreferenced_def)
        moreover have "c \<or> queued d b"
        proof (cases "trow_state r = Staged")
          case True
          with r(2) eq have "trow_id r' = b" "trow_state r' = Staged" by (simp_all add: f)
          with r' \<open>trow_ref_count r' = 0\<close> \<open>unreferenced d b\<close> have c
            unfolding c_def list_ex_iff tb same by blast
          then show ?thesis ..
        next
          case False
          with old z eq show ?thesis by (auto simp: row_balanced_def)
        qed
        ultimately show ?thesis using z eq r(2) by (auto simp: same q2 f row_balanced_def)
      qed
    qed
  qed
  then show ?thesis
    using ok s2 tabs unfolding res
    by (simp add: db_ok_def layouts_ok_def rows_of_object_def buckets_ok_def bucket_named_def
        parts_distinct_def rows_of_part_def)
qed

end
