(* ===== verification/Db_Keeps.thy ===== *)
theory Db_Keeps
  imports Db_Commit
begin

text \<open>
  The contract that makes collection safe while other requests run: between the moment a
  block is queued and the moment its row is deleted, no method takes it out of the queue or
  gives its row another Telegram message. The contract is the locale \<open>db_method\<close>; every
  writing method of \<open>Db\<close> but \<open>add_staged_block\<close>, which makes new rows, is interpreted in it.
\<close>

section \<open>The contract\<close>

definition pairs :: "db \<Rightarrow> (int \<times> int) list" where
  "pairs d = map (\<lambda>r. (trow_id r, trow_message_id r)) (telegram_blocks d)"

definition keeps :: "db \<Rightarrow> db \<Rightarrow> bool" where
  "keeps d d' \<longleftrightarrow> set (pairs d') \<subseteq> set (pairs d)
     \<and> (\<forall>b. queued d b \<longrightarrow> block_exists d' b \<longrightarrow> queued d' b)"

lemma block_exists_pairs: "block_exists d b \<longleftrightarrow> b \<in> fst ` set (pairs d)"
  by (force simp: block_exists_def pairs_def)

lemma keeps_refl [simp]: "keeps d d"
  by (simp add: keeps_def)

lemma keeps_trans: "keeps d d1 \<Longrightarrow> keeps d1 d2 \<Longrightarrow> keeps d d2"
  unfolding keeps_def block_exists_pairs by blast

lemma keeps_same_tables:
  "telegram_blocks d' = telegram_blocks d \<Longrightarrow> gc_queue d' = gc_queue d \<Longrightarrow> keeps d d'"
  by (simp add: keeps_def pairs_def queued_def)

locale db_method =
  fixes op :: "db \<Rightarrow> db" and guard :: "db \<Rightarrow> bool"
  assumes preserves: "db_ok d \<Longrightarrow> guard d \<Longrightarrow> db_ok (op d)"
    and keeps_claims: "db_ok d \<Longrightarrow> guard d \<Longrightarrow> keeps d (op d)"
begin

text \<open>Messages whose deletion has begun belong to queued blocks only, before and after.\<close>

lemma claims_stay:
  assumes "db_ok d" and "guard d"
    and "\<forall>(b, m) \<in> set (pairs d). m \<in> M \<longrightarrow> queued d b"
  shows "\<forall>(b, m) \<in> set (pairs (op d)). m \<in> M \<longrightarrow> queued (op d) b"
proof (intro ballI, clarify)
  fix b m assume bm: "(b, m) \<in> set (pairs (op d))" and "m \<in> M"
  have k: "keeps d (op d)" using assms(1,2) by (rule keeps_claims)
  with bm have "(b, m) \<in> set (pairs d)" by (auto simp: keeps_def)
  with assms(3) \<open>m \<in> M\<close> have "queued d b" by auto
  moreover have "block_exists (op d) b" using bm by (force simp: block_exists_pairs)
  ultimately show "queued (op d) b" using k by (simp add: keeps_def)
qed

end

section \<open>Statements and helpers\<close>

lemma pairs_update_block:
  "(\<And>r. trow_id (f r) = trow_id r \<and> trow_message_id (f r) = trow_message_id r)
     \<Longrightarrow> pairs (update_block b f d) = pairs d"
  by (simp add: pairs_def update_block_def)

lemma pairs_frame [simp]:
  "pairs (enqueue_gc b t d) = pairs d" "pairs (dequeue_gc b d) = pairs d"
  "pairs (delete_object_row i d) = pairs d" "pairs (delete_part_row u n d) = pairs d"
  by (simp_all add: pairs_def)

lemma pairs_delete_upload [simp]: "pairs (delete_upload_row u d) = pairs d"
  by (simp add: pairs_def)

lemma pairs_decrement [simp]: "pairs (decrement_block t b d) = pairs d"
  by (auto simp: decrement_block_def Let_def intro!: pairs_update_block)

lemma pairs_decrement_blocks [simp]: "pairs (decrement_blocks t bs d) = pairs d"
  by (induction bs arbitrary: d) simp_all

lemma queued_frame [simp]:
  "queued (update_block b f d) x = queued d x"
  "queued (delete_object_row i d) x = queued d x"
  "queued (delete_part_row u n d) x = queued d x"
  "queued (delete_upload_row u d) x = queued d x"
  by (simp_all add: queued_def)

lemma queued_decrement_mono: "queued d x \<Longrightarrow> queued (decrement_block t b d) x"
  by (simp add: decrement_block_def Let_def)

lemma queued_decrement_blocks_mono: "queued d x \<Longrightarrow> queued (decrement_blocks t bs d) x"
  by (induction bs arbitrary: d) (simp_all add: queued_decrement_mono)

lemma keeps_decrement_blocks: "keeps d (decrement_blocks t bs d)"
  by (simp add: keeps_def queued_decrement_blocks_mono)

lemma keeps_remove_existing:
  assumes "remove_existing_object t b k c d = Inr (rm, d')"
  shows "keeps d d'"
  using remove_existing_object_cases [OF assms]
proof (elim disjE exE conjE)
  fix r rs bs
  assume "d' = decrement_blocks t bs (delete_object_row (orow_id r) d)"
  then show ?thesis
    by (simp add: keeps_def queued_decrement_blocks_mono)
qed simp

text \<open>The loops that attach blocks take only the attached blocks out of the queue.\<close>

lemma keeps_except:
  assumes "pairs d' = pairs d" and "\<And>x. queued d x \<Longrightarrow> x \<notin> X \<Longrightarrow> queued d' x"
    and "\<And>x. x \<in> X \<Longrightarrow> \<not> queued d0 x" and "keeps d0 d"
  shows "keeps d0 d'"
proof -
  have "queued d' b" if "queued d0 b" "block_exists d' b" for b
  proof -
    have "block_exists d b" using that(2) assms(1) by (simp add: block_exists_pairs)
    with that(1) assms(4) have "queued d b" by (simp add: keeps_def)
    with assms(2,3) that(1) show ?thesis by blast
  qed
  with assms(1,4) show ?thesis by (simp add: keeps_def)
qed

lemma attach_block_pairs:
  assumes "attach_block oid n off b d = Inr d'"
  shows "pairs d' = pairs d \<and> (\<forall>x. queued d x \<longrightarrow> x \<noteq> blk_id b \<longrightarrow> queued d' x)"
  unfolding attach_block_Inr [OF assms]
  by (simp add: queued_dequeue_gc) (simp add: pairs_def update_block_def queued_def)

lemma attach_blocks_pairs:
  "attach_blocks oid n off bs d = Inr d' \<Longrightarrow>
     pairs d' = pairs d \<and> (\<forall>x. queued d x \<longrightarrow> x \<notin> set (map blk_id bs) \<longrightarrow> queued d' x)"
proof (induction bs arbitrary: n off d)
  case (Cons b bs)
  from Cons.prems obtain d1 where d1: "attach_block oid n off b d = Inr d1"
    "attach_blocks oid (n + 1) (off + blk_size b) bs d1 = Inr d'"
    by (auto split: sum.splits)
  from attach_block_pairs [OF d1(1)] Cons.IH [OF d1(2)] show ?case by simp
qed simp

lemma copy_block_pairs:
  assumes "copy_block oid b d = Inr d'"
  shows "pairs d' = pairs d \<and> (\<forall>x. queued d x \<longrightarrow> x \<noteq> blk_id b \<longrightarrow> queued d' x)"
  unfolding copy_block_Inr [OF assms]
  by (simp add: pairs_def update_block_def queued_def dequeue_gc_def) auto

lemma copy_blocks_pairs:
  "fold_res (copy_block oid) bs d = Inr d' \<Longrightarrow>
     pairs d' = pairs d \<and> (\<forall>x. queued d x \<longrightarrow> x \<notin> set (map blk_id bs) \<longrightarrow> queued d' x)"
proof (induction bs arbitrary: d)
  case (Cons b bs)
  from Cons.prems obtain d1 where d1: "copy_block oid b d = Inr d1"
    "fold_res (copy_block oid) bs d1 = Inr d'" by (auto split: sum.splits)
  from copy_block_pairs [OF d1(1)] Cons.IH [OF d1(2)] show ?case by simp
qed simp

section \<open>Methods\<close>

lemma transact_keeps:
  assumes "\<And>x d'. r = Inr (x, d') \<Longrightarrow> keeps d d'"
  shows "keeps d (snd (transact d r))"
  using assms by (auto split: sum.splits)

lemma keeps_delete_object: "keeps d (snd (delete_object t b k c d))"
  unfolding delete_object_def
  by (rule transact_keeps)
    (auto split: sum.splits option.splits intro: keeps_remove_existing)

lemma keeps_copy_object: "keeps d (snd (copy_object t source b k m c d))"
  unfolding copy_object_def read_back_snd
proof (rule transact_keeps)
  fix x d' assume "copy_object_tx t source b k m c d = Inr (x, d')"
  then obtain removed d1 oid d2 r where
    nq: "ensure_blocks_not_queued (map blk_id (obj_blocks source)) d = Inr ()" and
    rm: "remove_existing_object t b k c d = Inr (removed, d1)" and
    ins: "insert_object r d1 = Inr (oid, d2)" and
    cp: "fold_res (copy_block oid) (obj_blocks source) d2 = Inr d'"
    by (auto simp: copy_object_tx_def bind_res_Inr_iff split: if_splits)
  from insert_object_Inr [OF ins] have "keeps d1 d2" by (intro keeps_same_tables) simp_all
  with keeps_remove_existing [OF rm] have k: "keeps d d2" by (rule keeps_trans)
  show "keeps d d'"
  proof (rule keeps_except)
    show "pairs d' = pairs d2" using copy_blocks_pairs [OF cp] by blast
    show "queued d' x" if "queued d2 x" "x \<notin> set (map blk_id (obj_blocks source))" for x
      using copy_blocks_pairs [OF cp] that by blast
    show "\<not> queued d x" if "x \<in> set (map blk_id (obj_blocks source))" for x
      using nq that unfolding ensure_blocks_not_queued_Inr by blast
  qed (rule k)
qed

lemma keeps_commit_upload: "keeps d (snd (commit_upload t u sz etag parts c d))"
  using commit_upload_snd [of t u sz etag parts c d]
proof (elim disjE exE conjE)
  define d' where "d' = snd (commit_upload t u sz etag parts c d)"
  fix up old
  assume "commit_upload_tx t up sz etag parts c d
      = Inr (old, snd (commit_upload t u sz etag parts c d))"
  then have "commit_upload_tx t up sz etag parts c d = Inr (old, d')" by (simp only: d'_def)
  then obtain removed d1 oid d2 d3 unused and r :: object_row where
    nq: "ensure_blocks_not_queued (map blk_id (all_blocks parts)) d = Inr ()" and
    rm: "remove_existing_object t (urow_bucket up) (urow_key up) c d = Inr (removed, d1)" and
    ins: "insert_object r d1 = Inr (oid, d2)" and
    att: "attach_blocks oid 0 0 (all_blocks parts) d2 = Inr d3" and
    d': "d' = delete_upload_row (urow_upload_id up) (decrement_blocks t unused d3)"
    by (auto simp: commit_upload_tx_def bind_res_Inr_iff)
  from insert_object_Inr [OF ins] have "keeps d1 d2" by (intro keeps_same_tables) simp_all
  with keeps_remove_existing [OF rm] have k: "keeps d d2" by (rule keeps_trans)
  have "keeps d d3"
  proof (rule keeps_except)
    show "pairs d3 = pairs d2" using attach_blocks_pairs [OF att] by blast
    show "queued d3 x" if "queued d2 x" "x \<notin> set (map blk_id (all_blocks parts))" for x
      using attach_blocks_pairs [OF att] that by blast
    show "\<not> queued d x" if "x \<in> set (map blk_id (all_blocks parts))" for x
      using nq that unfolding ensure_blocks_not_queued_Inr by blast
  qed (rule k)
  moreover have "keeps d3 d'"
    unfolding d' by (simp add: keeps_def queued_decrement_blocks_mono)
  ultimately show ?thesis unfolding d'_def by (rule keeps_trans)
qed simp

lemma keeps_replace_part: "keeps d (snd (replace_part t u n sz etag blocks d))"
  unfolding replace_part_def
proof (rule transact_keeps)
  fix x d' assume "replace_part_tx t u n sz etag blocks d = Inr (x, d')"
  then obtain d2 r where
    ins: "insert_part r (decrement_blocks t x (delete_part_row u n d)) = Inr d2" and
    blk: "insert_part_blocks u n blocks d2 = Inr d'"
    by (auto simp: replace_part_tx_def bind_res_Inr_iff Let_def split: if_splits)
  have "(telegram_blocks d', gc_queue d') = (telegram_blocks d2, gc_queue d2)"
    using blk unfolding insert_part_blocks_def
    by (rule fold_res_const [where g = "\<lambda>s. (telegram_blocks s, gc_queue s)"])
      (auto simp: insert_part_block_def split: if_splits prod.splits)
  moreover have "telegram_blocks d2 = telegram_blocks (decrement_blocks t x (delete_part_row u n d))"
    "gc_queue d2 = gc_queue (decrement_blocks t x (delete_part_row u n d))"
    using ins by (auto simp: insert_part_def split: if_splits)
  ultimately have "keeps (decrement_blocks t x (delete_part_row u n d)) d'"
    by (intro keeps_same_tables) simp_all
  moreover have "keeps d (decrement_blocks t x (delete_part_row u n d))"
    by (simp add: keeps_def queued_decrement_blocks_mono)
  ultimately show "keeps d d'" using keeps_trans by blast
qed

lemma keeps_abort_upload: "keeps d (snd (abort_upload_with_blocks t u d))"
  unfolding abort_upload_with_blocks_def
  by (rule transact_keeps)
    (auto simp: bind_res_Inr_iff keeps_def queued_decrement_blocks_mono split: if_splits)

lemma keeps_expire_loop: "keeps d (snd (expire_loop t us n d))"
proof (induction us arbitrary: n d)
  case (Cons u us)
  obtain r d1 where a: "abort_upload t u d = (r, d1)" by (cases "abort_upload t u d") auto
  then have "keeps d d1" using keeps_abort_upload [of d t u] by (simp flip: abort_upload_snd)
  with Cons.IH a show ?case by (cases r) (auto intro: keeps_trans)
qed simp

lemma keeps_queue_stale_block: "keeps d (snd (queue_stale_block t b d))"
proof -
  define f where "f = (\<lambda>r :: block_row. if trow_state r = Staged \<and> 0 < trow_ref_count r
      then r\<lparr>trow_ref_count := 0\<rparr> else r)"
  have "pairs (update_block b f d) = pairs d" by (rule pairs_update_block) (simp add: f_def)
  then show ?thesis
    unfolding queue_stale_block_def Let_def f_def [symmetric] by (simp add: keeps_def)
qed

lemma keeps_gc_queue_map:
  "(\<And>q. q_block_id (f q) = q_block_id q) \<Longrightarrow> keeps d (d\<lparr>gc_queue := map f (gc_queue d)\<rparr>)"
  by (simp add: keeps_def pairs_def queued_def image_comp comp_def)

lemma keeps_gc_success: "keeps d (gc_success b d)"
  by (auto simp: gc_success_def delete_block_row_def keeps_def pairs_def queued_def block_exists_def
      split: sum.splits)

interpretation create_bucket_m: db_method "\<lambda>d. snd (create_bucket t n d)" "\<lambda>_. True" for t n
  by unfold_locales
    (simp add: db_ok_create_bucket, auto intro: keeps_same_tables simp: create_bucket_def)

interpretation delete_bucket_m: db_method "\<lambda>d. snd (delete_bucket n d)" "\<lambda>_. True" for n
  by unfold_locales
    (simp add: db_ok_delete_bucket, auto intro: keeps_same_tables simp: delete_bucket_def)

interpretation set_cors_m: db_method "\<lambda>d. set_bucket_cors t b c d" "\<lambda>_. True" for t b c
  by unfold_locales
    (simp add: db_ok_set_bucket_cors, auto intro: keeps_same_tables simp: set_bucket_cors_def)

interpretation delete_cors_m: db_method "\<lambda>d. delete_bucket_cors b d" "\<lambda>_. True" for b
  by unfold_locales
    (simp add: db_ok_delete_bucket_cors, auto intro: keeps_same_tables simp: delete_bucket_cors_def)

interpretation delete_object_m: db_method "\<lambda>d. snd (delete_object t b k c d)" "\<lambda>_. True" for t b k c
  by unfold_locales (simp_all add: db_ok_delete_object keeps_delete_object)

interpretation copy_object_m: db_method "\<lambda>d. snd (copy_object t source b k m c d)"
  "\<lambda>d. source_valid d source \<and> bucket_named d b" for t source b k m c
  by unfold_locales (simp_all add: db_ok_copy_object keeps_copy_object)

interpretation create_upload_m: db_method "\<lambda>d. snd (create_upload up d)" "\<lambda>_. True" for up
proof unfold_locales
  fix d show "keeps d (snd (create_upload up d))"
    unfolding create_upload_def
    by (rule transact_keeps)
      (auto simp: bind_res_Inr_iff insert_upload_def split: if_splits intro: keeps_same_tables)
qed (simp add: db_ok_create_upload)

interpretation replace_part_m: db_method "\<lambda>d. snd (replace_part t u n sz etag blocks d)"
  "\<lambda>d. blocks_free d u n blocks" for t u n sz etag blocks
  by unfold_locales (simp_all add: db_ok_replace_part keeps_replace_part)

interpretation commit_upload_m: db_method "\<lambda>d. snd (commit_upload t u sz etag parts c d)"
  "\<lambda>_. True" for t u sz etag parts c
  by unfold_locales (simp_all add: db_ok_commit_upload keeps_commit_upload)

interpretation abort_upload_m: db_method "\<lambda>d. snd (abort_upload_with_blocks t u d)" "\<lambda>_. True" for t u
  by unfold_locales (simp_all add: db_ok_abort_upload_with_blocks keeps_abort_upload)

interpretation expire_uploads_m: db_method "\<lambda>d. snd (expire_uploads t before d)" "\<lambda>_. True"
  for t before
  by unfold_locales (simp_all add: db_ok_expire_uploads expire_uploads_def keeps_expire_loop
      db_ok_expire_loop)

interpretation queue_stale_m: db_method "\<lambda>d. snd (queue_stale_block t b d)" "\<lambda>_. True" for t b
  by unfold_locales (simp_all add: db_ok_queue_stale_block keeps_queue_stale_block)

interpretation gc_success_m: db_method "\<lambda>d. gc_success b d" "\<lambda>_. True" for b
  by unfold_locales (simp_all add: db_ok_gc_success keeps_gc_success)

interpretation gc_failure_m: db_method "\<lambda>d. gc_failure b e n d" "\<lambda>_. True" for b e n
  by unfold_locales
    (simp add: db_ok_gc_failure, auto simp: gc_failure_def intro: keeps_gc_queue_map)

interpretation gc_orphan_m: db_method "\<lambda>d. gc_orphan b e d" "\<lambda>_. True" for b e
  by unfold_locales
    (simp add: db_ok_gc_orphan, auto simp: gc_orphan_def intro: keeps_gc_queue_map)

end
