(* ===== verification/Gc_System.thy ===== *)
theory Gc_System
  imports Db_Keeps
begin

text \<open>
  Collection as a concurrent system. The state is the database, the Telegram messages that
  have been deleted, and the claims: pairs of a block id and a message id that some task has
  read from the database (\<open>gc_candidates\<close>, \<open>gc_candidate\<close>) or queued itself
  (\<open>queue_stale_block\<close> in \<open>cleanup_untracked_block\<close>) and whose message it is about to
  delete. \<open>run_gc\<close>, \<open>reclaim_blocks_now\<close> and the upload cleanup are sequences of these
  steps; between any two of them the rest of the server may call any \<open>Db\<close> method.

  What Telegram contributes is one rule: the message of a newly staged block has an id that
  no earlier message had.
\<close>

section \<open>Calls of the database\<close>

inductive db_call :: "db \<Rightarrow> db \<Rightarrow> bool" where
  call_create_bucket: "db_call d (snd (create_bucket t n d))"
| call_delete_bucket: "db_call d (snd (delete_bucket n d))"
| call_set_cors: "db_call d (set_bucket_cors t n conf d)"
| call_delete_cors: "db_call d (delete_bucket_cors n d)"
| call_delete_object: "db_call d (snd (delete_object t n k c d))"
| call_copy_object: "source_valid d source \<Longrightarrow> bucket_named d n
    \<Longrightarrow> db_call d (snd (copy_object t source n k m c d))"
| call_create_upload: "db_call d (snd (create_upload up d))"
| call_replace_part: "blocks_free d u p blocks
    \<Longrightarrow> db_call d (snd (replace_part t u p sz etag blocks d))"
| call_commit_upload: "db_call d (snd (commit_upload t u sz etag parts c d))"
| call_abort_upload: "db_call d (snd (abort_upload_with_blocks t u d))"
| call_expire_uploads: "db_call d (snd (expire_uploads t before d))"
| call_queue_stale_block: "db_call d (snd (queue_stale_block t b d))"
| call_gc_success: "db_call d (gc_success b d)"
| call_gc_failure: "db_call d (gc_failure b e t d)"
| call_gc_orphan: "db_call d (gc_orphan b e d)"

text \<open>Every call is one of the methods interpreted in \<open>db_method\<close>.\<close>

lemma db_methodI:
  "db_method op guard \<Longrightarrow> guard d \<Longrightarrow> \<exists>op' guard'. db_method op' guard' \<and> guard' d \<and> op d = op' d"
  by blast

lemmas unguarded_methods =
  db_methodI [OF create_bucket_m.db_method_axioms TrueI]
  db_methodI [OF delete_bucket_m.db_method_axioms TrueI]
  db_methodI [OF set_cors_m.db_method_axioms TrueI]
  db_methodI [OF delete_cors_m.db_method_axioms TrueI]
  db_methodI [OF delete_object_m.db_method_axioms TrueI]
  db_methodI [OF create_upload_m.db_method_axioms TrueI]
  db_methodI [OF commit_upload_m.db_method_axioms TrueI]
  db_methodI [OF abort_upload_m.db_method_axioms TrueI]
  db_methodI [OF expire_uploads_m.db_method_axioms TrueI]
  db_methodI [OF queue_stale_m.db_method_axioms TrueI]
  db_methodI [OF gc_success_m.db_method_axioms TrueI]
  db_methodI [OF gc_failure_m.db_method_axioms TrueI]
  db_methodI [OF gc_orphan_m.db_method_axioms TrueI]

lemma db_call_method:
  "db_call d d' \<Longrightarrow> \<exists>op guard. db_method op guard \<and> guard d \<and> d' = op d"
proof (induction rule: db_call.induct)
  case (call_copy_object d source n t k m c)
  then show ?case by (intro db_methodI [OF copy_object_m.db_method_axioms]) simp
next
  case (call_replace_part d u p blocks t sz etag)
  then show ?case by (intro db_methodI [OF replace_part_m.db_method_axioms]) simp
qed (rule unguarded_methods)+

section \<open>The system\<close>

record gc_sys =
  sys_db :: db
  sys_deleted :: "int set"
  sys_claims :: "(int \<times> int) list"

definition sys_init :: gc_sys where
  "sys_init = \<lparr>sys_db = empty_db, sys_deleted = {}, sys_claims = []\<rparr>"

definition row_messages :: "db \<Rightarrow> int set" where
  "row_messages d = snd ` set (pairs d)"

definition used_messages :: "gc_sys \<Rightarrow> int set" where
  "used_messages s = sys_deleted s \<union> row_messages (sys_db s) \<union> snd ` set (sys_claims s)"

definition claim_of :: "garbage_record \<Rightarrow> int \<times> int" where
  "claim_of g = (gb_block_id g, gb_message_id g)"

inductive sys_step :: "gc_sys \<Rightarrow> gc_sys \<Rightarrow> bool" where
  step_call: "db_call (sys_db s) d' \<Longrightarrow> sys_step s (s\<lparr>sys_db := d'\<rparr>)"
| step_stage: "blk_message_id b \<notin> used_messages s
    \<Longrightarrow> sys_step s (s\<lparr>sys_db := snd (add_staged_block t b (sys_db s))\<rparr>)"
| step_discard: "m \<notin> row_messages (sys_db s)
    \<Longrightarrow> sys_step s (s\<lparr>sys_deleted := insert m (sys_deleted s)\<rparr>)"
| step_claim_batch: "gc_candidates t limit (sys_db s) = Inr gs
    \<Longrightarrow> sys_step s (s\<lparr>sys_claims := map claim_of gs @ sys_claims s\<rparr>)"
| step_claim_one: "gc_candidate b t (sys_db s) = Inr (Some g)
    \<Longrightarrow> sys_step s (s\<lparr>sys_claims := claim_of g # sys_claims s\<rparr>)"
| step_claim_stale: "queue_stale_block t b (sys_db s) = (True, d')
    \<Longrightarrow> (b, m) \<in> set (pairs (sys_db s)) \<or> m \<notin> row_messages (sys_db s)
    \<Longrightarrow> sys_step s (s\<lparr>sys_db := d', sys_claims := (b, m) # sys_claims s\<rparr>)"
| step_delete: "(b, m) \<in> set (sys_claims s)
    \<Longrightarrow> sys_step s (s\<lparr>sys_deleted := insert m (sys_deleted s)\<rparr>)"
| step_drop: "sys_step s (s\<lparr>sys_claims := remove1 c (sys_claims s)\<rparr>)"

inductive sys_reachable :: "gc_sys \<Rightarrow> bool" where
  reach_init: "sys_reachable sys_init"
| reach_step: "sys_reachable s \<Longrightarrow> sys_step s s' \<Longrightarrow> sys_reachable s'"

inductive_cases sys_stepE: "sys_step s s'"

section \<open>Candidates are queued\<close>

lemma queued_unreferenced: "db_ok d \<Longrightarrow> queued d b \<Longrightarrow> unreferenced d b"
proof -
  assume ok: "db_ok d" and q: "queued d b"
  then obtain r where r: "r \<in> set (telegram_blocks d)" "trow_id r = b"
    by (auto simp: db_ok_def schema_defs queued_def block_exists_def)
  have "balanced (\<lambda>_. 0) d" using ok by (simp add: db_ok_def)
  from balancedD [OF this r(1)] q r(2) have "refs d b = 0"
    by (auto simp: row_balanced_def)
  then show ?thesis by (simp add: unreferenced_iff_refs)
qed

lemma in_gc_join:
  "(q, b) \<in> set (gc_join d) \<longleftrightarrow>
     q \<in> set (gc_queue d) \<and> b \<in> set (telegram_blocks d) \<and> trow_id b = q_block_id q"
  unfolding gc_join_def by (auto simp: image_iff in_join_blocks split: prod.splits)

lemma garbage_from_row_Inr:
  "garbage_from_row (q, b) = Inr g \<Longrightarrow> claim_of g = (q_block_id q, trow_message_id b)
     \<and> gb_attempts g = q_attempts q \<and> gb_message_date g = trow_message_date b
     \<and> parse_backend (trow_backend b) = Inr (gb_backend g)"
  by (auto simp: garbage_from_row_def claim_of_def split: sum.splits)

lemma gc_join_claim:
  assumes "(q, b) \<in> set (gc_join d)" and "garbage_from_row (q, b) = Inr g"
  shows "claim_of g \<in> set (pairs d) \<and> queued d (fst (claim_of g))"
  using assms garbage_from_row_Inr [OF assms(2)]
  by (force simp: in_gc_join pairs_def queued_def)

lemma gc_candidates_claims:
  assumes "gc_candidates t limit d = Inr gs" and "g \<in> set gs"
  shows "claim_of g \<in> set (pairs d) \<and> queued d (fst (claim_of g))"
proof -
  from assms obtain q b where qb: "(q, b) \<in> set (take limit (sort_key (\<lambda>(q, b). q_next_attempt q)
        (filter (collectable t d) (gc_join d))))" "garbage_from_row (q, b) = Inr g"
    by (auto simp: gc_candidates_def split: if_splits dest!: traverse_mem)
  from in_set_takeD [OF qb(1)] have "(q, b) \<in> set (gc_join d)" by simp
  with qb(2) show ?thesis by (rule gc_join_claim [rotated])
qed

lemma gc_candidate_claim:
  assumes "gc_candidate bid t d = Inr (Some g)"
  shows "claim_of g \<in> set (pairs d) \<and> queued d (fst (claim_of g))"
proof -
  from assms obtain q b xs where
    f: "filter (\<lambda>x. q_block_id (fst x) = bid \<and> collectable t d x) (gc_join d) = (q, b) # xs"
    and g: "garbage_from_row (q, b) = Inr g"
    by (auto simp: gc_candidate_def split: list.splits sum.splits)
  have "(q, b) \<in> set (filter (\<lambda>x. q_block_id (fst x) = bid \<and> collectable t d x) (gc_join d))"
    by (simp add: f)
  then have "(q, b) \<in> set (gc_join d)" by simp
  with g show ?thesis by (rule gc_join_claim [rotated])
qed

lemma queue_stale_block_True:
  assumes "queue_stale_block t b d = (True, d')"
  shows "queued d' b" "keeps d d'" "pairs d' = pairs d"
proof -
  show "queued d' b" using assms by (auto simp: queue_stale_block_def Let_def)
  show "keeps d d'" using keeps_queue_stale_block [of d t b] assms by simp
  have "pairs (update_block b (\<lambda>r. if trow_state r = Staged \<and> 0 < trow_ref_count r
      then r\<lparr>trow_ref_count := 0\<rparr> else r) d) = pairs d"
    by (rule pairs_update_block) simp
  with assms show "pairs d' = pairs d"
    unfolding queue_stale_block_def Let_def by (auto split: if_splits)
qed

section \<open>The invariant of the system\<close>

definition sys_ok :: "gc_sys \<Rightarrow> bool" where
  "sys_ok s \<longleftrightarrow> db_ok (sys_db s)
     \<and> (\<forall>(b, m) \<in> set (pairs (sys_db s)).
          m \<in> sys_deleted s \<union> snd ` set (sys_claims s) \<longrightarrow> queued (sys_db s) b)"

lemma distinct_messages:
  assumes "\<forall>r \<in> set (telegram_blocks d). \<forall>s \<in> set (telegram_blocks d).
      trow_message_id r = trow_message_id s \<longrightarrow> r = s"
    and "(b, m) \<in> set (pairs d)" "(c, m) \<in> set (pairs d)"
  shows "b = c"
  using assms by (auto simp: pairs_def)

text \<open>Message ids are unique in the table because a staged block's message is a new one.\<close>

definition messages_ok :: "db \<Rightarrow> bool" where
  "messages_ok d \<longleftrightarrow> (\<forall>b c m. (b, m) \<in> set (pairs d) \<longrightarrow> (c, m) \<in> set (pairs d) \<longrightarrow> b = c)"

lemma messages_ok_keeps: "messages_ok d \<Longrightarrow> keeps d d' \<Longrightarrow> messages_ok d'"
  unfolding messages_ok_def keeps_def by blast

lemma add_staged_block_pairs:
  assumes "db_ok d"
  shows "set (pairs (snd (add_staged_block t b d))) \<subseteq> insert (next_rowid (map trow_id (telegram_blocks d)), blk_message_id b) (set (pairs d))"
    and "queued (snd (add_staged_block t b d)) x = queued d x"
  unfolding add_staged_block_def
  by (auto split: sum.splits simp: pairs_def queued_def dest!: insert_telegram_block_Inr)

lemma sys_step_ok:
  assumes step: "sys_step s s'" and ok: "sys_ok s" and uni: "messages_ok (sys_db s)"
  shows "sys_ok s' \<and> messages_ok (sys_db s')"
  using step
proof cases
  case (step_call d')
  from db_call_method [OF step_call(2)] obtain op guard
    where m: "db_method op guard" "guard (sys_db s)" "d' = op (sys_db s)" by blast
  have "db_ok d'" "keeps (sys_db s) d'"
    using ok m db_method.preserves [OF m(1)] db_method.keeps_claims [OF m(1)] by (auto simp: sys_ok_def)
  moreover have "\<forall>(b, m) \<in> set (pairs d').
      m \<in> sys_deleted s \<union> snd ` set (sys_claims s) \<longrightarrow> queued d' b"
    unfolding m(3) by (rule db_method.claims_stay [OF m(1)]) (use ok m in \<open>simp_all add: sys_ok_def\<close>)
  ultimately show ?thesis
    using uni by (simp add: step_call(1) sys_ok_def messages_ok_keeps)
next
  case (step_stage b t)
  let ?d = "sys_db s" and ?d' = "snd (add_staged_block t b (sys_db s))"
  have d: "db_ok ?d" using ok by (simp add: sys_ok_def)
  note p = add_staged_block_pairs [OF d]
  have fresh: "blk_message_id b \<notin> sys_deleted s \<union> snd ` set (sys_claims s)"
    "\<forall>c. (c, blk_message_id b) \<notin> set (pairs ?d)"
    using step_stage(2) by (force simp: used_messages_def row_messages_def)+
  have "\<forall>(c, m) \<in> set (pairs ?d'). m \<in> sys_deleted s \<union> snd ` set (sys_claims s) \<longrightarrow> queued ?d' c"
  proof (intro ballI, clarify)
    fix c m assume "(c, m) \<in> set (pairs ?d')" and m: "m \<in> sys_deleted s \<union> snd ` set (sys_claims s)"
    moreover from this p(1) [of t b] have "(c, m) \<in> set (pairs ?d) \<or> m = blk_message_id b" by auto
    ultimately have "(c, m) \<in> set (pairs ?d)" using fresh(1) by (elim disjE) simp_all
    with ok m show "queued ?d' c" by (auto simp: sys_ok_def p(2))
  qed
  moreover have "messages_ok ?d'"
    using uni p(1) [of t b] fresh(2) unfolding messages_ok_def by blast
  ultimately show ?thesis
    using db_ok_add_staged_block [OF d] by (simp add: step_stage(1) sys_ok_def)
next
  case (step_discard m)
  then show ?thesis using ok uni by (force simp: sys_ok_def row_messages_def)
next
  case (step_claim_batch t limit gs)
  have "queued (sys_db s) b" if "(b, m) \<in> set (pairs (sys_db s))" "m \<in> snd ` set (map claim_of gs)" for b m
  proof -
    from that(2) obtain g where g: "g \<in> set gs" "m = snd (claim_of g)" by auto
    from gc_candidates_claims [OF step_claim_batch(2) g(1)]
    have "(fst (claim_of g), m) \<in> set (pairs (sys_db s))" "queued (sys_db s) (fst (claim_of g))"
      by (simp_all add: g(2))
    with that(1) uni show ?thesis by (auto simp: messages_ok_def)
  qed
  with ok uni show ?thesis unfolding step_claim_batch(1) by (force simp: sys_ok_def)
next
  case (step_claim_one b t g)
  from gc_candidate_claim [OF step_claim_one(2)]
  have "(fst (claim_of g), snd (claim_of g)) \<in> set (pairs (sys_db s))" "queued (sys_db s) (fst (claim_of g))"
    by simp_all
  with uni have "queued (sys_db s) b" if "(b, snd (claim_of g)) \<in> set (pairs (sys_db s))" for b
    using that unfolding messages_ok_def by metis
  with ok uni show ?thesis unfolding step_claim_one(1) by (force simp: sys_ok_def)
next
  case (step_claim_stale t b d' m)
  note q = queue_stale_block_True [OF step_claim_stale(2)]
  have "db_ok d'"
    using db_ok_queue_stale_block [of "sys_db s" t b] ok step_claim_stale(2) by (simp add: sys_ok_def)
  moreover have "queued d' c" if "(c, x) \<in> set (pairs d')"
    "x \<in> sys_deleted s \<union> snd ` set ((b, m) # sys_claims s)" for c x
  proof (cases "x = m")
    case False
    with that ok have "queued (sys_db s) c" by (auto simp: sys_ok_def q(3))
    moreover have "block_exists d' c" using that(1) by (force simp: block_exists_pairs)
    ultimately show ?thesis using q(2) by (simp add: keeps_def)
  next
    case True
    with step_claim_stale(3) that(1) have "(b, m) \<in> set (pairs (sys_db s))"
      by (force simp: row_messages_def q(3))
    with True that(1) uni have "c = b" by (auto simp: messages_ok_def q(3))
    with q(1) show ?thesis by simp
  qed
  ultimately show ?thesis using uni unfolding step_claim_stale(1)
    by (auto simp: sys_ok_def messages_ok_def q(3))
next
  case (step_delete b m)
  then have "m \<in> snd ` set (sys_claims s)" by force
  with ok uni show ?thesis unfolding step_delete(1) by (auto simp: sys_ok_def)
next
  case (step_drop c)
  have "snd ` set (remove1 c (sys_claims s)) \<subseteq> snd ` set (sys_claims s)"
    by (intro image_mono set_remove1_subset)
  with ok uni show ?thesis unfolding step_drop(1) by (fastforce simp: sys_ok_def)
qed

lemma sys_reachable_ok: "sys_reachable s \<Longrightarrow> sys_ok s \<and> messages_ok (sys_db s)"
proof (induction rule: sys_reachable.induct)
  case reach_init
  show ?case by (simp add: sys_init_def sys_ok_def messages_ok_def pairs_def empty_db_def db_ok_empty [unfolded empty_db_def])
next
  case (reach_step s s')
  then show ?case using sys_step_ok by blast
qed

end
