(* ===== verification/Db_Store.thy ===== *)
theory Db_Store
  imports Db_Keeps
begin

text \<open>
  The database as an object store: \<open>lookup d (bucket, key)\<close> is what \<open>get_object\<close> returns.
  Deletes, copies and commits change one key of this map as the S3 operation says; every
  other method leaves the whole map alone. The frame half of that contract is the locale
  \<open>store_method\<close>, interpreted for every method with the keys it may touch.
\<close>

section \<open>What a read depends on\<close>

definition view :: "block_row \<Rightarrow> int \<times> int \<times> int \<times> str \<times> int option \<times> str \<times> str \<times> int" where
  "view r = (trow_id r, trow_chat_id r, trow_message_id r, trow_backend r, trow_document_id r,
     trow_file_id r, trow_file_unique_id r, trow_message_date r)"

definition block_view :: "db \<Rightarrow> int \<Rightarrow> (int \<times> int \<times> int \<times> str \<times> int option \<times> str \<times> str \<times> int) list" where
  "block_view d b = map view (filter (\<lambda>r. trow_id r = b) (telegram_blocks d))"

definition lookup :: "db \<Rightarrow> str \<times> str \<Rightarrow> object_record option" where
  "lookup d = (\<lambda>(b, k). case get_object b k d of Inl e \<Rightarrow> None | Inr r \<Rightarrow> r)"

lemma block_from_row_view: "view a = view b \<Longrightarrow> block_from_row a = block_from_row b"
  by (intro ext) (simp add: view_def block_from_row_def split: sum.splits)

lemma traverse_map: "traverse f (map g xs) = traverse (f \<circ> g) xs"
  by (induction xs) (auto split: sum.splits)

lemma traverse_append:
  "traverse f (xs @ ys) = (case traverse f xs of Inl e \<Rightarrow> Inl e | Inr as \<Rightarrow>
     (case traverse f ys of Inl e \<Rightarrow> Inl e | Inr bs \<Rightarrow> Inr (as @ bs)))"
  by (induction xs) (auto split: sum.splits)

lemma traverse_same_view:
  "map view bs = map view cs \<Longrightarrow> traverse (\<lambda>b. block_from_row b n off sz) bs = traverse (\<lambda>b. block_from_row b n off sz) cs"
proof (induction bs arbitrary: cs)
  case (Cons b bs)
  then obtain c cs' where "cs = c # cs'" "view b = view c" "map view bs = map view cs'"
    by (cases cs) auto
  moreover from this have "block_from_row b = block_from_row c" by (intro block_from_row_view)
  ultimately show ?case using Cons.IH [of cs'] by (simp split: sum.splits)
qed simp

lemma load_object_blocks_rows_eq:
  "\<forall>r \<in> set rows. block_view d' (ob_block_id r) = block_view d (ob_block_id r) \<Longrightarrow>
     traverse object_block_ref (join_blocks d' ob_block_id rows)
       = traverse object_block_ref (join_blocks d ob_block_id rows)"
proof (induction rows)
  case Nil
  then show ?case by (simp add: join_blocks_def)
next
  case (Cons r rows)
  let ?f = "\<lambda>e. filter (\<lambda>b. trow_id b = ob_block_id r) (telegram_blocks e)"
  have split: "join_blocks e ob_block_id (r # rows) = map (\<lambda>b. (b, r)) (?f e) @ join_blocks e ob_block_id rows"
    for e by (simp add: join_blocks_def)
  have one: "traverse object_block_ref (map (\<lambda>b. (b, r)) (?f e))
      = traverse (\<lambda>b. block_from_row b (ob_ordinal r) (ob_byte_offset r) (ob_size r)) (?f e)" for e
    by (simp add: traverse_map comp_def object_block_ref_def)
  have "map view (?f d') = map view (?f d)" using Cons.prems by (simp add: block_view_def)
  then show ?case using Cons
    by (simp add: split traverse_append one traverse_same_view [of "?f d'" "?f d"] split: sum.splits)
qed

lemma lookup_frame:
  assumes "object_rows d' b k = object_rows d b k"
    and "\<And>r. r \<in> set (object_rows d b k) \<Longrightarrow> rows_of_object d' (orow_id r) = rows_of_object d (orow_id r)"
    and "\<And>x. x \<in> set (object_blocks d) \<Longrightarrow> block_view d' (ob_block_id x) = block_view d (ob_block_id x)"
  shows "lookup d' (b, k) = lookup d (b, k)"
proof (cases "object_rows d b k")
  case Nil
  then show ?thesis by (simp add: lookup_def get_object_def assms(1))
next
  case (Cons r rs)
  have "load_object_blocks (orow_id r) d' = load_object_blocks (orow_id r) d"
    unfolding load_object_blocks_def
    using assms(2) [of r] assms(3) Cons
    by (simp add: load_object_blocks_rows_eq rows_of_object_def)
  with Cons show ?thesis by (simp add: lookup_def get_object_def assms(1))
qed

section \<open>Views under statements\<close>

lemma block_view_same [simp]:
  "block_view (enqueue_gc x t d) b = block_view d b" "block_view (dequeue_gc x d) b = block_view d b"
  "block_view (delete_object_row i d) b = block_view d b"
  "block_view (delete_part_row u n d) b = block_view d b"
  "block_view (delete_upload_row u d) b = block_view d b"
  by (simp_all add: block_view_def)

lemma block_view_update:
  assumes "\<And>r. view (f r) = view r"
  shows "block_view (update_block x f d) b = block_view d b"
proof -
  have "trow_id (f r) = trow_id r" for r using assms [of r] by (simp add: view_def)
  then have "filter (\<lambda>r. trow_id r = b) (map (\<lambda>r. if trow_id r = x then f r else r) rows)
      = map (\<lambda>r. if trow_id r = x then f r else r) (filter (\<lambda>r. trow_id r = b) rows)" for rows
    by (induction rows) auto
  then show ?thesis by (simp add: block_view_def update_block_def assms)
qed

lemma block_view_decrement [simp]: "block_view (decrement_block t x d) b = block_view d b"
  by (auto simp: decrement_block_def Let_def view_def intro!: block_view_update)

lemma block_view_decrements [simp]: "block_view (decrement_blocks t xs d) b = block_view d b"
  by (induction xs arbitrary: d) simp_all

lemma block_view_attach:
  assumes "attach_block oid n off b d = Inr d'"
  shows "block_view d' x = block_view d x"
proof -
  let ?f = "\<lambda>r :: block_row. r\<lparr>trow_ref_count := if trow_ref_count r < 1 then 1 else trow_ref_count r,
      trow_state := Committed\<rparr>"
  have "block_view d' x = block_view (update_block (blk_id b) ?f d) x"
    unfolding attach_block_Inr [OF assms] by (simp add: block_view_def update_block_def)
  also have "\<dots> = block_view d x" by (rule block_view_update) (simp add: view_def)
  finally show ?thesis .
qed

lemma block_view_attach_blocks: "attach_blocks oid n off bs d = Inr d' \<Longrightarrow> block_view d' x = block_view d x"
  by (induction bs arbitrary: n off d) (auto split: sum.splits dest: block_view_attach)

lemma block_view_copy:
  assumes "copy_block oid b d = Inr d'"
  shows "block_view d' x = block_view d x"
proof -
  have "block_view d' x = block_view (update_block (blk_id b)
      (\<lambda>r. r\<lparr>trow_ref_count := trow_ref_count r + 1, trow_state := Committed\<rparr>) d) x"
    unfolding copy_block_Inr [OF assms] by (simp add: block_view_def)
  also have "\<dots> = block_view d x" by (rule block_view_update) (simp add: view_def)
  finally show ?thesis .
qed

lemma block_view_copy_blocks: "fold_res (copy_block oid) bs d = Inr d' \<Longrightarrow> block_view d' x = block_view d x"
  by (rule fold_res_const [where g = "\<lambda>d. block_view d x"]) (auto dest: block_view_copy)

section \<open>The contract\<close>

locale store_method =
  fixes op :: "db \<Rightarrow> db" and touched :: "(str \<times> str) set"
  assumes frame: "db_ok d \<Longrightarrow> bk \<notin> touched \<Longrightarrow> lookup (op d) bk = lookup d bk"
begin

text \<open>The map after the call is the map before it, outside the touched keys.\<close>

lemma lookup_after: "db_ok d \<Longrightarrow> lookup (op d) = (\<lambda>bk. if bk \<in> touched then lookup (op d) bk else lookup d bk)"
  using frame by auto

lemma lookup_single: "touched = {bk} \<Longrightarrow> db_ok d \<Longrightarrow> lookup (op d) = (lookup d)(bk := lookup (op d) bk)"
  using frame by (intro ext) simp

lemma lookup_neutral: "touched = {} \<Longrightarrow> db_ok d \<Longrightarrow> lookup (op d) = lookup d"
  using frame by auto

end

section \<open>Methods that touch no key\<close>

lemma lookup_same_tables:
  assumes "objects d' = objects d" "object_blocks d' = object_blocks d" "telegram_blocks d' = telegram_blocks d"
  shows "lookup d' bk = lookup d bk"
  using lookup_frame [of d' "fst bk" "snd bk" d] assms
  by (simp add: object_rows_def rows_of_object_def block_view_def)

lemma lookup_same_objects:
  assumes "objects d' = objects d" "object_blocks d' = object_blocks d"
    "\<And>x. x \<in> set (object_blocks d) \<Longrightarrow> block_view d' (ob_block_id x) = block_view d (ob_block_id x)"
  shows "lookup d' bk = lookup d bk"
  using lookup_frame [of d' "fst bk" "snd bk" d] assms
  by (simp add: object_rows_def rows_of_object_def)

lemma transact_frame:
  assumes "\<And>x d'. r = Inr (x, d') \<Longrightarrow> lookup d' bk = lookup d bk"
  shows "lookup (snd (transact d r)) bk = lookup d bk"
  using assms by (auto split: sum.splits)

lemma lookup_replace_part: "lookup (snd (replace_part t u n sz etag blocks d)) bk = lookup d bk"
  unfolding replace_part_def
proof (rule transact_frame)
  fix x d' assume "replace_part_tx t u n sz etag blocks d = Inr (x, d')"
  then obtain d2 r where
    ins: "insert_part r (decrement_blocks t x (delete_part_row u n d)) = Inr d2" and
    blk: "insert_part_blocks u n blocks d2 = Inr d'"
    by (auto simp: replace_part_tx_def bind_res_Inr_iff Let_def split: if_splits)
  have "(telegram_blocks d', objects d', object_blocks d') = (telegram_blocks d2, objects d2, object_blocks d2)"
    using blk unfolding insert_part_blocks_def
    by (rule fold_res_const [where g = "\<lambda>s. (telegram_blocks s, objects s, object_blocks s)"])
      (auto simp: insert_part_block_def split: if_splits prod.splits)
  then have "lookup d' bk = lookup d2 bk" by (intro lookup_same_tables) simp_all
  also have "\<dots> = lookup (decrement_blocks t x (delete_part_row u n d)) bk"
    by (rule lookup_same_tables) (use ins in \<open>auto simp: insert_part_def split: if_splits\<close>)
  also have "\<dots> = lookup d bk" by (rule lookup_same_objects) simp_all
  finally show "lookup d' bk = lookup d bk" .
qed

lemma lookup_drop_upload: "lookup (decrement_blocks t bs (delete_upload_row u d)) bk = lookup d bk"
  by (rule lookup_same_objects) simp_all

lemma lookup_abort_upload: "lookup (snd (abort_upload_with_blocks t u d)) bk = lookup d bk"
  unfolding abort_upload_with_blocks_def
  by (rule transact_frame) (auto simp: bind_res_Inr_iff lookup_drop_upload split: if_splits)

lemma lookup_expire_loop: "lookup (snd (expire_loop t us n d)) bk = lookup d bk"
proof (induction us arbitrary: n d)
  case (Cons u us)
  obtain r d1 where a: "abort_upload t u d = (r, d1)" by (cases "abort_upload t u d") auto
  then have "lookup d1 bk = lookup d bk"
    using lookup_abort_upload [of t u d bk] by (simp flip: abort_upload_snd)
  with Cons.IH a show ?case by (cases r) auto
qed simp

lemma lookup_add_staged_block:
  assumes "db_ok d"
  shows "lookup (snd (add_staged_block t b d)) bk = lookup d bk"
  unfolding add_staged_block_def
proof (rule transact_frame)
  fix i d' assume "insert_telegram_block \<lparr>trow_id = 0, trow_chat_id = blk_chat_id b,
        trow_message_id = blk_message_id b, trow_backend = backend_as_str (blk_backend b),
        trow_document_id = blk_document_id b, trow_file_id = blk_file_id b,
        trow_file_unique_id = blk_file_unique_id b, trow_size = blk_size b,
        trow_message_date = blk_message_date b, trow_ref_count = 1, trow_state = Staged,
        trow_created_at = t\<rparr> d = Inr (i, d')"
  from insert_telegram_block_Inr [OF this] obtain r where
    new: "\<not> block_exists d i" and d': "d' = d\<lparr>telegram_blocks := telegram_blocks d @ [r]\<rparr>" "trow_id r = i"
    by auto
  show "lookup d' bk = lookup d bk"
  proof (rule lookup_same_objects)
    fix x assume "x \<in> set (object_blocks d)"
    then have "block_exists d (ob_block_id x)" using assms by (simp add: db_ok_def schema_defs)
    with new have "ob_block_id x \<noteq> i" by blast
    then show "block_view d' (ob_block_id x) = block_view d (ob_block_id x)"
      by (simp add: block_view_def d')
  qed (simp_all add: d')
qed

lemma lookup_gc_success: "lookup (gc_success b d) bk = lookup d bk"
proof (cases "list_ex (\<lambda>r. trow_id r = b \<and> trow_ref_count r = 0) (telegram_blocks d) \<and> unreferenced d b")
  case True
  then have un: "\<not> in_object d b" by (simp add: unreferenced_def)
  show ?thesis
  proof (cases "delete_block_row b d")
    case (Inr d')
    have "lookup d' bk = lookup d bk"
    proof (rule lookup_same_objects)
      fix x assume "x \<in> set (object_blocks d)"
      with un have "ob_block_id x \<noteq> b" by (auto simp: in_object_def)
      then have "(\<lambda>r :: block_row. trow_id r \<noteq> b \<and> trow_id r = ob_block_id x) = (\<lambda>r. trow_id r = ob_block_id x)"
        by (intro ext) auto
      moreover have "telegram_blocks d' = filter (\<lambda>r. trow_id r \<noteq> b) (telegram_blocks d)"
        using Inr by (auto simp: delete_block_row_def split: if_splits)
      ultimately show "block_view d' (ob_block_id x) = block_view d (ob_block_id x)"
        by (simp add: block_view_def)
    qed (use Inr in \<open>auto simp: delete_block_row_def split: if_splits\<close>)
    with Inr show ?thesis by (auto simp: gc_success_def)
  qed (auto simp: gc_success_def)
next
  case False
  then show ?thesis unfolding gc_success_def by (simp only: if_False)
qed

lemma lookup_queue_stale_block: "lookup (snd (queue_stale_block t b d)) bk = lookup d bk"
proof -
  have "block_view (update_block b (\<lambda>r. if trow_state r = Staged \<and> 0 < trow_ref_count r
      then r\<lparr>trow_ref_count := 0\<rparr> else r) d) x = block_view d x" for x
    by (rule block_view_update) (simp add: view_def)
  then show ?thesis
    unfolding queue_stale_block_def Let_def by (intro lookup_same_objects) simp_all
qed

interpretation create_bucket_s: store_method "\<lambda>d. snd (create_bucket t n d)" "{}" for t n
  by unfold_locales (rule lookup_same_tables; simp add: create_bucket_def)

interpretation delete_bucket_s: store_method "\<lambda>d. snd (delete_bucket n d)" "{}" for n
  by unfold_locales (rule lookup_same_tables; simp add: delete_bucket_def)

interpretation create_upload_s: store_method "\<lambda>d. snd (create_upload up d)" "{}" for up
  by unfold_locales (rule lookup_same_tables;
      auto simp: create_upload_def insert_upload_def bind_res_def split: sum.splits if_splits)

interpretation add_staged_s: store_method "\<lambda>d. snd (add_staged_block t b d)" "{}" for t b
  by unfold_locales (rule lookup_add_staged_block)

interpretation replace_part_s: store_method "\<lambda>d. snd (replace_part t u n sz etag blocks d)" "{}"
  for t u n sz etag blocks
  by unfold_locales (rule lookup_replace_part)

interpretation abort_upload_s: store_method "\<lambda>d. snd (abort_upload_with_blocks t u d)" "{}" for t u
  by unfold_locales (rule lookup_abort_upload)

interpretation expire_uploads_s: store_method "\<lambda>d. snd (expire_uploads t before d)" "{}" for t before
  by unfold_locales (simp add: expire_uploads_def lookup_expire_loop)

interpretation gc_success_s: store_method "\<lambda>d. gc_success b d" "{}" for b
  by unfold_locales (rule lookup_gc_success)

interpretation gc_failure_s: store_method "\<lambda>d. gc_failure b e n d" "{}" for b e n
  by unfold_locales (rule lookup_same_tables; simp add: gc_failure_def)

interpretation gc_orphan_s: store_method "\<lambda>d. gc_orphan b e d" "{}" for b e
  by unfold_locales (rule lookup_same_tables; simp add: gc_orphan_def)

interpretation queue_stale_s: store_method "\<lambda>d. snd (queue_stale_block t b d)" "{}" for t b
  by unfold_locales (rule lookup_queue_stale_block)

end
