(* ===== verification/Db_Results.thy ===== *)
theory Db_Results
  imports Db_Store
begin

text \<open>
  What deletes, copies and commits do to the object store \<open>lookup\<close>, and that a method which
  returns an error leaves the database as it was.
\<close>

section \<open>Blocks as the database reads them\<close>

definition reads :: "db \<Rightarrow> block_ref \<Rightarrow> bool" where
  "reads d b \<longleftrightarrow> (\<exists>r \<in> set (telegram_blocks d).
     block_from_row r (blk_ordinal b) (blk_offset b) (blk_size b) = Inr b)"

definition layout_of :: "block_ref list \<Rightarrow> (int \<times> int \<times> int \<times> int) list" where
  "layout_of bs = map (\<lambda>b. (blk_id b, blk_ordinal b, blk_offset b, blk_size b)) bs"

lemma get_object_reads:
  assumes "get_object b k d = Inr (Some ob)" and "x \<in> set (obj_blocks ob)"
  shows "reads d x"
proof -
  from assms(1) obtain r rs bs where "object_rows d b k = r # rs"
      "load_object_blocks (orow_id r) d = Inr bs" "obj_blocks ob = bs"
    by (auto simp: get_object_def object_from_row_def split: list.splits sum.splits)
  with assms(2) obtain y and z :: object_block_row where "block_from_row y (ob_ordinal z) (ob_byte_offset z) (ob_size z) = Inr x"
      "y \<in> set (telegram_blocks d)"
    by (auto simp: load_object_blocks_def object_block_ref_eq in_join_blocks dest!: traverse_mem)
  then show ?thesis using block_from_row_Inr unfolding reads_def by metis
qed

lemma reads_view:
  assumes "reads d b" and "block_view d' (blk_id b) = block_view d (blk_id b)"
  shows "reads d' b"
proof -
  from assms(1) obtain r where r: "r \<in> set (telegram_blocks d)"
      "block_from_row r (blk_ordinal b) (blk_offset b) (blk_size b) = Inr b" by (auto simp: reads_def)
  then have "view r \<in> set (block_view d (blk_id b))"
    using block_from_row_Inr [OF r(2)] by (simp add: block_view_def)
  with assms(2) have "view r \<in> set (block_view d' (blk_id b))" by simp
  then obtain r' where "r' \<in> set (telegram_blocks d')" "view r' = view r" by (auto simp: block_view_def)
  moreover from this have "block_from_row r' (blk_ordinal b) (blk_offset b) (blk_size b) = Inr b"
    using r(2) block_from_row_view [of r' r] by simp
  ultimately show ?thesis unfolding reads_def by blast
qed

lemma reads_unique:
  assumes "schema_ok d" and "reads d a" and "reads d b"
    and "(blk_id a, blk_ordinal a, blk_offset a, blk_size a) = (blk_id b, blk_ordinal b, blk_offset b, blk_size b)"
  shows "a = b"
proof -
  from assms(2,3) obtain r s where
    r: "r \<in> set (telegram_blocks d)" "block_from_row r (blk_ordinal a) (blk_offset a) (blk_size a) = Inr a" and
    s: "s \<in> set (telegram_blocks d)" "block_from_row s (blk_ordinal b) (blk_offset b) (blk_size b) = Inr b"
    by (auto simp: reads_def)
  have "trow_id r = trow_id s"
    using block_from_row_Inr [OF r(2)] block_from_row_Inr [OF s(2)] assms(4) by simp
  with assms(1) r(1) s(1) have "r = s" by (rule same_id_same_row)
  with r(2) assms(4) have "block_from_row s (blk_ordinal b) (blk_offset b) (blk_size b) = Inr a" by simp
  with s(2) show ?thesis by simp
qed

lemma reads_layout_unique:
  assumes "schema_ok d" and "\<forall>b \<in> set bs. reads d b" and "\<forall>b \<in> set cs. reads d b"
    and "layout_of bs = layout_of cs"
  shows "bs = cs"
  using assms(2-4)
proof (induction bs arbitrary: cs)
  case (Cons b bs)
  then obtain c cs' where cs: "cs = c # cs'" by (cases cs) (auto simp: layout_of_def)
  with Cons.prems have "b = c" by (intro reads_unique [OF assms(1)]) (simp_all add: layout_of_def)
  moreover have "bs = cs'" using Cons cs by (simp add: layout_of_def)
  ultimately show ?case by (simp add: cs)
qed (simp add: layout_of_def)

lemma layout_of_rows:
  "list_all2 block_of_row rows bs \<Longrightarrow>
     layout_of bs = map (\<lambda>r. (ob_block_id r, ob_ordinal r, ob_byte_offset r, ob_size r)) rows"
  by (induction rule: list_all2_induct) (simp_all add: layout_of_def block_of_row_def)

section \<open>Deletes\<close>

lemma object_rows_filter:
  assumes "schema_ok d" and "object_rows d b k = r # rs"
    and "objects d' = filter (\<lambda>x. orow_id x \<noteq> orow_id r) (objects d)"
  shows "object_rows d' b' k' = (if (b', k') = (b, k) then [] else object_rows d b' k')"
proof -
  note one = object_rows_single [OF assms(1,2)]
  have "object_rows d' b' k' = filter (\<lambda>x. orow_id x \<noteq> orow_id r) (object_rows d b' k')"
    by (simp add: object_rows_def assms(3) conj_ac)
  moreover have "orow_id x \<noteq> orow_id r" if "x \<in> set (object_rows d b' k')" "(b', k') \<noteq> (b, k)" for x
  proof
    assume "orow_id x = orow_id r"
    moreover have "x \<in> set (objects d)" "orow_bucket x = b'" "orow_key x = k'"
      using that(1) by (simp_all add: object_rows_def)
    moreover have "distinct (map orow_id (objects d))" using assms(1) by (simp add: schema_defs)
    ultimately have "x = r" using one(2) by (auto simp: distinct_map dest: inj_onD)
    with \<open>orow_bucket x = b'\<close> \<open>orow_key x = k'\<close> one that(2) show False by simp
  qed
  ultimately show ?thesis using assms(2) one(1) by (auto simp: filter_id_conv)
qed

lemma remove_existing_lookup:
  assumes ok: "schema_ok d" and rm: "remove_existing_object t b k c d = Inr (rm, d')"
  shows "lookup d' = (lookup d)((b, k) := None)"
    and "block_view d' x = block_view d x"
proof -
  have "lookup d' = (lookup d)((b, k) := None) \<and> (\<forall>x. block_view d' x = block_view d x)"
    using remove_existing_object_cases [OF rm]
  proof (elim disjE exE conjE)
    assume "d' = d" "object_rows d b k = []"
    then show ?thesis by (auto simp: lookup_def get_object_def)
  next
    fix r rs bs
    assume r: "object_rows d b k = r # rs"
      and d': "d' = decrement_blocks t bs (delete_object_row (orow_id r) d)"
    have "objects d' = filter (\<lambda>x. orow_id x \<noteq> orow_id r) (objects d)"
      by (simp add: d' delete_object_row_def)
    note rows = object_rows_filter [OF ok r this]
    have "lookup d' (b', k') = (if (b', k') = (b, k) then None else lookup d (b', k'))" for b' k'
    proof (cases "(b', k') = (b, k)")
      case True
      then show ?thesis using rows [of b' k'] by (simp add: lookup_def get_object_def)
    next
      case False
      have "lookup d' (b', k') = lookup d (b', k')"
      proof (rule lookup_frame)
        show "object_rows d' b' k' = object_rows d b' k'" using rows [of b' k'] False by (simp only: if_False)
        fix x assume x: "x \<in> set (object_rows d b' k')"
        have "x \<in> set (object_rows d' b' k')" using x rows [of b' k'] False by (simp only: if_False)
        then have "orow_id x \<noteq> orow_id r" by (simp add: object_rows_def d' delete_object_row_def)
        then show "rows_of_object d' (orow_id x) = rows_of_object d (orow_id x)"
          by (auto simp: rows_of_object_def d' delete_object_row_def intro!: filter_cong)
      qed (simp add: d')
      with False show ?thesis by (simp only: if_False)
    qed
    then show ?thesis by (auto simp: d')
  qed
  then show "lookup d' = (lookup d)((b, k) := None)" "block_view d' x = block_view d x" by blast+
qed

lemma delete_object_lookup:
  assumes "db_ok d" and "delete_object t b k c d = (r, d')"
  shows "case r of Inl e \<Rightarrow> d' = d | Inr _ \<Rightarrow> lookup d' = (lookup d)((b, k) := None)"
proof -
  have s: "schema_ok d" using assms(1) by (simp add: db_ok_def)
  show ?thesis
  proof (cases "remove_existing_object t b k c d")
    case (Inl e)
    with assms(2) show ?thesis by (auto simp: delete_object_def transact_def)
  next
    case (Inr a)
    obtain rm d1 where a: "a = (rm, d1)" by (cases a) auto
    note l = remove_existing_lookup(1) [OF s Inr [unfolded a]]
    have "rm = None \<Longrightarrow> d1 = d" using remove_existing_object_cases [OF Inr [unfolded a]] by auto
    with l Inr a assms(2) show ?thesis
      by (auto simp: delete_object_def transact_def split: option.splits)
  qed
qed

interpretation delete_object_s: store_method "\<lambda>d. snd (delete_object t b k c d)" "{(b, k)}" for t b k c
proof unfold_locales
  fix d bk
  assume "db_ok d" "bk \<notin> {(b, k)}"
  then show "lookup (snd (delete_object t b k c d)) bk = lookup d bk"
    using delete_object_lookup [of d t b k c "fst (delete_object t b k c d)" "snd (delete_object t b k c d)"]
    by (auto split: sum.splits)
qed

section \<open>A new object\<close>

text \<open>Inserting an object row under a free key with its block rows, on top of \<open>d1\<close>.\<close>

lemma lookup_new_object:
  assumes ok: "schema_ok d1" and ok': "db_ok d'"
    and ins: "insert_object r d1 = Inr (oid, d2)"
    and objs: "objects d' = objects d2"
    and blk: "object_blocks d' = object_blocks d2 @ rows" and mine: "\<forall>x \<in> set rows. ob_object_id x = oid"
    and vw: "\<And>x. block_view d' x = block_view d1 x"
  shows "\<exists>ob. get_object (orow_bucket r) (orow_key r) d' = Inr (Some ob)
      \<and> lookup d' = (lookup d1)((orow_bucket r, orow_key r) \<mapsto> ob)
      \<and> obj_size ob = orow_size r \<and> obj_etag ob = orow_etag r \<and> obj_metadata ob = orow_metadata r
      \<and> obj_bucket ob = orow_bucket r \<and> obj_key ob = orow_key r
      \<and> list_all2 block_of_row rows (obj_blocks ob)"
proof -
  let ?bk = "(orow_bucket r, orow_key r)"
  from insert_object_Inr [OF ins] have oid: "oid = next_rowid (map orow_id (objects d1))"
    and free: "object_rows d1 (orow_bucket r) (orow_key r) = []"
    and d2: "d2 = d1\<lparr>objects := objects d1 @ [r\<lparr>orow_id := oid\<rparr>]\<rparr>" by simp_all
  have fresh: "oid \<notin> set (map orow_id (objects d1))" by (simp only: oid next_rowid_fresh not_False_eq_True)
  have rows_oid: "rows_of_object d' oid = rows"
    using rows_of_object_fresh [OF ok oid] mine by (simp add: rows_of_object_def blk d2 filter_id_conv)
  have s': "schema_ok d'" using ok' by (simp add: db_ok_def)
  have key: "object_rows d' (orow_bucket r) (orow_key r) = [r\<lparr>orow_id := oid\<rparr>]"
    using free by (simp add: object_rows_def objs d2)
  obtain bs where bs: "load_object_blocks oid d' = Inr bs" using object_block_ref_total [OF s'] by blast
  let ?ob = "object_from_row (r\<lparr>orow_id := oid\<rparr>) bs"
  have get: "get_object (orow_bucket r) (orow_key r) d' = Inr (Some ?ob)"
    by (simp add: get_object_def key bs)
  have "rows_laid_out 0 0 (rows_of_object d' oid)"
  proof -
    have "r\<lparr>orow_id := oid\<rparr> \<in> set (objects d')" by (simp add: objs d2)
    then have "layout_ok (orow_size (r\<lparr>orow_id := oid\<rparr>)) (rows_of_object d' (orow_id (r\<lparr>orow_id := oid\<rparr>)))"
      using ok' by (simp only: db_ok_def layouts_ok_def)
    then show ?thesis by (simp add: layout_ok_def)
  qed
  from load_object_blocks_rows [OF s' this bs] have l2: "list_all2 block_of_row rows bs" by (simp add: rows_oid)
  have "lookup d' bk = (if bk = ?bk then Some ?ob else lookup d1 bk)" for bk
  proof (cases "bk = ?bk")
    case True
    then show ?thesis by (simp add: lookup_def get)
  next
    case False
    obtain b k where bk: "bk = (b, k)" by (cases bk) auto
    have "lookup d' (b, k) = lookup d1 (b, k)"
    proof (rule lookup_frame)
      show "object_rows d' b k = object_rows d1 b k"
        using False by (auto simp: object_rows_def objs d2 bk)
      fix x assume "x \<in> set (object_rows d1 b k)"
      then have "orow_id x \<in> set (map orow_id (objects d1))" by (auto simp: object_rows_def)
      with fresh have "orow_id x \<noteq> oid" by metis
      with mine have "filter (\<lambda>y. ob_object_id y = orow_id x) rows = []" by (auto simp: filter_eq_Nil_iff)
      then show "rows_of_object d' (orow_id x) = rows_of_object d1 (orow_id x)"
        by (simp add: rows_of_object_def blk d2)
    qed (rule vw)
    with False show ?thesis unfolding bk by (simp only: if_False)
  qed
  then have "lookup d' = (lookup d1)(?bk \<mapsto> ?ob)" by auto
  with get l2 show ?thesis by (auto simp: object_from_row_def)
qed

section \<open>Copies\<close>

lemma copy_object_tx_result:
  assumes ok: "db_ok d" and src: "source_valid d source" and bk: "bucket_named d b"
    and tx: "copy_object_tx t source b k m c d = Inr (old, d')"
  shows "\<exists>ob. get_object b k d' = Inr (Some ob) \<and> lookup d' = (lookup d)((b, k) \<mapsto> ob)
    \<and> obj_size ob = obj_size source \<and> obj_etag ob = obj_etag source \<and> obj_metadata ob = m
    \<and> layout_of (obj_blocks ob) = layout_of (obj_blocks source)
    \<and> (\<forall>x. block_view d' x = block_view d x)"
proof -
  let ?r = "\<lparr>orow_id = 0, orow_bucket = b, orow_key = k,
            orow_size = obj_size source, orow_etag = obj_etag source, orow_metadata = m,
            orow_created_at = t, orow_modified_at = t\<rparr>"
  from tx obtain removed d1 oid d2 where
    rm: "remove_existing_object t b k c d = Inr (removed, d1)" and
    ins: "insert_object ?r d1 = Inr (oid, d2)" and
    cp: "fold_res (copy_block oid) (obj_blocks source) d2 = Inr d'"
    by (auto simp: copy_object_tx_def bind_res_Inr_iff split: if_splits)
  have s: "schema_ok d" using ok by (simp add: db_ok_def)
  have ok1: "db_ok d1" using ok rm by (rule remove_existing_object_ok)
  have ok': "db_ok d'" using ok src bk tx by (rule db_ok_copy_object_tx)
  note l1 = remove_existing_lookup [OF s rm]
  from insert_object_Inr [OF ins] have d2: "d2 = d1\<lparr>objects := objects d1 @ [?r\<lparr>orow_id := oid\<rparr>]\<rparr>" by simp
  have fr: "(objects d', object_blocks d') = (objects d2, object_blocks d2 @ map (copied_row oid) (obj_blocks source))"
    using cp
  proof (induction "obj_blocks source" arbitrary: source d2)
    case Nil
    then show ?case by (simp flip: Nil.hyps)
  next
    case (Cons a as)
    from Cons.prems obtain d3 where d3: "copy_block oid a d2 = Inr d3" "fold_res (copy_block oid) as d3 = Inr d'"
      by (auto simp flip: Cons.hyps(2) split: sum.splits)
    have "(objects d', object_blocks d') = (objects d3, object_blocks d3 @ map (copied_row oid) as)"
      using Cons.hyps(1) [of "source\<lparr>obj_blocks := as\<rparr>" d3] d3(2) by simp
    with copy_block_frame [OF d3(1)] show ?case by (simp flip: Cons.hyps(2))
  qed
  have vw: "block_view d' x = block_view d1 x" for x
    using block_view_copy_blocks [OF cp, of x] by (simp add: d2 block_view_def)
  have s1: "schema_ok d1" using ok1 by (simp add: db_ok_def)
  have "\<exists>ob. get_object (orow_bucket ?r) (orow_key ?r) d' = Inr (Some ob)
      \<and> lookup d' = (lookup d1)((orow_bucket ?r, orow_key ?r) \<mapsto> ob)
      \<and> obj_size ob = orow_size ?r \<and> obj_etag ob = orow_etag ?r \<and> obj_metadata ob = orow_metadata ?r
      \<and> obj_bucket ob = orow_bucket ?r \<and> obj_key ob = orow_key ?r
      \<and> list_all2 block_of_row (map (copied_row oid) (obj_blocks source)) (obj_blocks ob)"
    using s1 ok' ins by (rule lookup_new_object) (use fr in \<open>auto simp: vw copied_row_def\<close>)
  then obtain ob where ob: "get_object b k d' = Inr (Some ob)" "lookup d' = (lookup d1)((b, k) \<mapsto> ob)"
      "obj_size ob = obj_size source" "obj_etag ob = obj_etag source" "obj_metadata ob = m"
      "list_all2 block_of_row (map (copied_row oid) (obj_blocks source)) (obj_blocks ob)"
    by auto
  from ob(6) have "layout_of (obj_blocks ob) = layout_of (obj_blocks source)"
    by (simp add: layout_of_rows) (simp add: layout_of_def copied_row_def)
  with ob l1 show ?thesis by (auto simp: vw)
qed

lemma copy_object_cases:
  assumes "db_ok d" and "source_valid d source" and "bucket_named d b"
    and "copy_object t source b k m c d = (r, d')"
  shows "(\<exists>e. r = Inl e \<and> d' = d)
    \<or> (\<exists>ob old. r = Inr (ob, old) \<and> copy_object_tx t source b k m c d = Inr (old, d')
         \<and> get_object b k d' = Inr (Some ob))"
proof (cases "copy_object_tx t source b k m c d")
  case (Inl e)
  with assms(4) show ?thesis by (auto simp: copy_object_def read_back_def transact_def)
next
  case (Inr a)
  obtain old d1 where a: "a = (old, d1)" by (cases a) auto
  from copy_object_tx_result [OF assms(1-3) Inr [unfolded a]] obtain ob where
    "get_object b k d1 = Inr (Some ob)" by blast
  with Inr a assms(4) show ?thesis by (auto simp: copy_object_def read_back_def transact_def)
qed

section \<open>Commits\<close>

lemma commit_upload_tx_result:
  assumes ok: "db_ok d" and up: "upload_rows d u = [up]"
    and lay: "validate_parts_layout parts = Inr sz"
    and tx: "commit_upload_tx t up sz etag parts c d = Inr (old, d')"
  shows "\<exists>ob. get_object (urow_bucket up) (urow_key up) d' = Inr (Some ob)
    \<and> lookup d' = (lookup d)((urow_bucket up, urow_key up) \<mapsto> ob)
    \<and> obj_size ob = sz \<and> obj_etag ob = etag \<and> obj_metadata ob = urow_metadata up
    \<and> map blk_id (obj_blocks ob) = map blk_id (all_blocks parts)
    \<and> map blk_size (obj_blocks ob) = map blk_size (all_blocks parts)
    \<and> get_upload u d' = None"
proof -
  let ?r = "\<lparr>orow_id = 0, orow_bucket = urow_bucket up,
         orow_key = urow_key up, orow_size = sz, orow_etag = etag,
         orow_metadata = urow_metadata up, orow_created_at = urow_created_at up,
         orow_modified_at = t\<rparr>"
  from tx obtain removed d1 oid d2 d3 unused where
    rm: "remove_existing_object t (urow_bucket up) (urow_key up) c d = Inr (removed, d1)" and
    ins: "insert_object ?r d1 = Inr (oid, d2)" and
    att: "attach_blocks oid 0 0 (all_blocks parts) d2 = Inr d3" and
    d': "d' = delete_upload_row (urow_upload_id up) (decrement_blocks t unused d3)"
    by (auto simp: commit_upload_tx_def bind_res_Inr_iff)
  have s: "schema_ok d" using ok by (simp add: db_ok_def)
  have ok1: "db_ok d1" using ok rm by (rule remove_existing_object_ok)
  note mem = upload_rows_mem [OF up]
  have ok': "db_ok d'" using ok mem lay tx by (blast intro: db_ok_commit_upload_tx)
  note l1 = remove_existing_lookup [OF s rm]
  from insert_object_Inr [OF ins] have d2: "d2 = d1\<lparr>objects := objects d1 @ [?r\<lparr>orow_id := oid\<rparr>]\<rparr>" by simp
  note fr = attach_blocks_frame [OF att]
  have vw: "block_view d' x = block_view d1 x" for x
    using block_view_attach_blocks [OF att, of x] by (simp add: d') (simp add: d2 block_view_def)
  have s1: "schema_ok d1" using ok1 by (simp add: db_ok_def)
  have "\<exists>ob. get_object (orow_bucket ?r) (orow_key ?r) d' = Inr (Some ob)
      \<and> lookup d' = (lookup d1)((orow_bucket ?r, orow_key ?r) \<mapsto> ob)
      \<and> obj_size ob = orow_size ?r \<and> obj_etag ob = orow_etag ?r \<and> obj_metadata ob = orow_metadata ?r
      \<and> obj_bucket ob = orow_bucket ?r \<and> obj_key ob = orow_key ?r
      \<and> list_all2 block_of_row (tile_rows oid 0 0 (all_blocks parts)) (obj_blocks ob)"
    by (rule lookup_new_object [OF s1 ok' ins _ _ _ vw])
      (use fr in \<open>auto simp: d' dest: tile_rows_object\<close>)
  then obtain ob where ob: "get_object (urow_bucket up) (urow_key up) d' = Inr (Some ob)"
      "lookup d' = (lookup d1)((urow_bucket up, urow_key up) \<mapsto> ob)"
      "obj_size ob = sz" "obj_etag ob = etag" "obj_metadata ob = urow_metadata up"
      "list_all2 block_of_row (tile_rows oid 0 0 (all_blocks parts)) (obj_blocks ob)"
    by auto
  have "map blk_size bs = map ob_size rows" if "list_all2 block_of_row rows bs" for rows bs
    using that by (induction rule: list_all2_induct) (simp_all add: block_of_row_def)
  from this [OF ob(6)] rows_of_blocks(3) [OF ob(6)]
  have "map blk_id (obj_blocks ob) = map blk_id (all_blocks parts)"
    "map blk_size (obj_blocks ob) = map blk_size (all_blocks parts)" by simp_all
  moreover have "get_upload u d' = None"
    using mem by (simp add: get_upload_def d' upload_rows_def delete_upload_row_def)
  ultimately show ?thesis using ob l1 by auto
qed

lemma commit_upload_cases:
  assumes ok: "db_ok d" and com: "commit_upload t u sz etag parts c d = (r, d')"
  shows "(\<exists>e. r = Inl e \<and> d' = d) \<or> r = Inr None \<and> d' = d \<and> get_upload u d = None
    \<or> (\<exists>up ob old. r = Inr (Some (ob, old)) \<and> upload_rows d u = [up] \<and> validate_parts_layout parts = Inr sz
         \<and> commit_upload_tx t up sz etag parts c d = Inr (old, d')
         \<and> get_object (urow_bucket up) (urow_key up) d' = Inr (Some ob))"
proof (cases "validate_parts_layout parts = Inr sz")
  case False
  with com show ?thesis by (auto simp: commit_upload_def split: sum.splits if_splits)
next
  case lay: True
  have "upload_rows d u = [] \<or> (\<exists>up. upload_rows d u = [up])"
    using one_upload [of d u] ok by (auto simp: db_ok_def)
  then show ?thesis
  proof (elim disjE exE)
    assume "upload_rows d u = []"
    with com lay show ?thesis by (simp add: commit_upload_def get_upload_def)
  next
    fix up assume up: "upload_rows d u = [up]"
    show ?thesis
    proof (cases "commit_upload_tx t up sz etag parts c d")
      case (Inl e)
      with com lay up show ?thesis by (auto simp: commit_upload_def read_back_def transact_def)
    next
      case (Inr a)
      obtain old d1 where a: "a = (old, d1)" by (cases a) auto
      from commit_upload_tx_result [OF ok up lay Inr [unfolded a]] obtain ob where
        "get_object (urow_bucket up) (urow_key up) d1 = Inr (Some ob)" by blast
      with Inr a com lay up show ?thesis by (auto simp: commit_upload_def read_back_def transact_def)
    qed
  qed
qed

end
