(* ===== verification/Db_Calls.thy ===== *)
theory Db_Calls
  imports Db_Keeps
begin

text \<open>
  The writing calls of \<open>Db\<close> as data, and runs of them: any calls with any arguments, in any order, as
  the server's tasks make them. Each call is one transaction, so a run is what concurrent tasks do to
  the database.
\<close>

section \<open>Calls\<close>

datatype db_write =
    Create_Bucket int str
  | Delete_Bucket str
  | Set_Cors int str cors_configuration
  | Delete_Cors str
  | Create_Upload upload_record
  | Add_Staged_Block int block_ref
  | Replace_Part int str int int str "block_ref list"
  | Commit_Upload int str int str "part_record list" object_condition
  | Abort_Upload int str
  | Delete_Object int str str object_condition
  | Copy_Object int object_record str str object_metadata object_condition
  | Expire_Uploads int int
  | Queue_Stale_Block int int
  | Gc_Success int
  | Gc_Failure int str int
  | Gc_Orphan int str

primrec exec :: "db_write \<Rightarrow> db \<Rightarrow> db" where
  "exec (Create_Bucket t n) d = snd (create_bucket t n d)"
| "exec (Delete_Bucket n) d = snd (delete_bucket n d)"
| "exec (Set_Cors t n conf) d = set_bucket_cors t n conf d"
| "exec (Delete_Cors n) d = delete_bucket_cors n d"
| "exec (Create_Upload up) d = snd (create_upload up d)"
| "exec (Add_Staged_Block t b) d = snd (add_staged_block t b d)"
| "exec (Replace_Part t u n sz etag blocks) d = snd (replace_part t u n sz etag blocks d)"
| "exec (Commit_Upload t u sz etag parts c) d = snd (commit_upload t u sz etag parts c d)"
| "exec (Abort_Upload t u) d = snd (abort_upload_with_blocks t u d)"
| "exec (Delete_Object t n k c) d = snd (delete_object t n k c d)"
| "exec (Copy_Object t source n k m c) d = snd (copy_object t source n k m c d)"
| "exec (Expire_Uploads t before) d = snd (expire_uploads t before d)"
| "exec (Queue_Stale_Block t b) d = snd (queue_stale_block t b d)"
| "exec (Gc_Success b) d = gc_success b d"
| "exec (Gc_Failure b e t) d = gc_failure b e t d"
| "exec (Gc_Orphan b e) d = gc_orphan b e d"

text \<open>
  What a transaction that commits relies on without checking it. The blocks given to \<open>replace_part\<close>
  belong to nothing but the part it replaces: it counts no reference for them, since a staged block has
  its one already. For \<open>copy_object\<close> the bucket, which the engine looked up before the transaction, still
  exists, and the source, read before it, is one whose blocks tile it and are committed.
\<close>

definition sound :: "db_write \<Rightarrow> db \<Rightarrow> bool" where
  "sound w d \<longleftrightarrow>
     (case w of
        Replace_Part t u n sz etag blocks \<Rightarrow> isl (replace_part_tx t u n sz etag blocks d) \<or> blocks_free d u n blocks
      | Copy_Object t source n k m c \<Rightarrow>
          isl (copy_object_tx t source n k m c d) \<or> source_valid d source \<and> bucket_named d n
      | _ \<Rightarrow> True)"

fun all_sound :: "db_write list \<Rightarrow> db \<Rightarrow> bool" where
  "all_sound [] d \<longleftrightarrow> True"
| "all_sound (w # ws) d \<longleftrightarrow> sound w d \<and> all_sound ws (exec w d)"

text \<open>A transaction that is refused leaves the database as it is.\<close>

lemma refused_unchanged:
  "isl (replace_part_tx t u n sz etag blocks d) \<Longrightarrow> exec (Replace_Part t u n sz etag blocks) d = d"
  "isl (copy_object_tx t source b k m c d) \<Longrightarrow> exec (Copy_Object t source b k m c) d = d"
  by (auto simp: replace_part_def copy_object_def transact_def read_back_def isl_def)

lemma exec_ok:
  assumes "db_ok d" and "sound w d"
  shows "db_ok (exec w d)"
proof (cases w)
  case (Replace_Part t u n sz etag blocks)
  then show ?thesis
    using assms refused_unchanged(1) [of t u n sz etag blocks d] replace_part_m.preserves [of d u n blocks t sz etag]
    by (auto simp: sound_def)
next
  case (Copy_Object t source n k m c)
  then show ?thesis
    using assms refused_unchanged(2) [of t source n k m c d] copy_object_m.preserves [of d source n t k m c]
    by (auto simp: sound_def)
qed (use assms in \<open>simp_all add: create_bucket_m.preserves delete_bucket_m.preserves set_cors_m.preserves
    delete_cors_m.preserves create_upload_m.preserves db_ok_add_staged_block commit_upload_m.preserves
    abort_upload_m.preserves delete_object_m.preserves expire_uploads_m.preserves queue_stale_m.preserves
    gc_success_m.preserves gc_failure_m.preserves gc_orphan_m.preserves\<close>)

lemma run_ok: "db_ok d \<Longrightarrow> all_sound ws d \<Longrightarrow> db_ok (fold exec ws d)"
  by (induction ws arbitrary: d) (simp_all add: exec_ok)

end
