(* ===== verification/Examples.thy ===== *)
theory Examples
  imports Db_Keeps
begin

text \<open>
  A run of the database on concrete data, for the theorems that show hypotheses can hold: one
  bucket, one upload of one block of three bytes, its part, and the committed object.
\<close>

definition ex_bucket :: str where "ex_bucket = [98]"
definition ex_key :: str where "ex_key = [107]"
definition ex_upload :: str where "ex_upload = [117]"

definition ex_block :: block_ref where
  "ex_block = \<lparr>blk_id = 1, blk_ordinal = 0, blk_offset = 0, blk_size = 3, blk_chat_id = 7,
     blk_message_id = 40, blk_backend = BotApi, blk_document_id = None, blk_file_id = [102],
     blk_file_unique_id = [103], blk_message_date = 5\<rparr>"

definition ex_part :: part_record where
  "ex_part = \<lparr>part_upload_id = ex_upload, part_number = 0, part_size = 3, part_etag = [101],
     part_blocks = [ex_block]\<rparr>"

definition ex_up :: upload_record where
  "ex_up = \<lparr>up_upload_id = ex_upload, up_bucket = ex_bucket, up_key = ex_key,
     up_metadata = default_metadata, up_kind = lit ''put'', up_created_at = 1\<rparr>"

definition ex_object :: object_record where
  "ex_object = \<lparr>obj_id = 1, obj_bucket = ex_bucket, obj_key = ex_key, obj_size = 3,
     obj_etag = [101], obj_metadata = default_metadata, obj_created_at = 1, obj_modified_at = 4,
     obj_blocks = [ex_block]\<rparr>"

definition ex_row :: "block_state \<Rightarrow> int \<Rightarrow> block_row" where
  "ex_row st n = \<lparr>trow_id = 1, trow_chat_id = 7, trow_message_id = 40,
     trow_backend = lit ''bot_api'', trow_document_id = None, trow_file_id = [102],
     trow_file_unique_id = [103], trow_size = 3, trow_message_date = 5, trow_ref_count = n,
     trow_state = st, trow_created_at = 2\<rparr>"

definition ex_urow :: upload_row where
  "ex_urow = \<lparr>urow_upload_id = ex_upload, urow_bucket = ex_bucket, urow_key = ex_key,
     urow_metadata = default_metadata, urow_kind = lit ''put'', urow_created_at = 1\<rparr>"

definition ex_orow :: object_row where
  "ex_orow = \<lparr>orow_id = 1, orow_bucket = ex_bucket, orow_key = ex_key, orow_size = 3,
     orow_etag = [101], orow_metadata = default_metadata, orow_created_at = 1,
     orow_modified_at = 4\<rparr>"

definition ex_db1 :: db where
  "ex_db1 = empty_db\<lparr>buckets := [\<lparr>brow_name = ex_bucket, brow_created_at = 0\<rparr>]\<rparr>"

definition ex_db2 :: db where
  "ex_db2 = ex_db1\<lparr>multipart_uploads := [ex_urow]\<rparr>"

definition ex_db3 :: db where
  "ex_db3 = ex_db2\<lparr>telegram_blocks := [ex_row Staged 1]\<rparr>"

definition ex_db4 :: db where
  "ex_db4 = ex_db3\<lparr>multipart_parts := [\<lparr>prow_upload_id = ex_upload, prow_number = 0, prow_size = 3,
       prow_etag = [101]\<rparr>],
     multipart_part_blocks := [\<lparr>pb_upload_id = ex_upload, pb_number = 0, pb_ordinal = 0,
       pb_block_id = 1, pb_byte_offset = 0, pb_size = 3\<rparr>]\<rparr>"

definition ex_db5 :: db where
  "ex_db5 = ex_db1\<lparr>objects := [ex_orow], telegram_blocks := [ex_row Committed 1],
     object_blocks := [\<lparr>ob_object_id = 1, ob_ordinal = 0, ob_block_id = 1, ob_byte_offset = 0,
       ob_size = 3\<rparr>]\<rparr>"

definition ex_db6 :: db where
  "ex_db6 = ex_db1\<lparr>telegram_blocks := [ex_row Committed 0],
     gc_queue := [\<lparr>q_block_id = 1, q_attempts = 0, q_next_attempt = 6, q_last_error = None,
       q_state = Pending\<rparr>]\<rparr>"

definition ex_key2 :: str where "ex_key2 = [108]"

definition ex_copy :: object_record where
  "ex_copy = ex_object\<lparr>obj_id := 2, obj_key := ex_key2, obj_created_at := 7, obj_modified_at := 7\<rparr>"

definition ex_db7 :: db where
  "ex_db7 = ex_db5\<lparr>objects := [ex_orow, ex_orow\<lparr>orow_id := 2, orow_key := ex_key2,
       orow_created_at := 7, orow_modified_at := 7\<rparr>],
     telegram_blocks := [ex_row Committed 2],
     object_blocks := [\<lparr>ob_object_id = 1, ob_ordinal = 0, ob_block_id = 1, ob_byte_offset = 0,
       ob_size = 3\<rparr>, \<lparr>ob_object_id = 2, ob_ordinal = 0, ob_block_id = 1, ob_byte_offset = 0,
       ob_size = 3\<rparr>]\<rparr>"

lemmas ex_defs = ex_db1_def ex_db2_def ex_db3_def ex_db4_def ex_db5_def ex_db6_def empty_db_def
  ex_bucket_def ex_key_def ex_upload_def ex_block_def ex_part_def ex_up_def ex_object_def
  ex_row_def ex_urow_def ex_orow_def ex_key2_def ex_copy_def ex_db7_def

lemma ex_step1: "create_bucket 0 ex_bucket empty_db = (True, ex_db1)"
  by (simp add: ex_defs create_bucket_def bucket_named_def)

lemma ex_step2: "create_upload ex_up ex_db1 = (Inr (), ex_db2)"
  by (simp add: ex_defs create_upload_def bucket_named_def insert_upload_def upload_rows_def transact_def)

lemma ex_step3: "add_staged_block 2 ex_block ex_db2 = (Inr 1, ex_db3)"
  by (simp add: ex_defs add_staged_block_def insert_telegram_block_def transact_def next_rowid_def)

lemma ex_free: "blocks_free ex_db3 ex_upload 0 [ex_block]"
  by (simp add: ex_defs blocks_free_def refs_def obj_refs_def part_refs_def rows_of_part_def)

lemma ex_step4: "replace_part 3 ex_upload 0 3 [101] [ex_block] ex_db3 = (Inr [], ex_db4)"
  by (simp add: ex_defs replace_part_def replace_part_tx_def upload_rows_def
      ensure_blocks_not_queued_def rows_of_part_def join_blocks_def delete_part_row_def
      insert_part_def insert_part_blocks_def insert_part_block_def block_exists_def transact_def
      enumerate_eq_zip)

lemma ex_urow_simps:
  "urow_upload_id ex_urow = ex_upload" "urow_bucket ex_urow = ex_bucket" "urow_key ex_urow = ex_key"
  "urow_metadata ex_urow = default_metadata" "urow_created_at ex_urow = 1"
  by (simp_all add: ex_urow_def)

lemma ex_backend: "parse_backend (lit ''bot_api'') = Inr BotApi"
  using parse_backend_as_str [of BotApi] by simp

lemma ex_verify: "verify_parts ex_upload [ex_part] ex_db4 = Inr ()"
  by (simp add: verify_parts_def ex_defs rows_of_upload_def ordered_part_blocks_def
      group_entries_def push_entry_def)

lemma ex_layout: "validate_parts_layout [ex_part] = Inr 3"
  by (simp add: validate_parts_layout_def ex_defs i64_defs checked_add_def)

lemma ex_insert:
  "insert_object \<lparr>orow_id = 0, orow_bucket = ex_bucket, orow_key = ex_key, orow_size = 3,
     orow_etag = [101], orow_metadata = default_metadata, orow_created_at = 1,
     orow_modified_at = 4\<rparr> ex_db4 = Inr (1, ex_db4\<lparr>objects := [ex_orow]\<rparr>)"
  by (simp add: insert_object_def ex_defs object_rows_def next_rowid_def)

lemma ex_attach:
  "attach_blocks 1 0 0 [ex_block] (ex_db4\<lparr>objects := [ex_orow]\<rparr>)
     = Inr (ex_db4\<lparr>objects := [ex_orow], telegram_blocks := [ex_row Committed 1],
     object_blocks := [\<lparr>ob_object_id = 1, ob_ordinal = 0, ob_block_id = 1, ob_byte_offset = 0,
       ob_size = 3\<rparr>]\<rparr>)"
  by (simp add: attach_block_def insert_object_block_def update_block_def dequeue_gc_def
      block_exists_def ex_defs)

lemma ex_commit_tx:
  "commit_upload_tx 4 ex_urow 3 [101] [ex_part] default_condition ex_db4 = Inr ([], ex_db5)"
proof -
  have "all_blocks [ex_part] = [ex_block]" by (simp add: all_blocks_def ex_part_def)
  moreover have "ensure_blocks_not_queued (map blk_id [ex_block]) ex_db4 = Inr ()"
    by (simp add: ensure_blocks_not_queued_def ex_defs)
  moreover have "remove_existing_object 4 ex_bucket ex_key default_condition ex_db4 = Inr (None, ex_db4)"
    by (simp add: remove_existing_object_def object_rows_def ex_defs)
  ultimately show ?thesis
    unfolding commit_upload_tx_def
    by (simp add: ex_urow_simps ex_verify ex_insert ex_attach del: attach_blocks.simps)
      (simp add: ex_defs ordered_part_blocks_def rows_of_upload_def join_blocks_def delete_upload_row_def)
qed

lemma ex_get: "get_object ex_bucket ex_key ex_db5 = Inr (Some ex_object)"
  by (simp add: get_object_def ex_defs object_rows_def load_object_blocks_def rows_of_object_def
      join_blocks_def object_block_ref_def block_from_row_def object_from_row_def
      ex_backend [simplified])

lemma ex_upload_rows: "upload_rows ex_db4 ex_upload = [ex_urow]"
  by (simp add: upload_rows_def ex_defs)

lemma ex_step5:
  "commit_upload 4 ex_upload 3 [101] [ex_part] default_condition ex_db4
     = (Inr (Some (ex_object, [])), ex_db5)"
  by (simp add: commit_upload_def ex_layout ex_upload_rows ex_commit_tx transact_def read_back_def
      ex_get ex_urow_simps)

lemma ex_step6:
  "delete_object 6 ex_bucket ex_key default_condition ex_db5
     = (Inr (Some (ex_object\<lparr>obj_size := 0, obj_etag := [], obj_created_at := 0, obj_modified_at := 0\<rparr>)), ex_db6)"
  by (simp add: delete_object_def remove_existing_object_def ex_defs object_rows_def
      load_object_blocks_def rows_of_object_def
      join_blocks_def object_block_ref_def block_from_row_def ex_backend [simplified]
      transact_def delete_object_row_def decrement_block_def update_block_def enqueue_gc_def queued_def)

lemma ex_copy_block:
  "copy_block 2 ex_block (ex_db5\<lparr>objects := [ex_orow, ex_orow\<lparr>orow_id := 2, orow_key := ex_key2,
       orow_created_at := 7, orow_modified_at := 7\<rparr>]\<rparr>) = Inr ex_db7"
  by (simp add: copy_block_def insert_object_block_def update_block_def dequeue_gc_def
      block_exists_def ex_defs)

lemma ex_get_copy: "get_object ex_bucket ex_key2 ex_db7 = Inr (Some ex_copy)"
  by (simp add: get_object_def ex_defs object_rows_def load_object_blocks_def rows_of_object_def
      join_blocks_def object_block_ref_def block_from_row_def object_from_row_def
      ex_backend [simplified])

lemma ex_copy_tx:
  "copy_object_tx 7 ex_object ex_bucket ex_key2 default_metadata default_condition ex_db5 = Inr ([], ex_db7)"
proof -
  have "remove_existing_object 7 ex_bucket ex_key2 default_condition ex_db5 = Inr (None, ex_db5)"
    by (simp add: remove_existing_object_def object_rows_def ex_defs)
  moreover have "ensure_blocks_not_queued (map blk_id (obj_blocks ex_object)) ex_db5 = Inr ()"
    by (simp add: ensure_blocks_not_queued_def ex_defs)
  moreover have "insert_object \<lparr>orow_id = 0, orow_bucket = ex_bucket, orow_key = ex_key2, orow_size = 3,
     orow_etag = [101], orow_metadata = default_metadata, orow_created_at = 7,
     orow_modified_at = 7\<rparr> ex_db5 = Inr (2, ex_db5\<lparr>objects := [ex_orow, ex_orow\<lparr>orow_id := 2,
       orow_key := ex_key2, orow_created_at := 7, orow_modified_at := 7\<rparr>]\<rparr>)"
    by (simp add: insert_object_def ex_defs object_rows_def next_rowid_def)
  moreover have "length (filter (\<lambda>r. orow_id r = obj_id ex_object \<and> orow_bucket r = obj_bucket ex_object
            \<and> orow_key r = obj_key ex_object) (objects ex_db5)) = 1" by (simp add: ex_defs)
  moreover have "obj_size ex_object = 3" "obj_etag ex_object = [101]" "obj_blocks ex_object = [ex_block]"
    by (simp_all add: ex_object_def)
  ultimately show ?thesis unfolding copy_object_tx_def by (simp add: ex_copy_block)
qed

lemma ex_step7:
  "copy_object 7 ex_object ex_bucket ex_key2 default_metadata default_condition ex_db5
     = (Inr (ex_copy, []), ex_db7)"
  by (simp add: copy_object_def ex_copy_tx transact_def read_back_def ex_get_copy)

lemma ex_ok:
  "db_ok ex_db1" "db_ok ex_db2" "db_ok ex_db3" "db_ok ex_db4" "db_ok ex_db5" "db_ok ex_db6"
proof -
  show 1: "db_ok ex_db1" using db_ok_create_bucket [of empty_db 0 ex_bucket] by (simp add: ex_step1)
  show 2: "db_ok ex_db2" using db_ok_create_upload [OF 1, of ex_up] by (simp add: ex_step2)
  show 3: "db_ok ex_db3" using db_ok_add_staged_block [OF 2, of 2 ex_block] by (simp add: ex_step3)
  show 4: "db_ok ex_db4"
    using db_ok_replace_part [OF 3 ex_free, of 3 3 "[101]"] by (simp add: ex_step4)
  show 5: "db_ok ex_db5"
    using db_ok_commit_upload [OF 4, of 4 ex_upload 3 "[101]" "[ex_part]" default_condition]
    by (simp add: ex_step5)
  show "db_ok ex_db6"
    using db_ok_delete_object [OF 5, of 6 ex_bucket ex_key default_condition] by (simp add: ex_step6)
qed

end
