(* ===== verification/Unsound_Calls.thy ===== *)
theory Unsound_Calls
  imports Db_Calls Examples
begin

text \<open>
  Runs of database calls on the data of \<open>Examples\<close>: a sound one, and two with a call that is not
  sound, after which the invariant no longer holds.
\<close>

section \<open>The example as a run\<close>

definition ex_writes :: "db_write list" where
  "ex_writes = [Create_Bucket 0 ex_bucket, Create_Upload ex_up, Add_Staged_Block 2 ex_block,
     Replace_Part 3 ex_upload 0 3 [101] [ex_block], Commit_Upload 4 ex_upload 3 [101] [ex_part] default_condition]"

lemma ex_writes_run: "fold exec ex_writes empty_db = ex_db5" "all_sound ex_writes empty_db"
  by (simp_all add: ex_writes_def sound_def ex_step1 ex_step2 ex_step3 ex_step4 ex_step5 ex_free)

section \<open>Calls that are not sound\<close>

text \<open>
  A copy whose bucket is deleted between the engine's look and the transaction: the object is written
  and read back all the same, in a bucket that does not exist.
\<close>

definition other_bucket :: str where "other_bucket = [99]"

definition dangling_db :: db where
  "dangling_db = ex_db7\<lparr>objects := [ex_orow, ex_orow\<lparr>orow_id := 2, orow_bucket := other_bucket, orow_key := ex_key2,
       orow_created_at := 7, orow_modified_at := 7\<rparr>]\<rparr>"

lemma dangling_copy_tx:
  "copy_object_tx 7 ex_object other_bucket ex_key2 default_metadata default_condition ex_db5 = Inr ([], dangling_db)"
proof -
  have "remove_existing_object 7 other_bucket ex_key2 default_condition ex_db5 = Inr (None, ex_db5)"
    by (simp add: remove_existing_object_def object_rows_def other_bucket_def ex_defs)
  moreover have "ensure_blocks_not_queued (map blk_id (obj_blocks ex_object)) ex_db5 = Inr ()"
    by (simp add: ensure_blocks_not_queued_def ex_defs)
  moreover have "insert_object \<lparr>orow_id = 0, orow_bucket = other_bucket, orow_key = ex_key2, orow_size = 3,
     orow_etag = [101], orow_metadata = default_metadata, orow_created_at = 7,
     orow_modified_at = 7\<rparr> ex_db5 = Inr (2, ex_db5\<lparr>objects := [ex_orow, ex_orow\<lparr>orow_id := 2, orow_bucket := other_bucket,
       orow_key := ex_key2, orow_created_at := 7, orow_modified_at := 7\<rparr>]\<rparr>)"
    by (simp add: insert_object_def ex_defs other_bucket_def object_rows_def next_rowid_def)
  moreover have "length (filter (\<lambda>r. orow_id r = obj_id ex_object \<and> orow_bucket r = obj_bucket ex_object
            \<and> orow_key r = obj_key ex_object) (objects ex_db5)) = 1" by (simp add: ex_defs)
  moreover have "obj_size ex_object = 3" "obj_etag ex_object = [101]" "obj_blocks ex_object = [ex_block]"
    by (simp_all add: ex_object_def)
  moreover have "copy_block 2 ex_block (ex_db5\<lparr>objects := [ex_orow, ex_orow\<lparr>orow_id := 2, orow_bucket := other_bucket,
       orow_key := ex_key2, orow_created_at := 7, orow_modified_at := 7\<rparr>]\<rparr>) = Inr dangling_db"
    by (simp add: copy_block_def insert_object_block_def update_block_def dequeue_gc_def
        block_exists_def dangling_db_def ex_defs)
  ultimately show ?thesis unfolding copy_object_tx_def by simp
qed

lemma copy_into_deleted_bucket:
  "fold exec [Create_Bucket 6 other_bucket, Delete_Bucket other_bucket,
      Copy_Object 7 ex_object other_bucket ex_key2 default_metadata default_condition] ex_db5 = dangling_db"
  "\<exists>ob. get_object other_bucket ex_key2 dangling_db = Inr (Some ob)"
  "\<not> bucket_named dangling_db other_bucket" "\<not> db_ok dangling_db"
proof -
  have "snd (create_bucket 6 other_bucket ex_db5) = ex_db5\<lparr>buckets := buckets ex_db5 @ [\<lparr>brow_name = other_bucket, brow_created_at = 6\<rparr>]\<rparr>"
    by (simp add: create_bucket_def bucket_named_def other_bucket_def ex_defs)
  then have "exec (Delete_Bucket other_bucket) (exec (Create_Bucket 6 other_bucket) ex_db5) = ex_db5"
    by (simp add: delete_bucket_def bucket_named_def other_bucket_def ex_defs transact_def split: option.splits)
  moreover have "exec (Copy_Object 7 ex_object other_bucket ex_key2 default_metadata default_condition) ex_db5 = dangling_db"
    by (simp add: copy_object_def dangling_copy_tx transact_def read_back_def split: sum.splits option.splits)
  ultimately show "fold exec [Create_Bucket 6 other_bucket, Delete_Bucket other_bucket,
      Copy_Object 7 ex_object other_bucket ex_key2 default_metadata default_condition] ex_db5 = dangling_db" by simp
  show "\<exists>ob. get_object other_bucket ex_key2 dangling_db = Inr (Some ob)"
    by (simp add: get_object_def dangling_db_def other_bucket_def ex_defs object_rows_def load_object_blocks_def rows_of_object_def
        join_blocks_def object_block_ref_def block_from_row_def object_from_row_def ex_backend [simplified])
  show nb: "\<not> bucket_named dangling_db other_bucket"
    by (simp add: bucket_named_def dangling_db_def other_bucket_def ex_defs)
  have "\<exists>r \<in> set (objects dangling_db). orow_bucket r = other_bucket" by (simp add: dangling_db_def)
  then obtain r where r: "r \<in> set (objects dangling_db)" "orow_bucket r = other_bucket" by blast
  have "bucket_named dangling_db (orow_bucket r)" if "db_ok dangling_db"
    using that r(1) by (simp add: db_ok_def buckets_ok_def)
  with nb r(2) show "\<not> db_ok dangling_db" by auto
qed

text \<open>
  A block id that two parts are given, as happens when ids are used again (\<open>Block_Ids\<close>): the block is
  counted once and referred to twice.
\<close>

definition other_up :: upload_record where
  "other_up = ex_up\<lparr>up_upload_id := [118]\<rparr>"

definition shared_db :: db where
  "shared_db = fold exec [Create_Upload other_up, Replace_Part 5 [118] 0 3 [101] [ex_block]] ex_db4"

lemma shared_block_unbalanced:
  "ex_row Staged 1 \<in> set (telegram_blocks shared_db)" "refs shared_db 1 = 2" "\<not> db_ok shared_db"
proof -
  have 1: "create_upload other_up ex_db4 = (Inr (), ex_db4\<lparr>multipart_uploads := [ex_urow, ex_urow\<lparr>urow_upload_id := [118]\<rparr>]\<rparr>)"
    by (simp add: other_up_def ex_defs create_upload_def bucket_named_def insert_upload_def upload_rows_def transact_def)
  have 2: "shared_db = ex_db4\<lparr>multipart_uploads := [ex_urow, ex_urow\<lparr>urow_upload_id := [118]\<rparr>],
      multipart_parts := multipart_parts ex_db4 @ [\<lparr>prow_upload_id = [118], prow_number = 0, prow_size = 3, prow_etag = [101]\<rparr>],
      multipart_part_blocks := multipart_part_blocks ex_db4 @ [\<lparr>pb_upload_id = [118], pb_number = 0, pb_ordinal = 0,
       pb_block_id = 1, pb_byte_offset = 0, pb_size = 3\<rparr>]\<rparr>"
    unfolding shared_db_def
    by (simp add: 1) (simp add: ex_defs replace_part_def replace_part_tx_def upload_rows_def
      ensure_blocks_not_queued_def rows_of_part_def join_blocks_def delete_part_row_def
      insert_part_def insert_part_blocks_def insert_part_block_def block_exists_def transact_def
      enumerate_eq_zip)
  show mem: "ex_row Staged 1 \<in> set (telegram_blocks shared_db)" by (simp add: 2 ex_db4_def ex_db3_def)
  show r: "refs shared_db 1 = 2" by (simp add: 2 refs_def obj_refs_def part_refs_def ex_defs)
  show "\<not> db_ok shared_db"
    using balancedD [of "\<lambda>_. 0" shared_db "ex_row Staged 1"] mem r
    by (auto simp: db_ok_def row_balanced_def ex_row_def)
qed

end
