(* ===== verification/Spec_Db.thy ===== *)
theory Spec_Db
  imports Gc_System Db_Results Unsound_Calls
begin

text \<open>
  The properties of the database layer: the safety of collection, the invariant, what each
  operation does to the object store, and the checks a completed upload passes.
\<close>

section \<open>Collection\<close>

lemma referenced_row_kept:
  assumes "sys_reachable s" and "r \<in> set (telegram_blocks (sys_db s))"
    and "in_object (sys_db s) (trow_id r) \<or> in_part (sys_db s) (trow_id r)"
  shows "trow_message_id r \<notin> sys_deleted s"
proof
  assume del: "trow_message_id r \<in> sys_deleted s"
  have ok: "sys_ok s" using sys_reachable_ok [OF assms(1)] by blast
  have "(trow_id r, trow_message_id r) \<in> set (pairs (sys_db s))"
    using assms(2) by (simp add: pairs_def)
  with ok del have "queued (sys_db s) (trow_id r)" by (auto simp: sys_ok_def)
  with ok have "unreferenced (sys_db s) (trow_id r)"
    by (auto simp: sys_ok_def intro: queued_unreferenced)
  with assms(3) show False by (simp add: unreferenced_def)
qed

lemma object_block_row:
  assumes "get_object b k d = Inr (Some ob)" and "x \<in> set (obj_blocks ob)" and "db_ok d"
  shows "\<exists>r \<in> set (telegram_blocks d). trow_id r = blk_id x \<and> trow_message_id r = blk_message_id x
    \<and> in_object d (trow_id r)"
proof -
  from get_object_reads [OF assms(1,2)] obtain r where r: "r \<in> set (telegram_blocks d)"
      "block_from_row r (blk_ordinal x) (blk_offset x) (blk_size x) = Inr x" by (auto simp: reads_def)
  from get_object_Some [OF assms(3,1)] obtain q :: object_row where
    "list_all2 block_of_row (rows_of_object d (orow_id q)) (obj_blocks ob)" by blast
  from rows_of_blocks(3) [OF this] assms(2)
  have "blk_id x \<in> set (map ob_block_id (rows_of_object d (orow_id q)))" by simp
  then have "in_object d (blk_id x)" by (auto simp: in_object_def rows_of_object_def)
  with r block_from_row_Inr [OF r(2)] show ?thesis by (intro bexI [of _ r]) simp_all
qed

lemma object_message_kept:
  assumes "sys_reachable s" and "get_object b k (sys_db s) = Inr (Some ob)"
    and "x \<in> set (obj_blocks ob)"
  shows "blk_message_id x \<notin> sys_deleted s"
proof -
  have "db_ok (sys_db s)" using sys_reachable_ok [OF assms(1)] by (simp add: sys_ok_def)
  from object_block_row [OF assms(2,3) this] obtain r where
    "r \<in> set (telegram_blocks (sys_db s))" "trow_message_id r = blk_message_id x"
    "in_object (sys_db s) (trow_id r)" by blast
  with referenced_row_kept [OF assms(1)] show ?thesis by metis
qed

text \<open>
  C9: in every reachable state of the system in which clients, background collection, request
  cleanup and crashes interleave arbitrarily, no message that holds a block of a readable
  object has been deleted from Telegram, and none that holds a block of a part of an upload in
  progress.
\<close>

theorem messages_kept:
  assumes "sys_reachable s"
  shows "(\<forall>b k ob. get_object b k (sys_db s) = Inr (Some ob) \<longrightarrow> (\<forall>x \<in> set (obj_blocks ob). blk_message_id x \<notin> sys_deleted s))
    \<and> (\<forall>r \<in> set (telegram_blocks (sys_db s)). in_part (sys_db s) (trow_id r) \<longrightarrow> trow_message_id r \<notin> sys_deleted s)"
  using object_message_kept [OF assms] referenced_row_kept [OF assms] by blast

text \<open>A reachable state with an object, after a discarded upload's message 41 was deleted.\<close>

definition ex_sys :: gc_sys where
  "ex_sys = \<lparr>sys_db = ex_db5, sys_deleted = {41}, sys_claims = []\<rparr>"

lemma ex_call: "sys_reachable \<lparr>sys_db = d, sys_deleted = D, sys_claims = C\<rparr> \<Longrightarrow> db_call d d'
    \<Longrightarrow> sys_reachable \<lparr>sys_db = d', sys_deleted = D, sys_claims = C\<rparr>"
  using reach_step [OF _ step_call [of "\<lparr>sys_db = d, sys_deleted = D, sys_claims = C\<rparr>" d']] by simp

lemma ex_sys_reachable: "sys_reachable ex_sys" and ex_sys_part: "sys_reachable (ex_sys\<lparr>sys_db := ex_db4\<rparr>)"
proof -
  have 0: "sys_reachable \<lparr>sys_db = empty_db, sys_deleted = {}, sys_claims = []\<rparr>"
    using reach_init by (simp add: sys_init_def)
  have 1: "sys_reachable \<lparr>sys_db = ex_db1, sys_deleted = {}, sys_claims = []\<rparr>"
    using ex_call [OF 0 call_create_bucket [of _ 0 ex_bucket]] by (simp add: ex_step1)
  have 2: "sys_reachable \<lparr>sys_db = ex_db2, sys_deleted = {}, sys_claims = []\<rparr>"
    using ex_call [OF 1 call_create_upload [of _ ex_up]] by (simp add: ex_step2)
  have "41 \<notin> row_messages ex_db2" by (simp add: row_messages_def pairs_def ex_defs)
  then have 3: "sys_reachable \<lparr>sys_db = ex_db2, sys_deleted = {41}, sys_claims = []\<rparr>"
    using reach_step [OF 2 step_discard [of 41 "\<lparr>sys_db = ex_db2, sys_deleted = {}, sys_claims = []\<rparr>"]] by simp
  have "blk_message_id ex_block \<notin> used_messages \<lparr>sys_db = ex_db2, sys_deleted = {41}, sys_claims = []\<rparr>"
    by (simp add: used_messages_def row_messages_def pairs_def ex_defs)
  then have 4: "sys_reachable \<lparr>sys_db = ex_db3, sys_deleted = {41}, sys_claims = []\<rparr>"
    using reach_step [OF 3 step_stage [of ex_block _ 2]] by (simp add: ex_step3)
  have 5: "sys_reachable \<lparr>sys_db = ex_db4, sys_deleted = {41}, sys_claims = []\<rparr>"
    using ex_call [OF 4 call_replace_part [OF ex_free, of 3 3 "[101]"]] by (simp add: ex_step4)
  show "sys_reachable ex_sys"
    using ex_call [OF 5 call_commit_upload [of _ 4 ex_upload 3 "[101]" "[ex_part]" default_condition]]
    by (simp add: ex_step5 ex_sys_def)
  show "sys_reachable (ex_sys\<lparr>sys_db := ex_db4\<rparr>)" using 5 by (simp add: ex_sys_def)
qed

theorem messages_kept_witness:
  "blk_message_id ex_block \<notin> sys_deleted ex_sys \<and> trow_message_id (ex_row Staged 1) \<notin> {41}"
proof -
  have "blk_message_id ex_block \<notin> sys_deleted ex_sys"
    using messages_kept [OF ex_sys_reachable] ex_get by (auto simp: ex_sys_def ex_object_def)
  moreover have "\<forall>r \<in> set (telegram_blocks ex_db4). in_part ex_db4 (trow_id r) \<longrightarrow> trow_message_id r \<notin> {41}"
    using messages_kept [OF ex_sys_part] by (simp add: ex_sys_def)
  ultimately show ?thesis by (simp add: in_part_def ex_defs)
qed

section \<open>The invariant\<close>

text \<open>
  C10: Every database that calls of \<open>Db\<close> lead to satisfies the invariant: keys and foreign keys hold,
  reference counts balance, the rows of every object tile its bytes, and objects and uploads sit in
  existing buckets. The calls come in any order and with any arguments, but each is \<open>sound\<close> when it is
  made. That restricts two of the sixteen, which rely on it and do not check it: a \<open>replace_part\<close> that
  commits was given blocks that nothing but the part it replaces refers to, and a \<open>copy_object\<close> that
  commits a source whose blocks are committed and tile it and a bucket that still exists. A block id given out twice breaks the first,
  \<open>delete_bucket\<close> racing a copy the second, and then the invariant does fail (lemmas
  \<open>shared_block_unbalanced\<close>, \<open>copy_into_deleted_bucket\<close>).
\<close>

theorem reachable_db_ok:
  assumes "all_sound writes empty_db"
  shows "db_ok (fold exec writes empty_db)"
  using run_ok [OF db_ok_empty assms] .

lemma reachable_db_ok_witness: "db_ok ex_db5"
  using reachable_db_ok [OF ex_writes_run(2)] by (simp add: ex_writes_run(1))

text \<open>
  C11: After any run of calls of \<open>Db\<close>, each \<open>sound\<close> when it is made as in C10, a block's reference
  count is exactly the number of rows that refer to it while there are any, and then the block is not
  queued for collection; a block without references is queued and counted zero times, or it is staged
  and counted once. So every call counts, releases and queues what it should: \<open>decrement_block\<close> and
  \<open>enqueue_gc\<close> in the deletions, replacements and expiries, the increments and dequeues of the copies
  and completions.
\<close>

theorem reference_counts_exact:
  assumes "all_sound writes empty_db" and "d = fold exec writes empty_db" and "r \<in> set (telegram_blocks d)"
  shows "if in_object d (trow_id r) \<or> in_part d (trow_id r)
    then trow_ref_count r = int (length (filter (\<lambda>x. ob_block_id x = trow_id r) (object_blocks d)))
        + int (length (filter (\<lambda>x. pb_block_id x = trow_id r) (multipart_part_blocks d)))
      \<and> \<not> queued d (trow_id r)
    else queued d (trow_id r) \<and> trow_ref_count r = 0
      \<or> \<not> queued d (trow_id r) \<and> trow_ref_count r = 1 \<and> trow_state r = Staged"
proof -
  have cnt: "count_list (map f xs) y = length (filter (\<lambda>x. f x = y) xs)" for f :: "'a \<Rightarrow> int" and xs y
    by (induction xs) auto
  have "balanced (\<lambda>_. 0) d" using run_ok [OF db_ok_empty assms(1)] assms(2) by (simp add: db_ok_def)
  from balancedD [OF this assms(3)] refs_pos_iff [of d "trow_id r"] refs_nonneg [of d "trow_id r"]
  show ?thesis by (auto simp: row_balanced_def refs_def obj_refs_def part_refs_def cnt)
qed

lemma reference_counts_exact_witness:
  "trow_ref_count (ex_row Committed 1) = 1 \<and> \<not> queued ex_db5 1"
  using reference_counts_exact [OF ex_writes_run(2) ex_writes_run(1) [symmetric], of "ex_row Committed 1"]
  by (simp add: in_object_def ex_defs)

section \<open>Nothing leaks\<close>

text \<open>A collectable row is returned by \<open>gc_candidate\<close>, and by \<open>gc_candidates\<close> when the limit admits all rows.\<close>

definition returned_at :: "int \<Rightarrow> db \<Rightarrow> block_row \<Rightarrow> bool" where
  "returned_at t d r \<longleftrightarrow>
     (\<exists>g. gc_candidate (trow_id r) t d = Inr (Some g) \<and> gb_block_id g = trow_id r \<and> gb_message_id g = trow_message_id r)
     \<and> (\<forall>limit. length (gc_queue d) \<le> limit \<and> int limit \<le> i64_max \<longrightarrow>
          (\<exists>gs. gc_candidates t limit d = Inr gs
            \<and> (\<exists>g \<in> set gs. gb_block_id g = trow_id r \<and> gb_message_id g = trow_message_id r)))"

lemma traverse_returns:
  assumes "\<And>x. x \<in> set xs \<Longrightarrow> \<exists>y. f x = Inr y" and "x \<in> set xs" and "f x = Inr y"
  shows "\<exists>ys. traverse f xs = Inr ys \<and> y \<in> set ys"
proof -
  obtain ys where ys: "traverse f xs = Inr ys" using traverse_ex [of xs f] assms(1) by blast
  then have "y \<in> set ys" using assms(2,3) by (induction xs arbitrary: ys) (auto split: sum.splits)
  with ys show ?thesis by blast
qed

lemma gc_join_length:
  assumes "schema_ok d"
  shows "length (gc_join d) = length (gc_queue d)"
proof -
  have "\<forall>q \<in> set (gc_queue d). block_exists d (q_block_id q)" using assms by (auto simp: schema_defs)
  from arg_cong [OF join_blocks_map_snd [OF assms this], of length] show ?thesis by (simp add: gc_join_def)
qed

lemma garbage_from_row_ok:
  assumes "schema_ok d" and "b \<in> set (telegram_blocks d)"
  shows "\<exists>g. garbage_from_row (q, b) = Inr g"
proof -
  obtain k where "trow_backend b = backend_as_str k" using assms by (auto simp: schema_defs)
  then show ?thesis by (simp add: garbage_from_row_def)
qed

lemma collectable_returned:
  assumes s: "schema_ok d" and mem: "(q, r) \<in> set (gc_join d)" and c: "collectable t d (q, r)"
  shows "returned_at t d r"
proof -
  have r: "r \<in> set (telegram_blocks d)" and id: "trow_id r = q_block_id q" using mem by (simp_all add: in_gc_join)
  have total: "\<exists>y. garbage_from_row x = Inr y" if "x \<in> set (gc_join d)" for x
  proof -
    obtain q b where x: "x = (q, b)" by (cases x)
    with that have "b \<in> set (telegram_blocks d)" by (simp add: in_gc_join)
    from garbage_from_row_ok [OF s this] x show ?thesis by simp
  qed
  have one: "\<exists>g. gc_candidate (trow_id r) t d = Inr (Some g) \<and> gb_block_id g = trow_id r \<and> gb_message_id g = trow_message_id r"
  proof -
    let ?P = "\<lambda>x. q_block_id (fst x) = trow_id r \<and> collectable t d x"
    obtain q' r' rest where f: "filter ?P (gc_join d) = (q', r') # rest"
      using mem c id by (cases "filter ?P (gc_join d)") (auto simp: filter_empty_conv)
    then have "(q', r') \<in> set (filter ?P (gc_join d))" by simp
    then have r': "r' \<in> set (telegram_blocks d)" "trow_id r' = trow_id r" "q_block_id q' = trow_id r" "(q', r') \<in> set (gc_join d)"
      by (auto simp: in_gc_join)
    with s r have "r' = r" by (intro same_id_same_row)
    moreover obtain g where "garbage_from_row (q', r') = Inr g" using total [OF r'(4)] by blast
    ultimately show ?thesis using f r'(3) garbage_from_row_Inr [of q' r' g] by (auto simp: gc_candidate_def claim_of_def)
  qed
  have "\<exists>gs. gc_candidates t limit d = Inr gs \<and> (\<exists>g \<in> set gs. gb_block_id g = trow_id r \<and> gb_message_id g = trow_message_id r)"
    if lim: "length (gc_queue d) \<le> limit" "int limit \<le> i64_max" for limit
  proof -
    let ?rows = "sort_key (\<lambda>(q, b). q_next_attempt q) (filter (collectable t d) (gc_join d))"
    have "length (gc_join d) \<le> length (gc_queue d)" using gc_join_length [OF s] by simp
    then have "length ?rows \<le> limit" using order_trans [OF length_filter_le [of "collectable t d" "gc_join d"]] lim(1) by simp
    then have all: "take limit ?rows = ?rows" by simp
    obtain g where g: "garbage_from_row (q, r) = Inr g" using total [OF mem] by blast
    have "\<exists>gs. traverse garbage_from_row ?rows = Inr gs \<and> g \<in> set gs"
      by (rule traverse_returns [where x = "(q, r)"]) (use total mem c g in auto)
    with all lim(2) garbage_from_row_Inr [OF g] id show ?thesis by (auto simp: gc_candidates_def claim_of_def)
  qed
  with one show ?thesis by (simp add: returned_at_def)
qed

lemma queued_returned:
  assumes ok: "db_ok d" and r: "r \<in> set (telegram_blocks d)" and un: "unreferenced d (trow_id r)"
    and q: "q \<in> set (gc_queue d)" "q_block_id q = trow_id r" "q_state q = Pending" "q_next_attempt q \<le> t"
  shows "returned_at t d r"
proof -
  have s: "schema_ok d" and b: "balanced (\<lambda>_. 0) d" using ok by (simp_all add: db_ok_def)
  have "queued d (trow_id r)" using q by (force simp: queued_def)
  with balancedD [OF b r] have "trow_ref_count r = 0" by (simp add: row_balanced_def)
  with r q un have "(q, r) \<in> set (gc_join d)" "collectable t d (q, r)" by (simp_all add: in_gc_join collectable_def)
  with s show ?thesis by (rule collectable_returned)
qed

lemma stale_returned:
  assumes s: "schema_ok d" and r: "r \<in> set (telegram_blocks d)" "trow_state r = Staged" "trow_created_at r < before"
    and un: "unreferenced d (trow_id r)" and lim: "length (telegram_blocks d) \<le> limit" "int limit \<le> i64_max"
  shows "\<exists>gs. stale_blocks before limit d = Inr gs \<and> (\<exists>g \<in> set gs. gb_block_id g = trow_id r \<and> gb_message_id g = trow_message_id r)"
proof -
  let ?P = "\<lambda>b. trow_state b = Staged \<and> trow_created_at b < before \<and> unreferenced d (trow_id b)"
  let ?rows = "sort_key trow_created_at (sort_key trow_id (filter ?P (telegram_blocks d)))"
  let ?q = "\<lambda>b. \<lparr>q_block_id = trow_id b, q_attempts = 0, q_next_attempt = 0, q_last_error = None, q_state = Pending\<rparr>"
  have "length ?rows \<le> limit" using order_trans [OF length_filter_le [of ?P "telegram_blocks d"] lim(1)] by simp
  then have all: "take limit ?rows = ?rows" by simp
  obtain g where g: "garbage_from_row (?q r, r) = Inr g" using garbage_from_row_ok [OF s r(1)] by blast
  have "\<exists>gs. traverse (\<lambda>b. garbage_from_row (?q b, b)) ?rows = Inr gs \<and> g \<in> set gs"
    by (rule traverse_returns [where x = r]) (use g r un garbage_from_row_ok [OF s] in simp_all)
  with all lim(2) garbage_from_row_Inr [OF g] show ?thesis by (auto simp: stale_blocks_def claim_of_def)
qed

lemma queue_stale_claims:
  assumes ok: "db_ok d" and r: "r \<in> set (telegram_blocks d)" and un: "unreferenced d (trow_id r)"
    and nq: "\<not> queued d (trow_id r)"
  shows "\<exists>d' r'. queue_stale_block t (trow_id r) d = (True, d') \<and> r' \<in> set (telegram_blocks d')
    \<and> trow_id r' = trow_id r \<and> trow_message_id r' = trow_message_id r \<and> unreferenced d' (trow_id r)
    \<and> (\<exists>q \<in> set (gc_queue d'). q_block_id q = trow_id r \<and> q_state q = Pending \<and> q_next_attempt q = t)"
proof -
  have b: "balanced (\<lambda>_. 0) d" using ok by (simp add: db_ok_def)
  have "refs d (trow_id r) = 0" using un by (simp add: unreferenced_iff_refs)
  with balancedD [OF b r] nq have st: "trow_ref_count r = 1" "trow_state r = Staged"
    by (auto simp: row_balanced_def)
  define d1 where "d1 = update_block (trow_id r) (\<lambda>r. if trow_state r = Staged \<and> 0 < trow_ref_count r
      then r\<lparr>trow_ref_count := 0\<rparr> else r) d"
  have in1: "r\<lparr>trow_ref_count := 0\<rparr> \<in> set (telegram_blocks d1)"
    using r st by (auto simp: d1_def update_block_def image_iff intro!: bexI [of _ r])
  have un1: "unreferenced d1 (trow_id r)" using un by (simp add: d1_def unreferenced_def in_object_def in_part_def)
  have claimed: "list_ex (\<lambda>x. trow_id x = trow_id r \<and> trow_state x = Staged \<and> trow_ref_count x = 0) (telegram_blocks d1)"
    unfolding list_ex_iff using in1 st by (intro bexI [of _ "r\<lparr>trow_ref_count := 0\<rparr>"]) simp_all
  have nq1: "\<not> queued d1 (trow_id r)" using nq by (simp add: d1_def)
  have res: "queue_stale_block t (trow_id r) d = (True, enqueue_gc (trow_id r) t d1)"
    using un claimed un1 unfolding queue_stale_block_def Let_def d1_def [symmetric] by simp
  have "unreferenced (enqueue_gc (trow_id r) t d1) (trow_id r)"
    using un1 by (simp add: unreferenced_def in_object_def in_part_def)
  moreover have "\<exists>q \<in> set (gc_queue (enqueue_gc (trow_id r) t d1)). q_block_id q = trow_id r
      \<and> q_state q = Pending \<and> q_next_attempt q = t"
    using nq1 by (simp add: enqueue_gc_def)
  ultimately show ?thesis
    using res in1 by (intro exI [of _ "enqueue_gc (trow_id r) t d1"] exI [of _ "r\<lparr>trow_ref_count := 0\<rparr>"]) simp
qed

text \<open>
  C12: No block leaks. A block that no object and no part refers to is in one of three states.
  Collection has given it up: it is queued as an orphan, which \<open>gc_orphan\<close> does once its message can no
  longer be deleted. Or it is queued and pending, and once its next attempt is due \<open>gc_candidate\<close>
  returns it with its message, and so does \<open>gc_candidates\<close> whose limit is no less than the number of
  queued rows. Or it is not queued: then \<open>stale_blocks\<close>, whose limit is no less than the number of
  blocks, returns it once it is older than the cutoff, \<open>queue_stale_block\<close> claims it, and from then on
  it is returned as the queued ones are. (With smaller limits orphans can keep collection from it:
  lemma \<open>orphans_starve_collection\<close>.)
\<close>

theorem unreferenced_blocks_collectable:
  assumes "db_ok d" and "r \<in> set (telegram_blocks d)"
    and "\<not> in_object d (trow_id r)" and "\<not> in_part d (trow_id r)"
  shows "(\<exists>q \<in> set (gc_queue d). q_block_id q = trow_id r \<and> q_state q = Orphan)
    \<or> (\<exists>q \<in> set (gc_queue d). q_block_id q = trow_id r \<and> q_state q = Pending \<and> (\<forall>t \<ge> q_next_attempt q. returned_at t d r))
    \<or> \<not> queued d (trow_id r)
      \<and> (\<forall>before limit. trow_created_at r < before \<and> length (telegram_blocks d) \<le> limit \<and> int limit \<le> i64_max \<longrightarrow>
           (\<exists>gs. stale_blocks before limit d = Inr gs
             \<and> (\<exists>g \<in> set gs. gb_block_id g = trow_id r \<and> gb_message_id g = trow_message_id r)))
      \<and> (\<forall>t. \<exists>d'. queue_stale_block t (trow_id r) d = (True, d') \<and> (\<forall>t' \<ge> t. returned_at t' d' r))"
proof (cases "queued d (trow_id r)")
  case True
  have un: "unreferenced d (trow_id r)" using assms(3,4) by (simp add: unreferenced_def)
  from True obtain q where q: "q \<in> set (gc_queue d)" "q_block_id q = trow_id r" by (auto simp: queued_def)
  with queued_returned [OF assms(1,2) un q] show ?thesis by (cases "q_state q") blast+
next
  case False
  have un: "unreferenced d (trow_id r)" using assms(3,4) by (simp add: unreferenced_def)
  have s: "schema_ok d" and b: "balanced (\<lambda>_. 0) d" using assms(1) by (simp_all add: db_ok_def)
  have "refs d (trow_id r) = 0" using un by (simp add: unreferenced_iff_refs)
  with balancedD [OF b assms(2)] False have "trow_state r = Staged" by (auto simp: row_balanced_def)
  note stale = stale_returned [OF s assms(2) this _ un]
  have "\<exists>d'. queue_stale_block t (trow_id r) d = (True, d') \<and> (\<forall>t' \<ge> t. returned_at t' d' r)" for t
  proof -
    from queue_stale_claims [OF assms(1,2) un False, of t] obtain d' r' q where
      st: "queue_stale_block t (trow_id r) d = (True, d')" "r' \<in> set (telegram_blocks d')"
        "trow_id r' = trow_id r" "trow_message_id r' = trow_message_id r" "unreferenced d' (trow_id r')"
        "q \<in> set (gc_queue d')" "q_block_id q = trow_id r'" "q_state q = Pending" "q_next_attempt q = t"
      by auto
    have "db_ok d'" using db_ok_queue_stale_block [OF assms(1), of t "trow_id r"] st(1) by simp
    from queued_returned [OF this st(2,5,6,7,8)] st(3,4,9) have "\<forall>t' \<ge> t. returned_at t' d' r" by (simp add: returned_at_def)
    with st(1) show ?thesis by blast
  qed
  with False stale show ?thesis by blast
qed

lemma unreferenced_blocks_collectable_witness:
  "\<exists>d'. queue_stale_block 9 1 ex_db3 = (True, d') \<and> returned_at 10 d' (ex_row Staged 1)"
proof -
  have r: "ex_row Staged 1 \<in> set (telegram_blocks ex_db3)" "\<not> in_object ex_db3 (trow_id (ex_row Staged 1))"
    "\<not> in_part ex_db3 (trow_id (ex_row Staged 1))" by (simp_all add: in_object_def in_part_def ex_defs)
  have q: "gc_queue ex_db3 = []" and id: "trow_id (ex_row Staged 1) = 1" by (simp_all add: ex_defs)
  from unreferenced_blocks_collectable [OF ex_ok(3) r] q
  have "\<forall>t. \<exists>d'. queue_stale_block t 1 ex_db3 = (True, d') \<and> (\<forall>t' \<ge> t. returned_at t' d' (ex_row Staged 1))"
    by (auto simp: id)
  from spec [OF this, of 9] obtain d' where
    "queue_stale_block 9 1 ex_db3 = (True, d')" "\<forall>t' \<ge> 9. returned_at t' d' (ex_row Staged 1)" by blast
  then show ?thesis by (intro exI [of _ d']) simp
qed

end
