(* ===== verification/Db_Progress.thy ===== *)
theory Db_Progress
  imports Db_Results
begin

text \<open>
  When the writing methods succeed: \<open>replace_part\<close> on blocks that exist and are not queued,
  \<open>commit_upload\<close> on parts that match what is stored.
\<close>

section \<open>\<open>replace_part\<close>\<close>

lemma insert_part_blocks_eq:
  "insert_part_blocks u n blocks d
     = fold_res (\<lambda>x. insert_part_block (new_part_row u n x)) (enumerate 0 blocks) d"
  by (simp add: insert_part_blocks_def new_part_row_def split_def)

lemma insert_part_blocks_frame:
  "fold_res (\<lambda>x. insert_part_block (new_part_row u n x)) (enumerate k bs) d = Inr d' \<Longrightarrow>
     d' = d\<lparr>multipart_part_blocks := multipart_part_blocks d @ map (new_part_row u n) (enumerate k bs)\<rparr>"
proof (induction bs arbitrary: d k)
  case Nil
  then show ?case by simp
next
  case (Cons b bs)
  then obtain d1 where d1: "insert_part_block (new_part_row u n (k, b)) d = Inr d1"
    "fold_res (\<lambda>x. insert_part_block (new_part_row u n x)) (enumerate (Suc k) bs) d1 = Inr d'"
    by (auto split: sum.splits)
  from Cons.IH [OF d1(2)] insert_part_block_Inr [OF d1(1)] show ?case by simp
qed

lemma insert_part_blocks_total:
  assumes "\<forall>b \<in> set bs. block_exists d (blk_id b)"
    and "list_ex (\<lambda>x. prow_upload_id x = u \<and> prow_number x = n) (multipart_parts d)"
    and "\<forall>r \<in> set (rows_of_part d u n). pb_ordinal r < int k"
  shows "\<exists>d'. fold_res (\<lambda>x. insert_part_block (new_part_row u n x)) (enumerate k bs) d = Inr d'"
  using assms
proof (induction bs arbitrary: d k)
  case (Cons b bs)
  let ?r = "new_part_row u n (k, b)"
  let ?d = "d\<lparr>multipart_part_blocks := multipart_part_blocks d @ [?r]\<rparr>"
  have r: "pb_upload_id ?r = u" "pb_number ?r = n" "pb_ordinal ?r = int k" "pb_block_id ?r = blk_id b"
    by (simp_all add: new_part_row_def)
  have "\<not> list_ex (\<lambda>x. pb_upload_id x = u \<and> pb_number x = n \<and> pb_ordinal x = int k) (multipart_part_blocks d)"
    using Cons.prems(3) by (auto simp: list_ex_iff rows_of_part_def)
  then have ins: "insert_part_block ?r d = Inr ?d"
    using Cons.prems(1,2) by (simp add: insert_part_block_def r)
  have "\<exists>d'. fold_res (\<lambda>x. insert_part_block (new_part_row u n x)) (enumerate (Suc k) bs) ?d = Inr d'"
  proof (rule Cons.IH)
    show "\<forall>r \<in> set (rows_of_part ?d u n). pb_ordinal r < int (Suc k)"
      using Cons.prems(3) by (auto simp: rows_of_part_def r)
  qed (use Cons.prems(1,2) in \<open>simp_all add: block_exists_def\<close>)
  with ins show ?case by simp
qed simp

definition part_written :: "int \<Rightarrow> str \<Rightarrow> int \<Rightarrow> int \<Rightarrow> str \<Rightarrow> block_ref list \<Rightarrow> block_ref list \<Rightarrow> db \<Rightarrow> db" where
  "part_written t u n sz etag blocks released d =
     (let d1 = decrement_blocks t released (delete_part_row u n d)
      in d1\<lparr>multipart_parts := multipart_parts d1
            @ [\<lparr>prow_upload_id = u, prow_number = n, prow_size = sz, prow_etag = etag\<rparr>],
          multipart_part_blocks := multipart_part_blocks d1 @ map (new_part_row u n) (enumerate 0 blocks)\<rparr>)"

lemma replace_part_tx_Inr:
  assumes "schema_ok d" and "replace_part_tx t u n sz etag blocks d = Inr (released, d')"
  shows "d' = part_written t u n sz etag blocks released d
    \<and> map blk_id released = filter (\<lambda>i. i \<notin> set (map blk_id blocks))
        (map pb_block_id (sort_key pb_ordinal (rows_of_part d u n)))
    \<and> length (upload_rows d u) = 1 \<and> distinct (map blk_id blocks)"
proof -
  from assms(2) obtain old d2 where
    old: "traverse part_block_ref (join_blocks d pb_block_id (sort_key pb_ordinal (rows_of_part d u n))) = Inr old"
    and rel: "released = filter (\<lambda>b. blk_id b \<notin> set (map blk_id blocks)) old"
    and ins: "insert_part \<lparr>prow_upload_id = u, prow_number = n, prow_size = sz, prow_etag = etag\<rparr>
        (decrement_blocks t released (delete_part_row u n d)) = Inr d2"
    and blk: "insert_part_blocks u n blocks d2 = Inr d'"
    and g: "length (upload_rows d u) = 1" "distinct (map blk_id blocks)"
    by (auto simp: replace_part_tx_def bind_res_Inr_iff Let_def split: if_splits)
  have "map blk_id old = map pb_block_id (sort_key pb_ordinal (rows_of_part d u n))"
    using assms(1) old by (rule traverse_part_ids) (use rows_exist(2) [OF assms(1)] in simp)
  then have "map blk_id released = filter (\<lambda>i. i \<notin> set (map blk_id blocks))
        (map pb_block_id (sort_key pb_ordinal (rows_of_part d u n)))"
    by (simp add: rel filter_map comp_def flip: \<open>map blk_id old = _\<close>)
  moreover have "d' = part_written t u n sz etag blocks released d"
    using ins insert_part_blocks_frame [OF blk [unfolded insert_part_blocks_eq]]
    by (auto simp: part_written_def Let_def insert_part_def split: if_splits)
  ultimately show ?thesis using g by blast
qed

lemma replace_part_tx_total:
  assumes ok: "schema_ok d" and up: "length (upload_rows d u) = 1"
    and ex: "\<forall>b \<in> set blocks. block_exists d (blk_id b) \<and> \<not> queued d (blk_id b)"
    and dst: "distinct (map blk_id blocks)"
  shows "\<exists>released d'. replace_part_tx t u n sz etag blocks d = Inr (released, d')"
proof -
  obtain old where old: "traverse part_block_ref
      (join_blocks d pb_block_id (sort_key pb_ordinal (rows_of_part d u n))) = Inr old"
    using traverse_refs_total [OF ok, of part_block_ref pb_ordinal pb_byte_offset pb_size] part_block_ref_eq
    by blast
  let ?rel = "filter (\<lambda>b. blk_id b \<notin> set (map blk_id blocks)) old"
  let ?row = "\<lparr>prow_upload_id = u, prow_number = n, prow_size = sz, prow_etag = etag\<rparr>"
  define d1 where "d1 = decrement_blocks t ?rel (delete_part_row u n d)"
  define d2 where "d2 = d1\<lparr>multipart_parts := multipart_parts d1 @ [?row]\<rparr>"
  have "multipart_uploads d1 = multipart_uploads d" by (simp add: d1_def delete_part_row_def)
  then have "upload_rows d1 u \<noteq> []" using up by (auto simp: upload_rows_def)
  moreover have "\<not> list_ex (\<lambda>x. prow_upload_id x = u \<and> prow_number x = n) (multipart_parts d1)"
    by (auto simp: d1_def delete_part_row_def list_ex_iff)
  ultimately have ins: "insert_part ?row d1 = Inr d2" by (simp add: insert_part_def d2_def)
  have "\<exists>d'. insert_part_blocks u n blocks d2 = Inr d'"
    unfolding insert_part_blocks_eq
  proof (rule insert_part_blocks_total)
    have "block_exists d2 b = block_exists d1 b" for b by (simp add: d2_def block_exists_def)
    moreover have "block_exists d1 b = block_exists (delete_part_row u n d) b" for b by (simp add: d1_def)
    moreover have "block_exists (delete_part_row u n d) b = block_exists d b" for b
      by (simp add: delete_part_row_def block_exists_def)
    ultimately have "block_exists d2 b = block_exists d b" for b by simp
    then show "\<forall>b \<in> set blocks. block_exists d2 (blk_id b)" using ex by simp
    show "\<forall>r \<in> set (rows_of_part d2 u n). pb_ordinal r < int 0"
      by (auto simp: rows_of_part_def d2_def d1_def delete_part_row_def)
  qed (simp add: d2_def)
  then obtain d' where blk: "insert_part_blocks u n blocks d2 = Inr d'" by blast
  have nq: "ensure_blocks_not_queued (map blk_id blocks) d = Inr ()"
    using ex by (auto simp: ensure_blocks_not_queued_Inr)
  have "replace_part_tx t u n sz etag blocks d = Inr (?rel, d')"
    using ins blk by (simp add: replace_part_tx_def Let_def up dst nq old d1_def del: set_map list.set_map)
  then show ?thesis by blast
qed

section \<open>\<open>verify_parts\<close>\<close>

lemma verify_parts_loop_Inr_iff:
  assumes "distinct (map part_number parts)" and "set (map part_number parts) \<inter> seen = {}"
    and "\<forall>p \<in> set parts.
          (\<exists>etag. persisted (part_number p) = Some (part_size p, etag)
             \<and> normalize_etag etag = normalize_etag (part_etag p))
          \<and> map ref_key (part_blocks p)
              = (case pblocks (part_number p) of None \<Rightarrow> [] | Some l \<Rightarrow> l)"
  shows "verify_parts_loop persisted pblocks seen parts = Inr ()"
  using assms
proof (induction parts arbitrary: persisted pblocks seen)
  case (Cons p ps)
  let ?n = "part_number p"
  have neq: "part_number q \<noteq> ?n" if "q \<in> set ps" for q
    using Cons.prems(1) that by (metis distinct.simps(2) image_eqI list.simps(9) list.set_map)
  have "verify_parts_loop (persisted(?n := None)) (pblocks(?n := None)) (insert ?n seen) ps = Inr ()"
  proof (rule Cons.IH)
    show "set (map part_number ps) \<inter> insert ?n seen = {}" using Cons.prems(1,2) by auto
    show "\<forall>q \<in> set ps. (\<exists>etag. (persisted(?n := None)) (part_number q) = Some (part_size q, etag)
             \<and> normalize_etag etag = normalize_etag (part_etag q))
          \<and> map ref_key (part_blocks q)
              = (case (pblocks(?n := None)) (part_number q) of None \<Rightarrow> [] | Some l \<Rightarrow> l)"
      using Cons.prems(3) neq by simp
  qed (use Cons.prems(1) in simp)
  moreover obtain etag where "persisted ?n = Some (part_size p, etag)"
    "normalize_etag etag = normalize_etag (part_etag p)" using Cons.prems(3) by auto
  moreover have "blocks_agree (case pblocks ?n of None \<Rightarrow> [] | Some l \<Rightarrow> l) (part_blocks p)"
    using Cons.prems(3) by (simp add: blocks_agree_iff del: blocks_agree.simps)
  moreover have "?n \<notin> seen" using Cons.prems(2) by simp
  ultimately show ?case by (simp del: blocks_agree.simps)
qed simp

text \<open>One part, as \<open>replace_part\<close> wrote it, passes.\<close>

lemma new_row_ordinals:
  "map pb_ordinal (map (new_part_row u n) (enumerate k bs)) = map int [k..<k + length bs]"
  by (induction bs arbitrary: k) (simp_all add: new_part_row_def upt_conv_Cons del: upt_Suc)

lemma sort_new_rows:
  "sort_key pb_ordinal (map (new_part_row u n) (enumerate k bs)) = map (new_part_row u n) (enumerate k bs)"
  by (rule sort_key_sorted_id) (simp only: new_row_ordinals sorted_map of_nat_le_iff sorted_upt)

definition part_stored :: "db \<Rightarrow> part_record \<Rightarrow> bool" where
  "part_stored d p \<longleftrightarrow>
     (\<exists>r \<in> set (multipart_parts d). prow_upload_id r = part_upload_id p \<and> prow_number r = part_number p
        \<and> prow_size r = part_size p \<and> normalize_etag (prow_etag r) = normalize_etag (part_etag p))
     \<and> map ref_key (part_blocks p)
       = map row_key (sort_key pb_ordinal (rows_of_part d (part_upload_id p) (part_number p)))"

lemma filter_ordered_part_blocks:
  "filter (\<lambda>r. pb_number r = n) (ordered_part_blocks d u) = sort_key pb_ordinal (rows_of_part d u n)"
proof -
  have key: "filter (\<lambda>r. pb_number r = n) (sort_key pb_number xs) = filter (\<lambda>r. pb_number r = n) xs" for xs
  proof -
    have "sorted (map pb_number (filter (\<lambda>r. pb_number r = n) xs))" by (induction xs) auto
    then show ?thesis by (simp add: filter_sort sort_key_sorted_id)
  qed
  show ?thesis
    unfolding ordered_part_blocks_def key
    by (simp add: filter_sort rows_of_upload_def rows_of_part_def conj_commute)
qed

lemma verify_parts_total:
  assumes ok: "schema_ok d" and dst: "distinct (map part_number parts)"
    and st: "\<forall>p \<in> set parts. part_upload_id p = u \<and> part_stored d p"
  shows "verify_parts u parts d = Inr ()"
  unfolding verify_parts_def
proof (rule verify_parts_loop_Inr_iff [OF dst], simp, intro ballI conjI)
  fix p assume p: "p \<in> set parts"
  let ?rows = "sort_key prow_number (filter (\<lambda>r. prow_upload_id r = u) (multipart_parts d))"
  let ?kv = "\<lambda>r. (prow_number r, (prow_size r, prow_etag r))"
  from p st obtain r where r: "r \<in> set (multipart_parts d)" "prow_upload_id r = u"
    "prow_number r = part_number p" "prow_size r = part_size p"
    "normalize_etag (prow_etag r) = normalize_etag (part_etag p)" by (auto simp: part_stored_def)
  have "distinct (map prow_number (filter (\<lambda>r. prow_upload_id r = u) (multipart_parts d)))"
    using ok by (intro distinct_filter_fst) (simp add: schema_defs)
  then have "distinct (map fst (rev (map ?kv ?rows)))"
    by (simp add: rev_map [symmetric] comp_def distinct_map inj_on_def)
  moreover have "?kv r \<in> set (rev (map ?kv ?rows))" using r(1,2) by simp
  ultimately have "map_of (rev (map ?kv ?rows)) (prow_number r) = Some (prow_size r, prow_etag r)"
    by (rule map_of_is_SomeI)
  with r show "\<exists>etag. map_of (rev (map ?kv ?rows)) (part_number p) = Some (part_size p, etag)
      \<and> normalize_etag etag = normalize_etag (part_etag p)" by simp
  let ?kvs = "map (\<lambda>r. (pb_number r, (pb_block_id r, pb_byte_offset r, pb_size r))) (ordered_part_blocks d u)"
  have "(case group_entries ?kvs (part_number p) of None \<Rightarrow> [] | Some l \<Rightarrow> l)
      = map row_key (filter (\<lambda>r. pb_number r = part_number p) (ordered_part_blocks d u))"
    by (simp add: group_entries_eq filter_map comp_def row_key_def)
  with p st show "map ref_key (part_blocks p)
      = (case group_entries ?kvs (part_number p) of None \<Rightarrow> [] | Some l \<Rightarrow> l)"
    by (simp add: filter_ordered_part_blocks part_stored_def)
qed

lemma rows_of_part_written:
  "rows_of_part (part_written t u n sz etag blocks rel d) u' n' =
     (if u' = u \<and> n' = n then map (new_part_row u n) (enumerate 0 blocks) else rows_of_part d u' n')"
proof -
  let ?new = "map (new_part_row u n) (enumerate 0 blocks)"
  have mine: "\<forall>r \<in> set ?new. pb_upload_id r = u \<and> pb_number r = n" by (auto simp: new_part_row_def)
  have "rows_of_part (part_written t u n sz etag blocks rel d) u' n'
      = filter (\<lambda>r. pb_upload_id r = u' \<and> pb_number r = n') (filter (\<lambda>r. \<not> (pb_upload_id r = u \<and> pb_number r = n)) (multipart_part_blocks d))
        @ filter (\<lambda>r. pb_upload_id r = u' \<and> pb_number r = n') ?new"
    by (simp add: part_written_def Let_def rows_of_part_def delete_part_row_def)
  moreover have "filter (\<lambda>r. pb_upload_id r = u' \<and> pb_number r = n') ?new = (if u' = u \<and> n' = n then ?new else [])"
    using mine by (auto simp: filter_id_conv filter_empty_conv)
  moreover have "filter (\<lambda>r. pb_upload_id r = u' \<and> pb_number r = n') (filter (\<lambda>r. \<not> (pb_upload_id r = u \<and> pb_number r = n)) (multipart_part_blocks d))
      = (if u' = u \<and> n' = n then [] else rows_of_part d u' n')"
    by (auto simp: rows_of_part_def filter_empty_conv intro!: filter_cong)
  ultimately show ?thesis by simp
qed

lemma part_written_stored:
  "part_stored (part_written t u n sz etag blocks rel d)
     \<lparr>part_upload_id = u, part_number = n, part_size = sz, part_etag = etag, part_blocks = blocks\<rparr>"
proof -
  have "map ref_key blocks = map row_key (map (new_part_row u n) (enumerate k blocks))" for k
    by (induction blocks arbitrary: k) (simp_all add: ref_key_def row_key_def new_part_row_def)
  then show ?thesis
    by (auto simp: part_stored_def rows_of_part_written sort_new_rows simp del: map_map)
      (simp add: part_written_def Let_def)
qed

section \<open>Conditions\<close>

lemma lookup_row:
  assumes "db_ok d" and r: "r \<in> set (objects d)"
  shows "\<exists>ob. lookup d (orow_bucket r, orow_key r) = Some ob \<and> obj_size ob = orow_size r
    \<and> obj_etag ob = orow_etag r \<and> obj_modified_at ob = orow_modified_at r"
proof -
  have "r \<in> set (object_rows d (orow_bucket r) (orow_key r))" using r by (simp add: object_rows_def)
  then obtain q qs where q: "object_rows d (orow_bucket r) (orow_key r) = q # qs"
    by (cases "object_rows d (orow_bucket r) (orow_key r)") auto
  with object_rows_single [OF _ q] assms have "object_rows d (orow_bucket r) (orow_key r) = [r]"
    using \<open>r \<in> set (object_rows d (orow_bucket r) (orow_key r))\<close> by (simp add: db_ok_def)
  moreover obtain ob where "get_object (orow_bucket r) (orow_key r) d = Inr ob"
    using get_object_total [OF assms(1)] by blast
  ultimately show ?thesis
    by (auto simp: lookup_def get_object_def object_from_row_def split: sum.splits)
qed

lemma old_etag:
  assumes "db_ok d"
  shows "map_option orow_etag (case object_rows d b k of [] \<Rightarrow> None | r # _ \<Rightarrow> Some r)
    = map_option obj_etag (lookup d (b, k))"
proof (cases "object_rows d b k")
  case Nil
  then show ?thesis by (simp add: lookup_def get_object_def)
next
  case (Cons r rs)
  have s: "schema_ok d" using assms(1) by (simp add: db_ok_def)
  note one = object_rows_single [OF s Cons]
  from lookup_row [OF assms(1) one(2)] Cons one show ?thesis by auto
qed

lemma remove_existing_allowed:
  assumes "db_ok d" and "remove_existing_object t b k c d = Inr x"
  shows "condition_allows c (map_option obj_etag (lookup d (b, k)))"
  using assms(2) old_etag [OF assms(1), of b k]
  by (auto simp: remove_existing_object_def Let_def split: if_splits)

lemma remove_existing_total:
  assumes "db_ok d"
  shows "if condition_allows c (map_option obj_etag (lookup d (b, k)))
    then \<exists>rm d'. remove_existing_object t b k c d = Inr (rm, d') \<and> (rm = None \<longleftrightarrow> lookup d (b, k) = None)
    else remove_existing_object t b k c d = Inl PreconditionFailed"
proof (cases "object_rows d b k")
  case Nil
  then show ?thesis using old_etag [OF assms, of b k] by (simp add: remove_existing_object_def)
next
  case (Cons r rs)
  have s: "schema_ok d" using assms by (simp add: db_ok_def)
  obtain bs where "load_object_blocks (orow_id r) d = Inr bs" using object_block_ref_total [OF s] by blast
  then show ?thesis
    using Cons old_etag [OF assms, of b k]
    by (cases "lookup d (b, k)") (auto simp: remove_existing_object_def Let_def)
qed

section \<open>\<open>commit_upload\<close>\<close>

lemma attach_blocks_total:
  assumes "oid \<in> set (map orow_id (objects d))" and "\<forall>b \<in> set bs. block_exists d (blk_id b)"
    and "\<forall>r \<in> set (rows_of_object d oid). ob_ordinal r < n"
  shows "\<exists>d'. attach_blocks oid n off bs d = Inr d'"
  using assms
proof (induction bs arbitrary: n off d)
  case (Cons b bs)
  let ?r = "\<lparr>ob_object_id = oid, ob_ordinal = n, ob_block_id = blk_id b, ob_byte_offset = off,
      ob_size = blk_size b\<rparr>"
  have "\<not> list_ex (\<lambda>x. ob_object_id x = oid \<and> ob_ordinal x = n) (object_blocks d)"
    using Cons.prems(3) by (auto simp: list_ex_iff rows_of_object_def)
  then obtain d1 where d1: "attach_block oid n off b d = Inr d1"
    using Cons.prems(1,2) by (simp add: attach_block_def insert_object_block_def)
  note fr = attach_block_frame [OF d1]
  have "\<exists>d'. attach_blocks oid (n + 1) (off + blk_size b) bs d1 = Inr d'"
  proof (rule Cons.IH)
    show "oid \<in> set (map orow_id (objects d1))" using Cons.prems(1) fr by simp
    show "\<forall>x \<in> set bs. block_exists d1 (blk_id x)"
      using Cons.prems(2) fr by (simp only: block_exists_def list.set) blast
    show "\<forall>r \<in> set (rows_of_object d1 oid). ob_ordinal r < n + 1"
      using Cons.prems(3) fr by (auto simp: rows_of_object_def)
  qed
  with d1 show ?case by simp
qed simp

lemma attach_blocks_schema:
  "attach_blocks oid n off bs d = Inr d' \<Longrightarrow> schema_ok d \<Longrightarrow> schema_ok d'"
  by (induction bs arbitrary: n off d) (auto dest: attach_block_schema split: sum.splits)

lemma part_stored_block:
  assumes "part_stored d p" and "b \<in> set (part_blocks p)"
  shows "in_part d (blk_id b)"
proof -
  have "fst (ref_key b) \<in> set (map fst (map ref_key (part_blocks p)))" using assms(2) by simp
  also have "map ref_key (part_blocks p)
      = map row_key (sort_key pb_ordinal (rows_of_part d (part_upload_id p) (part_number p)))"
    using assms(1) by (simp add: part_stored_def)
  finally show ?thesis by (auto simp: ref_key_def row_key_def in_part_def rows_of_part_def)
qed

lemma in_part_exists: "db_ok d \<Longrightarrow> in_part d b \<Longrightarrow> block_exists d b"
  by (auto simp: db_ok_def schema_defs in_part_def)

lemma in_part_not_queued:
  assumes "db_ok d" and "in_part d b"
  shows "\<not> queued d b"
proof -
  obtain r where r: "r \<in> set (telegram_blocks d)" "trow_id r = b"
    using in_part_exists [OF assms] by (auto simp: block_exists_def)
  have "balanced (\<lambda>_. 0) d" using assms(1) by (simp add: db_ok_def)
  from balancedD [OF this r(1)] show ?thesis
    using assms(2) refs_pos_iff [of d b] r(2) by (auto simp: row_balanced_def)
qed

lemma commit_upload_tx_total:
  assumes ok: "db_ok d" and up: "urow_upload_id up = u"
    and dst: "distinct (map part_number parts)"
    and st: "\<forall>p \<in> set parts. part_upload_id p = u \<and> part_stored d p"
    and allowed: "condition_allows c (map_option obj_etag (lookup d (urow_bucket up, urow_key up)))"
  shows "\<exists>old d'. commit_upload_tx t up sz etag parts c d = Inr (old, d')"
proof -
  let ?row = "\<lparr>orow_id = 0, orow_bucket = urow_bucket up,
         orow_key = urow_key up, orow_size = sz, orow_etag = etag,
         orow_metadata = urow_metadata up, orow_created_at = urow_created_at up,
         orow_modified_at = t\<rparr>"
  have s: "schema_ok d" using ok by (simp add: db_ok_def)
  have blk: "in_part d (blk_id b)" if "b \<in> set (all_blocks parts)" for b
    using that st part_stored_block by (auto simp: all_blocks_def)
  have ver: "verify_parts (urow_upload_id up) parts d = Inr ()"
    unfolding up using s dst st by (rule verify_parts_total)
  have nq: "ensure_blocks_not_queued (map blk_id (all_blocks parts)) d = Inr ()"
    using blk in_part_not_queued [OF ok] by (auto simp: ensure_blocks_not_queued_Inr)
  obtain rm d1 where rm: "remove_existing_object t (urow_bucket up) (urow_key up) c d = Inr (rm, d1)"
    using remove_existing_total [OF ok, of c "urow_bucket up" "urow_key up" t] allowed by auto
  have s1: "schema_ok d1" using remove_existing_object_ok [OF ok rm] by (simp add: db_ok_def)
  obtain i where i: "removed_from d i d1" using remove_existing_object_removed(1) [OF s rm] by blast
  note gone = remove_existing_lookup(1) [OF s rm]
  have free: "object_rows d1 (urow_bucket up) (urow_key up) = []"
  proof (rule ccontr)
    assume "object_rows d1 (urow_bucket up) (urow_key up) \<noteq> []"
    then obtain r where "r \<in> set (objects d1)" "orow_bucket r = urow_bucket up" "orow_key r = urow_key up"
      by (auto simp: object_rows_def filter_empty_conv)
    with lookup_row [OF remove_existing_object_ok [OF ok rm], of r] gone show False by auto
  qed
  let ?oid = "next_rowid (map orow_id (objects d1))"
  let ?d2 = "d1\<lparr>objects := objects d1 @ [?row\<lparr>orow_id := ?oid\<rparr>]\<rparr>"
  have ins: "insert_object ?row d1 = Inr (?oid, ?d2)" using free by (simp add: insert_object_def Let_def)
  have "\<exists>d3. attach_blocks ?oid 0 0 (all_blocks parts) ?d2 = Inr d3"
  proof (rule attach_blocks_total)
    show "\<forall>b \<in> set (all_blocks parts). block_exists ?d2 (blk_id b)"
    proof
      fix b assume "b \<in> set (all_blocks parts)"
      then have "in_part d1 (blk_id b)" using blk i by (simp add: in_part_def removed_from_def)
      then have "block_exists d1 (blk_id b)" by (rule in_part_exists [OF remove_existing_object_ok [OF ok rm]])
      then show "block_exists ?d2 (blk_id b)" by (simp add: block_exists_def)
    qed
    show "\<forall>r \<in> set (rows_of_object ?d2 ?oid). ob_ordinal r < 0"
      using rows_of_object_fresh [OF s1, of ?oid] by (simp add: rows_of_object_def)
  qed simp
  then obtain d3 where att: "attach_blocks ?oid 0 0 (all_blocks parts) ?d2 = Inr d3" by blast
  have s3: "schema_ok d3"
    using att schema_ok_insert_object [OF s1 ins] by (rule attach_blocks_schema)
  obtain unused where uns: "traverse part_block_ref (filter (\<lambda>x. pb_number (snd x) \<notin> set (map part_number parts))
           (join_blocks d3 pb_block_id (ordered_part_blocks d3 (urow_upload_id up)))) = Inr unused"
    using traverse_refs_total [OF s3, of part_block_ref pb_ordinal pb_byte_offset pb_size]
      part_block_ref_eq filter_is_subset by metis
  show ?thesis
    using ver nq rm ins att uns unfolding commit_upload_tx_def by (simp del: set_map list.set_map)
qed

section \<open>Aborting and expiring\<close>

lemma abort_upload_effect:
  assumes "db_ok d" and "u \<in> set (map urow_upload_id (multipart_uploads d))"
  shows "\<exists>d'. abort_upload t u d = (Inr True, d')
    \<and> multipart_uploads d' = filter (\<lambda>r. urow_upload_id r \<noteq> u) (multipart_uploads d)"
proof -
  have s: "schema_ok d" using assms(1) by (simp add: db_ok_def)
  from assms(2) obtain r where r: "r \<in> set (multipart_uploads d)" "urow_upload_id r = u" by auto
  have "upload_rows d u = [r]" using upload_row_single [OF s r(1)] r(2) by simp
  moreover obtain bs where "traverse part_block_ref (join_blocks d pb_block_id (ordered_part_blocks d u)) = Inr bs"
    using traverse_refs_total [OF s, of part_block_ref pb_ordinal pb_byte_offset pb_size] part_block_ref_eq
    by blast
  ultimately show ?thesis
    by (simp add: abort_upload_def abort_upload_with_blocks_def transact_def delete_upload_row_def)
qed

lemma expire_loop_effect:
  assumes "db_ok d" and "distinct us" and "set us \<subseteq> set (map urow_upload_id (multipart_uploads d))"
  shows "fst (expire_loop t us n d) = Inr (n + length us)
    \<and> multipart_uploads (snd (expire_loop t us n d))
        = filter (\<lambda>r. urow_upload_id r \<notin> set us) (multipart_uploads d)"
  using assms
proof (induction us arbitrary: n d)
  case (Cons u us)
  obtain d1 where d1: "abort_upload t u d = (Inr True, d1)"
    "multipart_uploads d1 = filter (\<lambda>r. urow_upload_id r \<noteq> u) (multipart_uploads d)"
    using abort_upload_effect [OF Cons.prems(1), of u t] Cons.prems(3) by auto
  have "db_ok d1" using db_ok_abort_upload [OF Cons.prems(1), of t u] d1(1) by simp
  moreover have "set us \<subseteq> set (map urow_upload_id (multipart_uploads d1))"
  proof -
    have "set (map urow_upload_id (multipart_uploads d1)) = set (map urow_upload_id (multipart_uploads d)) - {u}"
      by (auto simp: d1(2))
    with Cons.prems(2,3) show ?thesis by auto
  qed
  ultimately have IH: "fst (expire_loop t us (n + 1) d1) = Inr (n + 1 + length us)"
    "multipart_uploads (snd (expire_loop t us (n + 1) d1))
      = filter (\<lambda>r. urow_upload_id r \<notin> set us) (multipart_uploads d1)"
    using Cons.IH [of d1 "n + 1"] Cons.prems(2) by simp_all
  have "filter (\<lambda>r. urow_upload_id r \<notin> set us) (multipart_uploads d1)
      = filter (\<lambda>r. urow_upload_id r \<notin> set (u # us)) (multipart_uploads d)"
    by (simp add: d1(2) conj_commute)
  with IH d1(1) show ?case by simp
qed simp

lemma commit_upload_total:
  assumes "db_ok d" and "get_upload u d = Some up" and "validate_parts_layout parts = Inr sz"
    and "distinct (map part_number parts)"
    and "\<forall>p \<in> set parts. part_upload_id p = u \<and> part_stored d p"
    and "condition_allows c (map_option obj_etag (lookup d (up_bucket up, up_key up)))"
  shows "\<exists>ob released d'. commit_upload t u sz etag parts c d = (Inr (Some (ob, released)), d')"
proof -
  obtain r d' where c: "commit_upload t u sz etag parts c d = (r, d')" by (cases "commit_upload t u sz etag parts c d") auto
  have "upload_rows d u \<noteq> []" using assms(2) by (auto simp: get_upload_def)
  with one_upload [of d u] assms(1) obtain ur where one: "upload_rows d u = [ur]" and ur: "urow_upload_id ur = u"
    by (auto simp: db_ok_def)
  have "up = upload_from_row ur" using assms(2) by (simp add: get_upload_def one)
  then have "up_bucket up = urow_bucket ur" "up_key up = urow_key ur" by (simp_all add: upload_from_row_def)
  with commit_upload_tx_total [OF assms(1) ur assms(4,5), of c t sz etag] assms(6)
  obtain old d1 where tx: "commit_upload_tx t ur sz etag parts c d = Inr (old, d1)" by auto
  from commit_upload_tx_result [OF assms(1) one assms(3) tx] obtain ob where
    "get_object (urow_bucket ur) (urow_key ur) d1 = Inr (Some ob)" by blast
  with tx one assms(3) show ?thesis by (simp add: commit_upload_def read_back_def transact_def)
qed


end
