(* ===== verification/Db_Listing.thy ===== *)
theory Db_Listing
  imports Db_Progress "HOL-Library.Multiset"
begin

text \<open>
  What the query of \<open>Db::list_objects\<close> ranges over: the keys of a bucket with a prefix above a
  lower bound, as a sorted list (\<open>listed_keys\<close>), and the entries it returns for them.
\<close>

section \<open>Listing\<close>

text \<open>The keys a listing ranges over, in order.\<close>

definition listed_keys :: "db \<Rightarrow> str \<Rightarrow> str \<Rightarrow> str \<Rightarrow> bool \<Rightarrow> str list" where
  "listed_keys d bucket pre lower incl =
     sort (filter (\<lambda>k. prefix pre k \<and> (if incl then lower \<le> k else lower < k))
       (map orow_key (filter (\<lambda>r. orow_bucket r = bucket) (objects d))))"

definition keys_valid :: "db \<Rightarrow> bool" where
  "keys_valid d \<longleftrightarrow> list_all (\<lambda>r :: object_row. valid_text (orow_key r)) (objects d)"

lemma in_listing_iff:
  assumes "valid_text pre" and "valid_text k"
  shows "(if (if lower < pre then True else incl) then (if lower < pre then pre else lower) \<le> k
          else (if lower < pre then pre else lower) < k)
        \<and> (case (if pre = [] then None else key_successor pre) of None \<Rightarrow> True | Some u \<Rightarrow> k < u)
     \<longleftrightarrow> prefix pre k \<and> (if incl then lower \<le> k else lower < k)"
proof (cases "key_successor pre")
  case None
  with key_successor_None_range [OF None assms] prefix_imp_le [of pre k] show ?thesis
    by (auto dest: order.trans order.strict_trans1 simp: not_less)
next
  case (Some u)
  have "pre = [] \<Longrightarrow> False" using Some by (simp add: key_successor_def)
  with key_successor_range [OF Some assms] Some prefix_imp_le [of pre k] show ?thesis
    by (auto dest: order.trans order.strict_trans1 simp: not_less)
qed

lemma list_objects_keys:
  assumes "keys_valid d" and "valid_text pre"
  shows "map lst_key (list_objects b pre lower incl n d) = take n (listed_keys d b pre lower incl)"
proof -
  define P where "P k \<longleftrightarrow> (if (if lower < pre then True else incl) then (if lower < pre then pre else lower) \<le> k
          else (if lower < pre then pre else lower) < k)
        \<and> (case (if pre = [] then None else key_successor pre) of None \<Rightarrow> True | Some u \<Rightarrow> k < u)" for k
  have "map lst_key (list_objects b pre lower incl n d)
      = take n (map orow_key (sort_key orow_key
          (filter (\<lambda>r. orow_bucket r = b \<and> P (orow_key r)) (objects d))))"
    by (simp add: list_objects_def P_def Let_def take_map comp_def if_distrib cong: if_cong split: prod.splits)
  also have "filter (\<lambda>r. orow_bucket r = b \<and> P (orow_key r)) (objects d)
      = filter (\<lambda>r. prefix pre (orow_key r) \<and> (if incl then lower \<le> orow_key r else lower < orow_key r))
          (filter (\<lambda>r. orow_bucket r = b) (objects d))"
  proof -
    have "P (orow_key r) \<longleftrightarrow> prefix pre (orow_key r) \<and> (if incl then lower \<le> orow_key r else lower < orow_key r)"
      if "r \<in> set (objects d)" for r :: object_row
      unfolding P_def using that assms by (intro in_listing_iff) (auto simp: keys_valid_def list_all_iff)
    then show ?thesis by (auto intro!: filter_cong)
  qed
  finally show ?thesis
    by (simp add: listed_keys_def map_sort_key_inj filter_map comp_def)
qed


lemma object_keys_distinct:
  assumes "db_ok d"
  shows "distinct (map orow_key (filter (\<lambda>r. orow_bucket r = b) (objects d)))"
  using assms by (intro distinct_filter_fst) (simp add: db_ok_def schema_defs)

lemma lookup_exists_iff:
  assumes "db_ok d"
  shows "lookup d (b, k) \<noteq> None \<longleftrightarrow> (\<exists>r \<in> set (objects d). orow_bucket r = b \<and> orow_key r = k)"
proof
  assume "lookup d (b, k) \<noteq> None"
  then have "object_rows d b k \<noteq> []" by (auto simp: lookup_def get_object_def)
  then show "\<exists>r \<in> set (objects d). orow_bucket r = b \<and> orow_key r = k"
    by (auto simp: object_rows_def filter_empty_conv)
next
  assume "\<exists>r \<in> set (objects d). orow_bucket r = b \<and> orow_key r = k"
  then obtain r where "r \<in> set (objects d)" "orow_bucket r = b" "orow_key r = k" by blast
  with lookup_row [OF assms, of r] show "lookup d (b, k) \<noteq> None" by auto
qed

lemma listed_keys_set:
  assumes "db_ok d"
  shows "listed_keys d b pre lower incl
    = sorted_list_of_set {k. lookup d (b, k) \<noteq> None \<and> prefix pre k \<and> (if incl then lower \<le> k else lower < k)}"
proof -
  let ?ks = "filter (\<lambda>k. prefix pre k \<and> (if incl then lower \<le> k else lower < k))
       (map orow_key (filter (\<lambda>r. orow_bucket r = b) (objects d)))"
  have "set ?ks = {k. lookup d (b, k) \<noteq> None \<and> prefix pre k \<and> (if incl then lower \<le> k else lower < k)}"
    by (subst lookup_exists_iff [OF assms]) auto
  moreover have "distinct ?ks" by (rule distinct_filter) (rule object_keys_distinct [OF assms])
  then have "sorted_list_of_set (set ?ks) = sort ?ks"
    by (simp only: sorted_list_of_set_sort_remdups distinct_remdups_id)
  ultimately show ?thesis unfolding listed_keys_def by simp
qed

text \<open>An entry of a listing describes the stored object, so equal keys mean equal entries.\<close>

lemma listed_entry:
  assumes "db_ok d" and l: "l \<in> set (list_objects b pre lower incl n d)"
  shows "\<exists>ob. lookup d (b, lst_key l) = Some ob \<and> obj_size ob = lst_size l
         \<and> obj_etag ob = lst_etag l \<and> obj_modified_at ob = lst_modified_at l"
proof -
  from l obtain r where "r \<in> set (objects d)" "orow_bucket r = b"
    "l = \<lparr>lst_key = orow_key r, lst_size = orow_size r, lst_etag = orow_etag r, lst_modified_at = orow_modified_at r\<rparr>"
    by (auto simp: list_objects_def Let_def dest!: in_set_takeD split: prod.splits)
  with lookup_row [OF assms(1), of r] show ?thesis by auto
qed

lemma listed_entry_eq:
  assumes ok: "db_ok d" and l: "l \<in> set (list_objects b pre lower incl n d)"
    and l': "l' \<in> set (list_objects b pre' lower' incl' n' d)" and "lst_key l = lst_key l'"
  shows "(l :: listing_record) = l'"
  using listed_entry [OF ok l] listed_entry [OF ok l'] assms(4) by (cases l, cases l') auto

lemma sorted_after_page:
  assumes "sorted xs" and "distinct xs" and "length (take n xs) = n" and "0 < n"
  shows "filter (\<lambda>x. last (take n xs) < x) xs = drop n xs"
proof -
  let ?l = "last (take n xs)"
  have split: "xs = take n xs @ drop n xs" by simp
  have ne: "take n xs \<noteq> []" using assms(3,4) by auto
  have "\<not> ?l < x" if "x \<in> set (take n xs)" for x
  proof -
    have "sorted (take n xs)" using assms(1) by (simp add: sorted_wrt_take)
    then have "sorted (butlast (take n xs) @ [?l])" using ne by simp
    then have "\<forall>x \<in> set (butlast (take n xs)). x \<le> ?l" by (simp only: sorted_append) auto
    moreover have "set (take n xs) = set (butlast (take n xs) @ [?l])" using ne by simp
    ultimately show ?thesis using that by auto
  qed
  moreover have "?l < x" if x: "x \<in> set (drop n xs)" for x
  proof -
    have l: "?l \<in> set (take n xs)" using ne by simp
    from assms(1) split have "sorted (take n xs @ drop n xs)" by simp
    with l x have "?l \<le> x" by (auto simp only: sorted_append)
    moreover have "?l \<noteq> x" using l x assms(2) set_take_disj_set_drop_if_distinct [of xs n n] by auto
    ultimately show ?thesis by simp
  qed
  ultimately have "filter (\<lambda>x. ?l < x) (take n xs) = [] \<and> filter (\<lambda>x. ?l < x) (drop n xs) = drop n xs"
    by (simp add: filter_empty_conv filter_id_conv)
  then have "filter (\<lambda>x. ?l < x) (take n xs @ drop n xs) = drop n xs" by (simp only: filter_append append_Nil)
  then show ?thesis by simp
qed

lemma listed_keys_next:
  fixes n :: nat and d :: db and b pre lower :: str and incl :: bool
  defines "ks \<equiv> listed_keys d b pre lower incl"
  assumes "db_ok d" and "length (take n ks) = n" and "0 < n"
  shows "listed_keys d b pre (last (take n ks)) False = drop n ks"
proof -
  let ?l = "last (take n ks)"
  let ?K = "map orow_key (filter (\<lambda>r. orow_bucket r = b) (objects d))"
  have "take n ks \<noteq> []" using assms(3,4) by auto
  then have "?l \<in> set ks" using last_in_set in_set_takeD by fast
  then have l: "prefix pre ?l" "if incl then lower \<le> ?l else lower < ?l" by (auto simp: ks_def listed_keys_def)
  have "listed_keys d b pre ?l False = sort (filter (\<lambda>x. ?l < x)
      (filter (\<lambda>k. prefix pre k \<and> (if incl then lower \<le> k else lower < k)) ?K))"
    unfolding listed_keys_def filter_filter
    using l(2) by (intro arg_cong [of _ _ sort] filter_cong) (auto split: if_splits)
  also have "\<dots> = filter (\<lambda>x. ?l < x) ks" by (simp only: ks_def listed_keys_def filter_sort)
  also have "\<dots> = drop n ks"
    using assms(3,4) object_keys_distinct [OF assms(2), of b]
    by (intro sorted_after_page) (simp_all add: ks_def listed_keys_def)
  finally show ?thesis .
qed

end
