(* ===== verification/Spec_Objects.thy ===== *)
theory Spec_Objects
  imports Db_Listing Examples
begin

text \<open>
  The properties of the object store: what the writing operations do to it, and what the
  listing query returns.
\<close>

section \<open>Listing\<close>

text \<open>
  \<open>list_objects\<close> returns the first \<open>limit\<close> keys of the bucket, in the byte order of their
  encodings, that start with the prefix and lie above the lower bound, and for each the size,
  ETag and time of the stored object. The half-open range up to \<open>key_successor\<close> loses no key
  and admits none without the prefix.
\<close>

theorem list_objects_correct:
  assumes "db_ok d" and "keys_valid d" and "valid_text pre"
  shows "map lst_key (list_objects b pre lower incl n d) = take n (sorted_list_of_set
      {k. lookup d (b, k) \<noteq> None \<and> prefix pre k \<and> (if incl then lower \<le> k else lower < k)})
    \<and> list_all (\<lambda>l. \<exists>ob. lookup d (b, lst_key l) = Some ob \<and> obj_size ob = lst_size l
         \<and> obj_etag ob = lst_etag l \<and> obj_modified_at ob = lst_modified_at l)
        (list_objects b pre lower incl n d)"
  using listed_entry [OF assms(1)] listed_keys_set [OF assms(1)] assms(2,3)
  by (auto simp: list_objects_keys list_all_iff)

lemma list_objects_correct_witness:
  "map lst_key (list_objects ex_bucket [] [] True 1 ex_db5) = take 1 (sorted_list_of_set
      {k. lookup ex_db5 (ex_bucket, k) \<noteq> None \<and> prefix [] k \<and> [] \<le> k})"
  using list_objects_correct [OF ex_ok(5), of "[]" ex_bucket "[]" True 1]
  by (simp add: keys_valid_def valid_text_def scalar_def ex_defs)

text \<open>
  Pages fit together. After a full page of \<open>n\<close> keys, listing on from its last key,
  exclusive, returns what one listing of \<open>n + m\<close> keys returns after the first \<open>n\<close>.
\<close>

theorem list_objects_pages:
  assumes "db_ok d" and "keys_valid d" and "valid_text pre"
    and "length (list_objects b pre lower incl n d) = n" and "0 < n"
  shows "list_objects b pre lower incl n d
      @ list_objects b pre (lst_key (last (list_objects b pre lower incl n d))) False m d
    = list_objects b pre lower incl (n + m) d"
proof -
  let ?ks = "listed_keys d b pre lower incl" and ?p = "list_objects b pre lower incl n d"
  note keys = list_objects_keys [OF assms(2,3)]
  have len: "length (take n ?ks) = n" using assms(4) keys [of b lower incl n] by (metis length_map)
  have "?p \<noteq> []" using assms(4,5) by auto
  then have last: "lst_key (last ?p) = last (take n ?ks)" by (simp add: last_map flip: keys)
  have "map lst_key (?p @ list_objects b pre (lst_key (last ?p)) False m d) = take n ?ks @ take m (drop n ?ks)"
    using listed_keys_next [OF assms(1) len assms(5)] by (simp add: keys last)
  also have "\<dots> = map lst_key (list_objects b pre lower incl (n + m) d)" by (simp add: keys take_add)
  finally show ?thesis
    by (rule map_inj_on) (auto intro!: inj_onI dest: listed_entry_eq [OF assms(1)])
qed

lemma list_objects_pages_witness:
  "list_objects ex_bucket [] [] True 1 ex_db5
      @ list_objects ex_bucket [] (lst_key (last (list_objects ex_bucket [] [] True 1 ex_db5))) False 7 ex_db5
    = list_objects ex_bucket [] [] True (1 + 7) ex_db5"
  by (rule list_objects_pages [OF ex_ok(5)])
    (simp_all add: list_objects_def keys_valid_def valid_text_def scalar_def ex_defs)

section \<open>Writing objects\<close>

lemma commit_upload_tx_allowed:
  assumes "db_ok d" and "commit_upload_tx t up sz etag parts c d = Inr x"
  shows "condition_allows c (map_option obj_etag (lookup d (urow_bucket up, urow_key up)))"
  using assms remove_existing_allowed [OF assms(1)]
  by (cases x) (auto simp: commit_upload_tx_def bind_res_Inr_iff)

lemma copy_object_tx_allowed:
  assumes "db_ok d" and "copy_object_tx t src b k m c d = Inr x"
  shows "condition_allows c (map_option obj_etag (lookup d (b, k)))"
  using assms remove_existing_allowed [OF assms(1)]
  by (cases x) (auto simp: copy_object_tx_def bind_res_Inr_iff split: if_splits)

text \<open>
  C15: \<open>commit_upload\<close> is all or nothing. With an error, or when the upload is gone, the database
  is unchanged. Otherwise the condition held for the object it replaces, exactly the upload's
  key changes, to an object with the given size and ETag and the upload's metadata whose
  blocks are the parts' blocks in order, laid out without gaps, and the upload is gone.
\<close>

theorem commit_upload_outcome:
  assumes "db_ok d" and "commit_upload t u sz etag parts c d = (r, d')"
  shows "case r of
      Inl e \<Rightarrow> d' = d
    | Inr None \<Rightarrow> d' = d \<and> get_upload u d = None
    | Inr (Some (ob, released)) \<Rightarrow>
        \<exists>up. get_upload u d = Some up \<and> get_upload u d' = None
          \<and> condition_allows c (map_option obj_etag (lookup d (up_bucket up, up_key up)))
          \<and> lookup d' = (lookup d)((up_bucket up, up_key up) \<mapsto> ob)
          \<and> obj_size ob = sz \<and> obj_etag ob = etag \<and> obj_metadata ob = up_metadata up
          \<and> map blk_id (obj_blocks ob) = map blk_id (all_blocks parts)
          \<and> map blk_size (obj_blocks ob) = map blk_size (all_blocks parts)
          \<and> contiguous 0 (obj_blocks ob) \<and> total_size (obj_blocks ob) = sz"
  using commit_upload_cases [OF assms]
proof (elim disjE exE conjE)
  fix up ob old
  assume r: "r = Inr (Some (ob, old))" and up: "upload_rows d u = [up]"
    and lay: "validate_parts_layout parts = Inr sz"
    and tx: "commit_upload_tx t up sz etag parts c d = Inr (old, d')"
    and get: "get_object (urow_bucket up) (urow_key up) d' = Inr (Some ob)"
  have "db_ok d'" using db_ok_commit_upload [OF assms(1), of t u sz etag parts c] assms(2) by simp
  from get_object_source_valid [OF this get]
  have "contiguous 0 (obj_blocks ob) \<and> total_size (obj_blocks ob) = obj_size ob" by (simp add: source_valid_def)
  moreover have "get_upload u d = Some (upload_from_row up)" by (simp add: get_upload_def up)
  moreover have "up_bucket (upload_from_row up) = urow_bucket up" "up_key (upload_from_row up) = urow_key up"
    "up_metadata (upload_from_row up) = urow_metadata up" by (simp_all add: upload_from_row_def)
  moreover note commit_upload_tx_result [OF assms(1) up lay tx] commit_upload_tx_allowed [OF assms(1) tx]
  ultimately show ?thesis using r get by auto
qed auto

lemma commit_upload_outcome_witness:
  "lookup ex_db5 = (lookup ex_db4)((ex_bucket, ex_key) \<mapsto> ex_object) \<and> get_upload ex_upload ex_db5 = None"
  using commit_upload_outcome [OF ex_ok(4) ex_step5]
  by (auto simp: get_upload_def ex_upload_rows upload_from_row_def ex_urow_simps)

text \<open>
  C26: \<open>copy_object\<close> is all or nothing. With an error the database is unchanged. Otherwise the
  condition held for the object it replaces, exactly the target's key changes, and the copy has
  the source's size, ETag and blocks and the given metadata: both objects read the same
  messages at the same offsets, also when an object is copied onto itself.
\<close>

theorem copy_object_outcome:
  assumes "db_ok d" and "get_object b0 k0 d = Inr (Some source)" and "bucket_named d b"
    and "copy_object t source b k m c d = (r, d')"
  shows "case r of
      Inl e \<Rightarrow> d' = d
    | Inr (ob, released) \<Rightarrow>
        condition_allows c (map_option obj_etag (lookup d (b, k)))
        \<and> lookup d' = (lookup d)((b, k) \<mapsto> ob)
        \<and> obj_size ob = obj_size source \<and> obj_etag ob = obj_etag source \<and> obj_metadata ob = m
        \<and> obj_blocks ob = obj_blocks source"
proof -
  have src: "source_valid d source" using assms(1,2) by (rule get_object_source_valid)
  show ?thesis
    using copy_object_cases [OF assms(1) src assms(3,4)]
  proof (elim disjE exE conjE)
    fix ob old
    assume r: "r = Inr (ob, old)" and tx: "copy_object_tx t source b k m c d = Inr (old, d')"
      and get: "get_object b k d' = Inr (Some ob)"
    have ok': "db_ok d'" using assms(1) src assms(3) tx by (rule db_ok_copy_object_tx)
    from copy_object_tx_result [OF assms(1) src assms(3) tx] get have
      f: "lookup d' = (lookup d)((b, k) \<mapsto> ob)" "obj_size ob = obj_size source" "obj_etag ob = obj_etag source"
        "obj_metadata ob = m" "layout_of (obj_blocks ob) = layout_of (obj_blocks source)"
        "\<forall>x. block_view d' x = block_view d x" by auto
    have "obj_blocks ob = obj_blocks source"
    proof (rule reads_layout_unique [of d'])
      show "\<forall>x \<in> set (obj_blocks source). reads d' x"
        using get_object_reads [OF assms(2)] f(6) reads_view by blast
      show "\<forall>x \<in> set (obj_blocks ob). reads d' x" using get_object_reads [OF get] by blast
    qed (use ok' f(5) in \<open>simp_all add: db_ok_def\<close>)
    with f r copy_object_tx_allowed [OF assms(1) tx] show ?thesis by simp
  qed auto
qed

lemma copy_object_outcome_witness:
  "lookup ex_db7 = (lookup ex_db5)((ex_bucket, ex_key2) \<mapsto> ex_copy) \<and> obj_blocks ex_copy = obj_blocks ex_object"
  using copy_object_outcome [OF ex_ok(5) ex_get _ ex_step7] by (simp add: bucket_named_def ex_defs)

text \<open>
  C27: \<open>delete_object\<close> is all or nothing: an error leaves the database unchanged, a success
  removes exactly this key and its condition held for what was there; it fails when the
  condition does not hold, and only then.
\<close>

theorem delete_object_outcome:
  assumes "db_ok d" and "delete_object t b k c d = (r, d')"
  shows "if condition_allows c (map_option obj_etag (lookup d (b, k)))
    then (\<exists>x. r = Inr x \<and> (x = None \<longleftrightarrow> lookup d (b, k) = None)) \<and> lookup d' = (lookup d)((b, k) := None)
    else r = Inl PreconditionFailed \<and> d' = d"
proof -
  have l: "lookup d' = (lookup d)((b, k) := None)" if "r = Inr x" for x
    using delete_object_lookup [OF assms] that by simp
  show ?thesis
    using remove_existing_total [OF assms(1), of c b k t] assms(2) l
    by (auto simp: delete_object_def transact_def split: if_splits option.splits)
qed

lemma delete_object_outcome_witness: "lookup ex_db6 = (lookup ex_db5)((ex_bucket, ex_key) := None)"
  using delete_object_outcome [OF ex_ok(5) ex_step6] by (auto simp: default_condition_def condition_allows_def split: if_splits)

section \<open>Parts and commits\<close>

text \<open>
  \<open>replace_part\<close> is all or nothing. An error leaves the database unchanged; a success stores
  exactly the part (size, ETag, blocks in order), touches no other part and no object, and
  returns the blocks of the previous upload of the part that the new one does not keep. It
  succeeds whenever the upload exists and the blocks are distinct, exist and are not queued
  for collection.
\<close>

theorem replace_part_outcome:
  assumes "db_ok d" and "replace_part t u n sz etag blocks d = (r, d')"
  shows "(case r of
      Inl e \<Rightarrow> d' = d
    | Inr released \<Rightarrow>
        part_stored d' \<lparr>part_upload_id = u, part_number = n, part_size = sz, part_etag = etag, part_blocks = blocks\<rparr>
        \<and> (\<forall>u' n'. (u', n') \<noteq> (u, n) \<longrightarrow> rows_of_part d' u' n' = rows_of_part d u' n')
        \<and> filter (\<lambda>x. (prow_upload_id x, prow_number x) \<noteq> (u, n)) (multipart_parts d')
            = filter (\<lambda>x. (prow_upload_id x, prow_number x) \<noteq> (u, n)) (multipart_parts d)
        \<and> lookup d' = lookup d
        \<and> map blk_id released = filter (\<lambda>i. i \<notin> set (map blk_id blocks))
            (map pb_block_id (sort_key pb_ordinal (rows_of_part d u n))))
    \<and> (length (upload_rows d u) = 1 \<and> distinct (map blk_id blocks)
        \<and> (\<forall>b \<in> set blocks. block_exists d (blk_id b) \<and> \<not> queued d (blk_id b)) \<longrightarrow> (\<exists>x. r = Inr x))"
proof -
  have s: "schema_ok d" using assms(1) by (simp add: db_ok_def)
  show ?thesis
  proof (cases "replace_part_tx t u n sz etag blocks d")
    case (Inl e)
    with replace_part_tx_total [OF s, of u blocks t n sz etag] have "\<not> (length (upload_rows d u) = 1 \<and> distinct (map blk_id blocks)
        \<and> (\<forall>b \<in> set blocks. block_exists d (blk_id b) \<and> \<not> queued d (blk_id b)))" by auto
    with Inl assms(2) show ?thesis by (auto simp: replace_part_def transact_def)
  next
    case (Inr x)
    obtain released d1 where x: "x = (released, d1)" by (cases x) auto
    with Inr assms(2) have r: "r = Inr released" "d1 = d'" by (simp_all add: replace_part_def transact_def)
    note w = replace_part_tx_Inr [OF s Inr [unfolded x r(2)]]
    have "lookup d' = lookup d"
      using replace_part_s.lookup_neutral [OF refl assms(1), of t u n sz etag blocks] assms(2) by simp
    moreover have "filter (\<lambda>x. (prow_upload_id x, prow_number x) \<noteq> (u, n)) (multipart_parts d')
            = filter (\<lambda>x. (prow_upload_id x, prow_number x) \<noteq> (u, n)) (multipart_parts d)"
      using w by (auto simp: part_written_def Let_def delete_part_row_def intro!: filter_cong)
    ultimately show ?thesis
      using w part_written_stored by (auto simp: r rows_of_part_written)
  qed
qed

lemma replace_part_outcome_witness:
  "part_stored ex_db4 \<lparr>part_upload_id = ex_upload, part_number = 0, part_size = 3, part_etag = [101], part_blocks = [ex_block]\<rparr>"
  using replace_part_outcome [OF ex_ok(3) ex_step4] by simp

text \<open>
  A commit cannot fail on parts that are stored as the request describes them. When the
  parts lay out \<open>sz\<close> bytes, are pairwise different, match the stored parts and the condition
  allows the object it would replace, \<open>commit_upload\<close> returns the new object.
\<close>

theorem commit_upload_succeeds:
  assumes "db_ok d" and "get_upload u d = Some up" and "validate_parts_layout parts = Inr sz"
    and "distinct (map part_number parts)"
    and "\<forall>p \<in> set parts. part_upload_id p = u \<and> part_stored d p"
    and "condition_allows c (map_option obj_etag (lookup d (up_bucket up, up_key up)))"
  shows "\<exists>ob released d'. commit_upload t u sz etag parts c d = (Inr (Some (ob, released)), d')"
  using assms by (rule commit_upload_total)

lemma commit_upload_succeeds_witness:
  "\<exists>ob released d'. commit_upload 4 ex_upload 3 [101] [ex_part] default_condition ex_db4 = (Inr (Some (ob, released)), d')"
  by (rule commit_upload_succeeds [OF ex_ok(4) _ ex_layout, of ex_upload "upload_from_row ex_urow"])
    (simp_all add: get_upload_def ex_upload_rows part_stored_def ref_key_def row_key_def rows_of_part_def,
     simp_all add: ex_defs ref_key_def row_key_def)

section \<open>Collection and the object store\<close>

text \<open>
  \<open>gc_success\<close> deletes a block row exactly when its count is zero and nothing refers to it;
  every other block, every reference and every object stay, and the invariant holds.
\<close>

theorem gc_success_effect:
  assumes "db_ok d" and "r \<in> set (telegram_blocks d)"
  shows "db_ok (gc_success b d) \<and> lookup (gc_success b d) = lookup d
    \<and> object_blocks (gc_success b d) = object_blocks d
    \<and> multipart_part_blocks (gc_success b d) = multipart_part_blocks d
    \<and> (r \<in> set (telegram_blocks (gc_success b d))
        \<longleftrightarrow> \<not> (trow_id r = b \<and> trow_ref_count r = 0 \<and> unreferenced d b))"
proof -
  have s: "schema_ok d" using assms(1) by (simp add: db_ok_def)
  have same: "r' = r" if "r' \<in> set (telegram_blocks d)" "trow_id r' = trow_id r" for r' :: block_row
    using s that assms(2) by (intro same_id_same_row) auto
  have "r \<in> set (telegram_blocks (gc_success b d))
        \<longleftrightarrow> \<not> (trow_id r = b \<and> trow_ref_count r = 0 \<and> unreferenced d b)"
  proof (cases "list_ex (\<lambda>r. trow_id r = b \<and> trow_ref_count r = 0) (telegram_blocks d) \<and> unreferenced d b")
    case True
    then obtain q where "q \<in> set (telegram_blocks d)" "trow_id q = b" "trow_ref_count q = 0"
      by (auto simp: list_ex_iff)
    then have "trow_id r = b \<longrightarrow> trow_ref_count r = 0" using same [of q] by metis
    moreover have "telegram_blocks (gc_success b d) = filter (\<lambda>r. trow_id r \<noteq> b) (telegram_blocks d)"
      using True by (simp add: gc_success_def delete_block_row_def unreferenced_def)
    ultimately show ?thesis using True assms(2) by auto
  next
    case False
    with assms(2) have "\<not> (trow_id r = b \<and> trow_ref_count r = 0 \<and> unreferenced d b)"
      by (auto simp: list_ex_iff)
    with False assms(2) show ?thesis by (simp only: gc_success_def if_False) simp
  qed
  moreover have "object_blocks (gc_success b d) = object_blocks d"
    "multipart_part_blocks (gc_success b d) = multipart_part_blocks d"
    by (simp_all add: gc_success_def delete_block_row_def split: sum.splits if_splits)
  ultimately show ?thesis
    using db_ok_gc_success [OF assms(1)] gc_success_s.lookup_neutral [OF refl assms(1)] by simp
qed

lemma gc_success_effect_witness: "ex_row Committed 0 \<notin> set (telegram_blocks (gc_success 1 ex_db6))"
  using gc_success_effect [OF ex_ok(6), of "ex_row Committed 0" 1]
  by (simp add: unreferenced_def in_object_def in_part_def ex_defs)

text \<open>
  \<open>expire_uploads\<close> aborts exactly the uploads created before the given time, without an
  error, and reports their number; objects and the other uploads stay.
\<close>

theorem expire_uploads_effect:
  assumes "db_ok d"
  shows "fst (expire_uploads t before d)
      = Inr (length (filter (\<lambda>r. urow_created_at r < before) (multipart_uploads d)))
    \<and> multipart_uploads (snd (expire_uploads t before d))
      = filter (\<lambda>r. \<not> urow_created_at r < before) (multipart_uploads d)
    \<and> lookup (snd (expire_uploads t before d)) = lookup d"
proof -
  let ?ids = "map urow_upload_id (filter (\<lambda>r. urow_created_at r < before) (multipart_uploads d))"
  have dst: "distinct (map urow_upload_id (multipart_uploads d))"
    using assms by (simp add: db_ok_def schema_defs)
  have "distinct ?ids" using dst by (rule distinct_map_filter)
  moreover have "set ?ids \<subseteq> set (map urow_upload_id (multipart_uploads d))" by auto
  ultimately have e: "fst (expire_loop t ?ids 0 d) = Inr (0 + length ?ids)"
    "multipart_uploads (snd (expire_loop t ?ids 0 d))
      = filter (\<lambda>r. urow_upload_id r \<notin> set ?ids) (multipart_uploads d)"
    using expire_loop_effect [OF assms] by blast+
  have "filter (\<lambda>r. urow_upload_id r \<notin> set ?ids) (multipart_uploads d)
      = filter (\<lambda>r. \<not> urow_created_at r < before) (multipart_uploads d)"
  proof (rule filter_cong [OF refl])
    fix r assume "r \<in> set (multipart_uploads d)"
    with dst show "(urow_upload_id r \<notin> set ?ids) = (\<not> urow_created_at r < before)"
      by (auto simp: distinct_map inj_on_def image_iff) 
  qed
  with e expire_uploads_s.lookup_neutral [OF refl assms, of t before] show ?thesis
    by (simp add: expire_uploads_def)
qed

lemma expire_uploads_effect_witness: "multipart_uploads (snd (expire_uploads 5 2 ex_db4)) = []"
  using expire_uploads_effect [OF ex_ok(4), of 5 2] by (simp add: ex_defs)

end
