(* ===== verification/Size_Limits.thy ===== *)
theory Size_Limits
  imports Model
begin

text \<open>
  \<open>src/limits.rs\<close>: the size check, and the state of the bandwidth limiter (its operations are in
  \<open>Bandwidth\<close>, the admission of transfers is in \<open>Admission\<close>). Times are nanoseconds as naturals.
\<close>

section \<open>Sizes\<close>

definition check_size :: "int option \<Rightarrow> int \<Rightarrow> error + unit" where
  "check_size len max_size =
     (case len of
        None \<Rightarrow> Inr ()
      | Some n \<Rightarrow> if n < 0 \<or> n > max_size then Inl EntityTooLarge else Inr ())"

lemma check_size_Inr_iff:
  "check_size len max_size = Inr () \<longleftrightarrow> (\<forall>n. len = Some n \<longrightarrow> 0 \<le> n \<and> n \<le> max_size)"
  by (auto simp: check_size_def split: option.splits)

section \<open>The bandwidth limiter\<close>

text \<open>The schedule of a direction: when its next transfer may begin.\<close>

datatype transfer_direction = Upload | Download

type_synonym schedule = "nat option"

record bandwidth_limiter =
  global_upload :: schedule
  global_download :: schedule
  upload_rate :: nat
  download_rate :: nat
  limit_wait :: nat

end
