(* ===== verification/Telegram.thy ===== *)
theory Telegram
  imports Model
begin

text \<open>
  The Telegram clients of \<open>src/telegram/\<close>: the retries and the decoding of Bot API calls
  (\<open>bot_api.rs\<close>), the checks of \<open>verify\<close>, deletion by both backends, and the dispatch by
  backend (\<open>mod.rs\<close>). What the network answers is a parameter: the outcome of an HTTP
  request by attempt number, the parsed envelope of a body, the outcome of a \<open>grammers\<close> call.
\<close>

section \<open>Failures\<close>

definition is_server_error :: "nat \<Rightarrow> bool" where
  "is_server_error code \<longleftrightarrow> 500 \<le> code \<and> code < 600"

definition is_success :: "nat \<Rightarrow> bool" where
  "is_success code \<longleftrightarrow> 200 \<le> code \<and> code < 300"

text \<open>Whether to retry, and the wait Telegram asked for, in seconds.\<close>

definition retry_policy :: "error \<Rightarrow> bool \<Rightarrow> bool \<times> nat option" where
  "retry_policy e idempotent =
     (case e of
        Telegram_Failure code status description retry_after \<Rightarrow>
          (idempotent \<and> (code = 429 \<or> code = 408 \<or> is_server_error code), retry_after)
      | Transport m \<Rightarrow> (idempotent, None)
      | _ \<Rightarrow> (False, None))"

definition bot_api_is_missing_message :: "error \<Rightarrow> bool" where
  "bot_api_is_missing_message e =
     (case e of
        Telegram_Failure code status description retry_after \<Rightarrow>
          let description = to_ascii_lowercase description
          in code = 400 \<and> contains (lit ''message'') description
             \<and> contains (lit ''not found'') description
      | _ \<Rightarrow> False)"

definition is_missing_message :: "error \<Rightarrow> bool" where
  "is_missing_message e =
     (let t = to_ascii_lowercase (error_text e)
      in bot_api_is_missing_message e
         \<or> contains (lit ''message not found'') t
         \<or> contains (lit ''message_id_invalid'') t)"

section \<open>Retries\<close>

text \<open>
  \<open>retry\<close>: five attempts, the waits in milliseconds between them. \<open>op n\<close> is the outcome of
  attempt \<open>n\<close>. The text of a transport error, which can hold the URL and so the bot token,
  is replaced.
\<close>

definition mask_transport :: "str \<Rightarrow> error \<Rightarrow> error" where
  "mask_transport method e =
     (case e of
        Transport m \<Rightarrow> Other (lit ''Telegram '' @ method @ lit '' request transport error'')
      | _ \<Rightarrow> e)"

fun retry_loop ::
  "str \<Rightarrow> bool \<Rightarrow> (nat \<Rightarrow> error + 'a) \<Rightarrow> nat \<Rightarrow> nat \<Rightarrow> nat \<Rightarrow> (error + 'a) \<times> nat list"
where
  "retry_loop method idempotent op 0 attempt delay =
     (Inl (Other (lit ''Telegram '' @ method @ lit '' failed'')), [])"
| "retry_loop method idempotent op (Suc left) attempt delay =
     (case op attempt of
        Inr v \<Rightarrow> (Inr v, [])
      | Inl e \<Rightarrow>
          (case retry_policy e idempotent of
             (retryable, retry_after) \<Rightarrow>
               if \<not> retryable then (Inl (mask_transport method e), [])
               else if left = 0 then (Inl (mask_transport method e), [])
               else
                 let wait = (case retry_after of Some s \<Rightarrow> s * 1000 | None \<Rightarrow> delay)
                 in case retry_loop method idempotent op left (attempt + 1) (min (delay * 2) 30000) of
                      (r, waits) \<Rightarrow> (r, wait # waits)))"

definition retry :: "str \<Rightarrow> bool \<Rightarrow> (nat \<Rightarrow> error + 'a) \<Rightarrow> (error + 'a) \<times> nat list" where
  "retry method idempotent op = retry_loop method idempotent op 5 0 500"

lemma retry_loop_waits: "length (snd (retry_loop method i op left a delay)) < max 1 left"
proof (induction left arbitrary: a delay)
  case (Suc left)
  show ?case
  proof (cases "op a")
    case (Inl e)
    obtain r ra where p: "retry_policy e i = (r, ra)" by (cases "retry_policy e i") auto
    obtain res w where q: "retry_loop method i op left (a + 1) (min (delay * 2) 30000) = (res, w)"
      by (cases "retry_loop method i op left (a + 1) (min (delay * 2) 30000)") auto
    from Suc.IH [of "a + 1" "min (delay * 2) 30000"] q have "length w < max 1 left" by simp
    with Inl p q show ?thesis by (auto simp: Let_def)
  qed simp
qed simp

text \<open>A result comes from one of the attempts, all before it failed with a retryable error.\<close>

lemma retry_loop_Inr:
  "fst (retry_loop method i op left a delay) = Inr v \<Longrightarrow>
     \<exists>n < left. op (a + n) = Inr v
       \<and> (\<forall>m < n. \<exists>e. op (a + m) = Inl e \<and> fst (retry_policy e i))"
proof (induction left arbitrary: a delay)
  case 0
  then show ?case by simp
next
  case (Suc left)
  show ?case
  proof (cases "op a")
    case (Inr x)
    with Suc.prems have "op (a + 0) = Inr v" by simp
    then show ?thesis by (intro exI [of _ 0]) simp
  next
    case (Inl e)
    obtain r ra where p: "retry_policy e i = (r, ra)" by (cases "retry_policy e i") auto
    have rec: "r" "fst (retry_loop method i op left (a + 1) (min (delay * 2) 30000)) = Inr v"
      using Suc.prems Inl p by (auto simp: Let_def split: if_splits prod.splits)
    from Suc.IH [OF rec(2)] obtain n where n: "n < left" "op (a + 1 + n) = Inr v"
      "\<forall>m < n. \<exists>e. op (a + 1 + m) = Inl e \<and> fst (retry_policy e i)" by blast
    have "\<exists>e. op (a + m) = Inl e \<and> fst (retry_policy e i)" if "m < Suc n" for m
    proof (cases m)
      case 0
      with Inl p rec(1) show ?thesis by simp
    next
      case (Suc m')
      with n(3) that show ?thesis by simp
    qed
    with n(1,2) show ?thesis by (intro exI [of _ "Suc n"]) simp
  qed
qed

lemma retry_loop_masked:
  "fst (retry_loop method i op left a delay) = Inl e \<Longrightarrow> e \<noteq> Transport m"
proof (induction left arbitrary: a delay)
  case (Suc left)
  then show ?case
    by (auto simp: Let_def mask_transport_def split: sum.splits prod.splits if_splits error.splits)
      (metis fst_conv)+
qed auto

lemma retry_not_idempotent:
  "op 0 = Inl e \<Longrightarrow> retry method False op = (Inl (mask_transport method e), [])"
  by (simp add: retry_def retry_policy_def numeral_eq_Suc split: error.splits)

section \<open>Decoding a Bot API response\<close>

record 'a api_envelope =
  env_ok :: bool
  env_result :: "'a option"
  env_description :: "str option"
  env_retry_after :: "nat option"

record api_response =
  resp_status :: nat
  resp_status_text :: str
  resp_body :: "error + nat list"

text \<open>\<open>parse\<close> is \<open>serde_json::from_slice\<close> at the envelope type, with the text of its error.\<close>

definition decode :: "str \<Rightarrow> (nat list \<Rightarrow> str + 'a api_envelope) \<Rightarrow> api_response \<Rightarrow> error + 'a" where
  "decode method parse resp =
     (case resp_body resp of
        Inl e \<Rightarrow> Inl e
      | Inr body \<Rightarrow>
          (case parse body of
             Inl e \<Rightarrow>
               if \<not> is_success (resp_status resp)
               then Inl (Telegram_Failure (resp_status resp) (resp_status_text resp)
                      (lit ''invalid Telegram error response: '' @ e) None)
               else Inl (Other (lit ''Telegram '' @ method @ lit '' invalid response: '' @ e))
           | Inr env \<Rightarrow>
               if \<not> is_success (resp_status resp) \<or> \<not> env_ok env
               then Inl (Telegram_Failure (resp_status resp) (resp_status_text resp)
                      (case env_description env of
                         Some text \<Rightarrow> text | None \<Rightarrow> lit ''unknown Telegram error'')
                      (env_retry_after env))
               else (case env_result env of
                       Some v \<Rightarrow> Inr v
                     | None \<Rightarrow> Inl (Other (lit ''Telegram '' @ method @ lit '' returned no result'')))))"

lemma decode_Inr:
  "decode method parse resp = Inr v \<Longrightarrow>
     is_success (resp_status resp)
     \<and> (\<exists>body env. resp_body resp = Inr body \<and> parse body = Inr env \<and> env_ok env \<and> env_result env = Some v)"
  by (auto simp: decode_def split: sum.splits if_splits option.splits)

text \<open>\<open>call_get\<close> and \<open>call_post\<close>: \<open>send n\<close> is what attempt \<open>n\<close> of the request returns.\<close>

definition call_api ::
  "str \<Rightarrow> (nat list \<Rightarrow> str + 'a api_envelope) \<Rightarrow> (nat \<Rightarrow> error + api_response) \<Rightarrow> error + 'a"
where
  "call_api method parse send =
     fst (retry method True (\<lambda>n. bind_res (send n) (decode method parse)))"

section \<open>\<open>verify\<close>\<close>

record chat =
  chat_kind :: str
  chat_title :: str
  chat_auto_delete :: "int option"

record chat_member =
  member_status :: str
  can_post_messages :: "bool option"
  can_delete_messages :: "bool option"

definition has_admin_permission :: "chat_member \<Rightarrow> bool option \<Rightarrow> bool" where
  "has_admin_permission member permission \<longleftrightarrow>
     member_status member = lit ''creator'' \<or> permission = Some True"

definition bot_verify :: "error + chat \<Rightarrow> error + chat_member \<Rightarrow> error + (str \<times> str)" where
  "bot_verify get_chat get_member =
     bind_res get_chat (\<lambda>c.
     if chat_kind c \<noteq> lit ''supergroup'' \<and> chat_kind c \<noteq> lit ''channel''
     then Inl (Other (lit ''storage chat must be a supergroup or channel, got '' @ chat_kind c))
     else
     bind_res get_member (\<lambda>m.
     if member_status m \<noteq> lit ''administrator'' \<and> member_status m \<noteq> lit ''creator''
     then Inl (Other (lit ''bot must be an administrator of the storage chat''))
     else if chat_kind c = lit ''channel'' \<and> \<not> has_admin_permission m (can_post_messages m)
     then Inl (Other (lit ''bot needs can_post_messages in the storage channel''))
     else if chat_kind c = lit ''supergroup'' \<and> \<not> has_admin_permission m (can_delete_messages m)
     then Inl (Other (lit ''bot needs can_delete_messages in the storage supergroup''))
     else if \<not> has_admin_permission m (can_delete_messages m)
     then Inl (Other (lit ''bot needs can_delete_messages for garbage collection''))
     else if 0 < (case chat_auto_delete c of None \<Rightarrow> 0 | Some n \<Rightarrow> n)
     then Inl (Other (lit ''storage chat has automatic message deletion enabled''))
     else Inr (chat_title c, chat_kind c)))"

lemma bot_verify_Inr:
  "bot_verify gc gm = Inr r \<Longrightarrow>
     \<exists>c m. gc = Inr c \<and> gm = Inr m \<and> has_admin_permission m (can_delete_messages m)
       \<and> (chat_kind c = lit ''channel'' \<longrightarrow> has_admin_permission m (can_post_messages m))
       \<and> (\<forall>n. chat_auto_delete c = Some n \<longrightarrow> n \<le> 0)"
  by (auto simp: bot_verify_def bind_res_Inr_iff split: if_splits option.splits)

section \<open>Deleting messages\<close>

text \<open>\<open>slice::chunks\<close>.\<close>

function batches :: "nat \<Rightarrow> 'a list \<Rightarrow> 'a list list" where
  "batches n xs = (if n = 0 \<or> xs = [] then [] else take n xs # batches n (drop n xs))"
  by auto
termination by (relation "measure (\<lambda>(n, xs). length xs)") auto

declare batches.simps [simp del]

lemma batches_concat: "0 < n \<Longrightarrow> concat (batches n xs) = xs"
  by (induction n xs rule: batches.induct) (subst batches.simps, auto)

lemma batches_length: "ys \<in> set (batches n xs) \<Longrightarrow> 0 < length ys \<and> length ys \<le> n"
proof (induction n xs rule: batches.induct)
  case (1 n xs)
  then show ?case by (subst (asm) batches.simps) (auto split: if_splits)
qed

text \<open>Batch after batch until one fails: the outcome and the batches that were deleted.\<close>

fun delete_batches :: "('a list \<Rightarrow> error + unit) \<Rightarrow> 'a list list \<Rightarrow> (error + unit) \<times> 'a list" where
  "delete_batches del [] = (Inr (), [])"
| "delete_batches del (b # bs) =
     (case del b of
        Inl e \<Rightarrow> (Inl e, [])
      | Inr _ \<Rightarrow> (case delete_batches del bs of (r, gone) \<Rightarrow> (r, b @ gone)))"

lemma delete_batches_Inr: "fst (delete_batches del bs) = Inr u \<Longrightarrow> snd (delete_batches del bs) = concat bs"
  by (induction bs) (auto split: sum.splits prod.splits)

definition to_i32 :: "int \<Rightarrow> error + int" where
  "to_i32 i = (if - (2 ^ 31) \<le> i \<and> i < 2 ^ 31 then Inr i
     else Inl (Other (lit ''Telegram message ID is too large'')))"

text \<open>
  \<open>post ids\<close> is the outcome of the Bot API call, \<open>rpc ids\<close> that of the \<open>grammers\<close> call with
  the number of messages it deleted.
\<close>

definition bot_delete_message :: "(int list \<Rightarrow> error + unit) \<Rightarrow> int \<Rightarrow> error + unit" where
  "bot_delete_message post m = post [m]"

definition bot_delete_messages :: "(int list \<Rightarrow> error + unit) \<Rightarrow> int list \<Rightarrow> (error + unit) \<times> int list" where
  "bot_delete_messages post ids = delete_batches post (batches 100 ids)"

definition grammers_delete_message :: "(int list \<Rightarrow> error + nat) \<Rightarrow> int \<Rightarrow> error + unit" where
  "grammers_delete_message rpc m =
     bind_res (to_i32 m) (\<lambda>i.
     bind_res (rpc [i]) (\<lambda>deleted.
     if deleted = 0 then Inl (Other (lit ''Telegram message not found'')) else Inr ()))"

definition grammers_delete_messages :: "(int list \<Rightarrow> error + nat) \<Rightarrow> int list \<Rightarrow> (error + unit) \<times> int list" where
  "grammers_delete_messages rpc ids =
     delete_batches (\<lambda>chunk. bind_res (traverse to_i32 chunk) (\<lambda>ids. bind_res (rpc ids) (\<lambda>_. Inr ())))
       (batches 100 ids)"

text \<open>The client: the backend new uploads use, and whether \<open>grammers\<close> is connected.\<close>

record telegram_client =
  active_backend :: telegram_backend
  has_grammers :: bool

definition no_grammers :: error where
  "no_grammers = Other (lit ''grammers backend is not initialized'')"

definition delete_message_by_id ::
  "telegram_client \<Rightarrow> (int list \<Rightarrow> error + unit) \<Rightarrow> (int list \<Rightarrow> error + nat)
     \<Rightarrow> telegram_backend \<Rightarrow> int \<Rightarrow> error + unit"
where
  "delete_message_by_id tg post rpc backend m =
     (case backend of
        BotApi \<Rightarrow> bot_delete_message post m
      | Grammers \<Rightarrow> if has_grammers tg then grammers_delete_message rpc m else Inl no_grammers)"

definition delete_message ::
  "telegram_client \<Rightarrow> (int list \<Rightarrow> error + unit) \<Rightarrow> (int list \<Rightarrow> error + nat)
     \<Rightarrow> block_ref \<Rightarrow> error + unit"
where
  "delete_message tg post rpc b = delete_message_by_id tg post rpc (blk_backend b) (blk_message_id b)"

definition delete_messages ::
  "telegram_client \<Rightarrow> (int list \<Rightarrow> error + unit) \<Rightarrow> (int list \<Rightarrow> error + nat)
     \<Rightarrow> telegram_backend \<Rightarrow> int list \<Rightarrow> (error + unit) \<times> int list"
where
  "delete_messages tg post rpc backend ids =
     (case backend of
        BotApi \<Rightarrow> bot_delete_messages post ids
      | Grammers \<Rightarrow> if has_grammers tg then grammers_delete_messages rpc ids else (Inl no_grammers, []))"

lemma delete_messages_all:
  "fst (delete_messages tg post rpc backend ids) = Inr u \<Longrightarrow> snd (delete_messages tg post rpc backend ids) = ids"
  by (cases backend)
    (auto simp: delete_messages_def bot_delete_messages_def grammers_delete_messages_def batches_concat
      dest!: delete_batches_Inr split: if_splits)

end
