(* ===== verification/Upload.thy ===== *)
theory Upload
  imports Db_Keeps Size_Limits Telegram
begin

text \<open>
  Uploading a body as Telegram messages: \<open>src/transfer/upload.rs\<close>, \<open>upload/known.rs\<close>
  (bodies with a declared length, piped straight to Telegram), \<open>upload/spool.rs\<close> (bodies
  without one, spooled to disk first) and \<open>upload/task.rs\<close>.

  The tasks of an upload run concurrently. Their outcomes are an environment: \<open>ue_task\<close> is
  what the task of a block returns when it has been fed the given bytes, \<open>ue_pick\<close> which of
  the running tasks finishes first. \<open>upload_one\<close> models the task itself. The running MD5
  state is the list of bytes it has absorbed; \<open>md5_hex\<close> is MD5 followed by hexadecimal
  formatting (the crate \<open>md5\<close>).
\<close>

type_synonym bytes = "nat list"

record stored_document =
  sd_backend :: telegram_backend
  sd_message_id :: int
  sd_document_id :: "int option"
  sd_file_id :: str
  sd_file_unique_id :: str
  sd_file_size :: int
  sd_message_date :: int

record uploaded_block =
  ub_id :: int
  ub_ordinal :: int
  ub_offset :: int
  ub_data_size :: int
  ub_message_id :: int
  ub_backend :: telegram_backend
  ub_document_id :: "int option"
  ub_file_id :: str
  ub_file_unique_id :: str
  ub_message_date :: int

record block_spec =
  spec_upload_id :: str
  spec_part_number :: int
  spec_ordinal :: int
  spec_offset :: int
  spec_size :: int

definition to_block_ref :: "int \<Rightarrow> uploaded_block \<Rightarrow> block_ref" where
  "to_block_ref chat u = \<lparr>blk_id = ub_id u, blk_ordinal = ub_ordinal u, blk_offset = ub_offset u,
     blk_size = ub_data_size u, blk_chat_id = chat, blk_message_id = ub_message_id u,
     blk_backend = ub_backend u, blk_document_id = ub_document_id u, blk_file_id = ub_file_id u,
     blk_file_unique_id = ub_file_unique_id u, blk_message_date = ub_message_date u\<rparr>"

definition references_for_uploaded :: "int \<Rightarrow> uploaded_block list \<Rightarrow> block_ref list" where
  "references_for_uploaded chat us = map (to_block_ref chat) us"

definition uploaded_block :: "int \<Rightarrow> int \<Rightarrow> int \<Rightarrow> stored_document \<Rightarrow> uploaded_block" where
  "uploaded_block ordinal off data_size doc = \<lparr>ub_id = 0, ub_ordinal = ordinal, ub_offset = off,
     ub_data_size = data_size, ub_message_id = sd_message_id doc, ub_backend = sd_backend doc,
     ub_document_id = sd_document_id doc, ub_file_id = sd_file_id doc,
     ub_file_unique_id = sd_file_unique_id doc, ub_message_date = sd_message_date doc\<rparr>"

definition block_size :: "int \<Rightarrow> int \<Rightarrow> int \<Rightarrow> error + int" where
  "block_size chunk off tot =
     (if chunk = 0 then Inl (Other (lit ''chunk size must be greater than zero''))
      else case checked_sub tot off of
             None \<Rightarrow> Inl InvalidLayout
           | Some remaining \<Rightarrow>
               if remaining \<le> 0 then Inl InvalidLayout else Inr (min remaining chunk))"

section \<open>The environment and the state of an upload\<close>

record upload_env =
  ue_chunk_size :: int
  ue_max_object_size :: int
  ue_concurrency :: nat
  ue_chat_id :: int
  ue_throttle :: "nat \<Rightarrow> nat \<Rightarrow> error + nat"
  ue_write :: "block_spec \<Rightarrow> nat \<Rightarrow> nat \<Rightarrow> error option"
  ue_shutdown :: "block_spec \<Rightarrow> error option"
  ue_pick :: "nat \<Rightarrow> nat"
  ue_task :: "block_spec \<Rightarrow> bytes \<Rightarrow> error + uploaded_block"
  ue_md5_hex :: "bytes \<Rightarrow> str"

type_synonym piece = "block_spec \<times> bytes"

text \<open>The variables of \<open>upload_known_length\<close>; a \<open>PipeTask\<close> is its spec and the bytes written.\<close>

record feed =
  fd_total :: int
  fd_ordinal :: int
  fd_offset :: int
  fd_current :: "piece option"
  fd_tasks :: "piece list"
  fd_uploaded :: "uploaded_block list"
  fd_digest :: bytes

definition feed_init :: feed where
  "feed_init = \<lparr>fd_total = 0, fd_ordinal = 0, fd_offset = 0, fd_current = None, fd_tasks = [],
     fd_uploaded = [], fd_digest = []\<rparr>"

definition take_nth :: "nat \<Rightarrow> 'a list \<Rightarrow> 'a list" where
  "take_nth i xs = take i xs @ drop (Suc i) xs"

definition reap_one ::
  "upload_env \<Rightarrow> piece list \<Rightarrow> uploaded_block list
     \<Rightarrow> error option \<times> piece list \<times> uploaded_block list"
where
  "reap_one env tasks uploaded =
     (if tasks = [] then (Some (Other (lit ''upload task disappeared'')), tasks, uploaded)
      else let i = ue_pick env (length tasks) mod length tasks; (sp, c) = tasks ! i
           in case ue_task env sp c of
                Inl e \<Rightarrow> (Some e, take_nth i tasks, uploaded)
              | Inr u \<Rightarrow> (None, take_nth i tasks, uploaded @ [u]))"

fun drain_tasks ::
  "upload_env \<Rightarrow> piece list \<Rightarrow> uploaded_block list \<Rightarrow> error option \<Rightarrow> error option \<times> uploaded_block list"
where
  "drain_tasks env [] uploaded failure = (failure, uploaded)"
| "drain_tasks env ((sp, c) # tasks) uploaded failure =
     (case ue_task env sp c of
        Inl e \<Rightarrow> drain_tasks env tasks uploaded (case failure of None \<Rightarrow> Some e | Some f \<Rightarrow> Some f)
      | Inr u \<Rightarrow> drain_tasks env tasks (uploaded @ [u]) failure)"

section \<open>Bodies of known length (\<open>known.rs\<close>)\<close>

text \<open>
  The inner \<open>while position < data.len()\<close>: open a block if none is open, write what fits,
  finish the block when it is full. The first component is the failure that breaks the
  loop. Each turn writes at least one byte, so the length of the data is fuel enough.
\<close>

definition finish_block :: "upload_env \<Rightarrow> piece \<Rightarrow> feed \<Rightarrow> error option \<times> feed" where
  "finish_block env p st =
     (case ue_shutdown env (fst p) of
        Some e \<Rightarrow> (Some e, st\<lparr>fd_current := None\<rparr>)
      | None \<Rightarrow>
          let st1 = st\<lparr>fd_current := None, fd_tasks := fd_tasks st @ [p]\<rparr>;
              (failure, tasks, uploaded) =
                (if length (fd_tasks st1) \<ge> ue_concurrency env
                 then reap_one env (fd_tasks st1) (fd_uploaded st1)
                 else (None, fd_tasks st1, fd_uploaded st1));
              st2 = st1\<lparr>fd_tasks := tasks, fd_uploaded := uploaded\<rparr>
          in case failure of
               Some e \<Rightarrow> (Some e, st2)
             | None \<Rightarrow>
                 (case checked_add (fd_offset st2) (spec_size (fst p)) of
                    None \<Rightarrow> (Some EntityTooLarge, st2)
                  | Some off \<Rightarrow> (None, st2\<lparr>fd_offset := off\<rparr>)))"

definition open_block :: "upload_env \<Rightarrow> str \<Rightarrow> int \<Rightarrow> int \<Rightarrow> feed \<Rightarrow> error + (piece \<times> feed)" where
  "open_block env u n expected st =
     (case fd_current st of
        Some p \<Rightarrow> Inr (p, st)
      | None \<Rightarrow>
          (case block_size (ue_chunk_size env) (fd_offset st) expected of
             Inl e \<Rightarrow> Inl e
           | Inr sz \<Rightarrow>
               let p = (\<lparr>spec_upload_id = u, spec_part_number = n, spec_ordinal = fd_ordinal st,
                     spec_offset = fd_offset st, spec_size = sz\<rparr>, [])
               in Inr (p, st\<lparr>fd_current := Some p, fd_ordinal := fd_ordinal st + 1\<rparr>)))"

fun feed_data ::
  "upload_env \<Rightarrow> str \<Rightarrow> int \<Rightarrow> int \<Rightarrow> nat \<Rightarrow> bytes \<Rightarrow> feed \<Rightarrow> error option \<times> feed"
where
  "feed_data env u n expected 0 data st = (None, st)"
| "feed_data env u n expected (Suc fuel) data st =
     (if data = [] then (None, st)
      else
        case open_block env u n expected st of
          Inl e \<Rightarrow> (Some e, st)
        | Inr ((sp, written), st1) \<Rightarrow>
            let amount = min (nat (spec_size sp) - length written) (length data)
            in (case ue_write env sp (length written) amount of
                  Some e \<Rightarrow> (Some e, st1)
                | None \<Rightarrow>
                    let p = (sp, written @ take amount data);
                        (failure, st2) =
                          (if length (snd p) = nat (spec_size sp) then finish_block env p st1
                           else (None, st1\<lparr>fd_current := Some p\<rparr>))
                    in case failure of
                         Some e \<Rightarrow> (Some e, st2)
                       | None \<Rightarrow> feed_data env u n expected fuel (drop amount data) st2))"

text \<open>The outer loop over the frames of the body.\<close>

fun source_loop ::
  "upload_env \<Rightarrow> str \<Rightarrow> int \<Rightarrow> int \<Rightarrow> (error + bytes) list \<Rightarrow> feed \<Rightarrow> error option \<times> feed"
where
  "source_loop env u n expected [] st = (None, st)"
| "source_loop env u n expected (Inl e # frames) st = (Some e, st)"
| "source_loop env u n expected (Inr data # frames) st =
     (case checked_add (fd_total st) (int (length data)) of
        None \<Rightarrow> (Some EntityTooLarge, st)
      | Some next_total \<Rightarrow>
          if next_total > ue_max_object_size env then (Some EntityTooLarge, st)
          else if next_total > expected then (Some (IncompleteBody expected next_total), st)
          else
            (case ue_throttle env (length (fd_digest st)) (length data) of
               Inl e \<Rightarrow> (Some e, st)
             | Inr w \<Rightarrow>
                 (case feed_data env u n expected (length data) data
                         (st\<lparr>fd_digest := fd_digest st @ data, fd_total := next_total\<rparr>) of
                    (Some e, st') \<Rightarrow> (Some e, st')
                  | (None, st') \<Rightarrow> source_loop env u n expected frames st')))"

definition upload_known_length ::
  "upload_env \<Rightarrow> str \<Rightarrow> int \<Rightarrow> (error + bytes) list \<Rightarrow> int \<Rightarrow> error + (uploaded_block list \<times> int \<times> bytes)"
where
  "upload_known_length env u n frames expected =
     (if expected < 0 then Inl InvalidRequest
      else
        case source_loop env u n expected frames feed_init of (failure, st) \<Rightarrow>
          let (failure, tasks) =
                (case fd_current st of
                   None \<Rightarrow> (failure, fd_tasks st)
                 | Some p \<Rightarrow>
                     (case ue_shutdown env (fst p) of
                        Some e \<Rightarrow> ((case failure of None \<Rightarrow> Some e | Some f \<Rightarrow> Some f), fd_tasks st)
                      | None \<Rightarrow> (failure, fd_tasks st @ [p])));
              (failure, uploaded) = drain_tasks env tasks (fd_uploaded st) failure
          in case failure of
               Some e \<Rightarrow> Inl e
             | None \<Rightarrow>
                 if fd_total st \<noteq> expected then Inl (IncompleteBody expected (fd_total st))
                 else Inr (uploaded, fd_total st, fd_digest st))"

section \<open>Bodies of unknown length (\<open>spool.rs\<close>)\<close>

text \<open>\<open>spool_body\<close>: the bytes written to the spool file, which are also what MD5 absorbed.\<close>

fun spool_frames :: "upload_env \<Rightarrow> (error + bytes) list \<Rightarrow> bytes \<Rightarrow> error + bytes" where
  "spool_frames env [] spooled = Inr spooled"
| "spool_frames env (Inl e # frames) spooled = Inl e"
| "spool_frames env (Inr data # frames) spooled =
     (case checked_add (int (length spooled)) (int (length data)) of
        None \<Rightarrow> Inl EntityTooLarge
      | Some next_size \<Rightarrow>
          if next_size > ue_max_object_size env then Inl EntityTooLarge
          else
            (case ue_throttle env (length spooled) (length data) of
               Inl e \<Rightarrow> Inl e
             | Inr w \<Rightarrow> spool_frames env frames (spooled @ data)))"

text \<open>
  \<open>upload_spooled\<close>: a task reads \<open>size\<close> bytes of the file from \<open>offset\<close>. The offset grows by
  at least one byte a turn, so the file's length is fuel enough.
\<close>

fun spool_loop ::
  "upload_env \<Rightarrow> str \<Rightarrow> int \<Rightarrow> bytes \<Rightarrow> nat \<Rightarrow> int \<Rightarrow> int \<Rightarrow> piece list \<Rightarrow> uploaded_block list
     \<Rightarrow> error + (error option \<times> piece list \<times> uploaded_block list)"
where
  "spool_loop env u n file 0 ordinal off tasks uploaded = Inr (None, tasks, uploaded)"
| "spool_loop env u n file (Suc fuel) ordinal off tasks uploaded =
     (if \<not> off < int (length file) then Inr (None, tasks, uploaded)
      else
        case block_size (ue_chunk_size env) off (int (length file)) of
          Inl e \<Rightarrow> Inl e
        | Inr sz \<Rightarrow>
            let tasks1 = tasks @ [(\<lparr>spec_upload_id = u, spec_part_number = n,
                  spec_ordinal = ordinal, spec_offset = off, spec_size = sz\<rparr>,
                  take (nat sz) (drop (nat off) file))]
            in case checked_add off sz of
                 None \<Rightarrow> Inr (Some EntityTooLarge, tasks1, uploaded)
               | Some off' \<Rightarrow>
                   (case (if length tasks1 \<ge> ue_concurrency env then reap_one env tasks1 uploaded
                          else (None, tasks1, uploaded)) of
                      (Some e, tasks2, uploaded2) \<Rightarrow> Inr (Some e, tasks2, uploaded2)
                    | (None, tasks2, uploaded2) \<Rightarrow>
                        spool_loop env u n file fuel (ordinal + 1) off' tasks2 uploaded2))"

definition upload_spooled ::
  "upload_env \<Rightarrow> str \<Rightarrow> int \<Rightarrow> bytes \<Rightarrow> error + (uploaded_block list \<times> int \<times> bytes)"
where
  "upload_spooled env u n file =
     bind_res (spool_loop env u n file (length file) 0 0 [] []) (\<lambda>(failure, tasks, uploaded).
     case drain_tasks env tasks uploaded failure of
       (Some e, uploaded) \<Rightarrow> Inl e
     | (None, uploaded) \<Rightarrow> Inr (uploaded, int (length file), file))"

definition upload_unknown_length ::
  "upload_env \<Rightarrow> str \<Rightarrow> int \<Rightarrow> (error + bytes) list \<Rightarrow> error + (uploaded_block list \<times> int \<times> bytes)"
where
  "upload_unknown_length env u n frames =
     bind_res (spool_frames env frames []) (upload_spooled env u n)"

section \<open>\<open>upload\<close>\<close>

definition upload ::
  "upload_env \<Rightarrow> str \<Rightarrow> int \<Rightarrow> (error + bytes) list \<Rightarrow> int option \<Rightarrow> error + (part_record \<times> int)"
where
  "upload env u n frames expected_length =
     (case (case expected_length of
              Some expected \<Rightarrow> upload_known_length env u n frames expected
            | None \<Rightarrow> upload_unknown_length env u n frames) of
        Inl e \<Rightarrow> Inl e
      | Inr (uploaded, tot, digest) \<Rightarrow>
          Inr (\<lparr>part_upload_id = u, part_number = n, part_size = tot,
                 part_etag = ue_md5_hex env digest,
                 part_blocks = references_for_uploaded (ue_chat_id env) (sort_key ub_ordinal uploaded)\<rparr>,
               tot))"

end
