(* ===== verification/Upload_Props.thy ===== *)
theory Upload_Props
  imports Upload "HOL-Library.Multiset"
begin

text \<open>
  What an upload stores: both ways of uploading cut the body into the same pieces
  (\<open>cut\<close>), whatever the frames of the body and the order in which the tasks finish, and the
  part they return lists the blocks of those pieces in order.
\<close>

section \<open>The pieces of a body\<close>

function cut :: "str \<Rightarrow> int \<Rightarrow> int \<Rightarrow> int \<Rightarrow> int \<Rightarrow> bytes \<Rightarrow> piece list" where
  "cut u n chunk off ordinal body =
     (if body = [] \<or> chunk \<le> 0 then []
      else let sz = min (int (length body)) chunk
           in (\<lparr>spec_upload_id = u, spec_part_number = n, spec_ordinal = ordinal,
                 spec_offset = off, spec_size = sz\<rparr>, take (nat sz) body)
              # cut u n chunk (off + sz) (ordinal + 1) (drop (nat sz) body))"
  by auto
termination by (relation "measure (\<lambda>(u, n, chunk, off, ordinal, body). length body)") auto

declare cut.simps [simp del]

text \<open>The pieces finished so far, of a body of \<open>expected\<close> bytes.\<close>

fun laid :: "str \<Rightarrow> int \<Rightarrow> int \<Rightarrow> int \<Rightarrow> int \<Rightarrow> int \<Rightarrow> piece list \<Rightarrow> bool" where
  "laid u n chunk expected off ordinal [] \<longleftrightarrow> True"
| "laid u n chunk expected off ordinal ((sp, c) # ps) \<longleftrightarrow>
     sp = \<lparr>spec_upload_id = u, spec_part_number = n, spec_ordinal = ordinal,
           spec_offset = off, spec_size = min (expected - off) chunk\<rparr>
     \<and> int (length c) = spec_size sp \<and> 0 < spec_size sp
     \<and> laid u n chunk expected (off + spec_size sp) (ordinal + 1) ps"

definition piece_sizes :: "piece list \<Rightarrow> int" where
  "piece_sizes ps = sum_list (map (\<lambda>p. spec_size (fst p)) ps)"

lemma piece_sizes_simps [simp]:
  "piece_sizes [] = 0" "piece_sizes (p # ps) = spec_size (fst p) + piece_sizes ps"
  "piece_sizes (ps @ qs) = piece_sizes ps + piece_sizes qs"
  by (simp_all add: piece_sizes_def)

lemma laid_append:
  "laid u n chunk expected off ordinal (ps @ [(sp, c)]) \<longleftrightarrow>
     laid u n chunk expected off ordinal ps
     \<and> sp = \<lparr>spec_upload_id = u, spec_part_number = n, spec_ordinal = ordinal + int (length ps),
           spec_offset = off + piece_sizes ps, spec_size = min (expected - (off + piece_sizes ps)) chunk\<rparr>
     \<and> int (length c) = spec_size sp \<and> 0 < spec_size sp"
  by (induction u n chunk expected off ordinal ps rule: laid.induct) (auto simp: algebra_simps)

lemma laid_lengths: "laid u n chunk expected off ordinal ps \<Longrightarrow> int (length (concat (map snd ps))) = piece_sizes ps"
  by (induction u n chunk expected off ordinal ps rule: laid.induct) auto

lemma laid_cut:
  assumes "laid u n chunk expected off ordinal ps" and "0 < chunk"
    and "off + int (length (concat (map snd ps))) = expected"
  shows "ps = cut u n chunk off ordinal (concat (map snd ps))"
  using assms
proof (induction u n chunk expected off ordinal ps rule: laid.induct)
  case (1 u n chunk expected off ordinal)
  then show ?case by (simp add: cut.simps)
next
  case (2 u n chunk expected off ordinal sp c ps)
  let ?body = "concat (map snd ((sp, c) # ps))"
  have c: "int (length c) = spec_size sp" "0 < spec_size sp" "spec_size sp = min (expected - off) chunk"
    using 2(2) by auto
  have len: "int (length ?body) = expected - off" using 2(4) by simp
  have "ps = cut u n chunk (off + spec_size sp) (ordinal + 1) (concat (map snd ps))"
    using 2 c by (intro 2(1)) auto
  moreover have "nat (spec_size sp) = length c" "?body \<noteq> []" using c by auto
  moreover have "min (int (length ?body)) chunk = spec_size sp" using c(3) len by simp
  ultimately show ?case
    using 2(2) \<open>0 < chunk\<close>
    by (subst cut.simps) (simp add: Let_def)
qed

section \<open>Finished tasks\<close>

definition run :: "upload_env \<Rightarrow> piece \<Rightarrow> error + uploaded_block" where
  "run env p = ue_task env (fst p) (snd p)"

definition accounted :: "upload_env \<Rightarrow> piece list \<Rightarrow> piece list \<Rightarrow> uploaded_block list \<Rightarrow> bool" where
  "accounted env ps tasks uploaded \<longleftrightarrow>
     mset (map (run env) ps) = mset (map (run env) tasks) + mset (map Inr uploaded)"

lemma mset_take_nth: "i < length xs \<Longrightarrow> mset xs = add_mset (xs ! i) (mset (take_nth i xs))"
  by (metis append_take_drop_id Cons_nth_drop_Suc mset.simps(2) mset_append take_nth_def union_mset_add_mset_right)

lemma mset_map_take_nth:
  "i < length xs \<Longrightarrow> mset (map f xs) = add_mset (f (xs ! i)) (mset (map f (take_nth i xs)))"
  using arg_cong [OF mset_take_nth, of i xs "image_mset f"] by simp

lemma reap_one_accounted:
  assumes "accounted env ps tasks uploaded" and "reap_one env tasks uploaded = (None, tasks', uploaded')"
  shows "accounted env ps tasks' uploaded'"
proof -
  let ?i = "ue_pick env (length tasks) mod length tasks"
  have ne: "tasks \<noteq> []" using assms(2) by (auto simp: reap_one_def)
  obtain sp c where t: "tasks ! ?i = (sp, c)" by (cases "tasks ! ?i") auto
  from assms(2) ne t obtain b where b: "ue_task env sp c = Inr b" "tasks' = take_nth ?i tasks"
      "uploaded' = uploaded @ [b]"
    by (auto simp: reap_one_def Let_def split: sum.splits)
  have "?i < length tasks" using ne by simp
  from mset_map_take_nth [OF this, of "run env"] b t
  have "mset (map (run env) tasks) = add_mset (Inr b) (mset (map (run env) tasks'))"
    by (simp add: run_def)
  with assms(1) b(3) show ?thesis by (simp add: accounted_def)
qed

lemma drain_tasks_None:
  "drain_tasks env tasks uploaded failure = (None, uploaded') \<Longrightarrow>
     failure = None \<and> map Inr uploaded' = map Inr uploaded @ map (run env) tasks"
proof (induction env tasks uploaded failure rule: drain_tasks.induct)
  case (2 env sp c tasks uploaded failure)
  then show ?case by (auto simp: run_def split: sum.splits option.splits)
qed simp

section \<open>Bodies of known length\<close>

definition feed_inv :: "upload_env \<Rightarrow> str \<Rightarrow> int \<Rightarrow> int \<Rightarrow> bytes \<Rightarrow> feed \<Rightarrow> bool" where
  "feed_inv env u n expected B st \<longleftrightarrow>
     (\<exists>ps. laid u n (ue_chunk_size env) expected 0 0 ps
        \<and> fd_offset st = piece_sizes ps
        \<and> accounted env ps (fd_tasks st) (fd_uploaded st)
        \<and> (case fd_current st of
             None \<Rightarrow> fd_ordinal st = int (length ps) \<and> B = concat (map snd ps)
           | Some (sp, w) \<Rightarrow> fd_ordinal st = int (length ps) + 1 \<and> B = concat (map snd ps) @ w
               \<and> sp = \<lparr>spec_upload_id = u, spec_part_number = n, spec_ordinal = int (length ps),
                   spec_offset = fd_offset st, spec_size = min (expected - fd_offset st) (ue_chunk_size env)\<rparr>
               \<and> int (length w) < spec_size sp))"

lemma feed_inv_frame:
  "fd_offset st' = fd_offset st \<Longrightarrow> fd_tasks st' = fd_tasks st \<Longrightarrow> fd_uploaded st' = fd_uploaded st
     \<Longrightarrow> fd_current st' = fd_current st \<Longrightarrow> fd_ordinal st' = fd_ordinal st
     \<Longrightarrow> feed_inv env u n expected B st' = feed_inv env u n expected B st"
  by (simp only: feed_inv_def)

lemma block_size_Inr: "block_size chunk off tot = Inr sz \<Longrightarrow> 0 < tot - off \<and> sz = min (tot - off) chunk"
  by (auto simp: block_size_def checked_sub_def split: if_splits)

lemma open_block_inv:
  assumes inv: "feed_inv env u n expected B st" and "open_block env u n expected st = Inr (p, st1)"
    and "0 < ue_chunk_size env"
  shows "feed_inv env u n expected B st1 \<and> fd_current st1 = Some p"
proof (cases "fd_current st")
  case (Some q)
  with assms show ?thesis by (simp add: open_block_def)
next
  case None
  with assms(2) obtain sz where sz: "block_size (ue_chunk_size env) (fd_offset st) expected = Inr sz"
    and p: "p = (\<lparr>spec_upload_id = u, spec_part_number = n, spec_ordinal = fd_ordinal st,
                     spec_offset = fd_offset st, spec_size = sz\<rparr>, [])"
    and st1: "st1 = st\<lparr>fd_current := Some p, fd_ordinal := fd_ordinal st + 1\<rparr>"
    by (auto simp: open_block_def Let_def split: sum.splits)
  from block_size_Inr [OF sz] assms(3) have "sz = min (expected - fd_offset st) (ue_chunk_size env)" "0 < sz"
    by auto
  with inv None show ?thesis by (auto simp: feed_inv_def st1 p)
qed

lemma finish_block_None:
  "finish_block env p st = (None, st') \<Longrightarrow>
     \<exists>tasks uploaded.
       (if ue_concurrency env \<le> Suc (length (fd_tasks st))
        then reap_one env (fd_tasks st @ [p]) (fd_uploaded st)
        else (None, fd_tasks st @ [p], fd_uploaded st)) = (None, tasks, uploaded)
       \<and> st' = st\<lparr>fd_current := None, fd_tasks := tasks, fd_uploaded := uploaded,
           fd_offset := fd_offset st + spec_size (fst p)\<rparr>"
  by (auto simp: finish_block_def Let_def split: option.splits prod.splits if_splits)

lemma finish_block_inv:
  assumes inv: "feed_inv env u n expected B st" and cur: "fd_current st = Some (sp, w)"
    and full: "length (w @ extra) = nat (spec_size sp)"
    and fin: "finish_block env (sp, w @ extra) st = (None, st')"
  shows "feed_inv env u n expected (B @ extra) st'"
proof -
  from inv cur obtain ps where ps: "laid u n (ue_chunk_size env) expected 0 0 ps"
      "fd_offset st = piece_sizes ps" "accounted env ps (fd_tasks st) (fd_uploaded st)"
      "fd_ordinal st = int (length ps) + 1" "B = concat (map snd ps) @ w"
      "sp = \<lparr>spec_upload_id = u, spec_part_number = n, spec_ordinal = int (length ps),
             spec_offset = fd_offset st, spec_size = min (expected - fd_offset st) (ue_chunk_size env)\<rparr>"
      "int (length w) < spec_size sp"
    by (auto simp: feed_inv_def)
  let ?ps = "ps @ [(sp, w @ extra)]"
  have lay: "laid u n (ue_chunk_size env) expected 0 0 ?ps"
    unfolding laid_append using ps full by auto
  have acc: "accounted env ?ps (fd_tasks st @ [(sp, w @ extra)]) (fd_uploaded st)"
    using ps(3) by (simp add: accounted_def)
  from finish_block_None [OF fin] obtain tasks uploaded where
    r: "(if ue_concurrency env \<le> Suc (length (fd_tasks st))
        then reap_one env (fd_tasks st @ [(sp, w @ extra)]) (fd_uploaded st)
        else (None, fd_tasks st @ [(sp, w @ extra)], fd_uploaded st)) = (None, tasks, uploaded)"
    and st': "st' = st\<lparr>fd_current := None, fd_tasks := tasks, fd_uploaded := uploaded,
        fd_offset := fd_offset st + spec_size sp\<rparr>" by auto
  have "accounted env ?ps tasks uploaded"
    using r acc reap_one_accounted [OF acc] by (auto split: if_splits)
  with lay ps show ?thesis
    unfolding feed_inv_def by (intro exI [of _ ?ps]) (simp add: st')
qed

text \<open>One turn of the inner loop: \<open>extra\<close> is what the turn writes into the open block.\<close>

lemma write_step_inv:
  assumes inv: "feed_inv env u n expected B st1" and cur: "fd_current st1 = Some (sp, w)"
    and fits: "length (w @ extra) \<le> nat (spec_size sp)"
    and st2: "(if length (w @ extra) = nat (spec_size sp) then finish_block env (sp, w @ extra) st1
           else (None, st1\<lparr>fd_current := Some (sp, w @ extra)\<rparr>)) = (None, st2)"
  shows "feed_inv env u n expected (B @ extra) st2"
proof (cases "length (w @ extra) = nat (spec_size sp)")
  case True
  with st2 have "finish_block env (sp, w @ extra) st1 = (None, st2)" by simp
  from finish_block_inv [OF inv cur True this] show ?thesis .
next
  case False
  with st2 have st2: "st2 = st1\<lparr>fd_current := Some (sp, w @ extra)\<rparr>" by simp
  from inv cur obtain ps where ps: "laid u n (ue_chunk_size env) expected 0 0 ps"
    "fd_offset st1 = piece_sizes ps" "accounted env ps (fd_tasks st1) (fd_uploaded st1)"
    "fd_ordinal st1 = int (length ps) + 1" "B = concat (map snd ps) @ w"
    "sp = \<lparr>spec_upload_id = u, spec_part_number = n, spec_ordinal = int (length ps),
         spec_offset = fd_offset st1, spec_size = min (expected - fd_offset st1) (ue_chunk_size env)\<rparr>"
    "int (length w) < spec_size sp"
    by (auto simp: feed_inv_def)
  from False fits ps(7) have "int (length (w @ extra)) < spec_size sp" by linarith
  with ps(1-6) show ?thesis
    unfolding feed_inv_def by (intro exI [of _ ps]) (simp add: st2)
qed

lemma feed_data_inv:
  assumes "feed_data env u n expected fuel data st = (None, st')" and "length data \<le> fuel"
    and "feed_inv env u n expected B st" and "0 < ue_chunk_size env"
  shows "feed_inv env u n expected (B @ data) st'"
  using assms
proof (induction env u n expected fuel data st arbitrary: B rule: feed_data.induct)
  case (1 env u n expected data st)
  then show ?case by simp
next
  case (2 env u n expected fuel data st)
  show ?case
  proof (cases "data = []")
    case True
    with 2(2,4) show ?thesis by simp
  next
    case False
    with 2(2) obtain sp w st1 where op: "open_block env u n expected st = Inr ((sp, w), st1)"
      by (auto split: sum.splits)
    from open_block_inv [OF 2(4) op 2(5)]
    have inv1: "feed_inv env u n expected B st1" and cur1: "fd_current st1 = Some (sp, w)" by simp_all
    let ?a = "min (nat (spec_size sp) - length w) (length data)"
    from inv1 cur1 have lt: "int (length w) < spec_size sp" by (auto simp: feed_inv_def)
    then have a: "0 < ?a" using False by auto
    let ?p = "(sp, w @ take ?a data)"
    obtain st2 where st2: "(if length (snd ?p) = nat (spec_size sp) then finish_block env ?p st1
           else (None, st1\<lparr>fd_current := Some ?p\<rparr>)) = (None, st2)"
      and wr: "ue_write env sp (length w) ?a = None"
      and rest: "feed_data env u n expected fuel (drop ?a data) st2 = (None, st')"
      using 2(2) False op by (auto simp: Let_def split: option.splits prod.splits)
    have inv2: "feed_inv env u n expected (B @ take ?a data) st2"
      by (rule write_step_inv [OF inv1 cur1]) (use st2 lt in auto)
    have "feed_inv env u n expected ((B @ take ?a data) @ drop ?a data) st'"
      by (rule 2(1) [OF False op refl refl refl wr refl refl st2 [symmetric] refl rest _ inv2 2(5)])
        (use 2(3) a in auto)
    then show ?thesis by simp
  qed
qed

lemma finish_block_frame:
  "finish_block env p st = (f, st') \<Longrightarrow> fd_digest st' = fd_digest st \<and> fd_total st' = fd_total st"
  by (auto simp: finish_block_def Let_def split: option.splits prod.splits if_splits)

lemma open_block_frame:
  "open_block env u n expected st = Inr (p, st') \<Longrightarrow> fd_digest st' = fd_digest st \<and> fd_total st' = fd_total st"
  by (auto simp: open_block_def Let_def split: option.splits sum.splits)

lemma feed_data_frame:
  "feed_data env u n expected fuel data st = (f, st') \<Longrightarrow>
     fd_digest st' = fd_digest st \<and> fd_total st' = fd_total st"
proof (induction fuel arbitrary: data st)
  case 0
  then show ?case by simp
next
  case (Suc fuel)
  show ?case
  proof (cases "data = []")
    case False
    show ?thesis
    proof (cases "open_block env u n expected st")
      case (Inl e)
      with Suc.prems False show ?thesis by simp
    next
      case (Inr a)
      obtain sp w st1 where a: "a = ((sp, w), st1)" by (cases a) auto
      note fr = open_block_frame [OF Inr [unfolded a]]
      let ?am = "min (nat (spec_size sp) - length w) (length data)"
      obtain f2 st2 where r: "(if length (w @ take ?am data) = nat (spec_size sp)
          then finish_block env (sp, w @ take ?am data) st1
          else (None, st1\<lparr>fd_current := Some (sp, w @ take ?am data)\<rparr>)) = (f2, st2)"
        by fastforce
      then have fr2: "fd_digest st2 = fd_digest st1 \<and> fd_total st2 = fd_total st1"
        using finish_block_frame by (auto split: if_splits)
      from Suc.prems have "(case ue_write env sp (length w) ?am of Some e \<Rightarrow> (Some e, st1)
          | None \<Rightarrow> (case f2 of Some e \<Rightarrow> (Some e, st2)
              | None \<Rightarrow> feed_data env u n expected fuel (drop ?am data) st2)) = (f, st')"
        by (simp only: feed_data.simps False if_False Inr a sum.case prod.case Let_def snd_conv r)
      then show ?thesis using Suc.IH [of "drop ?am data" st2] fr fr2
        by (auto split: option.splits)
    qed
  qed (use Suc.prems in simp)
qed

lemma source_loop_inv:
  assumes "source_loop env u n expected frames st = (None, st')"
    and "feed_inv env u n expected (fd_digest st) st" and "0 < ue_chunk_size env"
    and "fd_total st = int (length (fd_digest st))"
  shows "feed_inv env u n expected (fd_digest st') st' \<and> fd_total st' = int (length (fd_digest st'))
    \<and> (\<exists>chunks. frames = map Inr chunks \<and> fd_digest st' = fd_digest st @ concat chunks)"
  using assms
proof (induction env u n expected frames st rule: source_loop.induct)
  case (1 env u n expected st)
  then show ?case by simp
next
  case (2 env u n expected e frames st)
  then show ?case by simp
next
  case (3 env u n expected data frames st)
  let ?st = "st\<lparr>fd_digest := fd_digest st @ data, fd_total := fd_total st + int (length data)\<rparr>"
  from 3(2) obtain w st1 where
    chk: "checked_add (fd_total st) (int (length data)) = Some (fd_total st + int (length data))"
    and small: "\<not> fd_total st + int (length data) > ue_max_object_size env"
      "\<not> fd_total st + int (length data) > expected"
    and thr: "ue_throttle env (length (fd_digest st)) (length data) = Inr w"
    and fd: "feed_data env u n expected (length data) data ?st = (None, st1)"
    and rest: "source_loop env u n expected frames st1 = (None, st')"
    by (auto simp del: feed_data.simps split: option.splits if_splits sum.splits prod.splits)
  have "feed_inv env u n expected (fd_digest st) ?st = feed_inv env u n expected (fd_digest st) st"
    by (rule feed_inv_frame) simp_all
  with 3(3) have inv: "feed_inv env u n expected (fd_digest st) ?st" by simp
  have inv1: "feed_inv env u n expected (fd_digest st @ data) st1"
    using fd order_refl inv 3(4) by (rule feed_data_inv)
  have same: "fd_digest st1 = fd_digest st @ data \<and> fd_total st1 = fd_total st + int (length data)"
    using feed_data_frame [OF fd] by simp
  have "feed_inv env u n expected (fd_digest st') st' \<and> fd_total st' = int (length (fd_digest st'))
    \<and> (\<exists>chunks. frames = map Inr chunks \<and> fd_digest st' = fd_digest st1 @ concat chunks)"
    by (rule 3(1) [OF chk small thr fd [symmetric] refl rest]) (use inv1 same 3(4,5) in simp_all)
  then obtain chunks where "feed_inv env u n expected (fd_digest st') st'"
      "fd_total st' = int (length (fd_digest st'))" "frames = map Inr chunks"
      "fd_digest st' = fd_digest st @ concat (data # chunks)"
    using same by auto
  then show ?case by (metis list.simps(9))
qed

section \<open>Both uploads return the blocks of the pieces\<close>

text \<open>What a finished upload returned: all pieces of the body, each with its block.\<close>

definition stored :: "upload_env \<Rightarrow> str \<Rightarrow> int \<Rightarrow> bytes \<Rightarrow> uploaded_block list \<Rightarrow> bool" where
  "stored env u n body uploaded \<longleftrightarrow>
     mset (map (run env) (cut u n (ue_chunk_size env) 0 0 body)) = mset (map Inr uploaded)"

lemma upload_known_length_stored:
  assumes up: "upload_known_length env u n frames expected = Inr (uploaded, tot, digest)"
    and chunk: "0 < ue_chunk_size env"
  shows "(\<exists>chunks. frames = map Inr chunks \<and> digest = concat chunks) \<and> tot = int (length digest)
    \<and> expected = tot \<and> stored env u n digest uploaded"
proof -
  obtain failure st where loop: "source_loop env u n expected frames feed_init = (failure, st)"
    by (cases "source_loop env u n expected frames feed_init") auto
  define r where "r = (case fd_current st of
                   None \<Rightarrow> (failure, fd_tasks st)
                 | Some p \<Rightarrow>
                     (case ue_shutdown env (fst p) of
                        Some e \<Rightarrow> ((case failure of None \<Rightarrow> Some e | Some f \<Rightarrow> Some f), fd_tasks st)
                      | None \<Rightarrow> (failure, fd_tasks st @ [p])))"
  obtain f1 tasks where r: "r = (f1, tasks)" by (cases r) auto
  have neg: "\<not> expected < 0" using up by (auto simp: upload_known_length_def)
  have eq: "upload_known_length env u n frames expected
      = (case drain_tasks env tasks (fd_uploaded st) f1 of (failure, uploaded) \<Rightarrow>
          (case failure of
               Some e \<Rightarrow> Inl e
             | None \<Rightarrow>
                 if fd_total st \<noteq> expected then Inl (IncompleteBody expected (fd_total st))
                 else Inr (uploaded, fd_total st, fd_digest st)))"
    using neg unfolding upload_known_length_def loop by (simp add: Let_def r [unfolded r_def])
  from up [unfolded eq] have dr: "drain_tasks env tasks (fd_uploaded st) f1 = (None, uploaded)"
    and tot: "fd_total st = expected" "tot = expected" "digest = fd_digest st"
    by (auto split: prod.splits option.splits if_splits)
  from drain_tasks_None [OF dr] have f1: "f1 = None"
    and upl: "map Inr uploaded = map Inr (fd_uploaded st) @ map (run env) tasks" by auto
  have failure: "failure = None" and tasks: "tasks = fd_tasks st @ (case fd_current st of None \<Rightarrow> [] | Some p \<Rightarrow> [p])"
    using r f1 by (auto simp: r_def split: option.splits)
  have init: "feed_inv env u n expected (fd_digest feed_init) feed_init"
    unfolding feed_inv_def by (intro exI [of _ "[]"]) (simp add: feed_init_def accounted_def)
  have "fd_total feed_init = int (length (fd_digest feed_init))" by (simp add: feed_init_def)
  note si = source_loop_inv [OF loop [unfolded failure] init chunk this]
  have inv: "feed_inv env u n expected digest st" using si by (simp only: tot(3))
  have len: "expected = int (length digest)" using si by (simp only: tot(1,3))
  have frames: "\<exists>chunks. frames = map Inr chunks \<and> digest = concat chunks"
    using si by (simp add: tot(3) feed_init_def)
  from inv obtain ps where ps: "laid u n (ue_chunk_size env) expected 0 0 ps"
    "fd_offset st = piece_sizes ps" "accounted env ps (fd_tasks st) (fd_uploaded st)"
    and cur: "case fd_current st of
             None \<Rightarrow> fd_ordinal st = int (length ps) \<and> digest = concat (map snd ps)
           | Some (sp, w) \<Rightarrow> fd_ordinal st = int (length ps) + 1 \<and> digest = concat (map snd ps) @ w
               \<and> sp = \<lparr>spec_upload_id = u, spec_part_number = n, spec_ordinal = int (length ps),
                   spec_offset = fd_offset st, spec_size = min (expected - fd_offset st) (ue_chunk_size env)\<rparr>
               \<and> int (length w) < spec_size sp"
    unfolding feed_inv_def by blast
  have none: "fd_current st = None"
  proof (cases "fd_current st")
    case (Some q)
    obtain sp w where q: "q = (sp, w)" by (cases q) auto
    from cur Some q have "digest = concat (map snd ps) @ w" "int (length w) < spec_size sp"
      "spec_size sp \<le> expected - piece_sizes ps" by (auto simp: ps(2))
    with laid_lengths [OF ps(1)] len show ?thesis by simp
  qed simp
  with cur have dig: "digest = concat (map snd ps)" by simp
  have "ps = cut u n (ue_chunk_size env) 0 0 digest"
    using laid_cut [OF ps(1) chunk] len by (simp add: dig)
  with ps(3) have "mset (map (run env) (cut u n (ue_chunk_size env) 0 0 digest))
      = mset (map (run env) (fd_tasks st)) + mset (map Inr (fd_uploaded st))"
    by (simp add: accounted_def)
  also have "\<dots> = mset (map Inr uploaded)"
    using upl by (simp add: tasks none del: mset_map)
  finally show ?thesis using frames len tot(2) by (simp add: stored_def)
qed

text \<open>The spooled upload cuts the spool file.\<close>

lemma spool_frames_Inr:
  "spool_frames env frames spooled = Inr sf \<Longrightarrow>
     \<exists>chunks. frames = map Inr chunks \<and> sf = spooled @ concat chunks"
proof (induction env frames spooled rule: spool_frames.induct)
  case (3 env data frames spooled)
  from 3(2) obtain w where chk: "checked_add (int (length spooled)) (int (length data))
        = Some (int (length spooled) + int (length data))"
    and small: "\<not> int (length spooled) + int (length data) > ue_max_object_size env"
    and thr: "ue_throttle env (length spooled) (length data) = Inr w"
    and rest: "spool_frames env frames (spooled @ data) = Inr sf"
    by (auto split: option.splits if_splits sum.splits)
  from 3(1) [OF chk small thr rest] obtain chunks where
    "frames = map Inr chunks" "sf = spooled @ concat (data # chunks)" by auto
  then show ?case by (metis list.simps(9))
qed simp_all

lemma spool_loop_stored:
  assumes "spool_loop env u n sf fuel ordinal off tasks uploaded = Inr (None, tasks', uploaded')"
    and "0 < ue_chunk_size env" and "int (length sf) - off \<le> int fuel" and "off \<le> int (length sf)"
    and "laid u n (ue_chunk_size env) (int (length sf)) 0 0 ps" "off = piece_sizes ps"
      "ordinal = int (length ps)" "concat (map snd ps) = take (nat off) sf"
    and "accounted env ps tasks uploaded"
  shows "accounted env (cut u n (ue_chunk_size env) 0 0 sf) tasks' uploaded'"
  using assms
proof (induction fuel arbitrary: ordinal off tasks uploaded ps)
  case 0
  then have "off = int (length sf)" by simp
  with 0 laid_lengths [OF 0(5)] have "ps = cut u n (ue_chunk_size env) 0 0 sf"
    using laid_cut [OF 0(5,2)] by simp
  with 0 show ?case by simp
next
  case (Suc fuel)
  note laid_nonneg = laid_lengths [OF Suc.prems(5)]
  show ?case
  proof (cases "off < int (length sf)")
    case False
    then have off: "off = int (length sf)" using Suc.prems(4) by simp
    then have "ps = cut u n (ue_chunk_size env) 0 0 sf"
      using laid_cut [OF Suc.prems(5,2)] Suc.prems(8) by simp
    with Suc.prems False show ?thesis by simp
  next
    case True
    let ?sp = "\<lambda>sz. \<lparr>spec_upload_id = u, spec_part_number = n, spec_ordinal = ordinal,
        spec_offset = off, spec_size = sz\<rparr>"
    from Suc.prems(1) True obtain sz where bs: "block_size (ue_chunk_size env) off (int (length sf)) = Inr sz"
      by (auto split: sum.splits)
    have sz: "sz = min (int (length sf) - off) (ue_chunk_size env)" "0 < sz"
      using block_size_Inr [OF bs] Suc.prems(2) by auto
    let ?p = "(?sp sz, take (nat sz) (drop (nat off) sf))"
    let ?t = "if length (tasks @ [?p]) \<ge> ue_concurrency env then reap_one env (tasks @ [?p]) uploaded
              else (None, tasks @ [?p], uploaded)"
    from Suc.prems(1) True bs obtain tasks2 uploaded2 where
      t: "?t = (None, tasks2, uploaded2)"
      and rest: "spool_loop env u n sf fuel (ordinal + 1) (off + sz) tasks2 uploaded2
          = Inr (None, tasks', uploaded')"
      by (auto simp: Let_def split: option.splits prod.splits if_splits)
    have off0: "0 \<le> off" using laid_nonneg Suc.prems(6) by (metis of_nat_0_le_iff)
    have len: "int (length (take (nat sz) (drop (nat off) sf))) = sz"
      using sz off0 True by auto
    have acc: "accounted env (ps @ [?p]) (tasks @ [?p]) uploaded"
      using Suc.prems(9) by (simp add: accounted_def)
    have acc2: "accounted env (ps @ [?p]) tasks2 uploaded2"
      using t acc reap_one_accounted [OF acc] by (auto split: if_splits)
    have "concat (map snd (ps @ [?p])) = take (nat (off + sz)) sf"
      using Suc.prems(8) sz(2) off0 by (simp add: take_add nat_add_distrib)
    moreover have "laid u n (ue_chunk_size env) (int (length sf)) 0 0 (ps @ [?p])"
      unfolding laid_append using Suc.prems(5-7) sz len by simp
    ultimately show ?thesis
      using Suc.IH [OF rest Suc.prems(2) _ _ _ _ _ _ acc2] sz Suc.prems(3,4,6,7) by auto
  qed
qed

lemma upload_unknown_length_stored:
  assumes up: "upload_unknown_length env u n frames = Inr (uploaded, tot, digest)"
    and chunk: "0 < ue_chunk_size env"
  shows "(\<exists>chunks. frames = map Inr chunks \<and> digest = concat chunks) \<and> tot = int (length digest)
    \<and> stored env u n digest uploaded"
proof -
  from up obtain sf where sp: "spool_frames env frames [] = Inr sf"
    and us: "upload_spooled env u n sf = Inr (uploaded, tot, digest)"
    by (auto simp: upload_unknown_length_def bind_res_Inr_iff)
  from us obtain failure tasks upl where
    loop: "spool_loop env u n sf (length sf) 0 0 [] [] = Inr (failure, tasks, upl)" and
    fin: "(case drain_tasks env tasks upl failure of
        (Some e, uploaded) \<Rightarrow> Inl e
      | (None, uploaded) \<Rightarrow> Inr (uploaded, int (length sf), sf)) = Inr (uploaded, tot, digest)"
    by (auto simp: upload_spooled_def bind_res_Inr_iff)
  obtain f2 u2 where d2: "drain_tasks env tasks upl failure = (f2, u2)" by fastforce
  with fin have dr: "drain_tasks env tasks upl failure = (None, uploaded)"
    and res: "tot = int (length sf)" "digest = sf" by (auto split: option.splits)
  from drain_tasks_None [OF dr] have f: "failure = None"
    and all: "map Inr uploaded = map Inr upl @ map (run env) tasks" by auto
  have "accounted env (cut u n (ue_chunk_size env) 0 0 sf) tasks upl"
    by (rule spool_loop_stored [OF loop [unfolded f] chunk, of "[]"]) (simp_all add: accounted_def)
  with all have "stored env u n sf uploaded"
    by (simp add: accounted_def stored_def add.commute del: mset_map)
  with spool_frames_Inr [OF sp] res show ?thesis by simp
qed

section \<open>The part that \<open>upload\<close> returns\<close>

text \<open>What a task returns describes the block it was given (\<open>upload_one\<close> below).\<close>

definition task_ok :: "upload_env \<Rightarrow> bool" where
  "task_ok env \<longleftrightarrow> (\<forall>sp c b. ue_task env sp c = Inr b \<longrightarrow>
     ub_ordinal b = spec_ordinal sp \<and> ub_offset b = spec_offset sp \<and> ub_data_size b = spec_size sp)"

fun in_order :: "int \<Rightarrow> int \<Rightarrow> uploaded_block list \<Rightarrow> bool" where
  "in_order ordinal off [] \<longleftrightarrow> True"
| "in_order ordinal off (b # bs) \<longleftrightarrow>
     ub_ordinal b = ordinal \<and> ub_offset b = off \<and> 0 < ub_data_size b
     \<and> in_order (ordinal + 1) (off + ub_data_size b) bs"

lemma in_order_sorted:
  "in_order ordinal off bs \<Longrightarrow> sorted (map ub_ordinal bs) \<and> distinct (map ub_ordinal bs)
     \<and> (\<forall>b \<in> set bs. ordinal \<le> ub_ordinal b)"
  by (induction ordinal off bs rule: in_order.induct) force+

lemma cut_in_order:
  assumes "map (run env) (cut u n chunk off ordinal body) = map Inr bs" and "task_ok env" and "0 < chunk"
  shows "in_order ordinal off bs \<and> sum_list (map ub_data_size bs) = int (length body)"
  using assms
proof (induction u n chunk off ordinal body arbitrary: bs rule: cut.induct)
  case (1 u n chunk off ordinal body)
  show ?case
  proof (cases "body = []")
    case True
    with 1(2) show ?thesis by (simp add: cut.simps)
  next
    case False
    let ?sz = "min (int (length body)) chunk"
    have step: "cut u n chunk off ordinal body
      = (\<lparr>spec_upload_id = u, spec_part_number = n, spec_ordinal = ordinal,
                 spec_offset = off, spec_size = ?sz\<rparr>, take (nat ?sz) body)
              # cut u n chunk (off + ?sz) (ordinal + 1) (drop (nat ?sz) body)"
      using False 1(4) by (subst cut.simps) (simp add: Let_def)
    from 1(2) obtain b bs' where bs: "bs = b # bs'" by (cases bs) (simp_all add: step)
    from 1(2) have b: "ue_task env \<lparr>spec_upload_id = u, spec_part_number = n, spec_ordinal = ordinal,
                 spec_offset = off, spec_size = ?sz\<rparr> (take (nat ?sz) body) = Inr b"
      and rest: "map (run env) (cut u n chunk (off + ?sz) (ordinal + 1) (drop (nat ?sz) body)) = map Inr bs'"
      by (simp add: step bs run_def, simp add: step bs)
    have bf: "ub_ordinal b = ordinal" "ub_offset b = off" "ub_data_size b = ?sz"
      using b 1(3) unfolding task_ok_def by (metis block_spec.select_convs)+
    have "in_order (ordinal + 1) (off + ?sz) bs' \<and> sum_list (map ub_data_size bs') = int (length (drop (nat ?sz) body))"
      by (rule 1(1)) (use False 1(3,4) rest in auto)
    with bf False 1(4) show ?thesis by (auto simp: bs)
  qed
qed

lemma stored_in_order:
  assumes "stored env u n body uploaded" and "task_ok env" and "0 < ue_chunk_size env"
  shows "map (run env) (cut u n (ue_chunk_size env) 0 0 body) = map Inr (sort_key ub_ordinal uploaded)"
    and "in_order 0 0 (sort_key ub_ordinal uploaded)"
    and "sum_list (map ub_data_size (sort_key ub_ordinal uploaded)) = int (length body)"
proof -
  let ?r = "map (run env) (cut u n (ue_chunk_size env) 0 0 body)"
  have "set ?r = Inr ` set uploaded"
    using arg_cong [OF assms(1) [unfolded stored_def], of set_mset] by (simp only: set_mset_mset set_map)
  then have "\<exists>bs. ?r = map Inr bs"
    unfolding ex_map_conv by blast
  then obtain bs where bs: "?r = map Inr bs" ..
  note ord = cut_in_order [OF bs assms(2,3)]
  have "image_mset (Inr :: uploaded_block \<Rightarrow> error + uploaded_block) (mset bs) = image_mset Inr (mset uploaded)"
    using assms(1) unfolding stored_def bs by simp
  then have "image_mset projr (image_mset (Inr :: uploaded_block \<Rightarrow> error + uploaded_block) (mset bs))
      = image_mset projr (image_mset (Inr :: uploaded_block \<Rightarrow> error + uploaded_block) (mset uploaded))"
    by (rule arg_cong)
  then have eq: "mset uploaded = mset bs" by (simp only: multiset.map_comp comp_def sum.sel image_mset_id[unfolded id_def] multiset.map_ident)
  have srt: "sorted (map ub_ordinal bs)" "distinct (map ub_ordinal bs)"
    using ord in_order_sorted by blast+
  have "inj_on ub_ordinal (set uploaded)"
    using srt(2) eq by (metis distinct_map set_mset_mset)
  with eq srt(1) have "sort_key ub_ordinal uploaded = bs" by (intro sort_key_inj_key_eq)
  with bs ord show "map (run env) (cut u n (ue_chunk_size env) 0 0 body) = map Inr (sort_key ub_ordinal uploaded)"
    "in_order 0 0 (sort_key ub_ordinal uploaded)"
    "sum_list (map ub_data_size (sort_key ub_ordinal uploaded)) = int (length body)" by simp_all
qed

end
