(* ===== verification/Upload_Total.thy ===== *)
theory Upload_Total
  imports Upload_Props Db_Support
begin

text \<open>
  The part an upload returns describes the body, and an upload whose environment works
  returns one: the fuel of both loops is enough.
\<close>

section \<open>The part\<close>

lemma in_order_contiguous:
  "in_order ordinal off us \<Longrightarrow> contiguous off (references_for_uploaded chat us)
     \<and> map blk_ordinal (references_for_uploaded chat us) = map (\<lambda>i. ordinal + int i) [0..<length us]"
proof (induction ordinal off us rule: in_order.induct)
  case (2 ordinal off b bs)
  have "map (\<lambda>i. ordinal + int i) [0..<Suc (length bs)]
      = ordinal # map (\<lambda>i. ordinal + 1 + int i) [0..<length bs]"
    by (simp add: upt_conv_Cons map_Suc_upt [symmetric] comp_def algebra_simps del: upt_Suc)
  with 2 show ?case by (simp add: references_for_uploaded_def to_block_ref_def)
qed (simp add: references_for_uploaded_def)

lemma total_size_references:
  "total_size (references_for_uploaded chat us) = sum_list (map ub_data_size us)"
  by (simp add: total_size_def references_for_uploaded_def to_block_ref_def comp_def)

text \<open>The blocks of a body, in the order of its pieces.\<close>

definition holds :: "upload_env \<Rightarrow> str \<Rightarrow> int \<Rightarrow> bytes \<Rightarrow> uploaded_block list \<Rightarrow> bool" where
  "holds env u n body us \<longleftrightarrow> map (run env) (cut u n (ue_chunk_size env) 0 0 body) = map Inr us"

definition part_of :: "upload_env \<Rightarrow> str \<Rightarrow> int \<Rightarrow> bytes \<Rightarrow> uploaded_block list \<Rightarrow> part_record" where
  "part_of env u n body us = \<lparr>part_upload_id = u, part_number = n, part_size = int (length body),
     part_etag = ue_md5_hex env body, part_blocks = references_for_uploaded (ue_chat_id env) us\<rparr>"

lemma upload_Inr:
  assumes up: "upload env u n frames len = Inr (part, sz)" and ok: "task_ok env" and chunk: "0 < ue_chunk_size env"
  shows "\<exists>chunks us. frames = map Inr chunks \<and> holds env u n (concat chunks) us
    \<and> part = part_of env u n (concat chunks) us \<and> sz = int (length (concat chunks))
    \<and> (len \<noteq> None \<longrightarrow> len = Some sz) \<and> in_order 0 0 us
    \<and> sum_list (map ub_data_size us) = int (length (concat chunks))"
proof -
  obtain uploaded tot digest where r: "part = \<lparr>part_upload_id = u, part_number = n, part_size = tot,
                 part_etag = ue_md5_hex env digest,
                 part_blocks = references_for_uploaded (ue_chat_id env) (sort_key ub_ordinal uploaded)\<rparr>" "sz = tot"
    and st: "(\<exists>chunks. frames = map Inr chunks \<and> digest = concat chunks) \<and> tot = int (length digest)
      \<and> (len \<noteq> None \<longrightarrow> len = Some tot) \<and> stored env u n digest uploaded"
  proof (cases len)
    case None
    with up obtain uploaded tot digest where *: "upload_unknown_length env u n frames = Inr (uploaded, tot, digest)"
      "part = \<lparr>part_upload_id = u, part_number = n, part_size = tot, part_etag = ue_md5_hex env digest,
         part_blocks = references_for_uploaded (ue_chat_id env) (sort_key ub_ordinal uploaded)\<rparr>" "sz = tot"
      by (auto simp: upload_def split: sum.splits)
    with upload_unknown_length_stored [OF *(1) chunk] None that show thesis by blast
  next
    case (Some e)
    with up obtain uploaded tot digest where *: "upload_known_length env u n frames e = Inr (uploaded, tot, digest)"
      "part = \<lparr>part_upload_id = u, part_number = n, part_size = tot, part_etag = ue_md5_hex env digest,
         part_blocks = references_for_uploaded (ue_chat_id env) (sort_key ub_ordinal uploaded)\<rparr>" "sz = tot"
      by (auto simp: upload_def split: sum.splits)
    with upload_known_length_stored [OF *(1) chunk] Some that show thesis by blast
  qed
  have s: "stored env u n digest uploaded" using st by blast
  note srt = stored_in_order [OF s ok chunk]
  from st r srt show ?thesis
    by (auto simp: holds_def part_of_def intro!: exI [of _ "sort_key ub_ordinal uploaded"])
qed

lemma part_of_layout:
  assumes "in_order 0 0 us" and "sum_list (map ub_data_size us) = int (length body)"
  shows "contiguous 0 (part_blocks (part_of env u n body us))
    \<and> total_size (part_blocks (part_of env u n body us)) = part_size (part_of env u n body us)"
  using in_order_contiguous [OF assms(1), of "ue_chat_id env"] assms(2)
  by (simp add: part_of_def total_size_references)

lemma cut_concat: "0 < chunk \<Longrightarrow> concat (map snd (cut u n chunk off ordinal body)) = body"
proof (induction u n chunk off ordinal body rule: cut.induct)
  case (1 u n chunk off ordinal body)
  then show ?case by (subst cut.simps) (simp add: Let_def)
qed

lemma cut_sizes: "p \<in> set (cut u n chunk off ordinal body) \<Longrightarrow> spec_size (fst p) = int (length (snd p))"
proof (induction u n chunk off ordinal body rule: cut.induct)
  case (1 u n chunk off ordinal body)
  then show ?case by (subst (asm) (2) cut.simps) (auto simp: Let_def split: if_splits)
qed

lemma held_sizes:
  assumes "holds env u n body us" and "task_ok env"
  shows "list_all2 (\<lambda>b c. blk_size b = int (length c)) (references_for_uploaded chat us)
    (map snd (cut u n (ue_chunk_size env) 0 0 body))"
proof -
  let ?ps = "cut u n (ue_chunk_size env) 0 0 body"
  have eq: "map (run env) ?ps = map Inr us" using assms(1) by (simp add: holds_def)
  from arg_cong [OF eq, of length] have len: "length us = length ?ps" by simp
  have "ub_data_size (us ! i) = int (length (snd (?ps ! i)))" if "i < length us" for i
  proof -
    have "run env (?ps ! i) = Inr (us ! i)" using arg_cong [OF eq, of "\<lambda>xs. xs ! i"] that len by simp
    then have "ub_data_size (us ! i) = spec_size (fst (?ps ! i))" using assms(2) unfolding run_def task_ok_def by blast
    with cut_sizes [OF nth_mem, of i u n "ue_chunk_size env" 0 0 body] that len show ?thesis by simp
  qed
  with len have "list_all2 (\<lambda>b p. blk_size (to_block_ref chat b) = int (length (snd p))) us
?ps"
    by (simp add: list_all2_conv_all_nth to_block_ref_def)
  then show ?thesis by (simp add: references_for_uploaded_def list_all2_map1 list_all2_map2)
qed

section \<open>An upload in a working environment returns\<close>

definition env_works :: "upload_env \<Rightarrow> bool" where
  "env_works env \<longleftrightarrow> (\<forall>a b. \<exists>w. ue_throttle env a b = Inr w) \<and> (\<forall>sp a b. ue_write env sp a b = None)
     \<and> (\<forall>sp. ue_shutdown env sp = None)"

definition tasks_work :: "upload_env \<Rightarrow> piece list \<Rightarrow> bool" where
  "tasks_work env ps \<longleftrightarrow> (\<forall>p \<in> set ps. \<exists>b. run env p = Inr b)"

lemma reap_one_works:
  assumes w: "tasks_work env tasks" and ne: "tasks \<noteq> []"
  shows "\<exists>tasks' uploaded'. reap_one env tasks uploaded = (None, tasks', uploaded')"
proof -
  let ?i = "ue_pick env (length tasks) mod length tasks"
  obtain sp c where t: "tasks ! ?i = (sp, c)" by (meson surj_pair)
  have "?i < length tasks" using ne by simp
  from nth_mem [OF this] w t have "\<exists>b. ue_task env sp c = Inr b" by (force simp: tasks_work_def run_def)
  then obtain b where "ue_task env sp c = Inr b" ..
  with t ne show ?thesis by (simp add: reap_one_def Let_def)
qed

lemma drain_tasks_works:
  "tasks_work env tasks \<Longrightarrow> \<exists>uploaded'. drain_tasks env tasks uploaded None = (None, uploaded')"
proof (induction tasks arbitrary: uploaded)
  case (Cons t tasks)
  obtain sp c where t: "t = (sp, c)" by (cases t)
  from Cons.prems t have "\<exists>b. ue_task env sp c = Inr b" by (simp add: tasks_work_def run_def)
  then obtain b where "ue_task env sp c = Inr b" ..
  with t Cons show ?case by (simp add: tasks_work_def)
qed simp

text \<open>The reaping step that ends the turn of both loops.\<close>

lemma reap_step_works:
  assumes "tasks_work env (ts @ [p])"
  shows "\<exists>tasks uploaded. (if ue_concurrency env \<le> Suc (length ts) then reap_one env (ts @ [p]) us
      else (None, ts @ [p], us)) = (None, tasks, uploaded)"
  using reap_one_works [OF assms, of us] by (cases "ue_concurrency env \<le> Suc (length ts)") auto

text \<open>The tasks that run are among the pieces of the body, so they succeed when those do.\<close>

lemma laid_in_cut:
  "laid u n chunk expected off ordinal ps \<Longrightarrow> prefix (concat (map snd ps)) body
     \<Longrightarrow> off + int (length body) = expected \<Longrightarrow> 0 < chunk
     \<Longrightarrow> set ps \<subseteq> set (cut u n chunk off ordinal body)"
proof (induction u n chunk expected off ordinal ps arbitrary: body rule: laid.induct)
  case (2 u n chunk expected off ordinal sp c ps)
  from 2(2) have c: "int (length c) = spec_size sp" "0 < spec_size sp" "spec_size sp = min (expected - off) chunk"
    and sp: "sp = \<lparr>spec_upload_id = u, spec_part_number = n, spec_ordinal = ordinal,
           spec_offset = off, spec_size = min (expected - off) chunk\<rparr>"
    and rest: "laid u n chunk expected (off + spec_size sp) (ordinal + 1) ps" by auto
  obtain more where body: "body = c @ more" "prefix (concat (map snd ps)) more"
    using 2(3) by (auto elim!: prefixE)
  have sz: "min (int (length body)) chunk = spec_size sp" using c(3) 2(4) by simp
  have parts: "body \<noteq> []" "take (nat (spec_size sp)) body = c" "drop (nat (spec_size sp)) body = more"
    using c body by auto
  have "cut u n chunk off ordinal body
      = (\<lparr>spec_upload_id = u, spec_part_number = n, spec_ordinal = ordinal, spec_offset = off,
            spec_size = min (int (length body)) chunk\<rparr>, take (nat (min (int (length body)) chunk)) body)
        # cut u n chunk (off + min (int (length body)) chunk) (ordinal + 1) (drop (nat (min (int (length body)) chunk)) body)"
    using parts(1) 2(5) by (subst cut.simps) (simp add: Let_def)
  also have "\<lparr>spec_upload_id = u, spec_part_number = n, spec_ordinal = ordinal, spec_offset = off,
            spec_size = min (int (length body)) chunk\<rparr> = sp" using sp 2(4) by auto
  finally have "cut u n chunk off ordinal body = (sp, c) # cut u n chunk (off + spec_size sp) (ordinal + 1) more"
    by (simp only: sz parts)
  moreover have "set ps \<subseteq> set (cut u n chunk (off + spec_size sp) (ordinal + 1) more)"
    by (rule 2(1) [OF rest body(2)]) (use c body 2(4,5) in auto)
  ultimately show ?case by auto
qed simp

lemma accounted_work:
  assumes acc: "accounted env ps tasks uploaded" and ps: "tasks_work env ps"
  shows "tasks_work env tasks"
proof -
  have "\<exists>b. run env t = Inr b" if "t \<in> set tasks" for t
  proof -
    have "run env t \<in> set_mset (mset (map (run env) ps))"
      using that unfolding acc [unfolded accounted_def] by simp
    then obtain p where "p \<in> set ps" "run env t = run env p" by auto
    with ps show ?thesis by (simp add: tasks_work_def)
  qed
  then show ?thesis by (simp add: tasks_work_def)
qed

lemma laid_work:
  assumes "tasks_work env (cut u n (ue_chunk_size env) 0 0 body)" and "0 < ue_chunk_size env"
    and "laid u n (ue_chunk_size env) (int (length body)) 0 0 ps" and "prefix (concat (map snd ps)) body"
  shows "tasks_work env ps"
  using assms(1) laid_in_cut [OF assms(3,4) _ assms(2)] by (auto simp: tasks_work_def)

lemma feed_inv_closed:
  assumes "feed_inv env u n expected B st" and "fd_current st = None"
  shows "fd_offset st = int (length B)"
proof -
  from assms obtain ps where "laid u n (ue_chunk_size env) expected 0 0 ps" "fd_offset st = piece_sizes ps"
      "B = concat (map snd ps)" by (auto simp: feed_inv_def)
  then show ?thesis using laid_lengths by metis
qed

lemma feed_inv_open:
  assumes "feed_inv env u n expected B st" and "fd_current st = Some (sp, w)"
  shows "0 \<le> fd_offset st \<and> fd_offset st + spec_size sp \<le> expected \<and> int (length w) < spec_size sp"
proof -
  from assms obtain ps where ps: "laid u n (ue_chunk_size env) expected 0 0 ps" "fd_offset st = piece_sizes ps"
      and "int (length w) < spec_size sp" "spec_size sp \<le> expected - fd_offset st" by (auto simp: feed_inv_def)
  moreover have "0 \<le> fd_offset st" using laid_lengths [OF ps(1)] ps(2) by (metis of_nat_0_le_iff)
  ultimately show ?thesis by simp
qed

lemma block_size_works:
  "0 < chunk \<Longrightarrow> 0 \<le> off \<Longrightarrow> off < tot \<Longrightarrow> tot \<le> i64_max \<Longrightarrow> block_size chunk off tot = Inr (min (tot - off) chunk)"
  by (simp add: block_size_def checked_sub_def i64_defs)

lemma open_block_works:
  assumes inv: "feed_inv env u n expected B st" and room: "int (length B) < expected"
    and small: "expected \<le> i64_max" and chunk: "0 < ue_chunk_size env"
  shows "\<exists>p st1. open_block env u n expected st = Inr (p, st1)"
proof (cases "fd_current st")
  case None
  then have "block_size (ue_chunk_size env) (fd_offset st) expected
      = Inr (min (expected - fd_offset st) (ue_chunk_size env))"
    using feed_inv_closed [OF inv None] room small chunk by (simp add: block_size_works)
  with None show ?thesis by (simp add: open_block_def Let_def)
qed (simp add: open_block_def)

lemma finish_block_works:
  assumes w: "env_works env" and t: "tasks_work env (fd_tasks st @ [p])"
    and off: "0 \<le> fd_offset st" "0 \<le> spec_size (fst p)" "fd_offset st + spec_size (fst p) \<le> i64_max"
  shows "\<exists>st'. finish_block env p st = (None, st')"
proof -
  obtain tasks uploaded where r: "(if ue_concurrency env \<le> Suc (length (fd_tasks st))
        then reap_one env (fd_tasks st @ [p]) (fd_uploaded st)
        else (None, fd_tasks st @ [p], fd_uploaded st)) = (None, tasks, uploaded)"
    using reap_step_works [OF t] by blast
  have "checked_add (fd_offset st) (spec_size (fst p)) = Some (fd_offset st + spec_size (fst p))"
    using off by (simp add: checked_add_def i64_defs)
  moreover have "ue_shutdown env (fst p) = None" using w by (simp add: env_works_def)
  ultimately show ?thesis using r
    by (cases "ue_concurrency env \<le> Suc (length (fd_tasks st))") (auto simp: finish_block_def Let_def checked_add_def)
qed

text \<open>The tasks running when a block of the body \<open>W\<close> is finished.\<close>

lemma finishing_work:
  assumes inv: "feed_inv env u n expected B st" and cur: "fd_current st = Some (sp, w)"
    and full: "length (w @ extra) = nat (spec_size sp)" and pre: "prefix (B @ extra) W"
    and exp: "int (length W) = expected" and chunk: "0 < ue_chunk_size env"
    and work: "tasks_work env (cut u n (ue_chunk_size env) 0 0 W)"
  shows "tasks_work env (fd_tasks st @ [(sp, w @ extra)])"
proof -
  from inv cur obtain ps where ps: "laid u n (ue_chunk_size env) expected 0 0 ps"
      "fd_offset st = piece_sizes ps" "accounted env ps (fd_tasks st) (fd_uploaded st)"
      "B = concat (map snd ps) @ w"
      "sp = \<lparr>spec_upload_id = u, spec_part_number = n, spec_ordinal = int (length ps),
             spec_offset = fd_offset st, spec_size = min (expected - fd_offset st) (ue_chunk_size env)\<rparr>"
      "int (length w) < spec_size sp"
    by (auto simp: feed_inv_def)
  let ?ps = "ps @ [(sp, w @ extra)]"
  have "laid u n (ue_chunk_size env) (int (length W)) 0 0 ?ps"
    unfolding laid_append exp using ps full by auto
  from laid_work [OF work chunk this] have "tasks_work env ?ps" using pre ps(4) by simp
  moreover have "accounted env ?ps (fd_tasks st @ [(sp, w @ extra)]) (fd_uploaded st)"
    using ps(3) by (simp add: accounted_def)
  ultimately show ?thesis using accounted_work by blast
qed

lemma feed_data_works:
  assumes "env_works env" and "0 < ue_chunk_size env" and "expected \<le> i64_max"
    and "int (length W) = expected" and "tasks_work env (cut u n (ue_chunk_size env) 0 0 W)"
    and "feed_inv env u n expected B st" and "prefix (B @ data) W"
  shows "\<exists>st'. feed_data env u n expected fuel data st = (None, st')"
  using assms(6,7)
proof (induction fuel arbitrary: data st B)
  case (Suc fuel)
  show ?case
  proof (cases "data = []")
    case False
    have "length (B @ data) \<le> length W" using Suc.prems(2) by (rule prefix_length_le)
    with False assms(4) have "int (length B) < expected" by (cases data) auto
    from open_block_works [OF Suc.prems(1) this assms(3,2)]
    obtain sp w st1 where op: "open_block env u n expected st = Inr ((sp, w), st1)" by auto
    from open_block_inv [OF Suc.prems(1) op assms(2)]
    have inv1: "feed_inv env u n expected B st1" and cur1: "fd_current st1 = Some (sp, w)" by simp_all
    note room = feed_inv_open [OF inv1 cur1]
    let ?a = "min (nat (spec_size sp) - length w) (length data)"
    let ?p = "(sp, w @ take ?a data)"
    have pre: "prefix (B @ take ?a data) W"
      using Suc.prems(2) by (metis append_assoc append_prefixD append_take_drop_id)
    obtain st2 where st2: "(if length (snd ?p) = nat (spec_size sp) then finish_block env ?p st1
           else (None, st1\<lparr>fd_current := Some ?p\<rparr>)) = (None, st2)"
      using finish_block_works [OF assms(1) finishing_work [OF inv1 cur1 _ pre assms(4,2,5)]] room assms(3)
      by (cases "length (snd ?p) = nat (spec_size sp)") auto
    have wr: "ue_write env sp (length w) ?a = None" using assms(1) by (simp add: env_works_def)
    have one: "feed_data env u n expected (Suc fuel) data st
        = feed_data env u n expected fuel (drop ?a data) st2"
      using False op wr st2 by (simp only: feed_data.simps if_False sum.case prod.case option.case Let_def snd_conv)
    have inv2: "feed_inv env u n expected (B @ take ?a data) st2"
      by (rule write_step_inv [OF inv1 cur1]) (use st2 room in auto)
    show ?thesis unfolding one by (rule Suc.IH [OF inv2]) (use Suc.prems(2) in simp)
  qed simp
qed simp

lemma source_loop_works:
  assumes "env_works env" and "0 < ue_chunk_size env" and "expected \<le> i64_max"
    and "int (length W) = expected" and "tasks_work env (cut u n (ue_chunk_size env) 0 0 W)"
    and "expected \<le> ue_max_object_size env"
    and "feed_inv env u n expected (fd_digest st) st" and "fd_total st = int (length (fd_digest st))"
    and "prefix (fd_digest st @ concat chunks) W"
  shows "\<exists>st'. source_loop env u n expected (map Inr chunks) st = (None, st')"
  using assms(7-9)
proof (induction chunks arbitrary: st)
  case (Cons data chunks)
  let ?st = "st\<lparr>fd_digest := fd_digest st @ data, fd_total := fd_total st + int (length data)\<rparr>"
  have "feed_inv env u n expected (fd_digest st) ?st = feed_inv env u n expected (fd_digest st) st"
    by (rule feed_inv_frame) simp_all
  with Cons.prems(1) have inv: "feed_inv env u n expected (fd_digest st) ?st" by simp
  have "prefix (fd_digest st @ data) W" using Cons.prems(3) by (simp add: append_prefixD flip: append_assoc)
  from feed_data_works [OF assms(1-5) inv this]
  obtain st1 where fd: "feed_data env u n expected (length data) data ?st = (None, st1)" by blast
  have inv1: "feed_inv env u n expected (fd_digest st @ data) st1"
    using fd order_refl inv assms(2) by (rule feed_data_inv)
  have same: "fd_digest st1 = fd_digest st @ data \<and> fd_total st1 = fd_total st + int (length data)"
    using feed_data_frame [OF fd] by simp
  obtain w where "ue_throttle env (length (fd_digest st)) (length data) = Inr w"
    using assms(1) unfolding env_works_def by blast
  moreover have "checked_add (fd_total st) (int (length data)) = Some (fd_total st + int (length data))"
    "\<not> fd_total st + int (length data) > ue_max_object_size env" "\<not> fd_total st + int (length data) > expected"
    using Cons.prems(2) prefix_length_le [OF Cons.prems(3)] assms(3,4,6) by (auto simp: i64_defs)
  ultimately have step: "source_loop env u n expected (map Inr (data # chunks)) st
      = source_loop env u n expected (map Inr chunks) st1"
    using fd by (simp add: checked_add_def)
  show ?case unfolding step
    by (rule Cons.IH) (use inv1 same Cons.prems(2,3) in simp_all)
qed simp

lemma feed_inv_finished:
  assumes inv: "feed_inv env u n expected W st" and "int (length W) = expected"
  shows "fd_current st = None"
proof (cases "fd_current st")
  case (Some q)
  obtain sp w where q: "q = (sp, w)" by (cases q) auto
  from inv Some q obtain ps where ps: "laid u n (ue_chunk_size env) expected 0 0 ps"
      "fd_offset st = piece_sizes ps" "W = concat (map snd ps) @ w"
      "spec_size sp \<le> expected - fd_offset st" "int (length w) < spec_size sp"
    by (auto simp: feed_inv_def)
  with laid_lengths [OF ps(1)] assms(2) show ?thesis by simp
qed simp

lemma feed_inv_work:
  assumes inv: "feed_inv env u n expected W st" and exp: "int (length W) = expected" and chunk: "0 < ue_chunk_size env"
    and work: "tasks_work env (cut u n (ue_chunk_size env) 0 0 W)"
  shows "tasks_work env (fd_tasks st)"
proof -
  from inv feed_inv_finished [OF inv exp] obtain ps where ps: "laid u n (ue_chunk_size env) expected 0 0 ps"
      "accounted env ps (fd_tasks st) (fd_uploaded st)" "W = concat (map snd ps)"
    by (auto simp: feed_inv_def)
  from laid_work [OF work chunk ps(1) [folded exp]] ps(2,3) show ?thesis using accounted_work by auto
qed

lemma upload_known_length_works:
  assumes w: "env_works env" and chunk: "0 < ue_chunk_size env"
    and size: "int (length (concat chunks)) \<le> ue_max_object_size env" "int (length (concat chunks)) \<le> i64_max"
    and work: "tasks_work env (cut u n (ue_chunk_size env) 0 0 (concat chunks))"
  shows "\<exists>r. upload_known_length env u n (map Inr chunks) (int (length (concat chunks))) = Inr r"
proof -
  let ?e = "int (length (concat chunks))"
  have init: "feed_inv env u n ?e (fd_digest feed_init) feed_init"
    unfolding feed_inv_def by (intro exI [of _ "[]"]) (simp add: feed_init_def accounted_def)
  have zero: "fd_total feed_init = int (length (fd_digest feed_init))" by (simp add: feed_init_def)
  from source_loop_works [OF w chunk size(2) refl work size(1) init zero]
  obtain st where loop: "source_loop env u n ?e (map Inr chunks) feed_init = (None, st)"
    by (auto simp: feed_init_def)
  have "fd_digest feed_init = []" by (simp add: feed_init_def)
  with source_loop_inv [OF loop init chunk zero]
  have st: "feed_inv env u n ?e (concat chunks) st" "fd_total st = ?e" by auto
  note cur = feed_inv_finished [OF st(1) refl]
  obtain uploaded where "drain_tasks env (fd_tasks st) (fd_uploaded st) None = (None, uploaded)"
    using drain_tasks_works [OF feed_inv_work [OF st(1) refl chunk work]] by blast
  with cur st(2) show ?thesis
    unfolding upload_known_length_def loop by simp
qed

section \<open>Bodies of unknown length\<close>

lemma spool_frames_works:
  assumes "env_works env"
    and "int (length sf) + int (length (concat chunks)) \<le> ue_max_object_size env"
    and "int (length sf) + int (length (concat chunks)) \<le> i64_max"
  shows "spool_frames env (map Inr chunks) sf = Inr (sf @ concat chunks)"
  using assms(2,3)
proof (induction chunks arbitrary: sf)
  case (Cons data chunks)
  obtain w where "ue_throttle env (length sf) (length data) = Inr w"
    using assms(1) unfolding env_works_def by blast
  moreover have "checked_add (int (length sf)) (int (length data)) = Some (int (length sf) + int (length data))"
    using Cons.prems(2) by (simp add: i64_defs)
  ultimately show ?case using Cons by (simp add: checked_add_def)
qed simp

lemma spool_loop_works:
  assumes "env_works env" and "0 < ue_chunk_size env" and "int (length sf) \<le> i64_max"
    and "tasks_work env (cut u n (ue_chunk_size env) 0 0 sf)"
    and "off \<le> int (length sf)"
    and "laid u n (ue_chunk_size env) (int (length sf)) 0 0 ps" "off = piece_sizes ps"
      "ordinal = int (length ps)" "concat (map snd ps) = take (nat off) sf"
    and "accounted env ps tasks uploaded"
  shows "\<exists>tasks' uploaded'. spool_loop env u n sf fuel ordinal off tasks uploaded = Inr (None, tasks', uploaded')
    \<and> tasks_work env tasks'"
  using assms(5-)
proof (induction fuel arbitrary: ordinal off tasks uploaded ps)
  case 0
  have "prefix (concat (map snd ps)) sf" by (simp add: 0 take_is_prefix)
  with laid_work [OF assms(4,2) 0(2)] accounted_work [OF 0(6)] show ?case by simp
next
  case (Suc fuel)
  have pre: "prefix (concat (map snd ps)) sf" by (simp add: Suc.prems take_is_prefix)
  have off0: "0 \<le> off" using laid_lengths [OF Suc.prems(2)] Suc.prems(3) by (metis of_nat_0_le_iff)
  show ?case
  proof (cases "off < int (length sf)")
    case False
    with laid_work [OF assms(4,2) Suc.prems(2) pre] accounted_work [OF Suc.prems(6)] show ?thesis by simp
  next
    case True
    let ?sz = "min (int (length sf) - off) (ue_chunk_size env)"
    let ?p = "(\<lparr>spec_upload_id = u, spec_part_number = n, spec_ordinal = ordinal,
        spec_offset = off, spec_size = ?sz\<rparr>, take (nat ?sz) (drop (nat off) sf))"
    have bs: "block_size (ue_chunk_size env) off (int (length sf)) = Inr ?sz"
      using off0 True assms(2,3) by (simp add: block_size_works)
    have add: "checked_add off ?sz = Some (off + ?sz)"
      using off0 True assms(2,3) by (auto simp: i64_defs min_def)
    have sz: "0 < ?sz" using True assms(2) by simp
    have len: "int (length (take (nat ?sz) (drop (nat off) sf))) = ?sz" using sz off0 True by auto
    have lay: "laid u n (ue_chunk_size env) (int (length sf)) 0 0 (ps @ [?p])"
      unfolding laid_append using Suc.prems(2-4) sz len by simp
    have cat: "concat (map snd (ps @ [?p])) = take (nat (off + ?sz)) sf"
      using Suc.prems(5) sz off0 by (simp add: take_add nat_add_distrib)
    have acc: "accounted env (ps @ [?p]) (tasks @ [?p]) uploaded"
      using Suc.prems(6) by (simp add: accounted_def)
    have "tasks_work env (ps @ [?p])"
      by (rule laid_work [OF assms(4,2) lay]) (unfold cat, rule take_is_prefix)
    from reap_step_works [OF accounted_work [OF acc this]]
    obtain tasks2 uploaded2 where t: "(if ue_concurrency env \<le> Suc (length tasks)
        then reap_one env (tasks @ [?p]) uploaded
        else (None, tasks @ [?p], uploaded)) = (None, tasks2, uploaded2)" by blast
    have acc2: "accounted env (ps @ [?p]) tasks2 uploaded2"
      using t acc reap_one_accounted [OF acc] by (auto split: if_splits)
    have "spool_loop env u n sf (Suc fuel) ordinal off tasks uploaded
        = spool_loop env u n sf fuel (ordinal + 1) (off + ?sz) tasks2 uploaded2"
      using True bs add t by (simp add: Let_def checked_add_def)
    moreover have "\<exists>tasks' uploaded'. spool_loop env u n sf fuel (ordinal + 1) (off + ?sz) tasks2 uploaded2
          = Inr (None, tasks', uploaded') \<and> tasks_work env tasks'"
      by (rule Suc.IH [OF _ lay _ _ cat acc2]) (use Suc.prems(3,4) in simp_all)
    ultimately show ?thesis by simp
  qed
qed

lemma upload_unknown_length_works:
  assumes w: "env_works env" and chunk: "0 < ue_chunk_size env"
    and size: "int (length (concat chunks)) \<le> ue_max_object_size env" "int (length (concat chunks)) \<le> i64_max"
    and work: "tasks_work env (cut u n (ue_chunk_size env) 0 0 (concat chunks))"
  shows "\<exists>r. upload_unknown_length env u n (map Inr chunks) = Inr r"
proof -
  let ?sf = "concat chunks"
  obtain tasks upl where loop: "spool_loop env u n ?sf (length ?sf) 0 0 [] [] = Inr (None, tasks, upl)"
    and tw: "tasks_work env tasks"
    using spool_loop_works [OF w chunk size(2) work, of 0 "[]" 0 "[]" "[]" "length ?sf"]
    by (auto simp: accounted_def)
  obtain uploaded where "drain_tasks env tasks upl None = (None, uploaded)"
    using drain_tasks_works [OF tw] by blast
  with loop spool_frames_works [OF w, of "[]" chunks] size show ?thesis
    by (simp add: upload_unknown_length_def upload_spooled_def)
qed

lemma upload_works:
  assumes "env_works env" and "0 < ue_chunk_size env"
    and "int (length (concat chunks)) \<le> ue_max_object_size env" "int (length (concat chunks)) \<le> i64_max"
    and "tasks_work env (cut u n (ue_chunk_size env) 0 0 (concat chunks))"
    and "len \<noteq> None \<longrightarrow> len = Some (int (length (concat chunks)))"
  shows "\<exists>part sz. upload env u n (map Inr chunks) len = Inr (part, sz)"
  using upload_known_length_works [OF assms(1-5)] upload_unknown_length_works [OF assms(1-5)] assms(6)
  by (cases len) (auto simp: upload_def)

end
