(* ===== verification/Download.thy ===== *)
theory Download
  imports Size_Limits Telegram Db_Support
begin

text \<open>
  Reading back: \<open>exact_range_stream\<close> (\<open>src/telegram/download.rs\<close>), which cuts a byte range
  out of the chunks a backend delivers; the downloads of the two backends
  (\<open>telegram/bot_api.rs\<close>, \<open>telegram/grammers.rs\<close>) and their dispatch
  (\<open>telegram/mod.rs\<close>); and \<open>range_stream\<close> (\<open>src/transfer/download.rs\<close>), which serves a
  range of an object from its blocks.

  A stream is the list of the items it yields: an error or a chunk of bytes. A consumer stops
  at the first error. What a backend contributes is a parameter: the file path Telegram
  returns, the bytes of a local file, the HTTP response, the chunks of a document.
\<close>

type_synonym bytes = "nat list"
type_synonym stream = "(error + bytes) list"

section \<open>Streams\<close>

text \<open>What a consumer receives: the bytes before the first error, and that error.\<close>

fun collect :: "stream \<Rightarrow> bytes \<times> error option" where
  "collect [] = ([], None)"
| "collect (Inl e # s) = ([], Some e)"
| "collect (Inr c # s) = (c @ fst (collect s), snd (collect s))"

definition slice :: "int \<Rightarrow> int \<Rightarrow> bytes \<Rightarrow> bytes" where
  "slice start stop xs = take (nat (stop - start + 1)) (drop (nat start) xs)"

text \<open>\<open>got\<close> is what was asked for, or the part of it that came before an error.\<close>

definition delivers :: "stream \<Rightarrow> bytes \<Rightarrow> bool" where
  "delivers s wanted \<longleftrightarrow>
     prefix (fst (collect s)) wanted \<and> (snd (collect s) = None \<longrightarrow> fst (collect s) = wanted)"

lemma collect_append:
  "collect (s @ t) =
     (case snd (collect s) of
        None \<Rightarrow> (fst (collect s) @ fst (collect t), snd (collect t))
      | Some e \<Rightarrow> collect s)"
  by (induction s rule: collect.induct) (auto split: option.splits simp: prod_eq_iff)

section \<open>\<open>exact_range_stream\<close>\<close>

definition short_stream :: "nat \<Rightarrow> error" where
  "short_stream n = Other (lit ''Telegram returned a short stream: '' @ show_nat n @ lit '' bytes remain'')"

fun exact_range_stream :: "stream \<Rightarrow> nat \<Rightarrow> nat \<Rightarrow> stream" where
  "exact_range_stream [] skip remaining =
     (if remaining = 0 then [] else [Inl (short_stream remaining)])"
| "exact_range_stream (Inl e # src) skip remaining = (if remaining = 0 then [] else [Inl e])"
| "exact_range_stream (Inr chunk # src) skip remaining =
     (if remaining = 0 then []
      else if chunk = [] then exact_range_stream src skip remaining
      else if skip \<ge> length chunk then exact_range_stream src (skip - length chunk) remaining
      else let chunk = drop skip chunk; n = min remaining (length chunk)
           in Inr (take n chunk) # exact_range_stream src 0 (remaining - n))"

lemma exact_range_stream_zero [simp]: "exact_range_stream src skip 0 = []"
  by (induction src skip "0::nat" rule: exact_range_stream.induct) auto

lemma exact_range_stream_bytes:
  "fst (collect (exact_range_stream src skip n)) = take n (drop skip (fst (collect src)))"
proof (induction src skip n rule: exact_range_stream.induct)
  case (3 chunk src skip remaining)
  show ?case
  proof (cases "remaining = 0 \<or> chunk = [] \<or> skip \<ge> length chunk")
    case True
    with 3 show ?thesis by auto
  next
    case False
    let ?c = "drop skip chunk"
    have "drop skip (chunk @ fst (collect src)) = ?c @ fst (collect src)" using False by simp
    moreover have "exact_range_stream (Inr chunk # src) skip remaining
        = Inr (take (min remaining (length ?c)) ?c)
          # exact_range_stream src 0 (remaining - min remaining (length ?c))"
      using False by (simp add: Let_def)
    moreover have "fst (collect (exact_range_stream src 0 (remaining - min remaining (length ?c))))
        = take (remaining - min remaining (length ?c)) (fst (collect src))"
      using 3(3) [OF _ _ _ refl refl] False by simp
    ultimately show ?thesis by (simp add: min_def)
  qed
qed auto

lemma exact_range_stream_complete:
  "snd (collect (exact_range_stream src skip n)) = None
     \<longleftrightarrow> n = 0 \<or> skip + n \<le> length (fst (collect src))"
proof (induction src skip n rule: exact_range_stream.induct)
  case (3 chunk src skip remaining)
  show ?case
  proof (cases "remaining = 0 \<or> chunk = [] \<or> skip \<ge> length chunk")
    case True
    with 3 show ?thesis by auto
  next
    case False
    let ?c = "drop skip chunk"
    have "exact_range_stream (Inr chunk # src) skip remaining
        = Inr (take (min remaining (length ?c)) ?c)
          # exact_range_stream src 0 (remaining - min remaining (length ?c))"
      using False by (simp add: Let_def)
    moreover have "snd (collect (exact_range_stream src 0 (remaining - min remaining (length ?c)))) = None
        \<longleftrightarrow> remaining - min remaining (length ?c) = 0
          \<or> 0 + (remaining - min remaining (length ?c)) \<le> length (fst (collect src))"
      using 3(3) [OF _ _ _ refl refl] False by simp
    ultimately show ?thesis using False by auto
  qed
qed auto

text \<open>A stream of chunks that begins with the wanted bytes after \<open>skip\<close> others.\<close>

lemma exact_range_stream_delivers:
  assumes "prefix wanted (drop skip whole)" and "prefix (fst (collect src)) whole"
  shows "delivers (exact_range_stream src skip (length wanted)) wanted"
proof -
  obtain rest more where r: "drop skip whole = wanted @ rest" "whole = fst (collect src) @ more"
    using assms by (auto elim!: prefixE)
  have "drop skip (fst (collect src)) @ drop (skip - length (fst (collect src))) more = wanted @ rest"
    using r by simp
  then have "take (length wanted) (drop skip (fst (collect src))
      @ drop (skip - length (fst (collect src))) more) = wanted" by simp
  then have pre: "prefix (take (length wanted) (drop skip (fst (collect src)))) wanted"
    by (metis prefixI take_append)
  have "take (length wanted) (drop skip (fst (collect src))) = wanted"
    if "skip + length wanted \<le> length (fst (collect src)) \<or> wanted = []"
  proof -
    have len: "length (take (length wanted) (drop skip (fst (collect src)))) = length wanted"
      using that by auto
    from pre obtain zs where zs: "wanted = take (length wanted) (drop skip (fst (collect src))) @ zs"
      by (auto elim!: prefixE)
    have "length zs = 0" using len arg_cong [OF zs, of length] by simp
    with zs show ?thesis by simp
  qed
  then show ?thesis
    using pre by (auto simp: delivers_def exact_range_stream_bytes exact_range_stream_complete)
qed

section \<open>The contract of a backend\<close>

text \<open>
  A backend reads the bytes \<open>s\<close> to \<open>e\<close> (inclusive) of a block. \<open>faithful b c s e\<close> says that
  Telegram answers this request truthfully when \<open>c\<close> is what was uploaded. Then the stream
  is those bytes, or a prefix of them followed by an error.
\<close>

locale block_reader =
  fixes read :: "block_ref \<Rightarrow> int \<Rightarrow> int \<Rightarrow> error + stream"
    and faithful :: "block_ref \<Rightarrow> bytes \<Rightarrow> int \<Rightarrow> int \<Rightarrow> bool"
  assumes read_delivers: "read b s e = Inr items \<Longrightarrow> 0 \<le> s \<Longrightarrow> s \<le> e \<Longrightarrow> e < int (length c)
    \<Longrightarrow> faithful b c s e \<Longrightarrow> delivers items (slice s e c)"

section \<open>\<open>range_stream\<close>\<close>

text \<open>
  The items of one block's stream: empty chunks are dropped, each chunk passes the bandwidth
  limiter (\<open>gate\<close>), an error ends the stream (the flag). The semaphore of download slots is
  never closed, so acquiring a slot only delays.
\<close>

fun forward :: "(nat \<Rightarrow> error + nat) \<Rightarrow> stream \<Rightarrow> stream \<times> bool" where
  "forward gate [] = ([], False)"
| "forward gate (Inl e # s) = ([Inl e], True)"
| "forward gate (Inr c # s) =
     (if c = [] then forward gate s
      else (case gate (length c) of
              Inl e \<Rightarrow> ([Inl e], True)
            | Inr _ \<Rightarrow> (case forward gate s of (out, terminated) \<Rightarrow> (Inr c # out, terminated))))"

fun range_stream ::
  "(block_ref \<Rightarrow> int \<Rightarrow> int \<Rightarrow> error + stream) \<Rightarrow> (nat \<Rightarrow> error + nat) \<Rightarrow> block_ref list
     \<Rightarrow> int \<Rightarrow> int \<Rightarrow> stream"
where
  "range_stream read gate [] s e = []"
| "range_stream read gate (b # bs) s e =
     (let block_end = blk_offset b + blk_size b - 1
      in if block_end < s \<or> blk_offset b > e then range_stream read gate bs s e
         else (case read b (max s (blk_offset b) - blk_offset b) (min e block_end - blk_offset b) of
                 Inl err \<Rightarrow> [Inl err]
               | Inr items \<Rightarrow>
                   (case forward gate items of
                      (out, terminated) \<Rightarrow>
                        if terminated then out else out @ range_stream read gate bs s e)))"

lemma forward_collect:
  "forward gate s = (out, terminated) \<Longrightarrow>
     prefix (fst (collect out)) (fst (collect s))
     \<and> (terminated \<longleftrightarrow> snd (collect out) \<noteq> None)
     \<and> (\<not> terminated \<longrightarrow> snd (collect s) = None \<and> fst (collect out) = fst (collect s))"
proof (induction gate s arbitrary: out terminated rule: forward.induct)
  case (3 gate c s)
  then show ?case by (auto split: if_splits sum.splits prod.splits)
qed auto

lemma forward_delivers:
  assumes "forward gate s = (out, terminated)" and "delivers s wanted"
  shows "delivers out wanted" "terminated \<longleftrightarrow> snd (collect out) \<noteq> None"
  using forward_collect [OF assms(1)] assms(2)
  by (auto simp: delivers_def dest: prefix_order.trans)

lemma delivers_append: "delivers s a \<Longrightarrow> delivers t b \<Longrightarrow> delivers (s @ t) (a @ b)"
  by (auto simp: delivers_def collect_append split: option.splits)

lemma delivers_prefix: "delivers s a \<Longrightarrow> snd (collect s) \<noteq> None \<Longrightarrow> delivers s (a @ b)"
  by (auto simp: delivers_def)

text \<open>The part of a range that falls on the blocks from \<open>off\<close> on, whose bytes are \<open>R\<close>.\<close>

definition wanted_from :: "int \<Rightarrow> int \<Rightarrow> int \<Rightarrow> bytes \<Rightarrow> bytes" where
  "wanted_from off s e R = take (nat (e - max s off + 1)) (drop (nat (s - off)) R)"

lemma wanted_from_skip:
  assumes "off + int (length c) - 1 < s \<or> off > e"
  shows "wanted_from off s e (c @ R) = wanted_from (off + int (length c)) s e R"
proof (cases "off > e")
  case True
  then have "nat (e - max s off + 1) = 0" "nat (e - max s (off + int (length c)) + 1) = 0" by auto
  then show ?thesis by (simp add: wanted_from_def)
next
  case False
  with assms have s: "off + int (length c) \<le> s" by simp
  then have "drop (nat (s - off)) (c @ R) = drop (nat (s - (off + int (length c)))) R"
  proof -
    have "nat (s - off) - length c = nat (s - (off + int (length c)))" using s by arith
    moreover have "length c \<le> nat (s - off)" using s by arith
    ultimately show ?thesis by simp
  qed
  moreover have "max s off = s" "max s (off + int (length c)) = s" using s by auto
  ultimately show ?thesis by (simp add: wanted_from_def)
qed

lemma wanted_from_take:
  assumes "\<not> (off + int (length c) - 1 < s \<or> off > e)" and ne: "c \<noteq> []"
  shows "wanted_from off s e (c @ R)
    = slice (max s off - off) (min e (off + int (length c) - 1) - off) c
      @ wanted_from (off + int (length c)) s e R"
proof -
  define a where "a = nat (s - off)"
  define n where "n = nat (e - max s off + 1)"
  have "0 < length c" using ne by simp
  with assms(1) have a: "a < length c" "int a = max s off - off" unfolding a_def by arith+
  have n: "int n = max 0 (e - (off + int a) + 1)" using a(2) by (auto simp: n_def)
  have "take n (drop a (c @ R)) = take n (drop a c) @ take (n - (length c - a)) R"
    using a(1) by simp
  moreover have "take n (drop a c) = slice (max s off - off) (min e (off + int (length c) - 1) - off) c"
  proof -
    have "nat (max s off - off) = a" using a(2) by simp
    moreover have "nat (min e (off + int (length c) - 1) - off - (max s off - off) + 1) = min n (length c - a)"
      using a n by (auto simp: min_def max_def nat_eq_iff)
    ultimately show ?thesis by (simp add: slice_def min_def)
  qed
  moreover have "wanted_from (off + int (length c)) s e R = take (n - (length c - a)) R"
  proof -
    have "nat (s - (off + int (length c))) = 0" using assms by simp
    moreover have "max s (off + int (length c)) = off + int (length c)" using assms(1) by simp
    moreover have "nat (e - (off + int (length c)) + 1) = n - (length c - a)"
      using a(1) n by arith
    ultimately show ?thesis by (simp add: wanted_from_def)
  qed
  ultimately show ?thesis by (simp add: wanted_from_def a_def n_def)
qed

context block_reader
begin

lemma range_stream_from:
  assumes "contiguous off bs" and "list_all2 (\<lambda>b c. blk_size b = int (length c)) bs cs"
    and "\<forall>(b, c) \<in> set (zip bs cs). \<forall>s e. faithful b c s e"
    and "s \<le> e"
  shows "delivers (range_stream read gate bs s e) (wanted_from off s e (concat cs))"
  using assms(1-3)
proof (induction bs arbitrary: off cs)
  case Nil
  then show ?case by (simp add: delivers_def wanted_from_def)
next
  case (Cons b bs)
  from Cons.prems(2) obtain c cs' where cs: "cs = c # cs'" "blk_size b = int (length c)"
      "list_all2 (\<lambda>b c. blk_size b = int (length c)) bs cs'"
    by (auto simp: list_all2_Cons1)
  have b: "blk_offset b = off" "contiguous (off + int (length c)) bs" and ne: "c \<noteq> []"
    using Cons.prems(1) cs(2) by auto
  have faith: "\<forall>s e. faithful b c s e" "\<forall>(b, c) \<in> set (zip bs cs'). \<forall>s e. faithful b c s e"
    using Cons.prems(3) cs(1) by auto
  have IH: "delivers (range_stream read gate bs s e) (wanted_from (off + int (length c)) s e (concat cs'))"
    using b(2) cs(3) faith(2) by (rule Cons.IH)
  let ?be = "off + int (length c) - 1"
  show ?case
  proof (cases "?be < s \<or> off > e")
    case True
    then have "range_stream read gate (b # bs) s e = range_stream read gate bs s e"
      using b(1) cs(2) by (auto simp: Let_def)
    with IH wanted_from_skip [OF True] cs(1) show ?thesis by simp
  next
    case False
    let ?s = "max s off - off" and ?e = "min e ?be - off"
    have w: "wanted_from off s e (concat cs) = slice ?s ?e c @ wanted_from (off + int (length c)) s e (concat cs')"
      using wanted_from_take [OF False ne] cs(1) by simp
    have step: "range_stream read gate (b # bs) s e
        = (case read b ?s ?e of
             Inl err \<Rightarrow> [Inl err]
           | Inr items \<Rightarrow>
               (case forward gate items of
                  (out, terminated) \<Rightarrow> if terminated then out else out @ range_stream read gate bs s e))"
      using False b(1) cs(2) by (simp add: Let_def)
    show ?thesis
    proof (cases "read b ?s ?e")
      case (Inl err)
      then show ?thesis unfolding step by (simp only: sum.case) (simp add: delivers_def)
    next
      case (Inr items)
      have "delivers items (slice ?s ?e c)"
        using Inr by (rule read_delivers) (use False assms(4) faith(1) ne in auto)
      moreover obtain out terminated where f: "forward gate items = (out, terminated)"
        by (cases "forward gate items") auto
      ultimately have "delivers out (slice ?s ?e c)" "terminated \<longleftrightarrow> snd (collect out) \<noteq> None"
        using forward_delivers by blast+
      with Inr f IH show ?thesis
        unfolding step w by (auto intro: delivers_append delivers_prefix)
    qed
  qed
qed

text \<open>A range of a whole object.\<close>

lemma range_stream_delivers:
  assumes "contiguous 0 bs" and "list_all2 (\<lambda>b c. blk_size b = int (length c)) bs cs"
    and "\<forall>(b, c) \<in> set (zip bs cs). \<forall>s e. faithful b c s e"
    and "0 \<le> s" "s \<le> e"
  shows "delivers (range_stream read gate bs s e) (slice s e (concat cs))"
  using range_stream_from [OF assms(1-3,5), of gate] assms(4)
  by (simp add: wanted_from_def slice_def max_def)

end

section \<open>The Bot API\<close>

record http_response =
  http_status :: nat
  http_status_text :: str
  http_chunks :: stream

text \<open>
  \<open>be_get_file\<close> is the decoded answer of \<open>getFile\<close>, \<open>be_open path start length\<close> the stream of
  a local file from \<open>start\<close> limited to \<open>length\<close> bytes, \<open>be_get path start end n\<close> attempt \<open>n\<close>
  of the \<open>GET\<close> with a \<open>Range\<close> header.
\<close>

record bot_env =
  be_local :: bool
  be_get_file :: "str \<Rightarrow> error + str option"
  be_open :: "str \<Rightarrow> nat \<Rightarrow> nat \<Rightarrow> error + stream"
  be_get :: "str \<Rightarrow> int \<Rightarrow> int \<Rightarrow> nat \<Rightarrow> error + http_response"

definition range_length :: "int \<Rightarrow> int \<Rightarrow> error + nat" where
  "range_length start stop =
     (case checked_sub stop start of
        None \<Rightarrow> Inl (Other (lit ''Telegram range is too large''))
      | Some len \<Rightarrow>
          (case checked_add len 1 of
             None \<Rightarrow> Inl (Other (lit ''Telegram range is too large''))
           | Some n \<Rightarrow> if n < 0 then Inl (Other (lit ''Telegram range is too large'')) else Inr (nat n)))"

definition bot_download_stream :: "bot_env \<Rightarrow> str \<Rightarrow> int \<Rightarrow> int \<Rightarrow> error + stream" where
  "bot_download_stream env file_id start stop =
     (if start < 0 \<or> stop < start then Inl (Other (lit ''invalid Telegram range''))
      else
        bind_res (be_get_file env file_id) (\<lambda>file_path.
        case file_path of
          None \<Rightarrow> Inl (Other (lit ''Telegram getFile returned no file_path''))
        | Some path \<Rightarrow>
            bind_res (range_length start stop) (\<lambda>expected.
            if be_local env \<and> take 1 path = lit ''/'' then
              bind_res (be_open env path (nat start) expected) (\<lambda>source.
              Inr (exact_range_stream source 0 expected))
            else
              bind_res (fst (retry (lit ''file download'') True (\<lambda>n.
                bind_res (be_get env (trim_start_by (\<lambda>c. c = 0x2F) path) start stop n) (\<lambda>r.
                if \<not> is_success (http_status r) \<and> http_status r \<noteq> 206
                then Inl (Telegram_Failure (http_status r) (http_status_text r) (http_status_text r) None)
                else Inr r)))) (\<lambda>r.
              Inr (exact_range_stream (http_chunks r)
                     (if http_status r = 206 then 0 else nat start) expected)))))"

definition bot_faithful :: "bot_env \<Rightarrow> block_ref \<Rightarrow> bytes \<Rightarrow> int \<Rightarrow> int \<Rightarrow> bool" where
  "bot_faithful env b c start stop \<longleftrightarrow>
     (\<forall>path. be_get_file env (blk_file_id b) = Inr (Some path) \<longrightarrow>
        (\<forall>src. be_open env path (nat start) (nat (stop - start + 1)) = Inr src
           \<longrightarrow> prefix (fst (collect src)) (slice start stop c))
        \<and> (\<forall>n r. be_get env (trim_start_by (\<lambda>c. c = 0x2F) path) start stop n = Inr r
           \<longrightarrow> prefix (fst (collect (http_chunks r)))
                 (if http_status r = 206 then slice start stop c else c)))"

lemma range_length_Inr: "range_length s e = Inr n \<Longrightarrow> 0 \<le> e - s + 1 \<and> n = nat (e - s + 1)"
  by (auto simp: range_length_def checked_add_def checked_sub_def split: if_splits)

lemma length_slice: "0 \<le> s \<Longrightarrow> s \<le> e \<Longrightarrow> e < int (length c) \<Longrightarrow> length (slice s e c) = nat (e - s + 1)"
  by (auto simp: slice_def)

interpretation bot_api: block_reader "\<lambda>b. bot_download_stream env (blk_file_id b)" "bot_faithful env"
  for env
proof unfold_locales
  fix b s e items c
  assume dl: "bot_download_stream env (blk_file_id b) s e = Inr items"
    and r: "0 \<le> s" "s \<le> e" "e < int (length c)" and f: "bot_faithful env b c s e"
  from dl obtain path n where path: "be_get_file env (blk_file_id b) = Inr (Some path)"
      and n: "range_length s e = Inr n"
    by (auto simp: bot_download_stream_def bind_res_Inr_iff split: if_splits option.splits)
  have n: "range_length s e = Inr (nat (e - s + 1))" using n range_length_Inr by blast
  note len = length_slice [OF r]
  let ?get = "\<lambda>n. bind_res (be_get env (trim_start_by (\<lambda>c. c = 0x2F) path) s e n) (\<lambda>r.
                if \<not> is_success (http_status r) \<and> http_status r \<noteq> 206
                then Inl (Telegram_Failure (http_status r) (http_status_text r) (http_status_text r) None)
                else Inr r)"
  show "delivers items (slice s e c)"
  proof (cases "be_local env \<and> take 1 path = lit ''/''")
    case True
    with dl path n r obtain src where src: "be_open env path (nat s) (nat (e - s + 1)) = Inr src"
      and items: "items = exact_range_stream src 0 (length (slice s e c))"
      by (auto simp: bot_download_stream_def bind_res_Inr_iff len split: if_splits)
    have "prefix (fst (collect src)) (slice s e c)" using f path src by (simp add: bot_faithful_def)
    then show ?thesis unfolding items by (intro exact_range_stream_delivers [of _ _ "slice s e c"]) simp_all
  next
    case False
    with dl path n r obtain resp where get: "fst (retry (lit ''file download'') True ?get) = Inr resp"
      and items: "items = exact_range_stream (http_chunks resp)
          (if http_status resp = 206 then 0 else nat s) (length (slice s e c))"
      unfolding bot_download_stream_def len by (auto simp: bind_res_Inr_iff split: if_splits)
    from retry_loop_Inr [OF get [unfolded retry_def]] obtain k where
      "be_get env (trim_start_by (\<lambda>c. c = 0x2F) path) s e k = Inr resp"
      by (auto simp: bind_res_Inr_iff split: if_splits)
    with f path have p: "prefix (fst (collect (http_chunks resp)))
        (if http_status resp = 206 then slice s e c else c)" by (auto simp: bot_faithful_def)
    show ?thesis
    proof (cases "http_status resp = 206")
      case True
      with p show ?thesis unfolding items by (intro exact_range_stream_delivers [of _ _ "slice s e c"]) simp_all
    next
      case False
      have "prefix (slice s e c) (drop (nat s) c)" by (simp add: slice_def take_is_prefix)
      with p False show ?thesis unfolding items by (intro exact_range_stream_delivers [of _ _ c]) simp_all
    qed
  qed
qed

section \<open>\<open>grammers\<close>\<close>

record document =
  doc_size :: "nat option"
  doc_chunks :: "nat \<Rightarrow> stream"

definition download_chunk_size :: int where
  "download_chunk_size = 512 * 1024"

text \<open>
  \<open>ge_message m\<close> is the message with id \<open>m\<close> and its document, if it has one;
  \<open>doc_chunks k\<close> what the download iterator yields after skipping \<open>k\<close> chunks.
\<close>

record grammers_env =
  ge_message :: "int \<Rightarrow> error + document option option"

definition grammers_download_stream :: "grammers_env \<Rightarrow> int \<Rightarrow> int \<Rightarrow> int \<Rightarrow> error + stream" where
  "grammers_download_stream env message_id start stop =
     (if start < 0 \<or> stop < start then Inl (Other (lit ''invalid Telegram range''))
      else
        bind_res (to_i32 message_id) (\<lambda>m.
        bind_res (ge_message env m) (\<lambda>found.
        case found of
          None \<Rightarrow> Inl (Other (lit ''Telegram message not found''))
        | Some None \<Rightarrow> Inl (Other (lit ''Telegram message has no document''))
        | Some (Some doc) \<Rightarrow>
            if (case doc_size doc of None \<Rightarrow> False | Some sz \<Rightarrow> stop \<ge> min (int sz) i64_max)
            then Inl (Other (lit ''Telegram range exceeds document size''))
            else
              let skip = start div download_chunk_size;
                  iterator_offset = skip * download_chunk_size
              in if \<not> skip < 2 ^ 31 then Inl (Other (lit ''Telegram download offset is too large''))
                 else bind_res (range_length start stop) (\<lambda>expected.
                      Inr (exact_range_stream (doc_chunks doc (nat skip))
                             (nat (start - iterator_offset)) expected)))))"

definition grammers_faithful :: "grammers_env \<Rightarrow> block_ref \<Rightarrow> bytes \<Rightarrow> int \<Rightarrow> int \<Rightarrow> bool" where
  "grammers_faithful env b c start stop \<longleftrightarrow>
     (\<forall>doc k. ge_message env (blk_message_id b) = Inr (Some (Some doc))
        \<longrightarrow> prefix (fst (collect (doc_chunks doc k))) (drop (k * nat download_chunk_size) c))"

lemma grammers_download_Inr:
  assumes "grammers_download_stream env m s e = Inr items"
  shows "\<exists>doc n. ge_message env m = Inr (Some (Some doc)) \<and> range_length s e = Inr n
    \<and> items = exact_range_stream (doc_chunks doc (nat (s div download_chunk_size)))
          (nat (s - s div download_chunk_size * download_chunk_size)) n"
proof -
  from assms have "to_i32 m = Inr m" "\<not> (s < 0 \<or> e < s)"
    by (auto simp: grammers_download_stream_def bind_res_Inr_iff to_i32_def split: if_splits)
  with assms obtain found where found: "ge_message env m = Inr found"
    by (auto simp: grammers_download_stream_def bind_res_Inr_iff)
  with assms \<open>to_i32 m = Inr m\<close> \<open>\<not> (s < 0 \<or> e < s)\<close> obtain doc where doc: "found = Some (Some doc)"
    by (cases found) (auto simp: grammers_download_stream_def split: option.splits)
  with assms found \<open>to_i32 m = Inr m\<close> \<open>\<not> (s < 0 \<or> e < s)\<close> show ?thesis
    by (auto simp: grammers_download_stream_def Let_def bind_res_Inr_iff split: if_splits)
qed

interpretation grammers: block_reader
  "\<lambda>b. grammers_download_stream env (blk_message_id b)" "grammers_faithful env" for env
proof unfold_locales
  fix b s e items c
  assume dl: "grammers_download_stream env (blk_message_id b) s e = Inr items"
    and r: "0 \<le> s" "s \<le> e" "e < int (length c)" and f: "grammers_faithful env b c s e"
  define k where "k = nat (s div download_chunk_size)"
  have k: "int k = s div download_chunk_size" using r(1) by (simp add: k_def download_chunk_size_def)
  from grammers_download_Inr [OF dl] obtain doc n where
    doc: "ge_message env (blk_message_id b) = Inr (Some (Some doc))"
    and n: "range_length s e = Inr n"
    and items: "items = exact_range_stream (doc_chunks doc k)
          (nat (s - s div download_chunk_size * download_chunk_size)) n"
    unfolding k_def by blast
  have n: "n = length (slice s e c)" using range_length_Inr [OF n] length_slice [OF r] by simp
  have "drop (nat (s - s div download_chunk_size * download_chunk_size)) (drop (k * nat download_chunk_size) c)
      = drop (nat s) c"
  proof -
    have "nat (s - s div download_chunk_size * download_chunk_size) + k * nat download_chunk_size = nat s"
      using r(1) by (simp add: k_def download_chunk_size_def flip: k)
    then show ?thesis by (simp add: add.commute)
  qed
  moreover have "prefix (slice s e c) (drop (nat s) c)" by (simp add: slice_def take_is_prefix)
  ultimately show "delivers items (slice s e c)"
    using f doc unfolding items n
    by (intro exact_range_stream_delivers [of _ _ "drop (k * nat download_chunk_size) c"])
      (simp_all add: grammers_faithful_def)
qed

section \<open>Dispatch\<close>

definition download_stream ::
  "telegram_client \<Rightarrow> bot_env \<Rightarrow> grammers_env \<Rightarrow> block_ref \<Rightarrow> int \<Rightarrow> int \<Rightarrow> error + stream"
where
  "download_stream tg api gram b start stop =
     (case blk_backend b of
        BotApi \<Rightarrow> bot_download_stream api (blk_file_id b) start stop
      | Grammers \<Rightarrow>
          if has_grammers tg then grammers_download_stream gram (blk_message_id b) start stop
          else Inl no_grammers)"

definition telegram_faithful :: "bot_env \<Rightarrow> grammers_env \<Rightarrow> block_ref \<Rightarrow> bytes \<Rightarrow> int \<Rightarrow> int \<Rightarrow> bool" where
  "telegram_faithful api gram b =
     (case blk_backend b of BotApi \<Rightarrow> bot_faithful api b | Grammers \<Rightarrow> grammers_faithful gram b)"

interpretation telegram: block_reader "download_stream tg api gram" "telegram_faithful api gram"
  for tg api gram
proof unfold_locales
  fix b s e items c
  assume "download_stream tg api gram b s e = Inr items" "0 \<le> s" "s \<le> e" "e < int (length c)"
    "telegram_faithful api gram b c s e"
  then show "delivers items (slice s e c)"
    by (cases "blk_backend b")
      (auto simp: download_stream_def telegram_faithful_def split: if_splits
        intro: bot_api.read_delivers grammers.read_delivers)
qed

end
