(* ===== verification/Cleanup.thy ===== *)
theory Cleanup
  imports Upload Gc_System Db_Results
begin

text \<open>
  \<open>src/transfer/cleanup.rs\<close> and \<open>src/transfer/upload/task.rs\<close>: one block's upload, the registry
  of staged blocks an upload owns, and their removal when the upload fails or is dropped.
\<close>

section \<open>The server's state\<close>

text \<open>
  What the operations that talk to Telegram change: the database, and the log of the messages
  whose deletion was requested (whatever Telegram answered). \<open>te_post\<close> and \<open>te_rpc\<close> are the
  outcomes of the two backends' deletion calls.
\<close>

record server =
  srv_db :: db
  srv_deleted :: "int list"

lemma server_swap [simp]: "s\<lparr>srv_deleted := x\<rparr>\<lparr>srv_db := y\<rparr> = s\<lparr>srv_db := y, srv_deleted := x\<rparr>"
  by simp

record tg_env =
  te_client :: telegram_client
  te_post :: "int list \<Rightarrow> error + unit"
  te_rpc :: "int list \<Rightarrow> error + nat"

definition request_delete :: "tg_env \<Rightarrow> telegram_backend \<Rightarrow> int \<Rightarrow> server \<Rightarrow> (error + unit) \<times> server" where
  "request_delete env backend m s =
     (delete_message_by_id (te_client env) (te_post env) (te_rpc env) backend m,
      s\<lparr>srv_deleted := srv_deleted s @ [m]\<rparr>)"

section \<open>Removing untracked blocks\<close>

text \<open>
  \<open>cleanup_untracked_block\<close>: a block with a row is claimed first and left alone when it is no
  longer an unreferenced staged block; its message is deleted, and the row with it. A message
  without a row (id 0) that could not be deleted gets a row, for collection.
\<close>

definition cleanup_untracked_block :: "tg_env \<Rightarrow> int \<Rightarrow> block_ref \<Rightarrow> server \<Rightarrow> server" where
  "cleanup_untracked_block env t b s =
     (let (claimed, d) = (if 0 < blk_id b then queue_stale_block t (blk_id b) (srv_db s) else (False, srv_db s))
      in if 0 < blk_id b \<and> \<not> claimed then s\<lparr>srv_db := d\<rparr>
         else
           case request_delete env (blk_backend b) (blk_message_id b) (s\<lparr>srv_db := d\<rparr>) of
             (Inr _, s') \<Rightarrow> if claimed then s'\<lparr>srv_db := gc_success (blk_id b) (srv_db s')\<rparr> else s'
           | (Inl e, s') \<Rightarrow>
               if 0 < blk_id b \<and> is_missing_message e
               then (if claimed then s'\<lparr>srv_db := gc_success (blk_id b) (srv_db s')\<rparr> else s')
               else if blk_id b = 0 then
                 (case add_staged_block t b (srv_db s') of
                    (Inr i, d') \<Rightarrow> s'\<lparr>srv_db := snd (queue_stale_block t i d')\<rparr>
                  | (Inl _, d') \<Rightarrow> s'\<lparr>srv_db := d'\<rparr>)
               else s')"

definition cleanup_block_refs :: "tg_env \<Rightarrow> int \<Rightarrow> block_ref list \<Rightarrow> server \<Rightarrow> server" where
  "cleanup_block_refs env t bs s = fold (cleanup_untracked_block env t) bs s"

section \<open>The registry\<close>

text \<open>
  \<open>UploadCleanup\<close> and its guard. What is spawned (a list of references to clean up) is the
  second component of the results.
\<close>

record cleanup_state =
  cl_closed :: bool
  cl_references :: "block_ref list"

record cleanup_guard =
  cg_state :: cleanup_state
  cg_armed :: bool

definition cleanup_new :: cleanup_guard where
  "cleanup_new = \<lparr>cg_state = \<lparr>cl_closed = False, cl_references = []\<rparr>, cg_armed = True\<rparr>"

definition register :: "block_ref \<Rightarrow> cleanup_state \<Rightarrow> cleanup_state \<times> block_ref list" where
  "register b st =
     (if cl_closed st then (st, [b]) else (st\<lparr>cl_references := cl_references st @ [b]\<rparr>, []))"

definition close_and_take :: "cleanup_state \<Rightarrow> cleanup_state \<times> block_ref list" where
  "close_and_take st = (st\<lparr>cl_closed := True, cl_references := []\<rparr>, cl_references st)"

definition close_registry :: "cleanup_state \<Rightarrow> cleanup_state" where
  "close_registry st = st\<lparr>cl_closed := True\<rparr>"

definition snapshot :: "cleanup_state \<Rightarrow> block_ref list" where
  "snapshot st = cl_references st"

definition clear_registry :: "cleanup_state \<Rightarrow> cleanup_state" where
  "clear_registry st = st\<lparr>cl_references := []\<rparr>"

text \<open>The guard's \<open>cleanup\<close>, \<open>disarm\<close> and \<open>drop\<close>, with the references each cleans up.\<close>

definition guard_cleanup :: "cleanup_guard \<Rightarrow> cleanup_guard \<times> block_ref list" where
  "guard_cleanup g =
     (let st = close_registry (cg_state g); references = snapshot st
      in (\<lparr>cg_state = clear_registry st, cg_armed = False\<rparr>, references))"

definition guard_disarm :: "cleanup_guard \<Rightarrow> cleanup_guard" where
  "guard_disarm g = \<lparr>cg_state = fst (close_and_take (cg_state g)), cg_armed = False\<rparr>"

definition guard_drop :: "cleanup_guard \<Rightarrow> cleanup_guard \<times> block_ref list" where
  "guard_drop g =
     (if \<not> cg_armed g then (g, [])
      else case close_and_take (cg_state g) of
             (st, references) \<Rightarrow> (\<lparr>cg_state = st, cg_armed = False\<rparr>, references))"

section \<open>One block\<close>

text \<open>
  \<open>upload_one\<close>: \<open>store\<close> is the outcome of the backend's \<open>upload_stream\<close>. The result is the
  block, the server, the registry, and what the registry spawned.
\<close>

definition stored_size_error :: "int \<Rightarrow> int \<Rightarrow> error" where
  "stored_size_error actual expected = Other (lit ''Telegram stored chunk with size ''
     @ show_int actual @ lit '', expected '' @ show_int expected)"

definition upload_one ::
  "tg_env \<Rightarrow> int \<Rightarrow> (block_spec \<Rightarrow> bytes \<Rightarrow> error + stored_document) \<Rightarrow> int \<Rightarrow> block_spec \<Rightarrow> bytes
     \<Rightarrow> server \<times> cleanup_state \<Rightarrow> (error + uploaded_block) \<times> server \<times> cleanup_state \<times> block_ref list"
where
  "upload_one env chat store t sp content = (\<lambda>(s, reg).
     case store sp content of
       Inl e \<Rightarrow> (Inl e, s, reg, [])
     | Inr doc \<Rightarrow>
         if sd_file_size doc \<noteq> 0 \<and> sd_file_size doc \<noteq> spec_size sp then
           (Inl (stored_size_error (sd_file_size doc) (spec_size sp)),
            snd (request_delete env (sd_backend doc) (sd_message_id doc) s), reg, [])
         else
           let block = uploaded_block (spec_ordinal sp) (spec_offset sp) (spec_size sp) doc
           in case add_staged_block t (to_block_ref chat block) (srv_db s) of
                (Inl e, d) \<Rightarrow>
                  (Inl e, snd (request_delete env (sd_backend doc) (sd_message_id doc) (s\<lparr>srv_db := d\<rparr>)), reg, [])
              | (Inr i, d) \<Rightarrow>
                  let block = block\<lparr>ub_id := i\<rparr>;
                      (reg', spawned) = register (to_block_ref chat block) reg
                  in (Inr block, s\<lparr>srv_db := d\<rparr>, reg', spawned))"

section \<open>Runs of the registry\<close>

text \<open>
  What can happen to an upload's guard, in any order: a task registers a block, the upload
  fails and cleans up, the cleanup is itself cancelled after \<open>n\<close> blocks, the upload succeeds and
  disarms the guard, the guard is dropped.
\<close>

datatype cleanup_event = Registered block_ref | Cleaned | Interrupted nat | Disarmed | Dropped

fun cleanup_step :: "cleanup_event \<Rightarrow> cleanup_guard \<Rightarrow> cleanup_guard \<times> block_ref list" where
  "cleanup_step (Registered b) g =
     (case register b (cg_state g) of (st, out) \<Rightarrow> (g\<lparr>cg_state := st\<rparr>, out))"
| "cleanup_step Cleaned g = guard_cleanup g"
| "cleanup_step (Interrupted n) g =
     (let st = close_registry (cg_state g) in (g\<lparr>cg_state := st\<rparr>, take n (snapshot st)))"
| "cleanup_step Disarmed g = (guard_disarm g, [])"
| "cleanup_step Dropped g = guard_drop g"

fun cleanup_run :: "cleanup_event list \<Rightarrow> cleanup_guard \<Rightarrow> cleanup_guard \<times> block_ref list" where
  "cleanup_run [] g = (g, [])"
| "cleanup_run (e # es) g =
     (case cleanup_step e g of (g', out) \<Rightarrow> case cleanup_run es g' of (g'', outs) \<Rightarrow> (g'', out @ outs))"

fun registered :: "cleanup_event list \<Rightarrow> block_ref list" where
  "registered [] = []"
| "registered (Registered b # es) = b # registered es"
| "registered (e # es) = registered es"

lemmas cleanup_defs = register_def close_and_take_def close_registry_def snapshot_def
  clear_registry_def guard_cleanup_def guard_disarm_def guard_drop_def

text \<open>What is owed for cleanup: the references of the open registry, nothing once disarmed.\<close>

lemma cleanup_run_owed:
  assumes "Disarmed \<notin> set es"
    and "\<not> cg_armed g \<longrightarrow> cl_closed (cg_state g) \<and> cl_references (cg_state g) = []"
  shows "set (cl_references (cg_state g)) \<union> set (registered es)
      \<subseteq> set (cl_references (cg_state (fst (cleanup_run es g)))) \<union> set (snd (cleanup_run es g))
    \<and> ((\<exists>e \<in> set es. e = Cleaned \<or> e = Dropped) \<or> \<not> cg_armed g
        \<longrightarrow> cl_references (cg_state (fst (cleanup_run es g))) = [])"
  using assms
proof (induction es arbitrary: g)
  case Nil
  then show ?case by auto
next
  case (Cons e es)
  obtain g1 out where g1: "cleanup_step e g = (g1, out)" by (cases "cleanup_step e g") auto
  have owed: "set (cl_references (cg_state g)) \<union> set (registered [e])
      \<subseteq> set (cl_references (cg_state g1)) \<union> set out"
    using g1 Cons.prems by (cases e) (auto simp: cleanup_defs Let_def split: if_splits)
  have arm: "\<not> cg_armed g1 \<longrightarrow> cl_closed (cg_state g1) \<and> cl_references (cg_state g1) = []"
    using g1 Cons.prems by (cases e) (auto simp: cleanup_defs Let_def split: if_splits)
  have off: "e = Cleaned \<or> e = Dropped \<or> \<not> cg_armed g \<longrightarrow> \<not> cg_armed g1"
    using g1 by (cases e) (auto simp: cleanup_defs Let_def split: if_splits)
  have "registered (e # es) = registered [e] @ registered es" by (cases e) simp_all
  with Cons.IH [OF _ arm] Cons.prems(1) g1 owed off show ?case
    by (auto split: prod.splits)
qed

lemma cleanup_run_append:
  "cleanup_run (es @ fs) g
     = (case cleanup_run es g of (g', out) \<Rightarrow> case cleanup_run fs g' of (g'', outs) \<Rightarrow> (g'', out @ outs))"
  by (induction es arbitrary: g) (auto split: prod.splits)

lemma registering_open:
  "\<not> cl_closed (cg_state g) \<Longrightarrow> cleanup_run (map Registered bs) g
     = (g\<lparr>cg_state := (cg_state g)\<lparr>cl_references := cl_references (cg_state g) @ bs\<rparr>\<rparr>, [])"
  by (induction bs arbitrary: g) (simp_all add: register_def)

lemma registering_closed:
  "cl_closed (cg_state g) \<Longrightarrow> cleanup_run (map Registered bs) g = (g, bs)"
  by (induction bs arbitrary: g) (simp_all add: register_def)

section \<open>Cleanup steps are steps of the system\<close>

definition sys_of :: "server \<Rightarrow> (int \<times> int) list \<Rightarrow> gc_sys" where
  "sys_of s claims = \<lparr>sys_db = srv_db s, sys_deleted = set (srv_deleted s), sys_claims = claims\<rparr>"

lemma sys_reach_call: "sys_reachable (sys_of s cl) \<Longrightarrow> db_call (srv_db s) d \<Longrightarrow> sys_reachable (sys_of (s\<lparr>srv_db := d\<rparr>) cl)"
  using reach_step [OF _ step_call [of "sys_of s cl" d]] by (simp add: sys_of_def)

lemma sys_reach_delete:
  "sys_reachable (sys_of s cl) \<Longrightarrow> (b, m) \<in> set cl
     \<Longrightarrow> sys_reachable (sys_of (s\<lparr>srv_deleted := srv_deleted s @ [m]\<rparr>) cl)"
  using reach_step [OF _ step_delete [of b m "sys_of s cl"]] by (simp add: sys_of_def)

lemma sys_reach_drop: "sys_reachable (sys_of s (c # cl)) \<Longrightarrow> sys_reachable (sys_of s cl)"
  using reach_step [OF _ step_drop [of "sys_of s (c # cl)" c]] by (simp add: sys_of_def)

lemma sys_reach_claim:
  assumes "sys_reachable (sys_of s cl)" and "queue_stale_block t b (srv_db s) = (True, d)"
    and "(b, m) \<in> set (pairs (srv_db s)) \<or> m \<notin> row_messages (srv_db s)"
  shows "sys_reachable (sys_of (s\<lparr>srv_db := d\<rparr>) ((b, m) # cl))"
  using reach_step [OF assms(1) step_claim_stale [of t b "sys_of s cl" d m]] assms(2,3)
  by (simp add: sys_of_def)

lemma sys_reach_discard:
  "sys_reachable (sys_of s cl) \<Longrightarrow> m \<notin> row_messages (srv_db s)
     \<Longrightarrow> sys_reachable (sys_of (s\<lparr>srv_deleted := srv_deleted s @ [m]\<rparr>) cl)"
  using reach_step [OF _ step_discard [of m "sys_of s cl"]] by (simp add: sys_of_def)

text \<open>A claimed message is deleted, and then perhaps its row.\<close>

lemma sys_reach_claimed:
  assumes "sys_reachable (sys_of s ((b, m) # cl))"
  shows "sys_reachable (sys_of (s\<lparr>srv_deleted := srv_deleted s @ [m]\<rparr>) cl)"
    and "sys_reachable (sys_of (s\<lparr>srv_db := gc_success b' (srv_db s), srv_deleted := srv_deleted s @ [m]\<rparr>) cl)"
proof -
  have 1: "sys_reachable (sys_of (s\<lparr>srv_deleted := srv_deleted s @ [m]\<rparr>) ((b, m) # cl))"
    by (rule sys_reach_delete [OF assms, of b]) simp
  then show "sys_reachable (sys_of (s\<lparr>srv_deleted := srv_deleted s @ [m]\<rparr>) cl)" by (rule sys_reach_drop)
  have "sys_reachable (sys_of (s\<lparr>srv_deleted := srv_deleted s @ [m], srv_db := gc_success b' (srv_db s)\<rparr>) ((b, m) # cl))"
    using sys_reach_call [OF 1 call_gc_success] by simp
  then show "sys_reachable (sys_of (s\<lparr>srv_db := gc_success b' (srv_db s), srv_deleted := srv_deleted s @ [m]\<rparr>) cl)"
    by (metis server.update_convs server.surjective sys_reach_drop server.simps)
qed

definition tracked :: "db \<Rightarrow> block_ref \<Rightarrow> bool" where
  "tracked d b \<longleftrightarrow> 0 < blk_id b
     \<and> ((blk_id b, blk_message_id b) \<in> set (pairs d) \<or> blk_message_id b \<notin> row_messages d)"

lemma cleanup_untracked_block_cases:
  assumes "0 < blk_id b"
  obtains "queue_stale_block t (blk_id b) (srv_db s) = (False, srv_db (cleanup_untracked_block env t b s))"
      "cleanup_untracked_block env t b s = s\<lparr>srv_db := srv_db (cleanup_untracked_block env t b s)\<rparr>"
  | d where "queue_stale_block t (blk_id b) (srv_db s) = (True, d)"
      "cleanup_untracked_block env t b s = s\<lparr>srv_db := gc_success (blk_id b) d, srv_deleted := srv_deleted s @ [blk_message_id b]\<rparr>
       \<or> cleanup_untracked_block env t b s = s\<lparr>srv_db := d, srv_deleted := srv_deleted s @ [blk_message_id b]\<rparr>"
proof (cases "queue_stale_block t (blk_id b) (srv_db s)")
  case (Pair c d)
  show ?thesis
  proof (cases c)
    case True
    with Pair assms show ?thesis
      by (intro that(2) [of d]) (auto simp: cleanup_untracked_block_def request_delete_def split: sum.splits)
  next
    case False
    with Pair assms show ?thesis by (intro that(1)) (simp_all add: cleanup_untracked_block_def)
  qed
qed

lemma cleanup_untracked_block_refines:
  assumes r: "sys_reachable (sys_of s cl)" and t: "tracked (srv_db s) b"
  shows "sys_reachable (sys_of (cleanup_untracked_block env t b s) cl)"
proof (rule cleanup_untracked_block_cases [of b t s env])
  show "0 < blk_id b" using t by (simp add: tracked_def)
next
  assume q: "queue_stale_block t (blk_id b) (srv_db s) = (False, srv_db (cleanup_untracked_block env t b s))"
    and e: "cleanup_untracked_block env t b s = s\<lparr>srv_db := srv_db (cleanup_untracked_block env t b s)\<rparr>"
  show ?thesis
    using sys_reach_call [OF r call_queue_stale_block [of _ t "blk_id b"]] by (subst e) (simp add: q)
next
  fix d assume q: "queue_stale_block t (blk_id b) (srv_db s) = (True, d)"
    and e: "cleanup_untracked_block env t b s = s\<lparr>srv_db := gc_success (blk_id b) d, srv_deleted := srv_deleted s @ [blk_message_id b]\<rparr>
       \<or> cleanup_untracked_block env t b s = s\<lparr>srv_db := d, srv_deleted := srv_deleted s @ [blk_message_id b]\<rparr>"
  have "sys_reachable (sys_of (s\<lparr>srv_db := d\<rparr>) ((blk_id b, blk_message_id b) # cl))"
    using r q t by (intro sys_reach_claim) (auto simp: tracked_def)
  note claimed = sys_reach_claimed [OF this]
  from e show ?thesis
  proof (elim disjE)
    assume "cleanup_untracked_block env t b s = s\<lparr>srv_db := d, srv_deleted := srv_deleted s @ [blk_message_id b]\<rparr>"
    with claimed(1) show ?thesis by simp
  next
    assume "cleanup_untracked_block env t b s = s\<lparr>srv_db := gc_success (blk_id b) d, srv_deleted := srv_deleted s @ [blk_message_id b]\<rparr>"
    with claimed(2) [of "blk_id b"] show ?thesis by simp
  qed
qed

lemma cleanup_pairs: "0 < blk_id b \<Longrightarrow> set (pairs (srv_db (cleanup_untracked_block env t b s))) \<subseteq> set (pairs (srv_db s))"
proof -
  assume b: "0 < blk_id b"
  have q: "set (pairs d) \<subseteq> set (pairs (srv_db s))" if "queue_stale_block t (blk_id b) (srv_db s) = (c, d)" for c d
    using keeps_queue_stale_block [of "srv_db s" t "blk_id b"] that by (simp add: keeps_def)
  have g: "set (pairs (gc_success i d)) \<subseteq> set (pairs d)" for i d
    using keeps_gc_success [of d i] by (simp add: keeps_def)
  show ?thesis
  proof (rule cleanup_untracked_block_cases [OF b, of t s env])
    show ?thesis if "queue_stale_block t (blk_id b) (srv_db s) = (False, srv_db (cleanup_untracked_block env t b s))"
      using q [OF that] .
  next
    fix d assume d: "queue_stale_block t (blk_id b) (srv_db s) = (True, d)"
      and "cleanup_untracked_block env t b s = s\<lparr>srv_db := gc_success (blk_id b) d, srv_deleted := srv_deleted s @ [blk_message_id b]\<rparr>
       \<or> cleanup_untracked_block env t b s = s\<lparr>srv_db := d, srv_deleted := srv_deleted s @ [blk_message_id b]\<rparr>"
    then have "srv_db (cleanup_untracked_block env t b s) = gc_success (blk_id b) d
        \<or> srv_db (cleanup_untracked_block env t b s) = d" by (elim disjE) simp_all
    with q [OF d] g [of "blk_id b" d] show ?thesis by auto
  qed
qed

lemma tracked_keeps:
  assumes "tracked d b" and "messages_ok d" and "set (pairs d') \<subseteq> set (pairs d)"
  shows "tracked d' b"
proof (cases "blk_message_id b \<in> row_messages d'")
  case True
  then obtain c where c: "(c, blk_message_id b) \<in> set (pairs d')" by (auto simp: row_messages_def)
  with assms(3) have c': "(c, blk_message_id b) \<in> set (pairs d)" by blast
  then have "blk_message_id b \<in> row_messages d" by (force simp: row_messages_def)
  with assms(1) have "(blk_id b, blk_message_id b) \<in> set (pairs d)" by (simp add: tracked_def)
  with c' assms(2) have "c = blk_id b" by (auto simp: messages_ok_def)
  with c assms(1) show ?thesis by (simp add: tracked_def)
next
  case False
  with assms(1) show ?thesis by (simp add: tracked_def)
qed

lemma cleanup_block_refs_refines:
  assumes "sys_reachable (sys_of s cl)" and "\<forall>b \<in> set bs. tracked (srv_db s) b"
  shows "sys_reachable (sys_of (cleanup_block_refs env t bs s) cl)"
  using assms
proof (induction bs arbitrary: s)
  case Nil
  then show ?case by (simp add: cleanup_block_refs_def)
next
  case (Cons b bs)
  let ?s = "cleanup_untracked_block env t b s"
  have 1: "sys_reachable (sys_of ?s cl)"
    using Cons.prems by (intro cleanup_untracked_block_refines) simp_all
  have "messages_ok (srv_db s)" using sys_reachable_ok [OF Cons.prems(1)] by (simp add: sys_of_def)
  moreover have "set (pairs (srv_db ?s)) \<subseteq> set (pairs (srv_db s))"
    using Cons.prems(2) by (intro cleanup_pairs) (simp add: tracked_def)
  ultimately have "\<forall>b \<in> set bs. tracked (srv_db ?s) b"
    using Cons.prems(2) tracked_keeps by auto
  from Cons.IH [OF 1 this] show ?case by (simp add: cleanup_block_refs_def)
qed

section \<open>Blocks staged by \<open>upload_one\<close>\<close>

text \<open>What a caller of \<open>upload\<close> may rely on for the references it gets.\<close>

definition staged :: "db \<Rightarrow> block_ref \<Rightarrow> bool" where
  "staged d b \<longleftrightarrow> 0 < blk_id b \<and> reads d b \<and> refs d (blk_id b) = 0 \<and> \<not> queued d (blk_id b)
     \<and> (blk_id b, blk_message_id b) \<in> set (pairs d)"

lemma add_staged_block_staged:
  assumes ok: "db_ok d" and add: "add_staged_block t b d = (Inr i, d')"
  shows "staged d' (b\<lparr>blk_id := i\<rparr>) \<and> i = next_rowid (map trow_id (telegram_blocks d))
    \<and> (\<exists>r. telegram_blocks d' = telegram_blocks d @ [r] \<and> trow_id r = i) 
    \<and> d' = d\<lparr>telegram_blocks := telegram_blocks d'\<rparr>"
proof -
  have s: "schema_ok d" using ok by (simp add: db_ok_def)
  let ?r = "\<lparr>trow_id = 0, trow_chat_id = blk_chat_id b,
        trow_message_id = blk_message_id b, trow_backend = backend_as_str (blk_backend b),
        trow_document_id = blk_document_id b, trow_file_id = blk_file_id b,
        trow_file_unique_id = blk_file_unique_id b, trow_size = blk_size b,
        trow_message_date = blk_message_date b, trow_ref_count = 1, trow_state = Staged,
        trow_created_at = t\<rparr>"
  from add have "insert_telegram_block ?r d = Inr (i, d')"
    by (auto simp: add_staged_block_def transact_def split: sum.splits)
  from insert_telegram_block_Inr [OF this] have i: "i = next_rowid (map trow_id (telegram_blocks d))"
    and new: "\<not> block_exists d i"
    and d': "d' = d\<lparr>telegram_blocks := telegram_blocks d @ [?r\<lparr>trow_id := i\<rparr>]\<rparr>" by blast+
  have "refs d i = 0 \<and> \<not> queued d i" using s new by (rule unreferenced_not_refs)
  then have "refs d' i = 0 \<and> \<not> queued d' i"
    by (simp add: d' refs_def obj_refs_def part_refs_def queued_def)
  moreover have "reads d' (b\<lparr>blk_id := i\<rparr>)"
    unfolding reads_def by (intro bexI [of _ "?r\<lparr>trow_id := i\<rparr>"]) (simp_all add: d' block_from_row_def)
  moreover have "0 < i" by (simp add: i next_rowid_pos)
  ultimately show ?thesis using i by (simp add: staged_def d' pairs_def)
qed

lemma upload_one_Inr:
  assumes ok: "db_ok (srv_db s)"
    and up: "upload_one env chat store t sp content (s, reg) = (Inr u, s', reg', spawned)"
  shows "\<exists>doc. store sp content = Inr doc \<and> (sd_file_size doc = 0 \<or> sd_file_size doc = spec_size sp)
    \<and> u = (uploaded_block (spec_ordinal sp) (spec_offset sp) (spec_size sp) doc)\<lparr>ub_id := ub_id u\<rparr>
    \<and> add_staged_block t (to_block_ref chat (uploaded_block (spec_ordinal sp) (spec_offset sp) (spec_size sp) doc)) (srv_db s)
        = (Inr (ub_id u), srv_db s')
    \<and> s' = s\<lparr>srv_db := srv_db s'\<rparr> \<and> staged (srv_db s') (to_block_ref chat u)
    \<and> (reg', spawned) = register (to_block_ref chat u) reg"
proof -
  from up obtain doc where doc: "store sp content = Inr doc"
    "sd_file_size doc = 0 \<or> sd_file_size doc = spec_size sp"
    by (auto simp: upload_one_def split: sum.splits if_splits)
  let ?b = "uploaded_block (spec_ordinal sp) (spec_offset sp) (spec_size sp) doc"
  obtain r d where add: "add_staged_block t (to_block_ref chat ?b) (srv_db s) = (r, d)"
    by (cases "add_staged_block t (to_block_ref chat ?b) (srv_db s)") auto
  from up doc add obtain i where i: "r = Inr i"
    by (cases r) (auto simp: upload_one_def Let_def)
  with up doc add have u: "u = ?b\<lparr>ub_id := i\<rparr>" "s' = s\<lparr>srv_db := d\<rparr>"
      "(reg', spawned) = register (to_block_ref chat u) reg"
    by (auto simp: upload_one_def Let_def split: prod.splits)
  moreover have "to_block_ref chat u = (to_block_ref chat ?b)\<lparr>blk_id := i\<rparr>"
    by (simp add: u(1) to_block_ref_def)
  ultimately show ?thesis
    using doc add i add_staged_block_staged [OF ok add [unfolded i], THEN conjunct1] by simp
qed

lemma upload_one_refines:
  assumes r: "sys_reachable (sys_of s cl)"
    and new: "\<And>doc. store sp content = Inr doc \<Longrightarrow> sd_message_id doc \<notin> used_messages (sys_of s cl)"
    and up: "upload_one env chat store t sp content (s, reg) = (x, s', reg', spawned)"
  shows "sys_reachable (sys_of s' cl)"
proof (cases "store sp content")
  case (Inl e)
  with up r show ?thesis by (simp add: upload_one_def)
next
  case (Inr doc)
  let ?b = "to_block_ref chat (uploaded_block (spec_ordinal sp) (spec_offset sp) (spec_size sp) doc)"
  have m: "blk_message_id ?b = sd_message_id doc" by (simp add: to_block_ref_def uploaded_block_def)
  have fresh: "sd_message_id doc \<notin> row_messages (srv_db s)"
    using new [OF Inr] by (simp add: used_messages_def sys_of_def)
  have discard: "sys_reachable (sys_of (snd (request_delete env (sd_backend doc) (sd_message_id doc) s)) cl)"
    using sys_reach_discard [OF r fresh] by (simp add: request_delete_def)
  show ?thesis
  proof (cases "add_staged_block t ?b (srv_db s)")
    case (Pair y d)
    show ?thesis
    proof (cases y)
      case (Inl e)
      then have "d = srv_db s" using Pair by (auto simp: add_staged_block_def transact_def split: sum.splits)
      with up Inr Inl Pair r discard show ?thesis
        by (auto simp: upload_one_def Let_def split: if_splits)
    next
      case (Inr i)
      have "sys_reachable (sys_of (s\<lparr>srv_db := d\<rparr>) cl)"
        using reach_step [OF r step_stage [of ?b "sys_of s cl" t]] new [OF \<open>store sp content = Inr doc\<close>] Pair
        by (simp add: sys_of_def m)
      with up \<open>store sp content = Inr doc\<close> Inr Pair discard show ?thesis
        by (auto simp: upload_one_def Let_def split: if_splits prod.splits)
    qed
  qed
qed

end
