(* ===== verification/Engine_Upload.thy ===== *)
theory Engine_Upload
  imports Upload_Total Cleanup Db_Progress
begin

text \<open>
  \<open>Engine::upload_stream\<close> (\<open>src/engine/transfer.rs\<close>) and the part of
  \<open>src/transfer/upload.rs\<close> around the two uploads: the tasks run \<open>upload_one\<close> against the
  database, the registry collects what they staged, and a failed upload cleans it up.

  The tasks run concurrently, but what one does to the database is one statement
  (\<open>add_staged_block\<close>), so a run is a sequence of tasks: \<open>en_order\<close> lists the pieces in the order
  of those statements, each with its clock reading.
\<close>

record engine_env =
  en_tg :: tg_env
  en_store :: "block_spec \<Rightarrow> bytes \<Rightarrow> error + stored_document"
  en_upload :: upload_env
  en_order :: "(int \<times> piece) list"
  en_clock :: "nat \<Rightarrow> int"

type_synonym outcomes = "(piece \<times> (error + uploaded_block)) list"

fun run_tasks ::
  "engine_env \<Rightarrow> (int \<times> piece) list \<Rightarrow> server \<Rightarrow> cleanup_state
     \<Rightarrow> outcomes \<times> server \<times> cleanup_state \<times> block_ref list"
where
  "run_tasks env [] s reg = ([], s, reg, [])"
| "run_tasks env ((t, sp, c) # ts) s reg =
     (case upload_one (en_tg env) (ue_chat_id (en_upload env)) (en_store env) t sp c (s, reg) of
        (r, s1, reg1, spawned) \<Rightarrow>
          (case run_tasks env ts s1 reg1 of
             (rs, s2, reg2, spawned2) \<Rightarrow> (((sp, c), r) # rs, s2, reg2, spawned @ spawned2)))"

text \<open>\<open>join_task\<close>: a task that did not run to its end has no block.\<close>

definition task_result :: "outcomes \<Rightarrow> block_spec \<Rightarrow> bytes \<Rightarrow> error + uploaded_block" where
  "task_result rs sp c =
     (case map_of rs (sp, c) of
        Some r \<Rightarrow> r
      | None \<Rightarrow> Inl (Other (lit ''Telegram upload task failed: '')))"

definition with_tasks :: "engine_env \<Rightarrow> outcomes \<Rightarrow> upload_env" where
  "with_tasks env rs = (en_upload env)\<lparr>ue_task := task_result rs\<rparr>"

definition upload_stream ::
  "engine_env \<Rightarrow> str \<Rightarrow> int \<Rightarrow> (error + bytes) list \<Rightarrow> int option \<Rightarrow> server
     \<Rightarrow> (error + (part_record \<times> int)) \<times> server"
where
  "upload_stream env u n frames len s =
     (case run_tasks env (en_order env) s (cg_state cleanup_new) of
        (rs, s1, reg, spawned) \<Rightarrow>
          let guard = cleanup_new\<lparr>cg_state := reg\<rparr>;
              s2 = cleanup_block_refs (en_tg env) (en_clock env 0) spawned s1
          in case upload (with_tasks env rs) u n frames len of
               Inl e \<Rightarrow> (Inl e, cleanup_block_refs (en_tg env) (en_clock env 0) (snd (guard_cleanup guard)) s2)
             | Inr r \<Rightarrow> (Inr r, s2))"

section \<open>What the tasks do to the database\<close>

text \<open>Staging only adds block rows.\<close>

definition only_blocks :: "db \<Rightarrow> db \<Rightarrow> bool" where
  "only_blocks d d' \<longleftrightarrow> (\<exists>rows. d' = d\<lparr>telegram_blocks := telegram_blocks d @ rows\<rparr>)"

lemma only_blocks_refl [simp]: "only_blocks d d"
  unfolding only_blocks_def by (rule exI [of _ "[]"]) simp

lemma only_blocks_trans: "only_blocks d d1 \<Longrightarrow> only_blocks d1 d2 \<Longrightarrow> only_blocks d d2"
  by (auto simp: only_blocks_def)

lemma only_blocks_staged:
  assumes "only_blocks d d'" and "staged d b"
  shows "staged d' b"
proof -
  from assms(1) obtain rows where "d' = d\<lparr>telegram_blocks := telegram_blocks d @ rows\<rparr>"
    by (auto simp: only_blocks_def)
  with assms(2) show ?thesis
    by (auto simp: staged_def reads_def refs_def obj_refs_def part_refs_def queued_def pairs_def)
qed

lemma staged_exists: "staged d b \<Longrightarrow> block_exists d (blk_id b)"
  by (force simp: staged_def pairs_def block_exists_def)

lemma only_blocks_exists: "only_blocks d d' \<Longrightarrow> block_exists d b \<Longrightarrow> block_exists d' b"
  by (auto simp: only_blocks_def block_exists_def)

text \<open>What a task returned for a piece, from the database before the run to the one after it.\<close>

definition came_from :: "engine_env \<Rightarrow> db \<Rightarrow> db \<Rightarrow> piece \<Rightarrow> uploaded_block \<Rightarrow> bool" where
  "came_from env d d' p u \<longleftrightarrow>
     staged d' (to_block_ref (ue_chat_id (en_upload env)) u) \<and> \<not> block_exists d (ub_id u)
     \<and> ub_ordinal u = spec_ordinal (fst p) \<and> ub_offset u = spec_offset (fst p) \<and> ub_data_size u = spec_size (fst p)
     \<and> (\<exists>doc. en_store env (fst p) (snd p) = Inr doc \<and> ub_message_id u = sd_message_id doc
          \<and> ub_file_id u = sd_file_id doc \<and> ub_backend u = sd_backend doc)"

lemma came_from_mono:
  "came_from env d d1 p u \<Longrightarrow> only_blocks d0 d \<Longrightarrow> only_blocks d1 d' \<Longrightarrow> came_from env d0 d' p u"
  using only_blocks_staged only_blocks_exists unfolding came_from_def by blast

lemma came_from_exists: "came_from env d d' p u \<Longrightarrow> block_exists d' (ub_id u)"
  by (auto simp: came_from_def to_block_ref_def dest: staged_exists)

text \<open>One task: an error leaves the database, a success stages one block under a new id.\<close>

lemma upload_one_Inl:
  assumes "upload_one env chat store t sp c (s, reg) = (Inl e, s', reg', spawned)"
  shows "srv_db s' = srv_db s \<and> reg' = reg \<and> spawned = []"
proof (cases "store sp c")
  case (Inr doc)
  let ?b = "to_block_ref chat (uploaded_block (spec_ordinal sp) (spec_offset sp) (spec_size sp) doc)"
  obtain y d where add: "add_staged_block t ?b (srv_db s) = (y, d)"
    by (cases "add_staged_block t ?b (srv_db s)") auto
  moreover have "d = srv_db s" if "y = Inl e'" for e'
    using add that by (auto simp: add_staged_block_def transact_def split: sum.splits)
  ultimately show ?thesis
    using assms Inr
    by (cases y) (auto simp: upload_one_def Let_def request_delete_def split: if_splits prod.splits)
qed (use assms in \<open>auto simp: upload_one_def\<close>)

lemma upload_one_staged:
  assumes ok: "db_ok (srv_db s)"
    and up: "upload_one tg (ue_chat_id (en_upload env)) (en_store env) t sp c (s, reg) = (Inr u, s', reg', spawned)"
  shows "db_ok (srv_db s') \<and> only_blocks (srv_db s) (srv_db s') \<and> lookup (srv_db s') = lookup (srv_db s)
    \<and> came_from env (srv_db s) (srv_db s') (sp, c) u
    \<and> (reg', spawned) = register (to_block_ref (ue_chat_id (en_upload env)) u) reg"
proof -
  let ?chat = "ue_chat_id (en_upload env)"
  from upload_one_Inr [OF ok up] obtain doc where
    doc: "en_store env sp c = Inr doc"
    and u: "u = (uploaded_block (spec_ordinal sp) (spec_offset sp) (spec_size sp) doc)\<lparr>ub_id := ub_id u\<rparr>"
    and add: "add_staged_block t (to_block_ref ?chat (uploaded_block (spec_ordinal sp) (spec_offset sp) (spec_size sp) doc)) (srv_db s)
        = (Inr (ub_id u), srv_db s')"
    and st: "staged (srv_db s') (to_block_ref ?chat u)" and reg: "(reg', spawned) = register (to_block_ref ?chat u) reg"
    by blast
  note eff = add_staged_block_staged [OF ok add]
  have "\<not> block_exists (srv_db s) (ub_id u)"
    using add by (auto simp: add_staged_block_def transact_def split: sum.splits dest: insert_telegram_block_Inr)
  moreover have "only_blocks (srv_db s) (srv_db s')"
    using eff unfolding only_blocks_def by (metis (full_types))
  moreover have "ub_ordinal u = spec_ordinal sp" "ub_offset u = spec_offset sp" "ub_data_size u = spec_size sp"
      "ub_message_id u = sd_message_id doc" "ub_file_id u = sd_file_id doc" "ub_backend u = sd_backend doc"
    by (subst u, simp add: uploaded_block_def)+
  moreover have "db_ok (srv_db s')" using db_ok_add_staged_block [OF ok] add by (metis snd_conv)
  moreover have "lookup (srv_db s') = lookup (srv_db s)"
    using add_staged_s.lookup_neutral [OF refl ok] add by (metis snd_conv)
  ultimately show ?thesis using st reg doc by (simp add: came_from_def)
qed

definition staged_refs :: "engine_env \<Rightarrow> outcomes \<Rightarrow> block_ref list" where
  "staged_refs env rs = concat (map (\<lambda>(p, r). case r of Inl e \<Rightarrow> []
     | Inr u \<Rightarrow> [to_block_ref (ue_chat_id (en_upload env)) u]) rs)"

lemma staged_refs_simps [simp]:
  "staged_refs env [] = []"
  "staged_refs env ((p, Inl e) # rs) = staged_refs env rs"
  "staged_refs env ((p, Inr u) # rs) = to_block_ref (ue_chat_id (en_upload env)) u # staged_refs env rs"
  by (simp_all add: staged_refs_def)

lemma run_tasks_effect:
  assumes "db_ok (srv_db s)" and "\<not> cl_closed reg"
    and "run_tasks env ts s reg = (rs, s', reg', spawned)"
  shows "db_ok (srv_db s') \<and> only_blocks (srv_db s) (srv_db s') \<and> lookup (srv_db s') = lookup (srv_db s)
    \<and> spawned = [] \<and> \<not> cl_closed reg' \<and> map fst rs = map snd ts
    \<and> (\<forall>p u. (p, Inr u) \<in> set rs \<longrightarrow> came_from env (srv_db s) (srv_db s') p u)
    \<and> (\<forall>p u q v. (p, Inr u) \<in> set rs \<longrightarrow> (q, Inr v) \<in> set rs \<longrightarrow> ub_id u = ub_id v \<longrightarrow> u = v)
    \<and> cl_references reg' = cl_references reg @ staged_refs env rs"
  using assms
proof (induction ts arbitrary: s reg rs s' reg' spawned)
  case Nil
  then show ?case by simp
next
  case (Cons x ts)
  obtain t sp c where x: "x = (t, sp, c)" by (cases x) auto
  obtain r s1 reg1 sp1 where up: "upload_one (en_tg env) (ue_chat_id (en_upload env)) (en_store env) t sp c (s, reg)
      = (r, s1, reg1, sp1)" by (metis prod_cases4)
  obtain rs2 sp2 where rest: "run_tasks env ts s1 reg1 = (rs2, s', reg', sp2)"
    and rs: "rs = ((sp, c), r) # rs2" "spawned = sp1 @ sp2"
    using Cons.prems(3) x up by (auto split: prod.splits)
  show ?case
  proof (cases r)
    case (Inl e)
    note one = upload_one_Inl [OF up [unfolded Inl]]
    with Cons.prems(1,2) have "db_ok (srv_db s1)" "\<not> cl_closed reg1" by simp_all
    from Cons.IH [OF this rest] one show ?thesis by (auto simp: rs Inl x)
  next
    case (Inr u)
    note one = upload_one_staged [OF Cons.prems(1) up [unfolded Inr]]
    have reg1: "reg1 = reg\<lparr>cl_references := cl_references reg @ [to_block_ref (ue_chat_id (en_upload env)) u]\<rparr>"
      "sp1 = []"
      using one Cons.prems(2) by (auto simp: register_def)
    with one Cons.prems(2) have "db_ok (srv_db s1)" "\<not> cl_closed reg1" by simp_all
    note ih = Cons.IH [OF this rest]
    have late: "came_from env (srv_db s1) (srv_db s') q v" if "(q, Inr v) \<in> set rs2" for q v
      using ih that by blast
    have "came_from env (srv_db s) (srv_db s') q v" if "(q, Inr v) \<in> set rs" for q v
    proof (cases "(q, Inr v) \<in> set rs2")
      case True
      from came_from_mono [OF late [OF this] _ only_blocks_refl] one show ?thesis by blast
    next
      case False
      with that have "q = (sp, c)" "v = u" by (auto simp: rs Inr)
      with came_from_mono [of env _ _ "(sp, c)" u, OF _ only_blocks_refl] one ih show ?thesis by blast
    qed
    moreover have same: "v = u" if "(q, Inr v) \<in> set rs" "ub_id v = ub_id u" for q v
    proof (rule ccontr)
      assume "v \<noteq> u"
      with that have "came_from env (srv_db s1) (srv_db s') q v" by (intro late) (auto simp: rs Inr)
      then have "\<not> block_exists (srv_db s1) (ub_id u)" using that(2) by (simp add: came_from_def)
      with one show False using came_from_exists by blast
    qed
    moreover have "v = w" if "(p, Inr v) \<in> set rs" "(q, Inr w) \<in> set rs" "ub_id v = ub_id w" for p q v w
    proof (cases "(p, Inr v) \<in> set rs2 \<and> (q, Inr w) \<in> set rs2")
      case True
      with ih that(3) show ?thesis by blast
    next
      case False
      with that(1,2) have "v = u \<or> w = u" by (auto simp: rs Inr)
      with same that show ?thesis by metis
    qed
    moreover have "only_blocks (srv_db s) (srv_db s')" using ih one only_blocks_trans by blast
    moreover have "db_ok (srv_db s')" "lookup (srv_db s') = lookup (srv_db s)" "spawned = []" "\<not> cl_closed reg'"
      "map fst rs = map snd (x # ts)" "cl_references reg' = cl_references reg @ staged_refs env rs"
      using ih one reg1 by (simp_all add: rs Inr x)
    ultimately show ?thesis by blast
  qed
qed

section \<open>The effect of \<open>upload_stream\<close>\<close>

text \<open>What cleaning up may change of the database, for a client: nothing.\<close>

definition quiet :: "db \<Rightarrow> db \<Rightarrow> bool" where
  "quiet d d' \<longleftrightarrow> (db_ok d \<longrightarrow> db_ok d' \<and> lookup d' = lookup d)
     \<and> multipart_uploads d' = multipart_uploads d \<and> buckets d' = buckets d"

lemma quiet_refl [simp]: "quiet d d"
  by (simp add: quiet_def)

lemma quiet_trans: "quiet d d1 \<Longrightarrow> quiet d1 d2 \<Longrightarrow> quiet d d2"
  by (auto simp: quiet_def)

lemma quiet_queue_stale: "quiet d (snd (queue_stale_block t b d))"
  using db_ok_queue_stale_block queue_stale_s.lookup_neutral [OF refl]
  by (simp add: quiet_def) (simp add: queue_stale_block_def update_block_def enqueue_gc_def Let_def)

lemma quiet_gc_success: "quiet d (gc_success b d)"
  using db_ok_gc_success gc_success_s.lookup_neutral [OF refl]
  by (simp add: quiet_def) (simp add: gc_success_def delete_block_row_def split: sum.splits)

lemma quiet_add_staged: "quiet d (snd (add_staged_block t b d))"
  using db_ok_add_staged_block add_staged_s.lookup_neutral [OF refl]
  by (simp add: quiet_def)
    (auto simp: add_staged_block_def dest: insert_telegram_block_Inr split: sum.splits)

lemma quiet_cleanup_one: "quiet (srv_db s) (srv_db (cleanup_untracked_block env t b s))"
proof -
  obtain c d where q: "queue_stale_block t (blk_id b) (srv_db s) = (c, d)"
    by (cases "queue_stale_block t (blk_id b) (srv_db s)") auto
  then have d: "quiet (srv_db s) d" using quiet_queue_stale by (metis snd_conv)
  then have g: "quiet (srv_db s) (gc_success (blk_id b) d)" using quiet_gc_success quiet_trans by blast
  obtain x d1 where a: "add_staged_block t b (srv_db s) = (x, d1)"
    by (cases "add_staged_block t b (srv_db s)") auto
  then have a1: "quiet (srv_db s) d1" using quiet_add_staged by (metis snd_conv)
  then have a2: "quiet (srv_db s) (snd (queue_stale_block t i d1))" for i
    using quiet_queue_stale quiet_trans by blast
  show ?thesis
    using d g a1 a2
    by (auto simp: cleanup_untracked_block_def request_delete_def q a Let_def split: sum.splits)
qed

lemma quiet_cleanup: "quiet (srv_db s) (srv_db (cleanup_block_refs env t bs s))"
proof (induction bs arbitrary: s)
  case (Cons b bs)
  from Cons.IH quiet_cleanup_one quiet_trans show ?case by (simp add: cleanup_block_refs_def) blast
qed (simp add: cleanup_block_refs_def)

lemma quiet_only_blocks:
  "only_blocks d d' \<Longrightarrow> db_ok d' \<Longrightarrow> lookup d' = lookup d \<Longrightarrow> quiet d d'"
  by (auto simp: quiet_def only_blocks_def)

lemma part_of_with_tasks [simp]: "part_of (with_tasks env rs) = part_of (en_upload env)"
  by (simp add: part_of_def with_tasks_def fun_eq_iff)

lemma with_tasks_simps [simp]:
  "ue_chunk_size (with_tasks env rs) = ue_chunk_size (en_upload env)"
  "ue_max_object_size (with_tasks env rs) = ue_max_object_size (en_upload env)"
  "env_works (with_tasks env rs) = env_works (en_upload env)"
  by (simp_all add: with_tasks_def env_works_def)

lemma task_result_mem: "task_result rs sp c = Inr u \<Longrightarrow> ((sp, c), Inr u) \<in> set rs"
  by (auto simp: task_result_def dest: map_of_SomeD split: option.splits)

lemma tasks_ok:
  assumes "\<forall>p u. (p, Inr u) \<in> set rs \<longrightarrow> came_from env d d' p u"
  shows "task_ok (with_tasks env rs)"
  using assms by (force simp: task_ok_def with_tasks_def came_from_def dest: task_result_mem)

lemma start_registry [simp]: "cg_state cleanup_new = \<lparr>cl_closed = False, cl_references = []\<rparr>"
  by (simp add: cleanup_new_def)

definition ran :: "engine_env \<Rightarrow> server \<Rightarrow> outcomes \<Rightarrow> server \<Rightarrow> bool" where
  "ran env s rs s1 \<longleftrightarrow>
     db_ok (srv_db s1) \<and> only_blocks (srv_db s) (srv_db s1) \<and> lookup (srv_db s1) = lookup (srv_db s)
     \<and> map fst rs = map snd (en_order env)
     \<and> (\<forall>p u. (p, Inr u) \<in> set rs \<longrightarrow> came_from env (srv_db s) (srv_db s1) p u)
     \<and> (\<forall>p u q v. (p, Inr u) \<in> set rs \<longrightarrow> (q, Inr v) \<in> set rs \<longrightarrow> ub_id u = ub_id v \<longrightarrow> u = v)"

lemma upload_stream_run:
  assumes "db_ok (srv_db s)"
  shows "\<exists>rs s1 reg. run_tasks env (en_order env) s \<lparr>cl_closed = False, cl_references = []\<rparr> = (rs, s1, reg, [])
    \<and> ran env s rs s1 \<and> upload_stream env u n frames len s =
       (case upload (with_tasks env rs) u n frames len of
          Inl e \<Rightarrow> (Inl e, cleanup_block_refs (en_tg env) (en_clock env 0) (staged_refs env rs) s1)
        | Inr r \<Rightarrow> (Inr r, s1))"
proof -
  obtain rs s1 reg spawned where r: "run_tasks env (en_order env) s (cg_state cleanup_new) = (rs, s1, reg, spawned)"
    by (metis prod_cases4)
  have c: "\<not> cl_closed (cg_state cleanup_new)" by simp
  note eff = run_tasks_effect [OF assms c r]
  have "upload_stream env u n frames len s =
       (case upload (with_tasks env rs) u n frames len of
          Inl e \<Rightarrow> (Inl e, cleanup_block_refs (en_tg env) (en_clock env 0) (staged_refs env rs) s1)
        | Inr r \<Rightarrow> (Inr r, s1))"
    using eff by (simp add: upload_stream_def r [simplified] guard_cleanup_def Let_def close_registry_def
        snapshot_def cleanup_block_refs_def split: sum.splits)
  moreover have "spawned = []" "ran env s rs s1" using eff unfolding ran_def by blast+
  ultimately show ?thesis using r by auto
qed

lemma upload_stream_quiet:
  assumes "db_ok (srv_db s)"
  shows "quiet (srv_db s) (srv_db (snd (upload_stream env u n frames len s)))"
proof -
  from upload_stream_run [OF assms, of env u n frames len] obtain rs s1 where "ran env s rs s1"
    and eq: "upload_stream env u n frames len s =
       (case upload (with_tasks env rs) u n frames len of
          Inl e \<Rightarrow> (Inl e, cleanup_block_refs (en_tg env) (en_clock env 0) (staged_refs env rs) s1)
        | Inr r \<Rightarrow> (Inr r, s1))" by auto
  then have "quiet (srv_db s) (srv_db s1)" by (auto simp: ran_def intro: quiet_only_blocks)
  with quiet_cleanup quiet_trans show ?thesis unfolding eq by (auto split: sum.splits)
qed

text \<open>What a successful upload gives its caller.\<close>

definition uploaded_part ::
  "engine_env \<Rightarrow> db \<Rightarrow> db \<Rightarrow> str \<Rightarrow> int \<Rightarrow> bytes \<Rightarrow> uploaded_block list \<Rightarrow> part_record \<Rightarrow> bool"
where
  "uploaded_part env d d' u n body us part \<longleftrightarrow>
     part = part_of (en_upload env) u n body us
     \<and> list_all2 (came_from env d d') (cut u n (ue_chunk_size (en_upload env)) 0 0 body) us
     \<and> contiguous 0 (part_blocks part) \<and> total_size (part_blocks part) = int (length body)
     \<and> distinct (map blk_id (part_blocks part)) \<and> (\<forall>b \<in> set (part_blocks part). staged d' b)"

lemma in_order_distinct_ids:
  assumes "in_order ordinal off us" and "\<forall>u \<in> set us. \<forall>v \<in> set us. ub_id u = ub_id v \<longrightarrow> u = v"
  shows "distinct (map ub_id us)"
proof -
  have "distinct us" using in_order_sorted [OF assms(1)] by (simp add: distinct_map)
  with assms(2) show ?thesis by (simp add: distinct_map inj_on_def)
qed

lemma upload_stream_Inr:
  assumes ok: "db_ok (srv_db s)" and chunk: "0 < ue_chunk_size (en_upload env)"
    and up: "upload_stream env u n frames len s = (Inr (part, sz), s')"
  shows "\<exists>chunks us. frames = map Inr chunks \<and> sz = int (length (concat chunks))
    \<and> (len \<noteq> None \<longrightarrow> len = Some sz)
    \<and> uploaded_part env (srv_db s) (srv_db s') u n (concat chunks) us part
    \<and> db_ok (srv_db s') \<and> only_blocks (srv_db s) (srv_db s') \<and> lookup (srv_db s') = lookup (srv_db s)"
proof -
  from upload_stream_run [OF ok, of env u n frames len] obtain rs s1 where "ran env s rs s1"
    and eq: "upload_stream env u n frames len s =
       (case upload (with_tasks env rs) u n frames len of
          Inl e \<Rightarrow> (Inl e, cleanup_block_refs (en_tg env) (en_clock env 0) (staged_refs env rs) s1)
        | Inr r \<Rightarrow> (Inr r, s1))" by auto
  then have s1: "only_blocks (srv_db s) (srv_db s1)" "db_ok (srv_db s1)" "lookup (srv_db s1) = lookup (srv_db s)"
    and cf: "\<forall>p u. (p, Inr u) \<in> set rs \<longrightarrow> came_from env (srv_db s) (srv_db s1) p u"
    and inj: "\<forall>p u q v. (p, Inr u) \<in> set rs \<longrightarrow> (q, Inr v) \<in> set rs \<longrightarrow> ub_id u = ub_id v \<longrightarrow> u = v"
    by (simp_all add: ran_def)
  from up eq have s': "s' = s1" and up: "upload (with_tasks env rs) u n frames len = Inr (part, sz)"
    by (auto split: sum.splits)
  have chunk': "0 < ue_chunk_size (with_tasks env rs)" using chunk by simp
  from upload_Inr [OF up tasks_ok [OF cf] chunk'] obtain chunks us where
    r: "frames = map Inr chunks" "holds (with_tasks env rs) u n (concat chunks) us"
      "part = part_of (en_upload env) u n (concat chunks) us" "sz = int (length (concat chunks))"
      "len \<noteq> None \<longrightarrow> len = Some sz" "in_order 0 0 us"
      "sum_list (map ub_data_size us) = int (length (concat chunks))" by auto
  let ?ps = "cut u n (ue_chunk_size (en_upload env)) 0 0 (concat chunks)"
  have res: "map (\<lambda>p. task_result rs (fst p) (snd p)) ?ps = map Inr us"
    using r(2) by (simp add: holds_def run_def [abs_def] with_tasks_def)
  have len: "length us = length ?ps" using arg_cong [OF res, of length] by simp
  have nth: "(?ps ! i, Inr (us ! i)) \<in> set rs" if "i < length us" for i
  proof -
    have "task_result rs (fst (?ps ! i)) (snd (?ps ! i)) = Inr (us ! i)"
      using arg_cong [OF res, of "\<lambda>xs. xs ! i"] that len by simp
    from task_result_mem [OF this] show ?thesis by simp
  qed
  then have mem: "list_all2 (\<lambda>p u. (p, Inr u) \<in> set rs) ?ps us"
    using len by (simp add: list_all2_conv_all_nth)
  have all: "list_all2 (came_from env (srv_db s) (srv_db s1)) ?ps us"
    using mem cf by (auto elim: list_all2_mono)
  have us: "\<exists>p. (p, Inr v) \<in> set rs" if "v \<in> set us" for v
    using that nth by (metis in_set_conv_nth)
  have ids: "distinct (map ub_id us)"
    using us inj by (intro in_order_distinct_ids [OF r(6)]) blast
  have blocks: "part_blocks part = map (to_block_ref (ue_chat_id (en_upload env))) us"
    by (simp add: r(3) part_of_def references_for_uploaded_def)
  have "map blk_id (part_blocks part) = map ub_id us" by (simp add: blocks to_block_ref_def)
  moreover have "\<forall>b \<in> set (part_blocks part). staged (srv_db s1) b"
    using us cf by (auto simp: blocks came_from_def)
  moreover note part_of_layout [OF r(6,7), of "en_upload env" u n]
  ultimately have "uploaded_part env (srv_db s) (srv_db s1) u n (concat chunks) us part"
    using all ids r(3) by (simp add: uploaded_part_def part_of_def)
  with r s1 s' show ?thesis by blast
qed

section \<open>An upload that Telegram stores\<close>

text \<open>
  Telegram stores the pieces \<open>ps\<close>: each as a message of the right size (or of a size it does
  not report) with an id that no row has and no other piece gets.
\<close>

definition stores :: "engine_env \<Rightarrow> db \<Rightarrow> piece list \<Rightarrow> bool" where
  "stores env d ps \<longleftrightarrow>
     (\<forall>p \<in> set ps. \<exists>doc. en_store env (fst p) (snd p) = Inr doc
        \<and> (sd_file_size doc = 0 \<or> sd_file_size doc = spec_size (fst p))
        \<and> sd_message_id doc \<notin> row_messages d)
     \<and> (\<forall>p \<in> set ps. \<forall>q \<in> set ps. \<forall>x y. en_store env (fst p) (snd p) = Inr x
          \<and> en_store env (fst q) (snd q) = Inr y \<and> sd_message_id x = sd_message_id y \<longrightarrow> p = q)"

lemma add_staged_block_total:
  assumes "blk_message_id b \<notin> row_messages d"
  shows "\<exists>i d'. add_staged_block t b d = (Inr i, d') \<and> row_messages d' = insert (blk_message_id b) (row_messages d)"
  using assms
  by (force simp: add_staged_block_def transact_def insert_telegram_block_def row_messages_def pairs_def
      list_ex_iff Let_def)

lemma upload_one_works:
  assumes "en_store env sp c = Inr doc" and "sd_file_size doc = 0 \<or> sd_file_size doc = spec_size sp"
    and "sd_message_id doc \<notin> row_messages (srv_db s)"
  shows "\<exists>u s' reg' sp'. upload_one tg chat (en_store env) t sp c (s, reg) = (Inr u, s', reg', sp')
    \<and> row_messages (srv_db s') = insert (sd_message_id doc) (row_messages (srv_db s))"
proof -
  let ?b = "to_block_ref chat (uploaded_block (spec_ordinal sp) (spec_offset sp) (spec_size sp) doc)"
  have m: "blk_message_id ?b = sd_message_id doc" by (simp add: to_block_ref_def uploaded_block_def)
  with add_staged_block_total [of ?b "srv_db s" t] assms(3) obtain i d where
    "add_staged_block t ?b (srv_db s) = (Inr i, d)"
    "row_messages d = insert (sd_message_id doc) (row_messages (srv_db s))" by auto
  with assms(1,2) show ?thesis
    by (auto simp: upload_one_def Let_def split: prod.splits)
qed

lemma run_tasks_works:
  assumes "stores env (srv_db s) (map snd ts)" and "distinct (map snd ts)"
    and "run_tasks env ts s reg = (rs, s', reg', spawned)"
  shows "\<forall>(p, r) \<in> set rs. \<exists>u. r = Inr u"
  using assms
proof (induction ts arbitrary: s reg rs s' reg' spawned)
  case (Cons x ts)
  obtain t sp c where x: "x = (t, sp, c)" by (cases x) auto
  from Cons.prems(1) x obtain doc where doc: "en_store env sp c = Inr doc"
    "sd_file_size doc = 0 \<or> sd_file_size doc = spec_size sp" "sd_message_id doc \<notin> row_messages (srv_db s)"
    by (auto simp: stores_def)
  from upload_one_works [OF this, of "en_tg env" "ue_chat_id (en_upload env)" t reg] obtain u s1 reg1 sp1 where
    up: "upload_one (en_tg env) (ue_chat_id (en_upload env)) (en_store env) t sp c (s, reg) = (Inr u, s1, reg1, sp1)"
    and m: "row_messages (srv_db s1) = insert (sd_message_id doc) (row_messages (srv_db s))" by blast
  obtain rs2 sp2 where rest: "run_tasks env ts s1 reg1 = (rs2, s', reg', sp2)" and rs: "rs = ((sp, c), Inr u) # rs2"
    using Cons.prems(3) x up by (auto split: prod.splits)
  have inj: "p = q" if "p \<in> set (map snd (x # ts))" "q \<in> set (map snd (x # ts))"
      "en_store env (fst p) (snd p) = Inr y" "en_store env (fst q) (snd q) = Inr z" "sd_message_id y = sd_message_id z" for p q y z
    using Cons.prems(1) that unfolding stores_def by blast
  have "\<exists>d. en_store env (fst p) (snd p) = Inr d \<and> (sd_file_size d = 0 \<or> sd_file_size d = spec_size (fst p))
      \<and> sd_message_id d \<notin> row_messages (srv_db s1)" if p: "p \<in> set (map snd ts)" for p
  proof -
    have mem: "p \<in> set (map snd (x # ts))" using p by simp
    with Cons.prems(1) obtain d where d: "en_store env (fst p) (snd p) = Inr d"
      "sd_file_size d = 0 \<or> sd_file_size d = spec_size (fst p)" "sd_message_id d \<notin> row_messages (srv_db s)"
      unfolding stores_def by blast
    have "p \<noteq> (sp, c)" using p Cons.prems(2) x by (auto simp: image_iff)
    then have "sd_message_id d \<noteq> sd_message_id doc"
      using inj [of p "(sp, c)" d doc] mem d(1) doc(1) x by auto
    with d m show ?thesis by simp
  qed
  moreover have "p = q" if "p \<in> set (map snd ts)" "q \<in> set (map snd ts)"
      "en_store env (fst p) (snd p) = Inr y \<and> en_store env (fst q) (snd q) = Inr z \<and> sd_message_id y = sd_message_id z" for p q y z
    using inj [of p q y z] that by simp
  ultimately have "stores env (srv_db s1) (map snd ts)" unfolding stores_def by blast
  from Cons.IH [OF this _ rest] Cons.prems(2) show ?case by (auto simp: rs)
qed simp

lemma upload_stream_works:
  assumes ok: "db_ok (srv_db s)" and w: "env_works (en_upload env)" and chunk: "0 < ue_chunk_size (en_upload env)"
    and size: "int (length (concat chunks)) \<le> ue_max_object_size (en_upload env)"
      "int (length (concat chunks)) \<le> i64_max"
    and len: "len \<noteq> None \<longrightarrow> len = Some (int (length (concat chunks)))"
    and ord: "distinct (map snd (en_order env))"
      "set (map snd (en_order env)) = set (cut u n (ue_chunk_size (en_upload env)) 0 0 (concat chunks))"
    and st: "stores env (srv_db s) (cut u n (ue_chunk_size (en_upload env)) 0 0 (concat chunks))"
  shows "\<exists>part sz s'. upload_stream env u n (map Inr chunks) len s = (Inr (part, sz), s')"
proof -
  let ?ps = "cut u n (ue_chunk_size (en_upload env)) 0 0 (concat chunks)"
  from upload_stream_run [OF ok, of env u n "map Inr chunks" len] obtain rs s1 reg where
    run: "run_tasks env (en_order env) s \<lparr>cl_closed = False, cl_references = []\<rparr> = (rs, s1, reg, [])"
    and r: "ran env s rs s1"
    and eq: "upload_stream env u n (map Inr chunks) len s =
       (case upload (with_tasks env rs) u n (map Inr chunks) len of
          Inl e \<Rightarrow> (Inl e, cleanup_block_refs (en_tg env) (en_clock env 0) (staged_refs env rs) s1)
        | Inr r \<Rightarrow> (Inr r, s1))" by auto
  have "stores env (srv_db s) (map snd (en_order env))"
    using st ord(2) by (simp add: stores_def)
  from run_tasks_works [OF this ord(1) run] have all: "\<forall>(p, r) \<in> set rs. \<exists>u. r = Inr u" .
  have "tasks_work (with_tasks env rs) ?ps"
    unfolding tasks_work_def
  proof
    fix p assume "p \<in> set ?ps"
    then have "p \<in> fst ` set rs" using r ord(2) by (metis list.set_map ran_def)
    then have "map_of rs p \<noteq> None" by (simp add: map_of_eq_None_iff)
    then obtain x where x: "map_of rs p = Some x" by auto
    with all map_of_SomeD [OF x] obtain v where "x = Inr v" by auto
    with x show "\<exists>b. run (with_tasks env rs) p = Inr b" by (simp add: run_def with_tasks_def task_result_def)
  qed
  with upload_works [of "with_tasks env rs" chunks u n len] w chunk size len
  obtain part sz where "upload (with_tasks env rs) u n (map Inr chunks) len = Inr (part, sz)" by auto
  with eq show ?thesis by simp
qed

end
