(* ===== verification/Engine_Object.thy ===== *)
theory Engine_Object
  imports Engine_Upload
begin

text \<open>
  \<open>src/engine/object.rs\<close>: the operations on whole objects. Their result is the outcome, the
  server, and the block lists whose reclaim (\<open>reclaim_blocks_now\<close>) they spawn. The upload id is
  an argument (\<open>Uuid::new_v4\<close>), not assumed to be new.
\<close>

type_synonym 'a handled = "(error + 'a) \<times> server \<times> block_ref list list"

definition require_bucket :: "str \<Rightarrow> db \<Rightarrow> error + unit" where
  "require_bucket bucket d = (if \<not> bucket_exists bucket d then Inl NoSuchBucket else Inr ())"

text \<open>\<open>reclaim_blocks\<close>: the reclaim of some released blocks is spawned unless there are none.\<close>

definition reclaim_blocks :: "block_ref list \<Rightarrow> block_ref list list" where
  "reclaim_blocks blocks = (if blocks = [] then [] else [blocks])"

section \<open>\<open>validate_object_layout\<close>\<close>

fun validate_layout_loop :: "int \<Rightarrow> int set \<Rightarrow> block_ref list \<Rightarrow> error + int" where
  "validate_layout_loop offset ids [] = Inr offset"
| "validate_layout_loop offset ids (b # bs) =
     (if blk_size b \<le> 0 \<or> blk_offset b \<noteq> offset \<or> blk_id b \<in> ids then Inl InvalidLayout
      else case checked_add offset (blk_size b) of
             None \<Rightarrow> Inl InvalidLayout
           | Some offset' \<Rightarrow> validate_layout_loop offset' (insert (blk_id b) ids) bs)"

definition validate_object_layout :: "object_record \<Rightarrow> error + unit" where
  "validate_object_layout ob =
     (if obj_size ob < 0 then Inl InvalidLayout
      else case validate_layout_loop 0 {} (obj_blocks ob) of
             Inl e \<Rightarrow> Inl e
           | Inr offset \<Rightarrow> if offset \<noteq> obj_size ob then Inl InvalidLayout else Inr ())"

section \<open>Writing an object\<close>

text \<open>The inner block of \<open>put_object\<close>: upload, replace the part, commit.\<close>

definition put_body ::
  "engine_env \<Rightarrow> str \<Rightarrow> (error + bytes) list \<Rightarrow> int option \<Rightarrow> object_condition \<Rightarrow> server
     \<Rightarrow> object_record handled"
where
  "put_body env uid frames expected condition s =
     (case upload_stream env uid 0 frames expected s of
        (Inl e, s1) \<Rightarrow> (Inl e, s1, [])
      | (Inr (part, actual), s1) \<Rightarrow>
          (case (case expected of None \<Rightarrow> None | Some e \<Rightarrow> if e \<noteq> actual then Some e else None) of
             Some e \<Rightarrow> (Inl (IncompleteBody e actual), s1, [])
           | None \<Rightarrow>
               (case replace_part (en_clock env 2) uid 0 actual (part_etag part) (part_blocks part) (srv_db s1) of
                  (Inl e, d) \<Rightarrow>
                    (Inl e, cleanup_block_refs (en_tg env) (en_clock env 0) (part_blocks part) (s1\<lparr>srv_db := d\<rparr>), [])
                | (Inr released, d) \<Rightarrow>
                    (case commit_upload (en_clock env 3) uid actual (part_etag part) [part] condition d of
                       (Inl e, d') \<Rightarrow> (Inl e, s1\<lparr>srv_db := d'\<rparr>, reclaim_blocks released)
                     | (Inr None, d') \<Rightarrow>
                         (Inl (Other (lit ''upload disappeared'')), s1\<lparr>srv_db := d'\<rparr>, reclaim_blocks released)
                     | (Inr (Some (ob, old)), d') \<Rightarrow>
                         (Inr ob, s1\<lparr>srv_db := d'\<rparr>, reclaim_blocks released @ reclaim_blocks old)))))"

definition put_object ::
  "engine_env \<Rightarrow> str \<Rightarrow> str \<Rightarrow> str \<Rightarrow> (error + bytes) list \<Rightarrow> object_metadata \<Rightarrow> int option
     \<Rightarrow> object_condition \<Rightarrow> server \<Rightarrow> object_record handled"
where
  "put_object env uid bucket key frames metadata expected condition s =
     (case require_bucket bucket (srv_db s) of
        Inl e \<Rightarrow> (Inl e, s, [])
      | Inr _ \<Rightarrow>
     (case check_size expected (ue_max_object_size (en_upload env)) of
        Inl e \<Rightarrow> (Inl e, s, [])
      | Inr _ \<Rightarrow>
     (case create_upload \<lparr>up_upload_id = uid, up_bucket = bucket, up_key = key, up_metadata = metadata,
             up_kind = lit ''put'', up_created_at = en_clock env 1\<rparr> (srv_db s) of
        (Inl e, d) \<Rightarrow> (Inl e, s\<lparr>srv_db := d\<rparr>, [])
      | (Inr _, d) \<Rightarrow>
          (case put_body env uid frames expected condition (s\<lparr>srv_db := d\<rparr>) of
             (Inr ob, s1, spawned) \<Rightarrow> (Inr ob, s1, spawned)
           | (Inl e, s1, spawned) \<Rightarrow>
               (case abort_upload_with_blocks (en_clock env 4) uid (srv_db s1) of
                  (Inr (Some blocks), d) \<Rightarrow> (Inl e, s1\<lparr>srv_db := d\<rparr>, spawned @ reclaim_blocks blocks)
                | (Inr None, d) \<Rightarrow> (Inl e, s1\<lparr>srv_db := d\<rparr>, spawned)
                | (Inl _, d) \<Rightarrow> (Inl e, s1\<lparr>srv_db := d\<rparr>, spawned))))))"

section \<open>Reading, deleting and copying\<close>

definition engine_get_object :: "str \<Rightarrow> str \<Rightarrow> db \<Rightarrow> error + object_record" where
  "engine_get_object bucket key d =
     bind_res (require_bucket bucket d) (\<lambda>_.
     bind_res (get_object bucket key d) (\<lambda>found.
     case found of
       None \<Rightarrow> Inl NoSuchKey
     | Some ob \<Rightarrow> bind_res (validate_object_layout ob) (\<lambda>_. Inr ob)))"

definition engine_delete_object ::
  "int \<Rightarrow> str \<Rightarrow> str \<Rightarrow> object_condition \<Rightarrow> server \<Rightarrow> bool handled"
where
  "engine_delete_object t bucket key condition s =
     (case require_bucket bucket (srv_db s) of
        Inl e \<Rightarrow> (Inl e, s, [])
      | Inr _ \<Rightarrow>
          (case delete_object t bucket key condition (srv_db s) of
             (Inl e, d) \<Rightarrow> (Inl e, s\<lparr>srv_db := d\<rparr>, [])
           | (Inr None, d) \<Rightarrow> (Inr False, s\<lparr>srv_db := d\<rparr>, [])
           | (Inr (Some deleted), d) \<Rightarrow> (Inr True, s\<lparr>srv_db := d\<rparr>, reclaim_blocks (obj_blocks deleted))))"

definition engine_copy_object ::
  "int \<Rightarrow> str \<Rightarrow> str \<Rightarrow> str \<Rightarrow> str \<Rightarrow> object_metadata \<Rightarrow> object_condition \<Rightarrow> server
     \<Rightarrow> object_record handled"
where
  "engine_copy_object t source_bucket source_key bucket key metadata condition s =
     (case require_bucket bucket (srv_db s) of
        Inl e \<Rightarrow> (Inl e, s, [])
      | Inr _ \<Rightarrow>
     (case engine_get_object source_bucket source_key (srv_db s) of
        Inl e \<Rightarrow> (Inl e, s, [])
      | Inr source \<Rightarrow>
          (case copy_object t source bucket key metadata condition (srv_db s) of
             (Inl e, d) \<Rightarrow> (Inl e, s\<lparr>srv_db := d\<rparr>, [])
           | (Inr (ob, released), d) \<Rightarrow> (Inr ob, s\<lparr>srv_db := d\<rparr>, reclaim_blocks released))))"

section \<open>The stored layout is valid\<close>

lemma validate_layout_loop_total:
  assumes "contiguous off bs" and "distinct (map blk_id bs)" and "set (map blk_id bs) \<inter> ids = {}"
    and "0 \<le> off" and "off + total_size bs \<le> i64_max"
  shows "validate_layout_loop off ids bs = Inr (off + total_size bs)"
  using assms
proof (induction bs arbitrary: off ids)
  case (Cons b bs)
  have "0 \<le> total_size bs" using Cons.prems(1) contiguous_total_nonneg by auto
  then have "in_i64 (off + blk_size b)" using Cons.prems by (auto simp: i64_defs)
  moreover have "validate_layout_loop (off + blk_size b) (insert (blk_id b) ids) bs = Inr (off + blk_size b + total_size bs)"
    by (rule Cons.IH) (use Cons.prems in auto)
  ultimately show ?case using Cons.prems by (auto simp: checked_add_def)
qed simp

lemma get_object_validates:
  assumes "db_ok d" and "get_object b k d = Inr (Some ob)"
  shows "validate_object_layout ob = Inr ()"
proof -
  have v: "source_valid d ob" using assms by (rule get_object_source_valid)
  then have "0 \<le> obj_size ob" unfolding source_valid_def by (metis contiguous_total_nonneg)
  moreover have "validate_layout_loop 0 {} (obj_blocks ob) = Inr (0 + total_size (obj_blocks ob))"
    by (rule validate_layout_loop_total) (use v in \<open>auto simp: source_valid_def\<close>)
  ultimately show ?thesis using v by (simp add: validate_object_layout_def source_valid_def)
qed

lemma engine_get_object_eq:
  assumes "db_ok d"
  shows "engine_get_object b k d =
    (if \<not> bucket_named d b then Inl NoSuchBucket
     else case lookup d (b, k) of None \<Rightarrow> Inl NoSuchKey | Some ob \<Rightarrow> Inr ob)"
proof -
  obtain r where "get_object b k d = Inr r" using get_object_total [OF assms] by blast
  then show ?thesis
    using get_object_validates [OF assms, of b k]
    by (cases r) (simp_all add: engine_get_object_def require_bucket_def bucket_exists_def lookup_def)
qed

lemma stored_bucket:
  assumes ok: "db_ok d" and "lookup d (b, k) = Some ob"
  shows "bucket_named d b"
proof -
  have "get_object b k d = Inr (Some ob)" using assms(2) by (auto simp: lookup_def split: sum.splits)
  from get_object_Some [OF ok this] ok show ?thesis by (auto simp: db_ok_def buckets_ok_def)
qed

section \<open>What a put does to the database\<close>

lemma refs_zero_free: "\<forall>b \<in> set bs. refs d (blk_id b) = 0 \<Longrightarrow> blocks_free d u n bs"
proof -
  assume z: "\<forall>b \<in> set bs. refs d (blk_id b) = 0"
  have "count_list (map pb_block_id (rows_of_part d u n)) i = 0" if "refs d i = 0" for i
  proof -
    have "i \<notin> set (map pb_block_id (multipart_part_blocks d))"
      using that refs_pos_iff [of d i] by (auto simp: in_part_def list_ex_iff)
    then show ?thesis by (auto simp: count_list_0_iff rows_of_part_def)
  qed
  with z show ?thesis by (auto simp: blocks_free_def)
qed

lemma block_view_part_written: "block_view (part_written t u n sz etag bs rel d) x = block_view d x"
proof -
  have "block_view (e\<lparr>multipart_parts := a, multipart_part_blocks := b\<rparr>) x = block_view e x" for e a b
    by (simp add: block_view_def)
  then show ?thesis by (simp add: part_written_def Let_def)
qed

lemma replace_part_frame:
  assumes "schema_ok d" and "replace_part t u n sz etag bs d = (Inr rel, d')"
  shows "d' = part_written t u n sz etag bs rel d"
    and "multipart_uploads d' = multipart_uploads d" "buckets d' = buckets d"
proof -
  from assms(2) have "replace_part_tx t u n sz etag bs d = Inr (rel, d')"
    by (auto simp: replace_part_def transact_def split: sum.splits)
  from replace_part_tx_Inr [OF assms(1) this] show 1: "d' = part_written t u n sz etag bs rel d" by simp
  show "multipart_uploads d' = multipart_uploads d" "buckets d' = buckets d"
    unfolding 1 part_written_def Let_def by (simp_all add: delete_part_row_def)
qed

lemma commit_upload_tx_view:
  assumes ok: "db_ok d" and tx: "commit_upload_tx t up sz etag parts c d = Inr (old, d')"
  shows "block_view d' x = block_view d x" and "buckets d' = buckets d"
    and "multipart_uploads d' = filter (\<lambda>r. urow_upload_id r \<noteq> urow_upload_id up) (multipart_uploads d)"
proof -
  from tx obtain removed d1 oid d2 d3 unused r where
    rm: "remove_existing_object t (urow_bucket up) (urow_key up) c d = Inr (removed, d1)" and
    ins: "insert_object r d1 = Inr (oid, d2)" and
    att: "attach_blocks oid 0 0 (all_blocks parts) d2 = Inr d3" and
    d': "d' = delete_upload_row (urow_upload_id up) (decrement_blocks t unused d3)"
    by (auto simp: commit_upload_tx_def bind_res_Inr_iff)
  have s: "schema_ok d" using ok by (simp add: db_ok_def)
  note l1 = remove_existing_lookup [OF s rm]
  from insert_object_Inr [OF ins] have d2: "d2 = d1\<lparr>objects := objects d1 @ [r\<lparr>orow_id := oid\<rparr>]\<rparr>" by simp
  note fr = attach_blocks_frame [OF att]
  have "block_view d' x = block_view d1 x"
    using block_view_attach_blocks [OF att, of x] by (simp add: d') (simp add: d2 block_view_def)
  with l1 show "block_view d' x = block_view d x" by simp
  obtain i where "removed_from d i d1" using remove_existing_object_removed [OF s rm] by blast
  then show "buckets d' = buckets d"
      "multipart_uploads d' = filter (\<lambda>r. urow_upload_id r \<noteq> urow_upload_id up) (multipart_uploads d)"
    using fr by (simp_all add: d' delete_upload_row_def d2 removed_from_def)
qed

lemma block_from_row_fields:
  "block_from_row r n off sz = Inr b \<Longrightarrow> blk_id b = trow_id r \<and> blk_message_id b = trow_message_id r
     \<and> blk_file_id b = trow_file_id r \<and> parse_backend (trow_backend r) = Inr (blk_backend b)"
  by (auto simp: block_from_row_def split: sum.splits)

lemma reads_same:
  assumes "schema_ok d" and "reads d a" and "reads d b" and "blk_id a = blk_id b"
  shows "blk_message_id a = blk_message_id b" "blk_file_id a = blk_file_id b" "blk_backend a = blk_backend b"
proof -
  from assms(2,3) obtain r q where r: "r \<in> set (telegram_blocks d)" "q \<in> set (telegram_blocks d)"
    and ref: "block_from_row r (blk_ordinal a) (blk_offset a) (blk_size a) = Inr a"
      "block_from_row q (blk_ordinal b) (blk_offset b) (blk_size b) = Inr b"
    by (auto simp: reads_def)
  note f = block_from_row_fields [OF ref(1)] block_from_row_fields [OF ref(2)]
  have "r = q" using r assms(1,4) f by (simp add: schema_defs distinct_map inj_on_def)
  with f show "blk_message_id a = blk_message_id b" "blk_file_id a = blk_file_id b" "blk_backend a = blk_backend b"
    by simp_all
qed

text \<open>A block of an object and the piece of the body it holds.\<close>

definition holds_piece :: "engine_env \<Rightarrow> block_ref \<Rightarrow> piece \<Rightarrow> bool" where
  "holds_piece env b p \<longleftrightarrow> blk_size b = int (length (snd p))
     \<and> (\<exists>doc. en_store env (fst p) (snd p) = Inr doc \<and> blk_message_id b = sd_message_id doc
          \<and> blk_file_id b = sd_file_id doc \<and> blk_backend b = sd_backend doc)"

lemma uploaded_holds:
  assumes part: "uploaded_part env d d1 u n body us part"
    and ok: "schema_ok d'" and view: "\<And>x. block_view d' x = block_view d1 x"
    and rd: "\<forall>b \<in> set bs. reads d' b"
    and ids: "map blk_id bs = map blk_id (part_blocks part)" and sizes: "map blk_size bs = map blk_size (part_blocks part)"
  shows "list_all2 (holds_piece env) bs (cut u n (ue_chunk_size (en_upload env)) 0 0 body)"
proof -
  let ?ps = "cut u n (ue_chunk_size (en_upload env)) 0 0 body"
  have blocks: "part_blocks part = map (to_block_ref (ue_chat_id (en_upload env))) us"
    using part by (simp add: uploaded_part_def part_of_def references_for_uploaded_def)
  have all: "list_all2 (came_from env d d1) ?ps us" using part by (simp add: uploaded_part_def)
  have len: "length bs = length us" "length ?ps = length us"
    using arg_cong [OF ids, of length] list_all2_lengthD [OF all] by (simp_all add: blocks)
  have "holds_piece env (bs ! i) (?ps ! i)" if i: "i < length us" for i
  proof -
    let ?u = "to_block_ref (ue_chat_id (en_upload env)) (us ! i)"
    have cf: "came_from env d d1 (?ps ! i) (us ! i)" using all i len by (simp add: list_all2_conv_all_nth)
    then have "reads d1 ?u" by (simp add: came_from_def staged_def)
    then have u: "reads d' ?u" using view by (blast intro: reads_view)
    have b: "reads d' (bs ! i)" using rd i len by simp
    have "blk_id (bs ! i) = blk_id ?u" "blk_size (bs ! i) = blk_size ?u"
      using arg_cong [OF ids, of "\<lambda>xs. xs ! i"] arg_cong [OF sizes, of "\<lambda>xs. xs ! i"] i len
      by (simp_all add: blocks)
    with reads_same [OF ok b u] cf cut_sizes [OF nth_mem, of i u n "ue_chunk_size (en_upload env)" 0 0 body] i len
    show ?thesis by (auto simp: holds_piece_def came_from_def to_block_ref_def)
  qed
  with len show ?thesis by (simp add: list_all2_conv_all_nth)
qed

lemma quiet_frame: "quiet d d' \<Longrightarrow> db_ok d \<Longrightarrow> db_ok d' \<and> lookup d' = lookup d \<and> multipart_uploads d' = multipart_uploads d \<and> buckets d' = buckets d"
  by (simp add: quiet_def)

text \<open>The part of an upload, once uploaded, is stored by \<open>replace_part\<close>.\<close>

lemma replace_uploaded:
  assumes ok: "db_ok d1" and part: "uploaded_part env d d1 u n body us part"
    and rp: "replace_part t u n sz etag (part_blocks part) d1 = (r, d2)"
  shows "quiet d1 d2" and "\<And>x. block_view d2 x = block_view d1 x" and "db_ok d2"
proof -
  have s: "schema_ok d1" using ok by (simp add: db_ok_def)
  have free: "blocks_free d1 u n (part_blocks part)"
    using part by (intro refs_zero_free) (simp add: uploaded_part_def staged_def)
  show ok2: "db_ok d2" using db_ok_replace_part [OF ok free] rp by (metis snd_conv)
  have l: "lookup d2 = lookup d1" using replace_part_s.lookup_neutral [OF refl ok] rp by (metis snd_conv)
  have same: "d2 = d1" if "r = Inl e" for e
    using rp that by (auto simp: replace_part_def transact_def split: sum.splits)
  show "quiet d1 d2"
    using ok2 l same replace_part_frame [OF s] rp by (cases r) (auto simp: quiet_def)
  show "block_view d2 x = block_view d1 x" for x
  proof (cases r)
    case (Inr rel)
    from replace_part_frame(1) [OF s rp [unfolded Inr]] show ?thesis by (simp add: block_view_part_written)
  qed (use same in simp)
qed

lemma put_body_Inl:
  assumes ok: "db_ok (srv_db s)" and chunk: "0 < ue_chunk_size (en_upload env)"
    and put: "put_body env uid frames expected c s = (Inl e, s', sp)"
  shows "quiet (srv_db s) (srv_db s')"
proof -
  obtain r s1 where up: "upload_stream env uid 0 frames expected s = (r, s1)"
    by (cases "upload_stream env uid 0 frames expected s") auto
  then have q1: "quiet (srv_db s) (srv_db s1)" using upload_stream_quiet [OF ok] by (metis snd_conv)
  show ?thesis
  proof (cases r)
    case (Inl e')
    with put up q1 show ?thesis by (simp add: put_body_def)
  next
    case (Inr x)
    obtain part actual where x: "x = (part, actual)" by (cases x) auto
    from upload_stream_Inr [OF ok chunk up [unfolded Inr x]] obtain chunks us where
      part: "uploaded_part env (srv_db s) (srv_db s1) uid 0 (concat chunks) us part" and ok1: "db_ok (srv_db s1)"
      by blast
    obtain r2 d2 where rp: "replace_part (en_clock env 2) uid 0 actual (part_etag part) (part_blocks part) (srv_db s1) = (r2, d2)"
      by (cases "replace_part (en_clock env 2) uid 0 actual (part_etag part) (part_blocks part) (srv_db s1)") auto
    note rep = replace_uploaded [OF ok1 part rp]
    have q2: "quiet (srv_db s) d2" using q1 rep(1) by (rule quiet_trans)
    obtain r3 d3 where cm: "commit_upload (en_clock env 3) uid actual (part_etag part) [part] c d2 = (r3, d3)"
      by (cases "commit_upload (en_clock env 3) uid actual (part_etag part) [part] c d2") auto
    have same: "d3 = d2" if "\<forall>ob old. r3 \<noteq> Inr (Some (ob, old))"
      using commit_upload_cases [OF rep(3) cm] that by auto
    have q3: "quiet (srv_db s) (srv_db (cleanup_block_refs env' t bs (s1\<lparr>srv_db := d2\<rparr>)))" for env' t bs
      using quiet_trans [OF q2] quiet_cleanup [of "s1\<lparr>srv_db := d2\<rparr>"] by simp
    show ?thesis
      using put up Inr x rp cm q1 q2 q3 same
      by (auto simp: put_body_def split: option.splits sum.splits if_splits)
  qed
qed

text \<open>What a stored object is: its metadata, and blocks that hold the pieces of the body in order.\<close>

definition holds_body :: "engine_env \<Rightarrow> str \<Rightarrow> bytes \<Rightarrow> object_record \<Rightarrow> bool" where
  "holds_body env uid body ob \<longleftrightarrow>
     obj_size ob = int (length body) \<and> obj_etag ob = ue_md5_hex (en_upload env) body
     \<and> contiguous 0 (obj_blocks ob)
     \<and> list_all2 (holds_piece env) (obj_blocks ob) (cut uid 0 (ue_chunk_size (en_upload env)) 0 0 body)"

lemma get_upload_row:
  assumes "db_ok d" and "upload_rows d u = [up]"
  shows "urow_upload_id up = u" "get_upload u d = Some (upload_from_row up)"
  using assms(2) upload_rows_mem [OF assms(2)] by (simp_all add: get_upload_def)

lemma put_body_Inr:
  assumes ok: "db_ok (srv_db s)" and chunk: "0 < ue_chunk_size (en_upload env)"
    and put: "put_body env uid frames expected c s = (Inr ob, s', sp)"
  shows "\<exists>chunks up. frames = map Inr chunks \<and> get_upload uid (srv_db s) = Some up \<and> db_ok (srv_db s')
    \<and> (expected \<noteq> None \<longrightarrow> expected = Some (int (length (concat chunks))))
    \<and> condition_allows c (map_option obj_etag (lookup (srv_db s) (up_bucket up, up_key up)))
    \<and> lookup (srv_db s') = (lookup (srv_db s))((up_bucket up, up_key up) \<mapsto> ob)
    \<and> obj_metadata ob = up_metadata up \<and> holds_body env uid (concat chunks) ob
    \<and> buckets (srv_db s') = buckets (srv_db s)
    \<and> multipart_uploads (srv_db s') = filter (\<lambda>r. urow_upload_id r \<noteq> uid) (multipart_uploads (srv_db s))"
proof -
  from put obtain part actual s1 where up: "upload_stream env uid 0 frames expected s = (Inr (part, actual), s1)"
    by (auto simp: put_body_def split: sum.splits prod.splits)
  obtain r2 d2 where rp: "replace_part (en_clock env 2) uid 0 actual (part_etag part) (part_blocks part) (srv_db s1) = (r2, d2)"
    by (cases "replace_part (en_clock env 2) uid 0 actual (part_etag part) (part_blocks part) (srv_db s1)") auto
  obtain r3 d3 where cm: "commit_upload (en_clock env 3) uid actual (part_etag part) [part] c d2 = (r3, d3)"
    by (cases "commit_upload (en_clock env 3) uid actual (part_etag part) [part] c d2") auto
  from put up rp cm obtain old where r3: "r3 = Inr (Some (ob, old))" and s': "srv_db s' = d3"
    by (auto simp: put_body_def split: option.splits sum.splits if_splits)
  from upload_stream_Inr [OF ok chunk up] obtain chunks us where
    fr: "frames = map Inr chunks" "actual = int (length (concat chunks))" "expected \<noteq> None \<longrightarrow> expected = Some actual"
    and part: "uploaded_part env (srv_db s) (srv_db s1) uid 0 (concat chunks) us part"
    and ok1: "db_ok (srv_db s1)" and only: "only_blocks (srv_db s) (srv_db s1)"
    and lk1: "lookup (srv_db s1) = lookup (srv_db s)" by blast
  note rep = replace_uploaded [OF ok1 part rp]
  have q1: "quiet (srv_db s) (srv_db s1)" using only ok1 lk1 by (rule quiet_only_blocks)
  from quiet_frame [OF quiet_trans [OF q1 rep(1)] ok] have
    d2: "lookup d2 = lookup (srv_db s)" "multipart_uploads d2 = multipart_uploads (srv_db s)" "buckets d2 = buckets (srv_db s)"
    by simp_all
  from commit_upload_cases [OF rep(3) cm] r3 obtain up where
    urow: "upload_rows d2 uid = [up]" and lay: "validate_parts_layout [part] = Inr actual"
    and tx: "commit_upload_tx (en_clock env 3) up actual (part_etag part) [part] c d2 = Inr (old, d3)"
    and get: "get_object (urow_bucket up) (urow_key up) d3 = Inr (Some ob)" by auto
  note row = get_upload_row [OF rep(3) urow]
  note res = commit_upload_tx_result [OF rep(3) urow lay tx] and vw = commit_upload_tx_view [OF rep(3) tx]
  have ok3: "db_ok d3" using db_ok_commit_upload [OF rep(3)] cm by (metis snd_conv)
  have ob: "lookup d3 = (lookup d2)((urow_bucket up, urow_key up) \<mapsto> ob)" "obj_size ob = actual"
    "obj_etag ob = part_etag part" "obj_metadata ob = urow_metadata up"
    "map blk_id (obj_blocks ob) = map blk_id (part_blocks part)" "map blk_size (obj_blocks ob) = map blk_size (part_blocks part)"
    using res get by (auto simp: all_blocks_def)
  have "list_all2 (holds_piece env) (obj_blocks ob) (cut uid 0 (ue_chunk_size (en_upload env)) 0 0 (concat chunks))"
    by (rule uploaded_holds [OF part _ _ _ ob(5,6), of d3])
      (use ok3 vw(1) rep(2) get_object_reads [OF get] in \<open>simp_all add: db_ok_def\<close>)
  moreover have "part_etag part = ue_md5_hex (en_upload env) (concat chunks)"
    using part by (simp add: uploaded_part_def part_of_def)
  moreover have "contiguous 0 (obj_blocks ob)"
    using get_object_source_valid [OF ok3 get] by (simp add: source_valid_def)
  ultimately have "holds_body env uid (concat chunks) ob" using ob fr(2) by (simp add: holds_body_def)
  moreover have "condition_allows c (map_option obj_etag (lookup d2 (urow_bucket up, urow_key up)))"
  proof -
    from tx obtain rm d' where "remove_existing_object (en_clock env 3) (urow_bucket up) (urow_key up) c d2 = Inr (rm, d')"
      by (auto simp: commit_upload_tx_def bind_res_Inr_iff)
    then show ?thesis by (rule remove_existing_allowed [OF rep(3)])
  qed
  moreover have "get_upload uid (srv_db s) = Some (upload_from_row up)"
    using row(2) d2(2) by (simp add: get_upload_def upload_rows_def)
  moreover have "up_bucket (upload_from_row up) = urow_bucket up" "up_key (upload_from_row up) = urow_key up"
    "up_metadata (upload_from_row up) = urow_metadata up" by (simp_all add: upload_from_row_def)
  ultimately show ?thesis
    using fr ok3 ob d2 vw(2,3) row(1) s'
    by (intro exI [of _ chunks] exI [of _ "upload_from_row up"]) simp
qed

section \<open>A put that succeeds\<close>

lemma create_upload_Inr:
  assumes "create_upload up d = (Inr x, d')"
  shows "bucket_named d (up_bucket up)" "upload_rows d (up_upload_id up) = []"
    and "d' = d\<lparr>multipart_uploads := multipart_uploads d @ [\<lparr>urow_upload_id = up_upload_id up,
               urow_bucket = up_bucket up, urow_key = up_key up, urow_metadata = up_metadata up,
               urow_kind = up_kind up, urow_created_at = up_created_at up\<rparr>]\<rparr>"
    and "get_upload (up_upload_id up) d' = Some up"
proof -
  from assms show 1: "bucket_named d (up_bucket up)" "upload_rows d (up_upload_id up) = []"
    and d': "d' = d\<lparr>multipart_uploads := multipart_uploads d @ [\<lparr>urow_upload_id = up_upload_id up,
               urow_bucket = up_bucket up, urow_key = up_key up, urow_metadata = up_metadata up,
               urow_kind = up_kind up, urow_created_at = up_created_at up\<rparr>]\<rparr>"
    by (auto simp: create_upload_def transact_def insert_upload_def split: if_splits)
  show "get_upload (up_upload_id up) d' = Some up"
    using 1(2) by (simp add: d' get_upload_def upload_rows_def upload_from_row_def)
qed

lemma create_upload_Inl: "create_upload up d = (Inl e, d') \<Longrightarrow> d' = d"
  by (auto simp: create_upload_def transact_def split: sum.splits)

lemma no_upload_filter: "upload_rows d u = [] \<Longrightarrow> filter (\<lambda>r. urow_upload_id r \<noteq> u) (multipart_uploads d) = multipart_uploads d"
  by (auto simp: upload_rows_def filter_empty_conv intro!: filter_True)

lemma put_body_total:
  assumes ok: "db_ok (srv_db s)" and w: "env_works (en_upload env)" and chunk: "0 < ue_chunk_size (en_upload env)"
    and size: "int (length (concat chunks)) \<le> ue_max_object_size (en_upload env)"
      "int (length (concat chunks)) \<le> i64_max"
    and len: "len \<noteq> None \<longrightarrow> len = Some (int (length (concat chunks)))"
    and ord: "distinct (map snd (en_order env))"
      "set (map snd (en_order env)) = set (cut uid 0 (ue_chunk_size (en_upload env)) 0 0 (concat chunks))"
    and st: "stores env (srv_db s) (cut uid 0 (ue_chunk_size (en_upload env)) 0 0 (concat chunks))"
    and upl: "get_upload uid (srv_db s) = Some upr"
    and allowed: "condition_allows c (map_option obj_etag (lookup (srv_db s) (up_bucket upr, up_key upr)))"
  shows "\<exists>ob s' sp. put_body env uid (map Inr chunks) len c s = (Inr ob, s', sp)"
proof -
  from upload_stream_works [OF ok w chunk size len ord st] obtain part sz s1 where
    up: "upload_stream env uid 0 (map Inr chunks) len s = (Inr (part, sz), s1)" by blast
  from upload_stream_Inr [OF ok chunk up] obtain chunks' us where
    len': "len \<noteq> None \<longrightarrow> len = Some sz"
    and part: "uploaded_part env (srv_db s) (srv_db s1) uid 0 (concat chunks') us part"
    and sz: "sz = int (length (concat chunks'))"
    and same: "map Inr chunks = (map Inr chunks' :: (error + bytes) list)"
    and ok1: "db_ok (srv_db s1)" and only: "only_blocks (srv_db s) (srv_db s1)"
    and lk1: "lookup (srv_db s1) = lookup (srv_db s)" by blast
  have "chunks = chunks'" using same by (rule map_injective) simp
  with sz have sz: "sz = int (length (concat chunks))" by simp
  have s1: "schema_ok (srv_db s1)" using ok1 by (simp add: db_ok_def)
  have uprows: "upload_rows (srv_db s1) uid = upload_rows (srv_db s) uid"
    using only by (auto simp: only_blocks_def upload_rows_def)
  have "upload_rows (srv_db s) uid \<noteq> []" using upl by (auto simp: get_upload_def)
  then have one: "length (upload_rows (srv_db s1) uid) = 1"
    using one_upload [OF s1, of uid] unfolding uprows by auto
  have "\<forall>b \<in> set (part_blocks part). block_exists (srv_db s1) (blk_id b) \<and> \<not> queued (srv_db s1) (blk_id b)"
    using part by (auto simp: uploaded_part_def staged_exists, simp add: staged_def)
  from replace_part_tx_total [OF s1 one this, of "en_clock env 2" 0 sz "part_etag part"] part
  obtain rel d2 where tx: "replace_part_tx (en_clock env 2) uid 0 sz (part_etag part) (part_blocks part) (srv_db s1) = Inr (rel, d2)"
    by (auto simp: uploaded_part_def)
  then have rp: "replace_part (en_clock env 2) uid 0 sz (part_etag part) (part_blocks part) (srv_db s1) = (Inr rel, d2)"
    by (simp add: replace_part_def transact_def)
  note rep = replace_uploaded [OF ok1 part rp]
  have q: "quiet (srv_db s) d2" using quiet_trans [OF quiet_only_blocks [OF only ok1 lk1] rep(1)] .
  note d2 = quiet_frame [OF q ok]
  have flds: "part_size part = sz" "part_upload_id part = uid" "part_number part = 0"
    using part \<open>chunks = chunks'\<close> sz by (simp_all add: uploaded_part_def part_of_def)
  then have is_part: "\<lparr>part_upload_id = uid, part_number = 0, part_size = sz, part_etag = part_etag part,
      part_blocks = part_blocks part\<rparr> = part" by (cases part) simp
  have stored: "part_stored d2 part"
    using replace_part_tx_Inr [OF s1 tx] part_written_stored [of "en_clock env 2" uid 0 sz "part_etag part" "part_blocks part" rel "srv_db s1"]
    by (simp add: is_part)
  moreover have "validate_parts_layout [part] = Inr (0 + sz)"
    unfolding validate_parts_layout_def
    by (subst check_parts_Inr_iff) (use part sz size(2) flds(1) \<open>chunks = chunks'\<close> in \<open>auto simp: uploaded_part_def i64_defs\<close>)
  ultimately obtain ob old d3 where "commit_upload (en_clock env 3) uid sz (part_etag part) [part] c d2 = (Inr (Some (ob, old)), d3)"
    using commit_upload_total [OF rep(3), of uid upr "[part]" sz c "en_clock env 3" "part_etag part"] stored upl allowed d2 flds
    by (auto simp: get_upload_def upload_rows_def)
  with up len' rp show ?thesis by (auto simp: put_body_def)
qed

lemma put_object_total:
  assumes ok: "db_ok (srv_db s)" and bk: "bucket_named (srv_db s) bucket" and fresh: "get_upload uid (srv_db s) = None"
    and w: "env_works (en_upload env)" and chunk: "0 < ue_chunk_size (en_upload env)"
    and size: "int (length (concat chunks)) \<le> min i64_max (ue_max_object_size (en_upload env))"
    and len: "len \<noteq> None \<longrightarrow> len = Some (int (length (concat chunks)))"
    and ord: "distinct (map snd (en_order env))"
      "set (map snd (en_order env)) = set (cut uid 0 (ue_chunk_size (en_upload env)) 0 0 (concat chunks))"
    and st: "stores env (srv_db s) (cut uid 0 (ue_chunk_size (en_upload env)) 0 0 (concat chunks))"
    and allowed: "condition_allows c (map_option obj_etag (lookup (srv_db s) (bucket, key)))"
  shows "\<exists>ob s' sp. put_object env uid bucket key (map Inr chunks) metadata len c s = (Inr ob, s', sp)"
proof -
  let ?up = "\<lparr>up_upload_id = uid, up_bucket = bucket, up_key = key, up_metadata = metadata,
             up_kind = lit ''put'', up_created_at = en_clock env 1\<rparr>"
  have "upload_rows (srv_db s) uid = []" using fresh by (simp add: get_upload_def split: list.splits)
  with bk have "\<exists>d. create_upload ?up (srv_db s) = (Inr (), d)"
    by (simp add: create_upload_def insert_upload_def transact_def)
  then obtain d where cr: "create_upload ?up (srv_db s) = (Inr (), d)" ..
  have ok1: "db_ok d" using db_ok_create_upload [OF ok] cr by (metis snd_conv)
  have lk: "lookup d = lookup (srv_db s)" using create_upload_s.lookup_neutral [OF refl ok] cr by (metis snd_conv)
  have "row_messages d = row_messages (srv_db s)"
    using create_upload_Inr(3) [OF cr] by (simp add: row_messages_def pairs_def)
  with st have st1: "stores env d (cut uid 0 (ue_chunk_size (en_upload env)) 0 0 (concat chunks))"
    by (simp add: stores_def)
  have "\<exists>ob s' sp. put_body env uid (map Inr chunks) len c (s\<lparr>srv_db := d\<rparr>) = (Inr ob, s', sp)"
    by (rule put_body_total [where upr = ?up])
      (use ok1 w chunk size len ord st1 lk allowed create_upload_Inr(4) [OF cr] in simp_all)
  moreover have "check_size len (ue_max_object_size (en_upload env)) = Inr ()"
    using len size by (auto simp: check_size_Inr_iff)
  ultimately show ?thesis
    using bk cr by (auto simp: put_object_def require_bucket_def bucket_exists_def)
qed

lemma put_object_cases:
  assumes ok: "db_ok (srv_db s)" and chunk: "0 < ue_chunk_size (en_upload env)"
    and put: "put_object env uid bucket key frames metadata expected c s = (r, s', sp)"
  shows "db_ok (srv_db s') \<and> multipart_uploads (srv_db s') = multipart_uploads (srv_db s)
    \<and> (case r of
         Inl e \<Rightarrow> lookup (srv_db s') = lookup (srv_db s)
       | Inr ob \<Rightarrow> \<exists>chunks. frames = map Inr chunks \<and> bucket_named (srv_db s) bucket
           \<and> (expected \<noteq> None \<longrightarrow> expected = Some (int (length (concat chunks))))
           \<and> condition_allows c (map_option obj_etag (lookup (srv_db s) (bucket, key)))
           \<and> lookup (srv_db s') = (lookup (srv_db s))((bucket, key) \<mapsto> ob)
           \<and> obj_metadata ob = metadata \<and> holds_body env uid (concat chunks) ob)"
proof -
  let ?up = "\<lparr>up_upload_id = uid, up_bucket = bucket, up_key = key, up_metadata = metadata,
             up_kind = lit ''put'', up_created_at = en_clock env 1\<rparr>"
  obtain x d where cr: "create_upload ?up (srv_db s) = (x, d)" by (cases "create_upload ?up (srv_db s)") auto
  show ?thesis
  proof (cases "bucket_named (srv_db s) bucket \<and> check_size expected (ue_max_object_size (en_upload env)) = Inr () \<and> x = Inr ()")
    case False
    have "r = Inl e \<Longrightarrow> s' = s \<Longrightarrow> ?thesis" for e using ok by simp
    moreover have "\<exists>e. r = Inl e \<and> s' = s"
      using put False cr create_upload_Inl
      by (cases x; cases "check_size expected (ue_max_object_size (en_upload env))")
        (auto simp: put_object_def require_bucket_def bucket_exists_def split: if_splits)
    ultimately show ?thesis by blast
  next
    case True
    then have cr: "create_upload ?up (srv_db s) = (Inr (), d)" using cr by simp
    note new = create_upload_Inr [OF cr]
    have ok1: "db_ok d" using db_ok_create_upload [OF ok] cr by (metis snd_conv)
    have lk: "lookup d = lookup (srv_db s)" using create_upload_s.lookup_neutral [OF refl ok] cr by (metis snd_conv)
    have ups: "filter (\<lambda>r. urow_upload_id r \<noteq> uid) (multipart_uploads d) = multipart_uploads (srv_db s)"
      using no_upload_filter new(2) by (simp add: new(3))
    obtain y s1 sp1 where body: "put_body env uid frames expected c (s\<lparr>srv_db := d\<rparr>) = (y, s1, sp1)"
      by (metis prod_cases3)
    show ?thesis
    proof (cases y)
      case (Inr ob)
      have "r = Inr ob" "s' = s1"
        using put True cr body Inr by (auto simp: put_object_def require_bucket_def bucket_exists_def)
      with put_body_Inr [OF _ chunk body [unfolded Inr]] ok1 lk ups new(1,4) show ?thesis by auto
    next
      case (Inl e)
      have q: "quiet d (srv_db s1)" using put_body_Inl [OF _ chunk body [unfolded Inl]] ok1 by simp
      note s1 = quiet_frame [OF q ok1]
      have "uid \<in> set (map urow_upload_id (multipart_uploads (srv_db s1)))" using s1 new(3) by simp
      with abort_upload_effect [of "srv_db s1" uid "en_clock env 4"] s1 obtain d' where
        ab: "abort_upload (en_clock env 4) uid (srv_db s1) = (Inr True, d')"
        and ups': "multipart_uploads d' = filter (\<lambda>r. urow_upload_id r \<noteq> uid) (multipart_uploads (srv_db s1))" by auto
      then obtain bs where awb: "abort_upload_with_blocks (en_clock env 4) uid (srv_db s1) = (Inr (Some bs), d')"
        by (auto simp: abort_upload_def split: prod.splits sum.splits)
      have res: "r = Inl e" "s' = s1\<lparr>srv_db := d'\<rparr>"
        using put True cr body Inl awb by (auto simp: put_object_def require_bucket_def bucket_exists_def)
      have "db_ok d'" using db_ok_abort_upload [of "srv_db s1" "en_clock env 4" uid] s1 ab by simp
      moreover have "lookup d' = lookup (srv_db s1)"
        using abort_upload_s.lookup_neutral [OF refl, of "srv_db s1" "en_clock env 4" uid] s1 awb by simp
      ultimately show ?thesis using res s1 lk ups ups' by simp
    qed
  qed
qed

end
