(* ===== verification/Examples_Transfer.thy ===== *)
theory Examples_Transfer
  imports Upload_Total Download Engine_Object Examples
begin

text \<open>
  A concrete environment for transfers, for the theorems that show hypotheses can hold.
\<close>

section \<open>An upload of three bytes\<close>

text \<open>A body of three bytes in blocks of two; block \<open>i\<close> is the file named by the letter \<open>a + i\<close>.\<close>

definition ex_task :: "block_spec \<Rightarrow> nat list \<Rightarrow> error + uploaded_block" where
  "ex_task sp c = Inr \<lparr>ub_id = spec_ordinal sp + 1, ub_ordinal = spec_ordinal sp,
     ub_offset = spec_offset sp, ub_data_size = spec_size sp, ub_message_id = 40 + spec_ordinal sp,
     ub_backend = BotApi, ub_document_id = None, ub_file_id = [97 + nat (spec_ordinal sp)],
     ub_file_unique_id = [], ub_message_date = 5\<rparr>"

definition ex_env :: upload_env where
  "ex_env = \<lparr>ue_chunk_size = 2, ue_max_object_size = 10, ue_concurrency = 2, ue_chat_id = 7,
     ue_throttle = (\<lambda>_ _. Inr 0), ue_write = (\<lambda>_ _ _. None), ue_shutdown = (\<lambda>_. None),
     ue_pick = (\<lambda>n. 1), ue_task = ex_task, ue_md5_hex = (\<lambda>b. b)\<rparr>"

definition ex_ref :: "int \<Rightarrow> int \<Rightarrow> int \<Rightarrow> nat \<Rightarrow> block_ref" where
  "ex_ref i off sz c = \<lparr>blk_id = i + 1, blk_ordinal = i, blk_offset = off, blk_size = sz, blk_chat_id = 7,
     blk_message_id = 40 + i, blk_backend = BotApi, blk_document_id = None, blk_file_id = [c],
     blk_file_unique_id = [], blk_message_date = 5\<rparr>"

definition ex_stored :: part_record where
  "ex_stored = \<lparr>part_upload_id = [117], part_number = 0, part_size = 3, part_etag = [5, 6, 7],
     part_blocks = [ex_ref 0 0 2 97, ex_ref 1 2 1 98]\<rparr>"

definition ex_api :: bot_env where
  "ex_api = \<lparr>be_local = False, be_get_file = (\<lambda>f. Inr (Some f)), be_open = (\<lambda>_ _ _. Inl InvalidRequest),
     be_get = (\<lambda>path s e n. Inr \<lparr>http_status = 206, http_status_text = [],
       http_chunks = [Inr (slice s e (if path = [97] then [5, 6] else [7]))]\<rparr>)\<rparr>"

definition ex_gram :: grammers_env where
  "ex_gram = \<lparr>ge_message = (\<lambda>_. Inl InvalidRequest)\<rparr>"

definition ex_tg :: telegram_client where
  "ex_tg = \<lparr>active_backend = BotApi, has_grammers = False\<rparr>"

lemma ex_ref_sel [simp]: "blk_size (ex_ref i off sz c) = sz" "blk_offset (ex_ref i off sz c) = off"
  by (simp_all add: ex_ref_def)

lemma ex_works: "env_works ex_env" "task_ok ex_env" "tasks_work ex_env ps"
  by (simp_all add: env_works_def task_ok_def tasks_work_def run_def ex_env_def ex_task_def)

lemma ex_uploaded: "upload ex_env [117] 0 [Inr [5], Inr [6, 7]] (Some 3) = Inr (ex_stored, 3)"
  by code_simp

lemma ex_cut: "cut [117] 0 2 0 0 [5, 6, 7] =
  [(\<lparr>spec_upload_id = [117], spec_part_number = 0, spec_ordinal = 0, spec_offset = 0, spec_size = 2\<rparr>, [5, 6]),
   (\<lparr>spec_upload_id = [117], spec_part_number = 0, spec_ordinal = 1, spec_offset = 2, spec_size = 1\<rparr>, [7])]"
  by (simp add: cut.simps)


lemma ex_faithful:
  "\<forall>s. All (telegram_faithful ex_api gram (ex_ref 0 0 2 97) [5, 6] s)"
  "\<forall>s. All (telegram_faithful ex_api gram (ex_ref 1 2 1 98) [7] s)"
  by (auto simp: telegram_faithful_def ex_ref_def bot_faithful_def ex_api_def trim_start_by_def)

section \<open>The same upload through the engine\<close>

definition ex_store :: "block_spec \<Rightarrow> nat list \<Rightarrow> error + stored_document" where
  "ex_store sp c = Inr \<lparr>sd_backend = BotApi, sd_message_id = 40 + spec_ordinal sp, sd_document_id = None,
     sd_file_id = [97 + nat (spec_ordinal sp)], sd_file_unique_id = [], sd_file_size = spec_size sp,
     sd_message_date = 5\<rparr>"

definition ex_tenv :: tg_env where
  "ex_tenv = \<lparr>te_client = ex_tg, te_post = (\<lambda>_. Inr ()), te_rpc = (\<lambda>_. Inl InvalidRequest)\<rparr>"

definition ex_engine :: "int \<Rightarrow> engine_env" where
  "ex_engine n = \<lparr>en_tg = ex_tenv, en_store = ex_store, en_upload = ex_env,
     en_order = [(2, \<lparr>spec_upload_id = [117], spec_part_number = n, spec_ordinal = 1, spec_offset = 2, spec_size = 1\<rparr>, [7]),
       (3, \<lparr>spec_upload_id = [117], spec_part_number = n, spec_ordinal = 0, spec_offset = 0, spec_size = 2\<rparr>, [5, 6])],
     en_clock = (\<lambda>i. 4 + int i)\<rparr>"

definition ex_server :: "db \<Rightarrow> server" where
  "ex_server d = \<lparr>srv_db = d, srv_deleted = []\<rparr>"

lemma ex_engine_sel [simp]:
  "en_upload (ex_engine n) = ex_env" "en_store (ex_engine n) = ex_store" "en_tg (ex_engine n) = ex_tenv"
  "ue_chunk_size ex_env = 2" "ue_max_object_size ex_env = 10" "srv_db (ex_server d) = d"
  by (simp_all add: ex_engine_def ex_env_def ex_server_def)

lemma ex_engine_clock: "en_clock (ex_engine n) i = 4 + int i"
  by (simp add: ex_engine_def)

lemma ex_md5: "ue_md5_hex ex_env b = b"
  by (simp add: ex_env_def)

end
