(* ===== verification/Spool_File.thy ===== *)
theory Spool_File
  imports Upload
begin

text \<open>
  The spool file of a body without a length (\<open>src/transfer/upload/spool.rs\<close>): \<open>spool_body\<close> with the
  file it writes, the guard \<open>Spool\<close> that removes it, and \<open>upload_unknown_length\<close> around both. The files
  are a map from paths to contents; what the file system answers is in \<open>spool_env\<close>. On a file system
  that answers without errors the result is that of \<open>Upload.upload_unknown_length\<close>, and on every
  path, errors and cancellation included, the file is gone afterwards.
\<close>

section \<open>The file and its guard\<close>

type_synonym files = "str \<rightharpoonup> bytes"

text \<open>
  \<open>sf_write\<close> is asked about the bytes at an offset; an error may leave a part of them in the file.
  \<open>sf_removable\<close> says whether \<open>remove_file\<close> succeeds.
\<close>

record spool_env =
  sf_data_dir :: str
  sf_uuid :: str
  sf_create_dir :: "error + unit"
  sf_open :: "error + unit"
  sf_write :: "nat \<Rightarrow> bytes \<Rightarrow> error \<times> bytes + unit"
  sf_flush :: "error + unit"
  sf_removable :: "str \<Rightarrow> bool"

record spool =
  spool_path :: str
  spool_size :: int
  spool_digest :: bytes
  cleanup_on_drop :: bool

definition remove_spool_file :: "spool_env \<Rightarrow> str \<Rightarrow> files \<Rightarrow> files" where
  "remove_spool_file fe path fs = (if sf_removable fe path then fs(path := None) else fs)"

definition spool_drop :: "spool_env \<Rightarrow> spool \<Rightarrow> files \<Rightarrow> files" where
  "spool_drop fe sp fs = (if \<not> cleanup_on_drop sp then fs else remove_spool_file fe (spool_path sp) fs)"

text \<open>\<open>Spool::remove\<close> takes the spool, so it is dropped, disarmed, at the end.\<close>

definition spool_remove :: "spool_env \<Rightarrow> spool \<Rightarrow> files \<Rightarrow> files" where
  "spool_remove fe sp fs =
     (let sp = sp\<lparr>cleanup_on_drop := False\<rparr> in spool_drop fe sp (remove_spool_file fe (spool_path sp) fs))"

section \<open>\<open>spool_body\<close>\<close>

definition spool_name :: "spool_env \<Rightarrow> str \<Rightarrow> int \<Rightarrow> str" where
  "spool_name fe u n = sf_data_dir fe @ lit ''/upload-spool/'' @ u @ lit ''-'' @ show_int n @ lit ''-'' @ sf_uuid fe @ lit ''.part''"

definition file_append :: "str \<Rightarrow> bytes \<Rightarrow> files \<Rightarrow> files" where
  "file_append path data fs = fs(path \<mapsto> (case fs path of Some b \<Rightarrow> b | None \<Rightarrow> []) @ data)"

fun spool_write ::
  "upload_env \<Rightarrow> spool_env \<Rightarrow> (error + bytes) list \<Rightarrow> spool \<Rightarrow> files \<Rightarrow> (error + unit) \<times> spool \<times> files"
where
  "spool_write env fe [] sp fs = (sf_flush fe, sp, fs)"
| "spool_write env fe (Inl e # frames) sp fs = (Inl e, sp, fs)"
| "spool_write env fe (Inr data # frames) sp fs =
     (case checked_add (spool_size sp) (int (length data)) of
        None \<Rightarrow> (Inl EntityTooLarge, sp, fs)
      | Some next_size \<Rightarrow>
          if next_size > ue_max_object_size env then (Inl EntityTooLarge, sp, fs)
          else
            (case ue_throttle env (length (spool_digest sp)) (length data) of
               Inl e \<Rightarrow> (Inl e, sp, fs)
             | Inr w \<Rightarrow>
                 (case sf_write fe (length (spool_digest sp)) data of
                    Inl (e, written) \<Rightarrow> (Inl e, sp, file_append (spool_path sp) written fs)
                  | Inr _ \<Rightarrow> spool_write env fe frames
                      (sp\<lparr>spool_digest := spool_digest sp @ data, spool_size := next_size\<rparr>)
                      (file_append (spool_path sp) data fs))))"

text \<open>The spool as it is created.\<close>

definition new_spool :: "spool_env \<Rightarrow> str \<Rightarrow> int \<Rightarrow> spool" where
  "new_spool fe u n = \<lparr>spool_path = spool_name fe u n, spool_size = 0, spool_digest = [], cleanup_on_drop = True\<rparr>"

definition spool_body ::
  "upload_env \<Rightarrow> spool_env \<Rightarrow> str \<Rightarrow> int \<Rightarrow> (error + bytes) list \<Rightarrow> files \<Rightarrow> (error + spool) \<times> files"
where
  "spool_body env fe u n frames fs =
     (case sf_create_dir fe of
        Inl e \<Rightarrow> (Inl e, fs)
      | Inr _ \<Rightarrow>
          let sp = new_spool fe u n
          in case sf_open fe of
               Inl e \<Rightarrow> (Inl e, spool_drop fe sp fs)
             | Inr _ \<Rightarrow>
                 (case spool_write env fe frames sp (fs(spool_path sp \<mapsto> [])) of
                    (Inl e, sp, fs) \<Rightarrow> (Inl e, spool_remove fe sp fs)
                  | (Inr _, sp, fs) \<Rightarrow> (Inr sp, fs)))"

definition upload_through_spool ::
  "upload_env \<Rightarrow> spool_env \<Rightarrow> str \<Rightarrow> int \<Rightarrow> (error + bytes) list \<Rightarrow> files
     \<Rightarrow> (error + (uploaded_block list \<times> int \<times> bytes)) \<times> files"
where
  "upload_through_spool env fe u n frames fs =
     (case spool_body env fe u n frames fs of
        (Inl e, fs) \<Rightarrow> (Inl e, fs)
      | (Inr sp, fs) \<Rightarrow>
          (upload_spooled env u n (case fs (spool_path sp) of Some b \<Rightarrow> b | None \<Rightarrow> []), spool_remove fe sp fs))"

section \<open>The file holds the body\<close>

text \<open>The spool of a file: its size and digest are those of the bytes in the file.\<close>

definition spools :: "spool \<Rightarrow> files \<Rightarrow> bytes \<Rightarrow> bool" where
  "spools sp fs b \<longleftrightarrow> fs (spool_path sp) = Some b \<and> spool_digest sp = b \<and> spool_size sp = int (length b)"

lemma spool_write_frames:
  assumes "spools sp fs b" and "\<And>i data. sf_write fe i data = Inr ()" and "sf_flush fe = Inr ()"
    and "spool_write env fe frames sp fs = (r, sp', fs')"
  shows "(case spool_frames env frames b of
      Inl e \<Rightarrow> r = Inl e
    | Inr b' \<Rightarrow> r = Inr () \<and> spools sp' fs' b' \<and> spool_path sp' = spool_path sp)"
  using assms(1,4)
proof (induction frames arbitrary: sp fs b)
  case Nil
  then show ?case using assms(3) by simp
next
  case (Cons f frames)
  show ?case
  proof (cases f)
    case (Inl e)
    with Cons show ?thesis by simp
  next
    case (Inr data)
    have b: "spool_size sp = int (length b)" "spool_digest sp = b" "fs (spool_path sp) = Some b"
      using Cons.prems(1) by (simp_all add: spools_def)
    have next_ok: "spools (sp\<lparr>spool_digest := b @ data, spool_size := k\<rparr>) (file_append (spool_path sp) data fs) (b @ data)"
      if "checked_add (int (length b)) (int (length data)) = Some k" for k
      using that b(3) by (auto simp: spools_def file_append_def checked_add_def split: if_splits)
    from Cons.IH [OF next_ok] Cons.prems(2) b assms(2) Inr show ?thesis
      by (auto split: option.splits sum.splits if_splits)
  qed
qed

lemma upload_through_spool_result:
  assumes "sf_create_dir fe = Inr ()" and "sf_open fe = Inr ()" and "sf_flush fe = Inr ()"
    and "\<And>i data. sf_write fe i data = Inr ()"
  shows "fst (upload_through_spool env fe u n frames fs) = upload_unknown_length env u n frames"
proof -
  let ?sp = "new_spool fe u n"
  have start: "spools ?sp (fs(spool_path ?sp \<mapsto> [])) []" by (simp add: spools_def new_spool_def)
  obtain r sp' fs' where w: "spool_write env fe frames ?sp (fs(spool_path ?sp \<mapsto> [])) = (r, sp', fs')"
    by (cases "spool_write env fe frames ?sp (fs(spool_path ?sp \<mapsto> []))")
  from spool_write_frames [OF start assms(4,3) w] w assms(1,2) show ?thesis
    by (cases "spool_frames env frames []")
      (auto simp: upload_through_spool_def spool_body_def upload_unknown_length_def spools_def Let_def)
qed

section \<open>The file goes\<close>

text \<open>
  Whatever happens, the only file touched is that of the spool, and it is removed: by \<open>remove\<close>, or,
  when the upload is cancelled between two frames (or while a chunk is on its way to Telegram), by
  the drop of the spool.
\<close>

lemma file_append_other [simp]: "(file_append path data fs)(path := None) = fs(path := None)"
  by (simp add: file_append_def)

lemma spool_write_file:
  assumes "spool_write env fe frames sp fs = (r, sp', fs')"
  shows "fs'(spool_path sp := None) = fs(spool_path sp := None) \<and> spool_path sp' = spool_path sp
    \<and> cleanup_on_drop sp' = cleanup_on_drop sp"
  using assms
  by (induction env fe frames sp fs rule: spool_write.induct) (auto split: option.splits sum.splits if_splits prod.splits)

text \<open>A spool that was written holds all bytes of the body.\<close>

lemma spool_write_Inr:
  assumes "spool_write env fe frames sp fs = (Inr u, sp', fs')" and "spools sp fs b"
  shows "\<exists>ds. frames = map Inr ds \<and> spools sp' fs' (b @ concat ds)"
  using assms
proof (induction env fe frames sp fs arbitrary: b rule: spool_write.induct)
  case (3 env fe data frames sp fs)
  from 3(2) obtain n w where n: "checked_add (spool_size sp) (int (length data)) = Some n" "\<not> n > ue_max_object_size env"
      "ue_throttle env (length (spool_digest sp)) (length data) = Inr w" "sf_write fe (length (spool_digest sp)) data = Inr ()"
    and rest: "spool_write env fe frames (sp\<lparr>spool_digest := spool_digest sp @ data, spool_size := n\<rparr>)
      (file_append (spool_path sp) data fs) = (Inr u, sp', fs')"
    by (auto split: option.splits sum.splits if_splits)
  have "spools (sp\<lparr>spool_digest := spool_digest sp @ data, spool_size := n\<rparr>) (file_append (spool_path sp) data fs) (b @ data)"
    using 3(3) n(1) by (auto simp: spools_def file_append_def checked_add_def split: if_splits)
  from 3(1) [OF n(1,2,3) n(4) rest this] obtain ds where "frames = map Inr ds" "spools sp' fs' ((b @ data) @ concat ds)" by blast
  then show ?case by (intro exI [of _ "data # ds"]) simp
qed simp_all

lemma spool_body_files:
  assumes "fs (spool_name fe u n) = None" and "\<And>path. sf_removable fe path"
    and "spool_body env fe u n frames fs = (x, fs')"
  shows "(case x of
      Inl e \<Rightarrow> fs' = fs
    | Inr sp \<Rightarrow> spool_path sp = spool_name fe u n \<and> cleanup_on_drop sp
        \<and> (\<exists>ds. frames = map Inr ds \<and> spool_size sp = int (length (concat ds)) \<and> spool_digest sp = concat ds
             \<and> fs' = fs(spool_name fe u n \<mapsto> concat ds)))"
proof -
  let ?p = "spool_name fe u n"
  have gone: "fs(?p := None) = fs" using assms(1) by (simp add: fun_upd_idem)
  obtain r sp fs1 where w: "spool_write env fe frames (new_spool fe u n) (fs(?p \<mapsto> [])) = (r, sp, fs1)"
    by (cases "spool_write env fe frames (new_spool fe u n) (fs(?p \<mapsto> []))")
  from spool_write_file [OF w] gone
  have kept: "fs1(?p := None) = fs" "spool_path sp = ?p" "cleanup_on_drop sp" by (simp_all add: new_spool_def)
  have "\<exists>ds. frames = map Inr ds \<and> spools sp fs1 (concat ds)" if "r = Inr ()"
    using spool_write_Inr [OF w [unfolded that], of "[]"] by (simp add: spools_def new_spool_def)
  moreover have "fs1 = fs(?p \<mapsto> b)" if "fs1 ?p = Some b" for b
    using kept(1) that by (metis fun_upd_triv fun_upd_upd)
  ultimately show ?thesis
    using assms(2,3) gone w kept
    by (auto simp: spool_body_def new_spool_def spool_drop_def spool_remove_def remove_spool_file_def Let_def spools_def
        split: sum.splits)
qed

lemma spool_dropped:
  assumes "fs (spool_name fe u n) = None" and "\<And>path. sf_removable fe path"
    and "spool_write env fe frames (new_spool fe u n) (fs(spool_name fe u n \<mapsto> [])) = (r, sp, fs')"
  shows "spool_drop fe sp fs' = fs"
  using spool_write_file [OF assms(3)] assms(1,2)
  by (simp add: new_spool_def spool_drop_def remove_spool_file_def fun_upd_idem)

lemma upload_through_spool_files:
  assumes "fs (spool_name fe u n) = None" and "\<And>path. sf_removable fe path"
  shows "snd (upload_through_spool env fe u n frames fs) = fs"
  using spool_body_files [where fs = fs and fe = fe and u = u and n = n and env = env and frames = frames] assms
  by (cases "spool_body env fe u n frames fs")
    (auto simp: upload_through_spool_def spool_drop_def spool_remove_def remove_spool_file_def Let_def fun_upd_idem
      split: sum.splits)

end
