(* ===== verification/Spec_Transfer.thy ===== *)
theory Spec_Transfer
  imports Examples_Transfer Spool_File
begin

text \<open>
  The properties of transfers: what an upload returns and that it returns, that reading its
  blocks gives the body back, and what cleanup and collection do. The theorems rest on
  \<open>Upload_Props\<close>, \<open>Upload_Total\<close>, \<open>Download\<close>, \<open>Cleanup\<close>, \<open>Size_Limits\<close> and \<open>Engine_Gc_Props\<close>.
\<close>

section \<open>Uploads\<close>

text \<open>
  C22: the part that \<open>upload\<close> returns describes the body that was sent, whatever the frames it
  arrived in and the order in which the concurrent tasks finished: no frame failed, the size
  and the etag are those of the whole body, the blocks are those of the body's consecutive
  pieces of at most \<open>chunk_size\<close> bytes, in order, and they lie end to end from offset 0.
\<close>

theorem upload_describes_body:
  assumes "upload env u n frames len = Inr (part, sz)" and "task_ok env" and "0 < ue_chunk_size env"
  shows "\<exists>chunks us. frames = map Inr chunks
    \<and> concat (map snd (cut u n (ue_chunk_size env) 0 0 (concat chunks))) = concat chunks
    \<and> map (run env) (cut u n (ue_chunk_size env) 0 0 (concat chunks)) = map Inr us
    \<and> part = \<lparr>part_upload_id = u, part_number = n, part_size = sz,
        part_etag = ue_md5_hex env (concat chunks), part_blocks = map (to_block_ref (ue_chat_id env)) us\<rparr>
    \<and> sz = int (length (concat chunks)) \<and> (len \<noteq> None \<longrightarrow> len = Some sz)
    \<and> contiguous 0 (part_blocks part) \<and> total_size (part_blocks part) = sz"
proof -
  from upload_Inr [OF assms] obtain chunks us where
    r: "frames = map Inr chunks" "holds env u n (concat chunks) us" "part = part_of env u n (concat chunks) us"
      "sz = int (length (concat chunks))" "len \<noteq> None \<longrightarrow> len = Some sz" "in_order 0 0 us"
      "sum_list (map ub_data_size us) = int (length (concat chunks))" by blast
  note lay = part_of_layout [OF r(6,7), of env u n]
  from r lay cut_concat [OF assms(3)] show ?thesis
    by (intro exI [of _ chunks] exI [of _ us])
      (simp add: holds_def part_of_def references_for_uploaded_def)
qed

theorem upload_describes_body_witness:
  "contiguous 0 (part_blocks ex_stored) \<and> total_size (part_blocks ex_stored) = 3"
  using upload_describes_body [OF ex_uploaded ex_works(2)] by (auto simp: ex_env_def)

text \<open>
  C24: when the tasks of the body's pieces succeed, no write fails and the limiter admits the bytes, an upload of a
  body within the size limit returns a part: neither loop gets stuck or runs out of fuel.
\<close>

theorem upload_succeeds:
  assumes "env_works env" and "0 < ue_chunk_size env"
    and "int (length (concat chunks)) \<le> min i64_max (ue_max_object_size env)"
    and "tasks_work env (cut u n (ue_chunk_size env) 0 0 (concat chunks))"
    and "len \<noteq> None \<longrightarrow> len = Some (int (length (concat chunks)))"
  shows "\<exists>part sz. upload env u n (map Inr chunks) len = Inr (part, sz)"
  by (rule upload_works) (use assms in simp_all)

theorem upload_succeeds_witness:
  "\<exists>part sz. upload ex_env [117] 0 (map Inr [[5], [6, 7]]) None = Inr (part, sz)"
  by (rule upload_succeeds [OF ex_works(1) _ _ ex_works(3)]) (simp_all add: ex_env_def i64_defs)

text \<open>
  C23: the streaming upload of a body with a declared length and the spooled upload of the same
  bytes, cut into frames in any other way, return the same part.
\<close>

theorem upload_known_unknown:
  assumes "env_works env" and "task_ok env" and "0 < ue_chunk_size env"
    and "int (length (concat chunks)) \<le> min i64_max (ue_max_object_size env)"
    and "tasks_work env (cut u n (ue_chunk_size env) 0 0 (concat chunks))" and "concat chunks' = concat chunks"
  shows "upload env u n (map Inr chunks) (Some (int (length (concat chunks))))
    = upload env u n (map Inr chunks') None"
proof -
  have size: "int (length (concat chunks)) \<le> ue_max_object_size env" "int (length (concat chunks)) \<le> i64_max"
    using assms(4) by simp_all
  obtain p sz where k: "upload env u n (map Inr chunks) (Some (int (length (concat chunks)))) = Inr (p, sz)"
    using upload_works [OF assms(1,3) size assms(5)] by blast
  obtain p' sz' where n: "upload env u n (map Inr chunks') None = Inr (p', sz')"
    using upload_works [OF assms(1,3), of chunks' u n None] size assms(5,6) by auto
  from upload_Inr [OF k assms(2,3)] obtain us where
    us: "holds env u n (concat chunks) us" "p = part_of env u n (concat chunks) us" "sz = int (length (concat chunks))"
    by auto
  from upload_Inr [OF n assms(2,3)] obtain us' where
    us': "holds env u n (concat chunks') us'" "p' = part_of env u n (concat chunks') us'"
      "sz' = int (length (concat chunks'))"
    by auto
  from us(1) us'(1) have "map (Inr :: uploaded_block \<Rightarrow> error + uploaded_block) us = map Inr us'"
    by (simp add: holds_def assms(6))
  then have "us = us'" by (rule map_injective) simp
  with k n us us' assms(6) show ?thesis by simp
qed

theorem upload_known_unknown_witness:
  "upload ex_env [117] 0 (map Inr [[5, 6, 7]]) (Some (int (length (concat [[5, 6, 7 :: nat]]))))
    = upload ex_env [117] 0 (map Inr [[5], [], [6, 7]]) None"
  by (rule upload_known_unknown [OF ex_works(1,2) _ _ ex_works(3)]) (simp_all add: ex_env_def i64_defs)

section \<open>The spool file\<close>




section \<open>Downloads\<close>

text \<open>
  C25: a range of an object whose blocks lie end to end is served exactly, or a prefix of it
  followed by an error, when Telegram answers each request for a block truthfully. Both
  backends, local Bot API files, responses that ignore the \<open>Range\<close> header and short streams
  are covered.
\<close>

theorem download_delivers:
  assumes "contiguous 0 bs" and "list_all2 (\<lambda>b c. blk_size b = int (length c)) bs cs"
    and "\<forall>(b, c) \<in> set (zip bs cs). \<forall>s e. telegram_faithful api gram b c s e"
    and "0 \<le> s" and "s \<le> e"
  shows "delivers (range_stream (download_stream tg api gram) gate bs s e) (slice s e (concat cs))"
  using assms by (rule telegram.range_stream_delivers)

theorem download_delivers_witness:
  "delivers (range_stream (download_stream ex_tg ex_api ex_gram) (\<lambda>_. Inr 0)
     [ex_ref 0 0 2 97, ex_ref 1 2 1 98] 1 2) [6, 7]"
  using download_delivers [of "[ex_ref 0 0 2 97, ex_ref 1 2 1 98]" "[[5, 6], [7]]" ex_api ex_gram 1 2 ex_tg "\<lambda>_. Inr 0"]
    ex_faithful [of ex_gram]
  by (simp add: slice_def del: range_stream.simps)

text \<open>
  What was uploaded is what is read. Any range of the body is delivered from the blocks of
  the part an upload returned, provided Telegram returns for each block the piece sent for it.
\<close>

theorem upload_download_roundtrip:
  assumes "upload env u n (map Inr chunks) len = Inr (part, sz)" and "task_ok env" and "0 < ue_chunk_size env"
    and "\<forall>(b, p) \<in> set (zip (part_blocks part) (cut u n (ue_chunk_size env) 0 0 (concat chunks))).
        \<forall>s e. telegram_faithful api gram b (snd p) s e"
    and "0 \<le> s" and "s \<le> e"
  shows "delivers (range_stream (download_stream tg api gram) gate (part_blocks part) s e) (slice s e (concat chunks))"
proof -
  let ?ps = "cut u n (ue_chunk_size env) 0 0 (concat chunks)"
  from upload_Inr [OF assms(1-3)] obtain us where
    r: "holds env u n (concat chunks) us" "part = part_of env u n (concat chunks) us" "in_order 0 0 us"
      "sum_list (map ub_data_size us) = int (length (concat chunks))"
    by (auto dest!: map_injective)
  have sizes: "list_all2 (\<lambda>b c. blk_size b = int (length c)) (part_blocks part) (map snd ?ps)"
    using held_sizes [OF r(1) assms(2)] r(2) by (simp add: part_of_def)
  have "\<forall>(b, c) \<in> set (zip (part_blocks part) (map snd ?ps)). \<forall>s e. telegram_faithful api gram b c s e"
    using assms(4) by (auto simp: zip_map2)
  with part_of_layout [OF r(3,4), of env u n] r(2) sizes assms(5,6) show ?thesis
    using telegram.range_stream_delivers [of "part_blocks part" "map snd ?ps" api gram s e tg gate]
    by (simp add: cut_concat [OF assms(3)])
qed

theorem upload_download_roundtrip_witness:
  "delivers (range_stream (download_stream ex_tg ex_api ex_gram) (\<lambda>_. Inr 0) (part_blocks ex_stored) 1 2) [6, 7]"
  using upload_download_roundtrip [of ex_env "[117]" 0 "[[5], [6, 7]]" "Some 3" ex_stored 3 ex_api ex_gram 1 2
      ex_tg "\<lambda>_. Inr 0"] ex_uploaded ex_works(2) ex_faithful [of ex_gram]
  by (simp add: slice_def ex_cut ex_env_def ex_stored_def del: range_stream.simps)

end
