(* ===== verification/Engine_Gc.thy ===== *)
theory Engine_Gc
  imports Cleanup
begin

text \<open>
  \<open>src/engine/gc.rs\<close>: the periodic collection \<open>run_gc\<close>, the immediate reclaim of released
  blocks, and the deletion of candidates in batches. Every run is a run of the system of
  \<open>Gc_System\<close>, so collection is safe whatever else the server does between its steps.
\<close>

section \<open>Deleting candidates\<close>

definition max_gc_limit :: nat where
  "max_gc_limit = 100000"

definition bot_api_delete_window_expired :: "telegram_backend \<Rightarrow> int \<Rightarrow> int \<Rightarrow> bool" where
  "bot_api_delete_window_expired backend message_date timestamp \<longleftrightarrow>
     backend = BotApi \<and> 0 < message_date \<and> message_date < timestamp - 48 * 3600"

definition process_gc_candidate :: "tg_env \<Rightarrow> int \<Rightarrow> garbage_record \<Rightarrow> server \<Rightarrow> server" where
  "process_gc_candidate env timestamp g s =
     (let block = as_block_ref g in
      case request_delete env (blk_backend block) (blk_message_id block) s of
        (Inr _, s') \<Rightarrow> s'\<lparr>srv_db := gc_success (gb_block_id g) (srv_db s')\<rparr>
      | (Inl e, s') \<Rightarrow>
          if is_missing_message e then s'\<lparr>srv_db := gc_success (gb_block_id g) (srv_db s')\<rparr>
          else s'\<lparr>srv_db := gc_failure (gb_block_id g) (error_text e) (timestamp + 300) (srv_db s')\<rparr>)"

text \<open>
  A group of one backend: one batch call for the whole group when it has more than one
  message, and message by message when that call fails. The batch call sends batches of 100
  and stops at the first that fails, whose outcome is unknown.
\<close>

definition delete_candidate_group ::
  "tg_env \<Rightarrow> int \<Rightarrow> telegram_backend \<Rightarrow> garbage_record list \<Rightarrow> server \<Rightarrow> nat \<times> server"
where
  "delete_candidate_group env timestamp backend members s =
     (let message_ids = map gb_message_id members;
          batch = (if 1 < length members
                   then fst (delete_messages (te_client env) (te_post env) (te_rpc env) backend message_ids)
                   else Inl InvalidRequest);
          s1 = (if 1 < length members then s\<lparr>srv_deleted := srv_deleted s @ message_ids\<rparr> else s)
      in case batch of
           Inr _ \<Rightarrow> (length members,
             s1\<lparr>srv_db := fold (\<lambda>g. gc_success (gb_block_id g)) members (srv_db s1)\<rparr>)
         | Inl _ \<Rightarrow> (length members, fold (process_gc_candidate env timestamp) members s1))"

text \<open>The groups, in the order of each backend's first candidate.\<close>

fun push_group ::
  "garbage_record \<Rightarrow> (telegram_backend \<times> garbage_record list) list
     \<Rightarrow> (telegram_backend \<times> garbage_record list) list"
where
  "push_group g [] = [(gb_backend g, [g])]"
| "push_group g ((backend, members) # groups) =
     (if backend = gb_backend g then (backend, members @ [g]) # groups
      else (backend, members) # push_group g groups)"

fun sort_out_expired ::
  "int \<Rightarrow> garbage_record list \<Rightarrow> nat \<Rightarrow> (telegram_backend \<times> garbage_record list) list \<Rightarrow> db
     \<Rightarrow> nat \<times> (telegram_backend \<times> garbage_record list) list \<times> db"
where
  "sort_out_expired timestamp [] n groups d = (n, groups, d)"
| "sort_out_expired timestamp (g # gs) n groups d =
     (if bot_api_delete_window_expired (gb_backend g) (gb_message_date g) timestamp
      then sort_out_expired timestamp gs (n + 1) groups
             (gc_orphan (gb_block_id g) (lit ''Telegram deleteMessage 48 hour limit'') d)
      else sort_out_expired timestamp gs n (push_group g groups) d)"

fun delete_groups ::
  "tg_env \<Rightarrow> int \<Rightarrow> (telegram_backend \<times> garbage_record list) list \<Rightarrow> nat \<Rightarrow> server \<Rightarrow> nat \<times> server"
where
  "delete_groups env timestamp [] n s = (n, s)"
| "delete_groups env timestamp ((backend, members) # groups) n s =
     (case delete_candidate_group env timestamp backend members s of
        (k, s') \<Rightarrow> delete_groups env timestamp groups (n + k) s')"

definition process_gc_candidates :: "tg_env \<Rightarrow> int \<Rightarrow> garbage_record list \<Rightarrow> server \<Rightarrow> nat \<times> server" where
  "process_gc_candidates env timestamp candidates s =
     (case sort_out_expired timestamp candidates 0 [] (srv_db s) of
        (n, groups, d) \<Rightarrow> delete_groups env timestamp groups n (s\<lparr>srv_db := d\<rparr>))"

section \<open>Reclaiming released blocks\<close>

fun released_candidates :: "int \<Rightarrow> block_ref list \<Rightarrow> db \<Rightarrow> garbage_record list" where
  "released_candidates timestamp [] d = []"
| "released_candidates timestamp (b # bs) d =
     (case gc_candidate (blk_id b) timestamp d of
        Inr (Some g) \<Rightarrow> g # released_candidates timestamp bs d
      | Inr None \<Rightarrow> released_candidates timestamp bs d
      | Inl e \<Rightarrow> released_candidates timestamp bs d)"

definition reclaim_blocks_now :: "tg_env \<Rightarrow> int \<Rightarrow> block_ref list \<Rightarrow> server \<Rightarrow> server" where
  "reclaim_blocks_now env timestamp blocks s =
     snd (process_gc_candidates env timestamp (released_candidates timestamp blocks (srv_db s)) s)"

section \<open>The periodic run\<close>

text \<open>
  \<open>timestamp\<close> is the time at which the run starts, \<open>t\<close> the time the statements of the run see
  (\<open>now()\<close> in \<open>decrement_block\<close> and \<open>queue_stale_block\<close>).
\<close>

fun queue_stale_blocks :: "int \<Rightarrow> garbage_record list \<Rightarrow> nat \<Rightarrow> db \<Rightarrow> nat \<times> db" where
  "queue_stale_blocks t [] n d = (n, d)"
| "queue_stale_blocks t (g # gs) n d =
     (case queue_stale_block t (gb_block_id g) d of
        (claimed, d') \<Rightarrow> queue_stale_blocks t gs (if claimed then n + 1 else n) d')"

definition gc_limit_error :: error where
  "gc_limit_error = Other (lit ''GC limit must be between 1 and '' @ show_nat max_gc_limit)"

definition run_gc :: "tg_env \<Rightarrow> int \<Rightarrow> int \<Rightarrow> nat \<Rightarrow> server \<Rightarrow> (error + nat) \<times> server" where
  "run_gc env timestamp t limit s =
     (if limit = 0 \<or> max_gc_limit < limit then (Inl gc_limit_error, s)
      else
        case expire_uploads t (timestamp - 7 * 24 * 3600) (srv_db s) of
          (Inl e, d) \<Rightarrow> (Inl e, s\<lparr>srv_db := d\<rparr>)
        | (Inr _, d) \<Rightarrow>
            (case stale_blocks (timestamp - 3600) limit d of
               Inl e \<Rightarrow> (Inl e, s\<lparr>srv_db := d\<rparr>)
             | Inr stale \<Rightarrow>
                 (case queue_stale_blocks t stale 0 d of
                    (processed, d) \<Rightarrow>
                      let remaining = limit - processed in
                      if remaining = 0 then (Inr processed, s\<lparr>srv_db := d\<rparr>)
                      else
                        (case gc_candidates timestamp remaining d of
                           Inl e \<Rightarrow> (Inl e, s\<lparr>srv_db := d\<rparr>)
                         | Inr candidates \<Rightarrow>
                             (case process_gc_candidates env timestamp candidates (s\<lparr>srv_db := d\<rparr>) of
                                (k, s') \<Rightarrow> (Inr (processed + k), s'))))))"

end
