(* ===== verification/Engine_Gc_Props.thy ===== *)
theory Engine_Gc_Props
  imports Engine_Gc Db_Progress
begin

text \<open>
  The runs of \<open>engine/gc.rs\<close> are runs of the system of \<open>Gc_System\<close>; they stay within the
  limit, end without an error, and remove what Telegram lets them remove.
\<close>

section \<open>Runs of the system\<close>

lemma sys_reach_drop_all: "sys_reachable (sys_of s (xs @ cl)) \<Longrightarrow> sys_reachable (sys_of s cl)"
  by (induction xs) (auto dest: sys_reach_drop)

lemma process_gc_candidate_cases:
  obtains "process_gc_candidate env ts g s = s\<lparr>srv_db := gc_success (gb_block_id g) (srv_db s),
      srv_deleted := srv_deleted s @ [gb_message_id g]\<rparr>"
  | e where "process_gc_candidate env ts g s = s\<lparr>srv_db := gc_failure (gb_block_id g) e (ts + 300) (srv_db s),
      srv_deleted := srv_deleted s @ [gb_message_id g]\<rparr>"
proof -
  have b: "blk_backend (as_block_ref g) = gb_backend g" "blk_message_id (as_block_ref g) = gb_message_id g"
    by (simp_all add: as_block_ref_def)
  show thesis
  proof (cases "delete_message_by_id (te_client env) (te_post env) (te_rpc env) (gb_backend g) (gb_message_id g)")
    case (Inl e)
    show thesis
    proof (cases "is_missing_message e")
      case True
      with Inl show thesis by (intro that(1)) (simp add: process_gc_candidate_def request_delete_def b Let_def)
    next
      case False
      with Inl show thesis
        by (intro that(2) [of "error_text e"]) (simp add: process_gc_candidate_def request_delete_def b Let_def)
    qed
  next
    case (Inr u)
    then show thesis by (intro that(1)) (simp add: process_gc_candidate_def request_delete_def b Let_def)
  qed
qed

lemma process_gc_candidate_refines:
  assumes r: "sys_reachable (sys_of s cl)" and c: "claim_of g \<in> set cl"
  shows "sys_reachable (sys_of (process_gc_candidate env ts g s) cl)"
proof -
  have del: "sys_reachable (sys_of (s\<lparr>srv_deleted := srv_deleted s @ [gb_message_id g]\<rparr>) cl)"
    using c by (intro sys_reach_delete [OF r, of "gb_block_id g"]) (simp add: claim_of_def)
  show ?thesis
  proof (rule process_gc_candidate_cases [of env ts g s])
    assume "process_gc_candidate env ts g s = s\<lparr>srv_db := gc_success (gb_block_id g) (srv_db s),
      srv_deleted := srv_deleted s @ [gb_message_id g]\<rparr>"
    with sys_reach_call [OF del call_gc_success [of _ "gb_block_id g"]] show ?thesis by (simp add: server_swap)
  next
    fix e assume "process_gc_candidate env ts g s = s\<lparr>srv_db := gc_failure (gb_block_id g) e (ts + 300) (srv_db s),
      srv_deleted := srv_deleted s @ [gb_message_id g]\<rparr>"
    with sys_reach_call [OF del call_gc_failure [of _ "gb_block_id g" e "ts + 300"]] show ?thesis by (simp add: server_swap)
  qed
qed

lemma fold_refines:
  assumes "\<And>x s. x \<in> set xs \<Longrightarrow> sys_reachable (sys_of s cl) \<Longrightarrow> sys_reachable (sys_of (f x s) cl)"
    and "sys_reachable (sys_of s cl)"
  shows "sys_reachable (sys_of (fold f xs s) cl)"
  using assms by (induction xs arbitrary: s) auto

lemma fold_gc_success_refines:
  "sys_reachable (sys_of s cl)
     \<Longrightarrow> sys_reachable (sys_of (s\<lparr>srv_db := fold (\<lambda>g. gc_success (gb_block_id g)) gs (srv_db s)\<rparr>) cl)"
proof (induction gs arbitrary: s)
  case (Cons g gs)
  from Cons.IH [OF sys_reach_call [OF Cons.prems call_gc_success [of _ "gb_block_id g"]]] show ?case by simp
qed simp

lemma request_all_refines:
  "sys_reachable (sys_of s cl) \<Longrightarrow> claim_of ` set gs \<subseteq> set cl
     \<Longrightarrow> sys_reachable (sys_of (s\<lparr>srv_deleted := srv_deleted s @ map gb_message_id gs\<rparr>) cl)"
proof (induction gs arbitrary: s)
  case (Cons g gs)
  have "sys_reachable (sys_of (s\<lparr>srv_deleted := srv_deleted s @ [gb_message_id g]\<rparr>) cl)"
    using Cons.prems by (intro sys_reach_delete [of s cl "gb_block_id g"]) (simp_all add: claim_of_def)
  from Cons.IH [OF this] Cons.prems(2) show ?case by simp
qed simp

lemma delete_candidate_group_refines:
  assumes r: "sys_reachable (sys_of s cl)" and c: "claim_of ` set gs \<subseteq> set cl"
  shows "sys_reachable (sys_of (snd (delete_candidate_group env ts backend gs s)) cl)"
proof -
  let ?s = "s\<lparr>srv_deleted := srv_deleted s @ map gb_message_id gs\<rparr>"
  have single: "sys_reachable (sys_of (fold (process_gc_candidate env ts) gs s') cl)"
    if "sys_reachable (sys_of s' cl)" for s'
    using that c by (intro fold_refines process_gc_candidate_refines) auto
  have "sys_reachable (sys_of ?s cl)" using r c by (rule request_all_refines)
  with r single fold_gc_success_refines [of ?s cl gs] show ?thesis
    by (simp add: delete_candidate_group_def Let_def split: sum.splits)
qed

lemma delete_groups_refines:
  "sys_reachable (sys_of s cl) \<Longrightarrow> \<forall>(b, gs) \<in> set groups. claim_of ` set gs \<subseteq> set cl
     \<Longrightarrow> sys_reachable (sys_of (snd (delete_groups env ts groups n s)) cl)"
proof (induction env ts groups n s rule: delete_groups.induct)
  case (2 env ts b gs groups n s)
  obtain k s' where d: "delete_candidate_group env ts b gs s = (k, s')"
    by (cases "delete_candidate_group env ts b gs s") auto
  have "sys_reachable (sys_of s' cl)"
    using delete_candidate_group_refines [OF "2.prems"(1), of gs env ts b] "2.prems"(2) d by simp
  with "2.IH" [OF d [symmetric]] "2.prems"(2) d show ?case by simp
qed simp

lemma push_group_members:
  "set (concat (map snd (push_group g groups))) = insert g (set (concat (map snd groups)))"
  by (induction g groups rule: push_group.induct) auto

lemma sort_out_expired_refines:
  assumes "sys_reachable (sys_of s cl)" and "sort_out_expired ts gs n groups (srv_db s) = (n', groups', d)"
  shows "sys_reachable (sys_of (s\<lparr>srv_db := d\<rparr>) cl)
    \<and> set (concat (map snd groups')) \<subseteq> set gs \<union> set (concat (map snd groups))"
  using assms
proof (induction gs arbitrary: n groups s)
  case Nil
  then show ?case by auto
next
  case (Cons g gs)
  show ?case
  proof (cases "bot_api_delete_window_expired (gb_backend g) (gb_message_date g) ts")
    case True
    let ?d = "gc_orphan (gb_block_id g) (lit ''Telegram deleteMessage 48 hour limit'') (srv_db s)"
    from True Cons.prems(2) have "sort_out_expired ts gs (n + 1) groups (srv_db (s\<lparr>srv_db := ?d\<rparr>)) = (n', groups', d)"
      by simp
    from Cons.IH [OF sys_reach_call [OF Cons.prems(1) call_gc_orphan] this] show ?thesis by auto
  next
    case False
    with Cons.IH [OF Cons.prems(1), of n "push_group g groups"] Cons.prems(2) show ?thesis
      using push_group_members [of g groups] by simp
  qed
qed

lemma process_gc_candidates_refines:
  assumes r: "sys_reachable (sys_of s cl)" and c: "claim_of ` set gs \<subseteq> set cl"
  shows "sys_reachable (sys_of (snd (process_gc_candidates env ts gs s)) cl)"
proof -
  obtain n groups d where o: "sort_out_expired ts gs 0 [] (srv_db s) = (n, groups, d)"
    by (cases "sort_out_expired ts gs 0 [] (srv_db s)") auto
  from sort_out_expired_refines [OF r o] have 1: "sys_reachable (sys_of (s\<lparr>srv_db := d\<rparr>) cl)"
    and sub: "set (concat (map snd groups)) \<subseteq> set gs" by simp_all
  have "\<forall>(b, ms) \<in> set groups. claim_of ` set ms \<subseteq> set cl" using sub c by fastforce
  from delete_groups_refines [OF 1 this] o show ?thesis by (simp add: process_gc_candidates_def)
qed

lemma released_candidates_refines:
  assumes "sys_reachable (sys_of s cl)"
  shows "sys_reachable (sys_of s (rev (map claim_of (released_candidates ts bs (srv_db s))) @ cl))"
  using assms
proof (induction bs arbitrary: cl)
  case (Cons b bs)
  show ?case
  proof (cases "\<exists>g. gc_candidate (blk_id b) ts (srv_db s) = Inr (Some g)")
    case True
    then obtain g where g: "gc_candidate (blk_id b) ts (srv_db s) = Inr (Some g)" by blast
    have "sys_reachable (sys_of s (claim_of g # cl))"
      using reach_step [OF Cons.prems step_claim_one [of "blk_id b" ts "sys_of s cl" g]] g
      by (simp add: sys_of_def)
    from Cons.IH [OF this] g show ?thesis by simp
  next
    case False
    with Cons show ?thesis by (auto split: sum.split option.split)
  qed
qed simp

lemma reclaim_blocks_now_refines:
  assumes "sys_reachable (sys_of s cl)"
  shows "sys_reachable (sys_of (reclaim_blocks_now env ts bs s) cl)"
proof -
  let ?gs = "released_candidates ts bs (srv_db s)"
  have "sys_reachable (sys_of (snd (process_gc_candidates env ts ?gs s)) (rev (map claim_of ?gs) @ cl))"
    using released_candidates_refines [OF assms, of ts bs] by (rule process_gc_candidates_refines) auto
  then show ?thesis unfolding reclaim_blocks_now_def by (rule sys_reach_drop_all)
qed

lemma queue_stale_blocks_refines:
  "sys_reachable (sys_of s cl)
     \<Longrightarrow> sys_reachable (sys_of (s\<lparr>srv_db := snd (queue_stale_blocks t gs n (srv_db s))\<rparr>) cl)"
proof (induction gs arbitrary: n s)
  case (Cons g gs)
  obtain c d where q: "queue_stale_block t (gb_block_id g) (srv_db s) = (c, d)"
    by (cases "queue_stale_block t (gb_block_id g) (srv_db s)") auto
  have "sys_reachable (sys_of (s\<lparr>srv_db := d\<rparr>) cl)"
    using sys_reach_call [OF Cons.prems call_queue_stale_block [of _ t "gb_block_id g"]] q by simp
  from Cons.IH [OF this] q show ?case by simp
qed simp

lemma run_gc_refines_sys:
  assumes "sys_reachable (sys_of s cl)"
  shows "sys_reachable (sys_of (snd (run_gc env ts t limit s)) cl)"
proof (cases "limit = 0 \<or> max_gc_limit < limit")
  case True
  with assms show ?thesis by (simp add: run_gc_def)
next
  case False
  obtain r d where e: "expire_uploads t (ts - 7 * 24 * 3600) (srv_db s) = (r, d)"
    by (cases "expire_uploads t (ts - 7 * 24 * 3600) (srv_db s)") auto
  let ?s1 = "s\<lparr>srv_db := d\<rparr>"
  have 1: "sys_reachable (sys_of ?s1 cl)"
    using sys_reach_call [OF assms call_expire_uploads [of _ t "ts - 7 * 24 * 3600"]] e by simp
  show ?thesis
  proof (cases r)
    case (Inl err)
    with False e 1 show ?thesis by (simp add: run_gc_def)
  next
    case (Inr k)
    show ?thesis
    proof (cases "stale_blocks (ts - 3600) limit d")
      case (Inl err)
      with False e 1 Inr show ?thesis by (simp add: run_gc_def)
    next
      case (Inr stale)
      obtain n d2 where q: "queue_stale_blocks t stale 0 d = (n, d2)"
        by (cases "queue_stale_blocks t stale 0 d") auto
      let ?s2 = "s\<lparr>srv_db := d2\<rparr>"
      have 2: "sys_reachable (sys_of ?s2 cl)"
        using queue_stale_blocks_refines [OF 1, of t stale 0] q by simp
      note st = False e \<open>r = Inr k\<close> Inr q
      show ?thesis
      proof (cases "limit - n = 0")
        case True
        with st 2 show ?thesis by (simp add: run_gc_def)
      next
        case rem: False
        show ?thesis
        proof (cases "gc_candidates ts (limit - n) d2")
          case (Inl err)
          with st 2 rem show ?thesis by (simp add: run_gc_def)
        next
          case (Inr gs)
          have "sys_reachable (sys_of ?s2 (map claim_of gs @ cl))"
            using reach_step [OF 2 step_claim_batch [of ts "limit - n" "sys_of ?s2 cl" gs]] Inr
            by (simp add: sys_of_def)
          then have "sys_reachable (sys_of (snd (process_gc_candidates env ts gs ?s2)) (map claim_of gs @ cl))"
            by (rule process_gc_candidates_refines) auto
          then have "sys_reachable (sys_of (snd (process_gc_candidates env ts gs ?s2)) cl)"
            by (rule sys_reach_drop_all)
          with st rem Inr show ?thesis
            by (cases "process_gc_candidates env ts gs ?s2") (simp add: run_gc_def)
        qed
      qed
    qed
  qed
qed

section \<open>Bounds\<close>

definition members :: "(telegram_backend \<times> garbage_record list) list \<Rightarrow> nat" where
  "members groups = sum_list (map (\<lambda>(_, gs). length gs) groups)"

lemma members_simps [simp]:
  "members [] = 0" "members ((b, gs) # groups) = length gs + members groups"
  "members (push_group g groups) = Suc (members groups)"
  by (simp_all add: members_def, induction g groups rule: push_group.induct) auto

lemma sort_out_expired_count:
  "sort_out_expired ts gs n groups d = (n', groups', d') \<Longrightarrow> n' + members groups' = n + length gs + members groups"
  by (induction ts gs n groups d rule: sort_out_expired.induct) (auto split: if_splits)

lemma delete_groups_count: "fst (delete_groups env ts groups n s) = n + members groups"
proof (induction env ts groups n s rule: delete_groups.induct)
  case (2 env ts b gs groups n s)
  obtain k s' where d: "delete_candidate_group env ts b gs s = (k, s')"
    by (cases "delete_candidate_group env ts b gs s") auto
  then have "k = length gs" by (auto simp: delete_candidate_group_def Let_def split: sum.splits)
  with "2.IH" [OF d [symmetric]] d show ?case by simp
qed simp

lemma process_gc_candidates_count: "fst (process_gc_candidates env ts gs s) = length gs"
proof -
  obtain n groups d where o: "sort_out_expired ts gs 0 [] (srv_db s) = (n, groups, d)"
    by (cases "sort_out_expired ts gs 0 [] (srv_db s)") auto
  from sort_out_expired_count [OF o] o show ?thesis
    by (simp add: process_gc_candidates_def delete_groups_count)
qed

lemma queue_stale_blocks_count: "fst (queue_stale_blocks t gs n d) \<le> n + length gs"
proof (induction gs arbitrary: n d)
  case (Cons g gs)
  obtain c d' where "queue_stale_block t (gb_block_id g) d = (c, d')"
    by (cases "queue_stale_block t (gb_block_id g) d") auto
  with Cons.IH [of "if c then n + 1 else n" d'] show ?case by (auto split: if_splits)
qed simp

lemma garbage_from_row_total:
  assumes "schema_ok d" and "b \<in> set (telegram_blocks d)"
  shows "\<exists>g. garbage_from_row (q, b) = Inr g"
proof -
  obtain k where "trow_backend b = backend_as_str k" using assms by (auto simp: schema_defs)
  then show ?thesis by (simp add: garbage_from_row_def)
qed

lemma stale_blocks_total:
  assumes "schema_ok d" and "int limit \<le> i64_max"
  shows "\<exists>gs. stale_blocks before limit d = Inr gs \<and> length gs \<le> limit"
proof -
  let ?rows = "take limit (sort_key trow_created_at (sort_key trow_id
           (filter (\<lambda>b. trow_state b = Staged \<and> trow_created_at b < before
              \<and> unreferenced d (trow_id b)) (telegram_blocks d))))"
  let ?f = "\<lambda>b. garbage_from_row (\<lparr>q_block_id = trow_id b, q_attempts = 0,
             q_next_attempt = 0, q_last_error = None, q_state = Pending\<rparr>, b)"
  have "\<exists>gs. traverse ?f ?rows = Inr gs"
    by (rule traverse_ex, rule garbage_from_row_total [OF assms(1)]) (auto dest: in_set_takeD)
  then obtain gs where gs: "traverse ?f ?rows = Inr gs" by blast
  from traverse_Inr_length [OF gs] have "length gs \<le> limit" by simp
  with gs assms(2) show ?thesis by (simp add: stale_blocks_def)
qed

lemma gc_candidates_total:
  assumes "schema_ok d" and "int limit \<le> i64_max"
  shows "\<exists>gs. gc_candidates ts limit d = Inr gs \<and> length gs \<le> limit"
proof -
  let ?rows = "take limit (sort_key (\<lambda>(q, b). q_next_attempt q) (filter (collectable ts d) (gc_join d)))"
  have "\<exists>gs. traverse garbage_from_row ?rows = Inr gs"
  proof (rule traverse_ex)
    fix x assume "x \<in> set ?rows"
    then have "x \<in> set (gc_join d)" using in_set_takeD by fastforce
    moreover obtain q b where "x = (q, b)" by (cases x)
    ultimately have "x = (q, b)" "b \<in> set (telegram_blocks d)" by (simp_all only: in_gc_join)
    with garbage_from_row_total [OF assms(1)] show "\<exists>y. garbage_from_row x = Inr y" by blast
  qed
  then obtain gs where gs: "traverse garbage_from_row ?rows = Inr gs" by blast
  from traverse_Inr_length [OF gs] have "length gs \<le> limit" by simp
  with gs assms(2) show ?thesis by (simp add: gc_candidates_def)
qed

lemma db_ok_queue_stale_blocks: "db_ok d \<Longrightarrow> db_ok (snd (queue_stale_blocks t gs n d))"
proof (induction gs arbitrary: n d)
  case (Cons g gs)
  obtain c d' where q: "queue_stale_block t (gb_block_id g) d = (c, d')"
    by (cases "queue_stale_block t (gb_block_id g) d") auto
  then have "db_ok d'" using db_ok_queue_stale_block [OF Cons.prems, of t "gb_block_id g"] by simp
  from Cons.IH [OF this] q show ?case by simp
qed simp

lemma run_gc_returns:
  assumes ok: "db_ok (srv_db s)" and lim: "0 < limit" "limit \<le> max_gc_limit"
  shows "\<exists>n. fst (run_gc env ts t limit s) = Inr n \<and> n \<le> limit"
proof -
  let ?before = "ts - 7 * 24 * 3600"
  obtain k d where e: "expire_uploads t ?before (srv_db s) = (Inr k, d)"
  proof -
    have "distinct (map urow_upload_id (multipart_uploads (srv_db s)))"
      using ok by (simp add: db_ok_def schema_defs)
    then have "fst (expire_uploads t ?before (srv_db s)) \<in> range Inr"
      unfolding expire_uploads_def by (subst expire_loop_effect [OF ok, THEN conjunct1]) (auto simp: distinct_map_filter)
    with that show ?thesis by (cases "expire_uploads t ?before (srv_db s)") auto
  qed
  have d: "db_ok d" using db_ok_expire_uploads [OF ok, of t ?before] e by simp
  have big: "int limit \<le> i64_max" using lim(2) by (simp add: max_gc_limit_def i64_max_def)
  obtain stale where st: "stale_blocks (ts - 3600) limit d = Inr stale" "length stale \<le> limit"
    using stale_blocks_total [of d limit] d big by (auto simp: db_ok_def)
  obtain n d2 where q: "queue_stale_blocks t stale 0 d = (n, d2)"
    by (cases "queue_stale_blocks t stale 0 d") auto
  have n: "n \<le> limit" using queue_stale_blocks_count [of t stale 0 d] q st(2) by simp
  have "db_ok d2" using db_ok_queue_stale_blocks [OF d, of t stale 0] q by simp
  then obtain gs where gs: "gc_candidates ts (limit - n) d2 = Inr gs" "length gs \<le> limit - n"
  proof -
    have "int (limit - n) \<le> i64_max" using big by linarith
    with that gc_candidates_total [of d2 "limit - n" ts] \<open>db_ok d2\<close> show thesis by (auto simp: db_ok_def)
  qed
  obtain m s' where m: "process_gc_candidates env ts gs (s\<lparr>srv_db := d2\<rparr>) = (m, s')"
    by (cases "process_gc_candidates env ts gs (s\<lparr>srv_db := d2\<rparr>)") auto
  have "m = length gs" using process_gc_candidates_count [of env ts gs "s\<lparr>srv_db := d2\<rparr>"] m by simp
  with lim e st q n gs m show ?thesis by (auto simp: run_gc_def Let_def)
qed

section \<open>What a run removes\<close>

definition deletable :: "tg_env \<Rightarrow> garbage_record \<Rightarrow> bool" where
  "deletable env g \<longleftrightarrow>
     (case delete_message_by_id (te_client env) (te_post env) (te_rpc env) (gb_backend g) (gb_message_id g) of
        Inr _ \<Rightarrow> True | Inl e \<Rightarrow> is_missing_message e)"

definition due :: "db \<Rightarrow> garbage_record \<Rightarrow> bool" where
  "due d g \<longleftrightarrow> queued d (gb_block_id g) \<or> \<not> block_exists d (gb_block_id g)"

definition evolves :: "db \<Rightarrow> db \<Rightarrow> bool" where
  "evolves d d' \<longleftrightarrow> db_ok d \<longrightarrow> db_ok d' \<and> keeps d d'"

lemma evolves_refl [simp]: "evolves d d"
  by (simp add: evolves_def)

lemma evolves_trans: "evolves d d1 \<Longrightarrow> evolves d1 d2 \<Longrightarrow> evolves d d2"
  by (auto simp: evolves_def intro: keeps_trans)

lemma evolves_gc:
  "evolves d (gc_success b d)" "evolves d (gc_failure b e t d)" "evolves d (gc_orphan b e d)"
  using gc_success_m.preserves gc_success_m.keeps_claims gc_failure_m.preserves gc_failure_m.keeps_claims
    gc_orphan_m.preserves gc_orphan_m.keeps_claims
  by (auto simp: evolves_def)

lemma keeps_gone: "keeps d d' \<Longrightarrow> \<not> block_exists d b \<Longrightarrow> \<not> block_exists d' b"
  by (auto simp: keeps_def block_exists_pairs)

lemma keeps_due: "keeps d d' \<Longrightarrow> due d g \<Longrightarrow> due d' g"
  using keeps_gone [of d d' "gb_block_id g"] by (auto simp: due_def keeps_def)

lemma gc_success_gone:
  assumes ok: "db_ok d" and "due d g"
  shows "\<not> block_exists (gc_success (gb_block_id g) d) (gb_block_id g)"
proof (cases "block_exists d (gb_block_id g)")
  case False
  with evolves_gc(1) [of d] ok keeps_gone show ?thesis by (auto simp: evolves_def)
next
  case True
  then obtain r where r: "r \<in> set (telegram_blocks d)" "trow_id r = gb_block_id g" by (auto simp: block_exists_def)
  have q: "queued d (gb_block_id g)" using assms(2) True by (simp add: due_def)
  have un: "unreferenced d (gb_block_id g)" using ok q by (rule queued_unreferenced)
  have "balanced (\<lambda>_. 0) d" using ok by (simp add: db_ok_def)
  from balancedD [OF this r(1)] q r(2) have "trow_ref_count r = 0" by (auto simp: row_balanced_def)
  with r have "list_ex (\<lambda>r. trow_id r = gb_block_id g \<and> trow_ref_count r = 0) (telegram_blocks d)"
    by (auto simp: list_ex_iff)
  with un have "gc_success (gb_block_id g) d = d\<lparr>telegram_blocks := filter (\<lambda>r. trow_id r \<noteq> gb_block_id g) (telegram_blocks d),
      gc_queue := filter (\<lambda>q. \<not> (q_block_id q = gb_block_id g \<and> block_exists d (gb_block_id g))) (gc_queue d)\<rparr>"
    by (simp add: gc_success_def delete_block_row_def unreferenced_def)
  then show ?thesis by (auto simp: block_exists_def)
qed

text \<open>A step that is a \<open>gc\<close> statement for each member, and \<open>gc_success\<close> for the deletable ones.\<close>

lemma fold_removes:
  assumes step: "\<And>g d. g \<in> set gs \<Longrightarrow> evolves d (f g d)"
    and del: "\<And>g d. g \<in> set gs \<Longrightarrow> P g \<Longrightarrow> f g d = gc_success (gb_block_id g) d"
    and ok: "db_ok d" and due: "\<forall>g \<in> set gs. due d g"
  shows "evolves d (fold f gs d) \<and> (\<forall>g \<in> set gs. P g \<longrightarrow> \<not> block_exists (fold f gs d) (gb_block_id g))"
  using assms
proof (induction gs arbitrary: d)
  case (Cons g gs)
  let ?d = "f g d"
  have e: "evolves d ?d" using Cons.prems(1) by simp
  then have ok1: "db_ok ?d" and k: "keeps d ?d" using Cons.prems(3) by (simp_all add: evolves_def)
  have "\<forall>g \<in> set gs. due ?d g" using Cons.prems(4) keeps_due [OF k] by simp
  with Cons.IH [of ?d] Cons.prems(1,2) ok1
  have IH: "evolves ?d (fold f gs ?d)" "\<forall>g \<in> set gs. P g \<longrightarrow> \<not> block_exists (fold f gs ?d) (gb_block_id g)" by auto
  have "\<not> block_exists (fold f gs ?d) (gb_block_id g)" if "P g"
  proof -
    have "\<not> block_exists ?d (gb_block_id g)"
      using that Cons.prems(2) [of g d] Cons.prems(3,4) gc_success_gone [of d g] by simp
    with IH(1) ok1 keeps_gone show ?thesis by (auto simp: evolves_def)
  qed
  with IH evolves_trans [OF e] show ?case by simp
qed simp

definition candidate_db :: "tg_env \<Rightarrow> int \<Rightarrow> garbage_record \<Rightarrow> db \<Rightarrow> db" where
  "candidate_db env ts g d =
     (case delete_message_by_id (te_client env) (te_post env) (te_rpc env) (gb_backend g) (gb_message_id g) of
        Inr _ \<Rightarrow> gc_success (gb_block_id g) d
      | Inl e \<Rightarrow> if is_missing_message e then gc_success (gb_block_id g) d
                 else gc_failure (gb_block_id g) (error_text e) (ts + 300) d)"

lemma process_gc_candidate_eq:
  "process_gc_candidate env ts g s =
     s\<lparr>srv_db := candidate_db env ts g (srv_db s), srv_deleted := srv_deleted s @ [gb_message_id g]\<rparr>"
proof -
  have "blk_backend (as_block_ref g) = gb_backend g" "blk_message_id (as_block_ref g) = gb_message_id g"
    by (simp_all add: as_block_ref_def)
  then show ?thesis
    by (simp add: process_gc_candidate_def candidate_db_def request_delete_def Let_def split: sum.split)
qed

lemma fold_process_gc_candidate:
  "fold (process_gc_candidate env ts) gs s =
     s\<lparr>srv_db := fold (candidate_db env ts) gs (srv_db s), srv_deleted := srv_deleted s @ map gb_message_id gs\<rparr>"
  by (induction gs arbitrary: s) (simp_all add: process_gc_candidate_eq)

lemma candidate_db_props:
  "evolves d (candidate_db env ts g d)"
  "deletable env g \<Longrightarrow> candidate_db env ts g d = gc_success (gb_block_id g) d"
  by (auto simp: candidate_db_def deletable_def evolves_gc split: sum.splits)

lemma delete_candidate_group_removes:
  assumes ok: "db_ok (srv_db s)" and due: "\<forall>g \<in> set gs. due (srv_db s) g"
    and d: "delete_candidate_group env ts b gs s = (k, s')"
  shows "evolves (srv_db s) (srv_db s')
    \<and> set (srv_deleted s') = set (srv_deleted s) \<union> gb_message_id ` set gs
    \<and> (\<forall>g \<in> set gs. deletable env g \<longrightarrow> \<not> block_exists (srv_db s') (gb_block_id g))"
proof -
  have 1: "evolves (srv_db s) (fold (candidate_db env ts) gs (srv_db s))
      \<and> (\<forall>g \<in> set gs. deletable env g \<longrightarrow> \<not> block_exists (fold (candidate_db env ts) gs (srv_db s)) (gb_block_id g))"
    using ok due by (intro fold_removes) (simp_all add: candidate_db_props)
  have 2: "evolves (srv_db s) (fold (\<lambda>g. gc_success (gb_block_id g)) gs (srv_db s))
      \<and> (\<forall>g \<in> set gs. deletable env g \<longrightarrow> \<not> block_exists (fold (\<lambda>g. gc_success (gb_block_id g)) gs (srv_db s)) (gb_block_id g))"
    using ok due by (intro fold_removes) (simp_all add: evolves_gc)
  from 1 2 d show ?thesis
    by (auto simp: delete_candidate_group_def Let_def fold_process_gc_candidate split: sum.splits if_splits)
qed

lemma delete_groups_removes:
  assumes "db_ok (srv_db s)" and "\<forall>(b, gs) \<in> set groups. \<forall>g \<in> set gs. due (srv_db s) g"
    and "delete_groups env ts groups n s = (k, s')"
  shows "evolves (srv_db s) (srv_db s')
    \<and> set (srv_deleted s') = set (srv_deleted s) \<union> gb_message_id ` set (concat (map snd groups))
    \<and> (\<forall>g \<in> set (concat (map snd groups)). deletable env g \<longrightarrow> \<not> block_exists (srv_db s') (gb_block_id g))"
  using assms
proof (induction env ts groups n s rule: delete_groups.induct)
  case (2 env ts b gs groups n s)
  obtain j s1 where d: "delete_candidate_group env ts b gs s = (j, s1)"
    by (cases "delete_candidate_group env ts b gs s") auto
  have due: "\<forall>g \<in> set gs. due (srv_db s) g" using "2.prems"(2) by simp
  from delete_candidate_group_removes [OF "2.prems"(1) due d]
  have s1: "evolves (srv_db s) (srv_db s1)"
    "set (srv_deleted s1) = set (srv_deleted s) \<union> gb_message_id ` set gs"
    "\<forall>g \<in> set gs. deletable env g \<longrightarrow> \<not> block_exists (srv_db s1) (gb_block_id g)" by blast+
  then have ok1: "db_ok (srv_db s1)" and k1: "keeps (srv_db s) (srv_db s1)"
    using "2.prems"(1) by (simp_all add: evolves_def)
  have "\<forall>(b, gs) \<in> set groups. \<forall>g \<in> set gs. due (srv_db s1) g"
    using "2.prems"(2) keeps_due [OF k1] by fastforce
  moreover have "delete_groups env ts groups (n + j) s1 = (k, s')" using "2.prems"(3) d by simp
  ultimately have IH: "evolves (srv_db s1) (srv_db s')"
    "set (srv_deleted s') = set (srv_deleted s1) \<union> gb_message_id ` set (concat (map snd groups))"
    "\<forall>g \<in> set (concat (map snd groups)). deletable env g \<longrightarrow> \<not> block_exists (srv_db s') (gb_block_id g)"
    using "2.IH" [OF d [symmetric] ok1] by blast+
  have "\<not> block_exists (srv_db s') i" if "\<not> block_exists (srv_db s1) i" for i
    using that IH(1) ok1 keeps_gone by (auto simp: evolves_def)
  with s1(3) IH(3) have "\<forall>g \<in> set (concat (map snd ((b, gs) # groups))). deletable env g
      \<longrightarrow> \<not> block_exists (srv_db s') (gb_block_id g)" by auto
  moreover have "set (srv_deleted s') = set (srv_deleted s) \<union> gb_message_id ` set (concat (map snd ((b, gs) # groups)))"
    unfolding IH(2) s1(2) by auto
  ultimately show ?case using evolves_trans [OF s1(1) IH(1)] by blast
qed simp

definition expired_candidate :: "int \<Rightarrow> garbage_record \<Rightarrow> bool" where
  "expired_candidate ts g \<longleftrightarrow> bot_api_delete_window_expired (gb_backend g) (gb_message_date g) ts"

lemma sort_out_expired_members:
  "sort_out_expired ts gs n groups d = (n', groups', d') \<Longrightarrow>
     evolves d d' \<and> set (concat (map snd groups'))
       = {g \<in> set gs. \<not> expired_candidate ts g} \<union> set (concat (map snd groups))"
proof (induction ts gs n groups d rule: sort_out_expired.induct)
  case (2 ts g gs n groups d)
  show ?case
  proof (cases "expired_candidate ts g")
    case True
    from "2.IH"(1) 2(3) True evolves_trans [OF evolves_gc(3)] show ?thesis
      by (auto simp: expired_candidate_def)
  next
    case False
    then have nx: "\<not> bot_api_delete_window_expired (gb_backend g) (gb_message_date g) ts"
      by (simp add: expired_candidate_def)
    with "2.prems" have "sort_out_expired ts gs n (push_group g groups) d = (n', groups', d')" by simp
    from "2.IH"(2) [OF nx this] show ?thesis
      using False by (simp only: push_group_members) auto
  qed
qed simp

lemma process_gc_candidates_removes:
  assumes ok: "db_ok (srv_db s)" and due: "\<forall>g \<in> set gs. due (srv_db s) g"
  shows "evolves (srv_db s) (srv_db (snd (process_gc_candidates env ts gs s)))
    \<and> set (srv_deleted (snd (process_gc_candidates env ts gs s)))
        = set (srv_deleted s) \<union> gb_message_id ` {g \<in> set gs. \<not> expired_candidate ts g}
    \<and> (\<forall>g \<in> set gs. \<not> expired_candidate ts g \<and> deletable env g
        \<longrightarrow> \<not> block_exists (srv_db (snd (process_gc_candidates env ts gs s))) (gb_block_id g))"
proof -
  obtain n groups d where o: "sort_out_expired ts gs 0 [] (srv_db s) = (n, groups, d)"
    by (cases "sort_out_expired ts gs 0 [] (srv_db s)") auto
  from sort_out_expired_members [OF o] have e: "evolves (srv_db s) d"
    and mem: "set (concat (map snd groups)) = {g \<in> set gs. \<not> expired_candidate ts g}" by simp_all
  then have okd: "db_ok d" and k: "keeps (srv_db s) d" using ok by (simp_all add: evolves_def)
  obtain j s' where g: "delete_groups env ts groups n (s\<lparr>srv_db := d\<rparr>) = (j, s')"
    by (cases "delete_groups env ts groups n (s\<lparr>srv_db := d\<rparr>)") auto
  have "\<forall>(b, ms) \<in> set groups. \<forall>g \<in> set ms. due d g"
  proof (clarify)
    fix b ms x assume "(b, ms) \<in> set groups" "x \<in> set ms"
    then have "x \<in> set (concat (map snd groups))" by force
    with mem due keeps_due [OF k] show "due d x" by auto
  qed
  with okd g have "evolves d (srv_db s')
    \<and> set (srv_deleted s') = set (srv_deleted s) \<union> gb_message_id ` set (concat (map snd groups))
    \<and> (\<forall>g \<in> set (concat (map snd groups)). deletable env g \<longrightarrow> \<not> block_exists (srv_db s') (gb_block_id g))"
    using delete_groups_removes [of "s\<lparr>srv_db := d\<rparr>" groups env ts n j s'] by simp
  with evolves_trans [OF e] show ?thesis
    unfolding mem by (auto simp: process_gc_candidates_def o g)
qed

end
