(* ===== verification/Upload_Tasks.thy ===== *)
theory Upload_Tasks
  imports Cleanup
begin

text \<open>
  The tasks of one upload (\<open>src/transfer/upload/task.rs\<close>) as a transition system: any task can be
  aborted where it waits, and the guard of the upload (\<open>src/transfer/cleanup.rs\<close>) can clean up, be
  disarmed or be dropped at any moment between their steps. \<open>upload_one\<close> is the run nobody
  interrupts.
\<close>

section \<open>\<open>MessageCleanupGuard\<close>\<close>

record message_guard =
  mg_backend :: telegram_backend
  mg_message_id :: int
  mg_armed :: bool

definition message_guard_new :: "stored_document \<Rightarrow> message_guard" where
  "message_guard_new doc = \<lparr>mg_backend = sd_backend doc, mg_message_id = sd_message_id doc, mg_armed = True\<rparr>"

text \<open>\<open>cleanup\<close>: Telegram's answer, which is only logged, and the guard, disarmed whatever it is.\<close>

definition message_guard_cleanup ::
  "tg_env \<Rightarrow> message_guard \<Rightarrow> server \<Rightarrow> (error + unit) \<times> message_guard \<times> server"
where
  "message_guard_cleanup env g s =
     (case request_delete env (mg_backend g) (mg_message_id g) s of (answer, s') \<Rightarrow> (answer, g\<lparr>mg_armed := False\<rparr>, s'))"

definition message_guard_disarm :: "message_guard \<Rightarrow> message_guard" where
  "message_guard_disarm g = g\<lparr>mg_armed := False\<rparr>"

text \<open>\<open>drop\<close>: the deletion that is spawned, if any.\<close>

definition message_guard_drop :: "message_guard \<Rightarrow> (telegram_backend \<times> int) list" where
  "message_guard_drop g = (if mg_armed g then [(mg_backend g, mg_message_id g)] else [])"

section \<open>The phases of a task\<close>

text \<open>
  Where a task waits: for a permit; for Telegram to store the chunk; inside \<open>upload_stream\<close>, for the
  messages it refuses itself to be deleted; for a message the task refuses to be deleted; for the
  row of the message.
\<close>

datatype task_phase =
    Waiting
  | Sending
  | Rejecting "(telegram_backend \<times> int) list" error
  | Refusing message_guard error
  | Staging message_guard stored_document
  | Finished "error + uploaded_block"
  | Aborted

primrec guards_of :: "task_phase \<Rightarrow> message_guard list" where
  "guards_of Waiting = []"
| "guards_of Sending = []"
| "guards_of (Rejecting ms e) = []"
| "guards_of (Refusing g e) = [g]"
| "guards_of (Staging g doc) = [g]"
| "guards_of (Finished r) = []"
| "guards_of Aborted = []"

text \<open>The messages a task has to answer for; those inside \<open>upload_stream\<close> have no guard.\<close>

definition guarded :: "message_guard \<Rightarrow> telegram_backend \<times> int" where
  "guarded g = (mg_backend g, mg_message_id g)"

definition held_by :: "task_phase \<Rightarrow> (telegram_backend \<times> int) list" where
  "held_by ph = (case ph of Rejecting ms e \<Rightarrow> ms | _ \<Rightarrow> map guarded (guards_of ph))"

lemma held_by_simps [simp]:
  "held_by Waiting = []" "held_by Sending = []" "held_by (Rejecting ms e) = ms" "held_by (Refusing g e) = [guarded g]"
  "held_by (Staging g doc) = [guarded g]" "held_by (Finished r) = []" "held_by Aborted = []"
  by (simp_all add: held_by_def)

text \<open>What the task does with the document Telegram returned.\<close>

definition after_send :: "block_spec \<Rightarrow> stored_document \<Rightarrow> task_phase" where
  "after_send sp doc =
     (let g = message_guard_new doc
      in if sd_file_size doc \<noteq> 0 \<and> sd_file_size doc \<noteq> spec_size sp
         then Refusing g (stored_size_error (sd_file_size doc) (spec_size sp))
         else Staging g doc)"

definition block_of :: "block_spec \<Rightarrow> stored_document \<Rightarrow> uploaded_block" where
  "block_of sp doc = uploaded_block (spec_ordinal sp) (spec_offset sp) (spec_size sp) doc"

section \<open>The upload\<close>

text \<open>
  The server, the guard, the tasks, the references handed to cleanup, those the disarmed guard
  left to the caller, the deletions spawned by dropped message guards and not made yet, the
  deletions made with Telegram's answers, and the messages Telegram reported.
\<close>

record upload_run =
  ur_server :: server
  ur_guard :: cleanup_guard
  ur_tasks :: "task_phase list"
  ur_cleaned :: "block_ref list"
  ur_released :: "block_ref list"
  ur_spawned :: "(telegram_backend \<times> int) list"
  ur_deletions :: "((telegram_backend \<times> int) \<times> (error + unit)) list"
  ur_known :: "(telegram_backend \<times> int) list"

definition run_start :: "server \<Rightarrow> nat \<Rightarrow> upload_run" where
  "run_start s n = \<lparr>ur_server = s, ur_guard = cleanup_new, ur_tasks = replicate n Waiting, ur_cleaned = [],
     ur_released = [], ur_spawned = [], ur_deletions = [], ur_known = []\<rparr>"

definition sent_message :: "stored_document \<Rightarrow> telegram_backend \<times> int" where
  "sent_message doc = (sd_backend doc, sd_message_id doc)"

text \<open>
  \<open>store\<close> is the outcome of \<open>TelegramClient::upload_stream\<close> with the active backend \<open>bk\<close>, as
  \<open>Telegram_Connect.tg_upload_stream\<close> has it: the document or an error, and the messages that it
  refused and deletes itself. Each deletion has its own answer of Telegram (\<open>env\<close>). A task aborted
  while it waits for its row drops its message guard; whether the row was written is open.
\<close>

inductive run_step ::
  "telegram_backend \<Rightarrow> int \<Rightarrow> (block_spec \<Rightarrow> bytes \<Rightarrow> (error + stored_document) \<times> int list) \<Rightarrow> (block_spec \<times> bytes) list
     \<Rightarrow> upload_run \<Rightarrow> upload_run \<Rightarrow> bool"
  for bk chat store ps where
  task_permit: "i < length (ur_tasks s) \<Longrightarrow> ur_tasks s ! i = Waiting
    \<Longrightarrow> run_step bk chat store ps s (s\<lparr>ur_tasks := (ur_tasks s)[i := Sending]\<rparr>)"
| task_closed: "i < length (ur_tasks s) \<Longrightarrow> ur_tasks s ! i = Waiting
    \<Longrightarrow> run_step bk chat store ps s
          (s\<lparr>ur_tasks := (ur_tasks s)[i := Finished (Inl (Other (lit ''upload semaphore closed'')))]\<rparr>)"
| task_failed: "i < length (ur_tasks s) \<Longrightarrow> ur_tasks s ! i = Sending \<Longrightarrow> ps ! i = (sp, c) \<Longrightarrow> store sp c = (Inl e, ms)
    \<Longrightarrow> run_step bk chat store ps s (s\<lparr>ur_tasks := (ur_tasks s)[i := Rejecting (map (Pair bk) ms) e],
          ur_known := map (Pair bk) ms @ ur_known s\<rparr>)"
| task_rejects: "i < length (ur_tasks s) \<Longrightarrow> ur_tasks s ! i = Rejecting (m # ms) e
    \<Longrightarrow> request_delete env (fst m) (snd m) (ur_server s) = (answer, s')
    \<Longrightarrow> run_step bk chat store ps s (s\<lparr>ur_tasks := (ur_tasks s)[i := Rejecting ms e], ur_server := s',
          ur_deletions := (m, answer) # ur_deletions s\<rparr>)"
| task_rejected: "i < length (ur_tasks s) \<Longrightarrow> ur_tasks s ! i = Rejecting [] e
    \<Longrightarrow> run_step bk chat store ps s (s\<lparr>ur_tasks := (ur_tasks s)[i := Finished (Inl e)]\<rparr>)"
| task_sent: "i < length (ur_tasks s) \<Longrightarrow> ur_tasks s ! i = Sending \<Longrightarrow> ps ! i = (sp, c) \<Longrightarrow> store sp c = (Inr doc, ms)
    \<Longrightarrow> run_step bk chat store ps s
          (s\<lparr>ur_tasks := (ur_tasks s)[i := after_send sp doc], ur_known := sent_message doc # ur_known s\<rparr>)"
| task_refused: "i < length (ur_tasks s) \<Longrightarrow> ur_tasks s ! i = Refusing g e
    \<Longrightarrow> message_guard_cleanup env g (ur_server s) = (answer, g', s')
    \<Longrightarrow> run_step bk chat store ps s (s\<lparr>ur_tasks := (ur_tasks s)[i := Finished (Inl e)], ur_server := s',
          ur_spawned := ur_spawned s @ message_guard_drop g', ur_deletions := (guarded g, answer) # ur_deletions s\<rparr>)"
| task_staged: "i < length (ur_tasks s) \<Longrightarrow> ur_tasks s ! i = Staging g doc \<Longrightarrow> ps ! i = (sp, c)
    \<Longrightarrow> add_staged_block t (to_block_ref chat (block_of sp doc)) (srv_db (ur_server s)) = (Inr b, d)
    \<Longrightarrow> register (to_block_ref chat ((block_of sp doc)\<lparr>ub_id := b\<rparr>)) (cg_state (ur_guard s)) = (reg, out)
    \<Longrightarrow> run_step bk chat store ps s (s\<lparr>ur_tasks := (ur_tasks s)[i := Finished (Inr ((block_of sp doc)\<lparr>ub_id := b\<rparr>))],
          ur_server := (ur_server s)\<lparr>srv_db := d\<rparr>, ur_guard := (ur_guard s)\<lparr>cg_state := reg\<rparr>,
          ur_cleaned := ur_cleaned s @ out, ur_spawned := ur_spawned s @ message_guard_drop (message_guard_disarm g)\<rparr>)"
| task_unstaged: "i < length (ur_tasks s) \<Longrightarrow> ur_tasks s ! i = Staging g doc \<Longrightarrow> ps ! i = (sp, c)
    \<Longrightarrow> add_staged_block t (to_block_ref chat (block_of sp doc)) (srv_db (ur_server s)) = (Inl e, d)
    \<Longrightarrow> run_step bk chat store ps s (s\<lparr>ur_tasks := (ur_tasks s)[i := Refusing g e],
          ur_server := (ur_server s)\<lparr>srv_db := d\<rparr>\<rparr>)"
| task_aborted: "i < length (ur_tasks s) \<Longrightarrow> ur_tasks s ! i = ph \<Longrightarrow> (\<And>r. ph \<noteq> Finished r)
    \<Longrightarrow> d = srv_db (ur_server s) \<or> (\<exists>g doc t. ph = Staging g doc
          \<and> d = snd (add_staged_block t (to_block_ref chat (block_of (fst (ps ! i)) doc)) (srv_db (ur_server s))))
    \<Longrightarrow> run_step bk chat store ps s (s\<lparr>ur_tasks := (ur_tasks s)[i := Aborted], ur_server := (ur_server s)\<lparr>srv_db := d\<rparr>,
          ur_spawned := ur_spawned s @ concat (map message_guard_drop (guards_of ph))\<rparr>)"
| spawned_delete: "m \<in> set (ur_spawned s) \<Longrightarrow> request_delete env (fst m) (snd m) (ur_server s) = (answer, s')
    \<Longrightarrow> run_step bk chat store ps s (s\<lparr>ur_server := s', ur_spawned := remove1 m (ur_spawned s),
          ur_deletions := (m, answer) # ur_deletions s\<rparr>)"
| guard_event: "(\<And>b. ev \<noteq> Registered b) \<Longrightarrow> cleanup_step ev (ur_guard s) = (g, out)
    \<Longrightarrow> run_step bk chat store ps s (s\<lparr>ur_guard := g, ur_cleaned := ur_cleaned s @ out,
          ur_released := ur_released s @ (if ev = Disarmed then cl_references (cg_state (ur_guard s)) else [])\<rparr>)"

inductive run_reachable ::
  "telegram_backend \<Rightarrow> int \<Rightarrow> (block_spec \<Rightarrow> bytes \<Rightarrow> (error + stored_document) \<times> int list) \<Rightarrow> (block_spec \<times> bytes) list
     \<Rightarrow> server \<Rightarrow> upload_run \<Rightarrow> bool"
  for bk chat store ps s0 where
  run_init: "run_reachable bk chat store ps s0 (run_start s0 (length ps))"
| run_next: "run_reachable bk chat store ps s0 s \<Longrightarrow> run_step bk chat store ps s s' \<Longrightarrow> run_reachable bk chat store ps s0 s'"

inductive_simps run_step_cases: "run_step bk chat store ps s s'"

section \<open>No message is forgotten\<close>

text \<open>Who answers for a message: a task that still held_by it, or one of the lists.\<close>

definition message_of :: "block_ref \<Rightarrow> telegram_backend \<times> int" where
  "message_of b = (blk_backend b, blk_message_id b)"

definition held :: "upload_run \<Rightarrow> telegram_backend \<times> int \<Rightarrow> bool" where
  "held s m \<longleftrightarrow> (\<exists>ph \<in> set (ur_tasks s). m \<in> set (held_by ph))"

definition settled :: "upload_run \<Rightarrow> telegram_backend \<times> int \<Rightarrow> bool" where
  "settled s m \<longleftrightarrow> m \<in> fst ` set (ur_deletions s) \<or> m \<in> set (ur_spawned s)
     \<or> m \<in> message_of ` (set (ur_cleaned s) \<union> set (ur_released s))"

text \<open>The messages that \<open>upload_stream\<close> refuses itself, and those of them whose task was aborted meanwhile.\<close>

definition rejects ::
  "telegram_backend \<Rightarrow> (block_spec \<Rightarrow> bytes \<Rightarrow> (error + stored_document) \<times> int list) \<Rightarrow> block_spec \<times> bytes
     \<Rightarrow> (telegram_backend \<times> int) set"
where
  "rejects bk store = (\<lambda>(sp, c). Pair bk ` set (snd (store sp c)))"

definition abandoned ::
  "telegram_backend \<Rightarrow> (block_spec \<Rightarrow> bytes \<Rightarrow> (error + stored_document) \<times> int list) \<Rightarrow> (block_spec \<times> bytes) list
     \<Rightarrow> upload_run \<Rightarrow> telegram_backend \<times> int \<Rightarrow> bool"
where
  "abandoned bk store ps s m \<longleftrightarrow> (\<exists>i < length (ur_tasks s). ur_tasks s ! i = Aborted \<and> m \<in> rejects bk store (ps ! i))"

text \<open>The guard a task held_by is armed, and that of the document it stages.\<close>

fun phase_ok :: "(telegram_backend \<times> int) set \<Rightarrow> task_phase \<Rightarrow> bool" where
  "phase_ok R (Rejecting ms e) \<longleftrightarrow> set ms \<subseteq> R"
| "phase_ok R (Refusing g e) \<longleftrightarrow> mg_armed g"
| "phase_ok R (Staging g doc) \<longleftrightarrow> g = message_guard_new doc"
| "phase_ok R ph \<longleftrightarrow> True"

lemma aborted_spawns:
  assumes "phase_ok R ph" and "m \<in> set (held_by ph)"
  shows "m \<in> set (concat (map message_guard_drop (guards_of ph))) \<or> m \<in> R"
  using assms by (cases ph) (auto simp: message_guard_new_def message_guard_drop_def guarded_def)

definition answered_for ::
  "telegram_backend \<Rightarrow> (block_spec \<Rightarrow> bytes \<Rightarrow> (error + stored_document) \<times> int list) \<Rightarrow> (block_spec \<times> bytes) list
     \<Rightarrow> upload_run \<Rightarrow> telegram_backend \<times> int \<Rightarrow> bool"
where
  "answered_for bk store ps s m \<longleftrightarrow> settled s m \<or> abandoned bk store ps s m
     \<or> m \<in> message_of ` set (cl_references (cg_state (ur_guard s)))"

definition run_ok ::
  "telegram_backend \<Rightarrow> (block_spec \<Rightarrow> bytes \<Rightarrow> (error + stored_document) \<times> int list) \<Rightarrow> (block_spec \<times> bytes) list
     \<Rightarrow> upload_run \<Rightarrow> bool"
where
  "run_ok bk store ps s \<longleftrightarrow> (\<forall>m \<in> set (ur_known s). held s m \<or> answered_for bk store ps s m)
     \<and> (\<forall>i < length (ur_tasks s). phase_ok (rejects bk store (ps ! i)) (ur_tasks s ! i))
     \<and> (\<not> cg_armed (ur_guard s) \<longrightarrow> cl_closed (cg_state (ur_guard s)) \<and> cl_references (cg_state (ur_guard s)) = [])"

lemma message_of_block [simp]: "message_of (to_block_ref chat ((block_of sp doc)\<lparr>ub_id := b\<rparr>)) = sent_message doc"
  by (simp add: message_of_def sent_message_def block_of_def uploaded_block_def to_block_ref_def)

lemma guarded_new [simp]: "guarded (message_guard_new doc) = sent_message doc"
  by (simp add: guarded_def message_guard_new_def sent_message_def)

lemma held_update:
  assumes "held s m" and "ur_tasks s' = (ur_tasks s)[i := ph]" and "i < length (ur_tasks s)"
  shows "held s' m \<or> m \<in> set (held_by (ur_tasks s ! i))"
proof -
  from assms(1) obtain j where j: "j < length (ur_tasks s)" "m \<in> set (held_by (ur_tasks s ! j))"
    unfolding held_def by (metis in_set_conv_nth)
  show ?thesis
  proof (cases "j = i")
    case False
    with j assms(2) have "ur_tasks s' ! j = ur_tasks s ! j" "j < length (ur_tasks s')" by simp_all
    with j(2) show ?thesis unfolding held_def by (metis nth_mem)
  qed (use j in simp)
qed

lemma held_new: "ur_tasks s' = (ur_tasks s)[i := ph] \<Longrightarrow> i < length (ur_tasks s)
    \<Longrightarrow> m \<in> set (held_by ph) \<Longrightarrow> held s' m"
  by (auto simp: held_def set_update_memI)

text \<open>
  A step on one task: whatever the task answered for is in its new phase or answered for, and
  nothing settled or registered is lost.
\<close>

lemma run_ok_task:
  assumes ok: "run_ok bk store ps s" and i: "i < length (ur_tasks s)" and tasks: "ur_tasks s' = (ur_tasks s)[i := ph]"
    and phase: "phase_ok (rejects bk store (ps ! i)) ph" and live: "ur_tasks s ! i = Aborted \<longrightarrow> ph = Aborted"
    and known: "\<And>m. m \<in> set (ur_known s') \<Longrightarrow> m \<in> set (ur_known s) \<or> m \<in> set (held_by ph)"
    and hand: "\<And>m. m \<in> set (held_by (ur_tasks s ! i)) \<Longrightarrow> m \<in> set (held_by ph) \<or> answered_for bk store ps s' m"
    and stay: "\<And>m. settled s m \<Longrightarrow> settled s' m"
      "set (cl_references (cg_state (ur_guard s))) \<subseteq> set (cl_references (cg_state (ur_guard s')))"
    and guard: "\<not> cg_armed (ur_guard s') \<longrightarrow> cl_closed (cg_state (ur_guard s')) \<and> cl_references (cg_state (ur_guard s')) = []"
  shows "run_ok bk store ps s'"
proof -
  have aborted: "abandoned bk store ps s' m" if ab: "abandoned bk store ps s m" for m
  proof -
    from ab obtain j where j: "j < length (ur_tasks s)" "ur_tasks s ! j = Aborted" "m \<in> rejects bk store (ps ! j)"
      unfolding abandoned_def by blast
    then have "ur_tasks s' ! j = Aborted" "j < length (ur_tasks s')" using live tasks by (cases "j = i"; simp)+
    with j(3) show ?thesis unfolding abandoned_def by blast
  qed
  have "held s' m \<or> answered_for bk store ps s' m" if m: "m \<in> set (ur_known s')" for m
  proof (cases "m \<in> set (held_by ph)")
    case True
    then show ?thesis using held_new [OF tasks i] by blast
  next
    case False
    with known [OF m] have "m \<in> set (ur_known s)" by simp
    with ok consider "held s m" | "settled s m" | "abandoned bk store ps s m"
      | "m \<in> message_of ` set (cl_references (cg_state (ur_guard s)))"
      unfolding run_ok_def answered_for_def by blast
    then show ?thesis
    proof cases
      case 1
      from held_update [OF 1 tasks i] False hand show ?thesis by blast
    qed (use stay aborted in \<open>auto simp: answered_for_def\<close>)
  qed
  moreover have "phase_ok (rejects bk store (ps ! j)) (ur_tasks s' ! j)" if "j < length (ur_tasks s')" for j
    using ok phase that tasks by (cases "j = i") (simp_all add: run_ok_def)
  ultimately show ?thesis using guard by (simp add: run_ok_def)
qed

lemma run_ok_guard:
  "run_ok bk store ps s \<Longrightarrow> \<not> cg_armed (ur_guard s)
     \<longrightarrow> cl_closed (cg_state (ur_guard s)) \<and> cl_references (cg_state (ur_guard s)) = []"
  "run_ok bk store ps s \<Longrightarrow> i < length (ur_tasks s) \<Longrightarrow> phase_ok (rejects bk store (ps ! i)) (ur_tasks s ! i)"
  by (simp_all add: run_ok_def)

text \<open>A step that touches neither the server nor the guard, of a task that held_by no message.\<close>

lemma run_ok_quiet:
  assumes "run_ok bk store ps s" and "i < length (ur_tasks s)" and "held_by (ur_tasks s ! i) = []" and "ur_tasks s ! i \<noteq> Aborted"
    and "phase_ok (rejects bk store (ps ! i)) ph"
  shows "run_ok bk store ps (s\<lparr>ur_tasks := (ur_tasks s)[i := ph]\<rparr>)"
  using run_ok_guard(1) [OF assms(1)]
  by (intro run_ok_task [OF assms(1,2) _ assms(5)]) (simp_all add: settled_def assms(3,4))

lemma request_delete_log:
  "request_delete env b m s = (answer, s') \<Longrightarrow> s' = s\<lparr>srv_deleted := srv_deleted s @ [m]\<rparr>"
  by (auto simp: request_delete_def)

lemma run_step_ok:
  assumes "run_step bk chat store ps s s'" and ok: "run_ok bk store ps s"
  shows "run_ok bk store ps s'"
  using assms(1)
proof (cases rule: run_step.cases)
  case (task_failed i sp c e ms)
  have "phase_ok (rejects bk store (ps ! i)) (Rejecting (map (Pair bk) ms) e)"
    using task_failed(4,5) by (simp add: rejects_def)
  then show ?thesis
    using run_ok_guard(1) [OF ok] task_failed
    by (intro run_ok_task [OF ok task_failed(2)]) (auto simp: settled_def)
next
  case (task_rejects i m ms e env answer t')
  have "phase_ok (rejects bk store (ps ! i)) (Rejecting ms e)"
    using run_ok_guard(2) [OF ok task_rejects(2)] task_rejects(3) by simp
  then show ?thesis
    using run_ok_guard(1) [OF ok] task_rejects
    by (intro run_ok_task [OF ok task_rejects(2)]) (auto simp: settled_def answered_for_def)
next
  case (task_sent i sp c doc ms)
  have g: "held_by (after_send sp doc) = [sent_message doc]" "phase_ok (rejects bk store (ps ! i)) (after_send sp doc)"
    by (simp_all add: after_send_def Let_def) (simp_all add: message_guard_new_def)
  show ?thesis
    using run_ok_guard(1) [OF ok] task_sent g(1)
    by (intro run_ok_task [OF ok task_sent(2) _ g(2)]) (auto simp: settled_def)
next
  case (task_refused i g e env answer g' t')
  show ?thesis
    using run_ok_guard(1) [OF ok] task_refused
    by (intro run_ok_task [OF ok task_refused(2), of _ "Finished (Inl e)"]) (auto simp: settled_def answered_for_def)
next
  case (task_staged i g doc sp c t b d reg out)
  let ?b = "to_block_ref chat ((block_of sp doc)\<lparr>ub_id := b\<rparr>)"
  have g: "g = message_guard_new doc" using run_ok_guard(2) [OF ok task_staged(2)] task_staged(3) by simp
  have r: "?b \<in> set (cl_references reg) \<or> ?b \<in> set out" "set (cl_references (cg_state (ur_guard s))) \<subseteq> set (cl_references reg)"
    "cl_closed (cg_state (ur_guard s)) \<Longrightarrow> reg = cg_state (ur_guard s)"
    using task_staged(6) by (auto simp: register_def split: if_splits)
  have "sent_message doc \<in> message_of ` set (cl_references reg) \<or> sent_message doc \<in> message_of ` set out"
    using r(1) message_of_block [where chat = chat and sp = sp and doc = doc and b = b] by (metis image_eqI)
  then have hand: "answered_for bk store ps s' m" if "m \<in> set (held_by (ur_tasks s ! i))" for m
    using that task_staged(1,3) g by (auto simp: answered_for_def settled_def)
  show ?thesis
    using run_ok_guard(1) [OF ok] r(2,3) hand task_staged(1,3)
    by (intro run_ok_task [OF ok task_staged(2), of _ "Finished (Inr ((block_of sp doc)\<lparr>ub_id := b\<rparr>))"])
      (auto simp: settled_def)
next
  case (task_unstaged i g doc sp c t e d)
  have g: "g = message_guard_new doc" using run_ok_guard(2) [OF ok task_unstaged(2)] task_unstaged(3) by simp
  show ?thesis
    using run_ok_guard(1) [OF ok] task_unstaged
    by (intro run_ok_task [OF ok task_unstaged(2), of _ "Refusing g e"]) (auto simp: settled_def g message_guard_new_def)
next
  case (task_aborted i ph d)
  have gone: "answered_for bk store ps s' m" if m: "m \<in> set (held_by (ur_tasks s ! i))" for m
  proof -
    from aborted_spawns [OF run_ok_guard(2) [OF ok task_aborted(2)] m]
    show ?thesis
    proof
      assume "m \<in> rejects bk store (ps ! i)"
      then have "abandoned bk store ps s' m" using task_aborted(1,2) by (auto simp: abandoned_def intro!: exI [of _ i])
      then show ?thesis by (simp add: answered_for_def)
    qed (use task_aborted(1,3) in \<open>auto simp: answered_for_def settled_def\<close>)
  qed
  show ?thesis
    using run_ok_guard(1) [OF ok] task_aborted(1) gone
    by (intro run_ok_task [OF ok task_aborted(2), of _ Aborted]) (auto simp: settled_def)
next
  case (spawned_delete m env answer t')
  have "settled s' x" if "settled s x" for x
    using that spawned_delete(1) by (cases "x = m") (auto simp: settled_def)
  then show ?thesis
    using ok spawned_delete(1) by (auto simp: run_ok_def answered_for_def abandoned_def held_def)
next
  case (guard_event ev g out)
  have old: "b \<in> set (cl_references (cg_state g)) \<or> b \<in> set out \<or> (ev = Disarmed \<and> b \<in> set (cl_references (cg_state (ur_guard s))))"
    if "b \<in> set (cl_references (cg_state (ur_guard s)))" for b
    using guard_event(2,3) that by (cases ev) (auto simp: cleanup_defs Let_def split: if_splits)
  have gd: "\<not> cg_armed g \<longrightarrow> cl_closed (cg_state g) \<and> cl_references (cg_state g) = []"
    using guard_event(2,3) run_ok_guard(1) [OF ok] by (cases ev) (auto simp: cleanup_defs Let_def split: if_splits)
  have sel: "ur_tasks s' = ur_tasks s" "ur_known s' = ur_known s" "ur_guard s' = g" using guard_event(1) by simp_all
  have "settled s' m" if "settled s m" for m using that guard_event(1) by (auto simp: settled_def)
  moreover have "settled s' (message_of b) \<or> message_of b \<in> message_of ` set (cl_references (cg_state g))"
    if "b \<in> set (cl_references (cg_state (ur_guard s)))" for b
    using old [OF that] that guard_event(1) by (auto simp: settled_def)
  ultimately have "answered_for bk store ps s' m" if "answered_for bk store ps s m" for m
    using that unfolding answered_for_def abandoned_def sel by blast
  then show ?thesis using ok gd unfolding run_ok_def sel held_def by blast
qed (use run_ok_quiet [OF ok] in auto)

lemma run_reachable_ok: "run_reachable bk chat store ps s0 s \<Longrightarrow> run_ok bk store ps s"
proof (induction rule: run_reachable.induct)
  case run_init
  then show ?case by (auto simp: run_ok_def run_start_def cleanup_new_def)
next
  case (run_next s s')
  then show ?case by (blast intro: run_step_ok)
qed

text \<open>When no task held_by a message and the guard has cleaned up, was disarmed or dropped, all is settled.\<close>

lemma all_settled:
  assumes "run_reachable bk chat store ps s0 s" and "\<not> cg_armed (ur_guard s)"
    and "\<forall>ph \<in> set (ur_tasks s). held_by ph = []" and "m \<in> set (ur_known s)"
  shows "settled s m \<or> abandoned bk store ps s m"
proof -
  have ok: "run_ok bk store ps s" using assms(1) by (rule run_reachable_ok)
  then have "cl_references (cg_state (ur_guard s)) = []" using assms(2) by (simp add: run_ok_def)
  moreover have "\<not> held s m" using assms(3) by (simp add: held_def)
  ultimately show ?thesis using ok assms(4) by (auto simp: run_ok_def answered_for_def)
qed

section \<open>The run nobody interrupts\<close>

text \<open>
  A task that runs from its start to its end, alone, does what \<open>upload_one\<close> says (of a backend that
  accepts what it sends, or fails).
\<close>

lemma run_swap:
  "s\<lparr>ur_known := k\<rparr>\<lparr>ur_tasks := x\<rparr> = s\<lparr>ur_tasks := x, ur_known := k\<rparr>"
  "s\<lparr>ur_known := k\<rparr>\<lparr>ur_server := v\<rparr> = s\<lparr>ur_server := v, ur_known := k\<rparr>"
  "s\<lparr>ur_known := k\<rparr>\<lparr>ur_guard := g\<rparr> = s\<lparr>ur_guard := g, ur_known := k\<rparr>"
  "s\<lparr>ur_known := k\<rparr>\<lparr>ur_cleaned := c\<rparr> = s\<lparr>ur_cleaned := c, ur_known := k\<rparr>"
  "s\<lparr>ur_known := k\<rparr>\<lparr>ur_deletions := l\<rparr> = s\<lparr>ur_deletions := l, ur_known := k\<rparr>"
  by (cases s; simp)+

lemma uninterrupted_task:
  assumes reach: "run_reachable bk chat store ps s0 s" and i: "i < length (ur_tasks s)" "ur_tasks s ! i = Waiting"
    and ps: "ps ! i = (sp, c)" and quiet: "snd (store sp c) = []"
    and one: "upload_one env chat (\<lambda>sp c. fst (store sp c)) t sp c (ur_server s, cg_state (ur_guard s)) = (r, srv, reg, out)"
  shows "\<exists>log known. run_reachable bk chat store ps s0 (s\<lparr>ur_tasks := (ur_tasks s)[i := Finished r], ur_server := srv,
    ur_guard := (ur_guard s)\<lparr>cg_state := reg\<rparr>, ur_cleaned := ur_cleaned s @ out, ur_deletions := log, ur_known := known\<rparr>)"
proof -
  let ?s1 = "s\<lparr>ur_tasks := (ur_tasks s)[i := Sending]\<rparr>"
  have 1: "run_reachable bk chat store ps s0 ?s1" by (rule run_next [OF reach task_permit [OF i]])
  show ?thesis
  proof (cases "fst (store sp c)")
    case (Inl e)
    with quiet have st: "store sp c = (Inl e, [])" by (cases "store sp c") simp
    let ?s2 = "?s1\<lparr>ur_tasks := (ur_tasks ?s1)[i := Rejecting [] e]\<rparr>"
    have 2: "run_reachable bk chat store ps s0 ?s2"
      using run_next [OF 1 task_failed [where i = i and sp = sp and c = c and e = e and ms = "[]"]] i ps st by simp
    from run_next [OF 2 task_rejected [of i]] i
    have "run_reachable bk chat store ps s0 (s\<lparr>ur_tasks := (ur_tasks s)[i := Finished (Inl e)]\<rparr>)" by simp
    with Inl one show ?thesis
      by (intro exI [of _ "ur_deletions s"] exI [of _ "ur_known s"]) (auto simp: upload_one_def)
  next
    case (Inr doc)
    with quiet have st: "store sp c = (Inr doc, [])" by (cases "store sp c") simp
    let ?s2 = "?s1\<lparr>ur_tasks := (ur_tasks ?s1)[i := after_send sp doc], ur_known := sent_message doc # ur_known ?s1\<rparr>"
    have "run_step bk chat store ps ?s1 ?s2"
      by (rule task_sent [where i = i and sp = sp and c = c and ms = "[]"]) (use i ps st in simp_all)
    from run_next [OF 1 this] have 2: "run_reachable bk chat store ps s0 ?s2" .
    have refuse: "\<exists>log. run_reachable bk chat store ps s0 (x\<lparr>ur_tasks := (ur_tasks x)[i := Finished (Inl e)],
        ur_server := snd (request_delete env (sd_backend doc) (sd_message_id doc) (ur_server x)), ur_deletions := log\<rparr>)"
      if "run_reachable bk chat store ps s0 x" "i < length (ur_tasks x)" "ur_tasks x ! i = Refusing (message_guard_new doc) e" for x e
      using run_next [OF that(1) task_refused [OF that(2,3), of env]]
      by (cases "request_delete env (sd_backend doc) (sd_message_id doc) (ur_server x)")
        (auto simp: message_guard_cleanup_def message_guard_drop_def message_guard_new_def)
    show ?thesis
    proof (cases "sd_file_size doc \<noteq> 0 \<and> sd_file_size doc \<noteq> spec_size sp")
      case True
      with refuse [OF 2] i obtain log where "run_reachable bk chat store ps s0 (?s2\<lparr>ur_tasks := (ur_tasks ?s2)[i := Finished (Inl (stored_size_error (sd_file_size doc) (spec_size sp)))],
        ur_server := snd (request_delete env (sd_backend doc) (sd_message_id doc) (ur_server ?s2)), ur_deletions := log\<rparr>)"
        by (auto simp: after_send_def Let_def)
      with True Inr one show ?thesis
        by (intro exI [of _ log] exI [of _ "sent_message doc # ur_known s"]) (auto simp: upload_one_def run_swap)
    next
      case False
      then have ph: "ur_tasks ?s2 ! i = Staging (message_guard_new doc) doc"
        using i by (auto simp: after_send_def Let_def)
      obtain q d where q: "add_staged_block t (to_block_ref chat (block_of sp doc)) (srv_db (ur_server ?s2)) = (q, d)"
        by (cases "add_staged_block t (to_block_ref chat (block_of sp doc)) (srv_db (ur_server ?s2))") auto
      show ?thesis
      proof (cases q)
        case (Inl e)
        let ?s3 = "?s2\<lparr>ur_tasks := (ur_tasks ?s2)[i := Refusing (message_guard_new doc) e],
          ur_server := (ur_server ?s2)\<lparr>srv_db := d\<rparr>\<rparr>"
        have "run_reachable bk chat store ps s0 ?s3"
          by (rule run_next [OF 2 task_unstaged [OF _ ph ps q [unfolded Inl]]]) (use i in simp)
        from refuse [OF this, of e] i obtain log where
          "run_reachable bk chat store ps s0 (?s3\<lparr>ur_tasks := (ur_tasks ?s3)[i := Finished (Inl e)],
            ur_server := snd (request_delete env (sd_backend doc) (sd_message_id doc) (ur_server ?s3)), ur_deletions := log\<rparr>)" by auto
        with False Inl q \<open>fst (store sp c) = Inr doc\<close> one show ?thesis
          by (intro exI [of _ log] exI [of _ "sent_message doc # ur_known s"])
            (auto simp: upload_one_def block_of_def Let_def run_swap)
      next
        case (Inr b)
        obtain reg' out' where g: "register (to_block_ref chat ((block_of sp doc)\<lparr>ub_id := b\<rparr>)) (cg_state (ur_guard ?s2)) = (reg', out')"
          by (cases "register (to_block_ref chat ((block_of sp doc)\<lparr>ub_id := b\<rparr>)) (cg_state (ur_guard ?s2))") auto
        from run_next [OF 2 task_staged [OF _ ph ps q [unfolded Inr] g]] i False Inr q g \<open>fst (store sp c) = Inr doc\<close> one show ?thesis
          by (intro exI [of _ "ur_deletions s"] exI [of _ "sent_message doc # ur_known s"])
            (auto simp: upload_one_def block_of_def Let_def message_guard_disarm_def message_guard_drop_def run_swap)
      qed
    qed
  qed
qed

end
