(* ===== verification/Cleanup_Runs.thy ===== *)
theory Cleanup_Runs
  imports Cleanup
begin

text \<open>
  \<open>cleanup_block_refs\<close> (\<open>src/transfer/cleanup.rs\<close>) as a task of the concurrent system: one step for
  each access to the database or to Telegram, the rest of the server running between any two of
  them, and a state after each, where the task may be interrupted for good. \<open>Cleanup\<close> has the same
  code as one function; the run nobody interrupts computes it.
\<close>

section \<open>The task\<close>

text \<open>
  Where the task waits: before the next reference; for Telegram to delete a message, with or
  without a claim; for the row of a deleted message to be removed; for the row of a message that had
  none to be written, and to be claimed.
\<close>

datatype cleanup_at =
    Between "block_ref list"
  | Requesting block_ref bool "block_ref list"
  | Forgetting block_ref "block_ref list"
  | Recording block_ref "block_ref list"
  | Queueing int "block_ref list"

definition after_request :: "block_ref \<Rightarrow> bool \<Rightarrow> error + unit \<Rightarrow> block_ref list \<Rightarrow> cleanup_at" where
  "after_request b claimed r bs =
     (case r of
        Inr _ \<Rightarrow> if claimed then Forgetting b bs else Between bs
      | Inl e \<Rightarrow>
          if 0 < blk_id b \<and> is_missing_message e then (if claimed then Forgetting b bs else Between bs)
          else if blk_id b = 0 then Recording b bs
          else Between bs)"

definition claim :: "block_ref \<Rightarrow> int \<times> int" where
  "claim b = (blk_id b, blk_message_id b)"

text \<open>
  Telegram's answer (\<open>tg\<close>) is a new one each time. A message counts as deleted from the request on.
  \<open>fails\<close> says whether the query that claims a block may fail; that of the others is always possible.
\<close>

inductive cleanup_own :: "bool \<Rightarrow> cleanup_at \<times> gc_sys \<Rightarrow> cleanup_at \<times> gc_sys \<Rightarrow> bool" for fails where
  own_claimed: "0 < blk_id b \<Longrightarrow> queue_stale_block t (blk_id b) (sys_db s) = (True, d)
    \<Longrightarrow> cleanup_own fails (Between (b # bs), s)
          (Requesting b True bs, s\<lparr>sys_db := d, sys_claims := claim b # sys_claims s\<rparr>)"
| own_left: "0 < blk_id b \<Longrightarrow> queue_stale_block t (blk_id b) (sys_db s) = (False, d)
    \<Longrightarrow> cleanup_own fails (Between (b # bs), s) (Between bs, s\<lparr>sys_db := d\<rparr>)"
| own_unclaimed: "fails \<Longrightarrow> 0 < blk_id b \<Longrightarrow> cleanup_own fails (Between (b # bs), s) (Requesting b False bs, s)"
| own_rowless: "blk_id b \<le> 0 \<Longrightarrow> cleanup_own fails (Between (b # bs), s) (Requesting b False bs, s)"
| own_request: "delete_message_by_id (te_client (tg :: tg_env)) (te_post tg) (te_rpc tg) (blk_backend b) (blk_message_id b) = r
    \<Longrightarrow> cleanup_own fails (Requesting b claimed bs, s)
          (after_request b claimed r bs, s\<lparr>sys_deleted := insert (blk_message_id b) (sys_deleted s),
             sys_claims := (if claimed then remove1 (claim b) (sys_claims s) else sys_claims s)\<rparr>)"
| own_forget: "cleanup_own fails (Forgetting b bs, s) (Between bs, s\<lparr>sys_db := gc_success (blk_id b) (sys_db s)\<rparr>)"
| own_not_forgotten: "cleanup_own fails (Forgetting b bs, s) (Between bs, s)"
| own_recorded: "add_staged_block t b (sys_db s) = (Inr i, d)
    \<Longrightarrow> cleanup_own fails (Recording b bs, s) (Queueing i bs, s\<lparr>sys_db := d\<rparr>)"
| own_unrecorded: "add_staged_block t b (sys_db s) = (Inl e, d)
    \<Longrightarrow> cleanup_own fails (Recording b bs, s) (Between bs, s\<lparr>sys_db := d\<rparr>)"
| own_queue: "cleanup_own fails (Queueing i bs, s) (Between bs, s\<lparr>sys_db := snd (queue_stale_block t i (sys_db s))\<rparr>)"
| own_not_queued: "cleanup_own fails (Queueing i bs, s) (Between bs, s)"


section \<open>Runs\<close>

primrec pending :: "cleanup_at \<Rightarrow> block_ref list" where
  "pending (Between bs) = bs"
| "pending (Requesting b q bs) = b # bs"
| "pending (Forgetting b bs) = b # bs"
| "pending (Recording b bs) = b # bs"
| "pending (Queueing i bs) = bs"

text \<open>
  What the rest of the server must not do: forget the claim of this task for it, and stage a new
  block on a message the task is about to clean up, which Telegram's rule of new ids excludes.
\<close>

definition leaves_task :: "cleanup_at \<Rightarrow> gc_sys \<Rightarrow> gc_sys \<Rightarrow> bool" where
  "leaves_task at s s' \<longleftrightarrow>
     (\<forall>b bs. at = Requesting b True bs \<longrightarrow> claim b \<in> set (sys_claims s'))
     \<and> (\<forall>b \<in> set (pending at). blk_message_id b \<in> row_messages (sys_db s') \<longrightarrow> blk_message_id b \<in> row_messages (sys_db s))"

inductive cleanup_run_from ::
  "bool \<Rightarrow> block_ref list \<Rightarrow> gc_sys \<Rightarrow> cleanup_at \<times> gc_sys \<Rightarrow> bool"
  for fails bs s0 where
  cleanup_start: "cleanup_run_from fails bs s0 (Between bs, s0)"
| cleanup_task: "cleanup_run_from fails bs s0 x \<Longrightarrow> cleanup_own fails x y \<Longrightarrow> cleanup_run_from fails bs s0 y"
| cleanup_other: "cleanup_run_from fails bs s0 (at, s) \<Longrightarrow> sys_step s s' \<Longrightarrow> leaves_task at s s'
    \<Longrightarrow> cleanup_run_from fails bs s0 (at, s')"

section \<open>Its states are states of the system\<close>

lemma tracked_shrinks:
  assumes "tracked d b" and "messages_ok d"
    and "\<And>c. (c, blk_message_id b) \<in> set (pairs d') \<Longrightarrow> (c, blk_message_id b) \<in> set (pairs d)"
  shows "tracked d' b"
proof (cases "blk_message_id b \<in> row_messages d'")
  case True
  then obtain c where c: "(c, blk_message_id b) \<in> set (pairs d')" by (auto simp: row_messages_def)
  then have c': "(c, blk_message_id b) \<in> set (pairs d)" by (rule assms(3))
  then have "blk_message_id b \<in> row_messages d" by (force simp: row_messages_def)
  with assms(1) have "(blk_id b, blk_message_id b) \<in> set (pairs d)" by (simp add: tracked_def)
  with c' assms(2) have "c = blk_id b" by (auto simp: messages_ok_def)
  with c assms(1) show ?thesis by (simp add: tracked_def)
next
  case False
  with assms(1) show ?thesis by (simp add: tracked_def)
qed

lemma sys_step_tracked:
  assumes step: "sys_step s s'" and ok: "sys_ok s" "messages_ok (sys_db s)" and t: "tracked (sys_db s) b"
    and new: "blk_message_id b \<in> row_messages (sys_db s') \<longrightarrow> blk_message_id b \<in> row_messages (sys_db s)"
  shows "tracked (sys_db s') b"
proof (rule tracked_shrinks [OF t ok(2)])
  fix c assume c: "(c, blk_message_id b) \<in> set (pairs (sys_db s'))"
  have d: "db_ok (sys_db s)" using ok(1) by (simp add: sys_ok_def)
  from step show "(c, blk_message_id b) \<in> set (pairs (sys_db s))"
  proof cases
    case (step_call d')
    from db_call_method [OF step_call(2)] obtain op guard
      where "db_method op guard" "guard (sys_db s)" "d' = op (sys_db s)" by blast
    with d have "keeps (sys_db s) d'" using db_method.keeps_claims by blast
    with c step_call(1) show ?thesis by (auto simp: keeps_def)
  next
    case (step_stage b' t')
    have "blk_message_id b \<in> row_messages (sys_db s')" using c by (force simp: row_messages_def)
    with new step_stage(2) have "blk_message_id b' \<noteq> blk_message_id b" by (auto simp: used_messages_def)
    with c step_stage(1) add_staged_block_pairs(1) [OF d, of t' b'] show ?thesis by auto
  next
    case (step_claim_stale t' b' d' m)
    with c queue_stale_block_True(3) [OF step_claim_stale(2)] show ?thesis by simp
  qed (use c in simp_all)
qed

definition cleanup_ok :: "cleanup_at \<times> gc_sys \<Rightarrow> bool" where
  "cleanup_ok = (\<lambda>(at, s). sys_reachable s \<and> (\<forall>b \<in> set (pending at). tracked (sys_db s) b)
     \<and> (case at of Requesting b q bs \<Rightarrow> q \<and> claim b \<in> set (sys_claims s) | Recording _ _ \<Rightarrow> False | Queueing _ _ \<Rightarrow> False | _ \<Rightarrow> True))"

lemma own_step_ok:
  assumes "cleanup_own False x y" and "cleanup_ok x"
  shows "cleanup_ok y"
  using assms(1)
proof (cases rule: cleanup_own.cases)
  case (own_claimed b t s d bs)
  note q = queue_stale_block_True [OF own_claimed(4)]
  have t: "\<forall>x \<in> set (b # bs). tracked (sys_db s) x" and r: "sys_reachable s" using assms(2) own_claimed(1) by (simp_all add: cleanup_ok_def)
  have "sys_reachable (s\<lparr>sys_db := d, sys_claims := claim b # sys_claims s\<rparr>)"
    unfolding claim_def using t own_claimed(3)
    by (intro reach_step [OF r step_claim_stale [OF own_claimed(4)]]) (simp add: tracked_def)
  moreover have "\<forall>x \<in> set (b # bs). tracked d x" using t by (simp add: tracked_def row_messages_def q(3))
  ultimately show ?thesis using own_claimed(2) by (simp add: cleanup_ok_def)
next
  case (own_left b t s d bs)
  have d: "d = snd (queue_stale_block t (blk_id b) (sys_db s))" using own_left(4) by simp
  have r: "sys_reachable s" and t: "\<forall>x \<in> set bs. tracked (sys_db s) x"
    using assms(2) own_left(1) by (simp_all add: cleanup_ok_def)
  have step: "sys_step s (s\<lparr>sys_db := d\<rparr>)" unfolding d by (intro step_call call_queue_stale_block)
  have "set (pairs d) \<subseteq> set (pairs (sys_db s))" unfolding d using keeps_queue_stale_block by (simp add: keeps_def)
  then have "\<forall>x \<in> set bs. tracked d x" using t sys_reachable_ok [OF r] by (blast intro: tracked_keeps)
  with reach_step [OF r step] own_left(2) show ?thesis by (simp add: cleanup_ok_def)
next
  case (own_rowless b bs s)
  then show ?thesis using assms(2) by (simp add: cleanup_ok_def tracked_def)
next
  case (own_request tg b r q bs s)
  have "sys_reachable s" and c: "claim b \<in> set (sys_claims s)" "q" and t: "\<forall>x \<in> set (b # bs). tracked (sys_db s) x"
    using assms(2) own_request(1) by (simp_all add: cleanup_ok_def)
  then have 1: "sys_reachable (s\<lparr>sys_deleted := insert (blk_message_id b) (sys_deleted s)\<rparr>)"
    using reach_step [OF _ step_delete [of "blk_id b" "blk_message_id b" s]] by (simp add: claim_def)
  from reach_step [OF 1 step_drop [of _ "claim b"]]
  have "sys_reachable (s\<lparr>sys_deleted := insert (blk_message_id b) (sys_deleted s), sys_claims := remove1 (claim b) (sys_claims s)\<rparr>)"
    by simp
  moreover have "blk_id b \<noteq> 0" using t by (simp add: tracked_def)
  ultimately show ?thesis
    using own_request(2) c(2) t by (auto simp: cleanup_ok_def after_request_def split: sum.splits)
next
  case (own_forget b bs s)
  have r: "sys_reachable s" and t: "\<forall>x \<in> set bs. tracked (sys_db s) x"
    using assms(2) own_forget(1) by (simp_all add: cleanup_ok_def)
  have step: "sys_step s (s\<lparr>sys_db := gc_success (blk_id b) (sys_db s)\<rparr>)" by (intro step_call call_gc_success)
  have "set (pairs (gc_success (blk_id b) (sys_db s))) \<subseteq> set (pairs (sys_db s))"
    using keeps_gc_success sys_reachable_ok [OF r] by (auto simp: keeps_def sys_ok_def)
  then have "\<forall>x \<in> set bs. tracked (gc_success (blk_id b) (sys_db s)) x"
    using t sys_reachable_ok [OF r] by (blast intro: tracked_keeps)
  with reach_step [OF r step] own_forget(2) show ?thesis by (simp add: cleanup_ok_def)
qed (use assms(2) in \<open>auto simp: cleanup_ok_def\<close>)

lemma other_step_ok:
  assumes "cleanup_ok (at, s)" and "sys_step s s'" and "leaves_task at s s'"
  shows "cleanup_ok (at, s')"
proof -
  have r: "sys_reachable s" using assms(1) by (simp add: cleanup_ok_def)
  from sys_reachable_ok [OF r] have ok: "sys_ok s" "messages_ok (sys_db s)" by simp_all
  have "tracked (sys_db s') b" if "b \<in> set (pending at)" for b
    using sys_step_tracked [OF assms(2) ok, of b] assms(1,3) that by (simp add: cleanup_ok_def leaves_task_def)
  with reach_step [OF r assms(2)] assms(1,3) show ?thesis
    by (cases at) (simp_all add: cleanup_ok_def leaves_task_def)
qed

lemma cleanup_run_ok:
  assumes "cleanup_run_from False bs s0 x" and "sys_reachable s0" and "\<forall>b \<in> set bs. tracked (sys_db s0) b"
  shows "cleanup_ok x"
  using assms(1)
proof (induction rule: cleanup_run_from.induct)
  case cleanup_start
  then show ?case using assms(2,3) by (simp add: cleanup_ok_def)
next
  case (cleanup_task x y)
  then show ?case using own_step_ok by blast
next
  case (cleanup_other at s s')
  then show ?case using other_step_ok by blast
qed

section \<open>The run nobody interrupts\<close>

inductive own_runs :: "bool \<Rightarrow> cleanup_at \<times> gc_sys \<Rightarrow> cleanup_at \<times> gc_sys \<Rightarrow> bool" for fails where
  own_refl: "own_runs fails x x"
| own_step: "own_runs fails x y \<Longrightarrow> cleanup_own fails y z \<Longrightarrow> own_runs fails x z"

lemma own_once: "cleanup_own fails x y \<Longrightarrow> own_runs fails x y"
  by (rule own_step [OF own_refl])

lemma own_trans:
  assumes "own_runs fails y z" and "own_runs fails x y"
  shows "own_runs fails x z"
  using assms by (induction rule: own_runs.induct) (auto intro: own_step)

lemma own_runs_from: "own_runs fails (Between bs, s) x \<Longrightarrow> cleanup_run_from fails bs s x"
proof (induction "(Between bs, s)" x rule: own_runs.induct)
  case own_refl
  then show ?case by (rule cleanup_start)
next
  case (own_step y z)
  then show ?case by (blast intro: cleanup_task)
qed

text \<open>The three ends of the deletion, once its answer is there.\<close>

lemma own_after_request:
  assumes "request_delete env (blk_backend b) (blk_message_id b) s = (r, s')"
    and "c = (if claimed then [claim b] else [])"
  shows "own_runs fails (Requesting b claimed bs, sys_of s (c @ cl)) (after_request b claimed r bs, sys_of s' cl)"
proof -
  have "delete_message_by_id (te_client env) (te_post env) (te_rpc env) (blk_backend b) (blk_message_id b) = r"
    and "s' = s\<lparr>srv_deleted := srv_deleted s @ [blk_message_id b]\<rparr>" using assms(1) by (auto simp: request_delete_def)
  then show ?thesis
    using own_once [OF own_request [of env b r fails claimed bs "sys_of s (c @ cl)"]] assms(2)
    by (cases claimed) (simp_all add: sys_of_def)
qed

lemma own_block:
  assumes "blk_id b \<noteq> 0"
  shows "own_runs fails (Between (b # bs), sys_of s cl) (Between bs, sys_of (cleanup_untracked_block env t b s) cl)"
proof -
  have forget: "own_runs fails (Forgetting b bs, sys_of s' cl) (Between bs, sys_of (s'\<lparr>srv_db := gc_success (blk_id b) (srv_db s')\<rparr>) cl)" for s'
    using own_once [OF own_forget [of fails b bs "sys_of s' cl"]] by (simp add: sys_of_def)
  show ?thesis
  proof (cases "0 < blk_id b")
    case pos: True
    obtain c d where q: "queue_stale_block t (blk_id b) (srv_db s) = (c, d)" by (cases "queue_stale_block t (blk_id b) (srv_db s)")
    show ?thesis
    proof (cases c)
      case False
      with own_once [OF own_left [of b t "sys_of s cl" d fails bs]] q pos show ?thesis
        by (simp add: sys_of_def cleanup_untracked_block_def)
    next
      case True
      let ?s1 = "s\<lparr>srv_db := d\<rparr>"
      obtain r s2 where req: "request_delete env (blk_backend b) (blk_message_id b) ?s1 = (r, s2)"
        by (cases "request_delete env (blk_backend b) (blk_message_id b) ?s1")
      have 1: "own_runs fails (Between (b # bs), sys_of s cl) (Requesting b True bs, sys_of ?s1 (claim b # cl))"
        using own_once [OF own_claimed [of b t "sys_of s cl" d fails bs]] q True pos by (simp add: sys_of_def)
      have 2: "own_runs fails (Requesting b True bs, sys_of ?s1 (claim b # cl)) (after_request b True r bs, sys_of s2 cl)"
        using own_after_request [OF req, of "[claim b]" True fails bs cl] by simp
      have 3: "own_runs fails (after_request b True r bs, sys_of s2 cl) (Between bs, sys_of (cleanup_untracked_block env t b s) cl)"
        using q True pos req forget [of s2] own_refl
        by (auto simp: after_request_def cleanup_untracked_block_def split: sum.split)
      from own_trans [OF 3 own_trans [OF 2 1]] show ?thesis .
    qed
  next
    case neg: False
    obtain r s2 where req: "request_delete env (blk_backend b) (blk_message_id b) s = (r, s2)"
      by (cases "request_delete env (blk_backend b) (blk_message_id b) s")
    have 1: "own_runs fails (Between (b # bs), sys_of s cl) (Requesting b False bs, sys_of s cl)"
      using own_once [OF own_rowless [of b fails bs "sys_of s cl"]] neg by simp
    have 2: "own_runs fails (Requesting b False bs, sys_of s cl) (after_request b False r bs, sys_of s2 cl)"
      using own_after_request [OF req, of "[]" False fails bs cl] by simp
    have "after_request b False r bs = Between bs" "cleanup_untracked_block env t b s = s2"
      using neg assms req by (auto simp: after_request_def cleanup_untracked_block_def split: sum.split)
    with own_trans [OF 2 1] show ?thesis by simp
  qed
qed

lemma own_cleanup:
  "\<forall>b \<in> set bs. blk_id b \<noteq> 0
     \<Longrightarrow> own_runs fails (Between bs, sys_of s cl) (Between [], sys_of (cleanup_block_refs env t bs s) cl)"
proof (induction bs arbitrary: s)
  case Nil
  then show ?case by (simp add: cleanup_block_refs_def own_refl)
next
  case (Cons b bs)
  from Cons.prems have "own_runs fails (Between bs, sys_of (cleanup_untracked_block env t b s) cl)
    (Between [], sys_of (cleanup_block_refs env t bs (cleanup_untracked_block env t b s)) cl)" by (intro Cons.IH) simp
  from own_trans [OF this own_block] Cons.prems show ?case by (simp add: cleanup_block_refs_def)
qed

end
