(* ===== verification/Spec_Gc.thy ===== *)
theory Spec_Gc
  imports Engine_Gc_Props Upload_Tasks Cleanup_Runs Spec_Db Examples_Transfer
begin

text \<open>
  The properties of retries, of the registry of staged blocks and of
  the collector.
\<close>

section \<open>Retries\<close>

text \<open>
  C39: a Bot API request is attempted at most five times. A result is that of one of the
  attempts, all before it failed with an error Telegram lets us retry; the error that is
  reported is never the raw transport error, whose text can hold the bot token.
\<close>

theorem retry_bounded:
  shows "length (snd (retry method i op)) \<le> 4
    \<and> (\<forall>v. fst (retry method i op) = Inr v \<longrightarrow>
        (\<exists>n < 5. op n = Inr v \<and> (\<forall>m < n. \<exists>e. op m = Inl e \<and> fst (retry_policy e i))))
    \<and> (\<forall>m. fst (retry method i op) \<noteq> Inl (Transport m))"
proof -
  have "length (snd (retry method i op)) < max 1 5" unfolding retry_def by (rule retry_loop_waits)
  moreover have "\<exists>n < 5. op n = Inr v \<and> (\<forall>m < n. \<exists>e. op m = Inl e \<and> fst (retry_policy e i))"
    if "fst (retry method i op) = Inr v" for v
    using retry_loop_Inr [OF that [unfolded retry_def]] by simp
  moreover have "fst (retry method i op) \<noteq> Inl (Transport m)" for m
    unfolding retry_def using retry_loop_masked by metis
  ultimately show ?thesis by auto
qed

definition ex_attempts :: "nat \<Rightarrow> error + nat" where
  "ex_attempts n = (if n < 2 then Inl (Transport [1]) else Inr n)"

theorem retry_bounded_witness:
  "fst (retry (lit ''getFile'') True ex_attempts) = Inr 2 \<and> (\<exists>n < 5. ex_attempts n = Inr 2)"
proof -
  have five: "(5 :: nat) = Suc (Suc (Suc (Suc (Suc 0))))" by simp
  have r: "fst (retry (lit ''getFile'') True ex_attempts) = Inr 2"
    unfolding retry_def five by (simp add: retry_policy_def Let_def ex_attempts_def)
  moreover have "\<exists>n < 5. ex_attempts n = Inr 2 \<and> (\<forall>m < n. \<exists>e. ex_attempts m = Inl e \<and> fst (retry_policy e True))"
    using retry_bounded [THEN conjunct2, THEN conjunct1, THEN spec, THEN mp, OF r] .
  ultimately show ?thesis by blast
qed

section \<open>The registry of staged blocks\<close>

text \<open>
  No staged block of a failed or cancelled upload is forgotten: whatever order the tasks'
  registrations, the cleanup, its own cancellation and the drop of the guard come in, every
  registered block is handed to cleanup, also those registered after it.
\<close>

theorem cleanup_complete:
  assumes "Disarmed \<notin> set es" and "Cleaned \<in> set es \<or> Dropped \<in> set es"
  shows "set (registered es) \<subseteq> set (snd (cleanup_run es cleanup_new))"
  using cleanup_run_owed [OF assms(1), of cleanup_new] assms(2)
  by (auto simp: cleanup_new_def)

theorem cleanup_complete_witness:
  "{ex_block, ex_block\<lparr>blk_id := 2\<rparr>} \<subseteq> set (snd (cleanup_run
     [Registered ex_block, Interrupted 0, Registered (ex_block\<lparr>blk_id := 2\<rparr>), Dropped] cleanup_new))"
  using cleanup_complete [of "[Registered ex_block, Interrupted 0, Registered (ex_block\<lparr>blk_id := 2\<rparr>), Dropped]"]
  by simp

text \<open>
  C35: No message of an upload is forgotten, but for two ways that are named. Whatever order the
  tasks of an upload run in, wherever they are aborted (also while their row is being written),
  whatever Telegram answers to each deletion, and whenever the upload cleans up, is itself cancelled
  while it does, succeeds or is dropped: once no task holds a message any more, each message Telegram
  reported, refused ones included, has been deleted with Telegram's consent, or its deletion is
  spawned and still to be made, or its block is handed to cleanup or, by an upload that succeeded, to
  the caller. The two ways: Telegram answered its deletion with an error, which the code only logs; or
  \<open>upload_stream\<close> refused the message itself and its task was aborted before it had deleted it.
\<close>

theorem no_message_forgotten:
  assumes "run_reachable bk chat store ps s0 s" and "\<not> cg_armed (ur_guard s)"
    and "\<forall>ph \<in> set (ur_tasks s). held_by ph = []" and "m \<in> set (ur_known s)"
  shows "(m, Inr ()) \<in> set (ur_deletions s)
    \<or> m \<in> set (ur_spawned s)
    \<or> (\<exists>b \<in> set (ur_cleaned s) \<union> set (ur_released s). (blk_backend b, blk_message_id b) = m)
    \<or> (\<exists>e. (m, Inl e) \<in> set (ur_deletions s))
    \<or> (\<exists>i < length (ur_tasks s). ur_tasks s ! i = Aborted \<and> m \<in> rejects bk store (ps ! i))"
proof -
  have "(m, Inr ()) \<in> set (ur_deletions s) \<or> (\<exists>e. (m, Inl e) \<in> set (ur_deletions s))"
    if "m \<in> fst ` set (ur_deletions s)"
  proof -
    from that obtain answer where "(m, answer) \<in> set (ur_deletions s)" by auto
    then show ?thesis by (cases answer) auto
  qed
  moreover from all_settled [OF assms] consider "m \<in> fst ` set (ur_deletions s)" | "m \<in> set (ur_spawned s)"
    | "m \<in> message_of ` (set (ur_cleaned s) \<union> set (ur_released s))" | "abandoned bk store ps s m"
    unfolding settled_def by blast
  ultimately show ?thesis by cases (auto simp: abandoned_def message_of_def)
qed

text \<open>A task that is aborted while its row is written, and the upload dropped.\<close>

definition ex_doc :: stored_document where
  "ex_doc = \<lparr>sd_backend = BotApi, sd_message_id = 40, sd_document_id = None, sd_file_id = [], sd_file_unique_id = [],
     sd_file_size = 0, sd_message_date = 5\<rparr>"

definition ex_spec :: block_spec where
  "ex_spec = \<lparr>spec_upload_id = [117], spec_part_number = 1, spec_ordinal = 0, spec_offset = 0, spec_size = 1\<rparr>"

definition ex_run :: upload_run where
  "ex_run = (run_start (ex_server ex_db2) 1)\<lparr>ur_tasks := [Aborted], ur_known := [(BotApi, 40)], ur_spawned := [(BotApi, 40)],
     ur_guard := \<lparr>cg_state = \<lparr>cl_closed = True, cl_references = []\<rparr>, cg_armed = False\<rparr>\<rparr>"

abbreviation ex_sends :: "block_spec \<Rightarrow> bytes \<Rightarrow> (error + stored_document) \<times> int list" where
  "ex_sends \<equiv> \<lambda>_ _. (Inr ex_doc, [])"

lemma ex_run_reachable: "run_reachable BotApi 7 ex_sends [(ex_spec, [5])] (ex_server ex_db2) ex_run"
proof -
  let ?s0 = "run_start (ex_server ex_db2) 1" and ?R = "run_reachable BotApi 7 ex_sends [(ex_spec, [5])] (ex_server ex_db2)"
  have 0: "?R ?s0" using run_init [of BotApi 7 ex_sends "[(ex_spec, [5])]" "ex_server ex_db2"] by simp
  have 1: "?R (?s0\<lparr>ur_tasks := [Sending]\<rparr>)"
    using run_next [OF 0 task_permit [of 0]] by (simp add: run_start_def)
  have 2: "?R (?s0\<lparr>ur_tasks := [Staging (message_guard_new ex_doc) ex_doc], ur_known := [(BotApi, 40)]\<rparr>)"
    using run_next [OF 1 task_sent [of 0 _ _ ex_spec "[5]" _ ex_doc]]
    by (simp add: run_start_def after_send_def ex_doc_def sent_message_def Let_def)
  have 3: "?R (?s0\<lparr>ur_tasks := [Aborted], ur_known := [(BotApi, 40)], ur_spawned := [(BotApi, 40)]\<rparr>)"
    using run_next [OF 2 task_aborted [of 0 _ "Staging (message_guard_new ex_doc) ex_doc" ex_db2]]
    by (simp add: run_start_def message_guard_new_def message_guard_drop_def ex_doc_def ex_server_def)
  show ?thesis
    using run_next [OF 3 guard_event [of Dropped]]
    by (simp add: run_start_def ex_run_def guard_drop_def close_and_take_def cleanup_new_def)
qed

theorem no_message_forgotten_witness: "(BotApi, 40) \<in> set (ur_spawned ex_run) \<or> ((BotApi, 40), Inr ()) \<in> set (ur_deletions ex_run)"
proof -
  have "\<not> cg_armed (ur_guard ex_run)" "\<forall>ph \<in> set (ur_tasks ex_run). held_by ph = []" "(BotApi, 40) \<in> set (ur_known ex_run)"
    by (simp_all add: ex_run_def)
  from no_message_forgotten [OF ex_run_reachable this] show ?thesis
    by (auto simp: ex_run_def run_start_def rejects_def)
qed

text \<open>
  A refused message whose deletion fails is gone from every list but the log: nothing deletes it
  later.
\<close>

lemma failed_deletion_forgotten:
  assumes "run_reachable bk chat store ps s0 s" and "i < length (ur_tasks s)" "ur_tasks s ! i = Refusing g e"
    and "mg_armed g" and "fst (request_delete env (mg_backend g) (mg_message_id g) (ur_server s)) = Inl e'"
  shows "\<exists>s'. run_reachable bk chat store ps s0 s' \<and> ur_tasks s' = (ur_tasks s)[i := Finished (Inl e)]
    \<and> ur_deletions s' = (guarded g, Inl e') # ur_deletions s \<and> ur_spawned s' = ur_spawned s
    \<and> srv_db (ur_server s') = srv_db (ur_server s) \<and> ur_cleaned s' = ur_cleaned s"
proof -
  obtain a g' t where c: "message_guard_cleanup env g (ur_server s) = (a, g', t)"
    by (cases "message_guard_cleanup env g (ur_server s)")
  with assms(5) have "a = Inl e'" "\<not> mg_armed g'" "srv_db t = srv_db (ur_server s)"
    by (auto simp: message_guard_cleanup_def request_delete_def)
  with run_next [OF assms(1) task_refused [OF assms(2,3) c]] show ?thesis
    by (intro exI conjI) (assumption, simp_all add: message_guard_drop_def)
qed

text \<open>
  Once the upload has succeeded (\<open>disarm\<close>), its blocks are not cleaned up when the guard is
  dropped; a block registered after that, by a task nobody waits for, still is.
\<close>

theorem cleanup_disarmed:
  shows "snd (cleanup_run (map Registered bs @ Disarmed # map Registered cs @ [Dropped]) cleanup_new) = cs"
proof -
  let ?g = "guard_disarm (cleanup_new\<lparr>cg_state := (cg_state cleanup_new)\<lparr>cl_references := bs\<rparr>\<rparr>)"
  have c: "cl_closed (cg_state ?g)" "\<not> cg_armed ?g" by (simp_all add: cleanup_defs)
  have "cleanup_run (map Registered bs @ Disarmed # map Registered cs @ [Dropped]) cleanup_new
      = cleanup_run (map Registered cs @ [Dropped]) ?g"
    using registering_open [of cleanup_new bs] by (simp add: cleanup_run_append cleanup_new_def split: prod.splits)
  then show ?thesis
    using registering_closed [OF c(1), of cs] c by (simp add: cleanup_run_append guard_drop_def)
qed

text \<open>
  C34: Cleaning up the references of a failed upload is safe wherever it is interrupted and whatever
  runs beside it. Take each access of \<open>cleanup_block_refs\<close> to the database or to Telegram as a step,
  with any steps of the rest of the server between them: every state on the way is a state of the
  system of which \<open>messages_kept\<close> speaks, so no message an object or a part needs is deleted. It
  rests on four things. Each reference has the id its row was given, and its message is in that row
  or in none (\<open>tracked\<close>; the row may be gone, and its id may by now belong to another block). Nobody
  else drops the claim the task holds while it asks Telegram, and Telegram gives no message of a
  reference to another block (\<open>leaves_task\<close>). And the query that claims a block does not fail in the
  database: then the code deletes the message all the same (lemma \<open>unclaimed_deletion_unsafe\<close>). When
  nothing interrupts the task, its run ends in the state \<open>cleanup_block_refs\<close> computes.
\<close>

theorem cleanup_refines_system:
  assumes "sys_reachable (sys_of s claims)" and "\<forall>b \<in> set bs. tracked (srv_db s) b"
  shows "(\<forall>at s'. cleanup_run_from False bs (sys_of s claims) (at, s') \<longrightarrow> sys_reachable s')
    \<and> cleanup_run_from False bs (sys_of s claims) (Between [], sys_of (cleanup_block_refs env t bs s) claims)"
proof -
  have "\<forall>b \<in> set bs. tracked (sys_db (sys_of s claims)) b" using assms(2) by (simp add: sys_of_def)
  from cleanup_run_ok [OF _ assms(1) this]
  have "\<forall>at s'. cleanup_run_from False bs (sys_of s claims) (at, s') \<longrightarrow> sys_reachable s'" by (fastforce simp: cleanup_ok_def)
  moreover have "\<forall>b \<in> set bs. blk_id b \<noteq> 0" using assms(2) by (auto simp: tracked_def)
  ultimately show ?thesis by (simp add: own_runs_from own_cleanup)
qed

lemma ex_reachable: "sys_reachable (sys_of \<lparr>srv_db = ex_db3, srv_deleted = []\<rparr> [])"
proof -
  have 1: "sys_reachable \<lparr>sys_db = ex_db1, sys_deleted = {}, sys_claims = []\<rparr>"
    using reach_step [OF reach_init step_call [of sys_init, OF _]] call_create_bucket [of empty_db 0 ex_bucket]
    by (simp add: sys_init_def ex_step1)
  have 2: "sys_reachable \<lparr>sys_db = ex_db2, sys_deleted = {}, sys_claims = []\<rparr>"
    using reach_step [OF 1 step_call] call_create_upload [of ex_db1 ex_up] by (simp add: ex_step2)
  have "sys_reachable \<lparr>sys_db = ex_db3, sys_deleted = {}, sys_claims = []\<rparr>"
    using reach_step [OF 2 step_stage [of ex_block _ 2]]
    by (simp add: ex_step3 used_messages_def row_messages_def pairs_def)
      (simp add: ex_defs)
  then show ?thesis by (simp add: sys_of_def)
qed

theorem cleanup_refines_system_witness:
  "sys_reachable (sys_of (cleanup_block_refs ex_tenv 9 [ex_block] \<lparr>srv_db = ex_db3, srv_deleted = []\<rparr>) [])"
proof -
  have "\<forall>b \<in> set [ex_block]. tracked (srv_db \<lparr>srv_db = ex_db3, srv_deleted = []\<rparr>) b"
    by (simp add: tracked_def pairs_def) (simp add: ex_defs)
  from cleanup_refines_system [OF ex_reachable this] show ?thesis by blast
qed

text \<open>
  With a failing claim the cleanup can delete the message of an object: here that of \<open>ex_block\<close>, after
  the upload that holds it was completed.
\<close>

lemma unclaimed_deletion_unsafe:
  "\<exists>s. cleanup_run_from True [ex_block] ex_sys (Between [], s) \<and> get_object ex_bucket ex_key (sys_db s) = Inr (Some ex_object)
     \<and> ex_block \<in> set (obj_blocks ex_object) \<and> blk_message_id ex_block \<in> sys_deleted s"
proof -
  let ?s = "ex_sys\<lparr>sys_deleted := insert (blk_message_id ex_block) (sys_deleted ex_sys)\<rparr>"
  have b: "0 < blk_id ex_block" by (simp add: ex_defs)
  have r: "delete_message_by_id (te_client ex_tenv) (te_post ex_tenv) (te_rpc ex_tenv) (blk_backend ex_block) (blk_message_id ex_block) = Inr ()"
    by (simp add: ex_tenv_def delete_message_by_id_def bot_delete_message_def ex_block_def)
  have 1: "cleanup_run_from True [ex_block] ex_sys (Requesting ex_block False [], ex_sys)"
    by (rule cleanup_task [OF cleanup_start own_unclaimed]) (simp_all add: b)
  have "cleanup_run_from True [ex_block] ex_sys (Between [], ?s)"
    using cleanup_task [OF 1 own_request [OF r]] by (simp add: after_request_def)
  then show ?thesis using ex_get by (intro exI [of _ ?s]) (simp add: ex_sys_def ex_object_def)
qed

section \<open>Collection\<close>

text \<open>
  \<open>run_gc\<close>, from any reachable state and whatever Telegram answers, is a run of the system
  of which \<open>messages_kept\<close> speaks.
\<close>

lemma run_gc_refines_system:
  assumes "sys_reachable (sys_of s claims)"
  shows "sys_reachable (sys_of (snd (run_gc env timestamp t limit s)) claims)"
  using assms by (rule run_gc_refines_sys)

lemma run_gc_refines_system_at:
  "sys_reachable (sys_of (snd (run_gc ex_tenv 10000 10000 5 \<lparr>srv_db = ex_db3, srv_deleted = []\<rparr>)) [])"
  using ex_reachable by (rule run_gc_refines_system)

text \<open>
  So is \<open>reclaim_blocks_now\<close>, for any list of released blocks, also one that is out of date
  because other requests ran since the blocks were released.
\<close>

lemma reclaim_refines_system:
  assumes "sys_reachable (sys_of s claims)"
  shows "sys_reachable (sys_of (reclaim_blocks_now env timestamp bs s) claims)"
  using assms by (rule reclaim_blocks_now_refines)

lemma reclaim_refines_system_at:
  "sys_reachable (sys_of (reclaim_blocks_now ex_tenv 10 [ex_block] \<lparr>srv_db = ex_db3, srv_deleted = []\<rparr>) [])"
  using ex_reachable by (rule reclaim_refines_system)

text \<open>
  With a limit in range, \<open>run_gc\<close> returns a count, never an error, and the count is at most
  the limit.
\<close>

lemma run_gc_bounded:
  assumes "db_ok (srv_db s)" and "0 < limit" and "limit \<le> max_gc_limit"
  shows "\<exists>n. fst (run_gc env timestamp t limit s) = Inr n \<and> n \<le> limit"
  using assms by (rule run_gc_returns)

lemma run_gc_bounded_at:
  "\<exists>n. fst (run_gc ex_tenv 10000 10000 5 \<lparr>srv_db = ex_db6, srv_deleted = []\<rparr>) = Inr n \<and> n \<le> 5"
  by (rule run_gc_bounded) (simp_all add: ex_ok max_gc_limit_def)

text \<open>
  An orphan that was a staged block stays one: \<open>stale_blocks\<close> goes on returning it, and
  \<open>queue_stale_block\<close> goes on answering that it is claimed. Once there are as many of them as the limit
  of a pass, every pass ends before it looks at the candidates. Here the limit is one, block 2 is an
  orphan, and block 1, which is due, is never collected.
\<close>

definition starved_row :: block_row where
  "starved_row = (ex_row Staged 0)\<lparr>trow_id := 2, trow_message_id := 41\<rparr>"

definition starved_db :: db where
  "starved_db = ex_db6\<lparr>telegram_blocks := [ex_row Committed 0, starved_row],
     gc_queue := gc_queue ex_db6 @ [\<lparr>q_block_id = 2, q_attempts = 0, q_next_attempt = 2, q_last_error = Some [], q_state = Orphan\<rparr>]\<rparr>"

lemma starved_ok: "db_ok starved_db"
proof -
  let ?b = "ex_block\<lparr>blk_message_id := 41\<rparr>"
  let ?d = "ex_db6\<lparr>telegram_blocks := [ex_row Committed 0, (ex_row Staged 1)\<lparr>trow_id := 2, trow_message_id := 41\<rparr>]\<rparr>"
  have 1: "snd (add_staged_block 2 ?b ex_db6) = ?d"
    by (simp add: ex_defs add_staged_block_def insert_telegram_block_def transact_def next_rowid_def)
  have "gc_orphan 2 [] (snd (queue_stale_block 2 2 ?d)) = starved_db"
    by (simp add: starved_db_def starved_row_def ex_defs queue_stale_block_def gc_orphan_def unreferenced_def
        in_object_def in_part_def update_block_def enqueue_gc_def queued_def)
  with gc_orphan_m.preserves [OF db_ok_queue_stale_block [OF db_ok_add_staged_block [OF ex_ok(6)]], of 2 "[]" 2 2 2 ?b] 1
  show ?thesis by simp
qed

lemma orphans_starve_collection:
  assumes "3610 \<le> ts"
  shows "run_gc env ts t 1 \<lparr>srv_db = starved_db, srv_deleted = l\<rparr> = (Inr 1, \<lparr>srv_db = starved_db, srv_deleted = l\<rparr>)"
    and "returned_at ts starved_db (ex_row Committed 0)"
proof -
  have un: "unreferenced starved_db b" for b
    by (simp add: starved_db_def ex_defs unreferenced_def in_object_def in_part_def)
  have e: "expire_uploads t b starved_db = (Inr 0, starved_db)" for b
    by (simp add: expire_uploads_def starved_db_def ex_defs)
  obtain g where g: "stale_blocks (ts - 3600) 1 starved_db = Inr [g]" "gb_block_id g = 2"
  proof -
    have "filter (\<lambda>b. trow_state b = Staged \<and> trow_created_at b < ts - 3600 \<and> unreferenced starved_db (trow_id b))
        (telegram_blocks starved_db) = [starved_row]"
      using assms un by (simp add: starved_db_def) (simp add: starved_row_def ex_row_def)
    moreover have "trow_id starved_row = 2" "\<exists>g. garbage_from_row (\<lparr>q_block_id = 2, q_attempts = 0, q_next_attempt = 0,
        q_last_error = None, q_state = Pending\<rparr>, starved_row) = Inr g \<and> gb_block_id g = 2"
      by (simp_all add: starved_row_def garbage_from_row_def ex_row_def ex_backend [simplified])
    ultimately show thesis using that by (auto simp: stale_blocks_def i64_defs)
  qed
  have q: "queue_stale_block t 2 starved_db = (True, starved_db)"
    by (simp add: starved_db_def starved_row_def ex_defs queue_stale_block_def unreferenced_def
        in_object_def in_part_def update_block_def enqueue_gc_def queued_def)
  show "run_gc env ts t 1 \<lparr>srv_db = starved_db, srv_deleted = l\<rparr> = (Inr 1, \<lparr>srv_db = starved_db, srv_deleted = l\<rparr>)"
    using g(1) by (simp add: run_gc_def max_gc_limit_def e g(2) q)
  show "returned_at ts starved_db (ex_row Committed 0)"
    using queued_returned [OF starved_ok _ un, of "ex_row Committed 0" "\<lparr>q_block_id = 1, q_attempts = 0, q_next_attempt = 6,
       q_last_error = None, q_state = Pending\<rparr>" ts] assms
    by (simp add: starved_db_def ex_db6_def) (simp add: ex_row_def)
qed

text \<open>
  C36: a pass over the candidates of \<open>gc_candidates\<close> asks Telegram to delete exactly the messages
  of the candidates within the Bot API's 48 hour window, and removes the row of each whose
  message was deleted or is already gone, also when the batch call failed half way.
\<close>

theorem gc_pass_removes:
  assumes "db_ok (srv_db s)" and "gc_candidates now limit (srv_db s) = Inr gs"
    and "process_gc_candidates env now gs s = (n, s')"
  shows "db_ok (srv_db s') \<and> n = length gs
    \<and> set (srv_deleted s') = set (srv_deleted s)
        \<union> gb_message_id ` {g \<in> set gs. \<not> bot_api_delete_window_expired (gb_backend g) (gb_message_date g) now}
    \<and> (\<forall>g \<in> set gs. \<not> bot_api_delete_window_expired (gb_backend g) (gb_message_date g) now \<and> deletable env g
        \<longrightarrow> \<not> block_exists (srv_db s') (gb_block_id g))"
proof -
  have "\<forall>g \<in> set gs. due (srv_db s) g"
    using gc_candidates_claims [OF assms(2)] by (auto simp: due_def claim_of_def)
  from process_gc_candidates_removes [OF assms(1) this, of env now] assms(1,3)
    process_gc_candidates_count [of env now gs s]
  show ?thesis by (simp add: expired_candidate_def evolves_def)
qed

definition ex_garbage :: garbage_record where
  "ex_garbage = \<lparr>gb_block_id = 1, gb_chat_id = 7, gb_message_id = 40, gb_backend = BotApi, gb_document_id = None,
     gb_file_id = [102], gb_file_unique_id = [103], gb_message_date = 5, gb_attempts = 0,
     gb_next_attempt = 6, gb_last_error = None\<rparr>"

lemma ex_candidates: "gc_candidates 6 5 ex_db6 = Inr [ex_garbage]"
  by (simp add: gc_candidates_def gc_join_def join_blocks_def collectable_def unreferenced_def in_object_def
      in_part_def garbage_from_row_def ex_backend [simplified] ex_defs ex_garbage_def i64_defs)

theorem gc_pass_removes_witness:
  "\<not> block_exists (srv_db (snd (process_gc_candidates ex_tenv 6 [ex_garbage] \<lparr>srv_db = ex_db6, srv_deleted = []\<rparr>))) 1"
proof -
  have "deletable ex_tenv ex_garbage"
    by (simp add: deletable_def ex_garbage_def ex_tenv_def ex_tg_def delete_message_by_id_def bot_delete_message_def)
  moreover have "\<not> bot_api_delete_window_expired (gb_backend ex_garbage) (gb_message_date ex_garbage) 6" "gb_block_id ex_garbage = 1"
    by (simp_all add: bot_api_delete_window_expired_def ex_garbage_def)
  ultimately show ?thesis
    using gc_pass_removes [of "\<lparr>srv_db = ex_db6, srv_deleted = []\<rparr>" 6 5 "[ex_garbage]" ex_tenv] ex_ok(6) ex_candidates
    by (cases "process_gc_candidates ex_tenv 6 [ex_garbage] \<lparr>srv_db = ex_db6, srv_deleted = []\<rparr>") simp
qed

end
