(* ===== verification/Float64.thy ===== *)
theory Float64
  imports Complex_Main
begin

text \<open>
  The floating point arithmetic of \<open>src/limits.rs\<close>: positive \<open>f64\<close> values as rationals, conversion
  and division rounded to 53 significant bits, ties to even, and \<open>Duration::from_secs_f64\<close>, which
  rounds to whole nanoseconds, ties to even. The values of the limiter lie between \<open>2 ^ -64\<close> and
  \<open>2 ^ 64\<close>, far from the ends of the exponent range, so there is neither overflow nor underflow.
\<close>

section \<open>Rounding\<close>

definition round_even :: "rat \<Rightarrow> int" where
  "round_even x =
     (let n = \<lfloor>x\<rfloor>; d = x - of_int n
      in if d < 1 / 2 \<or> d = 1 / 2 \<and> even n then n else n + 1)"

lemma round_even_near: "\<bar>of_int (round_even x) - x\<bar> \<le> 1 / 2"
proof -
  define n where "n = \<lfloor>x\<rfloor>"
  have "of_int n \<le> x" "x < of_int n + 1" using floor_correct [of x] by (simp_all add: n_def)
  then show ?thesis unfolding round_even_def Let_def abs_le_iff n_def [symmetric] by (cases "even n") auto
qed

lemma round_even_nonneg: "0 \<le> x \<Longrightarrow> 0 \<le> round_even x"
  using zero_le_floor [of x] by (auto simp: round_even_def Let_def)

text \<open>The number of binary digits.\<close>

fun bits :: "nat \<Rightarrow> nat" where
  "bits n = (if n = 0 then 0 else Suc (bits (n div 2)))"

declare bits.simps [simp del]

lemma bits_bounds: "0 < n \<Longrightarrow> 2 ^ bits n \<le> 2 * n \<and> n < 2 ^ bits n"
proof (induction n rule: bits.induct)
  case (1 n)
  show ?case
  proof (cases "n div 2 = 0")
    case True
    with 1 show ?thesis by (subst (1 2) bits.simps) (simp add: bits.simps [of 0])
  next
    case False
    with 1 have "2 ^ bits (n div 2) \<le> 2 * (n div 2) \<and> n div 2 < 2 ^ bits (n div 2)" by simp
    then have "2 * 2 ^ bits (n div 2) \<le> 2 * n \<and> n < 2 * 2 ^ bits (n div 2)" by linarith
    with 1 show ?thesis by (simp add: bits.simps [of n])
  qed
qed

text \<open>The exponent of the last of the 53 bits.\<close>

definition last_bit :: "rat \<Rightarrow> int" where
  "last_bit x =
     (case quotient_of x of (n, d) \<Rightarrow>
        let k = int (bits (nat n)) - int (bits (nat d))
        in if x < 2 powi k then k - 53 else k - 52)"

definition f64_round :: "rat \<Rightarrow> rat" where
  "f64_round x = (if x \<le> 0 then 0 else of_int (round_even (x / 2 powi last_bit x)) * 2 powi last_bit x)"

lemma last_bit_small:
  assumes "0 < x"
  shows "2 powi last_bit x \<le> x / 2 ^ 52"
proof -
  obtain n d where q: "quotient_of x = (n, d)" by (cases "quotient_of x")
  have d: "0 < d" using quotient_of_denom_pos [OF q] .
  have x: "x = of_int n / of_int d" using quotient_of_div [OF q] .
  with assms d have n: "0 < n" by (simp add: zero_less_divide_iff)
  let ?k = "int (bits (nat n)) - int (bits (nat d))"
  have half: "(2 :: rat) powi (k - 53) = 2 powi k / 2 / 2 ^ 52" "(2 :: rat) powi (k - 52) = 2 powi k / 2 ^ 52" for k
    by (simp_all add: power_int_diff)
  have "2 powi ?k \<le> 2 * x"
  proof -
    have "(2 :: rat) ^ bits (nat n) \<le> of_nat (2 * nat n)" "of_nat (nat d) \<le> (2 :: rat) ^ bits (nat d)"
      using bits_bounds [of "nat n"] bits_bounds [of "nat d"] n d
      by (simp_all add: numeral_power_le_of_nat_cancel_iff of_nat_le_numeral_power_cancel_iff less_imp_le del: of_nat_nat of_nat_mult)
    then have "(2 :: rat) ^ bits (nat n) \<le> 2 * of_int n" "of_int d \<le> (2 :: rat) ^ bits (nat d)"
      using n d by simp_all
    then have "(2 :: rat) ^ bits (nat n) / 2 ^ bits (nat d) \<le> 2 * of_int n / of_int d"
      using n d by (intro frac_le) simp_all
    then show ?thesis by (simp add: x power_int_diff)
  qed
  then show ?thesis by (auto simp: last_bit_def q Let_def half divide_right_mono)
qed

lemma f64_round_near:
  assumes "0 \<le> x"
  shows "\<bar>f64_round x - x\<bar> \<le> x / 2 ^ 53"
proof (cases "x = 0")
  case False
  with assms have x: "0 < x" by simp
  let ?e = "(2 :: rat) powi last_bit x"
  have e: "0 < ?e" by simp
  have "f64_round x - x = (of_int (round_even (x / ?e)) - x / ?e) * ?e"
    using x by (simp add: f64_round_def algebra_simps)
  then have "\<bar>f64_round x - x\<bar> = \<bar>of_int (round_even (x / ?e)) - x / ?e\<bar> * ?e"
    using e by (simp add: abs_mult)
  also have "\<dots> \<le> 1 / 2 * ?e" using round_even_near e by (intro mult_right_mono) simp_all
  also have "\<dots> \<le> x / 2 ^ 53" using last_bit_small [OF x] by simp
  finally show ?thesis .
qed (simp add: f64_round_def)

lemma f64_round_bounds:
  assumes "0 \<le> x"
  shows "x * (1 - 1 / 2 ^ 53) \<le> f64_round x" and "f64_round x \<le> x * (1 + 1 / 2 ^ 53)"
  using abs_le_D1 [OF f64_round_near [OF assms]] abs_le_D2 [OF f64_round_near [OF assms]]
  by (simp_all add: algebra_simps)

text \<open>A value of at most 53 bits is kept.\<close>

lemma round_even_int [simp]: "round_even (of_int n) = n"
  by (simp add: round_even_def)

lemma f64_round_exact:
  assumes "0 < x" and "x = of_int m * 2 powi last_bit x"
  shows "f64_round x = x"
proof -
  have "x / 2 powi last_bit x = of_int m" by (subst assms(2)) simp
  with assms show ?thesis by (simp add: f64_round_def)
qed

section \<open>The duration of a transfer\<close>

text \<open>\<open>Duration::from_secs_f64(bytes as f64 / rate as f64)\<close>, in nanoseconds.\<close>

definition transfer_nanos :: "nat \<Rightarrow> nat \<Rightarrow> nat" where
  "transfer_nanos bytes rate =
     nat (round_even (f64_round (f64_round (of_nat bytes) / f64_round (of_nat rate)) * 10 ^ 9))"

lemma f64_quotient:
  assumes "0 < rate"
  shows "of_nat bytes / of_nat rate * (1 - 3 / 2 ^ 53) \<le> f64_round (f64_round (of_nat bytes) / f64_round (of_nat rate))"
proof -
  let ?u = "1 / 2 ^ 53 :: rat" and ?b = "of_nat bytes :: rat" and ?r = "of_nat rate :: rat"
  define b where "b = f64_round ?b"
  define r where "r = f64_round ?r"
  have b: "?b * (1 - ?u) \<le> b" unfolding b_def by (rule f64_round_bounds) simp
  have r: "r \<le> ?r * (1 + ?u)" "?r * (1 - ?u) \<le> r" unfolding r_def by (rule f64_round_bounds; simp)+
  have "0 < ?r * (1 - ?u)" using assms by simp
  with r(2) have rp: "0 < r" by linarith
  have "0 \<le> ?b * (1 - ?u)" by simp
  with b have bp: "0 \<le> b" by linarith
  have "(1 - 3 * ?u) * (1 + ?u) \<le> (1 - ?u) * (1 - ?u)" by (simp add: field_simps)
  then have "?b * ((1 - 3 * ?u) * (1 + ?u)) \<le> ?b * (1 - ?u) * (1 - ?u)"
    by (simp add: mult_left_mono mult.assoc)
  also have "\<dots> \<le> b * (1 - ?u)" using b by (intro mult_right_mono) simp_all
  finally have "?b * (1 - 3 * ?u) * (1 + ?u) \<le> b * (1 - ?u)" by (simp only: mult.assoc)
  then have "?b * (1 - 3 * ?u) * (1 + ?u) / (?r * (1 + ?u)) \<le> b * (1 - ?u) / (?r * (1 + ?u))"
    using assms by (intro divide_right_mono) simp_all
  also have "\<dots> \<le> b * (1 - ?u) / r" using r(1) rp bp by (intro divide_left_mono) simp_all
  also have "\<dots> \<le> f64_round (b / r)"
    using f64_round_bounds(1) [of "b / r"] bp rp by simp
  finally show ?thesis using assms by (simp add: b_def r_def)
qed

lemma transfer_nanos_lower:
  assumes "0 < rate"
  shows "of_nat bytes * 10 ^ 9 * (1 - 3 / 2 ^ 53) \<le> of_nat rate * (of_nat (transfer_nanos bytes rate) + 1 / 2 :: rat)"
proof -
  define q where "q = f64_round (f64_round (of_nat bytes :: rat) / f64_round (of_nat rate))"
  have q: "of_nat bytes / of_nat rate * (1 - 3 / 2 ^ 53) \<le> q" unfolding q_def by (rule f64_quotient [OF assms])
  moreover have "0 \<le> of_nat bytes / of_nat rate * (1 - 3 / 2 ^ 53 :: rat)" by simp
  ultimately have "0 \<le> q" by linarith
  then have "0 \<le> round_even (q * 10 ^ 9)" by (simp add: round_even_nonneg)
  then have "of_nat (transfer_nanos bytes rate) = (of_int (round_even (q * 10 ^ 9)) :: rat)"
    by (simp add: transfer_nanos_def q_def)
  with round_even_near [of "q * 10 ^ 9"] have "q * 10 ^ 9 \<le> of_nat (transfer_nanos bytes rate) + 1 / 2" by linarith
  with q have "of_nat bytes / of_nat rate * (1 - 3 / 2 ^ 53) * 10 ^ 9 \<le> of_nat (transfer_nanos bytes rate) + (1 / 2 :: rat)"
    by (meson mult_right_mono order_trans zero_le_numeral zero_le_power)
  then show ?thesis using assms by (simp add: field_simps)
qed

end
