(* ===== verification/Bandwidth.thy ===== *)
theory Bandwidth
  imports Size_Limits Float64
begin

text \<open>
  The bandwidth limiter of \<open>src/limits.rs\<close>: the schedule shared by all transfers of one direction.
  The clock readings are arguments; the duration of a transfer is computed in floating point
  (\<open>Float64\<close>). A poisoned mutex (a panic inside the lock, of which there is none) is not modelled.
\<close>

section \<open>Reservations\<close>

definition reserve ::
  "nat \<Rightarrow> nat \<Rightarrow> nat option \<Rightarrow> nat \<Rightarrow> schedule \<Rightarrow> nat option \<times> schedule"
where
  "reserve rate bytes max_wait now st =
     (if rate = 0 then (Some 0, st)
      else
        let duration = transfer_nanos bytes rate;
            start = max (case st of None \<Rightarrow> now | Some n \<Rightarrow> n) now;
            wait = start - now
        in if (case max_wait of None \<Rightarrow> False | Some m \<Rightarrow> wait > m) then (None, st)
           else (Some wait, Some (start + duration)))"

text \<open>\<open>throttle\<close>: how long to sleep, or \<open>SlowDown\<close>.\<close>

definition throttle ::
  "transfer_direction \<Rightarrow> nat \<Rightarrow> bool \<Rightarrow> nat \<Rightarrow> bandwidth_limiter
     \<Rightarrow> (error + nat) \<times> bandwidth_limiter"
where
  "throttle direction bytes bounded now limiter =
     (if bytes = 0 then (Inr 0, limiter)
      else
        let bound = (if bounded then Some (limit_wait limiter) else None) in
        case direction of
          Upload \<Rightarrow>
            (case reserve (upload_rate limiter) bytes bound now (global_upload limiter) of
               (None, s) \<Rightarrow> (Inl SlowDown, limiter\<lparr>global_upload := s\<rparr>)
             | (Some w, s) \<Rightarrow> (Inr w, limiter\<lparr>global_upload := s\<rparr>))
        | Download \<Rightarrow>
            (case reserve (download_rate limiter) bytes bound now (global_download limiter) of
               (None, s) \<Rightarrow> (Inl SlowDown, limiter\<lparr>global_download := s\<rparr>)
             | (Some w, s) \<Rightarrow> (Inr w, limiter\<lparr>global_download := s\<rparr>)))"

lemma reserve_rejected: "reserve rate bytes w now st = (None, st') \<Longrightarrow> st' = st"
  by (auto simp: reserve_def Let_def split: if_splits)

lemma reserve_unbounded: "fst (reserve rate bytes None now st) \<noteq> None"
  by (simp add: reserve_def Let_def)

lemma reserve_bounded: "reserve rate bytes (Some m) now st = (Some w, st') \<Longrightarrow> w \<le> m"
  by (auto simp: reserve_def Let_def split: if_splits)

lemma throttle_unbounded: "\<exists>w. fst (throttle direction bytes False now limiter) = Inr w"
  using reserve_unbounded [of "upload_rate limiter" bytes now "global_upload limiter"]
    reserve_unbounded [of "download_rate limiter" bytes now "global_download limiter"]
  by (cases direction) (auto simp: throttle_def Let_def split: prod.splits option.splits)

lemma throttle_rejected:
  "throttle direction bytes bounded now limiter = (Inl e, limiter') \<Longrightarrow> limiter' = limiter \<and> e = SlowDown"
  by (cases direction)
    (auto simp: throttle_def Let_def split: prod.splits option.splits if_splits
      dest!: reserve_rejected)

text \<open>
  A run of reservations of one direction, each with its clock reading, bytes and bound. The result
  are the transfers admitted: the time at which each may begin, and its bytes.
\<close>

fun reserve_all ::
  "nat \<Rightarrow> (nat \<times> nat \<times> nat option) list \<Rightarrow> schedule \<Rightarrow> (nat \<times> nat) list \<times> schedule"
where
  "reserve_all rate [] st = ([], st)"
| "reserve_all rate ((now, bytes, bound) # rs) st =
     (case reserve rate bytes bound now st of
        (None, st') \<Rightarrow> reserve_all rate rs st'
      | (Some w, st') \<Rightarrow>
          (case reserve_all rate rs st' of
             (admitted, st'') \<Rightarrow> ((now + w, bytes) # admitted, st'')))"

fun spaced :: "nat \<Rightarrow> nat \<Rightarrow> (nat \<times> nat) list \<Rightarrow> bool" where
  "spaced rate t [] \<longleftrightarrow> True"
| "spaced rate t ((start, bytes) # admitted) \<longleftrightarrow>
     t \<le> start \<and> spaced rate (start + transfer_nanos bytes rate) admitted"

lemma reserve_all_spaced:
  "0 < rate \<Longrightarrow> reserve_all rate rs st = (admitted, st') \<Longrightarrow>
     spaced rate (case st of None \<Rightarrow> 0 | Some n \<Rightarrow> n) admitted"
proof (induction rs arbitrary: st admitted st')
  case Nil
  then show ?case by simp
next
  case (Cons r rs)
  obtain now bytes bound where r: "r = (now, bytes, bound)" by (cases r) auto
  obtain o' st1 where res: "reserve rate bytes bound now st = (o', st1)"
    by (cases "reserve rate bytes bound now st") auto
  show ?case
  proof (cases o')
    case None
    with res have "st1 = st" by (auto dest: reserve_rejected)
    with Cons r res None show ?thesis by simp
  next
    case (Some w)
    obtain rest st2 where rest: "reserve_all rate rs st1 = (rest, st2)"
      by (cases "reserve_all rate rs st1") auto
    from res Some Cons.prems(1) have
      "st1 = Some (max (case st of None \<Rightarrow> now | Some n \<Rightarrow> n) now + transfer_nanos bytes rate)"
      "w = max (case st of None \<Rightarrow> now | Some n \<Rightarrow> n) now - now"
      by (auto simp: reserve_def Let_def split: if_splits)
    with Cons.IH [OF Cons.prems(1) rest] Cons.prems(2) r res Some rest show ?thesis
      by (auto split: option.splits)
  qed
qed

text \<open>
  The bytes of the transfers admitted in a window, up to the last, cost no more time than the
  window has, up to the rounding of the durations.
\<close>

lemma spaced_total:
  "spaced rate t admitted \<Longrightarrow> \<forall>(start, bytes) \<in> set admitted. start \<le> u \<Longrightarrow> admitted \<noteq> [] \<Longrightarrow>
     t + sum_list (map (\<lambda>x. transfer_nanos (snd x) rate) (butlast admitted)) \<le> u"
proof (induction rate t admitted rule: spaced.induct)
  case (2 rate t start bytes admitted)
  then show ?case by (cases "admitted = []") auto
qed simp

lemma transfers_nanos_lower:
  assumes "0 < rate"
  shows "of_nat (sum_list (map snd xs)) * 10 ^ 9 * (1 - 3 / 2 ^ 53)
    \<le> of_nat rate * (of_nat (sum_list (map (\<lambda>x. transfer_nanos (snd x) rate) xs)) + of_nat (length xs) / 2 :: rat)"
proof -
  define c :: rat where "c = 10 ^ 9 * (1 - 3 / 2 ^ 53)"
  have one: "of_nat (snd x) * c \<le> of_nat rate * of_nat (transfer_nanos (snd x) rate) + of_nat rate / 2" for x :: "'a \<times> nat"
    using transfer_nanos_lower [OF assms, of "snd x"] unfolding mult.assoc c_def [symmetric] by (simp add: distrib_left)
  have "of_nat (sum_list (map snd xs)) * c
    \<le> of_nat rate * (of_nat (sum_list (map (\<lambda>x. transfer_nanos (snd x) rate) xs)) + of_nat (length xs) / 2)"
  proof (induction xs)
    case (Cons x xs)
    with one [of x] show ?case by (simp add: distrib_left distrib_right add_divide_distrib)
  qed simp
  then show ?thesis by (simp only: c_def mult.assoc)
qed

end
