(* ===== verification/Spec_Limits.thy ===== *)
theory Spec_Limits
  imports Bandwidth
begin

text \<open>The property of the bandwidth limiter.\<close>

text \<open>
  C38: The limiter keeps its rate. However requests of one direction interleave and whichever are
  refused: of the transfers admitted, take any two that the limiter let begin at the times \<open>start\<close>
  and, not before it, at most \<open>finish\<close>. The bytes of the first and of all that were admitted between
  them are no more than \<open>rate\<close> bytes for each second between \<open>start\<close> and \<open>finish\<close>, but for the
  rounding of durations: half a nanosecond for each transfer, and \<open>3 / 2 ^ 53\<close> of the bytes for
  the floating point.
\<close>

theorem limiter_respects_rate:
  assumes "0 < rate" and "reserve_all rate rs st = (before @ (start, bytes) # admitted, st')"
    and "admitted \<noteq> []" and "\<forall>(s, b) \<in> set admitted. s \<le> finish"
  shows "of_nat (bytes + sum_list (map snd (butlast admitted))) * (1 - 3 / 2 ^ 53)
    \<le> of_nat rate * (of_nat (finish - start) + of_nat (length admitted) / 2) / (10 ^ 9 :: rat)"
proof -
  let ?xs = "(start, bytes) # butlast admitted"
  have "spaced rate t (before @ (start, bytes) # admitted) \<Longrightarrow> spaced rate start ((start, bytes) # admitted)" for t
    by (induction before arbitrary: t) auto
  with reserve_all_spaced [OF assms(1,2)] have "spaced rate (start + transfer_nanos bytes rate) admitted" by simp
  from spaced_total [OF this assms(4,3)]
  have "sum_list (map (\<lambda>x. transfer_nanos (snd x) rate) ?xs) \<le> finish - start" by simp
  then have "of_nat (sum_list (map (\<lambda>x. transfer_nanos (snd x) rate) ?xs)) \<le> (of_nat (finish - start) :: rat)"
    by (simp only: of_nat_le_iff)
  moreover have "length ?xs = length admitted" using assms(3) by (cases admitted) simp_all
  ultimately have "of_nat rate * (of_nat (sum_list (map (\<lambda>x. transfer_nanos (snd x) rate) ?xs)) + of_nat (length ?xs) / 2)
      \<le> of_nat rate * (of_nat (finish - start) + of_nat (length admitted) / 2 :: rat)"
    by (intro mult_left_mono) simp_all
  with transfers_nanos_lower [OF assms(1), of ?xs]
  have "of_nat (sum_list (map snd ?xs)) * 10 ^ 9 * (1 - 3 / 2 ^ 53)
      \<le> of_nat rate * (of_nat (finish - start) + of_nat (length admitted) / 2 :: rat)" by (rule order_trans)
  then show ?thesis by (simp add: mult_imp_le_div_pos mult.commute mult.left_commute pos_le_divide_eq)
qed

text \<open>A thousand bytes a second: of four requests the third is refused.\<close>

lemma ex_f64: "f64_round 500 = 500" "f64_round 1000 = 1000" "f64_round 1 = 1" "f64_round (1 / 2) = 1 / 2"
proof -
  have "last_bit 500 = -44" "last_bit 1000 = -43" "last_bit 1 = -52" "last_bit (1 / 2) = -53" by code_simp+
  then show "f64_round 500 = 500" "f64_round 1000 = 1000" "f64_round 1 = 1" "f64_round (1 / 2) = 1 / 2"
    using f64_round_exact [of 500 "500 * 2 ^ 44"] f64_round_exact [of 1000 "1000 * 2 ^ 43"]
      f64_round_exact [of 1 "2 ^ 52"] f64_round_exact [of "1 / 2" "2 ^ 52"]
    by (simp_all add: power_int_minus)
qed

lemma ex_nanos: "transfer_nanos 500 1000 = 500000000" "transfer_nanos 1000 1000 = 1000000000"
  using round_even_int [of 500000000] round_even_int [of 1000000000]
  by (simp_all add: transfer_nanos_def ex_f64)

theorem limiter_respects_rate_witness:
  "of_nat (500 + 1000) * (1 - 3 / 2 ^ 53) \<le> of_nat 1000 * (of_nat (1500000000 - 0) + of_nat 2 / 2) / (10 ^ 9 :: rat)"
  using limiter_respects_rate [of 1000 "[(0, 500, None), (7, 1000, None), (9, 5, Some 3), (12, 1000, None)]"
        None "[]" 0 500 "[(500000000, 1000), (1500000000, 1000)]" "Some 2500000000" 1500000000]
  by (simp add: reserve_def Let_def ex_nanos)

end
