(* ===== verification/Engine_Multipart.thy ===== *)
theory Engine_Multipart
  imports Engine_Object
begin

text \<open>
  \<open>src/engine/multipart.rs\<close>: multipart uploads. MD5 followed by hexadecimal formatting is
  \<open>ue_md5_hex\<close> of the upload's environment; \<open>hex_decode\<close> is \<open>hex::decode\<close>. The running MD5 of
  \<open>complete_multipart\<close> is the list of bytes it has absorbed.
\<close>

definition min_multipart_part :: int where
  "min_multipart_part = 5 * 1024 * 1024"

definition max_multipart_parts :: nat where
  "max_multipart_parts = 10000"

definition kind_multipart :: str where
  "kind_multipart = lit ''multipart''"

definition create_multipart ::
  "int \<Rightarrow> str \<Rightarrow> str \<Rightarrow> str \<Rightarrow> object_metadata \<Rightarrow> server \<Rightarrow> (error + str) \<times> server"
where
  "create_multipart t uid bucket key metadata s =
     (case require_bucket bucket (srv_db s) of
        Inl e \<Rightarrow> (Inl e, s)
      | Inr _ \<Rightarrow>
          (case create_upload \<lparr>up_upload_id = uid, up_bucket = bucket, up_key = key, up_metadata = metadata,
                  up_kind = kind_multipart, up_created_at = t\<rparr> (srv_db s) of
             (Inl e, d) \<Rightarrow> (Inl e, s\<lparr>srv_db := d\<rparr>)
           | (Inr _, d) \<Rightarrow> (Inr uid, s\<lparr>srv_db := d\<rparr>)))"

text \<open>The upload, when it exists and is a multipart one.\<close>

definition multipart_upload :: "str \<Rightarrow> db \<Rightarrow> error + upload_record" where
  "multipart_upload uid d =
     (case get_upload uid d of
        None \<Rightarrow> Inl NoSuchUpload
      | Some up \<Rightarrow> if up_kind up \<noteq> kind_multipart then Inl NoSuchUpload else Inr up)"

definition part_number_error :: error where
  "part_number_error = Other (lit ''part number must be between 1 and 10,000'')"

definition upload_part ::
  "engine_env \<Rightarrow> str \<Rightarrow> int \<Rightarrow> (error + bytes) list \<Rightarrow> int option \<Rightarrow> server \<Rightarrow> part_record handled"
where
  "upload_part env uid n frames expected s =
     (if \<not> (1 \<le> n \<and> n \<le> 10000) then (Inl part_number_error, s, [])
      else
        case multipart_upload uid (srv_db s) of
          Inl e \<Rightarrow> (Inl e, s, [])
        | Inr _ \<Rightarrow>
       (case check_size expected (ue_max_object_size (en_upload env)) of
          Inl e \<Rightarrow> (Inl e, s, [])
        | Inr _ \<Rightarrow>
       (case upload_stream env uid n frames expected s of
          (Inl e, s1) \<Rightarrow> (Inl e, s1, [])
        | (Inr (part, sz), s1) \<Rightarrow>
            (case replace_part (en_clock env 2) uid n sz (part_etag part) (part_blocks part) (srv_db s1) of
               (Inl e, d) \<Rightarrow>
                 (Inl e, cleanup_block_refs (en_tg env) (en_clock env 0) (part_blocks part) (s1\<lparr>srv_db := d\<rparr>), [])
             | (Inr released, d) \<Rightarrow>
                 (Inr \<lparr>part_upload_id = uid, part_number = n, part_size = sz, part_etag = part_etag part,
                    part_blocks = part_blocks part\<rparr>,
                  s1\<lparr>srv_db := d\<rparr>, reclaim_blocks released)))))"

section \<open>Completing an upload\<close>

fun in_part_order :: "(int \<times> str) list \<Rightarrow> bool" where
  "in_part_order (p # q # ps) \<longleftrightarrow> \<not> fst p \<ge> fst q \<and> in_part_order (q # ps)"
| "in_part_order ps \<longleftrightarrow> True"

definition by_number :: "part_record list \<Rightarrow> (int \<rightharpoonup> part_record)" where
  "by_number recorded = fold (\<lambda>p m. m(part_number p \<mapsto> p)) recorded Map.empty"

text \<open>The loop over the requested parts; \<open>wanted\<close> is \<open>requested.len()\<close>.\<close>

fun collect_parts ::
  "(str \<Rightarrow> bytes option) \<Rightarrow> int \<Rightarrow> nat \<Rightarrow> nat \<Rightarrow> (int \<times> str) list \<Rightarrow> (int \<rightharpoonup> part_record)
     \<Rightarrow> int \<Rightarrow> bytes \<Rightarrow> part_record list \<Rightarrow> error + (part_record list \<times> int \<times> bytes)"
where
  "collect_parts hex_decode max_size wanted index [] recorded tot composite ordered = Inr (ordered, tot, composite)"
| "collect_parts hex_decode max_size wanted index ((n, etag) # requested) recorded tot composite ordered =
     (case recorded n of
        None \<Rightarrow> Inl InvalidPart
      | Some part \<Rightarrow>
          (if normalize_etag (part_etag part) \<noteq> normalize_etag etag then Inl InvalidPart
           else if index + 1 \<noteq> wanted \<and> part_size part < min_multipart_part then Inl EntityTooSmall
           else
             (case hex_decode (normalize_etag (part_etag part)) of
                None \<Rightarrow> Inl InvalidPart
              | Some digest \<Rightarrow>
                  (if length digest \<noteq> 16 then Inl InvalidPart
                   else
                     (case checked_add tot (part_size part) of
                        None \<Rightarrow> Inl (Other (lit ''multipart object is too large''))
                      | Some tot' \<Rightarrow>
                          (if tot' > max_size then Inl EntityTooLarge
                           else collect_parts hex_decode max_size wanted (index + 1) requested (recorded(n := None))
                                  tot' (composite @ digest) (ordered @ [part])))))))"

definition composite_etag :: "(bytes \<Rightarrow> str) \<Rightarrow> bytes \<Rightarrow> nat \<Rightarrow> str" where
  "composite_etag md5_hex composite wanted = md5_hex composite @ lit ''-'' @ show_nat wanted"

definition complete_multipart ::
  "engine_env \<Rightarrow> (str \<Rightarrow> bytes option) \<Rightarrow> str \<Rightarrow> (int \<times> str) list \<Rightarrow> server \<Rightarrow> object_record handled"
where
  "complete_multipart env hex_decode uid requested s =
     (case multipart_upload uid (srv_db s) of
        Inl e \<Rightarrow> (Inl e, s, [])
      | Inr _ \<Rightarrow>
     if requested = [] \<or> max_multipart_parts < length requested then (Inl InvalidPart, s, [])
     else if \<not> in_part_order requested then (Inl InvalidPartOrder, s, [])
     else
       case get_parts uid False (srv_db s) of
         Inl e \<Rightarrow> (Inl e, s, [])
       | Inr recorded \<Rightarrow>
      (case collect_parts hex_decode (ue_max_object_size (en_upload env)) (length requested) 0 requested
              (by_number recorded) 0 [] [] of
         Inl e \<Rightarrow> (Inl e, s, [])
       | Inr (ordered, tot, composite) \<Rightarrow>
          (case commit_upload (en_clock env 3) uid tot
                  (composite_etag (ue_md5_hex (en_upload env)) composite (length requested)) ordered
                  default_condition (srv_db s) of
             (Inl e, d) \<Rightarrow> (Inl e, s\<lparr>srv_db := d\<rparr>, [])
           | (Inr None, d) \<Rightarrow> (Inl NoSuchUpload, s\<lparr>srv_db := d\<rparr>, [])
           | (Inr (Some (ob, released)), d) \<Rightarrow> (Inr ob, s\<lparr>srv_db := d\<rparr>, reclaim_blocks released))))"

section \<open>Listing and aborting\<close>

definition list_parts :: "str \<Rightarrow> db \<Rightarrow> error + part_record list" where
  "list_parts uid d = (if get_upload uid d = None then Inl NoSuchUpload else get_parts uid False d)"

definition engine_list_uploads :: "str \<Rightarrow> str option \<Rightarrow> db \<Rightarrow> error + upload_record list" where
  "engine_list_uploads bucket key d =
     bind_res (require_bucket bucket d) (\<lambda>_. Inr (list_uploads bucket key d))"

definition abort_multipart :: "int \<Rightarrow> str \<Rightarrow> server \<Rightarrow> bool handled" where
  "abort_multipart t uid s =
     (case abort_upload_with_blocks t uid (srv_db s) of
        (Inl e, d) \<Rightarrow> (Inl e, s\<lparr>srv_db := d\<rparr>, [])
      | (Inr None, d) \<Rightarrow> (Inr False, s\<lparr>srv_db := d\<rparr>, [])
      | (Inr (Some released), d) \<Rightarrow> (Inr True, s\<lparr>srv_db := d\<rparr>, reclaim_blocks released))"

section \<open>The requested parts\<close>

lemma in_part_order_sorted: "in_part_order ps \<longleftrightarrow> sorted_wrt (<) (map fst ps)"
proof (induction ps rule: in_part_order.induct)
  case (1 p q ps)
  then show ?case by auto
qed auto

lemma by_number_mem: "by_number recorded n = Some p \<Longrightarrow> p \<in> set recorded \<and> part_number p = n"
proof -
  have "fold (\<lambda>p m. m(part_number p \<mapsto> p)) recorded m n = Some p \<Longrightarrow>
      m n = Some p \<or> p \<in> set recorded \<and> part_number p = n" for m
  proof (induction recorded arbitrary: m)
    case (Cons a recorded)
    from Cons.IH [of "m(part_number a \<mapsto> a)"] Cons.prems show ?case by (auto split: if_splits)
  qed simp
  then show "by_number recorded n = Some p \<Longrightarrow> ?thesis" unfolding by_number_def by fastforce
qed

text \<open>What the loop checked of a part: the ETag asked for, and the size unless it is the last.\<close>

definition part_accepted :: "(str \<Rightarrow> bytes option) \<Rightarrow> part_record \<Rightarrow> int \<times> str \<Rightarrow> bool" where
  "part_accepted hex_decode p rq \<longleftrightarrow> part_number p = fst rq
     \<and> normalize_etag (part_etag p) = normalize_etag (snd rq)
     \<and> (\<exists>digest. hex_decode (normalize_etag (part_etag p)) = Some digest \<and> length digest = 16)"

lemma collect_parts_Inr:
  assumes "collect_parts hex_decode max_size wanted index requested recorded sz composite ordered
      = Inr (ordered', sz', composite')"
    and "\<And>n p. recorded n = Some p \<Longrightarrow> p \<in> P \<and> part_number p = n" and "index + length requested = wanted"
  shows "\<exists>parts. ordered' = ordered @ parts \<and> list_all2 (part_accepted hex_decode) parts requested
    \<and> set parts \<subseteq> P \<and> sz' = sz + sum_list (map part_size parts)
    \<and> composite' = composite @ concat (map (\<lambda>p. the (hex_decode (normalize_etag (part_etag p)))) parts)
    \<and> (\<forall>p \<in> set (butlast parts). min_multipart_part \<le> part_size p)
    \<and> (requested \<noteq> [] \<longrightarrow> sz' \<le> max_size)"
  using assms
proof (induction requested arbitrary: index recorded sz composite ordered)
  case Nil
  then show ?case by simp
next
  case (Cons rq requested)
  obtain n etag where rq: "rq = (n, etag)" by (cases rq)
  from Cons.prems(1) rq obtain part digest where part: "recorded n = Some part"
    "normalize_etag (part_etag part) = normalize_etag etag"
    "\<not> (index + 1 \<noteq> wanted \<and> part_size part < min_multipart_part)"
    "hex_decode (normalize_etag (part_etag part)) = Some digest" "length digest = 16"
    and small: "sz + part_size part \<le> max_size"
    and rest: "collect_parts hex_decode max_size wanted (index + 1) requested (recorded(n := None))
        (sz + part_size part) (composite @ digest) (ordered @ [part]) = Inr (ordered', sz', composite')"
    by (auto split: option.splits if_splits)
  have "\<exists>parts. ordered' = (ordered @ [part]) @ parts \<and> list_all2 (part_accepted hex_decode) parts requested
    \<and> set parts \<subseteq> P \<and> sz' = (sz + part_size part) + sum_list (map part_size parts)
    \<and> composite' = (composite @ digest) @ concat (map (\<lambda>p. the (hex_decode (normalize_etag (part_etag p)))) parts)
    \<and> (\<forall>p \<in> set (butlast parts). min_multipart_part \<le> part_size p)
    \<and> (requested \<noteq> [] \<longrightarrow> sz' \<le> max_size)"
    by (rule Cons.IH [OF rest]) (use Cons.prems(2,3) in \<open>auto split: if_splits\<close>)
  then obtain parts where ih: "ordered' = (ordered @ [part]) @ parts" "list_all2 (part_accepted hex_decode) parts requested"
    "set parts \<subseteq> P" "sz' = (sz + part_size part) + sum_list (map part_size parts)"
    "composite' = (composite @ digest) @ concat (map (\<lambda>p. the (hex_decode (normalize_etag (part_etag p)))) parts)"
    "\<forall>p \<in> set (butlast parts). min_multipart_part \<le> part_size p" "requested \<noteq> [] \<longrightarrow> sz' \<le> max_size" by blast
  have "part_number part = n" "part \<in> P" using Cons.prems(2) [OF part(1)] by simp_all
  moreover have "min_multipart_part \<le> part_size part" if "parts \<noteq> []"
    using part(3) Cons.prems(3) list_all2_lengthD [OF ih(2)] that by (cases parts) auto
  moreover have "sz' \<le> max_size" using ih(2,4,7) small by (cases requested) auto
  moreover have "part_accepted hex_decode part rq"
    using part \<open>part_number part = n\<close> by (simp add: part_accepted_def rq)
  ultimately show ?case
    using ih part by (intro exI [of _ "part # parts"]) auto
qed

section \<open>What \<open>get_parts\<close> reads\<close>

lemma traverse_part_entries:
  assumes "schema_ok d" and "set rows \<subseteq> set (rows_of_upload d u)"
  shows "\<exists>entries. traverse (\<lambda>x. bind_res (part_block_ref x) (\<lambda>b. Inr (pb_number (snd x), b)))
      (join_blocks d pb_block_id rows) = Inr entries
    \<and> map (\<lambda>e. (fst e, ref_key (snd e))) entries = map (\<lambda>r. (pb_number r, row_key r)) rows"
proof -
  let ?f = "\<lambda>x. bind_res (part_block_ref x) (\<lambda>b. Inr (pb_number (snd x), b))"
  have ex: "\<forall>r \<in> set rows. block_exists d (pb_block_id r)"
    using rows_exist(1) [OF assms(1), of u] assms(2) by blast
  have "\<exists>y. ?f x = Inr y" if "x \<in> set (join_blocks d pb_block_id rows)" for x
  proof -
    have "set [x] \<subseteq> set (join_blocks d pb_block_id rows)" using that by simp
    from traverse_refs_total [OF assms(1) part_block_ref_eq this]
    have "\<exists>bs. traverse part_block_ref [x] = Inr bs" .
    then show ?thesis by (auto split: sum.splits)
  qed
  then obtain entries where e: "traverse ?f (join_blocks d pb_block_id rows) = Inr entries"
    using traverse_ex [of "join_blocks d pb_block_id rows" ?f] by blast
  have "list_all2 (\<lambda>x e. (fst e, ref_key (snd e)) = (pb_number (snd x), row_key (snd x)))
      (join_blocks d pb_block_id rows) entries"
  proof (rule traverse_list_all2 [OF e])
    fix x y
    assume x: "x \<in> set (join_blocks d pb_block_id rows)" and y: "?f x = Inr y"
    obtain b r where br: "x = (b, r)" by (cases x)
    with x have "trow_id b = pb_block_id r" by (simp add: in_join_blocks)
    with y br show "(fst y, ref_key (snd y)) = (pb_number (snd x), row_key (snd x))"
      by (auto simp: part_block_ref_eq block_from_row_def ref_key_def row_key_def bind_res_Inr_iff split: sum.splits)
  qed
  then have "map (\<lambda>e. (fst e, ref_key (snd e))) entries
      = map (\<lambda>r. (pb_number r, row_key r)) (map snd (join_blocks d pb_block_id rows))"
    by (simp add: list_all2_conv_all_nth list_eq_iff_nth_eq)
  with e join_blocks_map_snd [OF assms(1) ex] show ?thesis by simp
qed

lemma get_parts_reads:
  assumes "schema_ok d"
  shows "\<exists>ps. get_parts u False d = Inr ps
    \<and> map part_number ps = sort (map prow_number (filter (\<lambda>r. prow_upload_id r = u \<and> 0 < prow_number r) (multipart_parts d)))
    \<and> distinct (map part_number ps) \<and> (\<forall>p \<in> set ps. part_upload_id p = u \<and> part_stored d p)"
proof -
  let ?rows = "sort_key prow_number (filter (\<lambda>r. prow_upload_id r = u \<and> 0 < prow_number r) (multipart_parts d))"
  let ?brows = "filter (\<lambda>r. 0 < pb_number r) (ordered_part_blocks d u)"
  have "set ?brows \<subseteq> set (rows_of_upload d u)" by auto
  from traverse_part_entries [OF assms this] obtain entries where
    e: "traverse (\<lambda>x. bind_res (part_block_ref x) (\<lambda>b. Inr (pb_number (snd x), b))) (join_blocks d pb_block_id ?brows) = Inr entries"
    and k: "map (\<lambda>e. (fst e, ref_key (snd e))) entries = map (\<lambda>r. (pb_number r, row_key r)) ?brows" by blast
  let ?part = "\<lambda>r :: part_row. \<lparr>part_upload_id = prow_upload_id r, part_number = prow_number r, part_size = prow_size r,
      part_etag = prow_etag r, part_blocks = (case group_entries entries (prow_number r) of None \<Rightarrow> [] | Some l \<Rightarrow> l)\<rparr>"
  have ps: "get_parts u False d = Inr (map ?part ?rows)"
    using e by (simp add: get_parts_def Let_def)
  have "part_stored d (?part r)" if r: "r \<in> set (multipart_parts d)" "prow_upload_id r = u" "0 < prow_number r" for r
  proof -
    have "map ref_key (part_blocks (?part r)) = map snd (filter (\<lambda>x. fst x = prow_number r) (map (\<lambda>e. (fst e, ref_key (snd e))) entries))"
      by (simp add: group_entries_eq filter_map comp_def)
    also have "\<dots> = map row_key (filter (\<lambda>x. pb_number x = prow_number r) (ordered_part_blocks d u))"
      unfolding k using r(3) by (simp add: filter_map comp_def) (rule arg_cong [where f = "map row_key"], rule filter_cong, auto)
    finally have "map ref_key (part_blocks (?part r)) = map row_key (sort_key pb_ordinal (rows_of_part d u (prow_number r)))"
      by (simp add: filter_ordered_part_blocks)
    with r show ?thesis by (auto simp: part_stored_def)
  qed
  then have "\<forall>p \<in> set (map ?part ?rows). part_upload_id p = u \<and> part_stored d p" by auto
  moreover have nums: "map part_number (map ?part ?rows) = map prow_number ?rows" by (simp add: comp_def)
  moreover have "distinct (map prow_number (filter (\<lambda>r. prow_upload_id r = u) (multipart_parts d)))"
    using assms by (intro distinct_filter_fst) (simp add: schema_defs)
  then have "distinct (map prow_number (filter (\<lambda>r. 0 < prow_number r) (filter (\<lambda>r. prow_upload_id r = u) (multipart_parts d))))"
    by (rule distinct_map_filter)
  then have "distinct (map prow_number ?rows)"
    by (simp add: distinct_map conj_commute)
  moreover have "map prow_number ?rows = sort (map prow_number (filter (\<lambda>r. prow_upload_id r = u \<and> 0 < prow_number r) (multipart_parts d)))"
    by (rule map_sort_key_inj)
  ultimately show ?thesis using ps by (intro exI [of _ "map ?part ?rows"]) simp
qed

section \<open>Outcomes\<close>

lemma cleanup_parts: "multipart_parts (srv_db (cleanup_block_refs env t bs s)) = multipart_parts (srv_db s)"
proof -
  have q: "multipart_parts (snd (queue_stale_block t b d)) = multipart_parts d" for t b d
    by (simp add: queue_stale_block_def update_block_def enqueue_gc_def Let_def)
  have g: "multipart_parts (gc_success b d) = multipart_parts d" for b d
    by (simp add: gc_success_def delete_block_row_def split: sum.splits)
  have a: "multipart_parts (snd (add_staged_block t b d)) = multipart_parts d" for t b d
    by (auto simp: add_staged_block_def dest: insert_telegram_block_Inr split: sum.splits)
  have one: "multipart_parts (srv_db (cleanup_untracked_block env t b s)) = multipart_parts (srv_db s)" for b s
    using q [of t "blk_id b" "srv_db s"] g [of "blk_id b"] a [of t b] q [of t]
    by (auto simp: cleanup_untracked_block_def request_delete_def Let_def split: sum.splits prod.splits)
      (metis snd_conv)+
  show ?thesis
    by (induction bs arbitrary: s) (simp_all add: cleanup_block_refs_def one)
qed

lemma upload_stream_parts:
  assumes "db_ok (srv_db s)"
  shows "multipart_parts (srv_db (snd (upload_stream env u n frames len s))) = multipart_parts (srv_db s)"
proof -
  from upload_stream_run [OF assms, of env u n frames len] obtain rs s1 where "ran env s rs s1"
    and eq: "upload_stream env u n frames len s =
       (case upload (with_tasks env rs) u n frames len of
          Inl e \<Rightarrow> (Inl e, cleanup_block_refs (en_tg env) (en_clock env 0) (staged_refs env rs) s1)
        | Inr r \<Rightarrow> (Inr r, s1))" by auto
  then have "multipart_parts (srv_db s1) = multipart_parts (srv_db s)" by (auto simp: ran_def only_blocks_def)
  then show ?thesis unfolding eq by (simp add: cleanup_parts split: sum.splits)
qed

lemma upload_part_cases:
  assumes ok: "db_ok (srv_db s)" and chunk: "0 < ue_chunk_size (en_upload env)"
    and upl: "upload_part env uid n frames expected s = (r, s', spawned)"
  shows "db_ok (srv_db s') \<and> lookup (srv_db s') = lookup (srv_db s)
    \<and> multipart_uploads (srv_db s') = multipart_uploads (srv_db s)
    \<and> (case r of
         Inl e \<Rightarrow> multipart_parts (srv_db s') = multipart_parts (srv_db s)
       | Inr part \<Rightarrow> \<exists>chunks us. frames = map Inr chunks \<and> part_stored (srv_db s') part
           \<and> part = part_of (en_upload env) uid n (concat chunks) us
           \<and> contiguous 0 (part_blocks part) \<and> total_size (part_blocks part) = int (length (concat chunks))
           \<and> 1 \<le> n \<and> n \<le> 10000)"
proof (cases "(1 \<le> n \<and> n \<le> 10000) \<and> (\<exists>up. multipart_upload uid (srv_db s) = Inr up)
    \<and> check_size expected (ue_max_object_size (en_upload env)) = Inr ()")
  case False
  then have "\<exists>e. r = Inl e \<and> s' = s"
    using upl by (cases "multipart_upload uid (srv_db s)"; cases "check_size expected (ue_max_object_size (en_upload env))")
      (auto simp: upload_part_def split: if_splits)
  with ok show ?thesis by auto
next
  case True
  obtain x s1 where up: "upload_stream env uid n frames expected s = (x, s1)"
    by (cases "upload_stream env uid n frames expected s") auto
  have q1: "quiet (srv_db s) (srv_db s1)" using upload_stream_quiet [OF ok] up by (metis snd_conv)
  have p1: "multipart_parts (srv_db s1) = multipart_parts (srv_db s)" using upload_stream_parts [OF ok] up by (metis snd_conv)
  show ?thesis
  proof (cases x)
    case (Inl e)
    with upl up True have "r = Inl e" "s' = s1" by (auto simp: upload_part_def)
    with quiet_frame [OF q1 ok] p1 show ?thesis by simp
  next
    case (Inr y)
    obtain part sz where y: "y = (part, sz)" by (cases y)
    from upload_stream_Inr [OF ok chunk up [unfolded Inr y]] obtain chunks us where
      fr: "frames = map Inr chunks" "sz = int (length (concat chunks))" and ok1: "db_ok (srv_db s1)"
      and part: "uploaded_part env (srv_db s) (srv_db s1) uid n (concat chunks) us part" by blast
    obtain z d where rp: "replace_part (en_clock env 2) uid n sz (part_etag part) (part_blocks part) (srv_db s1) = (z, d)"
      by (cases "replace_part (en_clock env 2) uid n sz (part_etag part) (part_blocks part) (srv_db s1)") auto
    note rep = replace_uploaded [OF ok1 part rp]
    note q2 = quiet_frame [OF quiet_trans [OF q1 rep(1)] ok]
    have s1: "schema_ok (srv_db s1)" using ok1 by (simp add: db_ok_def)
    show ?thesis
    proof (cases z)
      case (Inl e)
      let ?c = "cleanup_block_refs (en_tg env) (en_clock env 0) (part_blocks part) (s1\<lparr>srv_db := d\<rparr>)"
      have d: "d = srv_db s1" using rp Inl by (auto simp: replace_part_def transact_def split: sum.splits)
      have "r = Inl e" "s' = ?c" using upl up True Inr y rp Inl by (auto simp: upload_part_def)
      moreover have "quiet d (srv_db ?c)" using quiet_cleanup [of "s1\<lparr>srv_db := d\<rparr>"] by simp
      note quiet_frame [OF this rep(3)]
      ultimately show ?thesis using q2 p1 d by (simp add: cleanup_parts)
    next
      case (Inr rel)
      have flds: "part_size part = sz" "part_upload_id part = uid" "part_number part = n"
        using part fr by (simp_all add: uploaded_part_def part_of_def)
      then have is_part: "\<lparr>part_upload_id = uid, part_number = n, part_size = sz, part_etag = part_etag part,
          part_blocks = part_blocks part\<rparr> = part" by (cases part) simp
      have "r = Inr part" "s' = s1\<lparr>srv_db := d\<rparr>"
        using upl up True \<open>x = Inr y\<close> y rp Inr is_part by (auto simp: upload_part_def)
      moreover have "part_stored d part"
        using replace_part_frame(1) [OF s1 rp [unfolded Inr]]
          part_written_stored [of "en_clock env 2" uid n sz "part_etag part" "part_blocks part" rel "srv_db s1"]
        by (simp add: is_part)
      ultimately show ?thesis using q2 fr part True
        by (auto simp: uploaded_part_def intro!: exI [of _ chunks] exI [of _ us])
    qed
  qed
qed

lemma complete_multipart_cases:
  assumes ok: "db_ok (srv_db s)" and comp: "complete_multipart env hex_decode uid requested s = (r, s', spawned)"
  shows "case r of
      Inl e \<Rightarrow> s' = s
    | Inr ob \<Rightarrow> \<exists>up parts. get_upload uid (srv_db s) = Some up \<and> get_upload uid (srv_db s') = None
        \<and> sorted_wrt (<) (map fst requested) \<and> list_all2 (part_accepted hex_decode) parts requested
        \<and> (\<forall>p \<in> set parts. part_upload_id p = uid \<and> part_stored (srv_db s) p)
        \<and> (\<forall>p \<in> set (butlast parts). min_multipart_part \<le> part_size p)
        \<and> lookup (srv_db s') = (lookup (srv_db s))((up_bucket up, up_key up) \<mapsto> ob)
        \<and> obj_size ob = sum_list (map part_size parts) \<and> obj_size ob \<le> ue_max_object_size (en_upload env)
        \<and> obj_metadata ob = up_metadata up
        \<and> obj_etag ob = composite_etag (ue_md5_hex (en_upload env))
            (concat (map (\<lambda>p. the (hex_decode (normalize_etag (part_etag p)))) parts)) (length requested)
        \<and> map blk_id (obj_blocks ob) = map blk_id (concat (map part_blocks parts))
        \<and> contiguous 0 (obj_blocks ob)"
proof -
  have s: "schema_ok (srv_db s)" using ok by (simp add: db_ok_def)
  from get_parts_reads [OF s, of uid] obtain ps where ps: "get_parts uid False (srv_db s) = Inr ps"
    "\<forall>p \<in> set ps. part_upload_id p = uid \<and> part_stored (srv_db s) p" by blast
  let ?collect = "collect_parts hex_decode (ue_max_object_size (en_upload env)) (length requested) 0 requested (by_number ps) 0 [] []"
  show ?thesis
  proof (cases "(\<exists>up. multipart_upload uid (srv_db s) = Inr up) \<and> requested \<noteq> [] \<and> \<not> max_multipart_parts < length requested
      \<and> in_part_order requested \<and> (\<exists>x. ?collect = Inr x)")
    case False
    then have "\<exists>e. r = Inl e \<and> s' = s"
      using comp ps(1) by (cases "multipart_upload uid (srv_db s)"; cases ?collect) (auto simp: complete_multipart_def split: if_splits)
    then show ?thesis by auto
  next
    case True
    then obtain up ordered sz composite where c: "multipart_upload uid (srv_db s) = Inr up" "requested \<noteq> []"
      "\<not> max_multipart_parts < length requested" "in_part_order requested" "?collect = Inr (ordered, sz, composite)" by auto
    from collect_parts_Inr [OF c(5), of "set ps"] by_number_mem obtain parts where
      parts: "ordered = parts" "list_all2 (part_accepted hex_decode) parts requested" "set parts \<subseteq> set ps"
        "sz = sum_list (map part_size parts)"
        "composite = concat (map (\<lambda>p. the (hex_decode (normalize_etag (part_etag p)))) parts)"
        "\<forall>p \<in> set (butlast parts). min_multipart_part \<le> part_size p" "sz \<le> ue_max_object_size (en_upload env)"
      using c(2) by fastforce
    let ?etag = "composite_etag (ue_md5_hex (en_upload env)) composite (length requested)"
    obtain x d where cm: "commit_upload (en_clock env 3) uid sz ?etag ordered default_condition (srv_db s) = (x, d)"
      by (cases "commit_upload (en_clock env 3) uid sz ?etag ordered default_condition (srv_db s)") auto
    show ?thesis
    proof (cases "\<exists>ob old. x = Inr (Some (ob, old))")
      case False
      then have "d = srv_db s" using commit_upload_cases [OF ok cm] by auto
      moreover have "\<exists>e. r = Inl e \<and> s' = s\<lparr>srv_db := d\<rparr>"
        using comp ps(1) c cm False by (auto simp: complete_multipart_def split: sum.splits option.splits)
      ultimately show ?thesis by auto
    next
      case ex: True
      then obtain ob old where x: "x = Inr (Some (ob, old))" by blast
      have r: "r = Inr ob" "s' = s\<lparr>srv_db := d\<rparr>"
        using comp ps(1) c cm x by (auto simp: complete_multipart_def)
      from commit_upload_cases [OF ok cm] x obtain ur where
        ur: "upload_rows (srv_db s) uid = [ur]" and lay: "validate_parts_layout ordered = Inr sz"
        and tx: "commit_upload_tx (en_clock env 3) ur sz ?etag ordered default_condition (srv_db s) = Inr (old, d)"
        and get: "get_object (urow_bucket ur) (urow_key ur) d = Inr (Some ob)" by auto
      note row = get_upload_row [OF ok ur] and res = commit_upload_tx_result [OF ok ur lay tx]
      have "db_ok d" using db_ok_commit_upload [OF ok] cm by (metis snd_conv)
      from get_object_source_valid [OF this get] have "contiguous 0 (obj_blocks ob)" by (simp add: source_valid_def)
      moreover have "up_bucket (upload_from_row ur) = urow_bucket ur" "up_key (upload_from_row ur) = urow_key ur"
        "up_metadata (upload_from_row ur) = urow_metadata ur" by (simp_all add: upload_from_row_def)
      moreover have "sorted_wrt (<) (map fst requested)" using c(4) by (simp add: in_part_order_sorted)
      moreover have "\<forall>p \<in> set parts. part_upload_id p = uid \<and> part_stored (srv_db s) p" using parts(3) ps(2) by blast
      ultimately show ?thesis
        using res get row(2) parts r
        by (intro exI [of _ "upload_from_row ur"] exI [of _ parts] | simp add: all_blocks_def)+
    qed
  qed
qed

end
