(* ===== verification/Complete_Reads.thy ===== *)
theory Complete_Reads
  imports Download
begin

text \<open>
  Reads that succeed. \<open>Download\<close> shows that a stream never carries wrong bytes; here Telegram is
  reachable, and the stream then carries all of them and no error: \<open>telegram_serves\<close> says that a
  backend answers a request for a block with the whole of it.
\<close>

section \<open>The contract\<close>

locale complete_reader =
  fixes read :: "block_ref \<Rightarrow> int \<Rightarrow> int \<Rightarrow> error + stream"
    and serves :: "block_ref \<Rightarrow> bytes \<Rightarrow> int \<Rightarrow> int \<Rightarrow> bool"
  assumes read_complete: "serves b c s e \<Longrightarrow> 0 \<le> s \<Longrightarrow> s \<le> e \<Longrightarrow> e < int (length c)
    \<Longrightarrow> \<exists>items. read b s e = Inr items \<and> collect items = (slice s e c, None)"

sublocale complete_reader \<subseteq> block_reader read serves
proof unfold_locales
  fix b s e items c
  assume "read b s e = Inr items" "0 \<le> s" "s \<le> e" "e < int (length c)" "serves b c s e"
  with read_complete [of b c s e] show "delivers items (slice s e c)" by (auto simp: delivers_def)
qed

lemma wanted_from_slice: "wanted_from 0 s e R = slice (max 0 s) e R"
  by (auto simp: wanted_from_def slice_def max_def)

lemma forward_clean:
  assumes "\<And>n. \<exists>w. gate n = Inr w" and "snd (collect s) = None"
  shows "\<exists>out. forward gate s = (out, False) \<and> collect out = collect s"
  using assms(2)
proof (induction s rule: collect.induct)
  case (3 c s)
  then obtain out where "forward gate s = (out, False)" "collect out = collect s" by auto
  moreover obtain w where "gate (length c) = Inr w" using assms(1) by blast
  ultimately show ?case by (cases "c = []") simp_all
qed simp_all

context complete_reader
begin

lemma range_stream_unbroken:
  assumes "contiguous off bs" and "list_all2 (\<lambda>b c. blk_size b = int (length c)) bs cs"
    and "\<forall>(b, c) \<in> set (zip bs cs). \<forall>s e. serves b c s e"
    and "s \<le> e" and gate: "\<And>n. \<exists>w. gate n = Inr w"
  shows "snd (collect (range_stream read gate bs s e)) = None"
  using assms(1-3)
proof (induction bs arbitrary: off cs)
  case (Cons b bs)
  from Cons.prems(2) obtain c cs' where cs: "cs = c # cs'" "blk_size b = int (length c)"
      "list_all2 (\<lambda>b c. blk_size b = int (length c)) bs cs'"
    by (auto simp: list_all2_Cons1)
  have b: "blk_offset b = off" "contiguous (off + int (length c)) bs" and ne: "c \<noteq> []"
    using Cons.prems(1) cs(2) by auto
  have serve: "\<forall>s e. serves b c s e" "\<forall>(b, c) \<in> set (zip bs cs'). \<forall>s e. serves b c s e"
    using Cons.prems(3) cs(1) by auto
  have IH: "snd (collect (range_stream read gate bs s e)) = None"
    using b(2) cs(3) serve(2) by (rule Cons.IH)
  let ?s = "max s off - off" and ?e = "min e (off + int (length c) - 1) - off"
  show ?case
  proof (cases "off + int (length c) - 1 < s \<or> off > e")
    case False
    have "\<exists>items. read b ?s ?e = Inr items \<and> collect items = (slice ?s ?e c, None)"
      by (rule read_complete) (use False assms(4) serve(1) ne in auto)
    then obtain items where items: "read b ?s ?e = Inr items" "snd (collect items) = None" by auto
    from forward_clean [of gate, OF gate items(2)] obtain out where
      "forward gate items = (out, False)" "snd (collect out) = None" using items(2) by auto
    with False b(1) cs(2) items(1) IH show ?thesis by (simp add: Let_def collect_append)
  qed (use IH b(1) cs(2) in \<open>auto simp: Let_def\<close>)
qed simp

lemma range_stream_complete:
  assumes "contiguous 0 bs" and "list_all2 (\<lambda>b c. blk_size b = int (length c)) bs cs"
    and "\<forall>(b, c) \<in> set (zip bs cs). \<forall>s e. serves b c s e"
    and "s \<le> e" and "\<And>n. \<exists>w. gate n = Inr w"
  shows "collect (range_stream read gate bs s e) = (slice (max 0 s) e (concat cs), None)"
  using range_stream_from [OF assms(1-4), of gate] range_stream_unbroken [OF assms]
  by (simp add: delivers_def wanted_from_slice prod_eq_iff)

end

section \<open>The backends\<close>

definition bot_serves :: "bot_env \<Rightarrow> block_ref \<Rightarrow> bytes \<Rightarrow> int \<Rightarrow> int \<Rightarrow> bool" where
  "bot_serves env b c start stop \<longleftrightarrow> int (length c) \<le> i64_max
     \<and> (\<exists>path. be_get_file env (blk_file_id b) = Inr (Some path)
        \<and> (if be_local env \<and> take 1 path = lit ''/''
           then \<exists>src. be_open env path (nat start) (nat (stop - start + 1)) = Inr src
             \<and> collect src = (slice start stop c, None)
           else \<exists>r. be_get env (trim_start_by (\<lambda>c. c = 0x2F) path) start stop 0 = Inr r
             \<and> (is_success (http_status r) \<or> http_status r = 206)
             \<and> collect (http_chunks r) = (if http_status r = 206 then slice start stop c else c, None)))"

definition grammers_serves :: "grammers_env \<Rightarrow> block_ref \<Rightarrow> bytes \<Rightarrow> int \<Rightarrow> int \<Rightarrow> bool" where
  "grammers_serves env b c start stop \<longleftrightarrow> int (length c) \<le> 2 ^ 31 * download_chunk_size
     \<and> to_i32 (blk_message_id b) = Inr (blk_message_id b)
     \<and> (\<exists>doc. ge_message env (blk_message_id b) = Inr (Some (Some doc))
        \<and> (\<forall>sz. doc_size doc = Some sz \<longrightarrow> sz = length c)
        \<and> (\<forall>k. collect (doc_chunks doc k) = (drop (k * nat download_chunk_size) c, None)))"

definition telegram_serves ::
  "telegram_client \<Rightarrow> bot_env \<Rightarrow> grammers_env \<Rightarrow> block_ref \<Rightarrow> bytes \<Rightarrow> int \<Rightarrow> int \<Rightarrow> bool"
where
  "telegram_serves tg api gram b c start stop =
     (0 \<le> start \<and> start \<le> stop \<and> stop < int (length c) \<longrightarrow>
        (case blk_backend b of
           BotApi \<Rightarrow> bot_serves api b c start stop
         | Grammers \<Rightarrow> has_grammers tg \<and> grammers_serves gram b c start stop))"

lemma range_length_in: "0 \<le> s \<Longrightarrow> s \<le> e \<Longrightarrow> e < i64_max \<Longrightarrow> range_length s e = Inr (nat (e - s + 1))"
  by (simp add: range_length_def checked_sub_def checked_add_def i64_defs)

lemma exact_range_stream_whole:
  assumes "collect src = (whole, None)" and "prefix wanted (drop skip whole)"
  shows "collect (exact_range_stream src skip (length wanted)) = (wanted, None)"
proof -
  have d: "delivers (exact_range_stream src skip (length wanted)) wanted"
    by (rule exact_range_stream_delivers [OF assms(2)]) (simp add: assms(1))
  have "length wanted \<le> length whole - skip" using prefix_length_le [OF assms(2)] by simp
  then have "length wanted = 0 \<or> skip + length wanted \<le> length whole" by arith
  then have "wanted = [] \<or> skip + length wanted \<le> length (fst (collect src))" by (simp add: assms(1))
  with d show ?thesis by (auto simp: delivers_def exact_range_stream_complete prod_eq_iff)
qed

lemma slice_prefix: "prefix (slice s e c) (drop (nat s) c)"
  by (simp add: slice_def take_is_prefix)

lemma retry_first: "op 0 = Inr v \<Longrightarrow> fst (retry method i op) = Inr v"
  by (simp add: retry_def eval_nat_numeral)

interpretation bot_api_serves: complete_reader "\<lambda>b. bot_download_stream env (blk_file_id b)" "bot_serves env"
  for env
proof unfold_locales
  fix b c s e
  assume f: "bot_serves env b c s e" and r: "0 \<le> s" "s \<le> e" "e < int (length c)"
  from f obtain path where len: "int (length c) \<le> i64_max" and path: "be_get_file env (blk_file_id b) = Inr (Some path)"
    by (auto simp: bot_serves_def)
  have n: "range_length s e = Inr (length (slice s e c))"
    using range_length_in [OF r(1,2)] r(3) len length_slice [OF r] by simp
  have ok: "\<not> (s < 0 \<or> e < s)" using r by simp
  note defs = bot_download_stream_def ok if_False path bind_res_simps option.case n
  show "\<exists>items. bot_download_stream env (blk_file_id b) s e = Inr items \<and> collect items = (slice s e c, None)"
  proof (cases "be_local env \<and> take 1 path = lit ''/''")
    case True
    with f path obtain src where "be_open env path (nat s) (nat (e - s + 1)) = Inr src"
      and src: "collect src = (slice s e c, None)" by (auto simp: bot_serves_def simp del: lit_simps)
    with True have "bot_download_stream env (blk_file_id b) s e = Inr (exact_range_stream src 0 (length (slice s e c)))"
      using length_slice [OF r] by (simp add: defs del: lit_simps)
    with exact_range_stream_whole [OF src, of "slice s e c" 0] show ?thesis by simp
  next
    case False
    let ?p = "trim_start_by (\<lambda>c. c = 0x2F) path"
    from False f path obtain resp where get: "be_get env ?p s e 0 = Inr resp"
      and st: "is_success (http_status resp) \<or> http_status resp = 206"
      and src: "collect (http_chunks resp) = (if http_status resp = 206 then slice s e c else c, None)"
      unfolding bot_serves_def by (auto simp del: lit_simps)
    let ?skip = "if http_status resp = 206 then 0 else nat s"
    from get st False r have "bot_download_stream env (blk_file_id b) s e
        = Inr (exact_range_stream (http_chunks resp) ?skip (length (slice s e c)))"
      unfolding defs by (subst retry_first [of _ resp]) (auto simp del: lit_simps)
    moreover have "prefix (slice s e c) (drop ?skip (if http_status resp = 206 then slice s e c else c))"
      by (simp add: slice_prefix)
    ultimately show ?thesis using exact_range_stream_whole [OF src] by blast
  qed
qed

interpretation grammers_serves: complete_reader
  "\<lambda>b. grammers_download_stream env (blk_message_id b)" "grammers_serves env" for env
proof unfold_locales
  fix b c s e
  assume f: "grammers_serves env b c s e" and r: "0 \<le> s" "s \<le> e" "e < int (length c)"
  then obtain doc where len: "int (length c) \<le> 2 ^ 31 * download_chunk_size"
    and m: "to_i32 (blk_message_id b) = Inr (blk_message_id b)"
    and doc: "ge_message env (blk_message_id b) = Inr (Some (Some doc))"
    and size: "\<forall>sz. doc_size doc = Some sz \<longrightarrow> sz = length c"
    and src: "\<And>k. collect (doc_chunks doc k) = (drop (k * nat download_chunk_size) c, None)"
    by (auto simp: grammers_serves_def)
  define k where "k = s div download_chunk_size"
  have k: "0 \<le> k" "k < 2 ^ 31" using r len by (simp_all add: k_def download_chunk_size_def)
  have n: "range_length s e = Inr (length (slice s e c))"
    using range_length_in [OF r(1,2)] r len length_slice [OF r] by (simp add: download_chunk_size_def i64_defs)
  have "\<not> (case doc_size doc of None \<Rightarrow> False | Some sz \<Rightarrow> e \<ge> min (int sz) i64_max)"
    using size r len by (auto simp: download_chunk_size_def i64_defs split: option.splits)
  then have "grammers_download_stream env (blk_message_id b) s e
      = Inr (exact_range_stream (doc_chunks doc (nat k)) (nat (s - k * download_chunk_size)) (length (slice s e c)))"
    using r m doc k n by (simp add: grammers_download_stream_def Let_def flip: k_def)
  moreover have "nat (s - k * download_chunk_size) + nat k * nat download_chunk_size = nat s"
  proof -
    have "0 \<le> s - k * download_chunk_size" using r(1) by (simp add: k_def download_chunk_size_def minus_div_mult_eq_mod)
    then show ?thesis using k(1) by (simp add: download_chunk_size_def nat_mult_distrib flip: nat_add_distrib)
  qed
  then have "prefix (slice s e c) (drop (nat (s - k * download_chunk_size)) (drop (nat k * nat download_chunk_size) c))"
    by (simp add: slice_prefix add.commute)
  ultimately show "\<exists>items. grammers_download_stream env (blk_message_id b) s e = Inr items
      \<and> collect items = (slice s e c, None)"
    using exact_range_stream_whole [OF src] by blast
qed

interpretation telegram_serves: complete_reader "download_stream tg api gram" "telegram_serves tg api gram"
  for tg api gram
proof unfold_locales
  fix b c s e
  assume "telegram_serves tg api gram b c s e" "0 \<le> s" "s \<le> e" "e < int (length c)"
  then show "\<exists>items. download_stream tg api gram b s e = Inr items \<and> collect items = (slice s e c, None)"
    using bot_api_serves.read_complete [of api b c s e] grammers_serves.read_complete [of gram b c s e]
    by (cases "blk_backend b") (simp_all add: download_stream_def telegram_serves_def)
qed

end
