(* ===== verification/Engine_Read.thy ===== *)
theory Engine_Read
  imports Engine_Object Complete_Reads
begin

text \<open>
  Reading what was put: the blocks of a stored object hold the pieces of its body, so
  \<open>range_stream\<close> over them delivers the body.
\<close>

section \<open>Reading what was put\<close>

text \<open>The object a put leaves: its blocks lie end to end and each holds its piece of the body.\<close>

lemma put_object_stored:
  assumes "db_ok (srv_db s)" and "0 < ue_chunk_size (en_upload env)"
    and "put_object env uid bucket key (map Inr chunks) metadata expected c s = (Inr ob, s', spawned)"
  defines "ps \<equiv> cut uid 0 (ue_chunk_size (en_upload env)) 0 0 (concat chunks)"
  shows "engine_get_object bucket key (srv_db s') = Inr ob" and "db_ok (srv_db s')"
    and "lookup (srv_db s') (bucket, key) = Some ob" and "contiguous 0 (obj_blocks ob)"
    and "list_all2 (\<lambda>b c. blk_size b = int (length c)) (obj_blocks ob) (map snd ps)"
    and "concat (map snd ps) = concat chunks"
    and "\<forall>(b, c) \<in> set (zip (obj_blocks ob) (map snd ps)). \<exists>p \<in> set ps. holds_piece env b p \<and> c = snd p"
proof -
  from put_object_cases [OF assms(1-3)] obtain chunks' where
    same: "map Inr chunks = (map Inr chunks' :: (error + nat list) list)" and ok: "db_ok (srv_db s')"
    and lk: "lookup (srv_db s') = (lookup (srv_db s))((bucket, key) \<mapsto> ob)"
    and hb: "holds_body env uid (concat chunks') ob" by auto
  have "chunks = chunks'" using same by (rule map_injective) simp
  with hb have hb: "contiguous 0 (obj_blocks ob)" "list_all2 (holds_piece env) (obj_blocks ob) ps"
    by (simp_all add: holds_body_def ps_def)
  show "db_ok (srv_db s')" "lookup (srv_db s') (bucket, key) = Some ob" "contiguous 0 (obj_blocks ob)"
    using ok lk hb(1) by simp_all
  have "bucket_named (srv_db s') bucket"
    by (rule stored_bucket [OF ok, of _ key ob]) (simp add: lk)
  then show "engine_get_object bucket key (srv_db s') = Inr ob"
    using engine_get_object_eq [OF ok, of bucket key] lk by simp
  show "list_all2 (\<lambda>b c. blk_size b = int (length c)) (obj_blocks ob) (map snd ps)"
    using hb(2) by (auto simp: list_all2_conv_all_nth holds_piece_def)
  show "concat (map snd ps) = concat chunks" by (simp add: ps_def cut_concat [OF assms(2)])
  show "\<forall>(b, c) \<in> set (zip (obj_blocks ob) (map snd ps)). \<exists>p \<in> set ps. holds_piece env b p \<and> c = snd p"
  proof clarify
    fix b c assume "(b, c) \<in> set (zip (obj_blocks ob) (map snd ps))"
    then obtain i where i: "i < length (obj_blocks ob)" "i < length ps" "b = obj_blocks ob ! i" "c = snd (ps ! i)"
      by (auto simp: in_set_zip)
    with hb(2) have "holds_piece env b (ps ! i)" by (simp add: list_all2_conv_all_nth)
    with i nth_mem [OF i(2)] show "\<exists>p \<in> set ps. holds_piece env b p \<and> c = snd p" by blast
  qed
qed

lemma put_object_readable:
  assumes "db_ok (srv_db s)" and "0 < ue_chunk_size (en_upload env)"
    and "put_object env uid bucket key (map Inr chunks) metadata expected c s = (Inr ob, s', spawned)"
    and "\<And>b p s e. p \<in> set (cut uid 0 (ue_chunk_size (en_upload env)) 0 0 (concat chunks)) \<Longrightarrow> holds_piece env b p
        \<Longrightarrow> telegram_faithful api gram b (snd p) s e"
    and "0 \<le> start" and "start \<le> stop"
  shows "engine_get_object bucket key (srv_db s') = Inr ob
    \<and> delivers (range_stream (download_stream tg api gram) gate (obj_blocks ob) start stop)
        (slice start stop (concat chunks))"
proof -
  note st = put_object_stored [OF assms(1-3)]
  have "\<forall>(b, c) \<in> set (zip (obj_blocks ob) (map snd (cut uid 0 (ue_chunk_size (en_upload env)) 0 0 (concat chunks)))).
      \<forall>s e. telegram_faithful api gram b c s e"
    using st(7) assms(4) by fastforce
  from telegram.range_stream_delivers [OF st(4,5) this assms(5,6)] st(1,6) show ?thesis by metis
qed

end
