(* ===== verification/Spec_Engine.thy ===== *)
theory Spec_Engine
  imports Examples_Transfer Engine_Multipart Engine_Read
begin

text \<open>
  The properties of the engine's requests: what a put, a part upload and a completion store,
  and that what was put is what is read.
\<close>

section \<open>Whole objects\<close>

text \<open>
  C14: \<open>put_object\<close> is all or nothing. With any error (of the body, of Telegram, of the
  condition, of the database) no object and no upload in progress has changed. On success the
  body arrived whole, the condition held for the object replaced, exactly this key changes, and
  the object has the size, the MD5 and the metadata of the request and blocks that lie end to
  end and hold the consecutive pieces of the body, each the message Telegram stored for it.
\<close>

theorem put_object_outcome:
  assumes "db_ok (srv_db s)" and "0 < ue_chunk_size (en_upload env)"
    and "put_object env uid bucket key frames metadata expected c s = (r, s', spawned)"
  shows "db_ok (srv_db s') \<and> multipart_uploads (srv_db s') = multipart_uploads (srv_db s)
    \<and> (case r of
         Inl e \<Rightarrow> lookup (srv_db s') = lookup (srv_db s)
       | Inr ob \<Rightarrow> \<exists>chunks. frames = map Inr chunks \<and> bucket_named (srv_db s) bucket
           \<and> (expected \<noteq> None \<longrightarrow> expected = Some (int (length (concat chunks))))
           \<and> condition_allows c (map_option obj_etag (lookup (srv_db s) (bucket, key)))
           \<and> lookup (srv_db s') = (lookup (srv_db s))((bucket, key) \<mapsto> ob)
           \<and> obj_metadata ob = metadata \<and> holds_body env uid (concat chunks) ob)"
  using assms by (rule put_object_cases)

lemma ex_cut_order: "set (map snd (en_order (ex_engine n))) = set (cut [117] n 2 0 0 [5, 6, 7])"
  "distinct (map snd (en_order (ex_engine n)))"
  by (auto simp: cut.simps ex_engine_def)

lemma ex_stores: "row_messages d \<inter> {40, 41} = {} \<Longrightarrow> stores (ex_engine n) d (cut [117] n 2 0 0 [5, 6, 7])"
  by (auto simp: stores_def cut.simps ex_store_def)

lemma ex_put:
  "\<exists>ob s' sp. put_object (ex_engine 0) [117] ex_bucket ex_key (map Inr [[5], [6, 7]]) default_metadata (Some 3)
     default_condition (ex_server ex_db1) = (Inr ob, s', sp)"
  by (rule put_object_total)
    (use ex_ok(1) ex_works(1) ex_cut_order [of 0] ex_stores [of ex_db1 0] in
      \<open>simp_all add: ex_db1_def empty_db_def bucket_named_def get_upload_def upload_rows_def row_messages_def pairs_def
        default_condition_def condition_allows_def i64_defs\<close>)

theorem put_object_outcome_witness:
  "\<exists>ob s' sp. put_object (ex_engine 0) [117] ex_bucket ex_key (map Inr [[5], [6, 7]]) default_metadata (Some 3)
     default_condition (ex_server ex_db1) = (Inr ob, s', sp)
   \<and> lookup (srv_db s') = (lookup ex_db1)((ex_bucket, ex_key) \<mapsto> ob) \<and> obj_size ob = 3"
proof -
  from ex_put obtain ob s' sp where put: "put_object (ex_engine 0) [117] ex_bucket ex_key (map Inr [[5], [6, 7]])
     default_metadata (Some 3) default_condition (ex_server ex_db1) = (Inr ob, s', sp)" by blast
  from put_object_outcome [OF _ _ put] ex_ok(1)
  have "lookup (srv_db s') = (lookup ex_db1)((ex_bucket, ex_key) \<mapsto> ob) \<and> obj_size ob = 3"
    by (auto simp: holds_body_def)
  with put show ?thesis by blast
qed

text \<open>
  C40: a put succeeds when it should: the bucket exists, the upload id is new, the body is within
  the limits and as long as declared, the limiter admits it, Telegram stores its pieces (in any
  order) under new message ids, and the condition holds.
\<close>

theorem put_object_succeeds:
  assumes "db_ok (srv_db s)" and "bucket_named (srv_db s) bucket" and "get_upload uid (srv_db s) = None"
    and "env_works (en_upload env)" and "0 < ue_chunk_size (en_upload env)"
    and "int (length (concat chunks)) \<le> min i64_max (ue_max_object_size (en_upload env))"
    and "len \<noteq> None \<longrightarrow> len = Some (int (length (concat chunks)))"
    and "distinct (map snd (en_order env))"
    and "set (map snd (en_order env)) = set (cut uid 0 (ue_chunk_size (en_upload env)) 0 0 (concat chunks))"
    and "stores env (srv_db s) (cut uid 0 (ue_chunk_size (en_upload env)) 0 0 (concat chunks))"
    and "condition_allows c (map_option obj_etag (lookup (srv_db s) (bucket, key)))"
  shows "\<exists>ob s' spawned. put_object env uid bucket key (map Inr chunks) metadata len c s = (Inr ob, s', spawned)"
  using assms by (rule put_object_total)

theorem put_object_succeeds_witness:
  "\<exists>ob s' sp. put_object (ex_engine 0) [117] ex_bucket ex_key (map Inr [[5, 6], [], [7]]) default_metadata None
     default_condition (ex_server ex_db1) = (Inr ob, s', sp)"
  by (rule put_object_succeeds)
    (use ex_ok(1) ex_works(1) ex_cut_order [of 0] ex_stores [of ex_db1 0] in
      \<open>simp_all add: ex_db1_def empty_db_def bucket_named_def get_upload_def upload_rows_def row_messages_def pairs_def
        default_condition_def condition_allows_def i64_defs\<close>)

text \<open>
  \<open>get_object\<close> returns exactly the stored object: in a consistent database its layout check
  never rejects one, so a missing bucket and a missing key are its only errors.
\<close>

theorem get_object_exact:
  assumes "db_ok d"
  shows "engine_get_object bucket key d =
    (if \<not> bucket_named d bucket then Inl NoSuchBucket
     else case lookup d (bucket, key) of None \<Rightarrow> Inl NoSuchKey | Some ob \<Rightarrow> Inr ob)"
  using assms by (rule engine_get_object_eq)

theorem get_object_exact_witness: "engine_get_object ex_bucket ex_key ex_db5 = Inr ex_object"
  using get_object_exact [OF ex_ok(5), of ex_bucket ex_key]
  by (simp add: lookup_def ex_get) (simp add: ex_defs bucket_named_def)

text \<open>
  What was put is what is read. After a successful put, \<open>get_object\<close> finds the object, and
  \<open>range_stream\<close> over its blocks delivers any range of the body that was sent, when Telegram
  answers truthfully for the messages that hold its pieces.
\<close>

theorem put_get_roundtrip:
  assumes "db_ok (srv_db s)" and "0 < ue_chunk_size (en_upload env)"
    and "put_object env uid bucket key (map Inr chunks) metadata expected c s = (Inr ob, s', spawned)"
    and "\<And>b p s e. p \<in> set (cut uid 0 (ue_chunk_size (en_upload env)) 0 0 (concat chunks)) \<Longrightarrow> holds_piece env b p
        \<Longrightarrow> telegram_faithful api gram b (snd p) s e"
    and "0 \<le> start" and "start \<le> stop"
  shows "engine_get_object bucket key (srv_db s') = Inr ob
    \<and> delivers (range_stream (download_stream tg api gram) gate (obj_blocks ob) start stop)
        (slice start stop (concat chunks))"
  using assms by (rule put_object_readable)

theorem put_get_roundtrip_witness:
  "\<exists>ob s' sp. put_object (ex_engine 0) [117] ex_bucket ex_key (map Inr [[5], [6, 7]]) default_metadata (Some 3)
     default_condition (ex_server ex_db1) = (Inr ob, s', sp)
   \<and> engine_get_object ex_bucket ex_key (srv_db s') = Inr ob
   \<and> delivers (range_stream (download_stream ex_tg ex_api ex_gram) (\<lambda>_. Inr 0) (obj_blocks ob) 1 2) [6, 7]"
proof -
  from ex_put obtain ob s' sp where put: "put_object (ex_engine 0) [117] ex_bucket ex_key (map Inr [[5], [6, 7]])
     default_metadata (Some 3) default_condition (ex_server ex_db1) = (Inr ob, s', sp)" by blast
  have "telegram_faithful ex_api ex_gram b (snd p) s e"
    if "p \<in> set (cut [117] 0 (ue_chunk_size (en_upload (ex_engine 0))) 0 0 (concat [[5], [6, 7]]))" "holds_piece (ex_engine 0) b p" for b p s e
    using that by (auto simp: cut.simps holds_piece_def ex_store_def telegram_faithful_def bot_faithful_def ex_api_def trim_start_by_def)
  from put_get_roundtrip [OF _ _ put this, of 1 2 ex_tg "\<lambda>_. Inr 0"] ex_ok(1)
  have "engine_get_object ex_bucket ex_key (srv_db s') = Inr ob
   \<and> delivers (range_stream (download_stream ex_tg ex_api ex_gram) (\<lambda>_. Inr 0) (obj_blocks ob) 1 2) [6, 7]"
    by (simp add: slice_def del: range_stream.simps)
  with put show ?thesis by blast
qed

section \<open>Multipart uploads\<close>

text \<open>
  C17: \<open>upload_part\<close> stores exactly the part it returns: its size, MD5 and blocks are those of the
  body, no object changes, and no other upload or part; with an error nothing a client can see
  has changed.
\<close>

theorem upload_part_outcome:
  assumes "db_ok (srv_db s)" and "0 < ue_chunk_size (en_upload env)"
    and "upload_part env uid n frames expected s = (r, s', spawned)"
  shows "db_ok (srv_db s') \<and> lookup (srv_db s') = lookup (srv_db s)
    \<and> multipart_uploads (srv_db s') = multipart_uploads (srv_db s)
    \<and> (case r of
         Inl e \<Rightarrow> multipart_parts (srv_db s') = multipart_parts (srv_db s)
       | Inr part \<Rightarrow> \<exists>chunks us. frames = map Inr chunks \<and> part_stored (srv_db s') part
           \<and> part = part_of (en_upload env) uid n (concat chunks) us
           \<and> contiguous 0 (part_blocks part) \<and> total_size (part_blocks part) = int (length (concat chunks))
           \<and> 1 \<le> n \<and> n \<le> 10000)"
  using assms by (rule upload_part_cases)

definition ex_mdb :: db where
  "ex_mdb = ex_db1\<lparr>multipart_uploads := [\<lparr>urow_upload_id = [117], urow_bucket = ex_bucket, urow_key = ex_key,
     urow_metadata = default_metadata, urow_kind = kind_multipart, urow_created_at = 1\<rparr>]\<rparr>"

lemma ex_mdb_ok: "db_ok ex_mdb"
proof -
  have "snd (create_upload \<lparr>up_upload_id = [117], up_bucket = ex_bucket, up_key = ex_key,
      up_metadata = default_metadata, up_kind = kind_multipart, up_created_at = 1\<rparr> ex_db1) = ex_mdb"
    by (simp add: create_upload_def insert_upload_def transact_def ex_mdb_def ex_db1_def empty_db_def
        bucket_named_def upload_rows_def)
  with db_ok_create_upload [OF ex_ok(1)] show ?thesis by metis
qed

definition ex_part_run :: "part_record handled" where
  "ex_part_run = upload_part (ex_engine 1) [117] 1 (map Inr [[5], [6, 7]]) (Some 3) (ex_server ex_mdb)"

definition ex_mrow :: "int \<Rightarrow> int \<Rightarrow> nat \<Rightarrow> int \<Rightarrow> int \<Rightarrow> block_row" where
  "ex_mrow i m f sz t = \<lparr>trow_id = i, trow_chat_id = 7, trow_message_id = m, trow_backend = lit ''bot_api'',
     trow_document_id = None, trow_file_id = [f], trow_file_unique_id = [], trow_size = sz, trow_message_date = 5,
     trow_ref_count = 1, trow_state = Staged, trow_created_at = t\<rparr>"

definition ex_mdb2 :: db where
  "ex_mdb2 = ex_mdb\<lparr>telegram_blocks := [ex_mrow 1 41 98 1 2, ex_mrow 2 40 97 2 3],
     multipart_parts := [\<lparr>prow_upload_id = [117], prow_number = 1, prow_size = 3, prow_etag = [5, 6, 7]\<rparr>],
     multipart_part_blocks :=
       [\<lparr>pb_upload_id = [117], pb_number = 1, pb_ordinal = 0, pb_block_id = 2, pb_byte_offset = 0, pb_size = 2\<rparr>,
        \<lparr>pb_upload_id = [117], pb_number = 1, pb_ordinal = 1, pb_block_id = 1, pb_byte_offset = 2, pb_size = 1\<rparr>]\<rparr>"

lemma ex_part_ran: "\<exists>part sp. ex_part_run = (Inr part, ex_server ex_mdb2, sp)"
proof -
  have "case ex_part_run of (Inr part, s, sp) \<Rightarrow> s = ex_server ex_mdb2 | _ \<Rightarrow> False" by code_simp
  then show ?thesis by (auto split: prod.splits sum.splits)
qed

theorem upload_part_outcome_witness:
  "\<exists>part s' sp. ex_part_run = (Inr part, s', sp) \<and> part_stored (srv_db s') part \<and> db_ok (srv_db s')"
proof -
  from ex_part_ran obtain part s' sp where run: "ex_part_run = (Inr part, s', sp)" by blast
  from upload_part_outcome [OF _ _ run [unfolded ex_part_run_def]] ex_mdb_ok
  have "part_stored (srv_db s') part" "db_ok (srv_db s')" by auto
  with run show ?thesis by blast
qed

text \<open>
  C16: \<open>complete_multipart\<close> is all or nothing, and a success is exactly what was requested: the part
  numbers ascend, each part is stored with the ETag the request names, all but the last have at
  least 5 MiB, the sizes add up to the object's, within the limit, and the object's blocks are
  those of the parts in order; its ETag is the MD5 of the parts' MD5s and the number of parts.
\<close>

theorem complete_multipart_outcome:
  assumes "db_ok (srv_db s)" and "complete_multipart env hex_decode uid requested s = (r, s', spawned)"
  shows "case r of
      Inl e \<Rightarrow> s' = s
    | Inr ob \<Rightarrow> \<exists>up parts. get_upload uid (srv_db s) = Some up \<and> get_upload uid (srv_db s') = None
        \<and> sorted_wrt (<) (map fst requested) \<and> list_all2 (part_accepted hex_decode) parts requested
        \<and> (\<forall>p \<in> set parts. part_upload_id p = uid \<and> part_stored (srv_db s) p)
        \<and> (\<forall>p \<in> set (butlast parts). min_multipart_part \<le> part_size p)
        \<and> lookup (srv_db s') = (lookup (srv_db s))((up_bucket up, up_key up) \<mapsto> ob)
        \<and> obj_size ob = sum_list (map part_size parts) \<and> obj_size ob \<le> ue_max_object_size (en_upload env)
        \<and> obj_metadata ob = up_metadata up
        \<and> obj_etag ob = composite_etag (ue_md5_hex (en_upload env))
            (concat (map (\<lambda>p. the (hex_decode (normalize_etag (part_etag p)))) parts)) (length requested)
        \<and> map blk_id (obj_blocks ob) = map blk_id (concat (map part_blocks parts))
        \<and> contiguous 0 (obj_blocks ob)"
  using assms by (rule complete_multipart_cases)

definition ex_complete_run :: "object_record handled" where
  "ex_complete_run = complete_multipart (ex_engine 1) (\<lambda>_. Some (replicate 16 0)) [117] [(1, [5, 6, 7])]
     (ex_server ex_mdb2)"

definition ex_mref :: "int \<Rightarrow> int \<Rightarrow> nat \<Rightarrow> int \<Rightarrow> int \<Rightarrow> int \<Rightarrow> block_ref" where
  "ex_mref i m f n off sz = \<lparr>blk_id = i, blk_ordinal = n, blk_offset = off, blk_size = sz, blk_chat_id = 7,
     blk_message_id = m, blk_backend = BotApi, blk_document_id = None, blk_file_id = [f],
     blk_file_unique_id = [], blk_message_date = 5\<rparr>"

definition ex_mpart :: part_record where
  "ex_mpart = \<lparr>part_upload_id = [117], part_number = 1, part_size = 3, part_etag = [5, 6, 7],
     part_blocks = [ex_mref 2 40 97 0 0 2, ex_mref 1 41 98 1 2 1]\<rparr>"

lemma ex_get_parts: "get_parts [117] False ex_mdb2 = Inr [ex_mpart]"
  by (simp add: get_parts_def ex_mdb2_def ex_mdb_def ex_db1_def empty_db_def ordered_part_blocks_def rows_of_upload_def
     join_blocks_def part_block_ref_def block_from_row_def ex_mrow_def ex_backend [simplified]
     group_entries_def push_entry_def ex_mpart_def ex_mref_def)

lemma ex_collect: "collect_parts (\<lambda>_. Some (replicate 16 0)) 10 1 0 [(1, [5, 6, 7])] (by_number [ex_mpart]) 0 [] []
   = Inr ([ex_mpart], 3, replicate 16 0)"
  by (simp add: by_number_def ex_mpart_def i64_defs checked_add_def)
lemma ex_mlayout: "validate_parts_layout [ex_mpart] = Inr 3"
  by (simp add: validate_parts_layout_def ex_mpart_def ex_mref_def i64_defs checked_add_def)

lemma ex_mdb2_ok: "db_ok ex_mdb2"
proof -
  from ex_part_ran obtain part sp where "ex_part_run = (Inr part, ex_server ex_mdb2, sp)" by blast
  with upload_part_cases [of "ex_server ex_mdb" "ex_engine 1" "[117]" 1 "map Inr [[5], [6, 7]]" "Some 3" "Inr part"
      "ex_server ex_mdb2" sp] ex_mdb_ok
  show ?thesis by (simp add: ex_part_run_def)
qed

lemma ex_complete_ran: "\<exists>ob s' sp. ex_complete_run = (Inr ob, s', sp)"
proof -
  have "schema_ok ex_mdb2" using ex_mdb2_ok by (simp add: db_ok_def)
  from get_parts_reads [OF this, of "[117]"] have st: "part_stored ex_mdb2 ex_mpart" by (simp add: ex_get_parts)
  have lk: "lookup ex_mdb2 bk = None" for bk
    by (cases bk) (simp add: lookup_def get_object_def object_rows_def ex_mdb2_def ex_mdb_def ex_db1_def empty_db_def)
  have up: "multipart_upload [117] ex_mdb2 = Inr x" "get_upload [117] ex_mdb2 = Some x"
    if "x = \<lparr>up_upload_id = [117], up_bucket = ex_bucket, up_key = ex_key, up_metadata = default_metadata,
      up_kind = kind_multipart, up_created_at = 1\<rparr>" for x
    using that by (simp_all add: multipart_upload_def get_upload_def upload_rows_def ex_mdb2_def ex_mdb_def
        ex_db1_def empty_db_def upload_from_row_def)
  from commit_upload_total [OF ex_mdb2_ok up(2) [OF refl] ex_mlayout, of default_condition 7
      "composite_etag (\<lambda>b. b) (replicate 16 0) 1"] st lk
  obtain ob old d where "commit_upload 7 [117] 3 (composite_etag (\<lambda>b. b) (replicate 16 0) 1) [ex_mpart]
      default_condition ex_mdb2 = (Inr (Some (ob, old)), d)"
    by (auto simp: ex_mpart_def default_condition_def condition_allows_def)
  with ex_collect show ?thesis
    by (simp add: ex_complete_run_def complete_multipart_def max_multipart_parts_def ex_engine_clock ex_md5 [abs_def]
        up(1) [OF refl] ex_get_parts del: collect_parts.simps)
qed

theorem complete_multipart_outcome_witness:
  "\<exists>ob s' sp. ex_complete_run = (Inr ob, s', sp) \<and> contiguous 0 (obj_blocks ob) \<and> get_upload [117] (srv_db s') = None"
proof -
  from ex_complete_ran obtain ob s' sp where run: "ex_complete_run = (Inr ob, s', sp)" by blast
  have ok: "db_ok (srv_db (ex_server ex_mdb2))" using ex_mdb2_ok by simp
  from complete_multipart_outcome [OF ok run [unfolded ex_complete_run_def]]
  have "contiguous 0 (obj_blocks ob)" "get_upload [117] (srv_db s') = None" by auto
  with run show ?thesis by blast
qed

end
