(* ===== verification/Utf8.thy ===== *)
theory Utf8
  imports Prelude
begin

text \<open>
  Rust's \<open>str\<close> and SQLite's BINARY collation both compare UTF-8 bytes, while the model keeps
  a string as its list of Unicode scalar values. This theory encodes scalar values as UTF-8
  and shows that the two orders coincide, which is what makes \<open><\<close> on \<open>str\<close> the order of the
  code's comparisons and of the SQL \<open>ORDER BY object_key\<close>.
\<close>

definition utf8_char :: "nat \<Rightarrow> nat list" where
  "utf8_char c =
     (if c < 0x80 then [c]
      else if c < 0x800 then [0xC0 + c div 64, 0x80 + c mod 64]
      else if c < 0x10000 then [0xE0 + c div 4096, 0x80 + c div 64 mod 64, 0x80 + c mod 64]
      else [0xF0 + c div 262144, 0x80 + c div 4096 mod 64, 0x80 + c div 64 mod 64,
            0x80 + c mod 64])"

definition utf8 :: "str \<Rightarrow> nat list" where
  "utf8 s = concat (map utf8_char s)"

text \<open>\<open>str::len\<close> counts bytes.\<close>

definition byte_len :: "str \<Rightarrow> nat" where
  "byte_len s = length (utf8 s)"

lemma utf8_simps [simp]: "utf8 [] = []" "utf8 (c # s) = utf8_char c @ utf8 s"
  by (simp_all add: utf8_def)

lemma utf8_append [simp]: "utf8 (s @ t) = utf8 s @ utf8 t"
  by (simp add: utf8_def)

lemma utf8_char_nonempty [simp]: "utf8_char c \<noteq> []"
  by (simp add: utf8_char_def)

lemma div_step: "(c::nat) < d \<Longrightarrow> c div k < d div k \<or> c div k = d div k \<and> c mod k < d mod k"
proof -
  assume lt: "c < d"
  have le: "c div k \<le> d div k" using lt by (simp add: div_le_mono)
  show ?thesis
  proof (cases "c div k = d div k")
    case True
    have "c = c div k * k + c mod k" and "d = d div k * k + d mod k" by simp_all
    with True lt have "c mod k < d mod k"
      by (metis add_less_cancel_left)
    with True show ?thesis by simp
  next
    case False
    with le show ?thesis by simp
  qed
qed

lemma div_div_64: "(c::nat) div 4096 = c div 64 div 64" "c div 262144 = c div 64 div 64 div 64"
  by (simp_all add: div_mult2_eq [symmetric])

text \<open>The comparison of two encodings, over the quotients and remainders they are built from.\<close>

definition utf8_bytes :: "nat \<Rightarrow> nat \<Rightarrow> nat \<Rightarrow> nat \<Rightarrow> nat \<Rightarrow> nat \<Rightarrow> nat \<Rightarrow> nat list" where
  "utf8_bytes c q1 m1 q2 m2 q3 m3 =
     (if c < 0x80 then [c]
      else if c < 0x800 then [0xC0 + q1, 0x80 + m1]
      else if c < 0x10000 then [0xE0 + q2, 0x80 + m2, 0x80 + m1]
      else [0xF0 + q3, 0x80 + m3, 0x80 + m2, 0x80 + m1])"

lemma utf8_char_bytes:
  "utf8_char c = utf8_bytes c (c div 64) (c mod 64) (c div 64 div 64) (c div 64 mod 64)
     (c div 64 div 64 div 64) (c div 64 div 64 mod 64)"
  by (simp add: utf8_char_def utf8_bytes_def div_div_64)

lemma utf8_bytes_less:
  assumes "c < d"
    and "q1 < r1 \<or> q1 = r1 \<and> m1 < n1"
    and "q1 < r1 \<longrightarrow> q2 < r2 \<or> q2 = r2 \<and> m2 < n2"
    and "q2 < r2 \<longrightarrow> q3 < r3 \<or> q3 = r3 \<and> m3 < n3"
    and "q1 = r1 \<longrightarrow> q2 = r2 \<and> m2 = n2" and "q2 = r2 \<longrightarrow> q3 = r3 \<and> m3 = n3"
    and "c < 0x800 \<longrightarrow> q1 < 32" and "c < 0x10000 \<longrightarrow> q2 < 16"
  shows "utf8_bytes c q1 m1 q2 m2 q3 m3 @ u < utf8_bytes d r1 n1 r2 n2 r3 n3 @ v"
proof -
  consider "d < 0x80" | "c < 0x80" "0x80 \<le> d" | "0x80 \<le> c" "d < 0x800"
    | "0x80 \<le> c" "c < 0x800" "0x800 \<le> d" | "0x800 \<le> c" "d < 0x10000"
    | "0x800 \<le> c" "c < 0x10000" "0x10000 \<le> d" | "0x10000 \<le> c"
    by linarith
  then show ?thesis
    using assms unfolding utf8_bytes_def by cases auto
qed

lemma utf8_char_less:
  assumes "c < d"
  shows "utf8_char c @ u < utf8_char d @ v"
  unfolding utf8_char_bytes
proof (rule utf8_bytes_less)
  show "c < 0x800 \<longrightarrow> c div 64 < 32" and "c < 0x10000 \<longrightarrow> c div 64 div 64 < 16"
    by (auto simp: div_div_64 [symmetric] less_mult_imp_div_less)
qed (use assms div_step in simp_all)

lemma utf8_strict_mono:
  assumes "s < t" and "valid_text t"
  shows "utf8 s < utf8 t"
  using assms
proof (induction s arbitrary: t)
  case Nil
  then obtain d t' where "t = d # t'" by (cases t) auto
  then show ?case by (cases "utf8_char d @ utf8 t'") auto
next
  case (Cons c s)
  then obtain d t' where t: "t = d # t'" and or: "c < d \<or> c = d \<and> s < t'"
    by (cases t) auto
  from Cons.prems(2) t have t': "valid_text t'"
    by (auto simp: valid_text_def)
  from or show ?case
  proof
    assume "c < d"
    then show ?thesis by (simp add: t utf8_char_less)
  next
    assume "c = d \<and> s < t'"
    moreover have "s < t' \<Longrightarrow> utf8 s < utf8 t'" using t' by (rule Cons.IH [rotated])
    moreover have "(x :: nat list) < y \<Longrightarrow> p @ x < p @ y" for p x y
      by (induction p) auto
    ultimately show ?thesis by (simp add: t)
  qed
qed

theorem utf8_less_iff:
  assumes "valid_text s" and "valid_text t"
  shows "utf8 s < utf8 t \<longleftrightarrow> s < t"
  using assms utf8_strict_mono [of s t] utf8_strict_mono [of t s]
  by (cases s t rule: linorder_cases) auto

lemma byte_len_ascii: "list_all (\<lambda>c. c < 0x80) s \<Longrightarrow> byte_len s = length s"
  by (induction s) (auto simp: byte_len_def utf8_char_def)

section \<open>Decoding\<close>

text \<open>
  \<open>String::from_utf8\<close> and \<open>str::from_utf8\<close>: the lead byte gives the width, and a sequence is
  accepted when it is the encoding of the scalar value its bits spell, which excludes
  overlong forms and surrogates.
\<close>

definition utf8_width :: "nat \<Rightarrow> nat" where
  "utf8_width b = (if b < 0xC0 then 1 else if b < 0xE0 then 2 else if b < 0xF0 then 3 else 4)"

fun utf8_value :: "nat list \<Rightarrow> nat" where
  "utf8_value [a] = a"
| "utf8_value [a, b] = (a - 0xC0) * 64 + (b - 0x80)"
| "utf8_value [a, b, c] = (a - 0xE0) * 4096 + (b - 0x80) * 64 + (c - 0x80)"
| "utf8_value [a, b, c, d] = (a - 0xF0) * 262144 + (b - 0x80) * 4096 + (c - 0x80) * 64 + (d - 0x80)"
| "utf8_value _ = 0"

function utf8_decode :: "nat list \<Rightarrow> str option" where
  "utf8_decode [] = Some []"
| "utf8_decode (b # bs) =
     (let n = utf8_width b; c = utf8_value (take n (b # bs))
      in if scalar c \<and> utf8_char c = take n (b # bs)
         then map_option (\<lambda>s. c # s) (utf8_decode (drop n (b # bs))) else None)"
  by pat_completeness auto

termination
  by (relation "measure length") (auto simp: utf8_width_def)

lemma utf8_char_cases:
  "c < 0x80 \<and> utf8_char c = [c]
   \<or> 0x80 \<le> c \<and> c < 0x800 \<and> utf8_char c = [0xC0 + c div 64, 0x80 + c mod 64]
   \<or> 0x800 \<le> c \<and> c < 0x10000
       \<and> utf8_char c = [0xE0 + c div 4096, 0x80 + c div 64 mod 64, 0x80 + c mod 64]
   \<or> 0x10000 \<le> c \<and> utf8_char c = [0xF0 + c div 262144, 0x80 + c div 4096 mod 64,
        0x80 + c div 64 mod 64, 0x80 + c mod 64]"
  by (auto simp: utf8_char_def)

lemma radix_64: "(c::nat) = c div 64 * 64 + c mod 64"
  "c = c div 4096 * 4096 + c div 64 mod 64 * 64 + c mod 64"
  "c = c div 262144 * 262144 + c div 4096 mod 64 * 4096 + c div 64 mod 64 * 64 + c mod 64"
proof -
  have "c div 64 = c div 64 div 64 * 64 + c div 64 mod 64"
    "c div 64 div 64 = c div 64 div 64 div 64 * 64 + c div 64 div 64 mod 64" by simp_all
  moreover show "c = c div 64 * 64 + c mod 64" by simp
  ultimately show "c = c div 4096 * 4096 + c div 64 mod 64 * 64 + c mod 64"
    "c = c div 262144 * 262144 + c div 4096 mod 64 * 4096 + c div 64 mod 64 * 64 + c mod 64"
    unfolding div_div_64 by linarith+
qed

lemma utf8_char_read:
  assumes "scalar c"
  shows "utf8_value (utf8_char c) = c" and "utf8_width (hd (utf8_char c)) = length (utf8_char c)"
proof -
  have "c div 64 < 32" if "c < 0x800" using that by (simp add: less_mult_imp_div_less)
  moreover have "c div 4096 < 16" if "c < 0x10000" using that by (simp add: less_mult_imp_div_less)
  ultimately show "utf8_value (utf8_char c) = c" "utf8_width (hd (utf8_char c)) = length (utf8_char c)"
    using utf8_char_cases [of c] radix_64 [of c] by (auto simp: utf8_width_def)
qed

lemma utf8_decode_char:
  assumes "scalar c"
  shows "utf8_decode (utf8_char c @ bs) = map_option (\<lambda>s. c # s) (utf8_decode bs)"
proof -
  obtain b r where b: "utf8_char c = b # r" using utf8_char_nonempty [of c] by (cases "utf8_char c") auto
  have "utf8_width b = length (utf8_char c)" using utf8_char_read(2) [OF assms] by (simp add: b)
  then have "take (utf8_width b) (b # (r @ bs)) = utf8_char c" "drop (utf8_width b) (b # (r @ bs)) = bs"
    by (simp_all add: b)
  with utf8_char_read(1) [OF assms] assms show ?thesis by (simp add: b Let_def)
qed

lemma utf8_decode_utf8 [simp]: "valid_text s \<Longrightarrow> utf8_decode (utf8 s) = Some s"
  by (induction s) (simp_all add: valid_text_def utf8_decode_char)

lemma utf8_decode_Some: "utf8_decode bs = Some s \<Longrightarrow> utf8 s = bs \<and> valid_text s"
proof (induction bs arbitrary: s rule: utf8_decode.induct)
  case (2 b bs)
  let ?n = "utf8_width b" and ?c = "utf8_value (take (utf8_width b) (b # bs))"
  from 2(2) obtain s' where s: "scalar ?c" "utf8_char ?c = take ?n (b # bs)" "s = ?c # s'"
    "utf8_decode (drop ?n (b # bs)) = Some s'"
    by (auto simp: Let_def split: if_splits)
  have "utf8 s' = drop ?n (b # bs) \<and> valid_text s'" using 2(1) [OF refl refl] s by auto
  with s show ?case by (simp add: valid_text_def)
qed (auto simp: valid_text_def)

end
