(* ===== verification/S3_Xml.thy ===== *)
theory S3_Xml
  imports Utf8 Download
begin

text \<open>
  \<open>src/s3/xml.rs\<close>: the documents the S3 interface sends and reads, and the CORS configuration
  a \<open>PutBucketCors\<close> request carries. The serialisation itself is the crate \<open>quick_xml\<close>: what
  the model keeps of a document is the value the code hands to it.
\<close>

section \<open>Documents\<close>

record bucket_xml =
  bx_name :: str
  bx_creation_date :: str

record object_xml =
  ox_key :: str
  ox_last_modified :: str
  ox_etag :: str
  ox_size :: int
  ox_storage_class :: str

record list_bucket_result =
  lb_name :: str
  lb_prefix :: str
  lb_delimiter :: "str option"
  lb_max_keys :: int
  lb_key_count :: int
  lb_is_truncated :: bool
  lb_marker :: "str option"
  lb_start_after :: "str option"
  lb_continuation_token :: "str option"
  lb_next_marker :: "str option"
  lb_next_continuation_token :: "str option"
  lb_contents :: "object_xml list"
  lb_common_prefixes :: "str list"

record cors_rule =
  cr_allowed_origins :: "str list"
  cr_allowed_methods :: "str list"
  cr_allowed_headers :: "str list"
  cr_expose_headers :: "str list"
  cr_max_age_seconds :: "nat option"

record initiate_multipart_upload =
  im_bucket :: str
  im_key :: str
  im_upload_id :: str

record complete_multipart_result =
  cm_location :: str
  cm_bucket :: str
  cm_key :: str
  cm_etag :: str

record copy_object_result =
  co_etag :: str
  co_last_modified :: str

record part_xml =
  px_part_number :: int
  px_last_modified :: str
  px_etag :: str
  px_size :: int

record list_parts_result =
  lp_bucket :: str
  lp_key :: str
  lp_upload_id :: str
  lp_parts :: "part_xml list"

record upload_xml =
  ux_key :: str
  ux_upload_id :: str
  ux_initiated :: str

record list_multipart_uploads_result =
  lm_bucket :: str
  lm_uploads :: "upload_xml list"

record delete_error_xml =
  de_key :: str
  de_code :: str
  de_message :: str

record delete_result =
  dr_deleted :: "str list option"
  dr_errors :: "delete_error_xml list"

record error_xml =
  ex_code :: str
  ex_message :: str
  ex_resource :: str
  ex_request_id :: str

record complete_multipart_request =
  cq_parts :: "(int \<times> str) list"

record delete_request =
  dq_objects :: "str list"
  dq_quiet :: bool

text \<open>A value handed to \<open>quick_xml::se::to_string\<close>.\<close>

datatype xml_doc =
    Xml_Buckets "bucket_xml list"
  | Xml_Objects list_bucket_result
  | Xml_Location str
  | Xml_Cors "cors_rule list"
  | Xml_Initiate initiate_multipart_upload
  | Xml_Complete complete_multipart_result
  | Xml_Copy copy_object_result
  | Xml_Parts list_parts_result
  | Xml_Uploads list_multipart_uploads_result
  | Xml_Deleted delete_result
  | Xml_Error error_xml

definition xmlns :: str where
  "xmlns = lit ''http://s3.amazonaws.com/doc/2006-03-01/''"

definition with_namespace :: "str \<Rightarrow> str" where
  "with_namespace xml =
     (case find_sub [62] xml of
        Some index \<Rightarrow> take index xml @ lit '' xmlns='' @ [34] @ xmlns @ [34] @ drop index xml
      | None \<Rightarrow> xml)"

section \<open>CORS configurations\<close>

definition cors_from :: "cors_configuration \<Rightarrow> cors_rule list" where
  "cors_from c = [\<lparr>cr_allowed_origins = allowed_origins c, cr_allowed_methods = allowed_methods c,
     cr_allowed_headers = allowed_headers c, cr_expose_headers = expose_headers c,
     cr_max_age_seconds = Some (max_age_seconds c)\<rparr>]"

definition add_rule :: "cors_rule \<Rightarrow> cors_configuration \<Rightarrow> cors_configuration" where
  "add_rule r c = \<lparr>
     allowed_origins = allowed_origins c @ cr_allowed_origins r,
     allowed_methods = allowed_methods c @ map to_ascii_uppercase (cr_allowed_methods r),
     allowed_headers = allowed_headers c @ cr_allowed_headers r,
     expose_headers = expose_headers c @ cr_expose_headers r,
     max_age_seconds = (case cr_max_age_seconds r of Some age \<Rightarrow> age | None \<Rightarrow> max_age_seconds c)\<rparr>"

text \<open>\<open>sort_unstable\<close> and \<open>dedup\<close>, which drops consecutive duplicates.\<close>

definition sort_dedup :: "str list \<Rightarrow> str list" where
  "sort_dedup values = remdups_adj (sort values)"

definition into_configuration :: "cors_rule list \<Rightarrow> error + cors_configuration" where
  "into_configuration rules =
     (if rules = [] then Inl InvalidRequest
      else
        let c = fold add_rule rules \<lparr>allowed_origins = [], allowed_methods = [], allowed_headers = [],
                  expose_headers = [], max_age_seconds = 3600\<rparr>;
            c = \<lparr>allowed_origins = sort_dedup (allowed_origins c), allowed_methods = sort_dedup (allowed_methods c),
                 allowed_headers = sort_dedup (allowed_headers c), expose_headers = sort_dedup (expose_headers c),
                 max_age_seconds = max_age_seconds c\<rparr>
        in if allowed_origins c = [] \<or> allowed_methods c = [] \<or> allowed_headers c = [] then Inl InvalidRequest
           else if list_ex (\<lambda>origin. origin = lit ''*'') (allowed_origins c) \<and> 1 < length (allowed_origins c)
           then Inl InvalidRequest
           else Inr c)"

lemma sort_dedup_set [simp]: "set (sort_dedup xs) = set xs"
  by (simp add: sort_dedup_def)

end
