(* ===== verification/S3_Http.thy ===== *)
theory S3_Http
  imports S3_Xml
begin

text \<open>
  The request and response vocabulary of \<open>src/s3.rs\<close>, \<open>src/s3/target.rs\<close> and
  \<open>src/s3/object.rs\<close>: header maps, queries, error codes, addressing, conditions and ranges.

  A header map (\<open>http::HeaderMap\<close>) is the list of its entries with lower-case names; a value of a
  request is what \<open>HeaderValue::to_str\<close> makes of it, \<open>None\<close> when it is not text. The crates
  the code calls are the fields of \<open>http_lib\<close>.
\<close>

section \<open>Header maps\<close>

type_synonym request_headers = "(str \<times> str option) list"
type_synonym header_map = "(str \<times> str) list"

text \<open>\<open>headers.get(name).and_then(|v| v.to_str().ok())\<close> and \<open>contains_key\<close>.\<close>

definition header_text :: "request_headers \<Rightarrow> str \<Rightarrow> str option" where
  "header_text hs name = (case map_of hs name of Some v \<Rightarrow> v | None \<Rightarrow> None)"

definition contains_header :: "request_headers \<Rightarrow> str \<Rightarrow> bool" where
  "contains_header hs name \<longleftrightarrow> map_of hs name \<noteq> None"

fun set_header :: "str \<Rightarrow> str \<Rightarrow> header_map \<Rightarrow> header_map" where
  "set_header name v [] = [(name, v)]"
| "set_header name v ((n, w) # hs) =
     (if n = name then (name, v) # filter (\<lambda>h. fst h \<noteq> name) hs else (n, w) # set_header name v hs)"

lemma map_of_filter_other: "map_of (filter (\<lambda>h. fst h \<noteq> name) hs) n = (if n = name then None else map_of hs n)"
  by (induction hs) auto

lemma map_of_set_header [simp]: "map_of (set_header name v hs) = (map_of hs)(name \<mapsto> v)"
  by (induction name v hs rule: set_header.induct) (auto simp: map_of_filter_other fun_eq_iff)

text \<open>
  The crates: \<open>HeaderValue::from_str\<close> accepts, \<open>HeaderName::from_bytes\<close>, \<open>httpdate\<close>, \<open>time\<close>,
  \<open>percent_encoding\<close>, \<open>base64\<close>, \<open>quick_xml\<close> and \<open>axum::body::to_bytes\<close>.
\<close>

record http_lib =
  hl_value_ok :: "str \<Rightarrow> bool"
  hl_name :: "str \<Rightarrow> str option"
  hl_fmt_http_date :: "int \<Rightarrow> str"
  hl_parse_http_date :: "str \<Rightarrow> int option"
  hl_from_unix :: "int \<Rightarrow> int option"
  hl_rfc3339 :: "int \<Rightarrow> str option"
  hl_percent_decode :: "str \<Rightarrow> bytes"
  hl_b64_encode :: "bytes \<Rightarrow> str"
  hl_b64_decode :: "str \<Rightarrow> bytes option"
  hl_to_string :: "xml_doc \<Rightarrow> str + str"
  hl_to_bytes :: "stream \<Rightarrow> nat \<Rightarrow> error + bytes"
  hl_complete_request :: "str \<Rightarrow> complete_multipart_request option"
  hl_delete_request :: "str \<Rightarrow> delete_request option"
  hl_cors_request :: "str \<Rightarrow> cors_rule list option"

definition insert_header :: "http_lib \<Rightarrow> str \<Rightarrow> str \<Rightarrow> header_map \<Rightarrow> header_map" where
  "insert_header lib name v hs = (if hl_value_ok lib v then set_header name v hs else hs)"

definition insert_dynamic_header :: "http_lib \<Rightarrow> str \<Rightarrow> str \<Rightarrow> header_map \<Rightarrow> header_map" where
  "insert_dynamic_header lib name v hs =
     (case hl_name lib name of
        Some n \<Rightarrow> if hl_value_ok lib v then set_header n v hs else hs
      | None \<Rightarrow> hs)"

section \<open>Responses\<close>

datatype body = Bytes bytes | Stream stream

record response =
  rs_status :: nat
  rs_headers :: header_map
  rs_body :: body

definition empty_response :: "nat \<Rightarrow> response" where
  "empty_response status = \<lparr>rs_status = status, rs_headers = [], rs_body = Bytes []\<rparr>"

definition xml_prolog :: str where
  "xml_prolog = lit ''<?xml version='' @ [34] @ lit ''1.0'' @ [34] @ lit '' encoding='' @ [34]
     @ lit ''UTF-8'' @ [34] @ lit ''?>''"

definition xml_response :: "http_lib \<Rightarrow> xml_doc \<Rightarrow> error + response" where
  "xml_response lib doc =
     (case hl_to_string lib doc of
        Inl e \<Rightarrow> Inl (Other (lit ''XML serialization: '' @ e))
      | Inr xml \<Rightarrow> Inr \<lparr>rs_status = 200, rs_headers = [(lit ''content-type'', lit ''application/xml'')],
          rs_body = Bytes (utf8 (xml_prolog @ with_namespace xml))\<rparr>)"

section \<open>Error codes\<close>

definition s3_errors :: "(str \<times> nat) list" where
  "s3_errors = [
     (lit ''NoSuchKey'', 404), (lit ''NoSuchBucket'', 404), (lit ''NoSuchUpload'', 404),
     (lit ''EntityTooLarge'', 413), (lit ''SlowDown'', 503), (lit ''PreconditionFailed'', 412),
     (lit ''NotModified'', 304), (lit ''BucketNotEmpty'', 409), (lit ''EntityTooSmall'', 400),
     (lit ''IncompleteBody'', 400), (lit ''InvalidPartOrder'', 400), (lit ''InvalidPart'', 400),
     (lit ''InvalidRequest'', 400), (lit ''InvalidRange'', 416), (lit ''InvalidArgument'', 400),
     (lit ''InvalidBucketName'', 400), (lit ''MalformedXML'', 400), (lit ''NotImplemented'', 501),
     (lit ''MethodNotAllowed'', 405), (lit ''AccessDenied'', 403), (lit ''SignatureDoesNotMatch'', 403),
     (lit ''RequestTimeTooSkewed'', 403)]"

definition status_for :: "error \<Rightarrow> nat" where
  "status_for e =
     (case find (\<lambda>(code, _). contains (error_text e) code) s3_errors of
        Some (_, status) \<Rightarrow> status | None \<Rightarrow> 500)"

definition internal_error :: str where
  "internal_error = lit ''InternalError''"

definition error_code :: "error \<Rightarrow> str" where
  "error_code e =
     (case find (\<lambda>(code, _). contains (error_text e) code) s3_errors of
        Some (code, _) \<Rightarrow> code | None \<Rightarrow> internal_error)"

definition public_error_message :: "str \<Rightarrow> error \<Rightarrow> str" where
  "public_error_message code e =
     (if code = internal_error then lit ''Internal server error'' else error_text e)"

definition error_response :: "http_lib \<Rightarrow> nat \<Rightarrow> str \<Rightarrow> str \<Rightarrow> str \<Rightarrow> str \<Rightarrow> response" where
  "error_response lib status code message path request_id =
     (if status = 304
      then (empty_response status)\<lparr>rs_headers := insert_header lib (lit ''x-amz-request-id'') request_id []\<rparr>
      else
        let xml = (case hl_to_string lib (Xml_Error \<lparr>ex_code = code, ex_message = message,
                      ex_resource = path, ex_request_id = request_id\<rparr>) of
                     Inl _ \<Rightarrow> lit ''<Error><Code>InternalError</Code></Error>''
                   | Inr xml \<Rightarrow> xml);
            hs = insert_header lib (lit ''x-amz-request-id'') request_id
                   [(lit ''content-type'', lit ''application/xml'')];
            hs = (if code = lit ''SlowDown'' then insert_header lib (lit ''retry-after'') (lit ''5'') hs else hs)
        in \<lparr>rs_status = status, rs_headers = hs, rs_body = Bytes (utf8 (xml_prolog @ with_namespace xml))\<rparr>)"

section \<open>Queries and small parts\<close>

type_synonym query = "(str \<times> str) list"

definition query_has :: "query \<Rightarrow> str \<Rightarrow> bool" where
  "query_has q name \<longleftrightarrow> list_ex (\<lambda>(key, _). key = name) q"

definition query_value :: "query \<Rightarrow> str \<Rightarrow> str option" where
  "query_value q name = map_option snd (find (\<lambda>(key, _). key = name) q)"

definition quoted :: "str \<Rightarrow> str" where
  "quoted value = [34] @ value @ [34]"

definition format_time :: "http_lib \<Rightarrow> int \<Rightarrow> str" where
  "format_time lib timestamp =
     (let at = (case hl_from_unix lib (max timestamp 0) of Some at \<Rightarrow> at | None \<Rightarrow> 0)
      in case hl_rfc3339 lib at of Some s \<Rightarrow> s | None \<Rightarrow> lit ''1970-01-01T00:00:00Z'')"

definition bucket_byte :: "nat \<Rightarrow> bool" where
  "bucket_byte b \<longleftrightarrow> is_ascii_alphanumeric b \<or> b = 45 \<or> b = 46"

definition validate_bucket :: "str \<Rightarrow> error + unit" where
  "validate_bucket bucket =
     (let bytes = utf8 bucket
      in if bucket = [] \<or> 63 < length bytes \<or> \<not> list_all bucket_byte bytes
           \<or> \<not> is_ascii_alphanumeric (bytes ! 0) \<or> \<not> is_ascii_alphanumeric (bytes ! (length bytes - 1))
         then Inl InvalidBucketName else Inr ())"

section \<open>Addressing (\<open>target.rs\<close>)\<close>

record target =
  tgt_bucket :: "str option"
  tgt_key :: "str option"

definition decode_path :: "http_lib \<Rightarrow> str \<Rightarrow> error + str" where
  "decode_path lib path =
     (case utf8_decode (hl_percent_decode lib path) of
        Some s \<Rightarrow> Inr s | None \<Rightarrow> Inl InvalidRequest)"

text \<open>The bucket a virtual-hosted request names: the host without \<open>public_host\<close> and the dot before it.\<close>

definition host_bucket :: "str \<Rightarrow> str \<Rightarrow> str" where
  "host_bucket host public_host =
     (case Option.bind (strip_suffix public_host host) (strip_suffix [46]) of
        Some bucket \<Rightarrow> bucket | None \<Rightarrow> [])"

definition target_by_path :: "http_lib \<Rightarrow> str \<Rightarrow> error + target" where
  "target_by_path lib path =
     (if path = [] then Inr \<lparr>tgt_bucket = None, tgt_key = None\<rparr>
      else
        let (bucket, key) = (case split_once 47 path of Some (b, k) \<Rightarrow> (b, Some k) | None \<Rightarrow> (path, None))
        in bind_res (decode_path lib bucket) (\<lambda>bucket.
           case key of
             None \<Rightarrow> Inr \<lparr>tgt_bucket = Some bucket, tgt_key = None\<rparr>
           | Some key \<Rightarrow> bind_res (decode_path lib key) (\<lambda>key.
               Inr \<lparr>tgt_bucket = Some bucket, tgt_key = Some key\<rparr>)))"

definition parse_target :: "http_lib \<Rightarrow> str \<Rightarrow> request_headers \<Rightarrow> str option \<Rightarrow> error + target" where
  "parse_target lib uri_path headers public_host =
     (let host = (case header_text headers (lit ''host'') of Some h \<Rightarrow> h | None \<Rightarrow> []);
          path = trim_start_by (\<lambda>c. c = 47) uri_path
      in case public_host of
           None \<Rightarrow> target_by_path lib path
         | Some public_host \<Rightarrow>
             (let public_host = trim_end_by (\<lambda>c. c = 47) public_host;
                  bucket = (if host \<noteq> public_host then host_bucket host public_host else [])
              in if bucket \<noteq> []
                 then (if path = [] then Inr \<lparr>tgt_bucket = Some bucket, tgt_key = None\<rparr>
                       else bind_res (decode_path lib path) (\<lambda>key.
                         Inr \<lparr>tgt_bucket = Some bucket, tgt_key = Some key\<rparr>))
                 else target_by_path lib path))"

definition parse_copy_source :: "http_lib \<Rightarrow> str \<Rightarrow> error + (str \<times> str)" where
  "parse_copy_source lib source =
     (let source = trim_start_by (\<lambda>c. c = 47) source;
          (b, k) = (case split_once 47 source of Some (b, k) \<Rightarrow> (b, k) | None \<Rightarrow> (source, []))
      in bind_res (decode_path lib b) (\<lambda>bucket.
         bind_res (decode_path lib k) (\<lambda>key.
         if bucket = [] \<or> key = [] then Inl InvalidRequest else Inr (bucket, key))))"

section \<open>Metadata\<close>

text \<open>\<open>BTreeMap::insert\<close> on the sorted association list of the map.\<close>

fun btree_insert :: "str \<Rightarrow> 'v \<Rightarrow> (str \<times> 'v) list \<Rightarrow> (str \<times> 'v) list" where
  "btree_insert k v [] = [(k, v)]"
| "btree_insert k v ((k', v') # m) =
     (if k < k' then (k, v) # (k', v') # m
      else if k = k' then (k, v) # m
      else (k', v') # btree_insert k v m)"

definition user_entry :: "str \<times> str option \<Rightarrow> (str \<times> str) list \<Rightarrow> (str \<times> str) list" where
  "user_entry h m =
     (case (strip_prefix (lit ''x-amz-meta-'') (fst h), snd h) of
        (Some name, Some v) \<Rightarrow> btree_insert name v m
      | _ \<Rightarrow> m)"

definition metadata_from_headers :: "request_headers \<Rightarrow> object_metadata" where
  "metadata_from_headers hs = \<lparr>
     content_type = header_text hs (lit ''content-type''),
     content_disposition = header_text hs (lit ''content-disposition''),
     content_encoding = header_text hs (lit ''content-encoding''),
     cache_control = header_text hs (lit ''cache-control''),
     expires = header_text hs (lit ''expires''),
     user = fold user_entry hs []\<rparr>"

definition insert_some :: "http_lib \<Rightarrow> str \<Rightarrow> str option \<Rightarrow> header_map \<Rightarrow> header_map" where
  "insert_some lib name v hs = (case v of Some v \<Rightarrow> insert_header lib name v hs | None \<Rightarrow> hs)"

definition object_headers :: "http_lib \<Rightarrow> object_record \<Rightarrow> int \<Rightarrow> int \<Rightarrow> int \<Rightarrow> bool \<Rightarrow> header_map" where
  "object_headers lib ob len start end partial =
     (let m = obj_metadata ob;
          hs = insert_header lib (lit ''etag'') (quoted (obj_etag ob)) [];
          hs = insert_header lib (lit ''last-modified'') (hl_fmt_http_date lib (max (obj_modified_at ob) 0)) hs;
          hs = insert_header lib (lit ''content-length'') (show_int len) hs;
          hs = insert_header lib (lit ''accept-ranges'') (lit ''bytes'') hs;
          hs = insert_header lib (lit ''content-type'')
                 (case content_type m of Some v \<Rightarrow> v | None \<Rightarrow> lit ''application/octet-stream'') hs;
          hs = insert_some lib (lit ''content-disposition'') (content_disposition m) hs;
          hs = insert_some lib (lit ''content-encoding'') (content_encoding m) hs;
          hs = insert_some lib (lit ''cache-control'') (cache_control m) hs;
          hs = insert_some lib (lit ''expires'') (expires m) hs;
          hs = fold (\<lambda>(key, v). insert_dynamic_header lib (lit ''x-amz-meta-'' @ key) v) (user m) hs
      in if partial
         then insert_header lib (lit ''content-range'')
                (lit ''bytes '' @ show_int start @ lit ''-'' @ show_int end @ lit ''/'' @ show_int (obj_size ob)) hs
         else hs)"

section \<open>Conditions\<close>

definition any_etag :: "str \<Rightarrow> str \<Rightarrow> bool" where
  "any_etag value etag \<longleftrightarrow> list_ex (\<lambda>candidate. normalize_etag candidate = etag) (split_on 44 value)"

definition since_check :: "http_lib \<Rightarrow> str option \<Rightarrow> (int \<Rightarrow> bool) \<Rightarrow> bool" where
  "since_check lib value P =
     (case Option.bind value (hl_parse_http_date lib) of Some timestamp \<Rightarrow> P timestamp | None \<Rightarrow> False)"

definition check_conditions :: "http_lib \<Rightarrow> object_record \<Rightarrow> request_headers \<Rightarrow> error + unit" where
  "check_conditions lib ob hs =
     (let modified = max (obj_modified_at ob) 0
      in if (case header_text hs (lit ''if-match'') of
               Some v \<Rightarrow> v \<noteq> lit ''*'' \<and> \<not> any_etag v (obj_etag ob) | None \<Rightarrow> False)
         then Inl PreconditionFailed
         else if (case header_text hs (lit ''if-none-match'') of
                    Some v \<Rightarrow> v = lit ''*'' \<or> any_etag v (obj_etag ob) | None \<Rightarrow> False)
         then Inl NotModified
         else if \<not> contains_header hs (lit ''if-match'')
             \<and> since_check lib (header_text hs (lit ''if-unmodified-since'')) (\<lambda>ts. modified > ts)
         then Inl PreconditionFailed
         else if \<not> contains_header hs (lit ''if-none-match'')
             \<and> since_check lib (header_text hs (lit ''if-modified-since'')) (\<lambda>ts. modified \<le> ts)
         then Inl NotModified
         else Inr ())"

definition object_condition_of :: "request_headers \<Rightarrow> object_condition" where
  "object_condition_of hs = \<lparr>if_match = header_text hs (lit ''if-match''),
     if_none_match = header_text hs (lit ''if-none-match'')\<rparr>"

definition check_write_conditions :: "object_record option \<Rightarrow> object_condition \<Rightarrow> error + unit" where
  "check_write_conditions ob c =
     (if \<not> condition_allows c (map_option obj_etag ob) then Inl PreconditionFailed else Inr ())"

definition check_copy_source_conditions :: "object_record \<Rightarrow> request_headers \<Rightarrow> error + unit" where
  "check_copy_source_conditions ob hs =
     (if (case header_text hs (lit ''x-amz-copy-source-if-match'') of
            Some v \<Rightarrow> v \<noteq> lit ''*'' \<and> \<not> any_etag v (obj_etag ob) | None \<Rightarrow> False)
      then Inl PreconditionFailed
      else if (case header_text hs (lit ''x-amz-copy-source-if-none-match'') of
                 Some v \<Rightarrow> v = lit ''*'' \<or> any_etag v (obj_etag ob) | None \<Rightarrow> False)
      then Inl PreconditionFailed
      else Inr ())"

section \<open>Ranges\<close>

definition parse_offset :: "str \<Rightarrow> error + int" where
  "parse_offset s = (case parse_i64 s of Some n \<Rightarrow> Inr n | None \<Rightarrow> Inl InvalidRange)"

definition parse_range :: "str option \<Rightarrow> int \<Rightarrow> error + (int \<times> int \<times> bool)" where
  "parse_range value sz =
     (if sz = 0 then Inr (0, -1, False)
      else case value of
        None \<Rightarrow> Inr (0, sz - 1, False)
      | Some value \<Rightarrow>
          (case strip_prefix (lit ''bytes='') value of
             None \<Rightarrow> Inl InvalidRange
           | Some value \<Rightarrow>
               if 44 \<in> set value then Inl InvalidRange
               else
                 (case split_once 45 value of
                    None \<Rightarrow> Inl InvalidRange
                  | Some (start, end) \<Rightarrow>
                      if start = []
                      then bind_res (parse_offset end) (\<lambda>suffix_len.
                             if suffix_len \<le> 0 then Inl InvalidRange
                             else Inr (saturating_sub sz suffix_len, sz - 1, True))
                      else bind_res (parse_offset start) (\<lambda>start.
                             if start < 0 \<or> sz \<le> start then Inl InvalidRange
                             else bind_res (if end = [] then Inr (sz - 1)
                                            else map_sum id (\<lambda>n. min n (sz - 1)) (parse_offset end)) (\<lambda>end.
                               if end < start then Inl InvalidRange else Inr (start, end, True))))))"

section \<open>Request framing\<close>

definition is_streaming_payload :: "request_headers \<Rightarrow> bool" where
  "is_streaming_payload hs \<longleftrightarrow>
     (case header_text hs (lit ''x-amz-content-sha256'') of
        Some v \<Rightarrow> prefix (lit ''STREAMING-'') v | None \<Rightarrow> False)
     \<or> (case header_text hs (lit ''content-encoding'') of
          Some v \<Rightarrow> list_ex (\<lambda>token. eq_ignore_ascii_case (trim token) (lit ''aws-chunked'')) (split_on 44 v)
        | None \<Rightarrow> False)"

definition request_content_length :: "request_headers \<Rightarrow> error + int option" where
  "request_content_length hs =
     (case map_of hs (lit ''content-length'') of
        None \<Rightarrow> Inr None
      | Some v \<Rightarrow>
          (case Option.bind v parse_i64 of
             None \<Rightarrow> Inl InvalidRequest
           | Some n \<Rightarrow> if n < 0 then Inl InvalidRequest else Inr (Some n)))"

end
