(* ===== verification/S3_List_Props.thy ===== *)
theory S3_List_Props
  imports S3_List
begin

text \<open>
  What a listing page holds. \<open>listing_text\<close> is the line a key contributes to the listing (its
  common prefix, or itself), \<open>listing_lines\<close> the sorted list of the lines of a bucket above the
  marker: a page is its first \<open>max_keys\<close> elements, whatever the batches and seeks of the scan.
\<close>

section \<open>Common prefixes\<close>

lemma find_sub_bound: "find_sub p s = Some i \<Longrightarrow> i + length p \<le> length s"
  by (induction s arbitrary: i) (auto split: if_splits dest: prefix_length_le)

lemma find_sub_cut:
  "find_sub p s = Some i \<Longrightarrow> find_sub p (take (i + length p) s @ r) = Some i"
proof (induction s arbitrary: i)
  case Nil
  then show ?case by (cases r) (auto split: if_splits)
next
  case (Cons x xs)
  show ?case
  proof (cases "prefix p (x # xs)")
    case True
    with Cons.prems have "i = 0" by simp
    moreover from True have "take (length p) (x # xs) = p" by (metis append_eq_conv_conj prefixE)
    moreover have "find_sub p t = Some 0" if "prefix p t" for t using that by (cases t) auto
    ultimately show ?thesis by simp
  next
    case False
    with Cons.prems obtain j where j: "i = Suc j" "find_sub p xs = Some j" by auto
    have len: "length p \<le> length (take (i + length p) (x # xs))"
      using find_sub_bound [OF j(2)] by (simp add: j(1))
    have "\<not> prefix p (take (i + length p) (x # xs) @ r)"
    proof
      assume "prefix p (take (i + length p) (x # xs) @ r)"
      then have "prefix p (take (i + length p) (x # xs))"
        using len by (rule prefix_length_prefix [OF _ prefixI [OF refl]])
      then have "prefix p (x # xs)" using take_is_prefix prefix_order.trans by blast
      with False show False by blast
    qed
    with Cons.IH [OF j(2)] j(1) show ?thesis by simp
  qed
qed

lemma common_prefix_Some:
  assumes "prefix pre k" and "common_prefix k pre dl = Some c"
  shows "prefix c k" and "prefix pre c" and "suffix dl c" and "dl \<noteq> []"
proof -
  obtain rest where k: "k = pre @ rest" using assms(1) by (rule prefixE)
  then have strip: "strip_prefix pre k = Some rest" by (simp add: strip_prefix_Some_iff)
  with assms(2) obtain i where i: "find_sub dl rest = Some i" "c = pre @ take (i + length dl) rest"
    by (auto simp: common_prefix_def split: if_splits)
  show "prefix c k" "prefix pre c" by (auto simp: k i(2) take_is_prefix)
  show "suffix dl c" using find_sub_Some_split [OF i(1)] by (auto simp: i(2) suffix_def)
  show "dl \<noteq> []" using assms(2) by (auto simp: common_prefix_def)
qed

lemma common_prefix_group:
  assumes "prefix pre k" and "common_prefix k pre dl = Some c" and "prefix c k'"
  shows "common_prefix k' pre dl = Some c"
proof -
  obtain rest where k: "k = pre @ rest" using assms(1) by (rule prefixE)
  then have strip: "strip_prefix pre k = Some rest" by (simp add: strip_prefix_Some_iff)
  with assms(2) obtain i where i: "find_sub dl rest = Some i" "c = pre @ take (i + length dl) rest"
    and dl: "dl \<noteq> []"
    by (auto simp: common_prefix_def split: if_splits)
  obtain r where r: "k' = c @ r" using assms(3) by (rule prefixE)
  then have "strip_prefix pre k' = Some (take (i + length dl) rest @ r)"
    by (simp add: strip_prefix_Some_iff i(2))
  moreover note find_sub_cut [OF i(1), of r]
  moreover have "i + length dl \<le> length rest" using i(1) by (rule find_sub_bound)
  ultimately show ?thesis using dl by (simp add: common_prefix_def i(2))
qed

definition listing_text :: "str \<Rightarrow> str \<Rightarrow> str \<Rightarrow> str" where
  "listing_text pre dl k = (case common_prefix k pre dl of Some c \<Rightarrow> c | None \<Rightarrow> k)"

lemma listing_text_le: "prefix pre k \<Longrightarrow> listing_text pre dl k \<le> k"
  by (auto simp: listing_text_def split: option.splits intro: prefix_imp_le common_prefix_Some(1))

lemma listing_text_prefix: "prefix pre k \<Longrightarrow> prefix pre (listing_text pre dl k)"
  by (auto simp: listing_text_def split: option.splits intro: common_prefix_Some(2))

text \<open>The line of a line is the line itself.\<close>

lemma listing_text_plain:
  assumes "prefix pre k"
  shows "common_prefix (listing_text pre dl k) pre dl = common_prefix k pre dl"
proof (cases "common_prefix k pre dl")
  case (Some c)
  from common_prefix_group [OF assms Some, of c] Some show ?thesis by (simp add: listing_text_def)
qed (simp add: listing_text_def)

lemma prefix_between:
  "(c :: str) \<le> k \<Longrightarrow> k \<le> k' \<Longrightarrow> prefix c k' \<Longrightarrow> prefix c k"
proof (induction c arbitrary: k k')
  case (Cons a c)
  then show ?case by (cases k; cases k') auto
qed simp

lemma listing_text_mono:
  assumes "prefix pre k" and "prefix pre k'" and "k \<le> k'"
  shows "listing_text pre dl k \<le> listing_text pre dl k'"
proof (cases "common_prefix k' pre dl")
  case None
  then have "listing_text pre dl k' = k'" by (simp add: listing_text_def)
  with listing_text_le [OF assms(1), of dl] assms(3) show ?thesis by (metis order.trans)
next
  case (Some c)
  then have t: "listing_text pre dl k' = c" by (simp add: listing_text_def)
  show ?thesis
  proof (cases "c \<le> k")
    case True
    then have "prefix c k" using assms(3) common_prefix_Some(1) [OF assms(2) Some] by (rule prefix_between)
    then have "common_prefix k pre dl = Some c" by (rule common_prefix_group [OF assms(2) Some])
    then have "listing_text pre dl k = c" by (simp add: listing_text_def)
    then show ?thesis by (simp add: t)
  next
    case False
    then have "k \<le> c" by simp
    then show ?thesis unfolding t using listing_text_le [OF assms(1), of dl] by (rule order.trans [rotated])
  qed
qed

text \<open>A plain key is the line of no other key.\<close>

lemma listing_text_eq_plain:
  assumes "prefix pre k" and "prefix pre k'" and "common_prefix k pre dl = None"
    and "listing_text pre dl k' = k"
  shows "k' = k"
  using assms listing_text_plain [OF assms(2), of dl] by (auto simp: listing_text_def split: option.splits)

section \<open>The lines of a listing\<close>

definition listing_keys :: "db \<Rightarrow> listing \<Rightarrow> str set" where
  "listing_keys d l = {k. lookup d (ls_bucket l, k) \<noteq> None \<and> prefix (ls_prefix l) k}"

definition line :: "listing \<Rightarrow> str \<Rightarrow> str" where
  "line l k = listing_text (ls_prefix l) (ls_delimiter l) k"

definition listing_lines :: "db \<Rightarrow> listing \<Rightarrow> str list" where
  "listing_lines d l = sorted_list_of_set {t \<in> line l ` listing_keys d l. ls_floor l < t}"

definition plain :: "listing \<Rightarrow> str \<Rightarrow> bool" where
  "plain l t \<longleftrightarrow> common_prefix t (ls_prefix l) (ls_delimiter l) = None"

definition listing_ok :: "db \<Rightarrow> listing \<Rightarrow> bool" where
  "listing_ok d l \<longleftrightarrow> db_ok d \<and> keys_valid d \<and> valid_text (ls_prefix l)"

text \<open>The keys the scan has still ahead.\<close>

definition ahead :: "db \<Rightarrow> listing \<Rightarrow> scan \<Rightarrow> str set" where
  "ahead d l s = {k \<in> listing_keys d l. in_bound s k}"

lemma listing_keys_finite: "listing_ok d l \<Longrightarrow> finite (listing_keys d l)"
proof -
  assume "listing_ok d l"
  then have "db_ok d" by (simp add: listing_ok_def)
  then have "listing_keys d l \<subseteq> orow_key ` set (objects d)"
    by (auto simp: listing_keys_def lookup_exists_iff simp del: not_None_eq)
  then show ?thesis by (rule finite_subset) simp
qed

lemma listing_keys_valid: "listing_ok d l \<Longrightarrow> k \<in> listing_keys d l \<Longrightarrow> valid_text k"
  using lookup_exists_iff [of d "ls_bucket l" k]
  by (auto simp: listing_ok_def listing_keys_def keys_valid_def list_all_iff)

lemma ahead_finite [simp]: "listing_ok d l \<Longrightarrow> finite (ahead d l s)"
  by (simp add: ahead_def listing_keys_finite)

lemma ahead_prefix: "k \<in> ahead d l s \<Longrightarrow> prefix (ls_prefix l) k"
  by (simp add: ahead_def listing_keys_def)

lemma ahead_up: "k \<in> ahead d l s \<Longrightarrow> k' \<in> listing_keys d l \<Longrightarrow> k \<le> k' \<Longrightarrow> k' \<in> ahead d l s"
  by (auto simp: ahead_def in_bound_def split: if_splits)

lemma batch_keys:
  assumes "listing_ok d l"
  shows "map lst_key (list_objects (ls_bucket l) (ls_prefix l) (sc_lower s) (sc_inclusive s) n d)
    = take n (sorted_list_of_set (ahead d l s))"
  using assms listed_keys_set [of d "ls_bucket l" "ls_prefix l" "sc_lower s" "sc_inclusive s"]
  by (simp add: listing_ok_def list_objects_keys ahead_def listing_keys_def in_bound_def conj_assoc)

lemma take_sorted_below:
  assumes "x \<in> set (take n (sorted_list_of_set A))" and "finite A" and "y \<in> A"
    and "y \<notin> set (take n (sorted_list_of_set A))"
  shows "x < (y :: str)"
proof -
  let ?L = "sorted_list_of_set A"
  have "sorted_wrt (<) (take n ?L @ drop n ?L)" by simp
  moreover have "y \<in> set (drop n ?L)"
    using assms(2-4) by (metis Un_iff append_take_drop_id set_append set_sorted_list_of_set)
  ultimately show ?thesis using assms(1) unfolding sorted_wrt_append by blast
qed

section \<open>The scan keeps its place\<close>

text \<open>
  \<open>holds_lines\<close>: what the scan has emitted so far are, in order, exactly the lines of the keys
  behind it that lie above the marker.
\<close>

definition holds_lines :: "db \<Rightarrow> listing \<Rightarrow> scan \<Rightarrow> str list \<Rightarrow> bool" where
  "holds_lines d l s out \<longleftrightarrow> sorted_wrt (<) out
     \<and> set out = {t \<in> line l ` (listing_keys d l - ahead d l s). ls_floor l < t}
     \<and> map lst_key (sc_contents s) = filter (plain l) out
     \<and> sc_common_prefixes s = filter (\<lambda>t. \<not> plain l t) out
     \<and> set (sc_seen s) = set (sc_common_prefixes s)
     \<and> list_all (\<lambda>e. \<exists>ob. lookup d (ls_bucket l, lst_key e) = Some ob \<and> obj_size ob = lst_size e
         \<and> obj_etag ob = lst_etag e \<and> obj_modified_at ob = lst_modified_at e) (sc_contents s)"

definition scanning :: "db \<Rightarrow> listing \<Rightarrow> scan \<Rightarrow> bool" where
  "scanning d l s \<longleftrightarrow> (\<exists>out. holds_lines d l s out \<and> length out < ls_max_keys l)
     \<and> (\<forall>k \<in> ahead d l s. ls_floor l < k) \<and> \<not> sc_truncated s \<and> sc_next_cursor s = None"

lemma holds_linesD:
  assumes "holds_lines d l s out"
  shows "sorted_wrt (<) out"
    and "set out = {t \<in> line l ` (listing_keys d l - ahead d l s). ls_floor l < t}"
    and "map lst_key (sc_contents s) = filter (plain l) out"
    and "sc_common_prefixes s = filter (\<lambda>t. \<not> plain l t) out"
    and "set (sc_seen s) = set (sc_common_prefixes s)"
  using assms unfolding holds_lines_def by - (elim conjE, assumption)+

lemma holds_count:
  assumes "holds_lines d l s out"
  shows "length (sc_contents s) + length (sc_common_prefixes s) = length out"
proof -
  note h = holds_linesD [OF assms]
  have "length (sc_contents s) = length (filter (plain l) out)" using arg_cong [OF h(3), of length] by simp
  then show ?thesis using sum_length_filter_compl [of "plain l" out] by (simp add: h(4))
qed

lemma line_mono: "k \<in> listing_keys d l \<Longrightarrow> k' \<in> listing_keys d l \<Longrightarrow> k \<le> k' \<Longrightarrow> line l k \<le> line l k'"
  by (simp add: line_def listing_keys_def listing_text_mono)

text \<open>Lines already emitted do not lie above a line still ahead.\<close>

lemma emitted_le:
  assumes "holds_lines d l s out" and "t \<in> set out" and "k \<in> ahead d l s"
  shows "t \<le> line l k"
proof -
  from assms(2) holds_linesD(2) [OF assms(1)] obtain k' where k': "t = line l k'" "k' \<in> listing_keys d l" "k' \<notin> ahead d l s"
    by blast
  have k: "k \<in> listing_keys d l" using assms(3) by (simp add: ahead_def)
  have "k' \<le> k"
  proof (rule ccontr)
    assume "\<not> k' \<le> k"
    then have "k \<le> k'" by simp
    with ahead_up [OF assms(3) k'(2)] k'(3) show False by blast
  qed
  with k' k show ?thesis by (simp add: line_mono)
qed

text \<open>An entry consumed: its line is emitted unless it was, or lies at or below the marker.\<close>

lemma holds_consume:
  assumes ok: "listing_ok d l" and h: "holds_lines d l s out" and k: "k \<in> ahead d l s"
    and sub: "ahead d l s' \<subseteq> ahead d l s" and gone: "k \<notin> ahead d l s'"
    and same: "\<And>k'. k' \<in> ahead d l s \<Longrightarrow> k' \<notin> ahead d l s' \<Longrightarrow> line l k' = line l k"
    and out': "out' = (if ls_floor l < line l k \<and> line l k \<notin> set out then out @ [line l k] else out)"
  shows "sorted_wrt (<) out'"
    and "set out' = {t \<in> line l ` (listing_keys d l - ahead d l s'). ls_floor l < t}"
proof -
  note out = holds_linesD(1,2) [OF h]
  have below: "t \<le> line l k" if "t \<in> set out" for t using h that k by (rule emitted_le)
  have "t < line l k" if "t \<in> set out" "line l k \<notin> set out" for t
    using below [OF that(1)] that by (cases "t = line l k") auto
  with out(1) show "sorted_wrt (<) out'" by (auto simp: out' sorted_wrt_append)
  have K: "k \<in> listing_keys d l" using k by (simp add: ahead_def)
  have "line l ` (listing_keys d l - ahead d l s') = insert (line l k) (line l ` (listing_keys d l - ahead d l s))"
  proof (intro set_eqI iffI)
    fix t assume "t \<in> line l ` (listing_keys d l - ahead d l s')"
    then obtain k' where "t = line l k'" "k' \<in> listing_keys d l" "k' \<notin> ahead d l s'" by blast
    then show "t \<in> insert (line l k) (line l ` (listing_keys d l - ahead d l s))"
      using same [of k'] by (cases "k' \<in> ahead d l s") auto
  next
    fix t assume "t \<in> insert (line l k) (line l ` (listing_keys d l - ahead d l s))"
    then show "t \<in> line l ` (listing_keys d l - ahead d l s')" using K gone sub by blast
  qed
  then have "{t \<in> line l ` (listing_keys d l - ahead d l s'). ls_floor l < t}
      = set out \<union> (if ls_floor l < line l k then {line l k} else {})"
    by (auto simp: out(2))
  then show "set out' = {t \<in> line l ` (listing_keys d l - ahead d l s'). ls_floor l < t}"
    by (auto simp: out')
qed

section \<open>One entry\<close>

lemma emit_group_sel [simp]:
  "sc_lower (emit_group l c s) = sc_lower s" "sc_inclusive (emit_group l c s) = sc_inclusive s"
  "sc_contents (emit_group l c s) = sc_contents s" "sc_truncated (emit_group l c s) = sc_truncated s"
  "sc_next_cursor (emit_group l c s) = sc_next_cursor s"
  by (simp_all add: emit_group_def)

lemma seek_past_sel [simp]:
  "sc_contents (seek_past c k s) = sc_contents s" "sc_common_prefixes (seek_past c k s) = sc_common_prefixes s"
  "sc_seen (seek_past c k s) = sc_seen s" "sc_truncated (seek_past c k s) = sc_truncated s"
  "sc_next_cursor (seek_past c k s) = sc_next_cursor s"
  by (simp_all add: seek_past_def split: option.splits)

lemma seek_past_ahead:
  assumes ok: "listing_ok d l" and k: "k \<in> ahead d l s" and least: "\<forall>k' \<in> ahead d l s. k \<le> k'"
    and cp: "common_prefix k (ls_prefix l) (ls_delimiter l) = Some c"
  shows "ahead d l (seek_past c k s') \<subseteq> ahead d l s - {k}"
    and "\<And>k'. k' \<in> ahead d l s \<Longrightarrow> k' \<notin> ahead d l (seek_past c k s') \<Longrightarrow> line l k' = line l k"
    and "\<And>k'. key_successor c \<noteq> None \<Longrightarrow> k' \<in> ahead d l (seek_past c k s') \<Longrightarrow> line l k' \<noteq> line l k"
proof -
  have K: "k \<in> listing_keys d l" using k by (simp add: ahead_def)
  have pk: "prefix (ls_prefix l) k" using k by (rule ahead_prefix)
  have ck: "prefix c k" using common_prefix_Some(1) [OF pk cp] .
  have vk: "valid_text k" using listing_keys_valid [OF ok K] .
  have vc: "valid_text c" using ck vk by (auto simp: valid_text_def elim: prefixE)
  have lk: "line l k = c" by (simp add: line_def listing_text_def cp)
  have group_line: "line l k' = c" if "prefix c k'" for k'
    using common_prefix_group [OF pk cp that] by (simp add: line_def listing_text_def)
  show "ahead d l (seek_past c k s') \<subseteq> ahead d l s - {k}"
  proof
    fix k' assume a: "k' \<in> ahead d l (seek_past c k s')"
    then have K': "k' \<in> listing_keys d l" by (simp add: ahead_def)
    have "k < k'"
    proof (cases "key_successor c")
      case None
      with a show ?thesis by (simp add: ahead_def in_bound_def seek_past_def)
    next
      case (Some u)
      with a have "u \<le> k'" by (simp add: ahead_def in_bound_def seek_past_def)
      moreover have "k < u" using key_successor_range [OF Some vc vk] ck by simp
      ultimately show ?thesis by simp
    qed
    then show "k' \<in> ahead d l s - {k}" using ahead_up [OF k K'] by auto
  qed
  show "line l k' = line l k" if a: "k' \<in> ahead d l s" "k' \<notin> ahead d l (seek_past c k s')" for k'
  proof -
    have K': "k' \<in> listing_keys d l" using a(1) by (simp add: ahead_def)
    have le: "k \<le> k'" using least a(1) by blast
    show ?thesis
    proof (cases "key_successor c")
      case None
      with a(2) K' have "\<not> k < k'" by (simp add: ahead_def in_bound_def seek_past_def)
      with le show ?thesis by simp
    next
      case (Some u)
      with a(2) K' have "k' < u" by (simp add: ahead_def in_bound_def seek_past_def not_le)
      moreover have "c \<le> k'" using prefix_imp_le [OF ck] le by (rule order.trans)
      ultimately have "prefix c k'"
        using key_successor_range [OF Some vc listing_keys_valid [OF ok K']] by simp
      then show ?thesis by (simp add: group_line lk)
    qed
  qed
  show "line l k' \<noteq> line l k" if succ: "key_successor c \<noteq> None" and a: "k' \<in> ahead d l (seek_past c k s')" for k'
  proof
    assume "line l k' = line l k"
    then have t: "listing_text (ls_prefix l) (ls_delimiter l) k' = c" by (simp only: lk) (simp add: line_def)
    have K': "k' \<in> listing_keys d l" and pk': "prefix (ls_prefix l) k'"
      using a by (simp_all add: ahead_def listing_keys_def)
    have "prefix c k'"
      using t common_prefix_Some(1) [OF pk'] by (auto simp: listing_text_def split: option.splits)
    moreover obtain u where u: "key_successor c = Some u" using succ by auto
    moreover have "u \<le> k'" using a u by (simp add: ahead_def in_bound_def seek_past_def)
    ultimately show False
      using key_successor_range [OF u vc listing_keys_valid [OF ok K']] by (simp add: not_less [symmetric])
  qed
qed

lemma plain_ahead:
  assumes k: "k \<in> ahead d l s" and least: "\<forall>k' \<in> ahead d l s. k \<le> k'"
    and cp: "common_prefix k (ls_prefix l) (ls_delimiter l) = None" and s': "sc_lower s' = k" "\<not> sc_inclusive s'"
  shows "ahead d l s' \<subseteq> ahead d l s - {k}"
    and "\<And>k'. k' \<in> ahead d l s \<Longrightarrow> k' \<notin> ahead d l s' \<Longrightarrow> line l k' = line l k"
    and "\<And>k'. k' \<in> ahead d l s' \<Longrightarrow> line l k' \<noteq> line l k"
proof -
  have above: "k < k'" if "k' \<in> ahead d l s'" for k' using that s' by (simp add: ahead_def in_bound_def)
  show "ahead d l s' \<subseteq> ahead d l s - {k}"
  proof
    fix k' assume a: "k' \<in> ahead d l s'"
    then have "k' \<in> listing_keys d l" by (simp add: ahead_def)
    with above [OF a] ahead_up [OF k] show "k' \<in> ahead d l s - {k}" by auto
  qed
  show "line l k' = line l k" if a: "k' \<in> ahead d l s" "k' \<notin> ahead d l s'" for k'
  proof -
    have "\<not> k < k'" using a s' by (simp add: ahead_def in_bound_def)
    with least a(1) show ?thesis by force
  qed
  show "line l k' \<noteq> line l k" if a: "k' \<in> ahead d l s'" for k'
  proof
    assume "line l k' = line l k"
    then have "listing_text (ls_prefix l) (ls_delimiter l) k' = k" by (simp add: line_def listing_text_def [of _ _ k] cp)
    then have "k' = k"
      using listing_text_eq_plain [OF ahead_prefix [OF k] ahead_prefix [OF a] cp] by simp
    with above [OF a] show False by simp
  qed
qed

text \<open>A delimiter with a character below \<open>char::MAX\<close>, so that every group has a successor.\<close>

definition seekable :: "listing \<Rightarrow> bool" where
  "seekable l \<longleftrightarrow> ls_delimiter l = [] \<or> key_successor (ls_delimiter l) \<noteq> None"

lemma seekable_group:
  assumes ok: "listing_ok d l" and k: "k \<in> listing_keys d l" and s: "seekable l"
    and cp: "common_prefix k (ls_prefix l) (ls_delimiter l) = Some c"
  shows "key_successor c \<noteq> None"
proof -
  have pk: "prefix (ls_prefix l) k" using k by (simp add: listing_keys_def)
  note c = common_prefix_Some [OF pk cp]
  have "valid_text k" using listing_keys_valid [OF ok k] .
  then have vc: "valid_text c" using c(1) by (auto simp: valid_text_def elim: prefixE)
  then have vd: "valid_text (ls_delimiter l)" using c(3) by (auto simp: valid_text_def suffix_def)
  from s c(4) have "key_successor (ls_delimiter l) \<noteq> None" by (simp add: seekable_def)
  then have "\<exists>x \<in> set (ls_delimiter l). x \<noteq> 0x10FFFF" by (simp only: key_successor_None_iff [OF vd]) simp
  then obtain x where "x \<in> set (ls_delimiter l)" "x \<noteq> 0x10FFFF" by blast
  moreover from c(3) have "set (ls_delimiter l) \<subseteq> set c" by (auto simp: suffix_def)
  ultimately show ?thesis using key_successor_None_iff [OF vc] by blast
qed

lemma scan_entry_step:
  assumes ok: "listing_ok d l" and k: "lst_key e \<in> ahead d l s" and least: "\<forall>k' \<in> ahead d l s. lst_key e \<le> k'"
    and step: "scan_entry l e s = (cursor, s')"
  shows "cursor = line l (lst_key e)" "ahead d l s' \<subseteq> ahead d l s - {lst_key e}"
    and "\<And>k'. k' \<in> ahead d l s \<Longrightarrow> k' \<notin> ahead d l s' \<Longrightarrow> line l k' = line l (lst_key e)"
    and "\<And>k'. seekable l \<Longrightarrow> k' \<in> ahead d l s' \<Longrightarrow> line l k' \<noteq> line l (lst_key e)"
    and "sc_truncated s' = sc_truncated s" "sc_next_cursor s' = sc_next_cursor s"
proof -
  have K: "lst_key e \<in> listing_keys d l" using k by (simp add: ahead_def)
  have "cursor = line l (lst_key e) \<and> ahead d l s' \<subseteq> ahead d l s - {lst_key e}
      \<and> (\<forall>k'. k' \<in> ahead d l s \<longrightarrow> k' \<notin> ahead d l s' \<longrightarrow> line l k' = line l (lst_key e))
      \<and> (\<forall>k'. seekable l \<longrightarrow> k' \<in> ahead d l s' \<longrightarrow> line l k' \<noteq> line l (lst_key e))
      \<and> sc_truncated s' = sc_truncated s \<and> sc_next_cursor s' = sc_next_cursor s"
  proof (cases "common_prefix (lst_key e) (ls_prefix l) (ls_delimiter l)")
    case None
    with step have s': "cursor = lst_key e" "s' = s\<lparr>sc_lower := lst_key e, sc_inclusive := False,
        sc_contents := sc_contents s @ [e]\<rparr>" by (auto simp: scan_entry_def)
    then have "sc_lower s' = lst_key e" "\<not> sc_inclusive s'" by simp_all
    note p = plain_ahead [OF k least None this]
    have "cursor = line l (lst_key e)" by (simp add: s'(1) line_def listing_text_def None)
    with p s'(2) show ?thesis by simp
  next
    case (Some c)
    with step have s': "cursor = c" "s' = seek_past c (lst_key e) (emit_group l c s)" by (auto simp: scan_entry_def)
    note p = seek_past_ahead [OF ok k least Some, where s' = "emit_group l c s"]
    have "cursor = line l (lst_key e)" by (simp add: s'(1) line_def listing_text_def Some)
    with p s'(2) seekable_group [OF ok K _ Some] show ?thesis by simp
  qed
  then show "cursor = line l (lst_key e)" "ahead d l s' \<subseteq> ahead d l s - {lst_key e}"
    "\<And>k'. k' \<in> ahead d l s \<Longrightarrow> k' \<notin> ahead d l s' \<Longrightarrow> line l k' = line l (lst_key e)"
    "\<And>k'. seekable l \<Longrightarrow> k' \<in> ahead d l s' \<Longrightarrow> line l k' \<noteq> line l (lst_key e)"
    "sc_truncated s' = sc_truncated s" "sc_next_cursor s' = sc_next_cursor s"
    by blast+
qed

text \<open>What the entry adds to the page.\<close>

definition emitted :: "listing \<Rightarrow> str list \<Rightarrow> str \<Rightarrow> str list" where
  "emitted l out t = (if ls_floor l < t \<and> t \<notin> set out then out @ [t] else out)"

lemma plain_line: "k \<in> listing_keys d l \<Longrightarrow> plain l (line l k) \<longleftrightarrow> plain l k"
  by (simp add: plain_def line_def listing_keys_def listing_text_plain)

lemma scan_entry_holds:
  assumes ok: "listing_ok d l" and k: "lst_key e \<in> ahead d l s" and least: "\<forall>k' \<in> ahead d l s. lst_key e \<le> k'"
    and entry: "\<exists>ob. lookup d (ls_bucket l, lst_key e) = Some ob \<and> obj_size ob = lst_size e
         \<and> obj_etag ob = lst_etag e \<and> obj_modified_at ob = lst_modified_at e"
    and floor: "\<forall>k \<in> ahead d l s. ls_floor l < k"
    and h: "holds_lines d l s out" and step: "scan_entry l e s = (cursor, s')"
  shows "holds_lines d l s' (emitted l out (line l (lst_key e)))"
proof -
  let ?k = "lst_key e" and ?out = "emitted l out (line l (lst_key e))"
  have K: "?k \<in> listing_keys d l" using k by (simp add: ahead_def)
  note st = scan_entry_step [OF ok k least step] and hd = holds_linesD [OF h]
  have "ahead d l s' \<subseteq> ahead d l s" "?k \<notin> ahead d l s'" using st(2) by auto
  note hc = holds_consume [OF ok h k this st(3) emitted_def]
  have es: "list_all (\<lambda>e. \<exists>ob. lookup d (ls_bucket l, lst_key e) = Some ob \<and> obj_size ob = lst_size e
         \<and> obj_etag ob = lst_etag e \<and> obj_modified_at ob = lst_modified_at e) (sc_contents s)"
    using h unfolding holds_lines_def by (elim conjE)
  have "map lst_key (sc_contents s') = filter (plain l) ?out
      \<and> sc_common_prefixes s' = filter (\<lambda>t. \<not> plain l t) ?out
      \<and> set (sc_seen s') = set (sc_common_prefixes s')
      \<and> list_all (\<lambda>e. \<exists>ob. lookup d (ls_bucket l, lst_key e) = Some ob \<and> obj_size ob = lst_size e
         \<and> obj_etag ob = lst_etag e \<and> obj_modified_at ob = lst_modified_at e) (sc_contents s')"
  proof (cases "common_prefix ?k (ls_prefix l) (ls_delimiter l)")
    case None
    then have p: "plain l ?k" and lk: "line l ?k = ?k" by (simp_all add: plain_def line_def listing_text_def)
    have "?k \<notin> set out"
    proof
      assume "?k \<in> set out"
      then obtain k' where k': "?k = line l k'" "k' \<in> listing_keys d l" "k' \<notin> ahead d l s"
        unfolding hd(2) by blast
      have "k' = ?k"
        using listing_text_eq_plain [OF ahead_prefix [OF k] _ None] k'(1,2) by (simp add: line_def listing_keys_def)
      with k'(3) k show False by simp
    qed
    then have out: "?out = out @ [?k]" using floor k by (simp add: emitted_def lk)
    from step None have s': "s' = s\<lparr>sc_lower := ?k, sc_inclusive := False, sc_contents := sc_contents s @ [e]\<rparr>"
      by (auto simp: scan_entry_def)
    show ?thesis using hd(3-5) es entry by (simp add: out s' p)
  next
    case (Some c)
    then have lk: "line l ?k = c" by (simp add: line_def listing_text_def)
    have np: "\<not> plain l c" using plain_line [OF K] Some by (simp add: lk) (simp add: plain_def)
    from step Some have s': "s' = seek_past c ?k (emit_group l c s)" by (auto simp: scan_entry_def)
    have "c \<in> set (sc_seen s) \<longleftrightarrow> c \<in> set out" using np by (simp add: hd(4,5))
    then have e: "emit_group l c s = (if ls_floor l < c \<and> c \<notin> set out
        then s\<lparr>sc_seen := c # sc_seen s, sc_common_prefixes := sc_common_prefixes s @ [c]\<rparr> else s)"
      by (simp add: emit_group_def)
    show ?thesis
      using hd(3-5) es np by (simp add: s' e emitted_def lk)
  qed
  with hc show ?thesis unfolding holds_lines_def by blast
qed

section \<open>A whole page\<close>

lemma lines_split:
  assumes ok: "listing_ok d l" and h: "holds_lines d l s out"
  shows "listing_lines d l
    = out @ sorted_list_of_set {t \<in> line l ` ahead d l s. ls_floor l < t \<and> t \<notin> set out}"
proof -
  let ?rest = "{t \<in> line l ` ahead d l s. ls_floor l < t \<and> t \<notin> set out}"
  let ?all = "{t \<in> line l ` listing_keys d l. ls_floor l < t}"
  note out = holds_linesD(1,2) [OF h]
  have fin: "finite ?rest" "finite ?all" using ok by (simp_all add: listing_keys_finite)
  have lt: "t < r" if t: "t \<in> set out" and r: "r \<in> ?rest" for t r
  proof -
    from r obtain k where k: "r = line l k" "k \<in> ahead d l s" "r \<notin> set out" by blast
    have "t \<le> r" unfolding k(1) using h t k(2) by (rule emitted_le)
    moreover have "t \<noteq> r" using t k(3) by blast
    ultimately show ?thesis by (rule order.not_eq_order_implies_strict [rotated])
  qed
  have "sorted_wrt (<) (out @ sorted_list_of_set ?rest)"
    using out(1) lt fin(1) by (auto simp: sorted_wrt_append)
  moreover have "set (out @ sorted_list_of_set ?rest) = ?all"
  proof -
    have "listing_keys d l = (listing_keys d l - ahead d l s) \<union> ahead d l s" by (auto simp: ahead_def)
    then have "line l ` listing_keys d l = line l ` (listing_keys d l - ahead d l s) \<union> line l ` ahead d l s"
      by (metis image_Un)
    then have "?all = set out \<union> {t \<in> line l ` ahead d l s. ls_floor l < t}" by (auto simp: out(2))
    then show ?thesis using fin(1) by auto
  qed
  moreover have "sorted_wrt (<) (sorted_list_of_set ?all)" "set (sorted_list_of_set ?all) = ?all"
    using fin(2) by (simp_all del: mem_Collect_eq)
  ultimately have "sorted_list_of_set ?all = out @ sorted_list_of_set ?rest"
    by (intro strict_sorted_equal) simp_all
  then show ?thesis by (simp add: listing_lines_def)
qed

text \<open>
  What the scan leaves when it returns: the page, whether there is more, and where to go on.
\<close>

definition page_of :: "db \<Rightarrow> listing \<Rightarrow> scan \<Rightarrow> bool" where
  "page_of d l s \<longleftrightarrow>
     (\<exists>out. out = take (ls_max_keys l) (listing_lines d l)
       \<and> map lst_key (sc_contents s) = filter (plain l) out
       \<and> sc_common_prefixes s = filter (\<lambda>t. \<not> plain l t) out
       \<and> list_all (\<lambda>e. \<exists>ob. lookup d (ls_bucket l, lst_key e) = Some ob \<and> obj_size ob = lst_size e
           \<and> obj_etag ob = lst_etag e \<and> obj_modified_at ob = lst_modified_at e) (sc_contents s)
       \<and> (ls_max_keys l < length (listing_lines d l) \<longrightarrow> sc_truncated s)
       \<and> (seekable l \<longrightarrow> sc_truncated s \<longrightarrow> ls_max_keys l < length (listing_lines d l))
       \<and> (if sc_truncated s then out \<noteq> [] \<and> length out = ls_max_keys l \<and> sc_next_cursor s = Some (last out)
          else sc_next_cursor s = None))"

lemma page_ends:
  assumes ok: "listing_ok d l" and s: "scanning d l s" and none: "ahead d l s = {}"
  shows "page_of d l s"
proof -
  from s obtain out where h: "holds_lines d l s out" and len: "length out < ls_max_keys l"
    and t: "\<not> sc_truncated s" "sc_next_cursor s = None"
    unfolding scanning_def by blast
  have "listing_lines d l = out" using lines_split [OF ok h] none by simp
  with h len t show ?thesis unfolding page_of_def holds_lines_def by simp
qed

lemma finish_page_sel [simp]:
  "sc_contents (finish_page d l c s) = sc_contents s"
  "sc_common_prefixes (finish_page d l c s) = sc_common_prefixes s"
  "sc_truncated (finish_page d l c s)
     = (list_objects (ls_bucket l) (ls_prefix l) (sc_lower s) (sc_inclusive s) 1 d \<noteq> [])"
  by (simp_all add: finish_page_def Let_def)

lemma more_iff:
  assumes "listing_ok d l"
  shows "list_objects (ls_bucket l) (ls_prefix l) (sc_lower s) (sc_inclusive s) 1 d \<noteq> [] \<longleftrightarrow> ahead d l s \<noteq> {}"
proof -
  have "list_objects (ls_bucket l) (ls_prefix l) (sc_lower s) (sc_inclusive s) 1 d = []
      \<longleftrightarrow> take 1 (sorted_list_of_set (ahead d l s)) = []"
    using batch_keys [OF assms, of s 1] by (metis Nil_is_map_conv)
  with assms show ?thesis by (simp add: sorted_list_of_set_eq_Nil_iff)
qed

lemma page_fills:
  assumes ok: "listing_ok d l" and h: "holds_lines d l s (out @ [c])" and full: "length (out @ [c]) = ls_max_keys l"
    and next_lines: "\<And>k'. k' \<in> ahead d l s \<Longrightarrow> c \<le> line l k'" and floor: "ls_floor l < c"
    and new: "\<And>k'. seekable l \<Longrightarrow> k' \<in> ahead d l s \<Longrightarrow> line l k' \<noteq> c"
    and init: "sc_next_cursor s = None"
  shows "page_of d l (finish_page d l c s)"
proof -
  let ?out = "out @ [c]"
  let ?rest = "{t \<in> line l ` ahead d l s. ls_floor l < t \<and> t \<notin> set ?out}"
  have F: "listing_lines d l = ?out @ sorted_list_of_set ?rest" using lines_split [OF ok h] .
  have fin: "finite ?rest" using ok by simp
  have "length (listing_lines d l) = ls_max_keys l + card ?rest"
    unfolding F length_append full [symmetric] by (simp only: sorted_list_of_set.length_sorted_key_list_of_set)
  then have len: "ls_max_keys l < length (listing_lines d l) \<longleftrightarrow> ?rest \<noteq> {}"
    using card_gt_0_iff [of ?rest] fin by linarith
  have tr: "sc_truncated (finish_page d l c s) \<longleftrightarrow> ahead d l s \<noteq> {}"
    using more_iff [OF ok, of s] by simp
  have "?rest \<noteq> {}" if sk: "seekable l" and ne: "ahead d l s \<noteq> {}"
  proof -
    obtain k where k: "k \<in> ahead d l s" using ne by blast
    then have lt: "c < line l k" using next_lines [OF k] new [OF sk k] by (metis order_le_less)
    have "sorted_wrt (<) ?out" using holds_linesD(1) [OF h] .
    then have "\<forall>t \<in> set ?out. t \<le> c" by (auto simp: sorted_wrt_append)
    with lt have "line l k \<notin> set ?out" by (meson leD)
    with k lt floor show ?thesis using less_trans by blast
  qed
  with len tr have more: "seekable l \<longrightarrow> sc_truncated (finish_page d l c s) \<longrightarrow> ls_max_keys l < length (listing_lines d l)"
    by blast
  have more': "ls_max_keys l < length (listing_lines d l) \<longrightarrow> sc_truncated (finish_page d l c s)"
    using len tr by blast
  have cur: "sc_next_cursor (finish_page d l c s) = (if sc_truncated (finish_page d l c s) then Some c else None)"
    by (simp add: finish_page_def Let_def init)
  have out: "?out = take (ls_max_keys l) (listing_lines d l)"
    unfolding F full [symmetric] by simp
  note hd = holds_linesD [OF h]
  have es: "list_all (\<lambda>e. \<exists>ob. lookup d (ls_bucket l, lst_key e) = Some ob \<and> obj_size ob = lst_size e
         \<and> obj_etag ob = lst_etag e \<and> obj_modified_at ob = lst_modified_at e) (sc_contents s)"
    using h unfolding holds_lines_def by (elim conjE)
  have cont: "if sc_truncated (finish_page d l c s)
      then ?out \<noteq> [] \<and> length ?out = ls_max_keys l \<and> sc_next_cursor (finish_page d l c s) = Some (last ?out)
      else sc_next_cursor (finish_page d l c s) = None"
    using cur full by simp
  show ?thesis
    unfolding page_of_def finish_page_sel(1,2)
    by (intro exI [of _ ?out] conjI) (fact out hd(3,4) es more more' cont)+
qed

text \<open>A batch, from the first entry not yet seen: the entries left are the least keys ahead.\<close>

definition pending :: "db \<Rightarrow> listing \<Rightarrow> listing_record list \<Rightarrow> scan \<Rightarrow> bool" where
  "pending d l es s \<longleftrightarrow> sorted_wrt (<) (map lst_key es) \<and> (\<forall>e \<in> set es. lst_key e \<in> listing_keys d l)
     \<and> list_all (\<lambda>e. \<exists>ob. lookup d (ls_bucket l, lst_key e) = Some ob \<and> obj_size ob = lst_size e
         \<and> obj_etag ob = lst_etag e \<and> obj_modified_at ob = lst_modified_at e) es
     \<and> (\<forall>k \<in> ahead d l s. k \<notin> set (map lst_key es) \<longrightarrow> (\<forall>e \<in> set es. lst_key e < k))"

lemma scan_entries_result:
  assumes ok: "listing_ok d l" and s: "scanning d l s" and p: "pending d l es s"
    and run: "scan_entries d l es s = (stop, s')"
  shows "if stop then page_of d l s'
    else scanning d l s' \<and> ahead d l s' \<subseteq> ahead d l s - set (map lst_key es)"
  using s p run
proof (induction es arbitrary: s)
  case Nil
  then show ?case by auto
next
  case (Cons e es)
  let ?k = "lst_key e"
  have K: "?k \<in> listing_keys d l" and entry: "\<exists>ob. lookup d (ls_bucket l, ?k) = Some ob \<and> obj_size ob = lst_size e
         \<and> obj_etag ob = lst_etag e \<and> obj_modified_at ob = lst_modified_at e"
    using Cons.prems(2) by (simp_all add: pending_def)
  show ?case
  proof (cases "in_bound s ?k")
    case False
    then have "?k \<notin> ahead d l s" by (simp add: ahead_def)
    moreover have "pending d l es s"
      using Cons.prems(2) calculation unfolding pending_def by auto
    moreover have "scan_entries d l es s = (stop, s')" using Cons.prems(3) False by simp
    ultimately have "?k \<notin> ahead d l s" "if stop then page_of d l s'
        else scanning d l s' \<and> ahead d l s' \<subseteq> ahead d l s - set (map lst_key es)"
      using Cons.IH [OF Cons.prems(1)] by blast+
    then show ?thesis by (cases stop) auto
  next
    case True
    then have k: "?k \<in> ahead d l s" using K by (simp add: ahead_def)
    have least: "\<forall>k' \<in> ahead d l s. ?k \<le> k'"
      using Cons.prems(2) unfolding pending_def by (fastforce intro: less_imp_le)
    obtain cursor s1 where step: "scan_entry l e s = (cursor, s1)" by (cases "scan_entry l e s") auto
    note st = scan_entry_step [OF ok k least step]
    from Cons.prems(1) obtain out where h: "holds_lines d l s out" and len: "length out < ls_max_keys l"
      and floor: "\<forall>k \<in> ahead d l s. ls_floor l < k" and init: "\<not> sc_truncated s" "sc_next_cursor s = None"
      unfolding scanning_def by blast
    let ?out = "emitted l out (line l ?k)"
    have h1: "holds_lines d l s1 ?out" by (rule scan_entry_holds [OF ok k least entry floor h step])
    have full: "page_full l s1 \<longleftrightarrow> ls_max_keys l \<le> length ?out"
      by (simp add: page_full_def holds_count [OF h1])
    show ?thesis
    proof (cases "page_full l s1")
      case True
      with full len have out: "?out = out @ [line l ?k]" "length (out @ [line l ?k]) = ls_max_keys l"
          "ls_floor l < line l ?k"
        by (auto simp: emitted_def split: if_splits)
      from Cons.prems(3) \<open>in_bound s ?k\<close> step True have r: "stop" "s' = finish_page d l cursor s1" by auto
      have "line l ?k \<le> line l k'" if "k' \<in> ahead d l s1" for k'
        using emitted_le [OF h1 _ that] out(1) by simp
      then have "page_of d l (finish_page d l (line l ?k) s1)"
        using page_fills [OF ok h1 [unfolded out(1)] out(2)] out(3) st(4,6) init(2) by simp
      with r st(1) show ?thesis by simp
    next
      case False
      from Cons.prems(3) \<open>in_bound s ?k\<close> step False have r: "scan_entries d l es s1 = (stop, s')" by auto
      have "scanning d l s1"
        using h1 False full floor st(2,5,6) init unfolding scanning_def by auto
      moreover have "pending d l es s1"
        using Cons.prems(2) st(2) unfolding pending_def by auto
      ultimately have "if stop then page_of d l s' else scanning d l s' \<and> ahead d l s' \<subseteq> ahead d l s1 - set (map lst_key es)"
        using r by (rule Cons.IH)
      then show ?thesis by (cases stop) (use st(2) in \<open>simp_all, blast\<close>)
    qed
  qed
qed

text \<open>Every batch consumes an entry, so the loop returns.\<close>

lemma batch_pending:
  assumes ok: "listing_ok d l"
  shows "pending d l (list_objects (ls_bucket l) (ls_prefix l) (sc_lower s) (sc_inclusive s) n d) s"
proof -
  let ?es = "list_objects (ls_bucket l) (ls_prefix l) (sc_lower s) (sc_inclusive s) n d"
  note keys = batch_keys [OF ok, of s n]
  have fin: "finite (ahead d l s)" using ok by simp
  have "sorted_wrt (<) (take n (sorted_list_of_set (ahead d l s)))" by (intro sorted_wrt_take) simp
  then have sorted: "sorted_wrt (<) (map lst_key ?es)" unfolding keys .
  have sub: "set (map lst_key ?es) \<subseteq> ahead d l s"
    unfolding keys using set_take_subset [of n "sorted_list_of_set (ahead d l s)"] fin by simp
  have below: "x < k" if "k \<in> ahead d l s" "k \<notin> set (map lst_key ?es)" "x \<in> set (map lst_key ?es)" for x k
    using that fin unfolding keys by (intro take_sorted_below)
  have "list_all (\<lambda>e. \<exists>ob. lookup d (ls_bucket l, lst_key e) = Some ob \<and> obj_size ob = lst_size e
         \<and> obj_etag ob = lst_etag e \<and> obj_modified_at ob = lst_modified_at e) ?es"
    using ok by (auto simp: list_all_iff listing_ok_def intro: listed_entry)
  moreover have "\<forall>e \<in> set ?es. lst_key e \<in> listing_keys d l" using sub by (auto simp: ahead_def)
  ultimately show ?thesis using sorted below unfolding pending_def by simp
qed

lemma scan_loop_result:
  assumes "listing_ok d l" and "scanning d l s"
  shows "\<exists>s'. scan_loop d l s = Some s' \<and> page_of d l s'"
  using assms
proof (induction "card (ahead d l s)" arbitrary: s rule: less_induct)
  case less
  let ?es = "list_objects (ls_bucket l) (ls_prefix l) (sc_lower s) (sc_inclusive s) scan_batch_size d"
  note ok = less.prems(1) and keys = batch_keys [OF less.prems(1), of s scan_batch_size]
  have fin: "finite (ahead d l s)" using ok by simp
  show ?case
  proof (cases "?es = []")
    case True
    then have "take scan_batch_size (sorted_list_of_set (ahead d l s)) = []" using keys by simp
    then have "ahead d l s = {}" using fin by (simp add: scan_batch_size_def sorted_list_of_set_eq_Nil_iff)
    then have "page_of d l s" using page_ends less.prems by blast
    with True show ?thesis by (subst scan_loop.simps) (simp add: Let_def)
  next
    case False
    obtain stop s' where run: "scan_entries d l ?es s = (stop, s')" by (cases "scan_entries d l ?es s") auto
    have res: "if stop then page_of d l s'
        else scanning d l s' \<and> ahead d l s' \<subseteq> ahead d l s - set (map lst_key ?es)"
      by (rule scan_entries_result [OF ok less.prems(2) batch_pending [OF ok] run])
    have keys_set: "set (map lst_key ?es) \<subseteq> ahead d l s"
      unfolding keys using set_take_subset [of scan_batch_size "sorted_list_of_set (ahead d l s)"] fin by simp
    have loop: "scan_loop d l s
        = (if stop \<or> length ?es < scan_batch_size then Some s' else scan_loop d l s')"
      using False run by (subst scan_loop.simps) (simp add: Let_def)
    show ?thesis
    proof (cases stop)
      case True
      with res loop show ?thesis by simp
    next
      case False
      with res have s': "scanning d l s'" and sub: "ahead d l s' \<subseteq> ahead d l s - set (map lst_key ?es)" by simp_all
      show ?thesis
      proof (cases "length ?es < scan_batch_size")
        case True
        then have "length (take scan_batch_size (sorted_list_of_set (ahead d l s))) < scan_batch_size"
          by (metis keys length_map)
        then have "set (map lst_key ?es) = ahead d l s" unfolding keys using fin by simp
        with sub have "ahead d l s' = {}" by blast
        then have "page_of d l s'" using page_ends ok s' by blast
        with loop True show ?thesis by simp
      next
        case short: False
        obtain e where "e \<in> set ?es" using \<open>?es \<noteq> []\<close> by (meson list.set_sel(1))
        then have "lst_key e \<in> ahead d l s" "lst_key e \<notin> ahead d l s'" using sub keys_set by auto
        with sub have "ahead d l s' \<subset> ahead d l s" by blast
        then have "card (ahead d l s') < card (ahead d l s)" using fin by (rule psubset_card_mono [rotated])
        from less.hyps [OF this ok s'] loop False short show ?thesis by simp
      qed
    qed
  qed
qed

lemma scan_start_scanning:
  assumes "listing_ok d l" and "0 < ls_max_keys l"
  shows "scanning d l (scan_start (ls_floor l))"
proof -
  have "holds_lines d l (scan_start (ls_floor l)) []"
  proof -
    have "\<not> ls_floor l < line l k" if "k \<in> listing_keys d l" "k \<notin> ahead d l (scan_start (ls_floor l))" for k
    proof -
      have "k \<le> ls_floor l" using that by (simp add: ahead_def in_bound_def scan_start_def not_less)
      moreover have "line l k \<le> k" using that(1) by (simp add: line_def listing_keys_def listing_text_le)
      ultimately show ?thesis by (meson leD order.trans)
    qed
    then show ?thesis by (auto simp: holds_lines_def) (simp_all add: scan_start_def)
  qed
  moreover have "\<forall>k \<in> ahead d l (scan_start (ls_floor l)). ls_floor l < k"
    by (simp add: ahead_def in_bound_def scan_start_def)
  moreover have "\<not> sc_truncated (scan_start (ls_floor l))" "sc_next_cursor (scan_start (ls_floor l)) = None"
    by (simp_all add: scan_start_def)
  ultimately show ?thesis using assms(2) unfolding scanning_def by (metis list.size(3))
qed

section \<open>The listing of a request\<close>

text \<open>The listing a request asks for.\<close>

definition listing_of :: "str \<Rightarrow> query \<Rightarrow> nat \<Rightarrow> str \<Rightarrow> listing" where
  "listing_of bucket q n after = \<lparr>ls_bucket = bucket, ls_prefix = or_empty (query_value q (lit ''prefix'')),
     ls_delimiter = or_empty (query_value q (lit ''delimiter'')), ls_max_keys = n, ls_floor = after\<rparr>"

lemma listing_of_sel [simp]:
  "ls_bucket (listing_of bucket q n after) = bucket" "ls_max_keys (listing_of bucket q n after) = n"
  "ls_prefix (listing_of bucket q n after) = or_empty (query_value q (lit ''prefix''))"
  "ls_delimiter (listing_of bucket q n after) = or_empty (query_value q (lit ''delimiter''))"
  "ls_floor (listing_of bucket q n after) = after"
  by (simp_all add: listing_of_def)

lemma list_result_sel [simp]:
  "lb_is_truncated (list_result lib bucket q n s) = sc_truncated s"
  "lb_next_marker (list_result lib bucket q n s) = (if sc_truncated s \<and> \<not> is_v2 q then sc_next_cursor s else None)"
  "lb_next_continuation_token (list_result lib bucket q n s)
     = (if is_v2 q then map_option (\<lambda>cursor. hl_b64_encode lib (utf8 cursor)) (sc_next_cursor s) else None)"
  "map ox_key (lb_contents (list_result lib bucket q n s)) = map lst_key (sc_contents s)"
  "lb_common_prefixes (list_result lib bucket q n s) = sc_common_prefixes s"
  "lb_key_count (list_result lib bucket q n s) = int (length (sc_contents s) + length (sc_common_prefixes s))"
  by (simp_all add: list_result_def Let_def)

lemma list_page_scan:
  assumes "db_ok d" and "keys_valid d" and "valid_text (or_empty (query_value q (lit ''prefix'')))"
    and "bucket_exists bucket d" and "parse_max_keys q = Inr n" and "0 < n" and "listing_after lib q = Inr after"
  shows "\<exists>s. list_page lib bucket q d = Some (Inr (list_result lib bucket q n s))
    \<and> page_of d (listing_of bucket q n after) s"
proof -
  let ?l = "listing_of bucket q n after"
  have ok: "listing_ok d ?l" using assms(1-3) by (simp add: listing_ok_def)
  have "scanning d ?l (scan_start after)"
    using scan_start_scanning [OF ok] assms(6) by simp
  from scan_loop_result [OF ok this] obtain s where "scan_loop d ?l (scan_start after) = Some s" "page_of d ?l s"
    by blast
  with assms(4-7) show ?thesis
    unfolding listing_of_def by (auto simp: list_page_def)
qed

text \<open>A listing request is answered.\<close>

lemma list_page_total:
  assumes "db_ok d" and "keys_valid d" and "valid_text (or_empty (query_value q (lit ''prefix'')))"
  shows "list_page lib bucket q d \<noteq> None"
proof (cases "bucket_exists bucket d")
  case True
  show ?thesis
  proof (cases "parse_max_keys q")
    case (Inr n)
    show ?thesis
    proof (cases "listing_after lib q")
      case after: (Inr after)
      show ?thesis
      proof (cases "n = 0")
        case False
        with list_page_scan [OF assms True Inr _ after] show ?thesis by auto
      qed (simp add: list_page_def True Inr after)
    qed (simp add: list_page_def True Inr)
  qed (simp add: list_page_def True)
qed (simp add: list_page_def)

end
