(* ===== verification/Spec_S3.thy ===== *)
theory Spec_S3
  imports S3_List_Props Examples
begin

text \<open>
  The properties of the S3 interface: listing pages.
\<close>

section \<open>Listing pages\<close>

text \<open>
  The lines of a listing above a marker, over the object store: the keys of the bucket with the
  prefix, a key that contains the delimiter after the prefix standing for its common prefix,
  each line once, in order.
\<close>

definition store_lines :: "db \<Rightarrow> str \<Rightarrow> str \<Rightarrow> str \<Rightarrow> str \<Rightarrow> str list" where
  "store_lines d bucket pre delimiter after =
     sorted_list_of_set {t. after < t \<and> (\<exists>k. lookup d (bucket, k) \<noteq> None \<and> prefix pre k
       \<and> t = (case common_prefix k pre delimiter of Some c \<Rightarrow> c | None \<Rightarrow> k))}"

lemma listing_lines_store:
  "listing_lines d l = store_lines d (ls_bucket l) (ls_prefix l) (ls_delimiter l) (ls_floor l)"
proof -
  have "{t \<in> line l ` listing_keys d l. ls_floor l < t}
      = {t. ls_floor l < t \<and> (\<exists>k. lookup d (ls_bucket l, k) \<noteq> None \<and> prefix (ls_prefix l) k
         \<and> t = (case common_prefix k (ls_prefix l) (ls_delimiter l) of Some c \<Rightarrow> c | None \<Rightarrow> k))}"
    unfolding line_def listing_text_def listing_keys_def by blast
  then show ?thesis unfolding listing_lines_def store_lines_def by (rule arg_cong)
qed

text \<open>The lines above the last line of a page are the lines after the page.\<close>

lemma store_lines_after:
  assumes ok: "db_ok d" and page: "take n (store_lines d b pre dl after) \<noteq> []"
    and len: "length (take n (store_lines d b pre dl after)) = n"
  shows "store_lines d b pre dl (last (take n (store_lines d b pre dl after))) = drop n (store_lines d b pre dl after)"
proof -
  let ?S = "{t. \<exists>k. lookup d (b, k) \<noteq> None \<and> prefix pre k \<and> t = (case common_prefix k pre dl of Some c \<Rightarrow> c | None \<Rightarrow> k)}"
  let ?L = "store_lines d b pre dl after" and ?f = "\<lambda>k. case common_prefix k pre dl of Some c \<Rightarrow> c | None \<Rightarrow> k"
  have "?S \<subseteq> ?f ` orow_key ` set (objects d)"
  proof
    fix t assume "t \<in> ?S"
    then obtain k where k: "lookup d (b, k) \<noteq> None" "t = ?f k" by blast
    from k(1) have "k \<in> orow_key ` set (objects d)" by (subst (asm) lookup_exists_iff [OF ok]) blast
    with k(2) show "t \<in> ?f ` orow_key ` set (objects d)" by blast
  qed
  then have fin: "finite ?S" by (rule finite_subset) simp
  have set: "store_lines d b pre dl a = sorted_list_of_set {t \<in> ?S. a < t}" for a
    unfolding store_lines_def by (intro arg_cong [of _ _ sorted_list_of_set]) blast
  have fin': "finite {t \<in> ?S. a < t}" for a using fin by simp
  have after: "after < last (take n ?L)"
    using last_in_set [OF page] set_take_subset [of n ?L] fin' [of after] unfolding set [of after] by auto
  have "filter (\<lambda>x. last (take n ?L) < x) ?L = drop n ?L"
    using page len unfolding set by (intro sorted_after_page) (auto simp: Suc_le_eq gr0_conv_Suc)
  moreover have "set (filter (\<lambda>x. last (take n ?L) < x) ?L) = {t \<in> ?S. last (take n ?L) < t}"
    using after fin' [of after] unfolding set [of after] by auto
  moreover have "sorted_wrt (<) (filter (\<lambda>x. last (take n ?L) < x) ?L)"
    unfolding set by (intro sorted_wrt_filter) simp
  ultimately show ?thesis
    unfolding set [of "last _"] using fin' [of "last (take n ?L)"]
    by (intro strict_sorted_equal) simp_all
qed

text \<open>
  C19: A page of a listing is exactly the next \<open>max-keys\<close> lines of the bucket above the request's
  marker, for both versions of the request and any prefix and delimiter: its entries are the
  lines that are keys, with the size and ETag of the stored object, its common prefixes the other
  lines. It is marked truncated when there are more lines, and only then unless the delimiter
  consists of the last character of Unicode. The scan returns: no batch, seek or group makes it
  loop.
\<close>

theorem list_page_correct:
  assumes "db_ok d" and "keys_valid d" and "valid_text (or_empty (query_value q (lit ''prefix'')))"
    and "bucket_exists bucket d" and "parse_max_keys q = Inr n" and "0 < n" and "listing_after lib q = Inr after"
    and "pre = or_empty (query_value q (lit ''prefix''))" and "dl = or_empty (query_value q (lit ''delimiter''))"
  shows "\<exists>page. list_page lib bucket q d = Some (Inr page)
    \<and> map ox_key (lb_contents page)
        = filter (\<lambda>t. common_prefix t pre dl = None) (take n (store_lines d bucket pre dl after))
    \<and> lb_common_prefixes page
        = filter (\<lambda>t. common_prefix t pre dl \<noteq> None) (take n (store_lines d bucket pre dl after))
    \<and> list_all (\<lambda>e. \<exists>ob. lookup d (bucket, ox_key e) = Some ob \<and> ox_size e = obj_size ob
        \<and> ox_etag e = quoted (obj_etag ob)) (lb_contents page)
    \<and> lb_key_count page = int (length (take n (store_lines d bucket pre dl after)))
    \<and> (n < length (store_lines d bucket pre dl after) \<longrightarrow> lb_is_truncated page)
    \<and> (dl = [] \<or> key_successor dl \<noteq> None \<longrightarrow> lb_is_truncated page
         \<longrightarrow> n < length (store_lines d bucket pre dl after))"
proof -
  let ?l = "listing_of bucket q n after"
  from list_page_scan [OF assms(1-7)] obtain s where
    s: "list_page lib bucket q d = Some (Inr (list_result lib bucket q n s))" and page: "page_of d ?l s" by blast
  have F: "listing_lines d ?l = store_lines d bucket pre dl after" by (simp add: listing_lines_store assms(8,9))
  let ?out = "take n (store_lines d bucket pre dl after)"
  have p: "map lst_key (sc_contents s) = filter (\<lambda>t. common_prefix t pre dl = None) ?out"
      "sc_common_prefixes s = filter (\<lambda>t. common_prefix t pre dl \<noteq> None) ?out"
    and es: "list_all (\<lambda>e. \<exists>ob. lookup d (bucket, lst_key e) = Some ob \<and> obj_size ob = lst_size e
         \<and> obj_etag ob = lst_etag e \<and> obj_modified_at ob = lst_modified_at e) (sc_contents s)"
    and tr: "n < length (store_lines d bucket pre dl after) \<longrightarrow> sc_truncated s"
      "seekable ?l \<longrightarrow> sc_truncated s \<longrightarrow> n < length (store_lines d bucket pre dl after)"
    using page unfolding page_of_def F plain_def by (auto simp: assms(8,9))
  have "length (sc_contents s) = length (filter (\<lambda>t. common_prefix t pre dl = None) ?out)"
    using arg_cong [OF p(1), of length] by simp
  then have count: "length (sc_contents s) + length (sc_common_prefixes s) = length ?out"
    using sum_length_filter_compl [of "\<lambda>t. common_prefix t pre dl = None" ?out] p(2) by simp
  show ?thesis
    by (intro exI [of _ "list_result lib bucket q n s"] conjI)
      (use s p es tr count in \<open>auto simp: list_result_def Let_def comp_def seekable_def assms(9) list_all_iff\<close>)
qed

lemma store_lines_valid:
  assumes ok: "db_ok d" and v: "keys_valid d" and t: "t \<in> set (store_lines d b pre dl after)"
  shows "valid_text t"
proof -
  let ?A = "{t. after < t \<and> (\<exists>k. lookup d (b, k) \<noteq> None \<and> prefix pre k
      \<and> t = (case common_prefix k pre dl of Some c \<Rightarrow> c | None \<Rightarrow> k))}"
  have "t \<in> ?A"
  proof (cases "finite ?A")
    case True
    then show ?thesis using t unfolding store_lines_def by simp
  qed (use t in \<open>simp add: store_lines_def\<close>)
  then obtain k where k: "lookup d (b, k) \<noteq> None" "prefix pre k"
    "t = (case common_prefix k pre dl of Some c \<Rightarrow> c | None \<Rightarrow> k)" by blast
  from k(1) obtain r where "r \<in> set (objects d)" "orow_key r = k"
    by (subst (asm) lookup_exists_iff [OF ok]) blast
  with v have "valid_text k" by (auto simp: keys_valid_def list_all_iff)
  moreover have "prefix t k"
    using k(3) common_prefix_Some(1) [OF k(2)] by (auto split: option.splits)
  ultimately show ?thesis by (auto simp: valid_text_def elim: prefixE)
qed

text \<open>
  C20: Pages fit together. When a page is truncated, the marker or continuation token it
  returns is accepted, and the lines above it are exactly the lines after the page: a client that
  follows it sees every line once. The hypothesis on the base64 crate is that decoding undoes
  encoding.
\<close>

theorem list_pages_continue:
  assumes "db_ok d" and "keys_valid d" and "valid_text (or_empty (query_value q (lit ''prefix'')))"
    and "list_page lib bucket q d = Some (Inr page)" and "lb_is_truncated page"
    and "parse_max_keys q = Inr n" and "listing_after lib q = Inr after"
    and "is_v2 q' = is_v2 q"
    and "if is_v2 q then query_value q' (lit ''continuation-token'') = lb_next_continuation_token page
         else query_value q' (lit ''marker'') = lb_next_marker page"
    and "\<And>b. hl_b64_decode lib (hl_b64_encode lib b) = Some b"
    and "pre = or_empty (query_value q (lit ''prefix''))" and "dl = or_empty (query_value q (lit ''delimiter''))"
  shows "\<exists>after'. listing_after lib q' = Inr after'
    \<and> store_lines d bucket pre dl after' = drop n (store_lines d bucket pre dl after)"
proof -
  have bucket: "bucket_exists bucket d" using assms(4) by (auto simp: list_page_def split: if_splits)
  have n: "0 < n"
  proof (rule ccontr)
    assume "\<not> 0 < n"
    with assms(4-7) bucket show False
      by (auto simp: list_page_def scan_start_def)
  qed
  from list_page_scan [OF assms(1-3) bucket assms(6) n assms(7)] obtain s where
    s: "page = list_result lib bucket q n s" and page: "page_of d (listing_of bucket q n after) s"
    using assms(4) by auto
  have F: "listing_lines d (listing_of bucket q n after) = store_lines d bucket pre dl after"
    by (simp add: listing_lines_store assms(11,12))
  let ?out = "take n (store_lines d bucket pre dl after)"
  have "sc_truncated s" using assms(5) by (simp add: s)
  then have out: "?out \<noteq> []" "length ?out = n" "sc_next_cursor s = Some (last ?out)"
    using page unfolding page_of_def F by (simp_all del: take_eq_Nil)
  have "last ?out \<in> set (store_lines d bucket pre dl after)" using last_in_set [OF out(1)] by (rule in_set_takeD)
  then have valid: "valid_text (last ?out)" by (rule store_lines_valid [OF assms(1,2)])
  have "listing_after lib q' = Inr (last ?out)"
    using assms(8-10) out(3) valid \<open>sc_truncated s\<close>
    by (cases "is_v2 q") (simp_all add: listing_after_def s or_empty_def)
  with store_lines_after [OF assms(1) out(1,2)] show ?thesis by blast
qed

section \<open>Two keys, one per page\<close>

definition ex_lib :: http_lib where
  "ex_lib = \<lparr>hl_value_ok = (\<lambda>_. True), hl_name = Some, hl_fmt_http_date = show_int,
     hl_parse_http_date = parse_i64, hl_from_unix = Some, hl_rfc3339 = (\<lambda>t. Some (show_int t)),
     hl_percent_decode = utf8, hl_b64_encode = (\<lambda>b. b), hl_b64_decode = Some,
     hl_to_string = (\<lambda>_. Inr []), hl_to_bytes = (\<lambda>_ _. Inr []), hl_complete_request = (\<lambda>_. None),
     hl_delete_request = (\<lambda>_. None), hl_cors_request = (\<lambda>_. None)\<rparr>"

definition ex_query :: query where
  "ex_query = [(lit ''list-type'', lit ''2''), (lit ''max-keys'', lit ''1'')]"

lemma ex_query_values:
  "query_value ex_query (lit ''prefix'') = None" "query_value ex_query (lit ''delimiter'') = None"
  "query_value ex_query (lit ''start-after'') = None" "query_value ex_query (lit ''continuation-token'') = None"
  "parse_max_keys ex_query = Inr 1" "is_v2 ex_query"
  by code_simp+

lemma ex_after: "listing_after ex_lib ex_query = Inr []"
  by (simp add: listing_after_def ex_query_values [simplified] listing_start_after_def or_empty_def)

lemma ex_ok7: "db_ok ex_db7"
  using db_ok_copy_object [OF ex_ok(5) get_object_source_valid [OF ex_ok(5) ex_get], of ex_bucket 7
    ex_key2 default_metadata default_condition]
  by (simp add: ex_step7 bucket_named_def) (simp add: ex_defs)

lemma ex_keys7: "keys_valid ex_db7" "bucket_exists ex_bucket ex_db7"
  by (simp_all add: keys_valid_def valid_text_def scalar_def bucket_exists_def bucket_named_def ex_defs)

lemma ex_lines: "store_lines ex_db7 ex_bucket [] [] [] = [[107], [108]]"
proof -
  have "{t. [] < t \<and> (\<exists>k. lookup ex_db7 (ex_bucket, k) \<noteq> None \<and> prefix [] k
      \<and> t = (case common_prefix k [] [] of Some c \<Rightarrow> c | None \<Rightarrow> k))} = {[107], [108]}"
    by (auto simp: lookup_exists_iff [OF ex_ok7] common_prefix_def simp del: not_None_eq) (auto simp: ex_defs)
  then show ?thesis by (simp add: store_lines_def)
qed

lemma list_page_correct_witness:
  "\<exists>page. list_page ex_lib ex_bucket ex_query ex_db7 = Some (Inr page)
    \<and> map ox_key (lb_contents page) = [[107]] \<and> lb_is_truncated page"
  using list_page_correct [OF ex_ok7 ex_keys7(1) _ ex_keys7(2) ex_query_values(5) _ ex_after refl refl]
  by (auto simp: ex_query_values [simplified] or_empty_def valid_text_def ex_lines common_prefix_def)

definition ex_query2 :: query where
  "ex_query2 = ex_query @ [(lit ''continuation-token'', [107])]"

lemma ex_query2_values:
  "query_value ex_query2 (lit ''continuation-token'') = Some [107]" "is_v2 ex_query2"
  by code_simp+

lemma ex_page: "\<exists>page. list_page ex_lib ex_bucket ex_query ex_db7 = Some (Inr page)
    \<and> lb_is_truncated page \<and> lb_next_continuation_token page = Some [107]"
proof -
  obtain s where s: "list_page ex_lib ex_bucket ex_query ex_db7 = Some (Inr (list_result ex_lib ex_bucket ex_query 1 s))"
    and page: "page_of ex_db7 (listing_of ex_bucket ex_query 1 []) s"
    using list_page_scan [OF ex_ok7 ex_keys7(1) _ ex_keys7(2) ex_query_values(5) _ ex_after]
    by (auto simp: ex_query_values [simplified] or_empty_def valid_text_def)
  have F: "listing_lines ex_db7 (listing_of ex_bucket ex_query 1 []) = [[107], [108]]"
    by (simp add: listing_lines_store ex_query_values [simplified] or_empty_def ex_lines)
  have "sc_truncated s" "sc_next_cursor s = Some [107]"
    using page unfolding page_of_def F by (auto split: if_splits)
  with s show ?thesis by (auto simp: ex_query_values ex_lib_def utf8_char_def)
qed

lemma list_pages_continue_witness:
  "\<exists>after'. listing_after ex_lib ex_query2 = Inr after' \<and> store_lines ex_db7 ex_bucket [] [] after' = [[108]]"
proof -
  obtain page where p: "list_page ex_lib ex_bucket ex_query ex_db7 = Some (Inr page)" "lb_is_truncated page"
    "lb_next_continuation_token page = Some [107]" using ex_page by blast
  have e: "[] = or_empty (query_value ex_query (lit ''prefix''))" "[] = or_empty (query_value ex_query (lit ''delimiter''))"
    by (simp_all add: ex_query_values [simplified] or_empty_def)
  have "\<exists>after'. listing_after ex_lib ex_query2 = Inr after'
      \<and> store_lines ex_db7 ex_bucket [] [] after' = drop 1 (store_lines ex_db7 ex_bucket [] [] [])"
    by (rule list_pages_continue [OF ex_ok7 ex_keys7(1) _ p(1,2) ex_query_values(5) ex_after _ _ _ e])
      (use p(3) ex_query2_values ex_query_values(6) in
        \<open>simp_all add: ex_lib_def or_empty_def valid_text_def ex_query_values [simplified]\<close>)
  then show ?thesis by (simp add: ex_lines)
qed

end
