(* ===== verification/Auth.thy ===== *)
theory Auth
  imports S3_Http "HOL-Library.Product_Lexorder"
begin

text \<open>
  \<open>src/auth.rs\<close>: the check of AWS Signature Version 4, from the \<open>Authorization\<close> header or from a
  presigned query.

  SHA-256, HMAC-SHA-256, hexadecimal formatting and the parser of \<open>x-amz-date\<close> (the crates
  \<open>sha2\<close>, \<open>hmac\<close>, \<open>hex\<close>, \<open>time\<close>) are the fields of \<open>crypto\<close>. The clock is read in nanoseconds
  since 1970.
\<close>

record crypto =
  cr_sha256 :: "bytes \<Rightarrow> bytes"
  cr_hmac :: "bytes \<Rightarrow> bytes \<Rightarrow> error + bytes"
  cr_hex :: "bytes \<Rightarrow> str"
  cr_parse_date :: "str \<Rightarrow> error + int"

record sigv4 =
  sv_access_key :: "str option"
  sv_secret_key :: "str option"
  sv_region :: str
  sv_allow_anonymous :: bool

datatype http_method = GET | HEAD | PUT | POST | DELETE | OPTIONS | Other_Method str

primrec method_text :: "http_method \<Rightarrow> str" where
  "method_text GET = lit ''GET''"
| "method_text HEAD = lit ''HEAD''"
| "method_text PUT = lit ''PUT''"
| "method_text POST = lit ''POST''"
| "method_text DELETE = lit ''DELETE''"
| "method_text OPTIONS = lit ''OPTIONS''"
| "method_text (Other_Method m) = m"

section \<open>The canonical request\<close>

fun join :: "str \<Rightarrow> str list \<Rightarrow> str" where
  "join sep [] = []"
| "join sep [s] = s"
| "join sep (s # t # ts) = s @ sep @ join sep (t # ts)"

definition canonical_uri :: "str \<Rightarrow> str" where
  "canonical_uri path = (if path = [] then lit ''/'' else path)"

definition hex_digit :: "nat \<Rightarrow> nat" where
  "hex_digit n = lit ''0123456789ABCDEF'' ! n"

definition unreserved :: "nat \<Rightarrow> bool" where
  "unreserved b \<longleftrightarrow> is_ascii_alphanumeric b \<or> b = 45 \<or> b = 95 \<or> b = 46 \<or> b = 126"

definition encode_byte :: "nat \<Rightarrow> str" where
  "encode_byte b = (if unreserved b then [b] else [37, hex_digit (b div 16), hex_digit (b mod 16)])"

definition aws_encode :: "str \<Rightarrow> str" where
  "aws_encode value = concat (map encode_byte (utf8 value))"

definition canonical_query :: "query \<Rightarrow> bool \<Rightarrow> str" where
  "canonical_query q omit_signature =
     join (lit ''&'') (map (\<lambda>(key, value). key @ lit ''='' @ value)
       (sort (map (\<lambda>(key, value). (aws_encode key, aws_encode value))
         (filter (\<lambda>(key, _). \<not> (omit_signature \<and> eq_ignore_ascii_case key (lit ''X-Amz-Signature''))) q))))"

text \<open>\<open>str::split_whitespace\<close>.\<close>

function split_whitespace :: "str \<Rightarrow> str list" where
  "split_whitespace [] = []"
| "split_whitespace (c # s) =
     (if is_white c then split_whitespace s
      else (c # takeWhile (\<lambda>x. \<not> is_white x) s) # split_whitespace (dropWhile (\<lambda>x. \<not> is_white x) s))"
  by pat_completeness auto

termination
  by (relation "measure length") (auto simp: less_Suc_eq_le length_dropWhile_le)

definition collapse_spaces :: "str \<Rightarrow> str" where
  "collapse_spaces value = join (lit '' '') (split_whitespace value)"

definition canonical_header :: "request_headers \<Rightarrow> str \<Rightarrow> error + str list" where
  "canonical_header hs name =
     (let name = to_ascii_lowercase (trim name)
      in if name = [] then Inr []
         else
           bind_res (traverse (\<lambda>v. case v of None \<Rightarrow> Inl (Other (lit ''Invalid signed header''))
                                   | Some v \<Rightarrow> Inr (collapse_spaces v))
                      (map snd (filter (\<lambda>h. fst h = name) hs))) (\<lambda>values.
           if values = [] then Inl (Other (lit ''Signed header missing''))
           else Inr [name @ lit '':'' @ join (lit '','') values]))"

definition canonical_headers :: "request_headers \<Rightarrow> str \<Rightarrow> error + str" where
  "canonical_headers hs signed_headers =
     bind_res (traverse (canonical_header hs) (split_on 59 signed_headers)) (\<lambda>result.
       Inr (join [10] (concat result)))"

definition signing_key :: "crypto \<Rightarrow> str \<Rightarrow> str \<Rightarrow> str \<Rightarrow> str \<Rightarrow> error + bytes" where
  "signing_key cr secret date region service =
     bind_res (cr_hmac cr (utf8 (lit ''AWS4'' @ secret)) (utf8 date)) (\<lambda>date_key.
     bind_res (cr_hmac cr date_key (utf8 region)) (\<lambda>region_key.
     bind_res (cr_hmac cr region_key (utf8 service)) (\<lambda>service_key.
     cr_hmac cr service_key (utf8 (lit ''aws4_request'')))))"

section \<open>The claims of a request\<close>

record claims =
  cl_credential :: str
  cl_signed_headers :: str
  cl_signature :: str
  cl_amz_date :: str
  cl_expires :: "int option"

definition or_denied :: "'a option \<Rightarrow> error + 'a" where
  "or_denied v = (case v of Some x \<Rightarrow> Inr x | None \<Rightarrow> Inl AccessDenied)"

definition query_claim :: "query \<Rightarrow> str \<Rightarrow> str option" where
  "query_claim q name = map_option snd (find (\<lambda>(key, _). eq_ignore_ascii_case key name) q)"

definition presigned_claims :: "query \<Rightarrow> error + claims" where
  "presigned_claims q =
     (if query_claim q (lit ''X-Amz-Algorithm'') \<noteq> Some (lit ''AWS4-HMAC-SHA256'') then Inl AccessDenied
      else
        bind_res (or_denied (query_claim q (lit ''X-Amz-Credential''))) (\<lambda>credential.
        bind_res (or_denied (query_claim q (lit ''X-Amz-SignedHeaders''))) (\<lambda>signed_headers.
        bind_res (or_denied (query_claim q (lit ''X-Amz-Signature''))) (\<lambda>signature.
        bind_res (or_denied (query_claim q (lit ''X-Amz-Date''))) (\<lambda>amz_date.
        bind_res (or_denied (Option.bind (query_claim q (lit ''X-Amz-Expires'')) parse_i64)) (\<lambda>expires.
        if \<not> (0 \<le> expires \<and> expires \<le> 604800) then Inl AccessDenied
        else Inr \<lparr>cl_credential = credential, cl_signed_headers = signed_headers,
               cl_signature = signature, cl_amz_date = amz_date, cl_expires = Some expires\<rparr>))))))"

definition auth_field :: "str \<Rightarrow> (str \<rightharpoonup> str) \<Rightarrow> error + (str \<rightharpoonup> str)" where
  "auth_field field m =
     (case split_once 61 (trim field) of
        None \<Rightarrow> Inl AccessDenied
      | Some (key, value) \<Rightarrow> Inr (m(key \<mapsto> value)))"

definition header_claims :: "request_headers \<Rightarrow> error + claims" where
  "header_claims hs =
     bind_res (or_denied (header_text hs (lit ''authorization''))) (\<lambda>authorization.
     bind_res (or_denied (split_once 32 authorization)) (\<lambda>(algorithm, fields).
     if algorithm \<noteq> lit ''AWS4-HMAC-SHA256'' then Inl AccessDenied
     else
       bind_res (fold_res auth_field (split_on 44 fields) Map.empty) (\<lambda>m.
       bind_res (or_denied (m (lit ''Credential''))) (\<lambda>credential.
       bind_res (or_denied (m (lit ''SignedHeaders''))) (\<lambda>signed_headers.
       bind_res (or_denied (m (lit ''Signature''))) (\<lambda>signature.
       bind_res (or_denied (header_text hs (lit ''x-amz-date''))) (\<lambda>amz_date.
       Inr \<lparr>cl_credential = credential, cl_signed_headers = signed_headers,
         cl_signature = signature, cl_amz_date = amz_date, cl_expires = None\<rparr>)))))))"

text \<open>The date of the credential scope, when the credential is ours.\<close>

definition credential_date :: "str \<Rightarrow> str \<Rightarrow> str \<Rightarrow> error + str" where
  "credential_date access_key region credential =
     (case split_on 47 credential of
        [key, date, reg, service, request] \<Rightarrow>
          if key \<noteq> access_key \<or> reg \<noteq> region \<or> service \<noteq> lit ''s3'' \<or> request \<noteq> lit ''aws4_request''
          then Inl AccessDenied else Inr date
      | _ \<Rightarrow> Inl AccessDenied)"

definition date_format_ok :: "str \<Rightarrow> str \<Rightarrow> bool" where
  "date_format_ok date amz_date \<longleftrightarrow> byte_len date = 8 \<and> list_all is_digit (utf8 date)
     \<and> list_all (\<lambda>c. c < 128) amz_date \<and> byte_len amz_date = 16 \<and> prefix date amz_date"

definition parse_amz_date :: "crypto \<Rightarrow> str \<Rightarrow> error + int" where
  "parse_amz_date cr value = cr_parse_date cr (trim_end_by (\<lambda>c. c = 90) value)"

text \<open>\<open>Duration::whole_seconds\<close> of a difference in nanoseconds: rounds towards zero.\<close>

definition whole_seconds :: "int \<Rightarrow> int" where
  "whole_seconds ns = (if ns < 0 then - ((- ns) div 10 ^ 9) else ns div 10 ^ 9)"

definition check_time :: "int \<Rightarrow> int \<Rightarrow> int option \<Rightarrow> error + unit" where
  "check_time now request_time valid_for =
     (let elapsed = now - request_time * 10 ^ 9
      in case valid_for of
           Some valid_for \<Rightarrow>
             if elapsed < 0 \<or> whole_seconds elapsed > valid_for then Inl AccessDenied else Inr ()
         | None \<Rightarrow> if \<bar>whole_seconds elapsed\<bar> > 900 then Inl RequestTimeTooSkewed else Inr ())"

section \<open>Verification\<close>

definition unsigned_payload :: str where
  "unsigned_payload = lit ''UNSIGNED-PAYLOAD''"

definition empty_payload_hash :: str where
  "empty_payload_hash = lit ''e3b0c44298fc1c149afbf4c8996fb92427ae41e4649b934ca495991b7852b855''"

record http_request =
  rq_method :: http_method
  rq_path :: str
  rq_query :: query
  rq_headers :: request_headers

definition canonical_request :: "http_request \<Rightarrow> bool \<Rightarrow> str \<Rightarrow> str \<Rightarrow> error + str" where
  "canonical_request rq presigned signed_headers payload_hash =
     bind_res (canonical_headers (rq_headers rq) signed_headers) (\<lambda>hs.
       Inr (method_text (rq_method rq) @ [10] @ canonical_uri (rq_path rq) @ [10]
         @ canonical_query (rq_query rq) presigned @ [10] @ hs @ [10, 10] @ signed_headers @ [10] @ payload_hash))"

definition credential_scope :: "str \<Rightarrow> str \<Rightarrow> str" where
  "credential_scope date region = date @ lit ''/'' @ region @ lit ''/s3/aws4_request''"

definition expected_signature ::
  "crypto \<Rightarrow> bytes \<Rightarrow> http_request \<Rightarrow> bool \<Rightarrow> str \<Rightarrow> str \<Rightarrow> str \<Rightarrow> str \<Rightarrow> error + str"
where
  "expected_signature cr key rq presigned signed_headers amz_date scope payload_hash =
     bind_res (canonical_request rq presigned signed_headers payload_hash) (\<lambda>request.
     bind_res (cr_hmac cr key (utf8 (lit ''AWS4-HMAC-SHA256'' @ [10] @ amz_date @ [10] @ scope @ [10]
       @ cr_hex cr (cr_sha256 cr (utf8 request))))) (\<lambda>mac.
     Inr (cr_hex cr mac)))"

definition payload_hash_of :: "http_request \<Rightarrow> bool \<Rightarrow> str option \<Rightarrow> str" where
  "payload_hash_of rq presigned payload_hash_override =
     (case header_text (rq_headers rq) (lit ''x-amz-content-sha256'') of
        Some hash \<Rightarrow> hash
      | None \<Rightarrow>
          (case payload_hash_override of
             Some hash \<Rightarrow> hash
           | None \<Rightarrow>
               if presigned then unsigned_payload
               else if rq_method rq = GET \<or> rq_method rq = HEAD then empty_payload_hash
               else unsigned_payload))"

definition is_presigned :: "query \<Rightarrow> bool" where
  "is_presigned q \<longleftrightarrow> list_ex (\<lambda>(key, _). eq_ignore_ascii_case key (lit ''X-Amz-Signature'')) q"

definition check_signature ::
  "crypto \<Rightarrow> bytes \<Rightarrow> http_request \<Rightarrow> bool \<Rightarrow> claims \<Rightarrow> str \<Rightarrow> str option \<Rightarrow> error + unit"
where
  "check_signature cr key rq presigned cl scope payload_hash_override =
     (let signature_matches = (\<lambda>hash. bind_res
            (expected_signature cr key rq presigned (cl_signed_headers cl) (cl_amz_date cl) scope hash)
            (\<lambda>expected. Inr (expected = cl_signature cl)))
      in bind_res (signature_matches (payload_hash_of rq presigned payload_hash_override)) (\<lambda>matches.
         bind_res (if \<not> matches \<and> payload_hash_override \<noteq> None
                     \<and> \<not> contains_header (rq_headers rq) (lit ''x-amz-content-sha256'')
                   then signature_matches unsigned_payload else Inr False) (\<lambda>matches_unsigned.
         if \<not> matches \<and> \<not> matches_unsigned then Inl SignatureDoesNotMatch else Inr ())))"

definition verify_with_payload_hash ::
  "crypto \<Rightarrow> sigv4 \<Rightarrow> int \<Rightarrow> http_request \<Rightarrow> str option \<Rightarrow> error + unit"
where
  "verify_with_payload_hash cr sv now rq payload_hash_override =
     (case sv_access_key sv of
        None \<Rightarrow> if sv_allow_anonymous sv then Inr () else Inl AccessDenied
      | Some access_key \<Rightarrow>
          bind_res (or_denied (sv_secret_key sv)) (\<lambda>secret_key.
          let presigned = is_presigned (rq_query rq)
          in bind_res (if presigned then presigned_claims (rq_query rq) else header_claims (rq_headers rq)) (\<lambda>cl.
             bind_res (credential_date access_key (sv_region sv) (cl_credential cl)) (\<lambda>date.
             if \<not> date_format_ok date (cl_amz_date cl) then Inl AccessDenied
             else
               bind_res (parse_amz_date cr (cl_amz_date cl)) (\<lambda>request_time.
               bind_res (check_time now request_time (cl_expires cl)) (\<lambda>_.
               bind_res (signing_key cr secret_key date (sv_region sv) (lit ''s3'')) (\<lambda>key.
               check_signature cr key rq presigned cl (credential_scope date (sv_region sv)) payload_hash_override)))))))"

end
