(* ===== verification/Auth_Props.thy ===== *)
theory Auth_Props
  imports Auth "HOL-Library.Multiset"
begin

text \<open>
  Lemmas on the pieces of a signed request: splitting and joining, percent encoding, and the
  fields of an \<open>Authorization\<close> header.
\<close>

section \<open>Splitting and joining\<close>

lemma split_on_notin: "c \<notin> set s \<Longrightarrow> split_on c s = [s]"
  by (induction s) auto

lemma split_on_append: "c \<notin> set a \<Longrightarrow> split_on c (a @ c # b) = a # split_on c b"
  by (induction a) auto

lemma join_split_on: "join [c] (split_on c s) = s"
proof (induction s)
  case (Cons x s)
  obtain p ps where p: "split_on c s = p # ps" using split_on_nonempty [of c s] by (cases "split_on c s") auto
  with Cons.IH show ?case by (cases ps) auto
qed simp

lemma split_on_join:
  assumes "xs \<noteq> []" and "\<And>x. x \<in> set xs \<Longrightarrow> c \<notin> set x"
  shows "split_on c (join [c] xs) = xs"
  using assms
proof (induction xs)
  case (Cons x xs)
  show ?case
  proof (cases xs)
    case Nil
    with Cons.prems show ?thesis by (simp add: split_on_notin)
  next
    case (Cons y ys)
    have "split_on c (join [c] xs) = xs" using Cons.IH Cons.prems Cons by auto
    with Cons.prems Cons show ?thesis by (simp add: split_on_append)
  qed
qed simp

lemma split_once_key: "c \<notin> set k \<Longrightarrow> split_once c (k @ c # v) = Some (k, v)"
  by (simp add: split_once_Some_iff)

lemma trim_id:
  assumes "s \<noteq> [] \<longrightarrow> \<not> is_white (hd s) \<and> \<not> is_white (last s)"
  shows "trim s = s"
proof (cases s)
  case (Cons a t)
  with assms have a: "\<not> is_white a" and l: "\<not> is_white (last s)" by simp_all
  obtain u b where s: "s = u @ [b]" using Cons by (metis rev_exhaust list.distinct(1))
  with l have "\<not> is_white b" by simp
  then have "dropWhile is_white (rev s) = rev s" using s by simp
  moreover have "dropWhile is_white s = s" using a Cons by simp
  ultimately show ?thesis by (simp add: trim_def trim_by_def trim_start_by_def trim_end_by_def)
qed (simp add: trim_def trim_by_def trim_start_by_def trim_end_by_def)

lemma trim_blank: "trim (32 # s) = trim s"
  by (simp add: trim_def trim_by_def trim_start_by_def is_white_def)

section \<open>Percent encoding\<close>

lemma hex_digit_values:
  "n < 16 \<Longrightarrow> hex_digit n = (if n < 10 then 48 + n else 55 + n)"
proof -
  have "list_all (\<lambda>n. hex_digit n = (if n < 10 then 48 + n else 55 + n)) [0..<16]" by code_simp
  moreover assume "n < 16"
  ultimately show ?thesis by (simp add: list_all_iff)
qed

lemma hex_digit_inj: "m < 16 \<Longrightarrow> n < 16 \<Longrightarrow> hex_digit m = hex_digit n \<Longrightarrow> m = n"
  by (simp add: hex_digit_values split: if_splits)

lemma utf8_bytes_bound: "scalar c \<Longrightarrow> b \<in> set (utf8_char c) \<Longrightarrow> b < 256"
proof -
  assume c: "scalar c" and b: "b \<in> set (utf8_char c)"
  have "c div 64 < 32" if "c < 0x800" using that by (simp add: less_mult_imp_div_less)
  moreover have "c div 4096 < 16" if "c < 0x10000" using that by (simp add: less_mult_imp_div_less)
  moreover have "c div 262144 < 5" using c by (auto simp: scalar_def intro!: less_mult_imp_div_less)
  moreover have "c mod 64 < 64" "c div 64 mod 64 < 64" "c div 4096 mod 64 < 64" by simp_all
  ultimately show ?thesis using utf8_char_cases [of c] b by (elim disjE) auto
qed

lemma encode_byte_reserved: "unreserved b \<Longrightarrow> b \<noteq> 37"
  by (auto simp: unreserved_def is_ascii_alphanumeric_def is_digit_def)

lemma encode_byte_split:
  assumes "a < 256" and "b < 256" and "encode_byte a @ x = encode_byte b @ y"
  shows "a = b \<and> x = y"
proof (cases "unreserved a \<or> unreserved b")
  case True
  with assms(3) encode_byte_reserved show ?thesis by (auto simp: encode_byte_def split: if_splits)
next
  case False
  with assms(3) have "hex_digit (a div 16) = hex_digit (b div 16)" "hex_digit (a mod 16) = hex_digit (b mod 16)" "x = y"
    by (simp_all add: encode_byte_def)
  moreover have "a div 16 < 16" "b div 16 < 16" using assms(1,2) by (simp_all add: less_mult_imp_div_less)
  ultimately have "a div 16 = b div 16" "a mod 16 = b mod 16" using hex_digit_inj by simp_all
  then have "a = b" by (metis div_mult_mod_eq)
  with \<open>x = y\<close> show ?thesis by simp
qed

lemma encode_bytes_inj:
  assumes "\<forall>b \<in> set xs. b < 256" and "\<forall>b \<in> set ys. b < 256"
    and "concat (map encode_byte xs) = concat (map encode_byte ys)"
  shows "xs = ys"
  using assms
proof (induction xs arbitrary: ys)
  case Nil
  then show ?case by (cases ys) (auto simp: encode_byte_def split: if_splits)
next
  case (Cons a xs)
  from Cons.prems(3) obtain b ys' where ys: "ys = b # ys'"
    by (cases ys) (auto simp: encode_byte_def split: if_splits)
  have e: "encode_byte a @ concat (map encode_byte xs) = encode_byte b @ concat (map encode_byte ys')"
    using Cons.prems(3) by (simp add: ys)
  have "a < 256" "b < 256" using Cons.prems(1,2) by (simp_all add: ys)
  then have ab: "a = b \<and> concat (map encode_byte xs) = concat (map encode_byte ys')"
    using e by (rule encode_byte_split)
  have "xs = ys'" by (rule Cons.IH) (use Cons.prems(1,2) ys ab in simp_all)
  with ab ys show ?case by simp
qed

lemma utf8_bytes_256: "valid_text s \<Longrightarrow> \<forall>b \<in> set (utf8 s). b < 256"
  using utf8_bytes_bound by (auto simp: utf8_def valid_text_def list_all_iff)

lemma aws_encode_inj:
  assumes "valid_text s" and "valid_text t" and "aws_encode s = aws_encode t"
  shows "s = t"
proof -
  have "utf8 s = utf8 t"
    using utf8_bytes_256 [OF assms(1)] utf8_bytes_256 [OF assms(2)] assms(3) [unfolded aws_encode_def]
    by (rule encode_bytes_inj)
  then have "utf8_decode (utf8 s) = utf8_decode (utf8 t)" by simp
  with assms(1,2) show ?thesis by simp
qed

lemma aws_encode_chars:
  assumes "valid_text s"
  shows "38 \<notin> set (aws_encode s)" and "61 \<notin> set (aws_encode s)"
proof -
  have "38 \<notin> set (encode_byte b) \<and> 61 \<notin> set (encode_byte b)" if "b < 256" for b
  proof -
    have "b div 16 < 16" using that by (simp add: less_mult_imp_div_less)
    then show ?thesis
      by (auto simp: encode_byte_def hex_digit_values unreserved_def is_ascii_alphanumeric_def is_digit_def)
  qed
  then show "38 \<notin> set (aws_encode s)" "61 \<notin> set (aws_encode s)"
    using utf8_bytes_256 [OF assms] by (auto simp: aws_encode_def)
qed

section \<open>The canonical query determines the query\<close>

definition query_valid :: "query \<Rightarrow> bool" where
  "query_valid q \<longleftrightarrow> list_all (\<lambda>(k, v). valid_text k \<and> valid_text v) q"

definition signed_pairs :: "query \<Rightarrow> bool \<Rightarrow> query" where
  "signed_pairs q omit =
     filter (\<lambda>(key, _). \<not> (omit \<and> eq_ignore_ascii_case key (lit ''X-Amz-Signature''))) q"

definition encode_pair :: "str \<times> str \<Rightarrow> str \<times> str" where
  "encode_pair p = (aws_encode (fst p), aws_encode (snd p))"

lemma canonical_query_pairs:
  "canonical_query q omit = join [38] (map (\<lambda>p. fst p @ 61 # snd p) (sort (map encode_pair (signed_pairs q omit))))"
  by (simp add: canonical_query_def signed_pairs_def encode_pair_def [abs_def] case_prod_beta')

lemma map_pairs_inj:
  assumes "\<forall>p \<in> set ps. 61 \<notin> set (fst p)" and "\<forall>p \<in> set qs. 61 \<notin> set (fst p)"
    and "map (\<lambda>p. fst p @ 61 # snd p) ps = map (\<lambda>p. fst p @ (61::nat) # snd p) qs"
  shows "ps = qs"
  using assms(3)
proof (rule map_inj_on)
  show "inj_on (\<lambda>p. fst p @ (61::nat) # snd p) (set ps \<union> set qs)"
  proof (rule inj_onI)
    fix p q assume pq: "p \<in> set ps \<union> set qs" "q \<in> set ps \<union> set qs" "fst p @ (61::nat) # snd p = fst q @ 61 # snd q"
    then have "61 \<notin> set (fst p)" "61 \<notin> set (fst q)" using assms(1,2) by auto
    then have "split_once 61 (fst p @ 61 # snd p) = Some p" "split_once 61 (fst q @ 61 # snd q) = Some q"
      by (simp_all add: split_once_key)
    then have "Some p = Some q" unfolding pq(3) by (rule trans [OF sym])
    then show "p = q" by simp
  qed
qed

lemma encode_pair_inj: "inj_on encode_pair {p. valid_text (fst p) \<and> valid_text (snd p)}"
  by (rule inj_onI) (auto simp: encode_pair_def prod_eq_iff dest: aws_encode_inj)

lemma image_mset_inj:
  assumes "image_mset f A = image_mset f B" and "inj_on f (set_mset A \<union> set_mset B)"
  shows "A = B"
proof -
  have "image_mset f A = image_mset f B + {#}" using assms(1) by simp
  from image_mset_eq_image_mset_plusD [OF this assms(2)] show ?thesis by auto
qed

lemma canonical_query_inj:
  assumes "query_valid q" and "query_valid q'" and "canonical_query q omit = canonical_query q' omit"
  shows "mset (signed_pairs q omit) = mset (signed_pairs q' omit)"
proof -
  let ?pair = "\<lambda>p. fst p @ (61::nat) # snd p"
  define ps where "ps = sort (map encode_pair (signed_pairs q omit))"
  define qs where "qs = sort (map encode_pair (signed_pairs q' omit))"
  have valid: "valid_text (fst p) \<and> valid_text (snd p)" if "p \<in> set (signed_pairs q omit) \<union> set (signed_pairs q' omit)" for p
    using that assms(1,2) by (auto simp: signed_pairs_def query_valid_def list_all_iff)
  have mem: "\<exists>p. e = encode_pair p \<and> valid_text (fst p) \<and> valid_text (snd p)" if "e \<in> set ps \<union> set qs" for e
  proof -
    from that have "e \<in> encode_pair ` (set (signed_pairs q omit) \<union> set (signed_pairs q' omit))"
      by (auto simp: ps_def qs_def)
    with valid show ?thesis by blast
  qed
  have amp: "38 \<notin> set (?pair e)" and eq: "61 \<notin> set (fst e)" if "e \<in> set ps \<union> set qs" for e
  proof -
    from mem [OF that] obtain p where p: "e = encode_pair p" "valid_text (fst p)" "valid_text (snd p)" by blast
    with aws_encode_chars [OF p(2)] aws_encode_chars [OF p(3)]
    show "38 \<notin> set (?pair e)" "61 \<notin> set (fst e)" by (simp_all add: encode_pair_def)
  qed
  have J: "join [38] (map ?pair ps) = join [38] (map ?pair qs)"
    using assms(3) by (simp add: canonical_query_pairs ps_def qs_def)
  have split: "split_on 38 (join [38] (map ?pair es)) = map ?pair es" if ne: "es \<noteq> []" and sub: "set es \<subseteq> set ps \<union> set qs" for es
  proof (rule split_on_join)
    fix x assume "x \<in> set (map ?pair es)"
    then obtain e where "e \<in> set ps \<union> set qs" "x = ?pair e" using sub by auto
    then show "38 \<notin> set x" using amp by blast
  qed (use ne in simp)
  have nonempty: "join [38] (map ?pair es) \<noteq> []" if "es \<noteq> []" for es :: query
    using that by (cases es rule: remdups_adj.cases) auto
  have "map ?pair ps = map ?pair qs"
  proof (cases "ps = []")
    case True
    with J nonempty [of qs] show ?thesis by auto
  next
    case False
    then have "qs \<noteq> []" using J nonempty [of ps] by auto
    have "map ?pair ps = split_on 38 (join [38] (map ?pair ps))" using split [of ps] False by simp
    also have "\<dots> = split_on 38 (join [38] (map ?pair qs))" by (simp only: J)
    also have "\<dots> = map ?pair qs" using split [of qs] \<open>qs \<noteq> []\<close> by simp
    finally show ?thesis .
  qed
  then have "ps = qs" using eq by (intro map_pairs_inj) auto
  then have "mset (map encode_pair (signed_pairs q omit)) = mset (map encode_pair (signed_pairs q' omit))"
    unfolding ps_def qs_def by (metis mset_sort)
  then have "image_mset encode_pair (mset (signed_pairs q omit)) = image_mset encode_pair (mset (signed_pairs q' omit))"
    by simp
  moreover have "set (signed_pairs q omit) \<union> set (signed_pairs q' omit) \<subseteq> {p. valid_text (fst p) \<and> valid_text (snd p)}"
    using valid by blast
  then have "inj_on encode_pair (set (signed_pairs q omit) \<union> set (signed_pairs q' omit))"
    by (rule inj_on_subset [OF encode_pair_inj])
  then have "inj_on encode_pair (set_mset (mset (signed_pairs q omit)) \<union> set_mset (mset (signed_pairs q' omit)))"
    by (simp only: set_mset_mset)
  ultimately show ?thesis by (rule image_mset_inj)
qed

end
