(* ===== verification/Spec_Auth.thy ===== *)
theory Spec_Auth
  imports Auth_Props
begin

text \<open>
  The properties of the request authentication.
\<close>

section \<open>What an accepted request has shown\<close>

lemma credential_date_Inr:
  assumes "credential_date ak region credential = Inr date"
  shows "credential = ak @ lit ''/'' @ credential_scope date region"
proof -
  from assms have s: "split_on 47 credential = [ak, date, region, lit ''s3'', lit ''aws4_request'']"
    by (auto simp: credential_date_def split: list.splits if_splits)
  have "credential = join [47] (split_on 47 credential)" by (simp only: join_split_on)
  then show ?thesis unfolding s by (simp add: credential_scope_def)
qed

lemma check_time_Inr:
  "check_time now rt valid_for = Inr () \<longleftrightarrow>
     (case valid_for of
        None \<Rightarrow> \<bar>now - rt * 10 ^ 9\<bar> < 901 * 10 ^ 9
      | Some n \<Rightarrow> rt * 10 ^ 9 \<le> now \<and> now < (rt + n + 1) * 10 ^ 9)"
proof (cases valid_for)
  case None
  have "\<bar>whole_seconds e\<bar> > 900 \<longleftrightarrow> \<not> \<bar>e\<bar> < 901 * 10 ^ 9" for e
    by (auto simp: whole_seconds_def)
  with None show ?thesis by (simp add: check_time_def Let_def)
next
  case (Some n)
  have "whole_seconds e > n \<longleftrightarrow> \<not> e < (n + 1) * 10 ^ 9" if "0 \<le> e" for e
    using that by (auto simp: whole_seconds_def)
  from this [of "now - rt * 10 ^ 9"] Some show ?thesis
    by (auto simp: check_time_def Let_def algebra_simps)
qed

lemma check_signature_Inr:
  assumes "check_signature cr key rq presigned cl scope override = Inr ()"
  shows "\<exists>hash. expected_signature cr key rq presigned (cl_signed_headers cl) (cl_amz_date cl) scope hash
        = Inr (cl_signature cl)
    \<and> (hash = payload_hash_of rq presigned override \<or> hash = unsigned_payload \<and> override \<noteq> None
        \<and> \<not> contains_header (rq_headers rq) (lit ''x-amz-content-sha256''))"
  using assms by (auto simp: check_signature_def Let_def bind_res_Inr_iff split: if_splits)

text \<open>
  C13: A request that is accepted was signed for what it asks. Unless the server has no access key
  and allows anonymous requests, the request names the server's access key, region and service in
  its credential, its time is within fifteen minutes of the clock (a presigned one: not before it
  and at most its lifetime of seven days or less after it), and its signature is the one computed
  with the server's secret over the canonical form of this method, path, query and these headers,
  and over the declared, computed or absent payload hash.
\<close>

theorem auth_sound:
  assumes "verify_with_payload_hash cr sv now rq override = Inr ()"
  shows "sv_access_key sv = None \<and> sv_allow_anonymous sv
    \<or> (\<exists>ak sk cl date rt key hash. sv_access_key sv = Some ak \<and> sv_secret_key sv = Some sk
       \<and> (if is_presigned (rq_query rq) then presigned_claims (rq_query rq) else header_claims (rq_headers rq)) = Inr cl
       \<and> cl_credential cl = ak @ lit ''/'' @ credential_scope date (sv_region sv)
       \<and> date_format_ok date (cl_amz_date cl) \<and> parse_amz_date cr (cl_amz_date cl) = Inr rt
       \<and> (case cl_expires cl of
            None \<Rightarrow> \<bar>now - rt * 10 ^ 9\<bar> < 901 * 10 ^ 9
          | Some n \<Rightarrow> 0 \<le> n \<and> n \<le> 604800 \<and> rt * 10 ^ 9 \<le> now \<and> now < (rt + n + 1) * 10 ^ 9)
       \<and> signing_key cr sk date (sv_region sv) (lit ''s3'') = Inr key
       \<and> expected_signature cr key rq (is_presigned (rq_query rq)) (cl_signed_headers cl) (cl_amz_date cl)
            (credential_scope date (sv_region sv)) hash = Inr (cl_signature cl)
       \<and> (hash = payload_hash_of rq (is_presigned (rq_query rq)) override
          \<or> hash = unsigned_payload \<and> override \<noteq> None
             \<and> \<not> contains_header (rq_headers rq) (lit ''x-amz-content-sha256'')))"
proof (cases "sv_access_key sv")
  case None
  with assms show ?thesis by (auto simp: verify_with_payload_hash_def split: if_splits)
next
  case (Some ak)
  let ?pre = "is_presigned (rq_query rq)"
  from assms Some obtain sk cl date rt key where c: "sv_secret_key sv = Some sk"
    "(if ?pre then presigned_claims (rq_query rq) else header_claims (rq_headers rq)) = Inr cl"
    "credential_date ak (sv_region sv) (cl_credential cl) = Inr date"
    "date_format_ok date (cl_amz_date cl)" "parse_amz_date cr (cl_amz_date cl) = Inr rt"
    "check_time now rt (cl_expires cl) = Inr ()" "signing_key cr sk date (sv_region sv) (lit ''s3'') = Inr key"
    "check_signature cr key rq ?pre cl (credential_scope date (sv_region sv)) override = Inr ()"
    unfolding verify_with_payload_hash_def
    by (auto simp: Let_def bind_res_Inr_iff or_denied_def simp del: lit_simps split: option.splits if_splits)
  have life: "0 \<le> n \<and> n \<le> 604800" if "cl_expires cl = Some n" for n
    using c(2) that
    by (auto simp: presigned_claims_def header_claims_def bind_res_Inr_iff simp del: lit_simps split: if_splits prod.splits)
  from check_signature_Inr [OF c(8)] obtain hash where
    h: "expected_signature cr key rq ?pre (cl_signed_headers cl) (cl_amz_date cl) (credential_scope date (sv_region sv)) hash
        = Inr (cl_signature cl)"
    "hash = payload_hash_of rq ?pre override \<or> hash = unsigned_payload \<and> override \<noteq> None
        \<and> \<not> contains_header (rq_headers rq) (lit ''x-amz-content-sha256'')" by blast
  have "case cl_expires cl of
            None \<Rightarrow> \<bar>now - rt * 10 ^ 9\<bar> < 901 * 10 ^ 9
          | Some n \<Rightarrow> 0 \<le> n \<and> n \<le> 604800 \<and> rt * 10 ^ 9 \<le> now \<and> now < (rt + n + 1) * 10 ^ 9"
    using c(6) [unfolded check_time_Inr] life by (cases "cl_expires cl") simp_all
  with Some c h credential_date_Inr [OF c(3)] show ?thesis by blast
qed

section \<open>What a signer sends\<close>

text \<open>The \<open>Authorization\<close> header of a signed request.\<close>

definition authorization_value :: "str \<Rightarrow> str \<Rightarrow> str \<Rightarrow> str" where
  "authorization_value credential signed_headers signature =
     lit ''AWS4-HMAC-SHA256 Credential='' @ credential @ lit '', SignedHeaders='' @ signed_headers
     @ lit '', Signature='' @ signature"

text \<open>Text that can stand in a field: no comma, and no white space.\<close>

definition field_text :: "str \<Rightarrow> bool" where
  "field_text s \<longleftrightarrow> 44 \<notin> set s \<and> list_all (\<lambda>c. \<not> is_white c) s"

lemma auth_field_value:
  assumes "field_text name" and "field_text value" and "61 \<notin> set name" and "blanks = [] \<or> blanks = [32]"
  shows "auth_field (blanks @ name @ 61 # value) m = Inr (m(name \<mapsto> value))"
proof -
  let ?f = "name @ 61 # value"
  have "list_all (\<lambda>c. \<not> is_white c) ?f"
    using assms(1,2) by (simp add: field_text_def) (simp add: is_white_def)
  then have "\<not> is_white (hd ?f) \<and> \<not> is_white (last ?f)"
    unfolding list_all_iff by (metis Nil_is_append_conv hd_in_set last_in_set list.distinct(1))
  then have "trim ?f = ?f" by (intro trim_id) blast
  with assms(4) have "trim (blanks @ ?f) = ?f" by (auto simp: trim_blank)
  then show ?thesis unfolding auth_field_def by (simp only: split_once_key [OF assms(3)]) simp
qed

lemma header_claims_value:
  assumes "header_text hs (lit ''authorization'') = Some (authorization_value credential signed_headers signature)"
    and "header_text hs (lit ''x-amz-date'') = Some amz_date"
    and "field_text credential" and "field_text signed_headers" and "field_text signature"
  shows "header_claims hs = Inr \<lparr>cl_credential = credential, cl_signed_headers = signed_headers,
     cl_signature = signature, cl_amz_date = amz_date, cl_expires = None\<rparr>"
proof -
  define f1 where "f1 = lit ''Credential'' @ 61 # credential"
  define f2 where "f2 = [32] @ lit ''SignedHeaders'' @ 61 # signed_headers"
  define f3 where "f3 = [32] @ lit ''Signature'' @ 61 # signature"
  have no_comma: "44 \<notin> set f1" "44 \<notin> set f2" "44 \<notin> set f3"
    using assms(3-5) by (simp_all add: f1_def f2_def f3_def field_text_def)
  have v: "authorization_value credential signed_headers signature
      = lit ''AWS4-HMAC-SHA256'' @ 32 # (f1 @ 44 # f2 @ 44 # f3)"
    by (simp add: authorization_value_def f1_def f2_def f3_def)
  have once: "split_once 32 (lit ''AWS4-HMAC-SHA256'' @ 32 # rest) = Some (lit ''AWS4-HMAC-SHA256'', rest)" for rest
    by (rule split_once_key) simp
  have fields: "split_on 44 (f1 @ 44 # f2 @ 44 # f3) = [f1, f2, f3]"
    using no_comma by (simp add: split_on_append split_on_notin)
  have names: "field_text (lit ''Credential'')" "field_text (lit ''SignedHeaders'')" "field_text (lit ''Signature'')"
    by (simp_all add: field_text_def is_white_def)
  have "auth_field f1 m = Inr (m(lit ''Credential'' \<mapsto> credential))"
      "auth_field f2 m = Inr (m(lit ''SignedHeaders'' \<mapsto> signed_headers))"
      "auth_field f3 m = Inr (m(lit ''Signature'' \<mapsto> signature))" for m
    using auth_field_value [OF names(1) assms(3), of "[]"] auth_field_value [OF names(2) assms(4), of "[32]"]
      auth_field_value [OF names(3) assms(5), of "[32]"] by (simp_all add: f1_def f2_def f3_def)
  then have "fold_res auth_field [f1, f2, f3] Map.empty = Inr (Map.empty(lit ''Credential'' \<mapsto> credential,
      lit ''SignedHeaders'' \<mapsto> signed_headers, lit ''Signature'' \<mapsto> signature))"
    by (simp del: lit_simps)
  with assms(1,2) show ?thesis
    unfolding header_claims_def v
    by (simp add: or_denied_def once fields del: lit_simps fold_res.simps split_on.simps split_once.simps)
      (simp add: or_denied_def)
qed

lemma credential_date_scope:
  assumes "47 \<notin> set ak" and "47 \<notin> set date" and "47 \<notin> set region"
  shows "credential_date ak region (ak @ lit ''/'' @ credential_scope date region) = Inr date"
proof -
  have "ak @ lit ''/'' @ credential_scope date region
      = ak @ 47 # date @ 47 # region @ 47 # lit ''s3'' @ 47 # lit ''aws4_request''"
    by (simp add: credential_scope_def)
  moreover have "split_on 47 (ak @ 47 # date @ 47 # region @ 47 # lit ''s3'' @ 47 # lit ''aws4_request'')
      = [ak, date, region, lit ''s3'', lit ''aws4_request'']"
    using assms by (simp add: split_on_append)
  ultimately show ?thesis by (simp add: credential_date_def)
qed

lemma date_chars:
  assumes "date_format_ok date amz_date"
  shows "field_text date" and "47 \<notin> set date"
proof -
  have ascii: "list_all (\<lambda>c. c < 128) date"
    using assms by (auto simp: date_format_ok_def elim!: prefixE)
  then have "utf8 date = date" by (induction date) (simp_all add: utf8_char_def)
  with assms have "list_all is_digit date" by (simp add: date_format_ok_def)
  then show "field_text date" "47 \<notin> set date"
    by (auto simp: field_text_def list_all_iff is_digit_def is_white_def)
qed

lemma verify_signed:
  assumes "sv_access_key sv = Some ak" and "sv_secret_key sv = Some sk" and "\<not> is_presigned (rq_query rq)"
    and "header_text (rq_headers rq) (lit ''authorization'') = Some (authorization_value
          (ak @ lit ''/'' @ credential_scope date (sv_region sv)) signed_headers signature)"
    and "header_text (rq_headers rq) (lit ''x-amz-date'') = Some amz_date"
    and "date_format_ok date amz_date" and "parse_amz_date cr amz_date = Inr rt"
    and "\<bar>now - rt * 10 ^ 9\<bar> < 901 * 10 ^ 9"
    and "signing_key cr sk date (sv_region sv) (lit ''s3'') = Inr key"
    and "expected_signature cr key rq False signed_headers amz_date (credential_scope date (sv_region sv))
          (payload_hash_of rq False override) = Inr signature"
    and "field_text ak" and "field_text (sv_region sv)" and "field_text signed_headers" and "field_text signature"
    and "47 \<notin> set ak" and "47 \<notin> set (sv_region sv)"
  shows "verify_with_payload_hash cr sv now rq override = Inr ()"
proof -
  let ?cl = "\<lparr>cl_credential = ak @ lit ''/'' @ credential_scope date (sv_region sv), cl_signed_headers = signed_headers,
     cl_signature = signature, cl_amz_date = amz_date, cl_expires = None\<rparr>"
  note date = date_chars [OF assms(6)]
  have "field_text (ak @ lit ''/'' @ credential_scope date (sv_region sv))"
    using assms(11,12) date(1) by (simp add: field_text_def credential_scope_def) (simp add: is_white_def)
  then have claims: "header_claims (rq_headers rq) = Inr ?cl"
    using assms(4,5,13,14) by (intro header_claims_value)
  have cred: "credential_date ak (sv_region sv) (cl_credential ?cl) = Inr date"
    using credential_date_scope [OF assms(15) date(2) assms(16)] by (simp del: lit_simps)
  have time: "check_time now rt None = Inr ()" by (simp only: check_time_Inr option.case) (rule assms(8))
  have "check_signature cr key rq False ?cl (credential_scope date (sv_region sv)) override = Inr ()"
    using assms(10) by (simp add: check_signature_def del: lit_simps)
  with assms(1-3,6,7,9) claims cred time show ?thesis
    by (simp add: verify_with_payload_hash_def or_denied_def del: lit_simps)
qed

text \<open>
  C28: A request signed as the protocol describes is accepted. When the \<open>Authorization\<close> header carries
  the server's access key, the credential scope of the date in \<open>x-amz-date\<close>, the signed header
  names and the signature computed with the server's secret over the request, and the time is
  within fifteen minutes of the clock, the check succeeds: parsing the header undoes building it.
  The parts of the header may not hold its separators.
\<close>

theorem auth_complete:
  assumes "sv_access_key sv = Some ak" and "sv_secret_key sv = Some sk" and "\<not> is_presigned (rq_query rq)"
    and "header_text (rq_headers rq) (lit ''authorization'') = Some (authorization_value
          (ak @ lit ''/'' @ credential_scope date (sv_region sv)) signed_headers signature)"
    and "header_text (rq_headers rq) (lit ''x-amz-date'') = Some amz_date"
    and "date_format_ok date amz_date" and "parse_amz_date cr amz_date = Inr rt"
    and "\<bar>now - rt * 10 ^ 9\<bar> < 901 * 10 ^ 9"
    and "signing_key cr sk date (sv_region sv) (lit ''s3'') = Inr key"
    and "expected_signature cr key rq False signed_headers amz_date (credential_scope date (sv_region sv))
          (payload_hash_of rq False override) = Inr signature"
    and "field_text ak" and "field_text (sv_region sv)" and "field_text signed_headers" and "field_text signature"
    and "47 \<notin> set ak" and "47 \<notin> set (sv_region sv)"
  shows "verify_with_payload_hash cr sv now rq override = Inr ()"
  by (rule verify_signed [OF assms])

text \<open>
  C29: The canonical query determines the query: two queries with the same canonical form carry
  the same parameters, the same number of times (a presigned one: apart from its signature).
  So a signature for one set of parameters is a signature for no other.
\<close>

theorem canonical_query_determines:
  assumes "query_valid q" and "query_valid q'" and "canonical_query q omit = canonical_query q' omit"
  shows "mset (filter (\<lambda>(key, _). \<not> (omit \<and> eq_ignore_ascii_case key (lit ''X-Amz-Signature''))) q)
    = mset (filter (\<lambda>(key, _). \<not> (omit \<and> eq_ignore_ascii_case key (lit ''X-Amz-Signature''))) q')"
  using canonical_query_inj [OF assms] by (simp only: signed_pairs_def)

lemma canonical_query_determines_witness:
  "mset [(lit ''a'', lit ''1''), (lit ''b'', lit ''&'')] = mset [(lit ''b'', lit ''&''), (lit ''a'', lit ''1'')]"
proof -
  let ?q = "[(lit ''a'', lit ''1''), (lit ''b'', lit ''&'')]" and ?q' = "[(lit ''b'', lit ''&''), (lit ''a'', lit ''1'')]"
  have "query_valid ?q" "query_valid ?q'" by (simp_all add: query_valid_def valid_text_def scalar_def)
  moreover have "canonical_query ?q False = canonical_query ?q' False"
    by (simp add: canonical_query_def aws_encode_def encode_byte_def unreserved_def is_ascii_alphanumeric_def
        is_digit_def utf8_char_def less_prod_def less_eq_prod_def)
  ultimately show ?thesis using canonical_query_determines [of ?q ?q' False] by simp
qed

section \<open>A signed request\<close>

definition ex_crypto :: crypto where
  "ex_crypto = \<lparr>cr_sha256 = (\<lambda>b. [0]), cr_hmac = (\<lambda>k d. Inr [1]), cr_hex = (\<lambda>b. [97]),
     cr_parse_date = (\<lambda>s. Inr 1000)\<rparr>"

definition ex_sigv4 :: sigv4 where
  "ex_sigv4 = \<lparr>sv_access_key = Some (lit ''AK''), sv_secret_key = Some (lit ''secret''),
     sv_region = lit ''us-east-1'', sv_allow_anonymous = False\<rparr>"

definition ex_signed :: "http_method \<Rightarrow> str \<Rightarrow> http_request" where
  "ex_signed m path = \<lparr>rq_method = m, rq_path = path, rq_query = [],
     rq_headers = [(lit ''host'', Some (lit ''h'')), (lit ''x-amz-date'', Some (lit ''20260801T000000Z'')),
       (lit ''authorization'', Some (authorization_value
          (lit ''AK'' @ lit ''/'' @ credential_scope (lit ''20260801'') (lit ''us-east-1'')) (lit ''host'') [97]))]\<rparr>"

definition ex_request :: http_request where
  "ex_request = ex_signed GET (lit ''/b/k'')"

lemma ex_signature:
  "expected_signature ex_crypto [1] (ex_signed m path) False (lit ''host'') (lit ''20260801T000000Z'')
     (credential_scope (lit ''20260801'') (lit ''us-east-1'')) (payload_hash_of (ex_signed m path) False None) = Inr [97]"
  by (simp add: expected_signature_def ex_crypto_def canonical_request_def canonical_headers_def canonical_header_def
      ex_signed_def to_ascii_lowercase_def ascii_lower_def trim_def trim_by_def trim_start_by_def trim_end_by_def is_white_def)

lemma ex_claims:
  "header_text (rq_headers (ex_signed m path)) (lit ''authorization'') = Some (authorization_value
     (lit ''AK'' @ lit ''/'' @ credential_scope (lit ''20260801'') (lit ''us-east-1'')) (lit ''host'') [97])"
  "header_text (rq_headers (ex_signed m path)) (lit ''x-amz-date'') = Some (lit ''20260801T000000Z'')"
  "\<not> is_presigned (rq_query (ex_signed m path))"
  by (simp_all add: ex_signed_def header_text_def is_presigned_def)

lemma ex_fields:
  "date_format_ok (lit ''20260801'') (lit ''20260801T000000Z'')"
  "field_text (lit ''AK'')" "field_text (lit ''us-east-1'')" "field_text (lit ''host'')" "field_text [97]"
  by (simp_all add: date_format_ok_def byte_len_def utf8_char_def is_digit_def field_text_def is_white_def)

lemma ex_sigv4_sel:
  "sv_access_key ex_sigv4 = Some (lit ''AK'')" "sv_secret_key ex_sigv4 = Some (lit ''secret'')"
  "sv_region ex_sigv4 = lit ''us-east-1''"
  by (simp_all only: ex_sigv4_def sigv4.simps)

lemma auth_complete_witness:
  "verify_with_payload_hash ex_crypto ex_sigv4 (1000 * 10 ^ 9) ex_request None = Inr ()"
  unfolding ex_request_def
  by (rule auth_complete [where rt = 1000 and sv = ex_sigv4, unfolded ex_sigv4_sel, OF refl refl ex_claims(3,1,2) ex_fields(1) _ _ _ ex_signature ex_fields(2-5)])
    (simp_all add: parse_amz_date_def ex_crypto_def signing_key_def)

lemma ex_verified: "verify_with_payload_hash ex_crypto ex_sigv4 (1000 * 10 ^ 9) (ex_signed m path) None = Inr ()"
  by (rule verify_signed [where rt = 1000 and sv = ex_sigv4, unfolded ex_sigv4_sel, OF refl refl ex_claims(3,1,2) ex_fields(1) _ _ _ ex_signature ex_fields(2-5)])
    (simp_all add: parse_amz_date_def ex_crypto_def signing_key_def)

lemma auth_sound_witness:
  "\<exists>cl date rt key hash. header_claims (rq_headers ex_request) = Inr cl
     \<and> cl_credential cl = lit ''AK'' @ lit ''/'' @ credential_scope date (lit ''us-east-1'')
     \<and> parse_amz_date ex_crypto (cl_amz_date cl) = Inr rt
     \<and> expected_signature ex_crypto key ex_request False (cl_signed_headers cl) (cl_amz_date cl)
          (credential_scope date (lit ''us-east-1'')) hash = Inr (cl_signature cl)"
  using auth_sound [OF ex_verified, of GET "lit ''/b/k''"] ex_claims(3) [of GET "lit ''/b/k''"] unfolding ex_request_def by (simp only: ex_sigv4_sel if_False) blast

end
