(* ===== verification/S3_Dispatch.thy ===== *)
theory S3_Dispatch
  imports S3_List Auth Engine_Multipart Size_Limits
begin

text \<open>
  The S3 requests of \<open>src/s3.rs\<close>, \<open>src/s3/object.rs\<close> and \<open>src/s3/multipart.rs\<close>: one definition
  per handler, the two dispatchers, and \<open>handle\<close> with authentication and CORS around them.

  A handler returns the response or the error, the server after it, and the block lists whose
  reclaim it spawns (\<open>handled\<close>). \<open>s3_env\<close> holds what a handler takes from outside: the crates,
  the engine's environment, the answers of the admission semaphore, of the UUID generator and
  of Telegram's downloads.
\<close>

record s3_env =
  s3_lib :: http_lib
  s3_crypto :: crypto
  s3_auth :: sigv4
  s3_region :: str
  s3_public_host :: "str option"
  s3_cors :: cors_configuration
  s3_engine :: engine_env
  s3_hex_decode :: "str \<Rightarrow> bytes option"
  s3_read :: "block_ref \<Rightarrow> int \<Rightarrow> int \<Rightarrow> error + stream"
  s3_gate :: "nat \<Rightarrow> error + nat"
  s3_admission :: "error + unit"
  s3_uuid :: str
  s3_request_id :: str
  s3_now :: int

abbreviation s3_clock :: "s3_env \<Rightarrow> nat \<Rightarrow> int" where
  "s3_clock env \<equiv> en_clock (s3_engine env)"

abbreviation s3_max_size :: "s3_env \<Rightarrow> int" where
  "s3_max_size env \<equiv> ue_max_object_size (en_upload (s3_engine env))"

type_synonym answer = "response handled"

text \<open>A handler that only reads, and the change of an outcome into a response.\<close>

definition reply :: "error + response \<Rightarrow> server \<Rightarrow> answer" where
  "reply r s = (r, s, [])"

definition answer_with :: "('a \<Rightarrow> error + response) \<Rightarrow> 'a handled \<Rightarrow> answer" where
  "answer_with f h = (case h of (r, s, spawned) \<Rightarrow> (bind_res r f, s, spawned))"

text \<open>\<open>HeaderValue::from_str(..)?\<close> on an empty response.\<close>

definition ok_with_header :: "http_lib \<Rightarrow> str \<Rightarrow> str \<Rightarrow> error + response" where
  "ok_with_header lib name v =
     (if hl_value_ok lib v
      then Inr ((empty_response 200)\<lparr>rs_headers := set_header name v []\<rparr>)
      else Inl (Other (lit ''failed to parse header value'')))"

section \<open>Objects (\<open>s3/object.rs\<close>)\<close>

definition s3_get_object ::
  "s3_env \<Rightarrow> str \<Rightarrow> str \<Rightarrow> request_headers \<Rightarrow> bool \<Rightarrow> db \<Rightarrow> error + response"
where
  "s3_get_object env bucket key headers head_only d =
     bind_res (engine_get_object bucket key d) (\<lambda>ob.
     bind_res (check_conditions (s3_lib env) ob headers) (\<lambda>_.
     bind_res (parse_range (header_text headers (lit ''range'')) (obj_size ob)) (\<lambda>(start, end, partial).
     let hs = object_headers (s3_lib env) ob (saturating_add (saturating_sub end start) 1) start end partial;
         hs = (if obj_size ob = 0 then set_header (lit ''content-length'') (lit ''0'') hs else hs)
     in bind_res (if \<not> head_only \<and> 0 < obj_size ob then s3_admission env else Inr ()) (\<lambda>_.
        Inr \<lparr>rs_status = (if partial then 206 else 200), rs_headers = hs,
          rs_body = (if head_only \<or> obj_size ob = 0 then Bytes []
                     else Stream (range_stream (s3_read env) (s3_gate env) (obj_blocks ob) start end))\<rparr>))))"

definition s3_copy_object ::
  "s3_env \<Rightarrow> str \<Rightarrow> str \<Rightarrow> str \<Rightarrow> request_headers \<Rightarrow> object_condition \<Rightarrow> server \<Rightarrow> answer"
where
  "s3_copy_object env bucket key source headers condition s =
     (case bind_res (parse_copy_source (s3_lib env) source) (\<lambda>(source_bucket, source_key).
           bind_res (engine_get_object source_bucket source_key (srv_db s)) (\<lambda>source_object.
           bind_res (check_copy_source_conditions source_object headers) (\<lambda>_.
           Inr (source_bucket, source_key, source_object)))) of
        Inl e \<Rightarrow> reply (Inl e) s
      | Inr (source_bucket, source_key, source_object) \<Rightarrow>
          let metadata =
                (if (case header_text headers (lit ''x-amz-metadata-directive'') of
                       Some v \<Rightarrow> eq_ignore_ascii_case v (lit ''REPLACE'') | None \<Rightarrow> False)
                 then metadata_from_headers headers else obj_metadata source_object)
          in answer_with (\<lambda>ob. xml_response (s3_lib env) (Xml_Copy \<lparr>co_etag = quoted (obj_etag ob),
                 co_last_modified = format_time (s3_lib env) (obj_modified_at ob)\<rparr>))
               (engine_copy_object (s3_clock env 7) source_bucket source_key bucket key metadata condition s))"

section \<open>Multipart uploads and multi-delete (\<open>s3/multipart.rs\<close>)\<close>

definition or_error :: "error \<Rightarrow> 'a option \<Rightarrow> error + 'a" where
  "or_error e v = (case v of Some x \<Rightarrow> Inr x | None \<Rightarrow> Inl e)"

text \<open>A request body read whole, decoded as UTF-8 and parsed by \<open>quick_xml\<close>.\<close>

definition read_xml :: "http_lib \<Rightarrow> nat \<Rightarrow> (str \<Rightarrow> 'a option) \<Rightarrow> error \<Rightarrow> stream \<Rightarrow> error + 'a" where
  "read_xml lib limit parse e frames =
     bind_res (hl_to_bytes lib frames limit) (\<lambda>b.
     bind_res (or_error e (utf8_decode b)) (\<lambda>text.
     or_error e (parse text)))"

definition s3_complete_multipart :: "s3_env \<Rightarrow> str \<Rightarrow> stream \<Rightarrow> server \<Rightarrow> answer" where
  "s3_complete_multipart env upload_id frames s =
     (case read_xml (s3_lib env) (2 * 1024 * 1024) (hl_complete_request (s3_lib env)) InvalidRequest frames of
        Inl e \<Rightarrow> reply (Inl e) s
      | Inr request \<Rightarrow>
          answer_with (\<lambda>ob. xml_response (s3_lib env) (Xml_Complete \<lparr>
              cm_location = lit ''/'' @ obj_bucket ob @ lit ''/'' @ obj_key ob, cm_bucket = obj_bucket ob,
              cm_key = obj_key ob, cm_etag = quoted (obj_etag ob)\<rparr>))
            (complete_multipart (s3_engine env) (s3_hex_decode env) upload_id
               (map (\<lambda>(n, etag). (n, normalize_etag etag)) (cq_parts request)) s))"

definition s3_list_parts :: "http_lib \<Rightarrow> str \<Rightarrow> db \<Rightarrow> error + response" where
  "s3_list_parts lib upload_id d =
     bind_res (list_parts upload_id d) (\<lambda>parts.
     bind_res (or_error NoSuchUpload (get_upload upload_id d)) (\<lambda>up.
     xml_response lib (Xml_Parts \<lparr>lp_bucket = up_bucket up, lp_key = up_key up, lp_upload_id = upload_id,
       lp_parts = map (\<lambda>p. \<lparr>px_part_number = part_number p, px_last_modified = format_time lib (up_created_at up),
           px_etag = quoted (part_etag p), px_size = part_size p\<rparr>) parts\<rparr>)))"

definition s3_list_multipart_uploads :: "http_lib \<Rightarrow> str \<Rightarrow> db \<Rightarrow> error + response" where
  "s3_list_multipart_uploads lib bucket d =
     (if \<not> bucket_exists bucket d then Inl NoSuchBucket
      else bind_res (engine_list_uploads bucket None d) (\<lambda>uploads.
        xml_response lib (Xml_Uploads \<lparr>lm_bucket = bucket,
          lm_uploads = map (\<lambda>u. \<lparr>ux_key = up_key u, ux_upload_id = up_upload_id u,
              ux_initiated = format_time lib (up_created_at u)\<rparr>)
            (filter (\<lambda>u. up_kind u = kind_multipart) uploads)\<rparr>)))"

text \<open>The loop of \<open>multi_delete\<close>: an object that cannot be deleted is reported, the loop goes on.\<close>

fun delete_each ::
  "s3_env \<Rightarrow> str \<Rightarrow> nat \<Rightarrow> str list \<Rightarrow> server \<Rightarrow> str list \<times> delete_error_xml list \<times> server \<times> block_ref list list"
where
  "delete_each env bucket i [] s = ([], [], s, [])"
| "delete_each env bucket i (key # keys) s =
     (case engine_delete_object (s3_clock env i) bucket key default_condition s of
        (r, s1, spawned) \<Rightarrow>
          (case delete_each env bucket (i + 1) keys s1 of
             (deleted, errors, s2, spawned2) \<Rightarrow>
               (case r of
                  Inr _ \<Rightarrow> (key # deleted, errors, s2, spawned @ spawned2)
                | Inl e \<Rightarrow> (deleted, \<lparr>de_key = key, de_code = error_code e,
                      de_message = public_error_message (error_code e) e\<rparr> # errors, s2, spawned @ spawned2))))"

definition s3_multi_delete :: "s3_env \<Rightarrow> str \<Rightarrow> stream \<Rightarrow> server \<Rightarrow> answer" where
  "s3_multi_delete env bucket frames s =
     (if \<not> bucket_exists bucket (srv_db s) then reply (Inl NoSuchBucket) s
      else case read_xml (s3_lib env) (4 * 1024 * 1024) (hl_delete_request (s3_lib env)) MalformedXML frames of
        Inl e \<Rightarrow> reply (Inl e) s
      | Inr request \<Rightarrow>
          if dq_objects request = [] \<or> 1000 < length (dq_objects request) then reply (Inl InvalidRequest) s
          else
            (case delete_each env bucket 8 (dq_objects request) s of
               (deleted, errors, s1, spawned) \<Rightarrow>
                 (xml_response (s3_lib env) (Xml_Deleted \<lparr>
                    dr_deleted = (if \<not> dq_quiet request then Some deleted else None), dr_errors = errors\<rparr>),
                  s1, spawned)))"

section \<open>CORS configurations\<close>

definition effective_bucket_cors :: "s3_env \<Rightarrow> str \<Rightarrow> db \<Rightarrow> cors_configuration" where
  "effective_bucket_cors env bucket d =
     (case get_bucket_cors bucket d of Some c \<Rightarrow> c | None \<Rightarrow> s3_cors env)"

definition s3_get_bucket_cors :: "s3_env \<Rightarrow> str \<Rightarrow> db \<Rightarrow> error + response" where
  "s3_get_bucket_cors env bucket d =
     (if \<not> bucket_exists bucket d then Inl NoSuchBucket
      else xml_response (s3_lib env) (Xml_Cors (cors_from (effective_bucket_cors env bucket d))))"

definition s3_put_bucket_cors :: "s3_env \<Rightarrow> str \<Rightarrow> stream \<Rightarrow> server \<Rightarrow> answer" where
  "s3_put_bucket_cors env bucket frames s =
     (if \<not> bucket_exists bucket (srv_db s) then reply (Inl NoSuchBucket) s
      else
        case bind_res (read_xml (s3_lib env) (1024 * 1024) (hl_cors_request (s3_lib env)) MalformedXML frames)
               into_configuration of
          Inl e \<Rightarrow> reply (Inl e) s
        | Inr c \<Rightarrow> (Inr (empty_response 200), s\<lparr>srv_db := set_bucket_cors (s3_clock env 6) bucket c (srv_db s)\<rparr>, []))"

definition s3_delete_bucket_cors :: "str \<Rightarrow> server \<Rightarrow> answer" where
  "s3_delete_bucket_cors bucket s =
     (if \<not> bucket_exists bucket (srv_db s) then reply (Inl NoSuchBucket) s
      else (Inr (empty_response 204), s\<lparr>srv_db := delete_bucket_cors bucket (srv_db s)\<rparr>, []))"

definition effective_cors :: "s3_env \<Rightarrow> http_request \<Rightarrow> db \<Rightarrow> cors_configuration" where
  "effective_cors env rq d =
     (case parse_target (s3_lib env) (rq_path rq) (rq_headers rq) (s3_public_host env) of
        Inl _ \<Rightarrow> s3_cors env
      | Inr t \<Rightarrow> (case tgt_bucket t of None \<Rightarrow> s3_cors env | Some bucket \<Rightarrow> effective_bucket_cors env bucket d))"

definition allow_methods :: "cors_configuration \<Rightarrow> str list" where
  "allow_methods cors =
     (if list_ex (\<lambda>m. eq_ignore_ascii_case m (lit ''OPTIONS'')) (allowed_methods cors)
      then allowed_methods cors else allowed_methods cors @ [lit ''OPTIONS''])"

definition apply_cors :: "s3_env \<Rightarrow> http_request \<Rightarrow> db \<Rightarrow> response \<Rightarrow> response" where
  "apply_cors env rq d r =
     (case header_text (rq_headers rq) (lit ''origin'') of
        None \<Rightarrow> r
      | Some origin \<Rightarrow>
          let cors = effective_cors env rq d; lib = s3_lib env
          in if \<not> list_ex (\<lambda>a. a = lit ''*'' \<or> eq_ignore_ascii_case a origin) (allowed_origins cors) then r
             else
               let allow_origin = (if list_ex (\<lambda>a. a = lit ''*'') (allowed_origins cors) then lit ''*'' else origin);
                   hs = insert_header lib (lit ''access-control-allow-origin'') allow_origin (rs_headers r);
                   hs = insert_header lib (lit ''access-control-allow-methods'') (join (lit '', '') (allow_methods cors)) hs;
                   hs = insert_header lib (lit ''access-control-allow-headers'') (join (lit '', '') (allowed_headers cors)) hs;
                   hs = insert_header lib (lit ''access-control-expose-headers'') (join (lit '', '') (expose_headers cors)) hs;
                   hs = insert_header lib (lit ''access-control-max-age'') (show_nat (max_age_seconds cors)) hs;
                   hs = insert_header lib (lit ''vary'') (lit ''Origin'') hs
               in r\<lparr>rs_headers := hs\<rparr>)"

section \<open>Dispatch\<close>

text \<open>
  The requests on a bucket. The listing is the one handler whose loop the model cannot see to
  return, so the answer is an option; \<open>Some\<close> wraps the others.
\<close>

definition dispatch_bucket ::
  "s3_env \<Rightarrow> http_method \<Rightarrow> str \<Rightarrow> query \<Rightarrow> stream \<Rightarrow> server \<Rightarrow> answer option"
where
  "dispatch_bucket env meth bucket q frames s =
     (let lib = s3_lib env; d = srv_db s; refused = Some (reply (Inl MethodNotAllowed) s);
          listing = map_option (\<lambda>r. reply r s) (s3_list_objects lib bucket q d)
      in if query_has q (lit ''cors'') then
           (case meth of
              GET \<Rightarrow> Some (reply (s3_get_bucket_cors env bucket d) s)
            | PUT \<Rightarrow> Some (s3_put_bucket_cors env bucket frames s)
            | DELETE \<Rightarrow> Some (s3_delete_bucket_cors bucket s)
            | _ \<Rightarrow> refused)
         else if query_has q (lit ''uploads'') then
           (case meth of GET \<Rightarrow> Some (reply (s3_list_multipart_uploads lib bucket d) s) | _ \<Rightarrow> refused)
         else if query_has q (lit ''location'') then
           (if meth = GET
            then Some (reply (xml_response lib (Xml_Location
                   (if s3_region env = lit ''us-east-1'' then [] else s3_region env))) s)
            else refused)
         else if query_has q (lit ''delete'') then
           (if meth = POST then Some (s3_multi_delete env bucket frames s) else refused)
         else if query_value q (lit ''list-type'') = Some (lit ''2'') \<or> query_has q (lit ''prefix'')
           \<or> query_has q (lit ''delimiter'') \<or> query_has q (lit ''max-keys'') then
           (if meth = GET then listing else refused)
         else
           (case meth of
              PUT \<Rightarrow>
                (case validate_bucket bucket of
                   Inl e \<Rightarrow> Some (reply (Inl e) s)
                 | Inr _ \<Rightarrow>
                     Some (ok_with_header lib (lit ''location'') (lit ''/'' @ bucket),
                       s\<lparr>srv_db := snd (create_bucket (s3_clock env 5) bucket d)\<rparr>, []))
            | HEAD \<Rightarrow> Some (reply (if bucket_exists bucket d then Inr (empty_response 200) else Inl NoSuchBucket) s)
            | DELETE \<Rightarrow>
                (case delete_bucket bucket d of
                   (None, d') \<Rightarrow> Some (Inl NoSuchBucket, s\<lparr>srv_db := d'\<rparr>, [])
                 | (Some False, d') \<Rightarrow> Some (Inl BucketNotEmpty, s\<lparr>srv_db := d'\<rparr>, [])
                 | (Some True, d') \<Rightarrow> Some (Inr (empty_response 204), s\<lparr>srv_db := d'\<rparr>, []))
            | GET \<Rightarrow> listing
            | _ \<Rightarrow> refused))"

text \<open>The requests on an upload in progress (\<open>?uploadId=\<close>).\<close>

definition dispatch_part_upload ::
  "s3_env \<Rightarrow> request_headers \<Rightarrow> query \<Rightarrow> str \<Rightarrow> stream \<Rightarrow> server \<Rightarrow> answer"
where
  "dispatch_part_upload env headers q upload_id frames s =
     (if contains_header headers (lit ''x-amz-copy-source'') then reply (Inl NotImplemented) s
      else
        case bind_res (or_error InvalidArgument (query_value q (lit ''partNumber''))) (\<lambda>n.
             bind_res (or_error InvalidArgument (parse_i32 n)) (\<lambda>n.
             bind_res (request_content_length headers) (\<lambda>len.
             bind_res (check_size len (s3_max_size env)) (\<lambda>_.
             bind_res (s3_admission env) (\<lambda>_. Inr (n, len)))))) of
          Inl e \<Rightarrow> reply (Inl e) s
        | Inr (n, len) \<Rightarrow>
            answer_with (\<lambda>part. ok_with_header (s3_lib env) (lit ''etag'') (quoted (part_etag part)))
              (upload_part (s3_engine env) upload_id n frames len s))"

definition dispatch_upload ::
  "s3_env \<Rightarrow> http_method \<Rightarrow> str \<Rightarrow> str \<Rightarrow> request_headers \<Rightarrow> query \<Rightarrow> str \<Rightarrow> stream \<Rightarrow> server \<Rightarrow> answer"
where
  "dispatch_upload env meth bucket key headers q upload_id frames s =
     (case get_upload upload_id (srv_db s) of
        None \<Rightarrow> reply (Inl NoSuchUpload) s
      | Some up \<Rightarrow>
          if up_bucket up \<noteq> bucket \<or> up_key up \<noteq> key then reply (Inl NoSuchUpload) s
          else
            (case meth of
               GET \<Rightarrow> reply (s3_list_parts (s3_lib env) upload_id (srv_db s)) s
             | PUT \<Rightarrow> dispatch_part_upload env headers q upload_id frames s
             | POST \<Rightarrow> s3_complete_multipart env upload_id frames s
             | DELETE \<Rightarrow>
                 answer_with (\<lambda>aborted. if \<not> aborted then Inl NoSuchUpload else Inr (empty_response 204))
                   (abort_multipart (s3_clock env 4) upload_id s)
             | _ \<Rightarrow> reply (Inl MethodNotAllowed) s))"

text \<open>\<open>check_write_conditions\<close> on the object the database holds now.\<close>

definition pre_write :: "str \<Rightarrow> str \<Rightarrow> object_condition \<Rightarrow> db \<Rightarrow> error + unit" where
  "pre_write bucket key condition d =
     bind_res (get_object bucket key d) (\<lambda>found. check_write_conditions found condition)"

definition dispatch_put :: "s3_env \<Rightarrow> str \<Rightarrow> str \<Rightarrow> request_headers \<Rightarrow> stream \<Rightarrow> server \<Rightarrow> answer" where
  "dispatch_put env bucket key headers frames s =
     (let condition = object_condition_of headers
      in case pre_write bucket key condition (srv_db s) of
           Inl e \<Rightarrow> reply (Inl e) s
         | Inr _ \<Rightarrow>
             (case header_text headers (lit ''x-amz-copy-source'') of
                Some source \<Rightarrow> s3_copy_object env bucket key source headers condition s
              | None \<Rightarrow>
                  (case bind_res (request_content_length headers) (\<lambda>len.
                        bind_res (check_size len (s3_max_size env)) (\<lambda>_.
                        bind_res (s3_admission env) (\<lambda>_. Inr len))) of
                     Inl e \<Rightarrow> reply (Inl e) s
                   | Inr len \<Rightarrow>
                       answer_with (\<lambda>ob. ok_with_header (s3_lib env) (lit ''etag'') (quoted (obj_etag ob)))
                         (put_object (s3_engine env) (s3_uuid env) bucket key frames
                            (metadata_from_headers headers) len condition s))))"

definition dispatch_object ::
  "s3_env \<Rightarrow> http_method \<Rightarrow> str \<Rightarrow> str \<Rightarrow> query \<Rightarrow> request_headers \<Rightarrow> stream \<Rightarrow> server \<Rightarrow> answer"
where
  "dispatch_object env meth bucket key q headers frames s =
     (if \<not> bucket_exists bucket (srv_db s) then reply (Inl NoSuchBucket) s
      else case query_value q (lit ''uploadId'') of
        Some upload_id \<Rightarrow> dispatch_upload env meth bucket key headers q upload_id frames s
      | None \<Rightarrow>
          if meth = PUT then dispatch_put env bucket key headers frames s
          else if meth = POST \<and> query_has q (lit ''uploads'') then
            answer_with (\<lambda>upload_id. xml_response (s3_lib env) (Xml_Initiate \<lparr>im_bucket = bucket, im_key = key,
                im_upload_id = upload_id\<rparr>))
              (case create_multipart (s3_clock env 1) (s3_uuid env) bucket key (metadata_from_headers headers) s of
                 (r, s1) \<Rightarrow> (r, s1, []))
          else if meth = POST \<and> query_has q (lit ''delete'') then s3_multi_delete env bucket frames s
          else if meth = POST then reply (Inl NotImplemented) s
          else if meth = GET \<or> meth = HEAD then
            reply (s3_get_object env bucket key headers (meth = HEAD) (srv_db s)) s
          else if meth = DELETE then
            (let condition = object_condition_of headers
             in case pre_write bucket key condition (srv_db s) of
                  Inl e \<Rightarrow> reply (Inl e) s
                | Inr _ \<Rightarrow> answer_with (\<lambda>_. Inr (empty_response 204))
                    (engine_delete_object (s3_clock env 8) bucket key condition s))
          else reply (Inl MethodNotAllowed) s)"

definition dispatch :: "s3_env \<Rightarrow> http_request \<Rightarrow> stream \<Rightarrow> server \<Rightarrow> answer option" where
  "dispatch env rq frames s =
     (case parse_target (s3_lib env) (rq_path rq) (rq_headers rq) (s3_public_host env) of
        Inl e \<Rightarrow> Some (reply (Inl e) s)
      | Inr t \<Rightarrow>
          if rq_method rq = OPTIONS then Some (reply (Inr (empty_response 204)) s)
          else
            (case tgt_bucket t of
               None \<Rightarrow> Some (reply (if rq_method rq = GET then s3_list_buckets (s3_lib env) (srv_db s)
                                    else Inl MethodNotAllowed) s)
             | Some bucket \<Rightarrow>
                 (case tgt_key t of
                    None \<Rightarrow> dispatch_bucket env (rq_method rq) bucket (rq_query rq) frames s
                  | Some key \<Rightarrow>
                      Some (dispatch_object env (rq_method rq) bucket key (rq_query rq) (rq_headers rq) frames s))))"

section \<open>\<open>handle\<close>\<close>

definition is_cors_put :: "http_request \<Rightarrow> bool" where
  "is_cors_put rq \<longleftrightarrow> rq_method rq = PUT
     \<and> list_ex (\<lambda>(key, _). eq_ignore_ascii_case key (lit ''cors'')) (rq_query rq)"

definition failure :: "s3_env \<Rightarrow> http_request \<Rightarrow> nat \<Rightarrow> str \<Rightarrow> str \<Rightarrow> server \<Rightarrow> response \<times> server \<times> block_ref list list" where
  "failure env rq status code message s =
     (apply_cors env rq (srv_db s)
        (error_response (s3_lib env) status code message (rq_path rq) (s3_request_id env)), s, [])"

definition streaming_message :: str where
  "streaming_message = lit ''aws-chunked streaming payloads are not supported; retry with a non-streaming payload''"

text \<open>A handler's outcome as the response sent: an error becomes its status, code and public message.\<close>

definition respond :: "s3_env \<Rightarrow> http_request \<Rightarrow> answer \<Rightarrow> response \<times> server \<times> block_ref list list" where
  "respond env rq a =
     (case a of (r, s, spawned) \<Rightarrow>
        let response = (case r of
              Inr response \<Rightarrow> response
            | Inl e \<Rightarrow> error_response (s3_lib env) (status_for e) (error_code e)
                (public_error_message (error_code e) e) (rq_path rq) (s3_request_id env))
        in (apply_cors env rq (srv_db s) response, s, spawned))"

text \<open>The body hash a \<open>PutBucketCors\<close> without one is checked against, and the body read for it.\<close>

definition hash_cors_body :: "s3_env \<Rightarrow> http_request \<Rightarrow> stream \<Rightarrow> error + (str option \<times> stream)" where
  "hash_cors_body env rq frames =
     (if is_cors_put rq \<and> \<not> contains_header (rq_headers rq) (lit ''x-amz-content-sha256'')
      then bind_res (hl_to_bytes (s3_lib env) frames (1024 * 1024)) (\<lambda>b.
             Inr (Some (cr_hex (s3_crypto env) (cr_sha256 (s3_crypto env) b)), [Inr b]))
      else Inr (None, frames))"

definition handle ::
  "s3_env \<Rightarrow> http_request \<Rightarrow> stream \<Rightarrow> server \<Rightarrow> (response \<times> server \<times> block_ref list list) option"
where
  "handle env rq frames s =
     (case hash_cors_body env rq frames of
        Inl e \<Rightarrow> Some (failure env rq 400 (lit ''InvalidRequest'')
                   (lit ''read CORS request body: '' @ error_text e) s)
      | Inr (payload_hash, frames) \<Rightarrow>
          (case (if rq_method rq \<noteq> OPTIONS
                 then verify_with_payload_hash (s3_crypto env) (s3_auth env) (s3_now env) rq payload_hash
                 else Inr ()) of
             Inl e \<Rightarrow> Some (failure env rq 403 (error_code e) (error_text e) s)
           | Inr _ \<Rightarrow>
               if rq_method rq \<noteq> OPTIONS \<and> is_streaming_payload (rq_headers rq)
               then Some (failure env rq 501 (lit ''NotImplemented'') streaming_message s)
               else map_option (respond env rq) (dispatch env rq frames s)))"

end
