(* ===== verification/S3_Props.thy ===== *)
theory S3_Props
  imports S3_Dispatch S3_List_Props Auth_Props
begin

text \<open>
  What the S3 requests do to the database: \<open>served\<close> is the invariant every request keeps, and
  \<open>grows\<close> bounds the keys an operation can add.
\<close>

section \<open>The invariant of the served database\<close>

definition uploads_valid :: "db \<Rightarrow> bool" where
  "uploads_valid d \<longleftrightarrow> list_all (\<lambda>r :: upload_row. valid_text (urow_key r)) (multipart_uploads d)"

definition served :: "db \<Rightarrow> bool" where
  "served d \<longleftrightarrow> db_ok d \<and> keys_valid d \<and> uploads_valid d"

definition grows :: "str set \<Rightarrow> db \<Rightarrow> db \<Rightarrow> bool" where
  "grows K d d' \<longleftrightarrow> db_ok d'
     \<and> (\<forall>b k. lookup d' (b, k) \<noteq> None \<longrightarrow> lookup d (b, k) \<noteq> None \<or> k \<in> K)
     \<and> urow_key ` set (multipart_uploads d') \<subseteq> urow_key ` set (multipart_uploads d) \<union> K"

lemma keys_valid_lookup:
  assumes "db_ok d"
  shows "keys_valid d \<longleftrightarrow> (\<forall>b k. lookup d (b, k) \<noteq> None \<longrightarrow> valid_text k)"
  unfolding lookup_exists_iff [OF assms] by (auto simp: keys_valid_def list_all_iff)

lemma served_grows:
  assumes "served d" and "grows K d d'" and "\<forall>k \<in> K. valid_text k"
  shows "served d'"
proof -
  have ok: "db_ok d" "db_ok d'" using assms(1,2) by (simp_all add: served_def grows_def)
  have old: "valid_text k" if "lookup d (b, k) \<noteq> None" for b k
    using assms(1) that keys_valid_lookup [OF ok(1)] unfolding served_def by blast
  have new: "lookup d (b, k) \<noteq> None \<or> k \<in> K" if "lookup d' (b, k) \<noteq> None" for b k
    using assms(2) that unfolding grows_def by blast
  have "keys_valid d'"
    unfolding keys_valid_lookup [OF ok(2)] using old new assms(3) by blast
  moreover have "uploads_valid d'"
  proof -
    have "\<forall>k \<in> urow_key ` set (multipart_uploads d). valid_text k"
      using assms(1) by (simp add: served_def uploads_valid_def list_all_iff)
    moreover have "urow_key ` set (multipart_uploads d') \<subseteq> urow_key ` set (multipart_uploads d) \<union> K"
      using assms(2) by (simp add: grows_def)
    ultimately show ?thesis using assms(3) by (auto simp: uploads_valid_def list_all_iff)
  qed
  ultimately show ?thesis using ok by (simp add: served_def)
qed

lemma grows_same:
  assumes "db_ok d'" and "lookup d' = lookup d" and "set (multipart_uploads d') \<subseteq> set (multipart_uploads d)"
  shows "grows K d d'"
  using assms by (auto simp: grows_def)

lemma grows_upd:
  assumes "db_ok d'" and "lookup d' = (lookup d)((b, k) := x)" and "set (multipart_uploads d') \<subseteq> set (multipart_uploads d)"
    and "k \<in> K"
  shows "grows K d d'"
  using assms by (auto simp: grows_def)

lemma grows_del:
  assumes "db_ok d'" and "lookup d' = (lookup d)((b, k) := None)" and "set (multipart_uploads d') \<subseteq> set (multipart_uploads d)"
  shows "grows K d d'"
  using assms by (auto simp: grows_def)

lemma grows_refl: "db_ok d \<Longrightarrow> grows K d d"
  by (simp add: grows_same)

lemma grows_trans: "grows K d d1 \<Longrightarrow> grows K d1 d2 \<Longrightarrow> grows K d d2"
  unfolding grows_def by blast

section \<open>The engine's operations\<close>

lemma put_object_grows:
  assumes "db_ok (srv_db s)" and "0 < ue_chunk_size (en_upload env)"
    and "put_object env uid bucket key frames metadata expected c s = (r, s', sp)"
  shows "grows {key} (srv_db s) (srv_db s')"
proof (cases r)
  case (Inl e)
  with put_object_cases [OF assms] show ?thesis by (intro grows_same) auto
next
  case (Inr ob)
  with put_object_cases [OF assms] show ?thesis by (intro grows_upd [of _ _ bucket key "Some ob"]) auto
qed

lemma upload_part_grows:
  assumes "db_ok (srv_db s)" and "0 < ue_chunk_size (en_upload env)"
    and "upload_part env uid n frames expected s = (r, s', sp)"
  shows "grows {} (srv_db s) (srv_db s')"
  using upload_part_cases [OF assms] by (intro grows_same) auto

lemma complete_multipart_db:
  assumes "complete_multipart env hex_decode uid requested s = (r, s', sp)"
  shows "s' = s \<or> (\<exists>t sz etag parts. srv_db s' = snd (commit_upload t uid sz etag parts default_condition (srv_db s)))"
proof -
  have "snd r = d" if "r = (x, d)" for r :: "'x \<times> db" and x d using that by simp
  with assms show ?thesis
    unfolding complete_multipart_def by (auto split: sum.splits if_splits prod.splits option.splits) (metis snd_conv)+
qed

lemma complete_multipart_grows:
  assumes ok: "db_ok (srv_db s)" and comp: "complete_multipart env hex_decode uid requested s = (r, s', sp)"
  shows "grows (urow_key ` set (multipart_uploads (srv_db s))) (srv_db s) (srv_db s')"
proof (cases r)
  case (Inl e)
  with complete_multipart_cases [OF assms] have "s' = s" by simp
  with ok show ?thesis by (simp add: grows_refl)
next
  case (Inr ob)
  with complete_multipart_cases [OF assms] obtain up where up: "get_upload uid (srv_db s) = Some up"
    and lk: "lookup (srv_db s') = (lookup (srv_db s))((up_bucket up, up_key up) \<mapsto> ob)" by auto
  from up obtain row rows where row: "upload_rows (srv_db s) uid = row # rows" "up = upload_from_row row"
    by (auto simp: get_upload_def split: list.splits)
  then have "row \<in> set (multipart_uploads (srv_db s))" using filter_is_subset
    by (metis list.set_intros(1) subsetD upload_rows_def)
  then have key: "up_key up \<in> urow_key ` set (multipart_uploads (srv_db s))"
    by (auto simp: row(2) upload_from_row_def)
  from complete_multipart_db [OF comp] show ?thesis
  proof (elim disjE exE)
    assume "s' = s"
    with ok show ?thesis by (simp add: grows_refl)
  next
    fix t sz etag parts
    assume d': "srv_db s' = snd (commit_upload t uid sz etag parts default_condition (srv_db s))"
    have "set (multipart_uploads (srv_db s')) \<subseteq> set (multipart_uploads (srv_db s))"
      using commit_upload_snd [of t uid sz etag parts default_condition "srv_db s"]
        commit_upload_tx_view(3) [OF ok] by (auto simp: d' [symmetric])
    with db_ok_commit_upload [OF ok] lk key show ?thesis by (intro grows_upd) (simp_all add: d')
  qed
qed

lemma delete_object_uploads:
  assumes "db_ok d"
  shows "multipart_uploads (snd (delete_object t b k c d)) = multipart_uploads d"
proof (cases "remove_existing_object t b k c d")
  case (Inr a)
  obtain rm d1 where a: "a = (rm, d1)" by (cases a)
  from remove_existing_object_removed(1) [OF _ Inr [unfolded a]] assms
  have "multipart_uploads d1 = multipart_uploads d" by (auto simp: db_ok_def removed_from_def)
  with Inr a show ?thesis by (cases rm) (simp_all add: delete_object_def transact_def split: prod.splits)
qed (simp add: delete_object_def transact_def)

lemma engine_delete_object_grows:
  assumes ok: "db_ok (srv_db s)" and del: "engine_delete_object t b k c s = (r, s', sp)"
  shows "grows {} (srv_db s) (srv_db s')"
proof -
  have "s' = s \<or> srv_db s' = snd (delete_object t b k c (srv_db s))"
    using del by (auto simp: engine_delete_object_def split: sum.splits prod.splits option.splits)
  then show ?thesis
  proof
    assume d': "srv_db s' = snd (delete_object t b k c (srv_db s))"
    obtain x d1 where x: "delete_object t b k c (srv_db s) = (x, d1)" by (cases "delete_object t b k c (srv_db s)")
    have up: "set (multipart_uploads d1) \<subseteq> set (multipart_uploads (srv_db s))"
      using delete_object_uploads [OF ok, of t b k c] by (simp add: x)
    have ok1: "db_ok d1" using db_ok_delete_object [OF ok, of t b k c] by (simp add: x)
    from delete_object_lookup [OF ok x] show ?thesis
      using d' x ok1 up by (cases x) (auto intro: grows_refl grows_del)
  qed (use ok in \<open>simp add: grows_refl\<close>)
qed

lemma copy_object_tx_uploads:
  assumes "db_ok d" and tx: "copy_object_tx t source b k m c d = Inr (old, d')"
  shows "multipart_uploads d' = multipart_uploads d"
proof -
  from tx obtain removed d1 oid d2 r where
    rm: "remove_existing_object t b k c d = Inr (removed, d1)" and ins: "insert_object r d1 = Inr (oid, d2)" and
    cp: "fold_res (copy_block oid) (obj_blocks source) d2 = Inr d'"
    by (auto simp: copy_object_tx_def bind_res_Inr_iff split: if_splits)
  have "multipart_uploads d1 = multipart_uploads d"
    using remove_existing_object_removed(1) [OF _ rm] assms(1) by (auto simp: db_ok_def removed_from_def)
  moreover have "multipart_uploads d2 = multipart_uploads d1" using insert_object_Inr [OF ins] by simp
  moreover have "multipart_uploads d' = multipart_uploads d2"
    using cp by (rule fold_res_const) (use copy_block_frame in blast)
  ultimately show ?thesis by simp
qed

lemma engine_copy_object_grows:
  assumes ok: "db_ok (srv_db s)" and cp: "engine_copy_object t sb sk b k m c s = (r, s', sp)"
  shows "grows {k} (srv_db s) (srv_db s')"
proof (cases "require_bucket b (srv_db s)")
  case (Inl e)
  with cp ok show ?thesis by (auto simp: engine_copy_object_def intro: grows_refl)
next
  case (Inr u)
  then have bk: "bucket_named (srv_db s) b" by (simp add: require_bucket_def bucket_exists_def split: if_splits)
  show ?thesis
  proof (cases "engine_get_object sb sk (srv_db s)")
    case (Inl e)
    with cp Inr ok show ?thesis by (auto simp: engine_copy_object_def intro: grows_refl)
  next
    case src: (Inr source)
    then have "get_object sb sk (srv_db s) = Inr (Some source)"
      by (auto simp: engine_get_object_def bind_res_Inr_iff split: option.splits)
    then have v: "source_valid (srv_db s) source" by (rule get_object_source_valid [OF ok])
    obtain x d1 where x: "copy_object t source b k m c (srv_db s) = (x, d1)"
      by (cases "copy_object t source b k m c (srv_db s)")
    have "grows {k} (srv_db s) d1"
      using copy_object_cases [OF ok v bk x]
    proof (elim disjE exE conjE)
      fix ob old assume tx: "copy_object_tx t source b k m c (srv_db s) = Inr (old, d1)"
      from copy_object_tx_result [OF ok v bk tx] obtain ob where "lookup d1 = (lookup (srv_db s))((b, k) \<mapsto> ob)" by blast
      moreover have "db_ok d1" using ok v bk tx by (rule db_ok_copy_object_tx)
      ultimately show ?thesis by (intro grows_upd) (simp_all add: copy_object_tx_uploads [OF ok tx])
    qed (use ok in \<open>simp add: grows_refl\<close>)
    moreover have "srv_db s' = d1"
      using cp Inr src x by (auto simp: engine_copy_object_def split: sum.splits prod.splits)
    ultimately show ?thesis by simp
  qed
qed

lemma create_multipart_grows:
  assumes ok: "db_ok (srv_db s)" and "create_multipart t uid b k m s = (r, s')"
  shows "grows {k} (srv_db s) (srv_db s')"
proof -
  let ?up = "\<lparr>up_upload_id = uid, up_bucket = b, up_key = k, up_metadata = m, up_kind = kind_multipart, up_created_at = t\<rparr>"
  have "s' = s \<or> srv_db s' = snd (create_upload ?up (srv_db s))"
    using assms(2) by (auto simp: create_multipart_def split: sum.splits prod.splits)
  then show ?thesis
  proof
    assume d': "srv_db s' = snd (create_upload ?up (srv_db s))"
    have "urow_key ` set (multipart_uploads (snd (create_upload ?up (srv_db s))))
        \<subseteq> urow_key ` set (multipart_uploads (srv_db s)) \<union> {k}"
      by (auto simp: create_upload_def transact_def insert_upload_def bind_res_def)
    moreover have "lookup (snd (create_upload ?up (srv_db s))) = lookup (srv_db s)"
      by (rule create_upload_s.lookup_neutral [OF refl ok])
    ultimately show ?thesis using db_ok_create_upload [OF ok, of ?up] by (simp add: grows_def d')
  qed (use ok in \<open>simp add: grows_refl\<close>)
qed

lemma abort_multipart_grows:
  assumes ok: "db_ok (srv_db s)" and "abort_multipart t uid s = (r, s', sp)"
  shows "grows {} (srv_db s) (srv_db s')"
proof -
  have d': "srv_db s' = snd (abort_upload_with_blocks t uid (srv_db s))"
    using assms(2) by (auto simp: abort_multipart_def split: sum.splits prod.splits option.splits)
  have "set (multipart_uploads (snd (abort_upload_with_blocks t uid (srv_db s)))) \<subseteq> set (multipart_uploads (srv_db s))"
    by (auto simp: abort_upload_with_blocks_def transact_def bind_res_def delete_upload_row_def split: sum.splits)
  then show ?thesis
    using db_ok_abort_upload_with_blocks [OF ok, of t uid] abort_upload_s.lookup_neutral [OF refl ok, of t uid]
    by (intro grows_same) (simp_all add: d')
qed

section \<open>The handlers\<close>

lemma answer_with_server: "answer_with f h = (r, s', sp) \<Longrightarrow> \<exists>r0. h = (r0, s', sp)"
  by (auto simp: answer_with_def split: prod.splits)

lemma reply_server [simp]: "reply r s = (r', s', sp) \<longleftrightarrow> r' = r \<and> s' = s \<and> sp = []"
  by (auto simp: reply_def)

lemma served_db_ok: "served d \<Longrightarrow> db_ok d"
  by (simp add: served_def)

lemma served_frame:
  assumes "served d" and "db_ok d'" and "objects d' = objects d" and "multipart_uploads d' = multipart_uploads d"
  shows "served d'"
  using assms by (simp add: served_def keys_valid_def uploads_valid_def)

text \<open>Each handler keeps the invariant; \<open>sv\<close> says so of an answer.\<close>

definition keeps_served :: "server \<Rightarrow> answer \<Rightarrow> bool" where
  "keeps_served s a \<longleftrightarrow> (served (srv_db s) \<longrightarrow> served (srv_db (fst (snd a))))"

lemma keeps_reply [simp]: "keeps_served s (reply r s)"
  by (simp add: keeps_served_def reply_def)

lemma keeps_answer_with: "keeps_served s (answer_with f h) \<longleftrightarrow> (served (srv_db s) \<longrightarrow> served (srv_db (fst (snd h))))"
  by (simp add: keeps_served_def answer_with_def split: prod.splits)

lemma keeps_grows:
  assumes "\<And>r s' sp. h = (r, s', sp) \<Longrightarrow> served (srv_db s) \<Longrightarrow> grows K (srv_db s) (srv_db s')"
    and "\<And>k. k \<in> K \<Longrightarrow> valid_text k"
  shows "keeps_served s (answer_with f h)"
  unfolding keeps_answer_with using assms served_grows by (cases h) (metis fst_conv snd_conv)

lemma copy_keeps:
  assumes "valid_text key"
  shows "keeps_served s (s3_copy_object env bucket key source headers condition s)"
proof -
  have "keeps_served s (answer_with f (engine_copy_object t sb sk bucket key m condition s))" for f t sb sk m
    by (rule keeps_grows [of _ _ "{key}"]) (use assms engine_copy_object_grows served_db_ok in blast)+
  then show ?thesis by (simp add: s3_copy_object_def Let_def split: sum.splits prod.splits)
qed

lemma complete_keeps: "keeps_served s (s3_complete_multipart env upload_id frames s)"
proof -
  have "keeps_served s (answer_with f (complete_multipart e h upload_id parts s))" for f e h parts
    unfolding keeps_answer_with
  proof
    assume sv: "served (srv_db s)"
    obtain r s' sp where c: "complete_multipart e h upload_id parts s = (r, s', sp)"
      by (cases "complete_multipart e h upload_id parts s")
    have "\<forall>k \<in> urow_key ` set (multipart_uploads (srv_db s)). valid_text k"
      using sv by (simp add: served_def uploads_valid_def list_all_iff)
    with served_grows [OF sv complete_multipart_grows [OF served_db_ok [OF sv] c]]
    show "served (srv_db (fst (snd (complete_multipart e h upload_id parts s))))" by (simp add: c)
  qed
  then show ?thesis by (simp add: s3_complete_multipart_def split: sum.splits)
qed

lemma delete_each_keeps:
  "delete_each env bucket i keys s = (deleted, errors, s', sp) \<Longrightarrow> served (srv_db s) \<Longrightarrow> served (srv_db s')"
proof (induction env bucket i keys s arbitrary: deleted errors s' sp rule: delete_each.induct)
  case (2 env bucket i key keys s)
  obtain r s1 sp1 where d: "engine_delete_object (s3_clock env i) bucket key default_condition s = (r, s1, sp1)"
    by (cases "engine_delete_object (s3_clock env i) bucket key default_condition s")
  obtain del err s2 sp2 where rest: "delete_each env bucket (i + 1) keys s1 = (del, err, s2, sp2)"
    by (cases "delete_each env bucket (i + 1) keys s1")
  have "served (srv_db s1)"
    using served_grows [OF 2(3) engine_delete_object_grows [OF served_db_ok [OF 2(3)] d]] by simp
  then have "served (srv_db s2)" using 2(1) [OF d [symmetric] refl rest] by simp
  with 2(2) d rest show ?case by (auto split: sum.splits)
qed simp

lemma multi_delete_keeps: "keeps_served s (s3_multi_delete env bucket frames s)"
  using delete_each_keeps
  by (auto simp: keeps_served_def s3_multi_delete_def reply_def split: sum.splits prod.splits)

lemma put_cors_keeps: "keeps_served s (s3_put_bucket_cors env bucket frames s)"
proof -
  have "served (set_bucket_cors t bucket c d)" if "served d" for t c d
    using that db_ok_set_bucket_cors [OF served_db_ok [OF that], of t bucket c]
    by (rule served_frame) (simp_all add: set_bucket_cors_def)
  then show ?thesis
    by (auto simp: keeps_served_def s3_put_bucket_cors_def reply_def split: sum.splits)
qed

lemma delete_cors_keeps: "keeps_served s (s3_delete_bucket_cors bucket s)"
proof -
  have "served (delete_bucket_cors bucket d)" if "served d" for d
    using that db_ok_delete_bucket_cors [OF served_db_ok [OF that], of bucket]
    by (rule served_frame) (simp_all add: delete_bucket_cors_def)
  then show ?thesis by (auto simp: keeps_served_def s3_delete_bucket_cors_def reply_def)
qed

lemma create_bucket_keeps:
  assumes "served d"
  shows "served (snd (create_bucket t b d))"
  using assms db_ok_create_bucket [OF served_db_ok [OF assms], of t b] by (rule served_frame) (simp_all add: create_bucket_def)

lemma delete_bucket_keeps:
  assumes "served d"
  shows "served (snd (delete_bucket b d))"
  using assms db_ok_delete_bucket [OF served_db_ok [OF assms], of b] by (rule served_frame) (simp_all add: delete_bucket_def)

section \<open>The dispatchers\<close>

lemma dispatch_bucket_total:
  assumes "served (srv_db s)" and "query_valid q"
  shows "dispatch_bucket env meth bucket q frames s \<noteq> None"
proof -
  have "valid_text v" if "query_value q name = Some v" for v name
    using assms(2) that by (auto simp: query_value_def query_valid_def list_all_iff find_Some_iff dest!: nth_mem)
  then have "valid_text (or_empty (query_value q name))" for name
    by (cases "query_value q name") (simp_all add: or_empty_def valid_text_def)
  then have "s3_list_objects (s3_lib env) bucket q (srv_db s) \<noteq> None"
    using assms(1) list_page_total by (simp add: s3_list_objects_def served_def)
  then show ?thesis
    unfolding dispatch_bucket_def Let_def
    by (auto simp del: not_None_eq split: http_method.splits sum.splits prod.splits option.splits bool.splits)
qed

lemma dispatch_bucket_keeps:
  assumes "dispatch_bucket env meth bucket q frames s = Some a"
  shows "keeps_served s a"
proof -
  have "keeps_served s (r, s\<lparr>srv_db := snd (create_bucket t b (srv_db s))\<rparr>, [])" for r t b
    by (simp add: keeps_served_def create_bucket_keeps)
  moreover have "keeps_served s (r, s\<lparr>srv_db := d'\<rparr>, [])" if "delete_bucket bucket (srv_db s) = (x, d')" for r x d'
    using delete_bucket_keeps [of "srv_db s" bucket] that by (simp add: keeps_served_def)
  ultimately show ?thesis
    using assms multi_delete_keeps put_cors_keeps delete_cors_keeps unfolding dispatch_bucket_def Let_def
    by (auto split: if_splits http_method.splits sum.splits prod.splits option.splits bool.splits)
qed

lemma dispatch_upload_keeps:
  assumes "0 < ue_chunk_size (en_upload (s3_engine env))"
  shows "keeps_served s (dispatch_upload env meth bucket key headers q upload_id frames s)"
proof -
  have "keeps_served s (answer_with f (upload_part (s3_engine env) upload_id n frames len s))" for f n len
    by (rule keeps_grows [of _ _ "{}"]) (use assms upload_part_grows served_db_ok in blast)+
  moreover have "keeps_served s (answer_with f (abort_multipart t upload_id s))" for f t
    by (rule keeps_grows [of _ _ "{}"]) (use abort_multipart_grows served_db_ok in blast)+
  ultimately show ?thesis
    using complete_keeps
    by (auto simp: dispatch_upload_def dispatch_part_upload_def split: option.splits http_method.splits sum.splits)
qed

lemma dispatch_put_keeps:
  assumes "0 < ue_chunk_size (en_upload (s3_engine env))" and "valid_text key"
  shows "keeps_served s (dispatch_put env bucket key headers frames s)"
proof -
  have "keeps_served s (answer_with f (put_object (s3_engine env) u bucket key frames m len c s))" for f u m len c
    by (rule keeps_grows [of _ _ "{key}"]) (use assms put_object_grows served_db_ok in blast)+
  then show ?thesis
    using copy_keeps [OF assms(2)]
    by (auto simp: dispatch_put_def Let_def split: option.splits sum.splits)
qed

lemma dispatch_object_keeps:
  assumes "0 < ue_chunk_size (en_upload (s3_engine env))" and "valid_text key"
  shows "keeps_served s (dispatch_object env meth bucket key q headers frames s)"
proof -
  have "keeps_served s (answer_with f (case create_multipart t u bucket key m s of (r, s1) \<Rightarrow> (r, s1, [])))" for f t u m
  proof (rule keeps_grows [of _ _ "{key}"])
    fix r s' sp assume "(case create_multipart t u bucket key m s of (r, s1) \<Rightarrow> (r, s1, [])) = (r, s', sp)"
      and sv: "served (srv_db s)"
    then have "create_multipart t u bucket key m s = (r, s')" by (simp split: prod.splits)
    then show "grows {key} (srv_db s) (srv_db s')" by (rule create_multipart_grows [OF served_db_ok [OF sv]])
  qed (use assms(2) in simp)
  moreover have "keeps_served s (answer_with f (engine_delete_object t bucket key c s))" for f t c
    by (rule keeps_grows [of _ _ "{}"]) (use engine_delete_object_grows served_db_ok in blast)+
  ultimately show ?thesis
    using dispatch_upload_keeps [OF assms(1)] dispatch_put_keeps [OF assms] multi_delete_keeps
    by (simp add: dispatch_object_def Let_def split: option.splits sum.splits)
qed

lemma decode_path_valid: "decode_path lib path = Inr s \<Longrightarrow> valid_text s"
  by (auto simp: decode_path_def split: option.splits dest: utf8_decode_Some)

lemma target_by_path_valid:
  assumes "target_by_path lib p = Inr t" and "tgt_key t = Some key"
  shows "valid_text key"
proof -
  from assms obtain raw where "decode_path lib raw = Inr key"
    by (auto simp: target_by_path_def bind_res_Inr_iff split: if_splits option.splits prod.splits)
  then show ?thesis by (rule decode_path_valid)
qed

lemma parse_target_valid:
  assumes "parse_target lib path headers public_host = Inr t" and "tgt_key t = Some key"
  shows "valid_text key"
  using assms target_by_path_valid decode_path_valid
  by (auto simp: parse_target_def Let_def bind_res_Inr_iff split: if_splits option.splits)

lemma dispatch_keeps:
  assumes "0 < ue_chunk_size (en_upload (s3_engine env))" and "dispatch env rq frames s = Some a"
  shows "keeps_served s a"
  using assms(2) dispatch_bucket_keeps dispatch_object_keeps [OF assms(1)]
  by (auto simp: dispatch_def split: sum.splits if_splits option.splits dest: parse_target_valid)

lemma dispatch_total:
  assumes "served (srv_db s)" and "query_valid (rq_query rq)"
  shows "dispatch env rq frames s \<noteq> None"
  using dispatch_bucket_total [of s "rq_query rq", OF assms]
  by (auto simp: dispatch_def simp del: not_None_eq split: sum.splits option.splits)

end
