(* ===== verification/S3_Effects.thy ===== *)
theory S3_Effects
  imports S3_Props
begin

text \<open>
  What a request changes: a read changes nothing, and an answer with an error status leaves
  every object as it was. The lemmas go through the dispatchers one by one.
\<close>

section \<open>Reads\<close>

definition unchanged :: "server \<Rightarrow> answer \<Rightarrow> bool" where
  "unchanged s a \<longleftrightarrow> fst (snd a) = s \<and> snd (snd a) = []"

lemma unchanged_reply [simp]: "unchanged s (reply r s)"
  by (simp add: unchanged_def reply_def)

lemma dispatch_bucket_reads:
  assumes "dispatch_bucket env meth bucket q frames s = Some a" and "meth \<in> {GET, HEAD, OPTIONS}"
  shows "unchanged s a"
  using assms unfolding dispatch_bucket_def Let_def
  by (auto split: if_splits http_method.splits sum.splits prod.splits option.splits bool.splits)

lemma dispatch_object_reads:
  assumes "meth \<in> {GET, HEAD, OPTIONS}"
  shows "unchanged s (dispatch_object env meth bucket key q headers frames s)"
  using assms
  by (auto simp: dispatch_object_def dispatch_upload_def Let_def split: option.splits http_method.splits)

lemma dispatch_reads:
  assumes "dispatch env rq frames s = Some a" and "rq_method rq \<in> {GET, HEAD, OPTIONS}"
  shows "unchanged s a"
  using assms dispatch_bucket_reads dispatch_object_reads
  by (auto simp: dispatch_def split: sum.splits if_splits option.splits)

section \<open>The crates\<close>

text \<open>
  What the crates document: \<open>quick_xml\<close> serialises the documents of the S3 interface,
  \<open>HeaderValue::from_str\<close> accepts visible ASCII text, \<open>HeaderName::from_bytes\<close> makes a name of
  lower-case letters of it.
\<close>

definition visible :: "str \<Rightarrow> bool" where
  "visible s \<longleftrightarrow> list_all (\<lambda>c. 32 \<le> c \<and> c < 127) s"

definition crates_ok :: "http_lib \<Rightarrow> bool" where
  "crates_ok lib \<longleftrightarrow> (\<forall>doc. \<exists>xml. hl_to_string lib doc = Inr xml)
     \<and> (\<forall>v. visible v \<longrightarrow> hl_value_ok lib v)
     \<and> (\<forall>name n. hl_name lib name = Some n \<longrightarrow> n = to_ascii_lowercase name)"

lemma visible_simps [simp]: "visible []" "visible (x # xs) \<longleftrightarrow> 32 \<le> x \<and> x < 127 \<and> visible xs"
    "visible (xs @ ys) \<longleftrightarrow> visible xs \<and> visible ys"
  by (simp_all add: visible_def)

lemma xml_response_ok: "crates_ok lib \<Longrightarrow> \<exists>r. xml_response lib doc = Inr r \<and> rs_status r = 200"
  by (auto simp: xml_response_def crates_ok_def dest!: spec [of _ doc])

lemma xml_response_error [simp]: "crates_ok lib \<Longrightarrow> xml_response lib doc \<noteq> Inl e"
  using xml_response_ok by (metis sum.distinct(1))

lemma xml_response_status: "xml_response lib doc = Inr r \<Longrightarrow> rs_status r = 200"
  by (auto simp: xml_response_def split: sum.splits)

lemma ok_with_header_ok: "crates_ok lib \<Longrightarrow> visible v \<Longrightarrow> ok_with_header lib name v \<noteq> Inl e"
  by (simp add: ok_with_header_def crates_ok_def)

lemma ok_with_header_status: "ok_with_header lib name v = Inr r \<Longrightarrow> rs_status r = 200"
  by (auto simp: ok_with_header_def empty_response_def split: if_splits)

section \<open>Errors\<close>

text \<open>An answer is safe when an error has changed no object, and a response has a status of success.\<close>

definition error_safe :: "server \<Rightarrow> answer \<Rightarrow> bool" where
  "error_safe s a \<longleftrightarrow>
     (case fst a of
        Inl _ \<Rightarrow> lookup (srv_db (fst (snd a))) = lookup (srv_db s)
      | Inr r \<Rightarrow> rs_status r < 300)"

lemma error_safe_pair: "error_safe s (r, s', sp) \<longleftrightarrow>
     (case r of Inl _ \<Rightarrow> lookup (srv_db s') = lookup (srv_db s) | Inr r \<Rightarrow> rs_status r < 300)"
  by (cases r) (simp_all add: error_safe_def)

lemma error_safe_reply: "error_safe s (reply r s) \<longleftrightarrow> (case r of Inl _ \<Rightarrow> True | Inr r \<Rightarrow> rs_status r < 300)"
  by (simp add: error_safe_def reply_def split: sum.splits)

lemma error_safe_reply_Inl [simp]: "error_safe s (reply (Inl e) s)"
  by (simp add: error_safe_reply)

lemma error_safe_answer_with:
  assumes "\<And>e s' sp. h = (Inl e, s', sp) \<Longrightarrow> lookup (srv_db s') = lookup (srv_db s)"
    and "\<And>x s' sp. h = (Inr x, s', sp) \<Longrightarrow> case f x of
        Inl _ \<Rightarrow> lookup (srv_db s') = lookup (srv_db s) | Inr r \<Rightarrow> rs_status r < 300"
  shows "error_safe s (answer_with f h)"
  using assms by (cases h; cases "fst h") (auto simp: answer_with_def error_safe_pair)

lemma error_safe_answer_with_ok:
  assumes "\<And>e s' sp. h = (Inl e, s', sp) \<Longrightarrow> lookup (srv_db s') = lookup (srv_db s)"
    and "\<And>x. \<exists>r. f x = Inr r \<and> rs_status r < 300"
  shows "error_safe s (answer_with f h)"
proof (rule error_safe_answer_with [OF assms(1)])
  show "case f x of Inl _ \<Rightarrow> lookup (srv_db s') = lookup (srv_db s) | Inr r \<Rightarrow> rs_status r < 300" for x s'
    using assms(2) [of x] by auto
qed

lemma error_safe_reply_empty [simp]: "error_safe s (reply (Inr (empty_response n)) s) \<longleftrightarrow> n < 300"
  by (simp add: error_safe_reply empty_response_def)

lemma empty_response_status [simp]: "rs_status (empty_response n) = n"
  by (simp add: empty_response_def)

lemma engine_delete_object_Inl:
  assumes "db_ok (srv_db s)" and "engine_delete_object t b k c s = (Inl e, s', sp)"
  shows "lookup (srv_db s') = lookup (srv_db s)"
  using assms(2) delete_object_lookup [OF assms(1), of t b k c]
  by (auto simp: engine_delete_object_def split: sum.splits prod.splits option.splits)

lemma engine_copy_object_Inl:
  assumes ok: "db_ok (srv_db s)" and cp: "engine_copy_object t sb sk b k m c s = (Inl e, s', sp)"
  shows "s' = s"
proof (cases "require_bucket b (srv_db s)")
  case (Inr u)
  then have bk: "bucket_named (srv_db s) b" by (simp add: require_bucket_def bucket_exists_def split: if_splits)
  show ?thesis
  proof (cases "engine_get_object sb sk (srv_db s)")
    case src: (Inr source)
    then have "get_object sb sk (srv_db s) = Inr (Some source)"
      by (auto simp: engine_get_object_def bind_res_Inr_iff split: option.splits)
    then have v: "source_valid (srv_db s) source" by (rule get_object_source_valid [OF ok])
    obtain x d1 where x: "copy_object t source b k m c (srv_db s) = (x, d1)"
      by (cases "copy_object t source b k m c (srv_db s)")
    with cp Inr src obtain e' where "x = Inl e'" "s' = s\<lparr>srv_db := d1\<rparr>"
      by (auto simp: engine_copy_object_def split: sum.splits prod.splits)
    with copy_object_cases [OF ok v bk x] show ?thesis by auto
  qed (use cp Inr in \<open>simp add: engine_copy_object_def\<close>)
qed (use cp in \<open>simp add: engine_copy_object_def\<close>)

lemma create_multipart_lookup:
  assumes "db_ok (srv_db s)" and "create_multipart t uid b k m s = (r, s')"
  shows "lookup (srv_db s') = lookup (srv_db s)"
  using assms(2) create_upload_s.lookup_neutral [OF refl assms(1)]
  by (auto simp: create_multipart_def split: sum.splits prod.splits) (metis snd_conv)+

lemma abort_multipart_lookup:
  assumes "db_ok (srv_db s)" and "abort_multipart t uid s = (r, s', sp)"
  shows "lookup (srv_db s') = lookup (srv_db s)"
  using assms(2) abort_upload_s.lookup_neutral [OF refl assms(1), of t uid]
  by (auto simp: abort_multipart_def split: sum.splits prod.splits option.splits)

section \<open>The handlers\<close>

lemma bind_res_status:
  assumes "bind_res x f = Inr r" and "\<And>y r. f y = Inr r \<Longrightarrow> rs_status r < 300"
  shows "rs_status r < 300"
  using assms by (auto simp: bind_res_Inr_iff)

lemma get_object_status:
  assumes "s3_get_object env bucket key headers head_only d = Inr r"
  shows "rs_status r < 300"
  using assms unfolding s3_get_object_def Let_def
  by (elim bind_res_status prod.exhaust) (auto elim!: bind_res_status split: prod.splits)

lemma copy_safe:
  assumes "db_ok (srv_db s)" and "crates_ok (s3_lib env)"
  shows "error_safe s (s3_copy_object env bucket key source headers condition s)"
proof -
  have "error_safe s (answer_with f (engine_copy_object t sb sk bucket key m condition s))"
    if "\<And>x. \<exists>r. f x = Inr r \<and> rs_status r < 300" for f t sb sk m
    using engine_copy_object_Inl [OF assms(1)] that by (intro error_safe_answer_with_ok) blast+
  moreover have "\<exists>r. xml_response (s3_lib env) doc = Inr r \<and> rs_status r < 300" for doc
    using xml_response_ok [OF assms(2), of doc] by auto
  ultimately show ?thesis
    by (simp add: s3_copy_object_def Let_def split: sum.splits prod.splits)
qed

lemma complete_safe:
  assumes "db_ok (srv_db s)" and "crates_ok (s3_lib env)"
  shows "error_safe s (s3_complete_multipart env upload_id frames s)"
proof -
  have "error_safe s (answer_with f (complete_multipart e h upload_id parts s))"
    if "\<And>x. \<exists>r. f x = Inr r \<and> rs_status r < 300" for f e h parts
    using complete_multipart_cases [OF assms(1)] that by (intro error_safe_answer_with_ok) fastforce+
  moreover have "\<exists>r. xml_response (s3_lib env) doc = Inr r \<and> rs_status r < 300" for doc
    using xml_response_ok [OF assms(2), of doc] by auto
  ultimately show ?thesis by (simp add: s3_complete_multipart_def split: sum.splits)
qed

lemma multi_delete_safe:
  assumes "crates_ok (s3_lib env)"
  shows "error_safe s (s3_multi_delete env bucket frames s)"
proof -
  have "error_safe s (xml_response (s3_lib env) doc, s', sp)" for doc s' sp
    using xml_response_ok [OF assms, of doc] by (auto simp: error_safe_pair)
  then show ?thesis by (simp add: s3_multi_delete_def split: sum.splits prod.splits)
qed

lemma reply_xml_safe:
  assumes "crates_ok lib"
  shows "error_safe s (reply (xml_response lib doc) s)"
  using xml_response_ok [OF assms, of doc] by (auto simp: error_safe_reply)

lemma reply_safe:
  assumes "\<And>r. x = Inr r \<Longrightarrow> rs_status r < 300"
  shows "error_safe s (reply x s)"
  using assms by (auto simp: error_safe_reply split: sum.splits)

lemma get_safe [simp]: "error_safe s (reply (s3_get_object env bucket key headers head_only d) s)"
  by (rule reply_safe) (rule get_object_status)

lemma read_xml_replies_safe [simp]:
  "error_safe s (reply (s3_get_bucket_cors env bucket d) s)"
  "error_safe s (reply (s3_list_multipart_uploads lib bucket d) s)"
  "error_safe s (reply (s3_list_parts lib upload_id d) s)"
  "error_safe s (reply (s3_list_buckets lib d) s)"
  "error_safe s (reply (xml_response lib doc) s)"
  by (rule reply_safe; auto simp: s3_get_bucket_cors_def s3_list_multipart_uploads_def s3_list_parts_def
      s3_list_buckets_def bind_res_Inr_iff Let_def split: if_splits dest!: xml_response_status)+

lemma cors_safe [simp]:
  "error_safe s (s3_put_bucket_cors env bucket frames s)"
  "error_safe s (s3_delete_bucket_cors bucket s)"
  by (auto simp: s3_put_bucket_cors_def s3_delete_bucket_cors_def error_safe_pair empty_response_def split: sum.splits)

lemma list_objects_safe:
  assumes "s3_list_objects lib bucket q d = Some x"
  shows "error_safe s (reply x s)"
  using assms
  by (intro reply_safe) (auto simp: s3_list_objects_def bind_res_Inr_iff dest!: xml_response_status)

section \<open>The dispatchers\<close>

lemma dispatch_bucket_safe:
  assumes ok: "db_ok (srv_db s)" and "crates_ok (s3_lib env)"
    and "dispatch_bucket env meth bucket q frames s = Some a"
  shows "error_safe s a"
proof -
  have create: "error_safe s (ok_with_header lib name v, s\<lparr>srv_db := snd (create_bucket t b (srv_db s))\<rparr>, [])" for lib name v t b
    using create_bucket_s.lookup_neutral [OF refl ok, of t b] ok_with_header_status [of lib name v]
    by (cases "ok_with_header lib name v") (simp_all add: error_safe_pair)
  have delete: "error_safe s (Inl e, s\<lparr>srv_db := d'\<rparr>, [])" "error_safe s (Inr (empty_response 204), s\<lparr>srv_db := d'\<rparr>, [])"
    if "delete_bucket bucket (srv_db s) = (x, d')" for x d' e
    using delete_bucket_s.lookup_neutral [OF refl ok, of bucket] that by (simp_all add: error_safe_pair)
  show ?thesis
    using assms(3) create delete multi_delete_safe [OF assms(2)] list_objects_safe
    unfolding dispatch_bucket_def Let_def
    by (auto split: if_splits http_method.splits sum.splits prod.splits option.splits bool.splits)
qed

text \<open>\<open>format!("{:x}", Md5)\<close> is hexadecimal text, so an ETag can stand in a header.\<close>

definition etags_visible :: "s3_env \<Rightarrow> bool" where
  "etags_visible env \<longleftrightarrow> (\<forall>b. visible (ue_md5_hex (en_upload (s3_engine env)) b))"

lemma etag_header_ok:
  assumes "crates_ok lib" and "visible etag"
  shows "\<exists>r. ok_with_header lib name (quoted etag) = Inr r \<and> rs_status r = 200"
proof -
  have "visible (quoted etag)" using assms(2) by (simp add: quoted_def)
  with ok_with_header_ok [OF assms(1) this, of name] ok_with_header_status [of lib name "quoted etag"]
  show ?thesis by (cases "ok_with_header lib name (quoted etag)") auto
qed

lemma dispatch_part_upload_safe:
  assumes ok: "db_ok (srv_db s)" and chunk: "0 < ue_chunk_size (en_upload (s3_engine env))"
    and "crates_ok (s3_lib env)" and "etags_visible env"
  shows "error_safe s (dispatch_part_upload env headers q upload_id frames s)"
proof -
  have "error_safe s (answer_with (\<lambda>part. ok_with_header (s3_lib env) name (quoted (part_etag part)))
          (upload_part (s3_engine env) upload_id n frames len s))" for name n len
  proof (rule error_safe_answer_with)
    fix e s' sp assume "upload_part (s3_engine env) upload_id n frames len s = (Inl e, s', sp)"
    from upload_part_cases [OF ok chunk this] show "lookup (srv_db s') = lookup (srv_db s)" by simp
  next
    fix part s' sp assume "upload_part (s3_engine env) upload_id n frames len s = (Inr part, s', sp)"
    from upload_part_cases [OF ok chunk this] obtain b where "part_etag part = ue_md5_hex (en_upload (s3_engine env)) b"
      by (auto simp: part_of_def)
    then have "visible (part_etag part)" using assms(4) by (simp add: etags_visible_def)
    from etag_header_ok [OF assms(3) this, of name]
    show "case ok_with_header (s3_lib env) name (quoted (part_etag part)) of
        Inl _ \<Rightarrow> lookup (srv_db s') = lookup (srv_db s) | Inr r \<Rightarrow> rs_status r < 300" by auto
  qed
  then show ?thesis by (simp add: dispatch_part_upload_def split: sum.splits)
qed

lemma dispatch_upload_safe:
  assumes "db_ok (srv_db s)" and "0 < ue_chunk_size (en_upload (s3_engine env))"
    and "crates_ok (s3_lib env)" and "etags_visible env"
  shows "error_safe s (dispatch_upload env meth bucket key headers q upload_id frames s)"
proof -
  have "error_safe s (answer_with (\<lambda>aborted. if \<not> aborted then Inl NoSuchUpload else Inr (empty_response 204))
          (abort_multipart t upload_id s))" for t
    using abort_multipart_lookup [OF assms(1)]
    by (intro error_safe_answer_with) (simp_all add: empty_response_def)
  then show ?thesis
    using dispatch_part_upload_safe [OF assms] complete_safe [OF assms(1,3)]
    by (simp add: dispatch_upload_def split: option.splits http_method.splits)
qed

lemma dispatch_put_safe:
  assumes ok: "db_ok (srv_db s)" and chunk: "0 < ue_chunk_size (en_upload (s3_engine env))"
    and "crates_ok (s3_lib env)" and "etags_visible env"
  shows "error_safe s (dispatch_put env bucket key headers frames s)"
proof -
  have "error_safe s (answer_with (\<lambda>ob. ok_with_header (s3_lib env) name (quoted (obj_etag ob)))
          (put_object (s3_engine env) u bucket key frames m len c s))" for name u m len c
  proof (rule error_safe_answer_with)
    fix e s' sp assume "put_object (s3_engine env) u bucket key frames m len c s = (Inl e, s', sp)"
    from put_object_cases [OF ok chunk this] show "lookup (srv_db s') = lookup (srv_db s)" by simp
  next
    fix ob s' sp assume "put_object (s3_engine env) u bucket key frames m len c s = (Inr ob, s', sp)"
    from put_object_cases [OF ok chunk this] obtain b where "obj_etag ob = ue_md5_hex (en_upload (s3_engine env)) b"
      by (auto simp: holds_body_def)
    then have "visible (obj_etag ob)" using assms(4) by (simp add: etags_visible_def)
    from etag_header_ok [OF assms(3) this, of name]
    show "case ok_with_header (s3_lib env) name (quoted (obj_etag ob)) of
        Inl _ \<Rightarrow> lookup (srv_db s') = lookup (srv_db s) | Inr r \<Rightarrow> rs_status r < 300" by auto
  qed
  then show ?thesis
    using copy_safe [OF ok assms(3)] by (simp add: dispatch_put_def Let_def split: option.splits sum.splits)
qed

lemma dispatch_object_safe:
  assumes "db_ok (srv_db s)" and "0 < ue_chunk_size (en_upload (s3_engine env))"
    and "crates_ok (s3_lib env)" and "etags_visible env"
  shows "error_safe s (dispatch_object env meth bucket key q headers frames s)"
proof -
  have init: "error_safe s (answer_with f (case create_multipart t u bucket key m s of (r, s1) \<Rightarrow> (r, s1, [])))"
    if "\<And>x. \<exists>r. f x = Inr r \<and> rs_status r < 300" for f t u m
    using create_multipart_lookup [OF assms(1)] that
    by (intro error_safe_answer_with_ok) (auto split: prod.splits)
  have "\<exists>r. xml_response (s3_lib env) doc = Inr r \<and> rs_status r < 300" for doc
    using xml_response_ok [OF assms(3), of doc] by auto
  note init = init [OF this]
  have del: "error_safe s (answer_with (\<lambda>_. Inr (empty_response 204)) (engine_delete_object t bucket key c s))" for t c
    using engine_delete_object_Inl [OF assms(1)] by (intro error_safe_answer_with_ok) auto
  show ?thesis
    using init del dispatch_upload_safe [OF assms] dispatch_put_safe [OF assms] multi_delete_safe [OF assms(3)]
    by (simp add: dispatch_object_def Let_def split: option.splits sum.splits)
qed

lemma dispatch_safe:
  assumes "db_ok (srv_db s)" and "0 < ue_chunk_size (en_upload (s3_engine env))"
    and "crates_ok (s3_lib env)" and "etags_visible env" and "dispatch env rq frames s = Some a"
  shows "error_safe s a"
  using assms(5) dispatch_bucket_safe [OF assms(1,3)] dispatch_object_safe [OF assms(1-4)]
  by (auto simp: dispatch_def split: sum.splits if_splits option.splits)

section \<open>\<open>handle\<close>\<close>

lemma s3_error_status: "300 \<le> status_for e"
proof -
  have "list_all (\<lambda>c. 300 \<le> snd c) s3_errors" by (simp add: s3_errors_def)
  then show ?thesis
    by (auto simp: status_for_def find_Some_iff list_all_iff split: option.splits) (metis nth_mem snd_conv)
qed

lemma apply_cors_status [simp]: "rs_status (apply_cors env rq d r) = rs_status r"
  by (simp add: apply_cors_def Let_def split: option.splits)

lemma error_response_status [simp]: "rs_status (error_response lib status code message path request_id) = status"
  by (simp add: error_response_def empty_response_def Let_def)

lemma respond_server: "respond env rq a = (r, s', sp) \<Longrightarrow> fst (snd a) = s' \<and> snd (snd a) = sp"
  by (cases a) (simp add: respond_def Let_def)

lemma respond_status:
  "rs_status (fst (respond env rq a)) = (case fst a of Inl e \<Rightarrow> status_for e | Inr r \<Rightarrow> rs_status r)"
  by (cases a; cases "fst a") (simp_all add: respond_def Let_def)

text \<open>How a request that is answered was answered.\<close>

lemma handle_cases:
  assumes "handle env rq frames s = Some (r, s', sp)"
  obtains (refused) "s' = s" "sp = []" "400 \<le> rs_status r"
  | (served) payload_hash body a where "hash_cors_body env rq frames = Inr (payload_hash, body)"
      "rq_method rq = OPTIONS \<or> verify_with_payload_hash (s3_crypto env) (s3_auth env) (s3_now env) rq payload_hash = Inr ()"
      "rq_method rq = OPTIONS \<or> \<not> is_streaming_payload (rq_headers rq)"
      "dispatch env rq body s = Some a" "(r, s', sp) = respond env rq a"
proof -
  have refusal: "failure env rq n code message s = (r, s', sp) \<Longrightarrow> 400 \<le> n \<Longrightarrow> thesis" for n code message
    using refused by (auto simp: failure_def)
  show thesis
  proof (cases "hash_cors_body env rq frames")
    case (Inl e)
    with assms show thesis by (auto simp: handle_def intro: refusal)
  next
    case (Inr x)
    obtain ph body where x: "x = (ph, body)" by (cases x)
    show thesis
      using assms Inr x refusal served [of ph body]
      by (cases "rq_method rq = OPTIONS";
          cases "verify_with_payload_hash (s3_crypto env) (s3_auth env) (s3_now env) rq ph";
          cases "is_streaming_payload (rq_headers rq)") (auto simp: handle_def)
  qed
qed

lemma hash_cors_body_cases:
  assumes "hash_cors_body env rq frames = Inr (payload_hash, body)"
  shows "(payload_hash = None \<and> body = frames) \<or> is_cors_put rq"
  using assms by (auto simp: hash_cors_body_def split: if_splits)

lemma handle_total:
  assumes "served (srv_db s)" and "0 < ue_chunk_size (en_upload (s3_engine env))" and "query_valid (rq_query rq)"
  shows "\<exists>r s' spawned. handle env rq frames s = Some (r, s', spawned) \<and> served (srv_db s')"
proof -
  have "handle env rq frames s \<noteq> None"
    using dispatch_total [OF assms(1,3), of env]
    by (simp add: handle_def del: not_None_eq split: sum.splits prod.splits)
  then obtain r s' sp where h: "handle env rq frames s = Some (r, s', sp)" by (metis not_None_eq prod_cases3)
  then have "served (srv_db s')"
  proof (cases rule: handle_cases)
    case (served payload_hash body a)
    from respond_server [OF served(5) [symmetric]] have "fst (snd a) = s'" by simp
    with dispatch_keeps [OF assms(2) served(4)] assms(1) show ?thesis by (simp add: keeps_served_def)
  qed (use assms(1) in simp)
  with h show ?thesis by blast
qed

lemma handle_verified:
  assumes "handle env rq frames s = Some (r, s', spawned)" and "s' \<noteq> s \<or> spawned \<noteq> []"
  shows "rq_method rq \<notin> {GET, HEAD, OPTIONS} \<and> \<not> is_streaming_payload (rq_headers rq)
    \<and> (\<exists>payload_hash body. hash_cors_body env rq frames = Inr (payload_hash, body)
         \<and> verify_with_payload_hash (s3_crypto env) (s3_auth env) (s3_now env) rq payload_hash = Inr ())"
  using assms(1)
proof (cases rule: handle_cases)
  case refused
  with assms(2) show ?thesis by blast
next
  case (served payload_hash body a)
  from respond_server [OF served(5) [symmetric]] assms(2) have "\<not> unchanged s a" by (simp add: unchanged_def)
  with dispatch_reads [OF served(4)] have m: "rq_method rq \<notin> {GET, HEAD, OPTIONS}" by blast
  with served(1-3) show ?thesis by auto
qed

end
