(* ===== verification/S3_Response.thy ===== *)
theory S3_Response
  imports S3_Effects Engine_Read Complete_Reads
begin

text \<open>
  The answer to a read of an object: the ranges a request can ask for, the headers it is
  answered with and the body that is sent.
\<close>

section \<open>Ranges\<close>

text \<open>
  The byte ranges of RFC 9110: from an offset to the end, from an offset to an offset, the last
  bytes. \<open>range_meaning\<close> says which bytes of an object of \<open>sz\<close> bytes a range selects. A header
  lists one or more of them.
\<close>

datatype byte_range = From int | Between int int | Last int

fun show_spec :: "byte_range \<Rightarrow> str" where
  "show_spec (From a) = show_int a @ [45]"
| "show_spec (Between a b) = show_int a @ [45] @ show_int b"
| "show_spec (Last n) = [45] @ show_int n"

definition show_ranges :: "byte_range list \<Rightarrow> str" where
  "show_ranges ws = lit ''bytes='' @ join [44] (map show_spec ws)"

abbreviation show_range :: "byte_range \<Rightarrow> str" where
  "show_range w \<equiv> lit ''bytes='' @ show_spec w"

fun range_meaning :: "byte_range \<Rightarrow> int \<Rightarrow> error + (int \<times> int)" where
  "range_meaning (From a) sz = (if a < sz then Inr (a, sz - 1) else Inl InvalidRange)"
| "range_meaning (Between a b) sz = (if a < sz \<and> a \<le> b then Inr (a, min b (sz - 1)) else Inl InvalidRange)"
| "range_meaning (Last n) sz = (if 0 < n then Inr (max 0 (sz - n), sz - 1) else Inl InvalidRange)"

text \<open>The numbers of a range are natural numbers of any size.\<close>

fun range_numbers :: "byte_range \<Rightarrow> int list" where
  "range_numbers (From a) = [a]"
| "range_numbers (Between a b) = [a, b]"
| "range_numbers (Last n) = [n]"

definition range_wf :: "byte_range \<Rightarrow> bool" where
  "range_wf w \<longleftrightarrow> (\<forall>n \<in> set (range_numbers w). 0 \<le> n)"

definition range_fits :: "byte_range \<Rightarrow> bool" where
  "range_fits w \<longleftrightarrow> (\<forall>n \<in> set (range_numbers w). n \<le> i64_max)"

lemma parse_offset_show [simp]: "0 \<le> a \<Longrightarrow> a \<le> i64_max \<Longrightarrow> parse_offset (show_int a) = Inr a"
  by (simp add: parse_offset_def parse_i64_show_int i64_defs)

lemma show_int_digits: "0 \<le> a \<Longrightarrow> list_all is_digit (show_int a) \<and> show_int a \<noteq> []"
  using show_nat_digits [of "nat a"] by (simp add: show_int_def)

lemma show_int_no:
  assumes "0 \<le> a" and "\<not> is_digit c"
  shows "c \<notin> set (show_int a)"
  using show_int_digits [OF assms(1)] assms(2) by (auto simp: list_all_iff)

lemma split_once_here: "c \<notin> set a \<Longrightarrow> split_once c (a @ c # b) = Some (a, b)"
  by (simp add: split_once_Some_iff)

lemma parse_range_value:
  assumes "44 \<notin> set (start @ stop)" and "45 \<notin> set start" and "0 < sz"
  shows "parse_range (Some (lit ''bytes='' @ start @ [45] @ stop)) sz =
    (if start = []
     then bind_res (parse_offset stop) (\<lambda>n.
            if n \<le> 0 then Inl InvalidRange else Inr (saturating_sub sz n, sz - 1, True))
     else bind_res (parse_offset start) (\<lambda>start.
            if start < 0 \<or> sz \<le> start then Inl InvalidRange
            else bind_res (if stop = [] then Inr (sz - 1) else map_sum id (\<lambda>n. min n (sz - 1)) (parse_offset stop))
                   (\<lambda>end. if end < start then Inl InvalidRange else Inr (start, end, True))))"
proof -
  have "strip_prefix (lit ''bytes='') (lit ''bytes='' @ start @ [45] @ stop) = Some (start @ [45] @ stop)"
    by (simp only: strip_prefix_Some_iff)
  moreover have "split_once 45 (start @ [45] @ stop) = Some (start, stop)"
    using assms(2) by (simp add: split_once_here)
  ultimately show ?thesis
    using assms by (simp add: parse_range_def del: lit_simps)
qed

lemma parse_range_standard:
  assumes "range_wf w" and "range_fits w" and "0 < sz" and "sz \<le> i64_max" and "\<And>n. w = Last n \<Longrightarrow> n \<le> sz"
  shows "parse_range (Some (show_range w)) sz = map_sum id (\<lambda>(start, end). (start, end, True)) (range_meaning w sz)"
proof -
  note wf = assms(1,2) [unfolded range_wf_def range_fits_def]
  have no: "44 \<notin> set (show_int a)" "45 \<notin> set (show_int a)" "show_int a \<noteq> []" if "0 \<le> a" for a
    using show_int_no [OF that] show_int_digits [OF that] by (auto simp: is_digit_def)
  show ?thesis
  proof (cases w)
    case (From a)
    with wf no [of a] parse_range_value [of "show_int a" "[]" sz] assms(3) show ?thesis
      by (simp del: lit_simps)
  next
    case (Between a b)
    with wf no [of a] no [of b] parse_range_value [of "show_int a" "show_int b" sz] assms(3) show ?thesis
      by (auto simp del: lit_simps)
  next
    case (Last n)
    with assms(5) have "n \<le> sz" by simp
    with Last wf assms(3,4) no [of n] parse_range_value [of "[]" "show_int n" sz] show ?thesis
      by (simp del: lit_simps add: saturating_sub_def i64_defs)
  qed
qed

text \<open>A suffix longer than the object: the range the code computes starts before the object.\<close>

lemma long_suffix_negative:
  assumes "0 < sz" and "sz < n" and "n \<le> i64_max"
  shows "parse_range (Some (show_range (Last n))) sz = Inr (sz - n, sz - 1, True) \<and> sz - n < 0
    \<and> range_meaning (Last n) sz = Inr (0, sz - 1)"
proof -
  have n: "0 \<le> n" using assms by simp
  have no: "44 \<notin> set (show_int n)" "45 \<notin> set (show_int n)" "show_int n \<noteq> []"
    using show_int_no [OF n] show_int_digits [OF n] by (auto simp: is_digit_def)
  with assms n parse_range_value [of "[]" "show_int n" sz] show ?thesis
    by (simp del: lit_simps add: saturating_sub_def i64_defs)
qed

text \<open>Numbers that do not fit in an \<open>i64\<close>, and headers with more than one range, are refused.\<close>

lemma parse_i64_large: "i64_max < a \<Longrightarrow> parse_i64 (show_int a) = None"
proof -
  assume a: "i64_max < a"
  then have pos: "\<not> a < 0" by (simp add: i64_defs)
  obtain c cs where s: "show_nat (nat a) = c # cs" "is_digit c"
    using show_nat_digits [of "nat a"] by (cases "show_nat (nat a)") auto
  then have "parse_digits (c # cs) = Some (nat a)" using parse_digits_show_nat [of "nat a"] by simp
  with s a pos show ?thesis by (auto simp: parse_i64_def parse_int_def show_int_def i64_defs is_digit_def)
qed

lemma parse_offset_large [simp]: "i64_max < a \<Longrightarrow> parse_offset (show_int a) = Inl InvalidRange"
  by (simp add: parse_offset_def parse_i64_large)

lemma parse_range_large:
  assumes "range_wf w" and "\<not> range_fits w" and "0 < sz"
  shows "parse_range (Some (show_range w)) sz = Inl InvalidRange"
proof -
  note wf = assms(1,2) [unfolded range_wf_def range_fits_def]
  have no: "44 \<notin> set (show_int a)" "45 \<notin> set (show_int a)" "show_int a \<noteq> []" if "0 \<le> a" for a
    using show_int_no [OF that] show_int_digits [OF that] by (auto simp: is_digit_def)
  show ?thesis
  proof (cases w)
    case (From a)
    with wf no [of a] parse_range_value [of "show_int a" "[]" sz] assms(3) show ?thesis
      by (simp del: lit_simps)
  next
    case (Between a b)
    have "parse_offset (show_int a) = Inl InvalidRange \<or> parse_offset (show_int a) = Inr a \<and> i64_max < b"
      using Between wf by (cases "a \<le> i64_max") auto
    with Between wf no [of a] no [of b] parse_range_value [of "show_int a" "show_int b" sz] assms(3) show ?thesis
      by (auto simp del: lit_simps)
  next
    case (Last n)
    with wf no [of n] parse_range_value [of "[]" "show_int n" sz] assms(3) show ?thesis
      by (simp del: lit_simps)
  qed
qed

lemma parse_range_many:
  assumes "1 < length ws" and "0 < sz"
  shows "parse_range (Some (show_ranges ws)) sz = Inl InvalidRange"
proof -
  obtain v w vs where "ws = v # w # vs" using assms(1) by (cases ws rule: list.exhaust; cases "tl ws") auto
  then have "44 \<in> set (join [44] (map show_spec ws))" by simp
  moreover have "strip_prefix (lit ''bytes='') (show_ranges ws) = Some (join [44] (map show_spec ws))"
    unfolding show_ranges_def by (simp only: strip_prefix_Some_iff)
  ultimately show ?thesis using assms(2) by (simp add: parse_range_def del: lit_simps)
qed

lemma parse_i64_bounds: "parse_i64 s = Some n \<Longrightarrow> i64_min \<le> n \<and> n \<le> i64_max"
  by (auto simp: parse_i64_def parse_int_def Let_def split: option.splits if_splits)

lemma map_sum_Inr_iff: "map_sum f g x = Inr y \<longleftrightarrow> (\<exists>z. x = Inr z \<and> y = g z)"
  by (cases x) auto

lemma parse_range_bounds:
  assumes "parse_range value sz = Inr (start, end, partial)" and "0 \<le> sz"
  shows "end < sz \<and> (sz = 0 \<longrightarrow> start = 0 \<and> end = -1 \<and> \<not> partial) \<and> (0 < sz \<and> sz \<le> i64_max \<longrightarrow> start \<le> end)
    \<and> (start < 0 \<and> sz \<le> i64_max \<longrightarrow> end = sz - 1 \<and> partial \<and> sz - i64_max \<le> start)"
proof -
  have "sz - i64_max \<le> saturating_sub sz n" if "parse_offset v = Inr n" "sz \<le> i64_max" for v n
    using parse_i64_bounds [of v n] that assms(2)
    by (auto simp: parse_offset_def saturating_sub_def saturate_def i64_defs split: option.splits)
  then show ?thesis
    using assms
    by (auto simp: parse_range_def bind_res_Inr_iff map_sum_Inr_iff saturating_sub_def saturate_def i64_defs simp del: lit_simps
        split: if_splits option.splits prod.splits)
qed

section \<open>Headers\<close>

lemma map_of_insert_header:
  "map_of (insert_header lib name v hs) n = (if n = name \<and> hl_value_ok lib v then Some v else map_of hs n)"
  by (simp add: insert_header_def)

lemma map_of_insert_some: "n \<noteq> name \<Longrightarrow> map_of (insert_some lib name v hs) n = map_of hs n"
  by (simp add: insert_some_def map_of_insert_header split: option.splits)

lemma to_ascii_lowercase_append: "to_ascii_lowercase (a @ b) = to_ascii_lowercase a @ to_ascii_lowercase b"
  by (simp add: to_ascii_lowercase_def)

lemma map_of_user_headers:
  assumes "crates_ok lib" and "\<not> prefix (to_ascii_lowercase p) n"
  shows "map_of (fold (\<lambda>(key, v). insert_dynamic_header lib (p @ key) v) m hs) n = map_of hs n"
proof (induction m arbitrary: hs)
  case (Cons e m)
  obtain key v where e: "e = (key, v)" by (cases e)
  have "n \<noteq> name" if "hl_name lib (p @ key) = Some name" for name
  proof -
    have "name = to_ascii_lowercase p @ to_ascii_lowercase key"
      using assms(1) that unfolding crates_ok_def by (metis to_ascii_lowercase_append)
    with assms(2) show ?thesis by auto
  qed
  then have "map_of (insert_dynamic_header lib (p @ key) v hs) n = map_of hs n"
    by (auto simp: insert_dynamic_header_def split: option.splits)
  with Cons e show ?case by simp
qed simp

lemma visible_digits: "list_all is_digit s \<Longrightarrow> visible s"
  by (auto simp: visible_def list_all_iff is_digit_def)

lemma visible_show_int [simp]: "visible (show_int i)"
  using show_nat_digits visible_digits by (simp add: show_int_def)

lemma object_headers_get:
  assumes "crates_ok lib"
  shows "map_of (object_headers lib ob len start end partial) (lit ''content-length'') = Some (show_int len)"
    and "map_of (object_headers lib ob len start end partial) (lit ''content-range'') =
      (if partial then Some (lit ''bytes '' @ show_int start @ lit ''-'' @ show_int end @ lit ''/'' @ show_int (obj_size ob))
       else None)"
    and "visible (obj_etag ob) \<Longrightarrow>
      map_of (object_headers lib ob len start end partial) (lit ''etag'') = Some (quoted (obj_etag ob))"
proof -
  have pre: "to_ascii_lowercase (lit ''x-amz-meta-'') = lit ''x-amz-meta-''"
    by (simp add: to_ascii_lowercase_def ascii_lower_def)
  have no: "\<not> prefix (to_ascii_lowercase (lit ''x-amz-meta-'')) (lit ''content-length'')"
    "\<not> prefix (to_ascii_lowercase (lit ''x-amz-meta-'')) (lit ''content-range'')"
    "\<not> prefix (to_ascii_lowercase (lit ''x-amz-meta-'')) (lit ''etag'')"
    unfolding pre by simp_all
  have ok: "hl_value_ok lib v" if "visible v" for v using assms that by (simp add: crates_ok_def)
  note user = map_of_user_headers [OF assms no(1)] map_of_user_headers [OF assms no(2)] map_of_user_headers [OF assms no(3)]
  have cr: "visible (lit ''bytes '' @ show_int start @ lit ''-'' @ show_int end @ lit ''/'' @ show_int (obj_size ob))"
    by simp
  have q: "visible (obj_etag ob) \<Longrightarrow> visible (quoted (obj_etag ob))" by (simp add: quoted_def)
  show "map_of (object_headers lib ob len start end partial) (lit ''content-length'') = Some (show_int len)"
    unfolding object_headers_def Let_def
    by (simp add: map_of_insert_header if_distrib [of "\<lambda>h. map_of h _"] user(1) [simplified] map_of_insert_some ok)
  show "map_of (object_headers lib ob len start end partial) (lit ''content-range'') =
      (if partial then Some (lit ''bytes '' @ show_int start @ lit ''-'' @ show_int end @ lit ''/'' @ show_int (obj_size ob))
       else None)"
    unfolding object_headers_def Let_def
    by (simp add: map_of_insert_header user(2) [simplified] map_of_insert_some ok)
  show "map_of (object_headers lib ob len start end partial) (lit ''etag'') = Some (quoted (obj_etag ob))"
    if "visible (obj_etag ob)"
    unfolding object_headers_def Let_def
    by (simp add: map_of_insert_header if_distrib [of "\<lambda>h. map_of h _"] user(3) [simplified] map_of_insert_some ok q that)
qed

section \<open>The response\<close>

definition answered :: "s3_env \<Rightarrow> object_record \<Rightarrow> bool \<Rightarrow> int \<Rightarrow> int \<Rightarrow> bool \<Rightarrow> response \<Rightarrow> bool" where
  "answered env ob head_only start end partial r \<longleftrightarrow>
     rs_status r = (if partial then 206 else 200)
     \<and> map_of (rs_headers r) (lit ''content-length'') = Some (show_int (end - start + 1))
     \<and> map_of (rs_headers r) (lit ''content-range'') =
         (if partial then Some (lit ''bytes '' @ show_int start @ lit ''-'' @ show_int end @ lit ''/'' @ show_int (obj_size ob))
          else None)
     \<and> (visible (obj_etag ob) \<longrightarrow> map_of (rs_headers r) (lit ''etag'') = Some (quoted (obj_etag ob)))
     \<and> rs_body r = (if head_only \<or> obj_size ob = 0 then Bytes []
                    else Stream (range_stream (s3_read env) (s3_gate env) (obj_blocks ob) start end))"

lemma s3_get_object_Inr:
  assumes get: "s3_get_object env bucket key headers head_only d = Inr r" and ok: "db_ok d" and "crates_ok (s3_lib env)"
  obtains ob start "end" partial where "lookup d (bucket, key) = Some ob"
    "parse_range (header_text headers (lit ''range'')) (obj_size ob) = Inr (start, end, partial)"
    "0 \<le> obj_size ob" "obj_size ob \<le> i64_max" "contiguous 0 (obj_blocks ob)" "total_size (obj_blocks ob) = obj_size ob"
    "answered env ob head_only start end partial r"
proof -
  from get obtain ob start "end" partial where g: "engine_get_object bucket key d = Inr ob"
    "parse_range (header_text headers (lit ''range'')) (obj_size ob) = Inr (start, end, partial)"
    and r: "r = (let hs = object_headers (s3_lib env) ob (saturating_add (saturating_sub end start) 1) start end partial in
        \<lparr>rs_status = (if partial then 206 else 200),
          rs_headers = (if obj_size ob = 0 then set_header (lit ''content-length'') (lit ''0'') hs else hs),
          rs_body = (if head_only \<or> obj_size ob = 0 then Bytes []
                     else Stream (range_stream (s3_read env) (s3_gate env) (obj_blocks ob) start end))\<rparr>)"
    by (auto simp: s3_get_object_def bind_res_Inr_iff Let_def simp del: lit_simps split: prod.splits)
  from g(1) have found: "get_object bucket key d = Inr (Some ob)"
    by (auto simp: engine_get_object_def bind_res_Inr_iff split: option.splits)
  then have lk: "lookup d (bucket, key) = Some ob" by (simp add: lookup_def)
  from get_object_source_valid [OF ok found] have v: "contiguous 0 (obj_blocks ob)"
    "total_size (obj_blocks ob) = obj_size ob" "obj_size ob \<le> i64_max" by (simp_all add: source_valid_def)
  have nn: "0 \<le> obj_size ob" using contiguous_total_nonneg [OF v(1)] v(2) by simp
  note bounds = parse_range_bounds [OF g(2) nn]
  have e: "-1 \<le> end - start" "end - start < i64_max" using bounds v(3) nn by (auto simp: i64_defs)
  then have "saturating_sub end start = end - start" "saturating_add (end - start) 1 = end - start + 1"
    by (simp_all add: saturating_sub_def saturating_add_def i64_defs)
  moreover have "show_int (end - start + 1) = lit ''0''" if "obj_size ob = 0"
    using that bounds by (simp add: show_int_def show_nat.simps)
  ultimately have "answered env ob head_only start end partial r"
    using object_headers_get [OF assms(3), of ob "end - start + 1" start "end" partial] bounds
    by (auto simp: answered_def r Let_def simp del: lit_simps)
  with that [OF lk g(2) nn v(3,1,2)] show thesis by blast
qed

lemma total_size_pieces:
  "list_all2 (\<lambda>b c. blk_size b = int (length c)) bs cs \<Longrightarrow> total_size bs = int (length (concat cs))"
  by (induction rule: list_all2_induct) simp_all

text \<open>
  The body of an answer: the bytes of the range that are in the object. They are as many as the
  headers say, but for a range that starts before the object.
\<close>

lemma get_object_answer:
  assumes "s3_get_object env bucket key headers False d = Inr r" and "db_ok d" and "crates_ok (s3_lib env)"
    and "lookup d (bucket, key) = Some ob"
    and "parse_range (header_text headers (lit ''range'')) (obj_size ob) = Inr (start, end, partial)"
    and "s3_read env = download_stream tg api gram"
    and "list_all2 (\<lambda>b c. blk_size b = int (length c)) (obj_blocks ob) cs"
  shows "answered env ob False start end partial r
    \<and> (0 \<le> start \<longrightarrow> end - start + 1 = int (length (slice (max 0 start) end (concat cs))))
    \<and> (case rs_body r of
         Bytes b \<Rightarrow> b = [] \<and> concat cs = []
       | Stream st \<Rightarrow>
           ((\<forall>(b, c) \<in> set (zip (obj_blocks ob) cs). \<forall>s e. telegram_faithful api gram b c s e)
              \<longrightarrow> delivers st (slice (max 0 start) end (concat cs)))
           \<and> ((\<forall>(b, c) \<in> set (zip (obj_blocks ob) cs). \<forall>s e. telegram_serves tg api gram b c s e)
              \<and> (\<forall>n. \<exists>w. s3_gate env n = Inr w)
              \<longrightarrow> collect st = (slice (max 0 start) end (concat cs), None)))"
  using assms(1-3)
proof (cases rule: s3_get_object_Inr)
  case (1 ob' start' end' partial')
  with assms(4,5) have same: "ob' = ob" "start' = start" "end' = end" "partial' = partial" by simp_all
  have a: "answered env ob False start end partial r" and sz: "obj_size ob = int (length (concat cs))"
    using 1(6,7) same total_size_pieces [OF assms(7)] by simp_all
  have v: "contiguous 0 (obj_blocks ob)" "0 \<le> obj_size ob" "obj_size ob \<le> i64_max" using 1 same by simp_all
  note bounds = parse_range_bounds [OF assms(5) v(2)]
  have len: "end - start + 1 = int (length (slice (max 0 start) end (concat cs)))" if s: "0 \<le> start"
  proof (cases "concat cs = []")
    case True
    with bounds sz show ?thesis by (simp add: slice_def)
  next
    case False
    then have "0 < length (concat cs)" by (simp del: length_concat)
    with bounds sz v(3) have "start \<le> end" "end < int (length (concat cs))" by (auto simp del: length_concat)
    from length_slice [OF s this] s this show ?thesis by simp
  qed
  have ends: "start \<le> end" if "obj_size ob \<noteq> 0" using bounds that v by auto
  have body: "delivers (range_stream (download_stream tg api gram) (s3_gate env) (obj_blocks ob) start end)
      (slice (max 0 start) end (concat cs))"
    if "obj_size ob \<noteq> 0" "\<forall>(b, c) \<in> set (zip (obj_blocks ob) cs). \<forall>s e. telegram_faithful api gram b c s e"
    using telegram.range_stream_from [OF v(1) assms(7) that(2) ends [OF that(1)], of tg "s3_gate env"]
    by (simp add: wanted_from_slice)
  have whole: "collect (range_stream (download_stream tg api gram) (s3_gate env) (obj_blocks ob) start end)
      = (slice (max 0 start) end (concat cs), None)"
    if "obj_size ob \<noteq> 0" "\<forall>(b, c) \<in> set (zip (obj_blocks ob) cs). \<forall>s e. telegram_serves tg api gram b c s e"
      "\<forall>n. \<exists>w. s3_gate env n = Inr w"
    using telegram_serves.range_stream_complete [OF v(1) assms(7) that(2) ends [OF that(1)]] that(3) by blast
  have "rs_body r = (if obj_size ob = 0 then Bytes []
      else Stream (range_stream (download_stream tg api gram) (s3_gate env) (obj_blocks ob) start end))"
    using a by (simp add: answered_def assms(6))
  moreover have "concat cs = []" if "obj_size ob = 0" using sz that by (simp del: length_concat)
  ultimately show ?thesis using a len body whole by simp
qed

lemma long_suffix_response:
  assumes "s3_get_object env bucket key headers head_only d = Inr r" and "db_ok d" and "crates_ok (s3_lib env)"
    and "header_text headers (lit ''range'') = Some (show_range (Last n))" and "n \<le> i64_max"
    and "lookup d (bucket, key) = Some ob" and "0 < obj_size ob" and "obj_size ob < n"
  shows "map_of (rs_headers r) (lit ''content-length'') = Some (show_int n)
    \<and> map_of (rs_headers r) (lit ''content-range'') = Some (lit ''bytes '' @ show_int (obj_size ob - n) @ lit ''-''
        @ show_int (obj_size ob - 1) @ lit ''/'' @ show_int (obj_size ob))"
proof -
  have "get_object bucket key d = Inr (Some ob)" using assms(6) by (auto simp: lookup_def split: sum.splits)
  then have "engine_get_object bucket key d = Inr ob"
    using assms(2,6) get_object_validates [OF assms(2)] engine_get_object_eq [OF assms(2), of bucket key] stored_bucket [OF assms(2,6)]
    by simp
  moreover have "parse_range (Some (show_range (Last n))) (obj_size ob) = Inr (obj_size ob - n, obj_size ob - 1, True)"
    using long_suffix_negative [OF assms(7,8,5)] by blast
  moreover have "saturating_add (saturating_sub (obj_size ob - 1) (obj_size ob - n)) 1 = n"
    using assms(5,7,8) by (simp add: saturating_sub_def saturating_add_def i64_defs)
  ultimately obtain body where "r = \<lparr>rs_status = 206,
      rs_headers = object_headers (s3_lib env) ob n (obj_size ob - n) (obj_size ob - 1) True, rs_body = body\<rparr>"
    using assms(1,4,7)
    by (auto simp: s3_get_object_def bind_res_Inr_iff Let_def simp del: lit_simps show_spec.simps split: if_splits)
  then show ?thesis
    using object_headers_get(1,2) [OF assms(3), of ob n "obj_size ob - n" "obj_size ob - 1" True] by simp
qed

section \<open>A put and a get\<close>

text \<open>
  A plain \<open>PutObject\<close> and a plain \<open>GetObject\<close>: no upload, copy or CORS request, and no range or
  condition on the read.
\<close>

definition plain_put :: "http_request \<Rightarrow> bool" where
  "plain_put rq \<longleftrightarrow> rq_method rq = PUT \<and> query_value (rq_query rq) (lit ''uploadId'') = None
     \<and> header_text (rq_headers rq) (lit ''x-amz-copy-source'') = None \<and> \<not> is_cors_put rq"

definition plain_get :: "http_request \<Rightarrow> bool" where
  "plain_get rq \<longleftrightarrow> rq_method rq = GET \<and> query_value (rq_query rq) (lit ''uploadId'') = None
     \<and> list_all (\<lambda>name. header_text (rq_headers rq) name = None)
         [lit ''range'', lit ''if-match'', lit ''if-none-match'', lit ''if-unmodified-since'', lit ''if-modified-since'']"

lemma plain_put_stored:
  assumes "plain_put rq" and "handle env rq frames s = Some (r, s', sp)" and "rs_status r = 200"
    and "parse_target (s3_lib env) (rq_path rq) (rq_headers rq) (s3_public_host env)
       = Inr \<lparr>tgt_bucket = Some bucket, tgt_key = Some key\<rparr>"
  shows "\<exists>ob metadata len c. put_object (s3_engine env) (s3_uuid env) bucket key frames metadata len c s = (Inr ob, s', sp)"
  using assms(2)
proof (cases rule: handle_cases)
  case refused
  with assms(3) show ?thesis by simp
next
  case (served ph body a)
  have put: "rq_method rq = PUT" "query_value (rq_query rq) (lit ''uploadId'') = None"
    "header_text (rq_headers rq) (lit ''x-amz-copy-source'') = None" "body = frames"
    using assms(1) hash_cors_body_cases [OF served(1)] by (auto simp: plain_put_def)
  obtain x where a: "a = (x, s', sp)" using respond_server [OF served(5) [symmetric]] by (cases a) simp
  have "respond env rq (x, s', sp) = (r, s', sp)" using served(5) a by simp
  then have st: "rs_status r = (case x of Inl e \<Rightarrow> status_for e | Inr r \<Rightarrow> rs_status r)"
    using respond_status [of env rq "(x, s', sp)"] by simp
  have "x \<noteq> Inl e" for e using st assms(3) s3_error_status [of e] by auto
  then obtain y where y: "x = Inr y" by (cases x) auto
  with served(4) assms(4) put a have "dispatch_object env PUT bucket key (rq_query rq) (rq_headers rq) frames s = (Inr y, s', sp)"
    by (simp add: dispatch_def)
  with put have "dispatch_put env bucket key (rq_headers rq) frames s = (Inr y, s', sp)"
    by (auto simp: dispatch_object_def reply_def split: if_splits)
  then obtain metadata len c f where
    "answer_with f (put_object (s3_engine env) (s3_uuid env) bucket key frames metadata len c s) = (Inr y, s', sp)"
    using put(3) by (auto simp: dispatch_put_def Let_def reply_def simp del: lit_simps split: sum.splits)
  then show ?thesis by (fastforce simp: answer_with_def bind_res_Inr_iff split: prod.splits)
qed

lemma apply_cors_body [simp]: "rs_body (apply_cors env rq d r) = rs_body r"
  by (simp add: apply_cors_def Let_def split: option.splits)

lemma apply_cors_header:
  assumes "\<not> prefix (lit ''access-control-'') n" and "n \<noteq> lit ''vary''"
  shows "map_of (rs_headers (apply_cors env rq d r)) n = map_of (rs_headers r) n"
proof -
  have "n \<noteq> lit ''access-control-allow-origin''" "n \<noteq> lit ''access-control-allow-methods''"
    "n \<noteq> lit ''access-control-allow-headers''" "n \<noteq> lit ''access-control-expose-headers''"
    "n \<noteq> lit ''access-control-max-age''"
    using assms(1) by auto
  with assms(2) show ?thesis
    by (simp add: apply_cors_def Let_def map_of_insert_header del: lit_simps split: option.splits)
qed

lemma plain_get_answered:
  assumes "plain_get rq" and "verify_with_payload_hash (s3_crypto env) (s3_auth env) (s3_now env) rq None = Inr ()"
    and "\<not> is_streaming_payload (rq_headers rq)" and "s3_admission env = Inr ()"
    and "parse_target (s3_lib env) (rq_path rq) (rq_headers rq) (s3_public_host env)
       = Inr \<lparr>tgt_bucket = Some bucket, tgt_key = Some key\<rparr>"
    and "engine_get_object bucket key (srv_db s) = Inr ob"
  shows "\<exists>r. s3_get_object env bucket key (rq_headers rq) False (srv_db s) = Inr r
    \<and> handle env rq frames s = Some (apply_cors env rq (srv_db s) r, s, [])"
proof -
  let ?hs = "rq_headers rq"
  have g: "rq_method rq = GET" "query_value (rq_query rq) (lit ''uploadId'') = None"
    "header_text ?hs (lit ''range'') = None" "header_text ?hs (lit ''if-match'') = None"
    "header_text ?hs (lit ''if-none-match'') = None" "header_text ?hs (lit ''if-unmodified-since'') = None"
    "header_text ?hs (lit ''if-modified-since'') = None"
    using assms(1) by (simp_all add: plain_get_def del: lit_simps)
  have cond: "check_conditions (s3_lib env) ob ?hs = Inr ()"
    using g by (simp add: check_conditions_def since_check_def Let_def del: lit_simps)
  have "parse_range None (obj_size ob) = Inr (0, if obj_size ob = 0 then -1 else obj_size ob - 1, False)"
    by (simp add: parse_range_def)
  then have "\<exists>r. s3_get_object env bucket key ?hs False (srv_db s) = Inr r"
    using assms(4,6) cond g(3) by (simp add: s3_get_object_def Let_def del: lit_simps)
  then obtain r where r: "s3_get_object env bucket key ?hs False (srv_db s) = Inr r" ..
  have "bucket_exists bucket (srv_db s)"
    using assms(6) by (auto simp: engine_get_object_def bind_res_Inr_iff require_bucket_def split: if_splits)
  with assms(5) g(1,2) r have "dispatch env rq frames s = Some (reply (Inr r) s)"
    by (simp add: dispatch_def dispatch_object_def del: lit_simps)
  with assms(2,3) g(1) r show ?thesis
    by (simp add: handle_def hash_cors_body_def is_cors_put_def respond_def reply_def del: lit_simps)
qed

end
