(* ===== verification/S3_Types.thy ===== *)
theory S3_Types
  imports S3_Response
begin

text \<open>
  The kinds of response the S3 interface has, as an inductive predicate: an empty success, an XML
  document, the bytes of an object, "not modified" and an error document. Every handler's response
  is of one of the first three kinds, the change of an error into a response gives one of the last
  two, and the CORS headers that are added change no kind.
\<close>

section \<open>Headers\<close>

definition one_each :: "header_map \<Rightarrow> bool" where
  "one_each hs \<longleftrightarrow> distinct (map fst hs)"

lemma names_set_header: "fst ` set (set_header name v hs) = insert name (fst ` set hs)"
  by (induction name v hs rule: set_header.induct) auto

lemma one_each_simps [simp]: "one_each []" "one_each [h]"
  by (simp_all add: one_each_def)

lemma one_each_set_header [simp]: "one_each hs \<Longrightarrow> one_each (set_header name v hs)"
proof (induction name v hs rule: set_header.induct)
  case (2 name v n w hs)
  have "n \<notin> fst ` set (set_header name v hs)" if "n \<noteq> name"
    using that 2(2) by (simp add: names_set_header one_each_def)
  with 2 show ?case by (auto simp: one_each_def distinct_map_filter)
qed simp

lemma one_each_inserts [simp]:
  assumes "one_each hs"
  shows "one_each (insert_header lib name v hs)" "one_each (insert_some lib name w hs)"
    "one_each (insert_dynamic_header lib name v hs)"
  using assms by (simp_all add: insert_header_def insert_some_def insert_dynamic_header_def split: option.splits)

lemma one_each_user:
  "one_each hs \<Longrightarrow> one_each (fold (\<lambda>(key, v). insert_dynamic_header lib (p @ key) v) m hs)"
  by (induction m arbitrary: hs) auto

lemma one_each_object_headers [simp]: "one_each (object_headers lib ob len start end partial)"
  by (simp add: object_headers_def Let_def one_each_user del: lit_simps)

lemma one_each_apply_cors [simp]: "one_each (rs_headers r) \<Longrightarrow> one_each (rs_headers (apply_cors env rq d r))"
  by (simp add: apply_cors_def Let_def del: lit_simps split: option.splits)

section \<open>Kinds of responses\<close>

text \<open>The statuses that go with a code: those of the table, and 500 for the others; authentication always answers 403.\<close>

definition code_status :: "str \<Rightarrow> nat \<Rightarrow> bool" where
  "code_status code status \<longleftrightarrow> (code, status) \<in> set s3_errors \<or> code = internal_error \<and> status = 500 \<or> status = 403"

definition xml_text :: "http_lib \<Rightarrow> xml_doc \<Rightarrow> body \<Rightarrow> bool" where
  "xml_text lib doc b \<longleftrightarrow> (\<exists>xml. hl_to_string lib doc = Inr xml \<and> b = Bytes (utf8 (xml_prolog @ with_namespace xml)))"

abbreviation header_of :: "response \<Rightarrow> str \<Rightarrow> str option" where
  "header_of r name \<equiv> map_of (rs_headers r) name"

inductive kind_of_response :: "s3_env \<Rightarrow> http_request \<Rightarrow> response \<Rightarrow> bool" for env rq where
  kind_empty: "rs_status r \<in> {200, 204} \<Longrightarrow> rs_body r = Bytes [] \<Longrightarrow> kind_of_response env rq r"
| kind_document: "rs_status r = 200 \<Longrightarrow> header_of r (lit ''content-type'') = Some (lit ''application/xml'')
    \<Longrightarrow> xml_text (s3_lib env) doc (rs_body r) \<Longrightarrow> kind_of_response env rq r"
| kind_object: "rs_status r = (if partial then 206 else 200)
    \<Longrightarrow> header_of r (lit ''content-length'') = Some (show_int n)
    \<Longrightarrow> (header_of r (lit ''content-range'') \<noteq> None) = partial
    \<Longrightarrow> rs_body r = Bytes [] \<or> (\<exists>st. rs_body r = Stream st) \<Longrightarrow> kind_of_response env rq r"
| kind_not_modified: "rs_status r = 304 \<Longrightarrow> rs_body r = Bytes [] \<Longrightarrow> kind_of_response env rq r"
| kind_error: "code_status code (rs_status r) \<Longrightarrow> 400 \<le> rs_status r
    \<Longrightarrow> (rs_status r = 500 \<longrightarrow> message = lit ''Internal server error'')
    \<Longrightarrow> header_of r (lit ''content-type'') = Some (lit ''application/xml'')
    \<Longrightarrow> xml_text (s3_lib env) (Xml_Error \<lparr>ex_code = code, ex_message = message, ex_resource = rq_path rq,
          ex_request_id = s3_request_id env\<rparr>) (rs_body r) \<Longrightarrow> kind_of_response env rq r"

definition typed :: "s3_env \<Rightarrow> http_request \<Rightarrow> response \<Rightarrow> bool" where
  "typed env rq r \<longleftrightarrow> one_each (rs_headers r) \<and> kind_of_response env rq r"

section \<open>The headers of CORS change no kind\<close>

lemma not_cors:
  "\<not> prefix (lit ''access-control-'') (lit ''content-type'')" "\<not> prefix (lit ''access-control-'') (lit ''content-length'')"
  "\<not> prefix (lit ''access-control-'') (lit ''content-range'')"
  "lit ''content-type'' \<noteq> lit ''vary''" "lit ''content-length'' \<noteq> lit ''vary''" "lit ''content-range'' \<noteq> lit ''vary''"
  by simp_all

lemma kind_apply_cors:
  assumes "kind_of_response env rq r"
  shows "kind_of_response env rq (apply_cors env rq d r)"
  using assms
proof (cases rule: kind_of_response.cases)
  case kind_empty
  then show ?thesis by (intro kind_of_response.kind_empty) simp_all
next
  case (kind_document doc)
  then show ?thesis
    by (intro kind_of_response.kind_document [of _ env doc])
      (simp_all add: apply_cors_header [OF not_cors(1,4)] del: lit_simps)
next
  case (kind_object partial n)
  then show ?thesis
    by (intro kind_of_response.kind_object [of _ partial n])
      (simp_all add: apply_cors_header [OF not_cors(2,5)] apply_cors_header [OF not_cors(3,6)] del: lit_simps)
next
  case kind_not_modified
  then show ?thesis by (intro kind_of_response.kind_not_modified) simp_all
next
  case (kind_error code message)
  then show ?thesis
    by (intro kind_of_response.kind_error [of code _ message])
      (simp_all add: apply_cors_header [OF not_cors(1,4)] del: lit_simps)
qed

lemma typed_apply_cors: "typed env rq r \<Longrightarrow> typed env rq (apply_cors env rq d r)"
  by (simp add: typed_def kind_apply_cors)

section \<open>The handlers\<close>

definition answer_typed :: "s3_env \<Rightarrow> http_request \<Rightarrow> answer \<Rightarrow> bool" where
  "answer_typed env rq a \<longleftrightarrow> (\<forall>r. fst a = Inr r \<longrightarrow> typed env rq r)"

lemma answer_typed_pair: "answer_typed env rq (x, s', sp) \<longleftrightarrow> (\<forall>r. x = Inr r \<longrightarrow> typed env rq r)"
  by (simp add: answer_typed_def)

lemma answer_typed_reply [simp]: "answer_typed env rq (reply x s) \<longleftrightarrow> (\<forall>r. x = Inr r \<longrightarrow> typed env rq r)"
  by (simp add: answer_typed_def reply_def)

lemma answer_typed_with: "(\<And>x r. f x = Inr r \<Longrightarrow> typed env rq r) \<Longrightarrow> answer_typed env rq (answer_with f h)"
  by (cases h) (auto simp: answer_with_def answer_typed_pair bind_res_Inr_iff)

lemma typed_empty [simp]: "n \<in> {200, 204} \<Longrightarrow> typed env rq (empty_response n)"
  by (simp add: typed_def empty_response_def kind_empty)

lemma typed_xml: "xml_response (s3_lib env) doc = Inr r \<Longrightarrow> typed env rq r"
  by (auto simp: typed_def xml_response_def xml_text_def intro!: kind_document [of _ env doc] split: sum.splits)

lemma typed_ok_with_header: "ok_with_header lib name v = Inr r \<Longrightarrow> typed env rq r"
  by (auto simp: typed_def ok_with_header_def empty_response_def intro!: kind_empty split: if_splits)

lemma typed_get_object:
  assumes "s3_get_object env bucket key headers head_only d = Inr r" and "crates_ok (s3_lib env)"
  shows "typed env rq r"
proof -
  from assms(1) obtain ob start "end" partial where r: "r = (let hs = object_headers (s3_lib env) ob
        (saturating_add (saturating_sub end start) 1) start end partial in
        \<lparr>rs_status = (if partial then 206 else 200),
          rs_headers = (if obj_size ob = 0 then set_header (lit ''content-length'') (lit ''0'') hs else hs),
          rs_body = (if head_only \<or> obj_size ob = 0 then Bytes []
                     else Stream (range_stream (s3_read env) (s3_gate env) (obj_blocks ob) start end))\<rparr>)"
    by (auto simp: s3_get_object_def bind_res_Inr_iff Let_def simp del: lit_simps split: prod.splits)
  have zero: "lit ''0'' = show_int 0" by (simp add: show_int_def show_nat.simps)
  have other: "lit ''content-range'' \<noteq> lit ''content-length''" by simp
  have "\<exists>n. header_of r (lit ''content-length'') = Some (show_int n)"
    using object_headers_get(1) [OF assms(2)] zero by (simp add: r Let_def del: lit_simps) blast
  moreover have "(header_of r (lit ''content-range'') \<noteq> None) = partial"
    using object_headers_get(2) [OF assms(2)] other by (simp add: r Let_def del: lit_simps)
  ultimately show ?thesis
    by (auto simp: typed_def r Let_def simp del: lit_simps intro!: kind_object [of _ partial])
qed

lemmas typed_intros = typed_xml typed_ok_with_header typed_get_object

lemma typed_replies:
  "s3_get_bucket_cors env bucket d = Inr r \<Longrightarrow> typed env rq r"
  "s3_list_multipart_uploads (s3_lib env) bucket d = Inr r \<Longrightarrow> typed env rq r"
  "s3_list_parts (s3_lib env) upload_id d = Inr r \<Longrightarrow> typed env rq r"
  "s3_list_buckets (s3_lib env) d = Inr r \<Longrightarrow> typed env rq r"
  "s3_list_objects (s3_lib env) bucket q d = Some (Inr r) \<Longrightarrow> typed env rq r"
  by (auto simp: s3_get_bucket_cors_def s3_list_multipart_uploads_def s3_list_parts_def s3_list_buckets_def
      s3_list_objects_def bind_res_Inr_iff Let_def intro: typed_xml split: if_splits)

lemma typed_handlers:
  "answer_typed env rq (s3_put_bucket_cors env bucket frames s)"
  "answer_typed env rq (s3_delete_bucket_cors bucket s)"
  "answer_typed env rq (s3_copy_object env bucket key source headers condition s)"
  "answer_typed env rq (s3_complete_multipart env upload_id frames s)"
  "answer_typed env rq (s3_multi_delete env bucket frames s)"
  by (auto simp: s3_put_bucket_cors_def s3_delete_bucket_cors_def s3_copy_object_def s3_complete_multipart_def
      s3_multi_delete_def Let_def answer_typed_pair intro!: answer_typed_with intro: typed_xml
      split: sum.splits prod.splits)

section \<open>The dispatchers\<close>

lemma typed_dispatch_bucket:
  assumes "dispatch_bucket env meth bucket q frames s = Some a"
  shows "answer_typed env rq a"
  using assms unfolding dispatch_bucket_def Let_def
  by (auto simp: typed_handlers answer_typed_pair intro: typed_replies typed_intros
      split: if_splits http_method.splits sum.splits prod.splits option.splits bool.splits)

lemma typed_dispatch_upload: "answer_typed env rq (dispatch_upload env meth bucket key headers q upload_id frames s)"
  by (auto simp: dispatch_upload_def dispatch_part_upload_def typed_handlers intro!: answer_typed_with
      intro: typed_replies typed_intros split: option.splits http_method.splits sum.splits if_splits)

lemma typed_dispatch_put: "answer_typed env rq (dispatch_put env bucket key headers frames s)"
  by (auto simp: dispatch_put_def Let_def typed_handlers intro!: answer_typed_with intro: typed_intros
      split: option.splits sum.splits)

lemma typed_dispatch_object:
  assumes "crates_ok (s3_lib env)"
  shows "answer_typed env rq (dispatch_object env meth bucket key q headers frames s)"
  using typed_get_object [OF _ assms]
  by (auto simp: dispatch_object_def Let_def typed_handlers typed_dispatch_upload typed_dispatch_put
      intro!: answer_typed_with intro: typed_intros split: option.splits sum.splits)

lemma typed_dispatch:
  assumes "dispatch env rq frames s = Some a" and "crates_ok (s3_lib env)"
  shows "answer_typed env rq a"
  using assms(1) typed_dispatch_bucket typed_dispatch_object [OF assms(2)]
  by (auto simp: dispatch_def intro: typed_replies split: sum.splits if_splits option.splits)

section \<open>Errors\<close>

lemma typed_error:
  assumes "crates_ok (s3_lib env)" and "code_status code status" and "status = 304 \<or> 400 \<le> status"
    and "status = 500 \<Longrightarrow> message = lit ''Internal server error''"
  shows "typed env rq (error_response (s3_lib env) status code message (rq_path rq) (s3_request_id env))"
proof (cases "status = 304")
  case True
  then show ?thesis
    by (simp add: error_response_def typed_def empty_response_def kind_not_modified del: lit_simps)
next
  case False
  obtain xml where xml: "hl_to_string (s3_lib env) (Xml_Error \<lparr>ex_code = code, ex_message = message,
      ex_resource = rq_path rq, ex_request_id = s3_request_id env\<rparr>) = Inr xml"
    using assms(1) unfolding crates_ok_def by blast
  have "lit ''content-type'' \<noteq> lit ''x-amz-request-id''" "lit ''content-type'' \<noteq> lit ''retry-after''" by simp_all
  with False xml assms(2-4) show ?thesis
    by (auto simp: error_response_def typed_def Let_def map_of_insert_header xml_text_def simp del: lit_simps
        intro!: kind_error [of code _ message])
qed

text \<open>The table holds no 500, and no other success or redirection than 304.\<close>

lemma error_table: "(code, n) \<in> set s3_errors \<Longrightarrow> n \<noteq> 500 \<and> (n = 304 \<or> 400 \<le> n)"
proof -
  have "list_all (\<lambda>c. snd c \<noteq> 500 \<and> (snd c = 304 \<or> 400 \<le> snd c)) s3_errors" by (simp add: s3_errors_def)
  then show "(code, n) \<in> set s3_errors \<Longrightarrow> n \<noteq> 500 \<and> (n = 304 \<or> 400 \<le> n)" by (auto simp: list_all_iff)
qed

lemma error_cases:
  obtains (known) "(error_code e, status_for e) \<in> set s3_errors" | (internal) "error_code e = internal_error" "status_for e = 500"
proof (cases "find (\<lambda>(code, _). contains (error_text e) code) s3_errors")
  case None
  with internal show thesis by (simp add: error_code_def status_for_def)
next
  case (Some c)
  then have "c \<in> set s3_errors" by (metis find_Some_iff nth_mem)
  with Some known show thesis by (cases c) (simp add: error_code_def status_for_def)
qed

lemma error_pair: "code_status (error_code e) (status_for e)"
  by (cases e rule: error_cases) (simp_all add: code_status_def)

lemma internal_only: "status_for e = 500 \<Longrightarrow> error_code e = internal_error"
  by (cases e rule: error_cases) (auto dest: error_table)

lemma error_statuses: "status_for e = 304 \<or> 400 \<le> status_for e"
  by (cases e rule: error_cases) (auto dest: error_table)

lemma typed_failure:
  assumes "crates_ok (s3_lib env)" and "code_status code status" and "400 \<le> status" and "status \<noteq> 500"
    and "failure env rq status code message s = (r, s', sp)"
  shows "typed env rq r"
  using typed_apply_cors [OF typed_error [OF assms(1,2)]] assms(3-5) by (auto simp: failure_def)

lemma typed_respond:
  assumes "crates_ok (s3_lib env)" and "answer_typed env rq a" and "respond env rq a = (r, s', sp)"
  shows "typed env rq r"
proof -
  have "typed env rq (error_response (s3_lib env) (status_for e) (error_code e) (public_error_message (error_code e) e)
      (rq_path rq) (s3_request_id env))" for e
    using typed_error [OF assms(1) error_pair error_statuses] internal_only [of e]
    by (simp add: public_error_message_def del: lit_simps)
  with assms(2,3) show ?thesis
    by (auto simp: respond_def Let_def answer_typed_def intro!: typed_apply_cors split: prod.splits sum.splits)
qed

lemma handle_typed:
  assumes "handle env rq frames s = Some (r, s', spawned)" and "crates_ok (s3_lib env)"
  shows "typed env rq r"
proof -
  have codes: "code_status (lit ''InvalidRequest'') 400" "code_status (lit ''NotImplemented'') 501"
    "code_status c 403" for c
    by (simp_all add: code_status_def s3_errors_def)
  note fail = typed_failure [OF assms(2)]
  from assms(1) show ?thesis
    using typed_respond [OF assms(2) typed_dispatch [OF _ assms(2)]] fail [OF codes(1)] fail [OF codes(2)] fail [OF codes(3)]
    unfolding handle_def
    by (auto simp del: lit_simps split: sum.splits prod.splits if_splits)
qed

text \<open>An internal error says nothing about its cause.\<close>

lemma typed_internal:
  assumes "typed env rq r" and "rs_status r = 500"
  shows "xml_text (s3_lib env) (Xml_Error \<lparr>ex_code = lit ''InternalError'', ex_message = lit ''Internal server error'',
    ex_resource = rq_path rq, ex_request_id = s3_request_id env\<rparr>) (rs_body r)"
proof -
  have "kind_of_response env rq r" using assms(1) by (simp add: typed_def)
  then show ?thesis
  proof (cases rule: kind_of_response.cases)
    case (kind_error code message)
    then have "code = lit ''InternalError''"
      using assms(2) error_table [of code 500] by (auto simp: code_status_def internal_error_def simp del: lit_simps)
    with kind_error assms(2) show ?thesis by (simp del: lit_simps)
  qed (use assms(2) in \<open>auto split: if_splits\<close>)
qed

text \<open>
  A code that does not go with its status: a request that signs a header it does not have is refused
  with 403 and the code of an internal error.
\<close>

lemma missing_signed_header:
  "canonical_header [] (lit ''x'') = Inl (Other (lit ''Signed header missing''))"
  "error_code (Other (lit ''Signed header missing'')) = internal_error"
  by (simp_all add: canonical_header_def to_ascii_lowercase_def ascii_lower_def trim_def trim_by_def trim_start_by_def
      trim_end_by_def is_white_def error_code_def s3_errors_def contains_def)

end
