(* ===== verification/Spec_Requests.thy ===== *)
theory Spec_Requests
  imports S3_Types Spec_S3 Spec_Auth Examples_Transfer
begin

text \<open>
  The properties of whole requests: that each is answered and keeps the database consistent, who
  may change it, what an error leaves behind, and what a read of an object returns.
\<close>

section \<open>The examples\<close>

definition ex_s3 :: s3_env where
  "ex_s3 = \<lparr>s3_lib = ex_lib\<lparr>hl_name := \<lambda>s. Some (to_ascii_lowercase s)\<rparr>, s3_crypto = ex_crypto,
     s3_auth = \<lparr>sv_access_key = None, sv_secret_key = None, sv_region = lit ''us-east-1'', sv_allow_anonymous = True\<rparr>,
     s3_region = lit ''us-east-1'', s3_public_host = None,
     s3_cors = \<lparr>allowed_origins = [], allowed_methods = [], allowed_headers = [], expose_headers = [],
       max_age_seconds = 0\<rparr>,
     s3_engine = (ex_engine 0)\<lparr>en_upload := ex_env\<lparr>ue_md5_hex := \<lambda>_. [97]\<rparr>\<rparr>,
     s3_hex_decode = \<lambda>_. None, s3_read = download_stream ex_tg ex_api ex_gram, s3_gate = \<lambda>_. Inr 0,
     s3_admission = Inr (), s3_uuid = [117], s3_request_id = [114], s3_now = 0\<rparr>"

lemma ex_s3_sel [simp]:
  "en_upload (s3_engine ex_s3) = ex_env\<lparr>ue_md5_hex := \<lambda>_. [97]\<rparr>" "s3_uuid ex_s3 = [117]" "s3_admission ex_s3 = Inr ()"
  "s3_public_host ex_s3 = None" "s3_read ex_s3 = download_stream ex_tg ex_api ex_gram"
  by (simp_all add: ex_s3_def)

lemma ex_s3_ok: "crates_ok (s3_lib ex_s3)" "etags_visible ex_s3" "0 < ue_chunk_size (en_upload (s3_engine ex_s3))"
  by (simp_all add: crates_ok_def etags_visible_def ex_s3_def ex_lib_def)

lemma ex_anonymous: "verify_with_payload_hash (s3_crypto ex_s3) (s3_auth ex_s3) (s3_now ex_s3) rq ph = Inr ()"
  by (simp add: verify_with_payload_hash_def ex_s3_def)

definition ex_get_rq :: http_request where
  "ex_get_rq = \<lparr>rq_method = GET, rq_path = [47, 98, 47, 107], rq_query = [], rq_headers = []\<rparr>"

definition ex_put_rq :: http_request where
  "ex_put_rq = \<lparr>rq_method = PUT, rq_path = [47, 98, 47, 107], rq_query = [], rq_headers = []\<rparr>"

definition ex_create_rq :: http_request where
  "ex_create_rq = \<lparr>rq_method = PUT, rq_path = [47, 99], rq_query = [], rq_headers = []\<rparr>"

lemma ex_served: "served ex_db1" "served ex_db5"
  using ex_ok(1,5)
  by (simp_all add: served_def keys_valid_def uploads_valid_def ex_db1_def ex_db5_def empty_db_def ex_orow_def
      ex_key_def valid_text_def scalar_def)

lemma ex_decode: "utf8_decode (utf8_char 98) = Some [98]" "utf8_decode (utf8_char 99) = Some [99]"
    "utf8_decode (utf8_char 107) = Some [107]"
  using utf8_decode_utf8 [of "[98]"] utf8_decode_utf8 [of "[99]"] utf8_decode_utf8 [of "[107]"]
  by (simp_all add: valid_text_def scalar_def)

lemma ex_target:
  "parse_target (s3_lib ex_s3) [47, 98, 47, 107] [] None = Inr \<lparr>tgt_bucket = Some [98], tgt_key = Some [107]\<rparr>"
  "parse_target (s3_lib ex_s3) [47, 99] [] None = Inr \<lparr>tgt_bucket = Some [99], tgt_key = None\<rparr>"
  by (simp_all add: parse_target_def target_by_path_def decode_path_def ex_s3_def ex_lib_def header_text_def
      trim_start_by_def ex_decode)

lemma ex_plain: "hash_cors_body ex_s3 \<lparr>rq_method = m, rq_path = p, rq_query = [], rq_headers = []\<rparr> frames = Inr (None, frames)"
  "\<not> is_streaming_payload []" "query_has [] n = False" "query_value [] n = None"
  by (simp_all add: hash_cors_body_def is_cors_put_def is_streaming_payload_def header_text_def query_has_def query_value_def)

lemma ex_created:
  "\<exists>r s' spawned. handle ex_s3 ex_create_rq [] (ex_server ex_db5) = Some (r, s', spawned) \<and> s' \<noteq> ex_server ex_db5"
proof -
  have "validate_bucket [99] = Inr ()" by code_simp
  then obtain a where a: "dispatch ex_s3 ex_create_rq [] (ex_server ex_db5)
      = Some (a, (ex_server ex_db5)\<lparr>srv_db := snd (create_bucket (s3_clock ex_s3 5) [99] ex_db5)\<rparr>, [])"
    by (simp add: dispatch_def ex_create_rq_def ex_target dispatch_bucket_def Let_def ex_plain)
  moreover have "snd (create_bucket t [99] ex_db5) \<noteq> ex_db5" for t
    by (simp add: create_bucket_def ex_db5_def ex_db1_def empty_db_def ex_bucket_def bucket_named_def)
  ultimately show ?thesis
    by (simp add: handle_def ex_create_rq_def ex_plain ex_anonymous respond_def Let_def ex_server_def)
qed

section \<open>Every request is answered\<close>

text \<open>
  C2: Every request is answered, whatever its path, query, headers and body, and whoever sent it:
  the loop of the listing returns. The answer leaves a database that again satisfies its
  invariant (keys, foreign keys, balanced reference counts, exact layouts, Unicode keys).
\<close>

theorem request_answered:
  assumes "served (srv_db s)" and "0 < ue_chunk_size (en_upload (s3_engine env))" and "query_valid (rq_query rq)"
  shows "\<exists>r s' spawned. handle env rq frames s = Some (r, s', spawned) \<and> served (srv_db s')"
  using assms by (rule handle_total)

theorem request_answered_witness:
  "\<exists>r s' spawned. handle ex_s3 ex_put_rq (map Inr [[5], [6, 7]]) (ex_server ex_db1) = Some (r, s', spawned)
     \<and> served (srv_db s')"
  using request_answered [of "ex_server ex_db1" ex_s3 ex_put_rq] ex_served(1) ex_s3_ok(3)
  by (simp add: query_valid_def ex_put_rq_def)

section \<open>Who may change what\<close>

text \<open>
  C3: Only an authenticated write changes anything. If a request changed the database, deleted a
  Telegram message or spawned a reclaim, it is a \<open>PUT\<close>, \<open>POST\<close> or \<open>DELETE\<close> (or has a method S3
  does not know) whose signature was accepted, or the server has no access key and allows
  anonymous requests, and its payload is not a streaming one.
\<close>

theorem changes_authorized:
  assumes "handle env rq frames s = Some (r, s', spawned)" and "s' \<noteq> s \<or> spawned \<noteq> []"
  shows "rq_method rq \<notin> {GET, HEAD, OPTIONS} \<and> \<not> is_streaming_payload (rq_headers rq)
    \<and> (\<exists>payload_hash body. hash_cors_body env rq frames = Inr (payload_hash, body)
         \<and> verify_with_payload_hash (s3_crypto env) (s3_auth env) (s3_now env) rq payload_hash = Inr ())"
  using assms by (rule handle_verified)

theorem changes_authorized_witness:
  "\<exists>r s' spawned. handle ex_s3 ex_create_rq [] (ex_server ex_db5) = Some (r, s', spawned) \<and> s' \<noteq> ex_server ex_db5
     \<and> verify_with_payload_hash (s3_crypto ex_s3) (s3_auth ex_s3) (s3_now ex_s3) ex_create_rq None = Inr ()"
proof -
  obtain r s' sp where h: "handle ex_s3 ex_create_rq [] (ex_server ex_db5) = Some (r, s', sp)" and ne: "s' \<noteq> ex_server ex_db5"
    using ex_created by blast
  from changes_authorized [OF h] ne ex_anonymous h show ?thesis by blast
qed

text \<open>
  C4: An answer with an error status leaves every object as it was: refused and failed requests,
  conditions that do not hold, broken bodies, Telegram and database errors. Only statuses of
  success (below 300) can change an object.
\<close>

theorem error_changes_no_object:
  assumes "handle env rq frames s = Some (r, s', spawned)" and "300 \<le> rs_status r"
    and "db_ok (srv_db s)" and "0 < ue_chunk_size (en_upload (s3_engine env))"
    and "crates_ok (s3_lib env)" and "etags_visible env"
  shows "lookup (srv_db s') = lookup (srv_db s)"
  using assms(1)
proof (cases rule: handle_cases)
  case (served payload_hash body a)
  from respond_server [OF served(5) [symmetric]] have s': "fst (snd a) = s'" by simp
  from served(5) have "rs_status r = (case fst a of Inl e \<Rightarrow> status_for e | Inr r \<Rightarrow> rs_status r)"
    using respond_status [of env rq a] by (metis fst_conv)
  with assms(2) dispatch_safe [OF assms(3-6) served(4)] s' show ?thesis
    by (auto simp: error_safe_def split: sum.splits)
qed simp

lemma ex_bucket_named: "bucket_named ex_db1 [98]" "bucket_named ex_db5 [98]"
  by (simp_all add: bucket_named_def ex_db1_def ex_db5_def empty_db_def ex_bucket_def)

lemma ex_put_dispatch:
  assumes "bucket_named (srv_db s) [98]" and "db_ok (srv_db s)"
  shows "dispatch ex_s3 ex_put_rq frames s =
    Some (answer_with (\<lambda>ob. ok_with_header (s3_lib ex_s3) (lit ''etag'') (quoted (obj_etag ob)))
      (put_object (s3_engine ex_s3) [117] [98] [107] frames (metadata_from_headers []) None default_condition s))"
proof -
  obtain found where "get_object [98] [107] (srv_db s) = Inr found" using get_object_total [OF assms(2)] by blast
  then have "pre_write [98] [107] default_condition (srv_db s) = Inr ()"
    by (simp add: pre_write_def check_write_conditions_def condition_allows_def default_condition_def split: option.splits)
  moreover have "object_condition_of [] = default_condition"
    by (simp add: object_condition_of_def header_text_def default_condition_def)
  ultimately show ?thesis
    using assms(1)
    by (simp add: dispatch_def ex_put_rq_def ex_target dispatch_object_def bucket_exists_def ex_plain dispatch_put_def
        Let_def header_text_def request_content_length_def check_size_def)
qed

lemma ex_failed:
  "\<exists>r s' spawned. handle ex_s3 ex_put_rq [Inr [5], Inl InvalidRequest] (ex_server ex_db5) = Some (r, s', spawned)
     \<and> 300 \<le> rs_status r"
proof -
  let ?put = "put_object (s3_engine ex_s3) [117] [98] [107] [Inr [5], Inl InvalidRequest] (metadata_from_headers []) None
      default_condition (ex_server ex_db5)"
  obtain x s' sp where put: "?put = (x, s', sp)" by (cases ?put)
  have "\<exists>e. x = Inl e"
    using put_object_cases [OF _ ex_s3_ok(3) put] ex_ok(5)
    by (cases x) (auto simp: Cons_eq_map_conv)
  then show ?thesis
    using ex_put_dispatch [of "ex_server ex_db5" "[Inr [5], Inl InvalidRequest]"] ex_bucket_named ex_ok(5) put s3_error_status
    by (auto simp: handle_def ex_put_rq_def ex_plain ex_anonymous respond_def Let_def answer_with_def)
qed

theorem error_changes_no_object_witness:
  "\<exists>r s' spawned. handle ex_s3 ex_put_rq [Inr [5], Inl InvalidRequest] (ex_server ex_db5) = Some (r, s', spawned)
     \<and> 300 \<le> rs_status r \<and> lookup (srv_db s') = lookup ex_db5"
proof -
  from ex_failed obtain r s' sp where h: "handle ex_s3 ex_put_rq [Inr [5], Inl InvalidRequest] (ex_server ex_db5) = Some (r, s', sp)"
    "300 \<le> rs_status r" by blast
  from error_changes_no_object [OF h _ ex_s3_ok(3,1,2)] ex_ok(5) h show ?thesis by auto
qed

text \<open>
  C7: Every answer has one of five kinds: an empty success (200, 204), an XML document (200), the
  bytes of an object with their length (200, or 206 exactly when there is a \<open>Content-Range\<close>), "not
  modified" without a body, or an error document that names the resource and the request, whose
  code and status belong together. No header occurs twice, and an answer of status 500 discloses nothing of
  the error's cause.
\<close>

theorem response_typed:
  assumes "handle env rq frames s = Some (r, s', spawned)" and "crates_ok (s3_lib env)"
  shows "distinct (map fst (rs_headers r)) \<and> kind_of_response env rq r
    \<and> (rs_status r = 500 \<longrightarrow> xml_text (s3_lib env) (Xml_Error \<lparr>ex_code = lit ''InternalError'',
         ex_message = lit ''Internal server error'', ex_resource = rq_path rq, ex_request_id = s3_request_id env\<rparr>) (rs_body r))"
  using handle_typed [OF assms] typed_internal [OF handle_typed [OF assms]]
  by (simp add: typed_def one_each_def del: lit_simps)

theorem response_typed_witness:
  "\<exists>r s' spawned. handle ex_s3 ex_create_rq [] (ex_server ex_db5) = Some (r, s', spawned)
     \<and> kind_of_response ex_s3 ex_create_rq r"
proof -
  obtain r s' sp where h: "handle ex_s3 ex_create_rq [] (ex_server ex_db5) = Some (r, s', sp)"
    using ex_created by blast
  from response_typed [OF h ex_s3_ok(1)] h show ?thesis by blast
qed

section \<open>Reading an object\<close>

text \<open>
  C21: What becomes of a well-formed \<open>Range\<close> header (RFC 9110, in the unit \<open>bytes\<close>, without spaces in
  its list). One range whose numbers fit in an \<open>i64\<close> is parsed to the first and last byte it means,
  cut at the end of the object, or refused with \<open>InvalidRange\<close> when it selects nothing, but for a
  suffix longer than the object, which is parsed to a range that starts before the object. A header
  with more than one range, or with a larger number, is refused with \<open>InvalidRange\<close>.
\<close>

theorem range_header_correct:
  assumes "ws \<noteq> []" and "\<forall>w \<in> set ws. range_wf w" and "0 < sz" and "sz \<le> i64_max"
  shows "parse_range (Some (show_ranges ws)) sz =
    (if length ws = 1 \<and> range_fits (hd ws)
     then (case hd ws of
             Last n \<Rightarrow> if sz < n then Inr (sz - n, sz - 1, True)
               else map_sum id (\<lambda>(start, end). (start, end, True)) (range_meaning (Last n) sz)
           | w \<Rightarrow> map_sum id (\<lambda>(start, end). (start, end, True)) (range_meaning w sz))
     else Inl InvalidRange)"
proof (cases "length ws = 1")
  case True
  then obtain w where w: "ws = [w]" by (cases ws) auto
  then have one: "show_ranges ws = show_range w" and wf: "range_wf w" using assms(2) by (simp_all add: show_ranges_def)
  show ?thesis
  proof (cases "range_fits w")
    case fits: True
    note standard = parse_range_standard [OF wf fits assms(3,4)]
    show ?thesis
    proof (cases w)
      case (Last n)
      have "n \<le> i64_max" using fits Last by (simp add: range_fits_def)
      with Last long_suffix_negative [OF assms(3), of n] standard fits w one show ?thesis
        by (auto simp del: lit_simps show_spec.simps range_meaning.simps)
    qed (use standard fits w one in \<open>simp_all del: lit_simps show_spec.simps range_meaning.simps\<close>)
  next
    case False
    with parse_range_large [OF wf False assms(3)] one w show ?thesis by (simp del: lit_simps)
  qed
next
  case False
  with assms(1) have "1 < length ws" by (cases ws) auto
  with parse_range_many [OF this assms(3)] False show ?thesis by simp
qed

theorem range_header_correct_witness:
  "parse_range (Some (show_ranges [Between 2 9])) 5 = Inr (2, 4, True)
    \<and> parse_range (Some (show_ranges [From 0, Last 1])) 5 = Inl InvalidRange
    \<and> parse_range (Some (show_ranges [Between 0 (2 ^ 63)])) 5 = Inl InvalidRange"
  using range_header_correct [of "[Between 2 9]" 5] range_header_correct [of "[From 0, Last 1]" 5]
    range_header_correct [of "[Between 0 (2 ^ 63)]" 5]
  by (simp add: i64_defs range_wf_def range_fits_def)

text \<open>
  C18: A read of an object is answered with what its range asks for: the status is 206 for a range
  and 200 otherwise, \<open>Content-Length\<close> and \<open>Content-Range\<close> are those of the range, and the body holds
  the bytes of the range that are in the object. The body is exactly these bytes when Telegram
  serves the object's blocks, and never anything else than these bytes, or a first part of them and
  an error, when it only answers truthfully. \<open>Content-Length\<close> is the number of these bytes, except for a
  range that starts before the object, which is how a suffix longer than the object is parsed.
\<close>

theorem get_object_response:
  assumes "s3_get_object env bucket key headers False d = Inr r" and "db_ok d" and "crates_ok (s3_lib env)"
    and "lookup d (bucket, key) = Some ob"
    and "parse_range (header_text headers (lit ''range'')) (obj_size ob) = Inr (start, end, partial)"
    and "s3_read env = download_stream tg api gram"
    and "list_all2 (\<lambda>b c. blk_size b = int (length c)) (obj_blocks ob) cs"
  shows "rs_status r = (if partial then 206 else 200)
    \<and> map_of (rs_headers r) (lit ''content-length'') = Some (show_int (end - start + 1))
    \<and> map_of (rs_headers r) (lit ''content-range'') =
        (if partial then Some (lit ''bytes '' @ show_int start @ lit ''-'' @ show_int end @ lit ''/'' @ show_int (obj_size ob))
         else None)
    \<and> (0 \<le> start \<longrightarrow> end - start + 1 = int (length (slice (max 0 start) end (concat cs))))
    \<and> (case rs_body r of
         Bytes b \<Rightarrow> b = [] \<and> concat cs = []
       | Stream st \<Rightarrow>
           ((\<forall>(b, c) \<in> set (zip (obj_blocks ob) cs). \<forall>s e. telegram_faithful api gram b c s e)
              \<longrightarrow> delivers st (slice (max 0 start) end (concat cs)))
           \<and> ((\<forall>(b, c) \<in> set (zip (obj_blocks ob) cs). \<forall>s e. telegram_serves tg api gram b c s e)
              \<and> (\<forall>n. \<exists>w. s3_gate env n = Inr w)
              \<longrightarrow> collect st = (slice (max 0 start) end (concat cs), None)))"
  using get_object_answer [OF assms] unfolding answered_def by blast

text \<open>The examples read one Telegram document, of three bytes.\<close>

definition ex_api3 :: bot_env where
  "ex_api3 = ex_api\<lparr>be_get := \<lambda>path s e n. Inr \<lparr>http_status = 206, http_status_text = [],
     http_chunks = [Inr (slice s e [5, 6, 7])]\<rparr>\<rparr>"

definition ex_s3b :: s3_env where
  "ex_s3b = ex_s3\<lparr>s3_read := download_stream ex_tg ex_api3 ex_gram\<rparr>"

definition ex_range :: request_headers where
  "ex_range = [(lit ''range'', Some (show_range (From 1)))]"

lemma ex_range_value:
  "header_text ex_range (lit ''range'') = Some (show_range (From 1))"
  "parse_range (Some (show_range (From 1))) 3 = Inr (1, 2, True)"
  using parse_range_standard [of "From 1" 3]
  by (simp_all add: ex_range_def header_text_def i64_defs range_wf_def range_fits_def del: show_spec.simps)

lemma ex_lookup5: "lookup ex_db5 ([98], [107]) = Some ex_object"
  using ex_get by (simp add: lookup_def ex_bucket_def ex_key_def)

lemma ex_object_blocks: "obj_blocks ex_object = [ex_block]" "obj_size ex_object = 3" "blk_size ex_block = 3"
  by (simp_all add: ex_object_def ex_block_def)

lemma ex_serves3: "telegram_serves ex_tg ex_api3 gram ex_block [5, 6, 7] s e"
  by (auto simp: telegram_serves_def ex_block_def bot_serves_def ex_api3_def ex_api_def trim_start_by_def i64_defs)

lemma ex_got: "\<exists>r. s3_get_object ex_s3b [98] [107] ex_range False ex_db5 = Inr r"
proof -
  have "check_conditions (s3_lib ex_s3b) ex_object ex_range = Inr ()"
    by (simp add: check_conditions_def since_check_def header_text_def ex_range_def Let_def)
  moreover have "engine_get_object [98] [107] ex_db5 = Inr ex_object"
    using engine_get_object_eq [OF ex_ok(5), of "[98]" "[107]"] ex_lookup5 ex_bucket_named(2) by simp
  moreover have "s3_admission ex_s3b = Inr ()" by (simp add: ex_s3b_def)
  ultimately show ?thesis
    by (simp add: s3_get_object_def ex_range_value ex_object_blocks del: lit_simps show_spec.simps)
qed

theorem get_object_response_witness:
  "\<exists>r st. s3_get_object ex_s3b [98] [107] ex_range False ex_db5 = Inr r \<and> rs_status r = 206
    \<and> map_of (rs_headers r) (lit ''content-length'') = Some (show_int 2)
    \<and> rs_body r = Stream st \<and> collect st = ([6, 7], None)"
proof -
  from ex_got obtain r where g: "s3_get_object ex_s3b [98] [107] ex_range False ex_db5 = Inr r" ..
  have "crates_ok (s3_lib ex_s3b)" using ex_s3_ok(1) by (simp add: ex_s3b_def)
  moreover have "parse_range (header_text ex_range (lit ''range'')) (obj_size ex_object) = Inr (1, 2, True)"
    by (simp only: ex_range_value ex_object_blocks)
  moreover have "s3_read ex_s3b = download_stream ex_tg ex_api3 ex_gram" by (simp add: ex_s3b_def)
  moreover have "list_all2 (\<lambda>b c. blk_size b = int (length c)) (obj_blocks ex_object) [[5, 6, 7 :: nat]]"
    by (simp add: ex_object_blocks)
  ultimately have "rs_status r = 206 \<and> map_of (rs_headers r) (lit ''content-length'') = Some (show_int 2)
    \<and> (case rs_body r of Bytes b \<Rightarrow> False | Stream st \<Rightarrow>
        (\<forall>(b, c) \<in> set (zip (obj_blocks ex_object) [[5, 6, 7]]). \<forall>s e. telegram_serves ex_tg ex_api3 ex_gram b c s e)
          \<and> (\<forall>n. \<exists>w. s3_gate ex_s3b n = Inr w) \<longrightarrow> collect st = (slice 1 2 [5, 6, 7], None))"
    using get_object_response [OF g ex_ok(5) _ ex_lookup5, of 1 2 True ex_tg ex_api3 ex_gram "[[5, 6, 7]]"]
    by (simp del: lit_simps split: body.splits)
  moreover have "\<forall>(b, c) \<in> set (zip (obj_blocks ex_object) [[5, 6, 7]]). \<forall>s e. telegram_serves ex_tg ex_api3 ex_gram b c s e"
    by (auto simp: ex_object_blocks intro: ex_serves3)
  moreover have "\<forall>n. \<exists>w. s3_gate ex_s3b n = Inr w" by (simp add: ex_s3b_def ex_s3_def)
  moreover have "slice 1 2 [5, 6, 7 :: nat] = [6, 7]" by (simp add: slice_def)
  ultimately show ?thesis using g by (cases "rs_body r") auto
qed

text \<open>
  C1: What is put is what is got. When a \<open>PutObject\<close> of a body is answered with 200, the next
  \<open>GetObject\<close> of the same bucket and key is answered with 200, the length of the body and the
  whole body, byte for byte and without an error, through routing, authentication, the database,
  Telegram and back, when Telegram serves for the messages of the object the pieces that were sent
  in them and the limiter of downloads lets them pass, as it does without a bound on the wait.
\<close>

theorem put_then_get:
  assumes "db_ok (srv_db s)" and "0 < ue_chunk_size (en_upload (s3_engine env))"
    and "plain_put p" and "handle env p (map Inr chunks) s = Some (r, s', spawned)" and "rs_status r = 200"
    and "parse_target (s3_lib env) (rq_path p) (rq_headers p) (s3_public_host env)
       = Inr \<lparr>tgt_bucket = Some bucket, tgt_key = Some key\<rparr>"
    and "plain_get g" and "verify_with_payload_hash (s3_crypto env') (s3_auth env') (s3_now env') g None = Inr ()"
    and "\<not> is_streaming_payload (rq_headers g)" and "s3_admission env' = Inr ()" and "crates_ok (s3_lib env')"
    and "parse_target (s3_lib env') (rq_path g) (rq_headers g) (s3_public_host env')
       = Inr \<lparr>tgt_bucket = Some bucket, tgt_key = Some key\<rparr>"
    and "s3_read env' = download_stream tg api gram"
    and "\<And>b p s e. p \<in> set (cut (s3_uuid env) 0 (ue_chunk_size (en_upload (s3_engine env))) 0 0 (concat chunks)) \<Longrightarrow>
        holds_piece (s3_engine env) b p \<Longrightarrow> telegram_serves tg api gram b (snd p) s e"
    and "\<And>n. \<exists>w. s3_gate env' n = Inr w"
  shows "\<exists>r'. handle env' g frames s' = Some (r', s', []) \<and> rs_status r' = 200
    \<and> map_of (rs_headers r') (lit ''content-length'') = Some (show_int (int (length (concat chunks))))
    \<and> (case rs_body r' of Bytes b \<Rightarrow> b = concat chunks | Stream st \<Rightarrow> collect st = (concat chunks, None))"
proof -
  let ?body = "concat chunks"
  from plain_put_stored [OF assms(3-6)] obtain ob metadata len c where
    put: "put_object (s3_engine env) (s3_uuid env) bucket key (map Inr chunks) metadata len c s = (Inr ob, s', spawned)" by blast
  note stored = put_object_stored [OF assms(1,2) put]
  have size: "obj_size ob = int (length ?body)"
    using put_object_cases [OF assms(1,2) put] by (auto simp: holds_body_def dest!: map_injective)
  from plain_get_answered [OF assms(7-10,12) stored(1)] obtain r' where
    get: "s3_get_object env' bucket key (rq_headers g) False (srv_db s') = Inr r'"
    and h: "handle env' g frames s' = Some (apply_cors env' g (srv_db s') r', s', [])" by blast
  define stop where "stop = (if ?body = [] then -1 else int (length ?body) - 1)"
  have range: "parse_range (header_text (rq_headers g) (lit ''range'')) (obj_size ob) = Inr (0, stop, False)"
    using assms(7) size by (simp add: stop_def plain_get_def parse_range_def del: lit_simps)
  have serves: "\<forall>(b, c) \<in> set (zip (obj_blocks ob) (map snd (cut (s3_uuid env) 0 (ue_chunk_size (en_upload (s3_engine env))) 0 0 ?body))).
      \<forall>s e. telegram_serves tg api gram b c s e"
    using stored(7) assms(14) by fastforce
  have all: "slice (max 0 0) stop ?body = ?body" "stop - 0 + 1 = int (length ?body)" by (simp_all add: stop_def slice_def)
  note ans = get_object_answer [OF get stored(2) assms(11) stored(3) range assms(13) stored(5), unfolded stored(6) all]
  have "rs_status r' = 200 \<and> map_of (rs_headers r') (lit ''content-length'') = Some (show_int (int (length ?body)))"
    using ans [THEN conjunct1, unfolded answered_def all] by simp
  moreover have "case rs_body r' of Bytes b \<Rightarrow> b = ?body | Stream st \<Rightarrow> collect st = (?body, None)"
    using ans serves assms(15) by (cases "rs_body r'") simp_all
  ultimately have "rs_status r' = 200 \<and> map_of (rs_headers r') (lit ''content-length'') = Some (show_int (int (length ?body)))
    \<and> (case rs_body r' of Bytes b \<Rightarrow> b = ?body | Stream st \<Rightarrow> collect st = (?body, None))" by blast
  with h show ?thesis
    using apply_cors_header [of "lit ''content-length''" env' g "srv_db s'" r'] by (simp del: lit_simps) simp
qed

lemma ex_put3_works:
  "\<exists>ob s' sp. put_object (s3_engine ex_s3) [117] [98] [107] (map Inr [[5], [6, 7]]) m None default_condition (ex_server ex_db1)
     = (Inr ob, s', sp)"
proof (rule put_object_total)
  have cutsize: "cut u n (ue_chunk_size (en_upload (s3_engine ex_s3))) = cut u n (ue_chunk_size (en_upload (ex_engine 0)))" for u n
    by simp
  have order: "en_order (s3_engine ex_s3) = en_order (ex_engine 0)" by (simp add: ex_s3_def)
  show "env_works (en_upload (s3_engine ex_s3))" using ex_works(1) by (simp add: env_works_def)
  show "distinct (map snd (en_order (s3_engine ex_s3)))" by (simp add: order ex_engine_def)
  show "set (map snd (en_order (s3_engine ex_s3))) = set (cut [117] 0 (ue_chunk_size (en_upload (s3_engine ex_s3))) 0 0 (concat [[5], [6, 7]]))"
    by (auto simp: order ex_engine_def cut.simps)
  show "stores (s3_engine ex_s3) (srv_db (ex_server ex_db1)) (cut [117] 0 (ue_chunk_size (en_upload (s3_engine ex_s3))) 0 0 (concat [[5], [6, 7]]))"
    by (simp add: stores_def cut.simps ex_s3_def ex_engine_def ex_store_def ex_db1_def empty_db_def row_messages_def pairs_def i64_defs)
qed (use ex_ok(1) in \<open>simp_all add: ex_db1_def empty_db_def bucket_named_def ex_bucket_def get_upload_def upload_rows_def
       default_condition_def condition_allows_def i64_defs\<close>)

lemma ex_put_handled:
  "\<exists>r s' spawned. handle ex_s3 ex_put_rq (map Inr [[5], [6, 7]]) (ex_server ex_db1) = Some (r, s', spawned)
     \<and> rs_status r = 200"
proof -
  obtain ob s' sp where put: "put_object (s3_engine ex_s3) [117] [98] [107] (map Inr [[5], [6, 7]])
     (metadata_from_headers []) None default_condition (ex_server ex_db1) = (Inr ob, s', sp)"
    using ex_put3_works by blast
  from put_object_cases [OF _ ex_s3_ok(3) put] ex_ok(1) have "obj_etag ob = [97]"
    by (auto simp: holds_body_def)
  with etag_header_ok [OF ex_s3_ok(1), of "[97]" "lit ''etag''"] obtain y where
    y: "ok_with_header (s3_lib ex_s3) (lit ''etag'') (quoted (obj_etag ob)) = Inr y" "rs_status y = 200" by auto
  have "dispatch ex_s3 ex_put_rq (map Inr [[5], [6, 7]]) (ex_server ex_db1) = Some (Inr y, s', sp)"
    using ex_put_dispatch [of "ex_server ex_db1" "map Inr [[5], [6, 7]]"] ex_bucket_named(1) ex_ok(1) put y(1)
    by (simp add: answer_with_def del: lit_simps)
  with y(2) show ?thesis
    by (simp add: handle_def ex_put_rq_def ex_plain ex_anonymous respond_def Let_def)
qed

theorem put_then_get_witness:
  "\<exists>r s' spawned r'. handle ex_s3 ex_put_rq (map Inr [[5], [6, 7]]) (ex_server ex_db1) = Some (r, s', spawned)
     \<and> handle ex_s3 ex_get_rq [] s' = Some (r', s', []) \<and> rs_status r' = 200
     \<and> map_of (rs_headers r') (lit ''content-length'') = Some (show_int 3)
     \<and> (case rs_body r' of Bytes b \<Rightarrow> b = [5, 6, 7] | Stream st \<Rightarrow> collect st = ([5, 6, 7], None))"
proof -
  from ex_put_handled obtain r s' sp where
    put: "handle ex_s3 ex_put_rq (map Inr [[5], [6, 7]]) (ex_server ex_db1) = Some (r, s', sp)" "rs_status r = 200" by blast
  have plain: "plain_put ex_put_rq" "plain_get ex_get_rq" "\<not> is_streaming_payload (rq_headers ex_get_rq)"
    by (simp_all add: plain_put_def plain_get_def ex_put_rq_def ex_get_rq_def ex_plain header_text_def is_cors_put_def)
  have target: "parse_target (s3_lib ex_s3) (rq_path ex_put_rq) (rq_headers ex_put_rq) (s3_public_host ex_s3)
       = Inr \<lparr>tgt_bucket = Some [98], tgt_key = Some [107]\<rparr>"
    "parse_target (s3_lib ex_s3) (rq_path ex_get_rq) (rq_headers ex_get_rq) (s3_public_host ex_s3)
       = Inr \<lparr>tgt_bucket = Some [98], tgt_key = Some [107]\<rparr>"
    by (simp_all add: ex_put_rq_def ex_get_rq_def ex_target)
  have serves: "telegram_serves ex_tg ex_api ex_gram b (snd p) s e"
    if "p \<in> set (cut (s3_uuid ex_s3) 0 (ue_chunk_size (en_upload (s3_engine ex_s3))) 0 0 (concat [[5], [6, 7]]))"
      "holds_piece (s3_engine ex_s3) b p" for b p s e
    using that by (auto simp: cut.simps holds_piece_def ex_s3_def ex_engine_def ex_store_def telegram_serves_def
        bot_serves_def ex_api_def trim_start_by_def i64_defs)
  have "\<exists>w. s3_gate ex_s3 n = Inr w" for n by (simp add: ex_s3_def)
  from put_then_get [OF _ ex_s3_ok(3) plain(1) put target(1) plain(2) ex_anonymous plain(3) ex_s3_sel(3) ex_s3_ok(1) target(2)
      ex_s3_sel(5) serves this, of "[]"] ex_ok(1) put
  show ?thesis by (auto split: body.splits)
qed

text \<open>
  The suffix range longer than the object, as the code answers it: \<open>Content-Length\<close> is the length
  asked for, not that of the body, and \<open>Content-Range\<close> starts before the object.
\<close>

lemma long_suffix_wrong_length:
  assumes "s3_get_object env bucket key headers head_only d = Inr r" and "db_ok d" and "crates_ok (s3_lib env)"
    and "header_text headers (lit ''range'') = Some (show_range (Last n))" and "n \<le> i64_max"
    and "lookup d (bucket, key) = Some ob" and "0 < obj_size ob" and "obj_size ob < n"
  shows "map_of (rs_headers r) (lit ''content-length'') = Some (show_int n) \<and> obj_size ob < n
    \<and> map_of (rs_headers r) (lit ''content-range'') = Some (lit ''bytes '' @ show_int (obj_size ob - n) @ lit ''-''
        @ show_int (obj_size ob - 1) @ lit ''/'' @ show_int (obj_size ob)) \<and> obj_size ob - n < 0"
  using long_suffix_response [OF assms] assms(8) by simp

section \<open>Two ways a request is not what it says\<close>

text \<open>
  A subresource the server does not implement (\<open>?acl\<close>, \<open>?tagging\<close>, \<open>?policy\<close> and so on) is not
  refused: without \<open>uploadId\<close>, \<open>uploads\<close> and \<open>delete\<close> the query of an object request plays no part,
  so \<open>PUT ?acl\<close> overwrites the object and \<open>DELETE ?tagging\<close> deletes it.
\<close>

lemma subresources_ignored:
  assumes "query_value q (lit ''uploadId'') = None" and "\<not> query_has q (lit ''uploads'')" and "\<not> query_has q (lit ''delete'')"
  shows "dispatch_object env meth bucket key q headers frames s = dispatch_object env meth bucket key [] headers frames s"
  using assms ex_plain(3,4) by (simp add: dispatch_object_def del: lit_simps)

text \<open>The path \<open>/b/\<close> addresses the object with the empty key, where S3 means the bucket.\<close>

lemma trailing_slash_is_a_key:
  "parse_target (s3_lib ex_s3) [47, 98, 47] [] None = Inr \<lparr>tgt_bucket = Some [98], tgt_key = Some []\<rparr>"
  by (simp add: parse_target_def target_by_path_def decode_path_def ex_s3_def ex_lib_def header_text_def
      trim_start_by_def ex_decode utf8_decode_utf8 [of "[]", simplified])

end
