(* ===== verification/Session.thy ===== *)
theory Session
  imports Model
begin

text \<open>
  \<open>src/telegram/session.rs\<close>: the store of the grammers session in SQLite, with the cache of
  the home datacenter and of the datacenter options in memory.

  A table is the list of its rows in the order SQLite scans them: by the integer primary key,
  or by insertion. The grammers types appear as the code takes them apart; their methods are the
  fields of \<open>session_lib\<close>, as are the textual forms of socket addresses. A \<open>PeerId\<close> is
  opaque (\<open>'p\<close>), so is \<open>SocketAddrV4\<close> (\<open>'a\<close>), and of a \<open>SocketAddrV6\<close> all but its flow
  information (\<open>'b\<close>); a \<open>PeerAuth\<close> is its hash. The write lock makes each operation one step; a poisoned mutex, which takes a
  panic inside it, and failures of the database file are not modelled.
\<close>

unbundle bit_operations_syntax

section \<open>The types of grammers\<close>

datatype peer_kind = Kind_User | Kind_Chat | Kind_Channel

datatype channel_kind = Megagroup | Broadcast | Gigagroup

datatype peer_info =
    Peer_User (user_id: int) (user_auth: "int option") (user_bot: "bool option") (user_is_self: "bool option")
  | Peer_Chat int
  | Peer_Channel int "int option" "channel_kind option"

record 'b socket_addr_v6 =
  v6_endpoint :: 'b
  v6_flowinfo :: nat

record ('a, 'b) dc_option =
  dc_id :: int
  dc_ipv4 :: 'a
  dc_ipv6 :: "'b socket_addr_v6"
  dc_auth_key :: "nat list option"

record channel_state =
  chs_id :: int
  chs_pts :: int

record updates_state =
  us_pts :: int
  us_qts :: int
  us_date :: int
  us_seq :: int
  us_channels :: "channel_state list"

definition default_updates :: updates_state where
  "default_updates = \<lparr>us_pts = 0, us_qts = 0, us_date = 0, us_seq = 0, us_channels = []\<rparr>"

datatype update_state =
    All_State updates_state
  | Primary int int int
  | Secondary int
  | Channel_Update int int

record ('p, 'a, 'b) session_lib =
  sl_dialog_id :: "'p \<Rightarrow> int option"
  sl_dialog_id_unchecked :: "'p \<Rightarrow> int"
  sl_kind :: "'p \<Rightarrow> peer_kind"
  sl_bare_id :: "'p \<Rightarrow> int"
  sl_user :: "int \<Rightarrow> 'p"
  sl_peer_id :: "peer_info \<Rightarrow> 'p"
  sl_auth :: "peer_info \<Rightarrow> int option"
  sl_extend :: "peer_info \<Rightarrow> peer_info \<Rightarrow> peer_info"
  sl_show_v4 :: "'a \<Rightarrow> str"
  sl_parse_v4 :: "str \<Rightarrow> 'a option"
  sl_show_v6 :: "'b socket_addr_v6 \<Rightarrow> str"
  sl_parse_v6 :: "str \<Rightarrow> 'b socket_addr_v6 option"
  sl_default_home :: int
  sl_default_dcs :: "int \<rightharpoonup> ('a, 'b) dc_option"

section \<open>The tables\<close>

record dc_row =
  dcr_id :: int
  dcr_ipv4 :: str
  dcr_ipv6 :: str
  dcr_auth_key :: "nat list option"

record peer_row =
  pr_id :: int
  pr_hash :: "int option"
  pr_subtype :: "int option"

record update_row =
  ur_pts :: int
  ur_qts :: int
  ur_date :: int
  ur_seq :: int

record session_store =
  st_dc_home :: "int list"
  st_dc_option :: "dc_row list"
  st_peer_info :: "peer_row list"
  st_update_state :: "update_row list"
  st_channel_state :: "channel_state list"
  st_user_version :: int

definition empty_store :: session_store where
  "empty_store = \<lparr>st_dc_home = [], st_dc_option = [], st_peer_info = [], st_update_state = [],
     st_channel_state = [], st_user_version = 0\<rparr>"

text \<open>\<open>INSERT OR REPLACE\<close> into a table with an integer primary key, which orders it.\<close>

fun upsert :: "('r \<Rightarrow> int) \<Rightarrow> 'r \<Rightarrow> 'r list \<Rightarrow> 'r list" where
  "upsert key r [] = [r]"
| "upsert key r (x # xs) =
     (if key r < key x then r # x # xs
      else if key r = key x then r # xs
      else x # upsert key r xs)"

datatype session_error =
    Poisoned
  | Session_Io str
  | Addr_Parse str
  | Session_Sql sql_constraint
  | Invalid_Auth_Key_Length nat

primrec session_error_text :: "session_error \<Rightarrow> str" where
  "session_error_text Poisoned = lit ''session lock is poisoned''"
| "session_error_text (Session_Io e) = lit ''session filesystem error: '' @ e"
| "session_error_text (Addr_Parse e) = lit ''invalid socket address syntax: '' @ e"
| "session_error_text (Session_Sql e) = error_text (Sql e)"
| "session_error_text (Invalid_Auth_Key_Length actual) =
     lit ''invalid auth_key length: expected 256, got '' @ show_nat actual"

section \<open>Opening\<close>

record ('a, 'b) session =
  ss_store :: session_store
  ss_home_dc :: int
  ss_dc_options :: "int \<rightharpoonup> ('a, 'b) dc_option"

text \<open>The tables exist afterwards; a new file gets the version marker.\<close>

definition initialize_schema :: "session_store option \<Rightarrow> session_store" where
  "initialize_schema file =
     (let st = (case file of None \<Rightarrow> empty_store | Some st \<Rightarrow> st)
      in if st_user_version st = 0 then st\<lparr>st_user_version := 1\<rparr> else st)"

definition auth_key_of :: "nat list option \<Rightarrow> session_error + nat list option" where
  "auth_key_of value =
     (case value of
        None \<Rightarrow> Inr None
      | Some key \<Rightarrow> if length key = 256 then Inr (Some key) else Inl (Invalid_Auth_Key_Length (length key)))"

definition parse_addr :: "(str \<Rightarrow> 'a option) \<Rightarrow> str \<Rightarrow> session_error + 'a" where
  "parse_addr parse text = (case parse text of Some a \<Rightarrow> Inr a | None \<Rightarrow> Inl (Addr_Parse text))"

definition dc_from_row :: "('p, 'a, 'b) session_lib \<Rightarrow> dc_row \<Rightarrow> session_error + ('a, 'b) dc_option" where
  "dc_from_row lib row =
     (case auth_key_of (dcr_auth_key row) of
        Inl e \<Rightarrow> Inl e
      | Inr auth_key \<Rightarrow>
          (case parse_addr (sl_parse_v4 lib) (dcr_ipv4 row) of
             Inl e \<Rightarrow> Inl e
           | Inr ipv4 \<Rightarrow>
               (case parse_addr (sl_parse_v6 lib) (dcr_ipv6 row) of
                  Inl e \<Rightarrow> Inl e
                | Inr ipv6 \<Rightarrow> Inr \<lparr>dc_id = dcr_id row, dc_ipv4 = ipv4, dc_ipv6 = ipv6, dc_auth_key = auth_key\<rparr>)))"

fun load_dcs ::
  "('p, 'a, 'b) session_lib \<Rightarrow> dc_row list \<Rightarrow> (int \<rightharpoonup> ('a, 'b) dc_option) \<Rightarrow> session_error + (int \<rightharpoonup> ('a, 'b) dc_option)"
where
  "load_dcs lib [] dcs = Inr dcs"
| "load_dcs lib (row # rows) dcs =
     (case dc_from_row lib row of
        Inl e \<Rightarrow> Inl e
      | Inr dc \<Rightarrow> load_dcs lib rows (dcs(dc_id dc \<mapsto> dc)))"

definition open_session ::
  "('p, 'a, 'b) session_lib \<Rightarrow> session_store option \<Rightarrow> session_error + ('a, 'b) session"
where
  "open_session lib file =
     (let st = initialize_schema file;
          home_dc = (case st_dc_home st of [] \<Rightarrow> sl_default_home lib | dc # _ \<Rightarrow> dc)
      in (case load_dcs lib (st_dc_option st) (sl_default_dcs lib) of
            Inl e \<Rightarrow> Inl e
          | Inr dcs \<Rightarrow> Inr \<lparr>ss_store = st, ss_home_dc = home_dc, ss_dc_options = dcs\<rparr>))"

section \<open>Datacenters\<close>

definition home_dc_id :: "('a, 'b) session \<Rightarrow> int" where
  "home_dc_id s = ss_home_dc s"

definition set_home_dc_id :: "int \<Rightarrow> ('a, 'b) session \<Rightarrow> ('a, 'b) session" where
  "set_home_dc_id dc s = s\<lparr>ss_store := (ss_store s)\<lparr>st_dc_home := [dc]\<rparr>, ss_home_dc := dc\<rparr>"

definition dc_option_of :: "int \<Rightarrow> ('a, 'b) session \<Rightarrow> ('a, 'b) dc_option option" where
  "dc_option_of dc s = ss_dc_options s dc"

definition set_dc_option ::
  "('p, 'a, 'b) session_lib \<Rightarrow> ('a, 'b) dc_option \<Rightarrow> ('a, 'b) session \<Rightarrow> ('a, 'b) session"
where
  "set_dc_option lib dc s = s\<lparr>
     ss_store := (ss_store s)\<lparr>st_dc_option := upsert dcr_id \<lparr>dcr_id = dc_id dc, dcr_ipv4 = sl_show_v4 lib (dc_ipv4 dc),
         dcr_ipv6 = sl_show_v6 lib (dc_ipv6 dc), dcr_auth_key = dc_auth_key dc\<rparr> (st_dc_option (ss_store s))\<rparr>,
     ss_dc_options := (ss_dc_options s)(dc_id dc \<mapsto> dc)\<rparr>"

section \<open>Peers\<close>

definition peer_user_self :: int where "peer_user_self = 1"
definition peer_user_bot :: int where "peer_user_bot = 2"
definition peer_megagroup :: int where "peer_megagroup = 4"
definition peer_broadcast :: int where "peer_broadcast = 8"
definition peer_gigagroup :: int where "peer_gigagroup = 12"

lemmas peer_flags = peer_user_self_def peer_user_bot_def peer_megagroup_def peer_broadcast_def peer_gigagroup_def

definition channel_kind_of :: "int \<Rightarrow> channel_kind option" where
  "channel_kind_of v =
     (if v AND peer_gigagroup = peer_gigagroup then Some Gigagroup
      else if v AND peer_broadcast \<noteq> 0 then Some Broadcast
      else if v AND peer_megagroup \<noteq> 0 then Some Megagroup
      else None)"

text \<open>A condition \<open>subtype & 1\<close> does not hold for \<open>NULL\<close>.\<close>

definition load_peer ::
  "('p, 'a, 'b) session_lib \<Rightarrow> 'p \<Rightarrow> session_store \<Rightarrow> peer_info option"
where
  "load_peer lib peer st =
     (let row = (case sl_dialog_id lib peer of
             Some peer_id \<Rightarrow> find (\<lambda>r. pr_id r = peer_id) (st_peer_info st)
           | None \<Rightarrow> find (\<lambda>r. case pr_subtype r of Some v \<Rightarrow> v AND peer_user_self \<noteq> 0 | None \<Rightarrow> False) (st_peer_info st))
      in map_option (\<lambda>row.
           (case sl_kind lib peer of
              Kind_User \<Rightarrow> Peer_User (sl_bare_id lib (sl_user lib (pr_id row))) (pr_hash row)
                (map_option (\<lambda>v. v AND peer_user_bot \<noteq> 0) (pr_subtype row))
                (map_option (\<lambda>v. v AND peer_user_self \<noteq> 0) (pr_subtype row))
            | Kind_Chat \<Rightarrow> Peer_Chat (sl_bare_id lib peer)
            | Kind_Channel \<Rightarrow> Peer_Channel (sl_bare_id lib peer) (pr_hash row)
                (Option.bind (pr_subtype row) channel_kind_of))) row)"

definition subtype_of :: "peer_info \<Rightarrow> int option" where
  "subtype_of peer =
     (case peer of
        Peer_User _ _ is_bot is_self \<Rightarrow>
          (case (is_bot = Some True, is_self = Some True) of
             (True, True) \<Rightarrow> Some (peer_user_self OR peer_user_bot)
           | (True, False) \<Rightarrow> Some peer_user_bot
           | (False, True) \<Rightarrow> Some peer_user_self
           | (False, False) \<Rightarrow> None)
      | Peer_Chat _ \<Rightarrow> None
      | Peer_Channel _ _ kind \<Rightarrow>
          map_option (\<lambda>k. case k of
              Megagroup \<Rightarrow> peer_megagroup | Broadcast \<Rightarrow> peer_broadcast | Gigagroup \<Rightarrow> peer_gigagroup) kind)"

definition cache_peer ::
  "('p, 'a, 'b) session_lib \<Rightarrow> peer_info \<Rightarrow> ('a, 'b) session \<Rightarrow> ('a, 'b) session"
where
  "cache_peer lib peer s =
     (let peer = (case load_peer lib (sl_peer_id lib peer) (ss_store s) of
            Some existing \<Rightarrow> sl_extend lib existing peer
          | None \<Rightarrow> peer)
      in s\<lparr>ss_store := (ss_store s)\<lparr>st_peer_info := upsert pr_id
           \<lparr>pr_id = sl_dialog_id_unchecked lib (sl_peer_id lib peer), pr_hash = sl_auth lib peer,
            pr_subtype = subtype_of peer\<rparr> (st_peer_info (ss_store s))\<rparr>\<rparr>)"

section \<open>Update states\<close>

definition updates_state_of :: "session_store \<Rightarrow> updates_state" where
  "updates_state_of st =
     (let base = (case st_update_state st of
            row # _ \<Rightarrow> \<lparr>us_pts = ur_pts row, us_qts = ur_qts row, us_date = ur_date row, us_seq = ur_seq row, us_channels = []\<rparr>
          | [] \<Rightarrow> default_updates)
      in base\<lparr>us_channels := st_channel_state st\<rparr>)"

text \<open>The \<open>INSERT\<close>s of the channels of a whole state, into the emptied table.\<close>

fun insert_channels :: "channel_state list \<Rightarrow> channel_state list \<Rightarrow> session_error + channel_state list" where
  "insert_channels [] table = Inr table"
| "insert_channels (c # cs) table =
     (if chs_id c \<in> set (map chs_id table) then Inl (Session_Sql UniqueViolation)
      else insert_channels cs (upsert chs_id c table))"

definition update_tx :: "update_state \<Rightarrow> session_store \<Rightarrow> session_error + session_store" where
  "update_tx update st =
     (case update of
        All_State state \<Rightarrow>
          map_sum id (\<lambda>channels. st\<lparr>st_update_state := [\<lparr>ur_pts = us_pts state, ur_qts = us_qts state,
                ur_date = us_date state, ur_seq = us_seq state\<rparr>], st_channel_state := channels\<rparr>)
            (insert_channels (us_channels state) [])
      | Primary pts date seq \<Rightarrow>
          Inr (st\<lparr>st_update_state :=
            (if st_update_state st = [] then [\<lparr>ur_pts = pts, ur_qts = 0, ur_date = date, ur_seq = seq\<rparr>]
             else map (\<lambda>r. r\<lparr>ur_pts := pts, ur_date := date, ur_seq := seq\<rparr>) (st_update_state st))\<rparr>)
      | Secondary qts \<Rightarrow>
          Inr (st\<lparr>st_update_state :=
            (if st_update_state st = [] then [\<lparr>ur_pts = 0, ur_qts = qts, ur_date = 0, ur_seq = 0\<rparr>]
             else map (\<lambda>r. r\<lparr>ur_qts := qts\<rparr>) (st_update_state st))\<rparr>)
      | Channel_Update channel pts \<Rightarrow>
          Inr (st\<lparr>st_channel_state := upsert chs_id \<lparr>chs_id = channel, chs_pts = pts\<rparr> (st_channel_state st)\<rparr>))"

text \<open>The transaction is rolled back on an error.\<close>

definition set_update_state ::
  "update_state \<Rightarrow> ('a, 'b) session \<Rightarrow> (session_error + unit) \<times> ('a, 'b) session"
where
  "set_update_state update s =
     (case update_tx update (ss_store s) of
        Inl e \<Rightarrow> (Inl e, s)
      | Inr st \<Rightarrow> (Inr (), s\<lparr>ss_store := st\<rparr>))"

end
