(* ===== verification/Spec_Session.thy ===== *)
theory Spec_Session
  imports Session
begin

text \<open>
  The properties of the session store: what the running session holds in memory is what opening
  its file again gives, and the tables of the update state implement the update state.
\<close>

section \<open>Tables ordered by their keys\<close>

definition ordered :: "('r \<Rightarrow> int) \<Rightarrow> 'r list \<Rightarrow> bool" where
  "ordered key rows \<longleftrightarrow> sorted_wrt (<) (map key rows)"

lemma ordered_simps [simp]: "ordered key []" "ordered key (r # rows) \<longleftrightarrow> (\<forall>x \<in> set rows. key r < key x) \<and> ordered key rows"
  by (simp_all add: ordered_def)

lemma upsert_set: "ordered key rows \<Longrightarrow> set (upsert key r rows) = {x \<in> set rows. key x \<noteq> key r} \<union> {r}"
proof (induction rows)
  case (Cons x xs)
  then show ?case by (cases "key r" "key x" rule: linorder_cases) auto
qed simp

lemma upsert_ordered: "ordered key rows \<Longrightarrow> ordered key (upsert key r rows)"
  by (induction rows) (auto simp: upsert_set)

lemma ordered_unique:
  assumes "ordered key xs" and "ordered key ys" and "set xs = set ys"
  shows "xs = ys"
proof (rule map_sorted_distinct_set_unique [where f = key])
  have inj: "inj_on key (set zs)" if "ordered key zs" for zs
    using that by (auto simp: ordered_def strict_sorted_iff distinct_map)
  show "inj_on key (set xs \<union> set ys)" using inj [OF assms(1)] assms(3) by simp
  have "sorted (map key zs) \<and> distinct (map key zs)" if "ordered key zs" for zs
    using that by (simp add: ordered_def strict_sorted_iff)
  with assms show "sorted (map key xs)" "distinct (map key xs)" "sorted (map key ys)" "distinct (map key ys)" by simp_all
qed (fact assms(3))

definition store_ordered :: "session_store \<Rightarrow> bool" where
  "store_ordered st \<longleftrightarrow> ordered dcr_id (st_dc_option st) \<and> ordered pr_id (st_peer_info st)
     \<and> ordered chs_id (st_channel_state st) \<and> length (st_update_state st) \<le> 1"

section \<open>Reopening\<close>

text \<open>
  What an address is printed as parses back (\<open>Display\<close> and \<open>FromStr\<close> of the standard library),
  except that the printed form of an IPv6 address leaves out its flow information, which is 0 in
  the parsed address.
\<close>

definition addrs_parse_back :: "('p, 'a, 'b) session_lib \<Rightarrow> bool" where
  "addrs_parse_back lib \<longleftrightarrow> (\<forall>a. sl_parse_v4 lib (sl_show_v4 lib a) = Some a)
     \<and> (\<forall>b. sl_parse_v6 lib (sl_show_v6 lib b) = Some (b\<lparr>v6_flowinfo := 0\<rparr>))"

definition no_flow :: "('a, 'b) dc_option \<Rightarrow> ('a, 'b) dc_option" where
  "no_flow dc = dc\<lparr>dc_ipv6 := (dc_ipv6 dc)\<lparr>v6_flowinfo := 0\<rparr>\<rparr>"

lemma no_flow_id [simp]: "dc_id (no_flow dc) = dc_id dc"
  by (simp add: no_flow_def)

lemma no_flow_eq: "v6_flowinfo (dc_ipv6 dc) = 0 \<Longrightarrow> no_flow dc = dc"
  by (cases dc, cases "dc_ipv6 dc") (simp add: no_flow_def)

text \<open>Options as they are read back: each as it was, or without its flow information.\<close>

definition reloaded :: "(int \<rightharpoonup> ('a, 'b) dc_option) \<Rightarrow> (int \<rightharpoonup> ('a, 'b) dc_option) \<Rightarrow> bool" where
  "reloaded opts dcs \<longleftrightarrow> (\<forall>i. opts i = dcs i \<or> opts i = map_option no_flow (dcs i))"

lemma reloaded_refl [simp]: "reloaded dcs dcs"
  by (simp add: reloaded_def)

lemma reloaded_eq:
  assumes "reloaded opts dcs" and "\<And>dc. dc \<in> ran dcs \<Longrightarrow> v6_flowinfo (dc_ipv6 dc) = 0"
  shows "opts = dcs"
proof
  fix i
  show "opts i = dcs i"
    using assms(1) [unfolded reloaded_def, rule_format, of i] no_flow_eq [OF assms(2) [OF ranI]]
    by (cases "dcs i") auto
qed

definition key_valid :: "('a, 'b) dc_option \<Rightarrow> bool" where
  "key_valid dc \<longleftrightarrow> (\<forall>key. dc_auth_key dc = Some key \<longrightarrow> length key = 256)"

lemma load_dcs_upd:
  assumes "load_dcs lib rows m = Inr m'" and "i \<notin> dcr_id ` set rows"
  shows "load_dcs lib rows (m(i := x)) = Inr (m'(i := x))"
  using assms
proof (induction rows arbitrary: m)
  case (Cons row rows)
  then obtain dc where dc: "dc_from_row lib row = Inr dc" and rest: "load_dcs lib rows (m(dc_id dc \<mapsto> dc)) = Inr m'"
    by (auto split: sum.splits)
  have "dc_id dc = dcr_id row" using dc by (auto simp: dc_from_row_def split: sum.splits)
  then have "i \<noteq> dc_id dc" using Cons.prems(2) by auto
  with Cons.IH [OF rest] Cons.prems(2) dc show ?case by (simp add: fun_upd_twist del: fun_upd_apply)
qed simp

lemma load_dcs_upsert:
  assumes "load_dcs lib rows m = Inr m'" and "ordered dcr_id rows" and "dc_from_row lib r = Inr dc"
  shows "load_dcs lib (upsert dcr_id r rows) m = Inr (m'(dc_id dc \<mapsto> dc))"
proof -
  have id: "dc_id dc' = dcr_id row" if "dc_from_row lib row = Inr dc'" for row dc'
    using that by (auto simp: dc_from_row_def split: sum.splits)
  show ?thesis
    using assms(1,2)
  proof (induction rows arbitrary: m)
    case Nil
    then show ?case using assms(3) by (simp del: fun_upd_apply)
  next
    case (Cons x xs)
    from Cons.prems(1) obtain y where y: "dc_from_row lib x = Inr y" and rest: "load_dcs lib xs (m(dc_id y \<mapsto> y)) = Inr m'"
      by (auto split: sum.splits)
    consider "dcr_id r < dcr_id x" | "dcr_id r = dcr_id x" | "dcr_id x < dcr_id r" by linarith
    then show ?case
    proof cases
      case 1
      then have "dcr_id r \<notin> dcr_id ` set (x # xs)" using Cons.prems(2) by fastforce
      from load_dcs_upd [OF Cons.prems(1) this, of "Some dc"] 1 assms(3) id show ?thesis by (simp del: fun_upd_apply)
    next
      case 2
      then have "dcr_id r \<notin> dcr_id ` set xs" using Cons.prems(2) by fastforce
      from load_dcs_upd [OF rest this, of "Some dc"] 2 assms(3) id y show ?thesis by (simp del: fun_upd_apply)
    next
      case 3
      with Cons.IH [OF rest] Cons.prems(2) y show ?thesis by (simp del: fun_upd_apply)
    qed
  qed
qed

definition session_ok :: "('p, 'a, 'b) session_lib \<Rightarrow> ('a, 'b) session \<Rightarrow> bool" where
  "session_ok lib s \<longleftrightarrow> store_ordered (ss_store s)
     \<and> (\<exists>opts. open_session lib (Some (ss_store s)) = Inr (s\<lparr>ss_dc_options := opts\<rparr>) \<and> reloaded opts (ss_dc_options s))"

lemma session_ok_iff:
  "session_ok lib s \<longleftrightarrow> store_ordered (ss_store s) \<and> st_user_version (ss_store s) \<noteq> 0
     \<and> ss_home_dc s = (case st_dc_home (ss_store s) of [] \<Rightarrow> sl_default_home lib | dc # _ \<Rightarrow> dc)
     \<and> (\<exists>opts. load_dcs lib (st_dc_option (ss_store s)) (sl_default_dcs lib) = Inr opts \<and> reloaded opts (ss_dc_options s))"
proof (cases s)
  case (fields st home dcs)
  have "(st\<lparr>st_user_version := 1\<rparr> = st) = (st_user_version st = 1)" by (cases st) auto
  with fields show ?thesis
    by (auto simp: session_ok_def open_session_def initialize_schema_def Let_def split: sum.splits)
qed

lemma open_session_ok:
  assumes "open_session lib file = Inr s" and "\<And>st. file = Some st \<Longrightarrow> store_ordered st"
  shows "session_ok lib s"
proof -
  have "store_ordered (initialize_schema file)" "st_user_version (initialize_schema file) \<noteq> 0"
    using assms(2) by (auto simp: initialize_schema_def store_ordered_def empty_store_def Let_def split: option.splits)
  with assms(1) show ?thesis
    by (auto simp: session_ok_iff open_session_def Let_def intro: reloaded_refl split: sum.splits)
qed

section \<open>The steps of a session\<close>

inductive session_steps ::
  "('p, 'a, 'b) session_lib \<Rightarrow> ('a, 'b) session \<Rightarrow> ('a, 'b) session \<Rightarrow> bool" for lib where
  steps_refl: "session_steps lib s s"
| steps_home: "session_steps lib s t \<Longrightarrow> session_steps lib s (set_home_dc_id dc t)"
| steps_dc: "session_steps lib s t \<Longrightarrow> key_valid dc \<Longrightarrow> session_steps lib s (set_dc_option lib dc t)"
| steps_peer: "session_steps lib s t \<Longrightarrow> session_steps lib s (cache_peer lib peer t)"
| steps_update: "session_steps lib s t \<Longrightarrow> set_update_state update t = (r, t') \<Longrightarrow> session_steps lib s t'"

lemma set_home_ok: "session_ok lib s \<Longrightarrow> session_ok lib (set_home_dc_id dc s)"
  by (simp add: session_ok_iff set_home_dc_id_def store_ordered_def)

lemma set_dc_option_ok:
  assumes "session_ok lib s" and "addrs_parse_back lib" and "key_valid dc"
  shows "session_ok lib (set_dc_option lib dc s)"
proof -
  let ?row = "\<lparr>dcr_id = dc_id dc, dcr_ipv4 = sl_show_v4 lib (dc_ipv4 dc), dcr_ipv6 = sl_show_v6 lib (dc_ipv6 dc),
     dcr_auth_key = dc_auth_key dc\<rparr>"
  have "auth_key_of (dc_auth_key dc) = Inr (dc_auth_key dc)"
    using assms(3) by (cases "dc_auth_key dc") (simp_all add: auth_key_of_def key_valid_def)
  then have row: "dc_from_row lib ?row = Inr (no_flow dc)"
    using assms(2) by (simp add: dc_from_row_def parse_addr_def addrs_parse_back_def no_flow_def)
  from assms(1) have ord: "ordered dcr_id (st_dc_option (ss_store s))"
    by (simp_all add: session_ok_iff store_ordered_def)
  from assms(1) obtain opts where ld: "load_dcs lib (st_dc_option (ss_store s)) (sl_default_dcs lib) = Inr opts"
    and opts: "reloaded opts (ss_dc_options s)" by (auto simp: session_ok_iff)
  from opts have "reloaded (opts(dc_id dc \<mapsto> no_flow dc)) ((ss_dc_options s)(dc_id dc \<mapsto> dc))" by (simp add: reloaded_def)
  with load_dcs_upsert [OF ld ord row] upsert_ordered [OF ord, of ?row] assms(1) show ?thesis
    by (simp add: session_ok_iff set_dc_option_def store_ordered_def del: fun_upd_apply)
qed

lemma cache_peer_ok: "session_ok lib s \<Longrightarrow> session_ok lib (cache_peer lib peer s)"
  by (simp add: session_ok_iff cache_peer_def store_ordered_def Let_def upsert_ordered)

lemma insert_channels_ordered:
  "insert_channels cs table = Inr table' \<Longrightarrow> ordered chs_id table \<Longrightarrow> ordered chs_id table'
     \<and> set table' = set table \<union> set cs \<and> distinct (map chs_id cs) \<and> chs_id ` set cs \<inter> chs_id ` set table = {}"
proof (induction cs arbitrary: table)
  case (Cons c cs)
  from Cons.prems(1) have new: "chs_id c \<notin> chs_id ` set table" and rest: "insert_channels cs (upsert chs_id c table) = Inr table'"
    by (auto split: if_splits)
  have "{x \<in> set table. chs_id x \<noteq> chs_id c} = set table" using new by (auto simp: image_iff)
  with upsert_set [OF Cons.prems(2), of c] have set: "set (upsert chs_id c table) = insert c (set table)" by simp
  from Cons.IH [OF rest upsert_ordered [OF Cons.prems(2)]] new show ?case by (auto simp: set)
qed simp

lemma update_tx_ordered:
  assumes "update_tx update st = Inr st'" and "store_ordered st"
  shows "store_ordered st' \<and> st_dc_home st' = st_dc_home st \<and> st_dc_option st' = st_dc_option st
    \<and> st_user_version st' = st_user_version st"
  using assms insert_channels_ordered [of _ "[]"]
  by (cases update) (auto simp: update_tx_def store_ordered_def upsert_ordered map_sum_def split: sum.splits)

lemma set_update_ok: "session_ok lib s \<Longrightarrow> set_update_state update s = (r, s') \<Longrightarrow> session_ok lib s'"
  using update_tx_ordered [of update "ss_store s"]
  by (auto simp: session_ok_iff set_update_state_def split: sum.splits)

lemma session_steps_ok:
  "session_steps lib s t \<Longrightarrow> session_ok lib s \<Longrightarrow> addrs_parse_back lib \<Longrightarrow> session_ok lib t"
  by (induction rule: session_steps.induct)
    (auto intro: set_home_ok set_dc_option_ok cache_peer_ok set_update_ok)

text \<open>
  C32: The session in memory is the one in its file, but for the flow information of IPv6 addresses,
  which their text does not hold. After any operations on a session that was opened (home
  datacenter, datacenter options, peers, update states, in any order, failed ones included),
  opening the file again gives the same tables, the same home datacenter and the same options with
  their addresses and keys, each option with its flow information or with none; it gives exactly
  that session when no option has flow information.
\<close>

theorem session_reopens:
  assumes "open_session lib file = Inr s" and "\<And>st. file = Some st \<Longrightarrow> store_ordered st"
    and "addrs_parse_back lib" and "session_steps lib s t"
  shows "\<exists>opts. open_session lib (Some (ss_store t)) = Inr (t\<lparr>ss_dc_options := opts\<rparr>)
    \<and> (\<forall>i. opts i = ss_dc_options t i \<or> opts i = map_option no_flow (ss_dc_options t i))
    \<and> ((\<forall>dc \<in> ran (ss_dc_options t). v6_flowinfo (dc_ipv6 dc) = 0) \<longrightarrow> opts = ss_dc_options t)"
proof -
  from session_steps_ok [OF assms(4) open_session_ok [OF assms(1,2)] assms(3)]
  obtain opts where "open_session lib (Some (ss_store t)) = Inr (t\<lparr>ss_dc_options := opts\<rparr>)"
    and r: "reloaded opts (ss_dc_options t)" by (auto simp: session_ok_def)
  then show ?thesis using reloaded_eq [OF r] by (intro exI [of _ opts]) (simp add: reloaded_def)
qed

definition ex_slib :: "(int, nat, nat) session_lib" where
  "ex_slib = \<lparr>sl_dialog_id = (\<lambda>p. if p = 0 then None else Some p), sl_dialog_id_unchecked = (\<lambda>p. p), sl_kind = (\<lambda>_. Kind_User),
     sl_bare_id = (\<lambda>p. p), sl_user = (\<lambda>i. i), sl_peer_id = (\<lambda>p. case p of Peer_User i _ _ _ \<Rightarrow> i | _ \<Rightarrow> 0),
     sl_auth = (\<lambda>p. case p of Peer_User _ a _ _ \<Rightarrow> a | _ \<Rightarrow> None), sl_extend = (\<lambda>old new. new),
     sl_show_v4 = (\<lambda>n. [n]), sl_parse_v4 = (\<lambda>s. Some (hd s)), sl_show_v6 = (\<lambda>a. [v6_endpoint a]),
     sl_parse_v6 = (\<lambda>s. Some \<lparr>v6_endpoint = hd s, v6_flowinfo = 0\<rparr>),
     sl_default_home = 2, sl_default_dcs = Map.empty\<rparr>"

definition ex_dc :: "(nat, nat) dc_option" where
  "ex_dc = \<lparr>dc_id = 4, dc_ipv4 = 7, dc_ipv6 = \<lparr>v6_endpoint = 8, v6_flowinfo = 0\<rparr>, dc_auth_key = None\<rparr>"

definition ex_session :: "(nat, nat) session" where
  "ex_session = \<lparr>ss_store = empty_store\<lparr>st_user_version := 1\<rparr>, ss_home_dc = 2, ss_dc_options = Map.empty\<rparr>"

lemma ex_opened: "open_session ex_slib None = Inr ex_session"
  by (simp add: open_session_def initialize_schema_def Let_def empty_store_def ex_slib_def ex_session_def)

lemma ex_steps: "session_steps ex_slib ex_session (set_dc_option ex_slib ex_dc (set_home_dc_id 4 ex_session))"
  by (intro session_steps.intros) (simp add: key_valid_def ex_dc_def)

theorem session_reopens_witness:
  "\<exists>t. open_session ex_slib (Some (ss_store t)) = Inr t \<and> ss_home_dc t = 4 \<and> ss_dc_options t 4 = Some ex_dc"
proof -
  have "addrs_parse_back ex_slib" by (simp add: addrs_parse_back_def ex_slib_def)
  let ?t = "set_dc_option ex_slib ex_dc (set_home_dc_id 4 ex_session)"
  have t: "ss_dc_options ?t = [4 \<mapsto> ex_dc]" by (simp add: set_dc_option_def set_home_dc_id_def ex_dc_def ex_session_def)
  then have "\<forall>dc \<in> ran (ss_dc_options ?t). v6_flowinfo (dc_ipv6 dc) = 0" by (simp add: ex_dc_def)
  with session_reopens [OF ex_opened _ \<open>addrs_parse_back ex_slib\<close> ex_steps]
  have "open_session ex_slib (Some (ss_store ?t)) = Inr ?t" by auto
  moreover have "ss_home_dc ?t = 4 \<and> ss_dc_options ?t 4 = Some ex_dc"
    using t by (simp add: set_dc_option_def set_home_dc_id_def)
  ultimately show ?thesis by blast
qed

section \<open>The update state\<close>

text \<open>What an update means for the state of the account.\<close>

fun apply_update :: "update_state \<Rightarrow> updates_state \<Rightarrow> updates_state option" where
  "apply_update (All_State state) u =
     (if distinct (map chs_id (us_channels state))
      then Some (state\<lparr>us_channels := sort_key chs_id (us_channels state)\<rparr>) else None)"
| "apply_update (Primary pts date seq) u = Some (u\<lparr>us_pts := pts, us_date := date, us_seq := seq\<rparr>)"
| "apply_update (Secondary qts) u = Some (u\<lparr>us_qts := qts\<rparr>)"
| "apply_update (Channel_Update c pts) u =
     Some (u\<lparr>us_channels := sort_key chs_id (\<lparr>chs_id = c, chs_pts = pts\<rparr> # filter (\<lambda>x. chs_id x \<noteq> c) (us_channels u))\<rparr>)"

lemma insert_channels_Inl:
  assumes "insert_channels cs table = Inl e" and "ordered chs_id table"
  shows "\<not> distinct (map chs_id cs) \<or> chs_id ` set cs \<inter> chs_id ` set table \<noteq> {}"
  using assms
proof (induction cs arbitrary: table)
  case (Cons c cs)
  show ?case
  proof (cases "chs_id c \<in> chs_id ` set table")
    case False
    with Cons.prems(1) have "insert_channels cs (upsert chs_id c table) = Inl e" by simp
    from Cons.IH [OF this upsert_ordered [OF Cons.prems(2)]] False show ?thesis
      by (auto simp: upsert_set [OF Cons.prems(2)])
  qed auto
qed simp

lemma ordered_sort_key: "distinct (map chs_id cs) \<Longrightarrow> ordered chs_id (sort_key chs_id cs)"
proof -
  assume d: "distinct (map chs_id cs)"
  then have "distinct (map chs_id (sort_key chs_id cs))" by (simp add: distinct_map)
  then show ?thesis by (simp add: ordered_def strict_sorted_iff)
qed

lemma insert_channels_sorted:
  assumes "insert_channels cs [] = Inr table"
  shows "distinct (map chs_id cs)" "table = sort_key chs_id cs"
proof -
  from insert_channels_ordered [OF assms] have t: "ordered chs_id table" "set table = set cs" and d: "distinct (map chs_id cs)" by auto
  show "distinct (map chs_id cs)" by (fact d)
  show "table = sort_key chs_id cs" by (rule ordered_unique [OF t(1) ordered_sort_key [OF d]]) (simp add: t(2))
qed

lemma upsert_sorted:
  assumes "ordered chs_id table"
  shows "upsert chs_id c table = sort_key chs_id (c # filter (\<lambda>x. chs_id x \<noteq> chs_id c) table)"
proof (rule ordered_unique [OF upsert_ordered [OF assms] ordered_sort_key])
  have "distinct (map chs_id table)" using assms by (simp add: ordered_def strict_sorted_iff)
  then show "distinct (map chs_id (c # filter (\<lambda>x. chs_id x \<noteq> chs_id c) table))"
    by (auto simp: distinct_map inj_on_def)
  show "set (upsert chs_id c table) = set (sort_key chs_id (c # filter (\<lambda>x. chs_id x \<noteq> chs_id c) table))"
    by (simp only: set_sort upsert_set [OF assms]) auto
qed

text \<open>
  C33: The tables implement the update state. Writing an update and reading the state back is
  applying the update to the state read before: a whole state replaces it (its channels ordered
  by id), the primary and the secondary update change only their fields, also when nothing was
  stored, and a channel update changes its channel only. Only a whole state that names a channel
  twice is refused, and then nothing has changed.
\<close>

theorem update_state_refines:
  assumes "store_ordered (ss_store s)" and "set_update_state update s = (r, s')"
  shows "case r of
      Inr _ \<Rightarrow> apply_update update (updates_state_of (ss_store s)) = Some (updates_state_of (ss_store s'))
    | Inl e \<Rightarrow> apply_update update (updates_state_of (ss_store s)) = None \<and> s' = s"
proof (cases update)
  case (All_State state)
  show ?thesis
  proof (cases "insert_channels (us_channels state) []")
    case (Inl e)
    with insert_channels_Inl [OF Inl] All_State assms(2) show ?thesis
      by (auto simp: set_update_state_def update_tx_def)
  next
    case (Inr table)
    with insert_channels_sorted [OF Inr] All_State assms(2) show ?thesis
      by (auto simp: set_update_state_def update_tx_def updates_state_of_def)
  qed
next
  case (Primary pts date seq)
  with assms show ?thesis
    by (cases "st_update_state (ss_store s)")
      (auto simp: set_update_state_def update_tx_def updates_state_of_def default_updates_def)
next
  case (Secondary qts)
  with assms show ?thesis
    by (cases "st_update_state (ss_store s)")
      (auto simp: set_update_state_def update_tx_def updates_state_of_def default_updates_def)
next
  case (Channel_Update c pts)
  with assms upsert_sorted [of "st_channel_state (ss_store s)" "\<lparr>chs_id = c, chs_pts = pts\<rparr>"] show ?thesis
    by (cases "st_update_state (ss_store s)")
      (auto simp: set_update_state_def update_tx_def updates_state_of_def default_updates_def store_ordered_def)
qed

theorem update_state_refines_witness:
  "\<exists>s'. set_update_state (Secondary 9) ex_session = (Inr (), s')
     \<and> updates_state_of (ss_store s') = default_updates\<lparr>us_qts := 9\<rparr>"
proof -
  have "store_ordered (ss_store ex_session)" by (simp add: store_ordered_def ex_session_def empty_store_def)
  moreover obtain s' where s': "set_update_state (Secondary 9) ex_session = (Inr (), s')"
    by (simp add: set_update_state_def update_tx_def)
  moreover have "updates_state_of (ss_store ex_session) = default_updates"
    by (simp add: updates_state_of_def ex_session_def empty_store_def default_updates_def)
  ultimately show ?thesis using update_state_refines [of ex_session "Secondary 9" "Inr ()" s'] by simp
qed

section \<open>Peers\<close>

text \<open>The flags of a peer survive the store: what was true is true, and nothing else is.\<close>

lemma subtype_flags:
  "map_option (\<lambda>v. v AND peer_user_bot \<noteq> 0) (subtype_of (Peer_User i a is_bot is_self)) = Some True \<longleftrightarrow> is_bot = Some True"
  "map_option (\<lambda>v. v AND peer_user_self \<noteq> 0) (subtype_of (Peer_User i a is_bot is_self)) = Some True \<longleftrightarrow> is_self = Some True"
  "Option.bind (subtype_of (Peer_Channel i a kind)) channel_kind_of = kind"
proof -
  show "map_option (\<lambda>v. v AND peer_user_bot \<noteq> 0) (subtype_of (Peer_User i a is_bot is_self)) = Some True \<longleftrightarrow> is_bot = Some True"
    by (cases "is_bot = Some True"; cases "is_self = Some True") (simp_all add: subtype_of_def peer_flags)
  show "map_option (\<lambda>v. v AND peer_user_self \<noteq> 0) (subtype_of (Peer_User i a is_bot is_self)) = Some True \<longleftrightarrow> is_self = Some True"
    by (cases "is_bot = Some True"; cases "is_self = Some True") (simp_all add: subtype_of_def peer_flags)
  have "channel_kind_of 4 = Some Megagroup" "channel_kind_of 8 = Some Broadcast" "channel_kind_of 12 = Some Gigagroup"
    by (simp_all add: channel_kind_of_def peer_flags)
  then show "Option.bind (subtype_of (Peer_Channel i a kind)) channel_kind_of = kind"
    by (cases kind) (simp_all add: subtype_of_def peer_flags split: channel_kind.splits)
qed

lemma find_upsert:
  assumes "ordered pr_id rows"
  shows "find (\<lambda>r. pr_id r = pr_id row) (upsert pr_id row rows) = Some row"
  using assms by (induction rows) auto

lemma cached_user_loaded:
  assumes "store_ordered (ss_store s)" and "load_peer lib (sl_peer_id lib peer) (ss_store s) = None"
    and "peer = Peer_User i a is_bot is_self" and "sl_kind lib (sl_peer_id lib peer) = Kind_User"
    and "sl_dialog_id lib (sl_peer_id lib peer) = Some (sl_dialog_id_unchecked lib (sl_peer_id lib peer))"
    and "sl_bare_id lib (sl_user lib (sl_dialog_id_unchecked lib (sl_peer_id lib peer))) = i" and "sl_auth lib peer = a"
  shows "\<exists>b self. load_peer lib (sl_peer_id lib peer) (ss_store (cache_peer lib peer s)) = Some (Peer_User i a b self)
    \<and> (b = Some True \<longleftrightarrow> is_bot = Some True) \<and> (self = Some True \<longleftrightarrow> is_self = Some True)"
proof -
  let ?p = "sl_peer_id lib peer"
  define row where "row = \<lparr>pr_id = sl_dialog_id_unchecked lib ?p, pr_hash = a, pr_subtype = subtype_of peer\<rparr>"
  have "st_peer_info (ss_store (cache_peer lib peer s)) = upsert pr_id row (st_peer_info (ss_store s))"
    using assms(2,7) by (simp add: cache_peer_def row_def)
  moreover have "find (\<lambda>r. pr_id r = pr_id row) (upsert pr_id row (st_peer_info (ss_store s))) = Some row"
    using assms(1) by (intro find_upsert) (simp add: store_ordered_def)
  ultimately have "load_peer lib ?p (ss_store (cache_peer lib peer s)) = Some (Peer_User i a
      (map_option (\<lambda>v. v AND peer_user_bot \<noteq> 0) (subtype_of peer)) (map_option (\<lambda>v. v AND peer_user_self \<noteq> 0) (subtype_of peer)))"
    using assms(4-6) by (simp add: load_peer_def row_def)
  then show ?thesis using subtype_flags(1,2) [of i a is_bot is_self] assms(3) by blast
qed

end
