(* ===== verification/Config.thy ===== *)
theory Config
  imports S3_Http Engine_Gc
begin

text \<open>
  \<open>src/config.rs\<close>: the arguments of the command line and the environment, and the configuration
  they are checked and normalised into. A path is text; \<open>Url::parse\<close> and the creation of
  directories are the fields of \<open>config_env\<close>.
\<close>

section \<open>Arguments and configuration\<close>

definition max_telegram_concurrency :: nat where "max_telegram_concurrency = 1024"
definition max_telegram_timeout_secs :: nat where "max_telegram_timeout_secs = 24 * 60 * 60"
definition max_gc_interval_secs :: nat where "max_gc_interval_secs = 365 * 24 * 60 * 60"
definition max_object_size_limit :: nat where "max_object_size_limit = 5 * 1024 * 1024 * 1024 * 1024"
definition max_active_transfers_limit :: nat where "max_active_transfers_limit = 1024"
definition max_limit_wait_secs :: nat where "max_limit_wait_secs = 60 * 60"
definition max_rate_bps :: nat where "max_rate_bps = 1024 * 1024 * 1024 * 1024"
definition default_bot_api_chunk_size :: nat where "default_bot_api_chunk_size = 16 * 1024 * 1024"
definition default_grammers_chunk_size :: nat where "default_grammers_chunk_size = 64 * 1024 * 1024"
definition default_max_object_size :: nat where "default_max_object_size = 50 * 1024 * 1024 * 1024"

lemmas config_limits = max_telegram_concurrency_def max_telegram_timeout_secs_def max_gc_interval_secs_def
  max_object_size_limit_def max_active_transfers_limit_def max_limit_wait_secs_def max_rate_bps_def max_gc_limit_def
  default_bot_api_chunk_size_def default_grammers_chunk_size_def default_max_object_size_def

record config_args =
  ca_data_dir :: str
  ca_db_path :: "str option"
  ca_listen :: str
  ca_bot_token :: "str option"
  ca_chat_id :: "int option"
  ca_telegram_backend :: str
  ca_telegram_api_url :: str
  ca_local_bot_api :: bool
  ca_chunk_size :: "nat option"
  ca_upload_concurrency :: nat
  ca_download_concurrency :: nat
  ca_telegram_timeout_secs :: nat
  ca_grammers_api_id :: "int option"
  ca_grammers_api_hash :: "str option"
  ca_grammers_session_path :: "str option"
  ca_grammers_chat_username :: "str option"
  ca_grammers_chat_access_hash :: "int option"
  ca_grammers_max_flood_wait_secs :: nat
  ca_access_key :: "str option"
  ca_secret_key :: "str option"
  ca_allow_anonymous :: bool
  ca_region :: str
  ca_public_host :: "str option"
  ca_init_buckets :: str
  ca_cors_allowed_origins :: str
  ca_cors_allowed_methods :: str
  ca_cors_allowed_headers :: str
  ca_cors_expose_headers :: str
  ca_cors_max_age :: nat
  ca_gc_interval :: nat
  ca_gc_limit :: nat
  ca_max_object_size :: nat
  ca_max_active_transfers :: nat
  ca_limit_wait_secs :: nat
  ca_upload_rate_bps :: nat
  ca_download_rate_bps :: nat

text \<open>The defaults the \<open>#[arg(default_value ..)]\<close> attributes declare.\<close>

definition default_args :: config_args where
  "default_args = \<lparr>ca_data_dir = lit ''./data'', ca_db_path = None, ca_listen = lit ''127.0.0.1:9000'',
     ca_bot_token = None, ca_chat_id = None, ca_telegram_backend = lit ''bot_api'',
     ca_telegram_api_url = lit ''https://api.telegram.org'', ca_local_bot_api = False, ca_chunk_size = None,
     ca_upload_concurrency = 4, ca_download_concurrency = 4, ca_telegram_timeout_secs = 300,
     ca_grammers_api_id = None, ca_grammers_api_hash = None, ca_grammers_session_path = None,
     ca_grammers_chat_username = None, ca_grammers_chat_access_hash = None, ca_grammers_max_flood_wait_secs = 30,
     ca_access_key = None, ca_secret_key = None, ca_allow_anonymous = False, ca_region = lit ''us-east-1'',
     ca_public_host = None, ca_init_buckets = [], ca_cors_allowed_origins = lit ''*'',
     ca_cors_allowed_methods = lit ''GET,POST,PUT,DELETE,HEAD'', ca_cors_allowed_headers = lit ''*'',
     ca_cors_expose_headers = lit ''ETag'', ca_cors_max_age = 3600, ca_gc_interval = 300, ca_gc_limit = 100,
     ca_max_object_size = default_max_object_size, ca_max_active_transfers = 16, ca_limit_wait_secs = 5,
     ca_upload_rate_bps = 0, ca_download_rate_bps = 0\<rparr>"

record config =
  cfg_data_dir :: str
  cfg_db_path :: str
  cfg_listen :: str
  cfg_bot_token :: str
  cfg_chat_id :: int
  cfg_telegram_backend :: telegram_backend
  cfg_telegram_api_url :: str
  cfg_local_bot_api :: bool
  cfg_chunk_size :: nat
  cfg_upload_concurrency :: nat
  cfg_download_concurrency :: nat
  cfg_telegram_timeout_secs :: nat
  cfg_grammers_api_id :: "int option"
  cfg_grammers_api_hash :: "str option"
  cfg_grammers_session_path :: str
  cfg_grammers_chat_username :: "str option"
  cfg_grammers_chat_access_hash :: "int option"
  cfg_grammers_max_flood_wait_secs :: nat
  cfg_access_key :: "str option"
  cfg_secret_key :: "str option"
  cfg_allow_anonymous :: bool
  cfg_region :: str
  cfg_public_host :: "str option"
  cfg_init_buckets :: "str list"
  cfg_cors :: cors_configuration
  cfg_gc_interval :: nat
  cfg_gc_limit :: nat
  cfg_max_object_size :: int
  cfg_max_active_transfers :: nat
  cfg_limit_wait_secs :: nat
  cfg_upload_rate_bps :: nat
  cfg_download_rate_bps :: nat

text \<open>\<open>url::Url\<close>, as far as the code reads it, and the file system.\<close>

record url =
  url_scheme :: str
  url_host :: "str option"
  url_port :: "nat option"
  url_path :: str
  url_query :: "str option"
  url_fragment :: "str option"

record config_env =
  ce_url :: "str \<Rightarrow> url option"
  ce_create_dir :: "str \<Rightarrow> bool"

section \<open>Paths\<close>

text \<open>\<open>Path::join\<close> with a relative path, and \<open>Path::parent\<close>.\<close>

definition path_join :: "str \<Rightarrow> str \<Rightarrow> str" where
  "path_join dir name = (if dir = [] \<or> last dir = 47 then dir @ name else dir @ [47] @ name)"

text \<open>A path without the separators and \<open>.\<close> components at its end, which name nothing.\<close>

function trim_path :: "str \<Rightarrow> str" where
  "trim_path p =
     (if 1 < length p \<and> (last p = 47 \<or> last p = 46 \<and> last (butlast p) = 47) then trim_path (butlast p) else p)"
  by pat_completeness auto
termination by (relation "measure length") auto

declare trim_path.simps [simp del]

definition path_parent :: "str \<Rightarrow> str option" where
  "path_parent path =
     (let p = trim_path path
      in if p = [] \<or> p = [47] then None
         else if 47 \<notin> set p then Some []
         else Some (trim_path (rev (dropWhile (\<lambda>c. c \<noteq> 47) (rev p)))))"

section \<open>The checks of \<open>into_config\<close>\<close>

definition ensure :: "bool \<Rightarrow> str \<Rightarrow> error + unit" where
  "ensure ok message = (if ok then Inr () else Inl (Other message))"

lemma ensure_Inr [simp]: "ensure ok message = Inr u \<longleftrightarrow> ok"
  by (simp add: ensure_def)

definition split_list :: "str \<Rightarrow> str list" where
  "split_list value = filter (\<lambda>v. v \<noteq> []) (map trim (split_on 44 value))"

definition bucket_name_valid :: "str \<Rightarrow> bool" where
  "bucket_name_valid bucket \<longleftrightarrow>
     (let bytes = utf8 bucket
      in \<not> (bucket = [] \<or> 63 < length bytes \<or> \<not> list_all bucket_byte bytes
         \<or> \<not> is_ascii_alphanumeric (bytes ! 0) \<or> \<not> is_ascii_alphanumeric (bytes ! (length bytes - 1))))"

definition validate_bucket_name :: "str \<Rightarrow> error + unit" where
  "validate_bucket_name bucket =
     (if \<not> bucket_name_valid bucket then Inl (Other (lit ''invalid bucket name: '' @ bucket)) else Inr ())"

fun validate_bucket_names :: "str list \<Rightarrow> error + unit" where
  "validate_bucket_names [] = Inr ()"
| "validate_bucket_names (b # bs) = bind_res (validate_bucket_name b) (\<lambda>_. validate_bucket_names bs)"

definition validate_cors :: "cors_configuration \<Rightarrow> error + unit" where
  "validate_cors cors =
     (if allowed_origins cors = [] \<or> allowed_methods cors = [] \<or> allowed_headers cors = []
      then Inl (Other (lit ''CORS origins, methods and headers must not be empty''))
      else if list_ex (\<lambda>origin. origin = lit ''*'' \<and> 1 < length (allowed_origins cors)) (allowed_origins cors)
      then Inl (Other (lit ''CORS wildcard origin cannot be combined with explicit origins''))
      else Inr ())"

definition normalize_public_host :: "config_env \<Rightarrow> str option \<Rightarrow> error + str option" where
  "normalize_public_host env value =
     (case value of
        None \<Rightarrow> Inr None
      | Some value \<Rightarrow>
          let trimmed = trim_end_by (\<lambda>c. c = 47) (trim value);
              url_value = (if contains trimmed (lit ''://'') then trimmed else lit ''http://'' @ trimmed)
          in (case ce_url env url_value of
                None \<Rightarrow> Inl (Other (lit ''parse TG2S3_PUBLIC_HOST''))
              | Some url \<Rightarrow>
                  if url_path url \<noteq> lit ''/'' \<or> url_query url \<noteq> None \<or> url_fragment url \<noteq> None
                  then Inl (Other (lit ''TG2S3_PUBLIC_HOST must be a host or URL without a path''))
                  else (case url_host url of
                      None \<Rightarrow> Inl (Other (lit ''TG2S3_PUBLIC_HOST has no host''))
                    | Some host \<Rightarrow> Inr (Some (case url_port url of
                          Some port \<Rightarrow> host @ lit '':'' @ show_nat port | None \<Rightarrow> host)))))"

definition normalize_telegram_api_url :: "config_env \<Rightarrow> str \<Rightarrow> error + str" where
  "normalize_telegram_api_url env value =
     (let trimmed = trim_end_by (\<lambda>c. c = 47) (trim value)
      in case ce_url env trimmed of
           None \<Rightarrow> Inl (Other (lit ''parse TG2S3_TELEGRAM_API_URL''))
         | Some url \<Rightarrow>
             if url_scheme url \<notin> {lit ''http'', lit ''https''} \<or> url_host url = None
               \<or> url_query url \<noteq> None \<or> url_fragment url \<noteq> None
             then Inl (Other (lit ''TG2S3_TELEGRAM_API_URL must be an HTTP(S) URL without a query or fragment''))
             else Inr trimmed)"

text \<open>The checks on the numbers of the transfers, in the order of the code.\<close>

definition check_transfers :: "config_args \<Rightarrow> error + unit" where
  "check_transfers args =
     bind_res (ensure (\<not> (ca_upload_concurrency args = 0 \<or> ca_download_concurrency args = 0
         \<or> max_telegram_concurrency < ca_upload_concurrency args \<or> max_telegram_concurrency < ca_download_concurrency args))
       (lit ''upload and download concurrency must be between 1 and 1024'')) (\<lambda>_.
     bind_res (ensure (\<not> (ca_telegram_timeout_secs args = 0 \<or> max_telegram_timeout_secs < ca_telegram_timeout_secs args))
       (lit ''TG2S3_TELEGRAM_TIMEOUT_SECS must be between 1 and 86400'')) (\<lambda>_.
     bind_res (ensure (\<not> max_telegram_timeout_secs < ca_grammers_max_flood_wait_secs args)
       (lit ''TG2S3_GRAMMERS_MAX_FLOOD_WAIT_SECS is too large'')) (\<lambda>_.
     ensure (\<not> (ca_gc_interval args = 0 \<or> max_gc_interval_secs < ca_gc_interval args
         \<or> ca_gc_limit args = 0 \<or> max_gc_limit < ca_gc_limit args))
       (lit ''GC interval must be between 1 and 31536000 seconds and GC limit between 1 and 100000''))))"

text \<open>What the grammers backend needs.\<close>

definition check_grammers :: "config_args \<Rightarrow> str option \<Rightarrow> str option \<Rightarrow> error + unit" where
  "check_grammers args api_hash chat_username =
     bind_res (ensure (case ca_grammers_api_id args of None \<Rightarrow> False | Some value \<Rightarrow> \<not> value \<le> 0)
       (lit ''TG2S3_TELEGRAM_API_ID is required and must be positive for grammers'')) (\<lambda>_.
     bind_res (ensure (api_hash \<noteq> None) (lit ''TG2S3_TELEGRAM_API_HASH is required for grammers'')) (\<lambda>_.
     ensure ((chat_username \<noteq> None) \<noteq> (ca_grammers_chat_access_hash args \<noteq> None))
       (lit ''configure exactly one of TG2S3_GRAMMERS_CHAT_USERNAME and TG2S3_GRAMMERS_CHAT_ACCESS_HASH'')))"

definition check_limits :: "config_args \<Rightarrow> error + unit" where
  "check_limits args =
     bind_res (ensure (\<not> (ca_max_object_size args = 0 \<or> max_object_size_limit < ca_max_object_size args))
       (lit ''TG2S3_MAX_OBJECT_SIZE must be between 1 and 5497558138880 bytes'')) (\<lambda>_.
     bind_res (ensure (\<not> (ca_max_active_transfers args = 0 \<or> max_active_transfers_limit < ca_max_active_transfers args))
       (lit ''TG2S3_MAX_ACTIVE_TRANSFERS must be between 1 and 1024'')) (\<lambda>_.
     bind_res (ensure (\<not> max_limit_wait_secs < ca_limit_wait_secs args)
       (lit ''TG2S3_LIMIT_WAIT_SECS must be at most 3600'')) (\<lambda>_.
     bind_res (ensure (\<not> max_rate_bps < ca_upload_rate_bps args)
       (lit ''TG2S3_UPLOAD_RATE_BPS must be at most 1099511627776 bytes per second'')) (\<lambda>_.
     ensure (\<not> max_rate_bps < ca_download_rate_bps args)
       (lit ''TG2S3_DOWNLOAD_RATE_BPS must be at most 1099511627776 bytes per second'')))))"

definition check_credentials :: "config_args \<Rightarrow> bool \<Rightarrow> error + unit" where
  "check_credentials args require_auth =
     bind_res
       (ensure (case (ca_access_key args, ca_secret_key args) of
            (Some access_key, Some secret_key) \<Rightarrow> access_key \<noteq> [] \<and> secret_key \<noteq> []
          | (None, None) \<Rightarrow> True
          | _ \<Rightarrow> False)
         (lit ''TG2S3_ACCESS_KEY and TG2S3_SECRET_KEY must be configured together'')) (\<lambda>_.
     ensure (\<not> (require_auth \<and> \<not> ca_allow_anonymous args
          \<and> (ca_access_key args = None \<or> ca_secret_key args = None)))
       (lit ''configure SigV4 credentials or explicitly set TG2S3_ALLOW_ANONYMOUS=true''))"

text \<open>\<open>create_dir_all\<close> with its context.\<close>

definition create_dir :: "config_env \<Rightarrow> str \<Rightarrow> str \<Rightarrow> error + unit" where
  "create_dir env what path = ensure (ce_create_dir env path) (lit ''create '' @ what @ lit '' directory '' @ path)"

definition create_parent :: "config_env \<Rightarrow> str \<Rightarrow> str \<Rightarrow> error + unit" where
  "create_parent env what path =
     (case path_parent path of None \<Rightarrow> Inr () | Some parent \<Rightarrow> create_dir env what parent)"

definition trimmed_option :: "str option \<Rightarrow> str option" where
  "trimmed_option value = (case map_option trim value of Some [] \<Rightarrow> None | v \<Rightarrow> v)"

definition chat_username_of :: "str option \<Rightarrow> str option" where
  "chat_username_of value =
     (case map_option (\<lambda>v. trim_start_by (\<lambda>c. c = 64) (trim v)) value of Some [] \<Rightarrow> None | v \<Rightarrow> v)"

definition cors_of :: "config_args \<Rightarrow> cors_configuration" where
  "cors_of args = \<lparr>allowed_origins = split_list (ca_cors_allowed_origins args),
     allowed_methods = map to_ascii_uppercase (split_list (ca_cors_allowed_methods args)),
     allowed_headers = split_list (ca_cors_allowed_headers args),
     expose_headers = split_list (ca_cors_expose_headers args),
     max_age_seconds = ca_cors_max_age args\<rparr>"

section \<open>\<open>into_config\<close>\<close>

text \<open>The configuration made of what was checked and normalised.\<close>

definition assemble ::
  "config_args \<Rightarrow> telegram_backend \<Rightarrow> nat \<Rightarrow> str \<Rightarrow> str \<Rightarrow> str \<Rightarrow> int \<Rightarrow> str option \<Rightarrow> str option \<Rightarrow> str list
     \<Rightarrow> cors_configuration \<Rightarrow> str \<Rightarrow> str \<Rightarrow> str option \<Rightarrow> config"
where
  "assemble args backend chunk_size db_path region bot_token chat_id api_hash chat_username init_buckets cors
     session_path telegram_api_url public_host =
     \<lparr>cfg_data_dir = ca_data_dir args, cfg_db_path = db_path, cfg_listen = ca_listen args,
     cfg_bot_token = bot_token, cfg_chat_id = chat_id, cfg_telegram_backend = backend,
     cfg_telegram_api_url = telegram_api_url, cfg_local_bot_api = ca_local_bot_api args,
     cfg_chunk_size = chunk_size, cfg_upload_concurrency = ca_upload_concurrency args,
     cfg_download_concurrency = ca_download_concurrency args,
     cfg_telegram_timeout_secs = ca_telegram_timeout_secs args,
     cfg_grammers_api_id = ca_grammers_api_id args, cfg_grammers_api_hash = api_hash,
     cfg_grammers_session_path = session_path, cfg_grammers_chat_username = chat_username,
     cfg_grammers_chat_access_hash = ca_grammers_chat_access_hash args,
     cfg_grammers_max_flood_wait_secs = ca_grammers_max_flood_wait_secs args,
     cfg_access_key = ca_access_key args, cfg_secret_key = ca_secret_key args,
     cfg_allow_anonymous = ca_allow_anonymous args, cfg_region = region, cfg_public_host = public_host,
     cfg_init_buckets = init_buckets, cfg_cors = cors, cfg_gc_interval = ca_gc_interval args,
     cfg_gc_limit = ca_gc_limit args, cfg_max_object_size = int (ca_max_object_size args),
     cfg_max_active_transfers = ca_max_active_transfers args, cfg_limit_wait_secs = ca_limit_wait_secs args,
     cfg_upload_rate_bps = ca_upload_rate_bps args,
     cfg_download_rate_bps = ca_download_rate_bps args\<rparr>"

definition into_config :: "config_env \<Rightarrow> config_args \<Rightarrow> bool \<Rightarrow> bool \<Rightarrow> error + config" where
  "into_config env args require_telegram require_auth =
     bind_res (map_sum (\<lambda>e. Other (lit ''TG2S3_TELEGRAM_BACKEND: '' @ e)) id (backend_from_str (ca_telegram_backend args)))
       (\<lambda>backend.
     let chunk_size = (case ca_chunk_size args of
             Some n \<Rightarrow> n
           | None \<Rightarrow> (case backend of BotApi \<Rightarrow> default_bot_api_chunk_size | Grammers \<Rightarrow> default_grammers_chunk_size));
         db_path = (case ca_db_path args of
             Some path \<Rightarrow> path | None \<Rightarrow> path_join (ca_data_dir args) (lit ''tg2s3.sqlite3''));
         region = trim (ca_region args);
         bot_token = (case ca_bot_token args of Some value \<Rightarrow> trim value | None \<Rightarrow> []);
         chat_id = (case ca_chat_id args of Some i \<Rightarrow> i | None \<Rightarrow> 0);
         api_hash = trimmed_option (ca_grammers_api_hash args);
         chat_username = chat_username_of (ca_grammers_chat_username args);
         init_buckets = split_list (ca_init_buckets args);
         cors = cors_of args;
         session_path = (case ca_grammers_session_path args of
             Some path \<Rightarrow> path | None \<Rightarrow> path_join (ca_data_dir args) (lit ''grammers.session.sqlite3''))
     in bind_res (ensure (\<not> (chunk_size = 0 \<or> 2000000000 < chunk_size))
          (lit ''chunk size must be between 1 and 2,000,000,000 bytes'')) (\<lambda>_.
        bind_res (ensure (region \<noteq> []) (lit ''TG2S3_REGION must not be empty'')) (\<lambda>_.
        bind_res (ensure (\<not> (backend = BotApi \<and> \<not> ca_local_bot_api args \<and> 20 * 1024 * 1024 < chunk_size))
          (lit ''public Bot API mode requires chunk size <= 20 MiB; enable TG2S3_LOCAL_BOT_API for larger chunks'')) (\<lambda>_.
        bind_res (check_transfers args) (\<lambda>_.
        bind_res (ensure (\<not> (require_telegram \<and> bot_token = [])) (lit ''TG2S3_BOT_TOKEN is required for this command'')) (\<lambda>_.
        bind_res (ensure (\<not> (require_telegram \<and> chat_id = 0)) (lit ''TG2S3_CHAT_ID is required for this command'')) (\<lambda>_.
        bind_res (if require_telegram \<and> backend = Grammers then check_grammers args api_hash chat_username else Inr ()) (\<lambda>_.
        bind_res (check_limits args) (\<lambda>_.
        bind_res (check_credentials args require_auth) (\<lambda>_.
        bind_res (validate_bucket_names init_buckets) (\<lambda>_.
        bind_res (validate_cors cors) (\<lambda>_.
        bind_res (create_dir env (lit ''data'') (ca_data_dir args)) (\<lambda>_.
        bind_res (create_parent env (lit ''database'') db_path) (\<lambda>_.
        bind_res (normalize_telegram_api_url env (ca_telegram_api_url args)) (\<lambda>telegram_api_url.
        bind_res (normalize_public_host env (ca_public_host args)) (\<lambda>public_host.
        bind_res (create_parent env (lit ''grammers session'') session_path) (\<lambda>_.
        bind_res (ensure (int (ca_max_object_size args) \<le> i64_max)
          (lit ''TG2S3_MAX_OBJECT_SIZE does not fit SQLite integer range'')) (\<lambda>_.
        Inr (assemble args backend chunk_size db_path region bot_token chat_id api_hash chat_username init_buckets cors
          session_path telegram_api_url public_host)))))))))))))))))))"

section \<open>What a configuration promises\<close>

definition config_ok :: "bool \<Rightarrow> bool \<Rightarrow> config \<Rightarrow> bool" where
  "config_ok require_telegram require_auth c \<longleftrightarrow>
     0 < cfg_chunk_size c \<and> cfg_chunk_size c \<le> 2000000000
     \<and> (cfg_telegram_backend c = BotApi \<and> \<not> cfg_local_bot_api c \<longrightarrow> cfg_chunk_size c \<le> 20 * 1024 * 1024)
     \<and> cfg_upload_concurrency c \<in> {1..1024} \<and> cfg_download_concurrency c \<in> {1..1024}
     \<and> cfg_telegram_timeout_secs c \<in> {1..86400} \<and> cfg_grammers_max_flood_wait_secs c \<le> 86400
     \<and> cfg_gc_interval c \<in> {1..31536000} \<and> cfg_gc_limit c \<in> {1..100000}
     \<and> 0 < cfg_max_object_size c \<and> cfg_max_object_size c \<le> 5 * 2 ^ 40 \<and> cfg_max_object_size c \<le> i64_max
     \<and> cfg_max_active_transfers c \<in> {1..1024} \<and> cfg_limit_wait_secs c \<le> 3600
     \<and> cfg_upload_rate_bps c \<le> 2 ^ 40 \<and> cfg_download_rate_bps c \<le> 2 ^ 40
     \<and> cfg_region c \<noteq> []
     \<and> (require_telegram \<longrightarrow> cfg_bot_token c \<noteq> [] \<and> cfg_chat_id c \<noteq> 0)
     \<and> (require_telegram \<and> cfg_telegram_backend c = Grammers \<longrightarrow>
          (\<exists>i. cfg_grammers_api_id c = Some i \<and> 0 < i) \<and> cfg_grammers_api_hash c \<noteq> None
          \<and> (cfg_grammers_chat_username c = None \<longleftrightarrow> cfg_grammers_chat_access_hash c \<noteq> None))
     \<and> (cfg_access_key c = None \<longleftrightarrow> cfg_secret_key c = None)
     \<and> (require_auth \<longrightarrow> cfg_allow_anonymous c \<or> cfg_access_key c \<noteq> None)
     \<and> list_all bucket_name_valid (cfg_init_buckets c)
     \<and> allowed_origins (cfg_cors c) \<noteq> [] \<and> allowed_methods (cfg_cors c) \<noteq> [] \<and> allowed_headers (cfg_cors c) \<noteq> []
     \<and> (lit ''*'' \<in> set (allowed_origins (cfg_cors c)) \<longrightarrow> allowed_origins (cfg_cors c) = [lit ''*''])"

lemma validate_bucket_names_Inr: "validate_bucket_names bs = Inr u \<longleftrightarrow> list_all bucket_name_valid bs"
  by (induction bs) (auto simp: validate_bucket_name_def bind_res_def)

lemma validate_cors_Inr:
  assumes "validate_cors cors = Inr u"
  shows "allowed_origins cors \<noteq> []" "allowed_methods cors \<noteq> []" "allowed_headers cors \<noteq> []"
    and "lit ''*'' \<in> set (allowed_origins cors) \<Longrightarrow> allowed_origins cors = [lit ''*'']"
proof -
  show ne: "allowed_origins cors \<noteq> []" "allowed_methods cors \<noteq> []" "allowed_headers cors \<noteq> []"
    using assms by (auto simp: validate_cors_def split: if_splits)
  assume star: "lit ''*'' \<in> set (allowed_origins cors)"
  then have "\<not> 1 < length (allowed_origins cors)"
    using assms ne by (auto simp: validate_cors_def list_ex_iff simp del: lit_simps split: if_splits)
  with ne star show "allowed_origins cors = [lit ''*'']" by (cases "allowed_origins cors") auto
qed

lemma check_transfers_Inr:
  "check_transfers args = Inr u \<longleftrightarrow>
     ca_upload_concurrency args \<in> {1..1024} \<and> ca_download_concurrency args \<in> {1..1024}
     \<and> ca_telegram_timeout_secs args \<in> {1..86400} \<and> ca_grammers_max_flood_wait_secs args \<le> 86400
     \<and> ca_gc_interval args \<in> {1..31536000} \<and> ca_gc_limit args \<in> {1..100000}"
  by (auto simp: check_transfers_def bind_res_Inr_iff config_limits)

lemma check_limits_Inr:
  "check_limits args = Inr u \<longleftrightarrow>
     0 < ca_max_object_size args \<and> ca_max_object_size args \<le> 5 * 2 ^ 40
     \<and> ca_max_active_transfers args \<in> {1..1024} \<and> ca_limit_wait_secs args \<le> 3600
     \<and> ca_upload_rate_bps args \<le> 2 ^ 40 \<and> ca_download_rate_bps args \<le> 2 ^ 40"
  by (auto simp: check_limits_def bind_res_Inr_iff config_limits)

lemma check_grammers_Inr:
  "check_grammers args api_hash chat_username = Inr u \<longleftrightarrow>
     (\<exists>i. ca_grammers_api_id args = Some i \<and> 0 < i) \<and> api_hash \<noteq> None
     \<and> (chat_username = None \<longleftrightarrow> ca_grammers_chat_access_hash args \<noteq> None)"
  by (auto simp: check_grammers_def bind_res_Inr_iff split: option.splits)

lemma check_credentials_Inr:
  "check_credentials args require_auth = Inr u \<Longrightarrow>
     (ca_access_key args = None \<longleftrightarrow> ca_secret_key args = None)
     \<and> (require_auth \<longrightarrow> ca_allow_anonymous args \<or> ca_access_key args \<noteq> None)"
  by (auto simp: check_credentials_def bind_res_Inr_iff split: option.splits)

lemma into_config_Inr:
  assumes "into_config env args require_telegram require_auth = Inr c"
  obtains backend chunk_size db_path bot_token chat_id api_hash chat_username session_path telegram_api_url public_host
  where "c = assemble args backend chunk_size db_path (trim (ca_region args)) bot_token chat_id api_hash chat_username
      (split_list (ca_init_buckets args)) (cors_of args) session_path telegram_api_url public_host"
    "0 < chunk_size" "chunk_size \<le> 2000000000" "trim (ca_region args) \<noteq> []"
    "backend = BotApi \<Longrightarrow> \<not> ca_local_bot_api args \<Longrightarrow> chunk_size \<le> 20 * 1024 * 1024"
    "check_transfers args = Inr ()" "require_telegram \<Longrightarrow> bot_token \<noteq> [] \<and> chat_id \<noteq> 0"
    "require_telegram \<Longrightarrow> backend = Grammers \<Longrightarrow> check_grammers args api_hash chat_username = Inr ()"
    "check_limits args = Inr ()" "check_credentials args require_auth = Inr ()"
    "validate_bucket_names (split_list (ca_init_buckets args)) = Inr ()" "validate_cors (cors_of args) = Inr ()"
    "int (ca_max_object_size args) \<le> i64_max"
  using assms unfolding into_config_def Let_def bind_res_Inr_iff
  apply (elim exE conjE)
  apply (drule sum.inject(2) [THEN iffD1])
  apply (rule that)
  apply (erule sym)
  apply (simp_all del: lit_simps)
  done

lemma into_config_ok:
  assumes "into_config env args require_telegram require_auth = Inr c"
  shows "config_ok require_telegram require_auth c"
  using assms
proof (cases rule: into_config_Inr)
  case (1 backend chunk_size db_path bot_token chat_id api_hash chat_username session_path telegram_api_url public_host)
  note facts = 1(2-5,7) 1(6) [unfolded check_transfers_Inr] 1(9) [unfolded check_limits_Inr]
    check_credentials_Inr [OF 1(10)] 1(11) [unfolded validate_bucket_names_Inr] validate_cors_Inr [OF 1(12)] 1(13)
  have "require_telegram \<Longrightarrow> backend = Grammers \<Longrightarrow> (\<exists>i. ca_grammers_api_id args = Some i \<and> 0 < i) \<and> api_hash \<noteq> None
     \<and> (chat_username = None \<longleftrightarrow> ca_grammers_chat_access_hash args \<noteq> None)"
    using 1(8) check_grammers_Inr by blast
  with facts show ?thesis unfolding config_ok_def 1(1)
    by (cases "ca_access_key args"; cases "ca_secret_key args") (simp_all add: assemble_def del: lit_simps)
qed

lemma into_config_credentials:
  assumes "into_config env args require_telegram True = Inr c" and "\<not> ca_allow_anonymous args"
  shows "\<exists>ak sk. ca_access_key args = Some ak \<and> ca_secret_key args = Some sk \<and> ak \<noteq> [] \<and> sk \<noteq> []
    \<and> cfg_access_key c = Some ak \<and> cfg_secret_key c = Some sk \<and> cfg_region c = trim (ca_region args)
    \<and> \<not> cfg_allow_anonymous c"
  using assms(1)
proof (cases rule: into_config_Inr)
  case (1 backend chunk_size db_path bot_token chat_id api_hash chat_username session_path telegram_api_url public_host)
  have "\<exists>ak sk. ca_access_key args = Some ak \<and> ca_secret_key args = Some sk \<and> ak \<noteq> [] \<and> sk \<noteq> []"
    using 1(10) assms(2)
    by (cases "ca_access_key args"; cases "ca_secret_key args")
      (simp_all add: check_credentials_def bind_res_Inr_iff del: lit_simps)
  with 1(1) assms(2) show ?thesis by (auto simp: assemble_def)
qed

end
