(* ===== verification/Telegram_Connect.thy ===== *)
theory Telegram_Connect
  imports Config Upload Session
begin

text \<open>
  Connecting to Telegram and sending a document: \<open>GrammersClient::connect\<close>, \<open>verify\<close> and
  \<open>upload_stream\<close> of \<open>src/telegram/grammers.rs\<close>, \<open>upload_stream\<close> of
  \<open>src/telegram/bot_api.rs\<close>, and the dispatch by backend of \<open>src/telegram/mod.rs\<close>. What
  Telegram and the crates answer is a parameter.
\<close>

section \<open>Sending a document through the Bot API\<close>

record api_document =
  ad_file_id :: str
  ad_file_unique_id :: str
  ad_file_size :: "int option"

record api_message =
  am_message_id :: int
  am_date :: int
  am_document :: "api_document option"

record uploaded_document =
  ud_message_id :: int
  ud_file_id :: str
  ud_file_unique_id :: str
  ud_file_size :: int
  ud_message_date :: int

text \<open>\<open>From<UploadedDocument>\<close> for \<open>StoredDocument\<close> and for \<open>BlockRef\<close>.\<close>

definition stored_from_uploaded :: "uploaded_document \<Rightarrow> stored_document" where
  "stored_from_uploaded doc = \<lparr>sd_backend = BotApi, sd_message_id = ud_message_id doc, sd_document_id = None,
     sd_file_id = ud_file_id doc, sd_file_unique_id = ud_file_unique_id doc, sd_file_size = ud_file_size doc,
     sd_message_date = ud_message_date doc\<rparr>"

definition block_from_uploaded :: "uploaded_document \<Rightarrow> block_ref" where
  "block_from_uploaded doc = \<lparr>blk_id = 0, blk_ordinal = 0, blk_offset = 0, blk_size = ud_file_size doc, blk_chat_id = 0,
     blk_message_id = ud_message_id doc, blk_backend = BotApi, blk_document_id = None, blk_file_id = ud_file_id doc,
     blk_file_unique_id = ud_file_unique_id doc, blk_message_date = ud_message_date doc\<rparr>"

text \<open>
  The outcome, and the messages the call deletes again. \<open>sent\<close> is what the \<open>POST\<close> returns;
  there is no retry.
\<close>

definition bot_upload_stream ::
  "(nat list \<Rightarrow> str + api_message api_envelope) \<Rightarrow> error + api_response \<Rightarrow> nat \<Rightarrow> (error + uploaded_document) \<times> int list"
where
  "bot_upload_stream parse sent sz =
     (case bind_res sent (decode (lit ''sendDocument'') parse) of
        Inl e \<Rightarrow> (Inl e, [])
      | Inr message \<Rightarrow>
          (case am_document message of
             None \<Rightarrow> (Inl (Other (lit ''Telegram sendDocument returned no document'')), [am_message_id message])
           | Some document \<Rightarrow>
               (Inr \<lparr>ud_message_id = am_message_id message, ud_file_id = ad_file_id document,
                  ud_file_unique_id = ad_file_unique_id document,
                  ud_file_size = (case ad_file_size document of Some n \<Rightarrow> n | None \<Rightarrow> min (int sz) i64_max),
                  ud_message_date = am_date message\<rparr>, [])))"

section \<open>Sending a document through grammers\<close>

text \<open>The media of a message: a document with its id and size, when it has one, or something else.\<close>

datatype media = Media_Document int "nat option" | Media_Other

record sent_message =
  sm_id :: int
  sm_media :: "media option"
  sm_date :: int

definition invocation_error :: "str \<Rightarrow> error" where
  "invocation_error e = Other (lit ''grammers Telegram request failed: '' @ e)"

definition call_grammers :: "str + 'a \<Rightarrow> error + 'a" where
  "call_grammers r = map_sum invocation_error id r"

lemma call_grammers_simps [simp]: "call_grammers (Inl e) = Inl (invocation_error e)" "call_grammers (Inr x) = Inr x"
  by (simp_all add: call_grammers_def)

text \<open>The size of a stored document that can be used.\<close>

definition document_size :: "nat option \<Rightarrow> error + int" where
  "document_size sz =
     (case sz of
        Some n \<Rightarrow> if int n \<le> i64_max then Inr (int n) else Inl (Other (lit ''grammers document size is unavailable''))
      | None \<Rightarrow> Inl (Other (lit ''grammers document size is unavailable'')))"

definition grammers_document :: "sent_message \<Rightarrow> error + (int \<times> int)" where
  "grammers_document message =
     (case sm_media message of
        Some (Media_Document document_id sz) \<Rightarrow> bind_res (document_size sz) (\<lambda>n. Inr (document_id, n))
      | Some Media_Other \<Rightarrow> Inl (Other (lit ''grammers returned a non-document media''))
      | None \<Rightarrow> Inl (Other (lit ''grammers returned a message without media'')))"

definition grammers_upload_stream ::
  "str + unit \<Rightarrow> str + sent_message \<Rightarrow> nat \<Rightarrow> (error + stored_document) \<times> int list"
where
  "grammers_upload_stream uploaded sent sz =
     (if 2 ^ 64 \<le> sz then (Inl (Other (lit ''grammers upload size does not fit usize'')), [])
      else
        (case bind_res (map_sum (\<lambda>e. Other (lit ''grammers upload failed: '' @ e)) id uploaded) (\<lambda>_. call_grammers sent) of
           Inl e \<Rightarrow> (Inl e, [])
         | Inr message \<Rightarrow>
             (case grammers_document message of
                Inl e \<Rightarrow> (Inl e, [sm_id message])
              | Inr (document_id, file_size) \<Rightarrow>
                  if i64_max < int sz then (Inl (Other (lit ''grammers upload size is too large'')), [])
                  else if file_size \<noteq> int sz
                  then (Inl (Other (lit ''grammers stored chunk with size '' @ show_int file_size @ lit '', expected ''
                          @ show_nat sz)), [sm_id message])
                  else (Inr \<lparr>sd_backend = Grammers, sd_message_id = sm_id message, sd_document_id = Some document_id,
                          sd_file_id = [], sd_file_unique_id = show_int document_id, sd_file_size = file_size,
                          sd_message_date = sm_date message\<rparr>, []))))"

text \<open>\<open>TelegramClient::upload_stream\<close>.\<close>

definition tg_upload_stream ::
  "telegram_client \<Rightarrow> (error + uploaded_document) \<times> int list \<Rightarrow> (error + stored_document) \<times> int list
     \<Rightarrow> (error + stored_document) \<times> int list"
where
  "tg_upload_stream tg via_bot via_grammers =
     (case active_backend tg of
        BotApi \<Rightarrow> map_prod (map_sum id stored_from_uploaded) id via_bot
      | Grammers \<Rightarrow> if has_grammers tg then via_grammers else (Inl no_grammers, []))"

lemma bot_upload_stream_orphans:
  assumes "bot_upload_stream parse sent sz = (Inl e, gone)" and "bind_res sent (decode (lit ''sendDocument'') parse) = Inr m"
  shows "gone = [am_message_id m]"
  using assms by (auto simp: bot_upload_stream_def simp del: lit_simps split: option.splits)

lemma grammers_upload_stream_orphans:
  assumes "grammers_upload_stream (Inr ()) (Inr m) sz = (Inl e, gone)" and "int sz \<le> i64_max"
  shows "gone = [sm_id m]"
  using assms by (auto simp: grammers_upload_stream_def i64_defs simp del: lit_simps split: sum.splits prod.splits if_splits)

section \<open>Connecting grammers\<close>

definition bot_id_from_token :: "str \<Rightarrow> error + int" where
  "bot_id_from_token token =
     (case Option.bind (split_once 58 token) (\<lambda>(i, _). parse_i64 i) of
        Some i \<Rightarrow> if 0 < i then Inr i else Inl (Other (lit ''TG2S3_BOT_TOKEN must start with a numeric bot id''))
      | None \<Rightarrow> Inl (Other (lit ''TG2S3_BOT_TOKEN must start with a numeric bot id'')))"

text \<open>
  A channel as grammers resolves it: its dialog id, its kind, what \<open>admin_rights\<close> says of
  deleting and posting, the outcome of \<open>to_ref\<close>.
\<close>

record gram_channel =
  gc_dialog_id :: "int option"
  gc_kind :: "channel_kind option"
  gc_rights :: "(bool \<times> bool) option"
  gc_title :: str
  gc_ref :: "str + bool"

datatype gram_peer = Peer_Is_Channel gram_channel | Peer_Other

record gram_net =
  gn_open_session :: "str \<Rightarrow> session_error option"
  gn_authorized :: "str + bool"
  gn_sign_in :: "str \<Rightarrow> str \<Rightarrow> str + unit"
  gn_me :: "str + int option"
  gn_username :: "str \<Rightarrow> str + gram_peer option"
  gn_dialog_peer :: "int \<Rightarrow> int option option"
  gn_channel :: "int \<Rightarrow> int \<Rightarrow> str + gram_peer"
  gn_storage :: "gram_channel \<Rightarrow> str + gram_peer"
  gn_is_admin :: "gram_channel \<Rightarrow> str + bool"

definition the_channel :: "gram_peer \<Rightarrow> int \<Rightarrow> error + gram_channel" where
  "the_channel peer chat_id =
     (case peer of
        Peer_Other \<Rightarrow> Inl (Other (lit ''grammers storage peer must be a channel or supergroup''))
      | Peer_Is_Channel channel \<Rightarrow>
          if gc_dialog_id channel \<noteq> Some chat_id
          then Inl (Other (lit ''grammers storage peer does not match TG2S3_CHAT_ID''))
          else Inr channel)"

definition resolve_storage_peer :: "gram_net \<Rightarrow> config \<Rightarrow> error + gram_channel" where
  "resolve_storage_peer net c =
     bind_res
       (case cfg_grammers_chat_username c of
          Some username \<Rightarrow>
            bind_res (call_grammers (gn_username net username)) (\<lambda>found.
            case found of
              Some peer \<Rightarrow> Inr peer
            | None \<Rightarrow> Inl (Other (lit ''grammers storage username was not found'')))
        | None \<Rightarrow>
            (case cfg_grammers_chat_access_hash c of
               None \<Rightarrow> Inl (Other (lit ''grammers storage username or access hash is required''))
             | Some access_hash \<Rightarrow>
                 (case gn_dialog_peer net (cfg_chat_id c) of
                    None \<Rightarrow> Inl (Other (lit ''invalid Telegram Bot API chat ID''))
                  | Some None \<Rightarrow> Inl (Other (lit ''invalid Telegram channel ID''))
                  | Some (Some channel_id) \<Rightarrow> call_grammers (gn_channel net channel_id access_hash))))
       (\<lambda>peer.
     bind_res (the_channel peer (cfg_chat_id c)) (\<lambda>channel.
     case gc_ref channel of
       Inl e \<Rightarrow> Inl (Other (lit ''cache grammers storage peer: '' @ e))
     | Inr False \<Rightarrow> Inl (Other (lit ''grammers storage peer has no usable reference''))
     | Inr True \<Rightarrow> Inr channel))"

definition grammers_connect :: "gram_net \<Rightarrow> config \<Rightarrow> error + gram_channel" where
  "grammers_connect net c =
     bind_res (bot_id_from_token (cfg_bot_token c)) (\<lambda>expected_bot_id.
     case cfg_grammers_api_id c of
       None \<Rightarrow> Inl (Other (lit ''TG2S3_TELEGRAM_API_ID is required for grammers''))
     | Some api_id \<Rightarrow>
     (case cfg_grammers_api_hash c of
       None \<Rightarrow> Inl (Other (lit ''TG2S3_TELEGRAM_API_HASH is required for grammers''))
     | Some api_hash \<Rightarrow>
     (case gn_open_session net (cfg_grammers_session_path c) of
       Some e \<Rightarrow> Inl (Other (lit ''open grammers session '' @ cfg_grammers_session_path c))
     | None \<Rightarrow>
         bind_res (call_grammers (gn_authorized net)) (\<lambda>authorized.
         bind_res (if \<not> authorized then call_grammers (gn_sign_in net (cfg_bot_token c) api_hash) else Inr ()) (\<lambda>_.
         bind_res (call_grammers (gn_me net)) (\<lambda>me.
         if me \<noteq> Some expected_bot_id
         then Inl (Other (lit ''grammers session belongs to bot '' @ show_int (case me of Some i \<Rightarrow> i | None \<Rightarrow> 0)
                @ lit '', expected bot '' @ show_int expected_bot_id))
         else resolve_storage_peer net c))))))"

definition grammers_verify :: "gram_net \<Rightarrow> gram_channel \<Rightarrow> int \<Rightarrow> error + (str \<times> str)" where
  "grammers_verify net peer chat_id =
     bind_res (map_sum (\<lambda>e. Other (lit ''grammers upload failed: '' @ e)) id (gn_storage net peer)) (\<lambda>resolved.
     bind_res (the_channel resolved chat_id) (\<lambda>channel.
     bind_res (call_grammers (gn_me net)) (\<lambda>_.
     bind_res (call_grammers (gn_is_admin net peer)) (\<lambda>admin.
     if \<not> admin then Inl (Other (lit ''grammers account must be an administrator of the storage chat''))
     else
       bind_res
         (case gc_rights channel of
            None \<Rightarrow> Inr ()
          | Some (delete_rights, post_rights) \<Rightarrow>
              if \<not> delete_rights then Inl (Other (lit ''grammers account needs permission to delete storage messages''))
              else if gc_kind channel = Some Broadcast \<and> \<not> post_rights
              then Inl (Other (lit ''grammers account needs permission to post in the storage channel''))
              else Inr ()) (\<lambda>_.
       Inr (gc_title channel, lit ''channel''))))))"

lemma the_channel_Inr: "the_channel peer chat_id = Inr channel \<Longrightarrow> gc_dialog_id channel = Some chat_id"
  by (auto simp: the_channel_def split: gram_peer.splits if_splits)

lemma resolve_storage_peer_Inr:
  assumes "resolve_storage_peer net c = Inr channel"
  shows "gc_dialog_id channel = Some (cfg_chat_id c)"
proof -
  from assms obtain peer ch where ch: "the_channel peer (cfg_chat_id c) = Inr ch"
    and r: "(case gc_ref ch of
       Inl e \<Rightarrow> Inl (Other (lit ''cache grammers storage peer: '' @ e))
     | Inr False \<Rightarrow> Inl (Other (lit ''grammers storage peer has no usable reference''))
     | Inr True \<Rightarrow> Inr ch) = Inr channel"
    unfolding resolve_storage_peer_def bind_res_Inr_iff by blast
  have "ch = channel" using r by (simp split: sum.splits bool.splits)
  with the_channel_Inr [OF ch] show ?thesis by simp
qed

lemma call_grammers_Inr [simp]: "call_grammers r = Inr x \<longleftrightarrow> r = Inr x"
  by (cases r) simp_all

lemma checked_Inr:
  "(case x of None \<Rightarrow> Inl e | Some y \<Rightarrow> f y) = Inr r \<longleftrightarrow> (\<exists>y. x = Some y \<and> f y = Inr r)"
  "(case x of None \<Rightarrow> z | Some y \<Rightarrow> Inl (g y)) = Inr r \<longleftrightarrow> x = None \<and> z = Inr r"
  "(if b then Inl e else z) = Inr r \<longleftrightarrow> \<not> b \<and> z = Inr r"
  by (simp_all split: option.splits)

lemma grammers_connect_Inr:
  assumes "grammers_connect net c = Inr channel"
  shows "gc_dialog_id channel = Some (cfg_chat_id c)
    \<and> (\<exists>i. bot_id_from_token (cfg_bot_token c) = Inr i \<and> gn_me net = Inr (Some i))"
proof -
  have "\<exists>i. bot_id_from_token (cfg_bot_token c) = Inr i \<and> gn_me net = Inr (Some i) \<and> resolve_storage_peer net c = Inr channel"
    using assms unfolding grammers_connect_def bind_res_Inr_iff checked_Inr call_grammers_Inr by blast
  then show ?thesis using resolve_storage_peer_Inr by blast
qed

section \<open>\<open>TelegramClient\<close>\<close>

text \<open>
  \<open>new\<close> and \<open>connect\<close>: the client, with the channel grammers uses. \<open>http\<close> is the outcome of
  building the HTTP client.
\<close>

definition telegram_new :: "(config \<Rightarrow> error + unit) \<Rightarrow> config \<Rightarrow> error + telegram_client \<times> gram_channel option" where
  "telegram_new http c =
     bind_res (http c) (\<lambda>_. Inr (\<lparr>active_backend = cfg_telegram_backend c, has_grammers = False\<rparr>, None))"

definition telegram_connect ::
  "gram_net \<Rightarrow> (config \<Rightarrow> error + unit) \<Rightarrow> config \<Rightarrow> bool \<Rightarrow> error + telegram_client \<times> gram_channel option"
where
  "telegram_connect net http c enable_grammers =
     bind_res (if enable_grammers then map_sum id Some (grammers_connect net c) else Inr None) (\<lambda>grammers.
     if cfg_telegram_backend c = Grammers \<and> grammers = None
     then Inl (Other (lit ''grammers backend was selected but could not be initialized''))
     else bind_res (http c) (\<lambda>_.
       Inr (\<lparr>active_backend = cfg_telegram_backend c, has_grammers = (grammers \<noteq> None)\<rparr>, grammers)))"

definition telegram_verify ::
  "error + chat \<Rightarrow> error + chat_member \<Rightarrow> gram_net \<Rightarrow> int \<Rightarrow> telegram_client \<times> gram_channel option \<Rightarrow> error + (str \<times> str)"
where
  "telegram_verify get_chat get_member net chat_id tg =
     (case active_backend (fst tg) of
        BotApi \<Rightarrow> bot_verify get_chat get_member
      | Grammers \<Rightarrow> (case snd tg of None \<Rightarrow> Inl no_grammers | Some peer \<Rightarrow> grammers_verify net peer chat_id))"

lemma telegram_connect_Inr:
  assumes "telegram_connect net http c enable_grammers = Inr (tg, peer)"
  shows "active_backend tg = cfg_telegram_backend c \<and> (has_grammers tg \<longleftrightarrow> peer \<noteq> None)
    \<and> (cfg_telegram_backend c = Grammers \<longrightarrow> has_grammers tg)
    \<and> (\<forall>channel. peer = Some channel \<longrightarrow> grammers_connect net c = Inr channel)"
proof -
  have "grammers_connect net c = Inr channel" if "map_sum id Some (grammers_connect net c) = Inr (Some channel)" for channel
    using that by (cases "grammers_connect net c") simp_all
  with assms show ?thesis
    by (auto simp: telegram_connect_def bind_res_Inr_iff simp del: lit_simps split: if_splits)
qed

end
