(* ===== verification/Admission.thy ===== *)
theory Admission
  imports Config
begin

text \<open>
  The admission of transfers (\<open>AdmissionController\<close>, \<open>src/limits.rs\<close>). The semaphore and the
  timeout are \<open>tokio\<close>'s: what they answer is an argument of \<open>acquire\<close>.
\<close>

text \<open>The permits given to \<open>Semaphore::new\<close>, and the wait in seconds.\<close>

record admission_controller =
  adm_permits :: nat
  adm_wait :: nat

definition new_admission_controller :: "config \<Rightarrow> admission_controller" where
  "new_admission_controller c = \<lparr>adm_permits = cfg_max_active_transfers c, adm_wait = cfg_limit_wait_secs c\<rparr>"

text \<open>
  \<open>try_acquire\<close> is the answer of \<open>try_acquire_owned\<close>, and \<open>timed\<close> that of the timeout around
  \<open>acquire_owned\<close>: nothing when the time has passed, else the semaphore's answer, which is a permit
  unless the semaphore was closed.
\<close>

definition acquire :: "'p option \<Rightarrow> 'p option option \<Rightarrow> admission_controller \<Rightarrow> error + 'p" where
  "acquire try_acquire timed a =
     (if adm_wait a = 0 then (case try_acquire of None \<Rightarrow> Inl SlowDown | Some permit \<Rightarrow> Inr permit)
      else (case timed of
          None \<Rightarrow> Inl SlowDown
        | Some None \<Rightarrow> Inl (Other (lit ''transfer admission controller closed''))
        | Some (Some permit) \<Rightarrow> Inr permit))"

lemma acquire_Inl:
  "acquire try_acquire timed a = Inl e \<Longrightarrow> timed \<noteq> Some None \<Longrightarrow> e = SlowDown"
  by (auto simp: acquire_def split: if_splits option.splits)

end
