(* ===== verification/Bootstrap.thy ===== *)
theory Bootstrap
  imports Telegram_Connect S3_Effects Admission
begin

text \<open>
  \<open>src/bootstrap.rs\<close> and \<open>src/main.rs\<close>: what happens before the first request, and which
  parts of the configuration the running server is made of. The file system, SQLite's
  integrity check and the network are fields of \<open>boot_env\<close>.
\<close>

section \<open>Stale spools (\<open>transfer/upload/spool.rs\<close>)\<close>

datatype remove_outcome = Removed | Already_Gone | Remove_Failed

record spool_entry =
  se_name :: str
  se_is_file :: bool
  se_modified :: "int option"
  se_remove :: remove_outcome

text \<open>
  The files removed of a directory whose entries are read one by one, until one cannot be read.
  An entry is an error when it or its metadata cannot be read.
\<close>

fun remove_stale :: "int \<Rightarrow> int \<Rightarrow> (error + spool_entry) list \<Rightarrow> str list \<Rightarrow> error + str list" where
  "remove_stale now cutoff [] removed = Inr removed"
| "remove_stale now cutoff (Inl e # entries) removed = Inl e"
| "remove_stale now cutoff (Inr f # entries) removed =
     (if \<not> se_is_file f \<or> (case se_modified f of Some t \<Rightarrow> t | None \<Rightarrow> now) > cutoff
      then remove_stale now cutoff entries removed
      else remove_stale now cutoff entries (if se_remove f = Removed then removed @ [se_name f] else removed))"

text \<open>\<open>read_dir\<close> gives no entries (\<open>Inr None\<close>) when the directory does not exist.\<close>

definition cleanup_stale_spools :: "int \<Rightarrow> error + (error + spool_entry) list option \<Rightarrow> error + str list" where
  "cleanup_stale_spools now read_dir =
     bind_res read_dir (\<lambda>listing.
     case listing of
       None \<Rightarrow> Inr []
     | Some entries \<Rightarrow> remove_stale now (max 0 (now - 24 * 60 * 60)) entries [])"

lemma remove_stale_Inr:
  assumes "remove_stale now cutoff entries removed = Inr r" and "cutoff < now"
  shows "\<forall>name \<in> set r. name \<in> set removed \<or> (\<exists>f. Inr f \<in> set entries \<and> se_name f = name \<and> se_is_file f
    \<and> (\<exists>t. se_modified f = Some t \<and> t \<le> cutoff))"
  using assms
proof (induction now cutoff entries removed rule: remove_stale.induct)
  case (3 now cutoff f entries removed)
  show ?case
  proof (cases "\<not> se_is_file f \<or> (case se_modified f of Some t \<Rightarrow> t | None \<Rightarrow> now) > cutoff")
    case True
    with 3 show ?thesis by fastforce
  next
    case False
    then have "se_is_file f" "\<exists>t. se_modified f = Some t \<and> t \<le> cutoff"
      using 3(4) by (auto split: option.splits)
    with False 3(2) 3(3,4) show ?thesis by (fastforce split: if_splits)
  qed
qed simp_all

section \<open>\<open>prepare\<close>\<close>

record boot_env =
  bt_spools :: "str \<Rightarrow> error + (error + spool_entry) list option"
  bt_open :: "str \<Rightarrow> error + db"
  bt_http :: "config \<Rightarrow> error + unit"
  bt_net :: gram_net
  bt_integrity :: "db \<Rightarrow> error + str"
  bt_chat :: "error + chat"
  bt_member :: "error + chat_member"
  bt_now :: int

text \<open>The buckets of the configuration, created when they are missing.\<close>

definition init_buckets :: "int \<Rightarrow> str list \<Rightarrow> db \<Rightarrow> db" where
  "init_buckets now names d = fold (\<lambda>name d. snd (create_bucket now name d)) names d"

definition prepare ::
  "boot_env \<Rightarrow> config \<Rightarrow> bool \<Rightarrow> error + db \<times> telegram_client \<times> gram_channel option"
where
  "prepare env c verify_telegram =
     bind_res (cleanup_stale_spools (bt_now env) (bt_spools env (path_join (cfg_data_dir c) (lit ''upload-spool'')))) (\<lambda>_.
     bind_res (bt_open env (cfg_db_path c)) (\<lambda>d.
     let enable_grammers = (verify_telegram \<and> (cfg_telegram_backend c = Grammers \<or> has_backend Grammers d))
     in bind_res (if verify_telegram then telegram_connect (bt_net env) (bt_http env) c enable_grammers
                  else telegram_new (bt_http env) c) (\<lambda>tg.
        let d = init_buckets (bt_now env) (cfg_init_buckets c) d
        in bind_res (bt_integrity env d) (\<lambda>integrity.
           if integrity \<noteq> lit ''ok'' then Inl (Other (lit ''SQLite integrity check failed: '' @ integrity))
           else
             bind_res (if verify_telegram
                       then map_sum id (\<lambda>_. ()) (telegram_verify (bt_chat env) (bt_member env) (bt_net env) (cfg_chat_id c) tg)
                       else Inr ()) (\<lambda>_.
             Inr (d, tg))))))"

section \<open>The commands of \<open>main\<close>\<close>

datatype command = Init | Serve | Doctor | Inspect | Gc "nat option"

definition requires_telegram :: "command \<Rightarrow> bool" where
  "requires_telegram c \<longleftrightarrow> c \<noteq> Inspect"

definition requires_auth :: "command \<Rightarrow> bool" where
  "requires_auth c \<longleftrightarrow> c = Serve"

definition command_config :: "config_env \<Rightarrow> config_args \<Rightarrow> command \<Rightarrow> error + config" where
  "command_config env args c = into_config env args (requires_telegram c) (requires_auth c)"

text \<open>
  What the commands print, and the server they leave. The bucket count and the
  integrity check are those of the store after \<open>prepare\<close>. \<open>serve\<close> prints nothing and goes on as
  \<open>Server_Run\<close> says.
\<close>

definition bucket_line :: "db \<Rightarrow> str" where
  "bucket_line d = lit ''buckets: '' @ show_nat (length (list_buckets d))"

definition integrity_line :: "boot_env \<Rightarrow> db \<Rightarrow> error + str" where
  "integrity_line env d = bind_res (bt_integrity env d) (\<lambda>text. Inr (lit ''SQLite integrity: '' @ text))"

definition fresh_server :: "db \<Rightarrow> server" where
  "fresh_server d = \<lparr>srv_db = d, srv_deleted = []\<rparr>"

definition init_command :: "boot_env \<Rightarrow> config \<Rightarrow> error + str list \<times> server" where
  "init_command env c =
     bind_res (prepare env c True) (\<lambda>(d, _).
     bind_res (integrity_line env d) (\<lambda>l.
     Inr ([lit ''initialized database: '' @ cfg_db_path c, bucket_line d, l], fresh_server d)))"

definition doctor_command :: "boot_env \<Rightarrow> config \<Rightarrow> error + str list \<times> server" where
  "doctor_command env c =
     bind_res (prepare env c True) (\<lambda>(d, _).
     bind_res (integrity_line env d) (\<lambda>l. Inr ([l, bucket_line d], fresh_server d)))"

definition inspect_command :: "boot_env \<Rightarrow> config \<Rightarrow> error + str list \<times> server" where
  "inspect_command env c =
     bind_res (prepare env c False) (\<lambda>(d, _).
     bind_res (integrity_line env d) (\<lambda>l. Inr ([lit ''database ready'', l, bucket_line d], fresh_server d)))"

definition gc_command ::
  "boot_env \<Rightarrow> tg_env \<Rightarrow> int \<Rightarrow> int \<Rightarrow> config \<Rightarrow> nat option \<Rightarrow> error + str list \<times> server"
where
  "gc_command env tenv timestamp t c limit =
     bind_res (prepare env c True) (\<lambda>(d, _).
     case run_gc tenv timestamp t (case limit of Some n \<Rightarrow> n | None \<Rightarrow> cfg_gc_limit c) (fresh_server d) of
       (Inl e, _) \<Rightarrow> Inl e
     | (Inr processed, s) \<Rightarrow> Inr ([lit ''processed '' @ show_nat processed @ lit '' garbage records''], s))"

definition run_command ::
  "boot_env \<Rightarrow> tg_env \<Rightarrow> int \<Rightarrow> int \<Rightarrow> config \<Rightarrow> command \<Rightarrow> error + str list \<times> server"
where
  "run_command env tenv timestamp t c com =
     (case com of
        Init \<Rightarrow> init_command env c
      | Serve \<Rightarrow> bind_res (prepare env c True) (\<lambda>(d, _). Inr ([], fresh_server d))
      | Doctor \<Rightarrow> doctor_command env c
      | Inspect \<Rightarrow> inspect_command env c
      | Gc limit \<Rightarrow> gc_command env tenv timestamp t c limit)"

definition sigv4_of :: "config \<Rightarrow> sigv4" where
  "sigv4_of c = \<lparr>sv_access_key = cfg_access_key c, sv_secret_key = cfg_secret_key c, sv_region = cfg_region c,
     sv_allow_anonymous = cfg_allow_anonymous c\<rparr>"

text \<open>
  \<open>BandwidthLimiter::new\<close>, with rates in bytes per second and the wait in nanoseconds, and
  \<open>TransferLimits::new\<close>.
\<close>

definition limits_of :: "config \<Rightarrow> bandwidth_limiter" where
  "limits_of c = \<lparr>global_upload = None, global_download = None, upload_rate = cfg_upload_rate_bps c,
     download_rate = cfg_download_rate_bps c, limit_wait = cfg_limit_wait_secs c * 10 ^ 9\<rparr>"

record transfer_limits =
  tl_admission :: admission_controller
  tl_bandwidth :: bandwidth_limiter
  tl_max_object_size :: int

definition transfer_limits_of :: "config \<Rightarrow> transfer_limits" where
  "transfer_limits_of c = \<lparr>tl_admission = new_admission_controller c, tl_bandwidth = limits_of c,
     tl_max_object_size = cfg_max_object_size c\<rparr>"

text \<open>
  The server \<open>serve\<close> starts: what of \<open>env\<close> the configuration decides (\<open>Engine::new\<close> and
  \<open>AppState\<close>) is taken from it.
\<close>

definition upload_env_of :: "config \<Rightarrow> upload_env \<Rightarrow> upload_env" where
  "upload_env_of c env = env\<lparr>ue_chunk_size := int (cfg_chunk_size c), ue_max_object_size := tl_max_object_size (transfer_limits_of c),
     ue_concurrency := cfg_upload_concurrency c, ue_chat_id := cfg_chat_id c\<rparr>"

definition serve_env :: "config \<Rightarrow> s3_env \<Rightarrow> s3_env" where
  "serve_env c env = env\<lparr>s3_auth := sigv4_of c, s3_region := cfg_region c, s3_public_host := cfg_public_host c,
     s3_cors := cfg_cors c,
     s3_engine := (s3_engine env)\<lparr>en_upload := upload_env_of c (en_upload (s3_engine env))\<rparr>\<rparr>"

section \<open>Facts\<close>

lemma init_buckets_props:
  assumes "served d"
  shows "served (init_buckets now names d) \<and> lookup (init_buckets now names d) = lookup d
    \<and> (\<forall>b. bucket_named (init_buckets now names d) b \<longleftrightarrow> bucket_named d b \<or> b \<in> set names)"
  using assms
proof (induction names arbitrary: d)
  case (Cons name names)
  let ?d = "snd (create_bucket now name d)"
  have "bucket_named ?d b \<longleftrightarrow> bucket_named d b \<or> b = name" for b
    by (auto simp: create_bucket_def bucket_named_def)
  moreover have "lookup ?d = lookup d"
    by (rule create_bucket_s.lookup_neutral [OF refl served_db_ok [OF Cons.prems]])
  ultimately show ?case
    using Cons.IH [OF create_bucket_keeps [OF Cons.prems, of now name]] by (auto simp: init_buckets_def)
qed (simp add: init_buckets_def)

lemma prepare_Inr:
  assumes "prepare env c verify_telegram = Inr (d, tg)"
  obtains d0 where "bt_open env (cfg_db_path c) = Inr d0" "d = init_buckets (bt_now env) (cfg_init_buckets c) d0"
    "bt_integrity env d = Inr (lit ''ok'')"
    "verify_telegram \<Longrightarrow> telegram_connect (bt_net env) (bt_http env) c
        (cfg_telegram_backend c = Grammers \<or> has_backend Grammers d0) = Inr tg"
    "verify_telegram \<Longrightarrow> \<exists>r. telegram_verify (bt_chat env) (bt_member env) (bt_net env) (cfg_chat_id c) tg = Inr r"
proof -
  have un: "\<exists>r. x = Inr r" if "map_sum id (\<lambda>_. ()) x = Inr u" for x :: "error + str \<times> str" and u
    using that by (cases x) simp_all
  show thesis
    using assms unfolding prepare_def Let_def bind_res_Inr_iff checked_Inr
    apply (elim exE conjE)
    subgoal premises p for _ d0 _ _ _
      using p un by (intro that [of d0]) (auto simp del: lit_simps split: if_splits)
    done
qed

end
