(* ===== verification/Server_Run.thy ===== *)
theory Server_Run
  imports Bootstrap Engine_Gc_Props Db_Calls
begin

text \<open>
  The running server: the router of \<open>src/s3.rs\<close> and the tasks \<open>serve\<close> (\<open>src/main.rs\<close>) starts.
  Between the answers to requests, the reclaims that requests spawned and the ticks of the
  background collection run in any order.
\<close>

section \<open>The router\<close>

definition healthz :: response where
  "healthz = empty_response 200"

definition readyz :: "error + unit \<Rightarrow> response" where
  "readyz ping =
     (case ping of
        Inr _ \<Rightarrow> empty_response 200
      | Inl e \<Rightarrow> (empty_response 503)\<lparr>rs_body := Bytes (utf8 (lit ''database unavailable: '' @ error_text e))\<rparr>)"

text \<open>
  \<open>get\<close> serves \<open>GET\<close> and \<open>HEAD\<close>; axum answers the other methods of a matched path with 405 and
  an \<open>Allow\<close> header, and leaves out the body of an answer to \<open>HEAD\<close>.
\<close>

definition probe :: "http_request \<Rightarrow> response \<Rightarrow> response" where
  "probe rq r =
     (if rq_method rq = GET then r
      else if rq_method rq = HEAD then r\<lparr>rs_body := Bytes []\<rparr>
      else (empty_response 405)\<lparr>rs_headers := [(lit ''allow'', lit ''GET,HEAD'')]\<rparr>)"

definition router ::
  "s3_env \<Rightarrow> error + unit \<Rightarrow> http_request \<Rightarrow> stream \<Rightarrow> server \<Rightarrow> (response \<times> server \<times> block_ref list list) option"
where
  "router env ping rq frames s =
     (if rq_path rq = lit ''/healthz'' then Some (probe rq healthz, s, [])
      else if rq_path rq = lit ''/readyz'' then Some (probe rq (readyz ping), s, [])
      else handle env rq frames s)"

section \<open>The tasks of \<open>serve\<close>\<close>

text \<open>The state: the server, and the reclaims that were spawned and have not run.\<close>

record site =
  site_server :: server
  site_spawned :: "block_ref list list"

text \<open>A tick of the background collection: its outcome is logged.\<close>

definition gc_tick :: "tg_env \<Rightarrow> int \<Rightarrow> int \<Rightarrow> config \<Rightarrow> server \<Rightarrow> server" where
  "gc_tick tenv timestamp t c s = snd (run_gc tenv timestamp t (cfg_gc_limit c) s)"

text \<open>
  Requests, reclaims and ticks that nothing interrupts are one step each. Those that run at the same
  time are seen as what they do: an access of a task that is in progress is one call of \<open>Db\<close>, or the
  deletion of messages, or the spawning of reclaims. Any access may come between any others. The call is
  \<open>sound\<close> when it is made (\<open>Db_Calls\<close>), and its keys are text.
\<close>

definition new_keys :: "db_write \<Rightarrow> str set" where
  "new_keys w = (case w of Create_Upload up \<Rightarrow> {up_key up} | Copy_Object t source n k m c \<Rightarrow> {k} | _ \<Rightarrow> {})"

inductive site_step :: "config \<Rightarrow> site \<Rightarrow> site \<Rightarrow> bool" for c where
  site_request: "router (serve_env c env) ping rq frames (site_server s) = Some (r, s', spawned)
    \<Longrightarrow> query_valid (rq_query rq) \<Longrightarrow> site_step c s \<lparr>site_server = s', site_spawned = site_spawned s @ spawned\<rparr>"
| site_reclaim: "bs \<in> set (site_spawned s)
    \<Longrightarrow> site_step c s \<lparr>site_server = reclaim_blocks_now tenv timestamp bs (site_server s), site_spawned = remove1 bs (site_spawned s)\<rparr>"
| site_tick: "site_step c s (s\<lparr>site_server := gc_tick tenv timestamp t c (site_server s)\<rparr>)"
| site_call: "sound w (srv_db (site_server s)) \<Longrightarrow> \<forall>k \<in> new_keys w. valid_text k
    \<Longrightarrow> site_step c s (s\<lparr>site_server := (site_server s)\<lparr>srv_db := exec w (srv_db (site_server s))\<rparr>\<rparr>)"
| site_delete: "site_step c s (s\<lparr>site_server := (site_server s)\<lparr>srv_deleted := srv_deleted (site_server s) @ ms\<rparr>\<rparr>)"
| site_spawn: "site_step c s (s\<lparr>site_spawned := site_spawned s @ spawned\<rparr>)"

inductive site_reachable :: "config \<Rightarrow> db \<Rightarrow> site \<Rightarrow> bool" for c d where
  site_start: "site_reachable c d \<lparr>site_server = \<lparr>srv_db = d, srv_deleted = []\<rparr>, site_spawned = []\<rparr>"
| site_next: "site_reachable c d s \<Longrightarrow> site_step c s s' \<Longrightarrow> site_reachable c d s'"

section \<open>What collection leaves as it is\<close>

text \<open>No object changes, and uploads only go.\<close>

definition tidies :: "db \<Rightarrow> db \<Rightarrow> bool" where
  "tidies d d' \<longleftrightarrow> (db_ok d \<longrightarrow> db_ok d' \<and> lookup d' = lookup d \<and> set (multipart_uploads d') \<subseteq> set (multipart_uploads d))"

lemma tidies_refl [simp]: "tidies d d"
  by (simp add: tidies_def)

lemma tidies_trans: "tidies d d1 \<Longrightarrow> tidies d1 d2 \<Longrightarrow> tidies d d2"
  by (auto simp: tidies_def)

lemma tidies_fold: "(\<And>x d. tidies d (f x d)) \<Longrightarrow> tidies d (fold f xs d)"
proof (induction xs arbitrary: d)
  case (Cons x xs)
  show ?case using tidies_trans [OF Cons.prems [of d x] Cons.IH [OF Cons.prems]] by simp
qed simp

lemma served_tidies: "served d \<Longrightarrow> tidies d d' \<Longrightarrow> served d'"
  by (rule served_grows [of d "{}"]) (auto simp: tidies_def served_db_ok intro!: grows_same)

lemma gc_uploads [simp]:
  "multipart_uploads (gc_success b d) = multipart_uploads d"
  "multipart_uploads (gc_failure b e n d) = multipart_uploads d"
  "multipart_uploads (gc_orphan b e d) = multipart_uploads d"
  by (simp_all add: gc_success_def gc_failure_def gc_orphan_def delete_block_row_def)

lemma tidies_gc:
  "tidies d (gc_success b d)" "tidies d (gc_failure b e n d)" "tidies d (gc_orphan b e d)"
  by (simp_all add: tidies_def gc_success_m.preserves gc_success_s.lookup_neutral gc_failure_m.preserves
      gc_failure_s.lookup_neutral gc_orphan_m.preserves gc_orphan_s.lookup_neutral)

lemma tidies_queue_stale: "tidies d (snd (queue_stale_block t b d))"
proof -
  have "multipart_uploads (enqueue_gc b t x) = multipart_uploads x" for x by (simp add: enqueue_gc_def)
  then have "multipart_uploads (snd (queue_stale_block t b d)) = multipart_uploads d"
    by (simp add: queue_stale_block_def Let_def)
  then show ?thesis using db_ok_queue_stale_block queue_stale_s.lookup_neutral by (auto simp: tidies_def)
qed

lemma tidies_expire: "tidies d (snd (expire_uploads t before d))"
proof (unfold tidies_def, intro impI conjI)
  assume ok: "db_ok d"
  then show "db_ok (snd (expire_uploads t before d))" by (rule db_ok_expire_uploads)
  show "lookup (snd (expire_uploads t before d)) = lookup d" by (rule expire_uploads_s.lookup_neutral [OF refl ok])
  have "distinct (map urow_upload_id (multipart_uploads d))" using ok by (simp add: db_ok_def schema_defs)
  then show "set (multipart_uploads (snd (expire_uploads t before d))) \<subseteq> set (multipart_uploads d)"
    unfolding expire_uploads_def by (subst expire_loop_effect [OF ok, THEN conjunct2]) (auto simp: distinct_map_filter)
qed

lemma tidies_stale_blocks: "tidies d (snd (queue_stale_blocks t gs n d))"
proof (induction gs arbitrary: n d)
  case (Cons g gs)
  then show ?case
    using tidies_trans [OF tidies_queue_stale [of d t "gb_block_id g"]] by (simp split: prod.split)
qed simp

lemma tidies_candidate: "tidies d (candidate_db env ts g d)"
  by (auto simp: candidate_db_def tidies_gc split: sum.split)

lemma tidies_group:
  "tidies (srv_db s) (srv_db (snd (delete_candidate_group env ts b gs s)))"
  by (auto simp: delete_candidate_group_def Let_def fold_process_gc_candidate tidies_fold tidies_candidate tidies_gc
      split: sum.split)

lemma tidies_groups: "tidies (srv_db s) (srv_db (snd (delete_groups env ts groups n s)))"
proof (induction env ts groups n s rule: delete_groups.induct)
  case (2 env ts b gs groups n s)
  obtain k s1 where g: "delete_candidate_group env ts b gs s = (k, s1)"
    by (cases "delete_candidate_group env ts b gs s") auto
  from "2.IH" [OF g [symmetric]] tidies_group [of s env ts b gs] g show ?case by (auto intro: tidies_trans)
qed simp

lemma tidies_expired: "tidies d (snd (snd (sort_out_expired ts gs n groups d)))"
proof (induction ts gs n groups d rule: sort_out_expired.induct)
  case (2 ts g gs n groups d)
  show ?case
  proof (cases "bot_api_delete_window_expired (gb_backend g) (gb_message_date g) ts")
    case True
    from tidies_trans [OF tidies_gc(3) "2.IH"(1) [OF True]] True show ?thesis by simp
  next
    case False
    from "2.IH"(2) [OF False] False show ?thesis by simp
  qed
qed simp

lemma tidies_candidates: "tidies (srv_db s) (srv_db (snd (process_gc_candidates env ts gs s)))"
proof -
  obtain n groups d where o: "sort_out_expired ts gs 0 [] (srv_db s) = (n, groups, d)"
    by (cases "sort_out_expired ts gs 0 [] (srv_db s)") auto
  have "tidies (srv_db s) d" using tidies_expired [of "srv_db s" ts gs 0 "[]"] o by simp
  moreover have "tidies d (srv_db (snd (delete_groups env ts groups n (s\<lparr>srv_db := d\<rparr>))))"
    using tidies_groups [of "s\<lparr>srv_db := d\<rparr>"] by simp
  ultimately show ?thesis by (auto simp: process_gc_candidates_def o intro: tidies_trans)
qed

lemma tidies_reclaim: "tidies (srv_db s) (srv_db (reclaim_blocks_now env ts bs s))"
  by (simp add: reclaim_blocks_now_def tidies_candidates)

lemma tidies_run_gc: "tidies (srv_db s) (srv_db (snd (run_gc env ts t limit s)))"
proof (cases "limit = 0 \<or> max_gc_limit < limit")
  case False
  obtain r d where e: "expire_uploads t (ts - 7 * 24 * 3600) (srv_db s) = (r, d)"
    by (cases "expire_uploads t (ts - 7 * 24 * 3600) (srv_db s)") auto
  have 1: "tidies (srv_db s) d" using tidies_expire [of "srv_db s" t "ts - 7 * 24 * 3600"] e by simp
  show ?thesis
  proof (cases r)
    case (Inl x)
    with False e 1 show ?thesis by (simp add: run_gc_def)
  next
    case (Inr x)
    show ?thesis
    proof (cases "stale_blocks (ts - 3600) limit d")
      case (Inl x)
      with False e 1 \<open>r = Inr _\<close> show ?thesis by (simp add: run_gc_def)
    next
      case (Inr stale)
      obtain n d2 where q: "queue_stale_blocks t stale 0 d = (n, d2)" by (cases "queue_stale_blocks t stale 0 d") auto
      have 2: "tidies (srv_db s) d2" using tidies_trans [OF 1] tidies_stale_blocks [of d t stale 0] q by simp
      have "tidies d2 (srv_db (snd (process_gc_candidates env ts gs (s\<lparr>srv_db := d2\<rparr>))))" for gs
        using tidies_candidates [of "s\<lparr>srv_db := d2\<rparr>"] by simp
      from tidies_trans [OF 2 this] 2 False e q \<open>r = Inr _\<close> Inr show ?thesis
        by (simp add: run_gc_def Let_def split: sum.split prod.split) (metis snd_conv)
    qed
  qed
qed (auto simp: run_gc_def)

section \<open>What a single call leaves as it is\<close>

lemma exec_uploads:
  assumes "db_ok d"
  shows "urow_key ` set (multipart_uploads (exec w d)) \<subseteq> urow_key ` set (multipart_uploads d) \<union> new_keys w"
proof -
  have tidy: ?thesis if "tidies d (exec w d)" using that assms by (auto simp: tidies_def)
  show ?thesis
  proof (cases w)
    case (Commit_Upload t u sz etag parts c)
    have "set (multipart_uploads (snd (commit_upload t u sz etag parts c d))) \<subseteq> set (multipart_uploads d)"
      using commit_upload_snd [of t u sz etag parts c d] commit_upload_tx_view(3) [OF assms] by auto
    with Commit_Upload show ?thesis by auto
  next
    case (Copy_Object t source n k m c)
    show ?thesis
      using copy_object_tx_uploads [OF assms, of t source n k m c]
      by (auto simp: Copy_Object copy_object_def split: sum.splits prod.splits)
  next
    case (Replace_Part t u n sz etag blocks)
    have "schema_ok d" using assms by (simp add: db_ok_def)
    from replace_part_tx_Inr [OF this, of t u n sz etag blocks] show ?thesis
      by (auto simp: Replace_Part replace_part_def part_written_def split: sum.splits prod.splits)
  next
    case (Expire_Uploads t before)
    then show ?thesis using tidies_expire by (intro tidy) simp
  next
    case (Queue_Stale_Block t b)
    then show ?thesis using tidies_queue_stale by (intro tidy) simp
  qed (auto simp: create_bucket_def delete_bucket_def set_bucket_cors_def delete_bucket_cors_def new_keys_def
      create_upload_def transact_def insert_upload_def bind_res_def add_staged_block_def
      delete_object_uploads [OF assms] abort_upload_with_blocks_def delete_upload_row_def
      dest!: insert_telegram_block_Inr
      split: sum.splits prod.splits if_splits)
qed

lemma exec_lookup:
  assumes ok: "db_ok d" and "sound w d"
  shows "lookup (exec w d) = lookup d \<or> (\<exists>b k x. lookup (exec w d) = (lookup d)((b, k) := x)
     \<and> (x \<noteq> None \<longrightarrow> k \<in> new_keys w \<union> urow_key ` set (multipart_uploads d)))"
proof (cases w)
  case (Delete_Object t b k c)
  obtain r d' where del: "delete_object t b k c d = (r, d')" by (cases "delete_object t b k c d")
  from delete_object_lookup [OF ok del] show ?thesis using del Delete_Object by (cases r) auto
next
  case (Copy_Object t source b k m c)
  obtain r d' where cp: "copy_object t source b k m c d = (r, d')" by (cases "copy_object t source b k m c d")
  show ?thesis
  proof (cases "isl (copy_object_tx t source b k m c d)")
    case False
    with assms(2) Copy_Object have v: "source_valid d source" "bucket_named d b" by (simp_all add: sound_def)
    from copy_object_cases [OF ok v cp] show ?thesis
    proof (elim disjE exE conjE)
      fix ob old assume "copy_object_tx t source b k m c d = Inr (old, d')"
      from copy_object_tx_result [OF ok v this] show ?thesis using cp Copy_Object by (auto simp: new_keys_def)
    qed (use cp Copy_Object in simp)
  qed (use refused_unchanged(2) Copy_Object in simp)
next
  case (Commit_Upload t u sz etag parts c)
  obtain r d' where cm: "commit_upload t u sz etag parts c d = (r, d')" by (cases "commit_upload t u sz etag parts c d")
  from commit_upload_cases [OF ok cm] show ?thesis
  proof (elim disjE exE conjE)
    fix up ob old assume up: "upload_rows d u = [up]" and lay: "validate_parts_layout parts = Inr sz"
      and tx: "commit_upload_tx t up sz etag parts c d = Inr (old, d')"
    have "up \<in> set (multipart_uploads d)" using up filter_is_subset by (metis list.set_intros(1) subsetD upload_rows_def)
    then have key: "urow_key up \<in> urow_key ` set (multipart_uploads d)" by simp
    from commit_upload_tx_result [OF ok up lay tx] obtain ob where
      "lookup d' = (lookup d)((urow_bucket up, urow_key up) \<mapsto> ob)" by blast
    then have "lookup (exec w d) = (lookup d)((urow_bucket up, urow_key up) := Some ob)" using cm Commit_Upload by simp
    with key show ?thesis by blast
  qed (use cm Commit_Upload in simp_all)
next
  case (Set_Cors t b conf)
  have "lookup (set_bucket_cors t b conf d) bk = lookup d bk" for bk by (rule lookup_same_tables) (auto simp: set_bucket_cors_def)
  then show ?thesis by (auto simp: Set_Cors)
next
  case (Delete_Cors b)
  have "lookup (delete_bucket_cors b d) bk = lookup d bk" for bk by (rule lookup_same_tables) (auto simp: delete_bucket_cors_def)
  then show ?thesis by (auto simp: Delete_Cors)
qed (simp_all add: create_bucket_s.lookup_neutral [OF refl ok] delete_bucket_s.lookup_neutral [OF refl ok]
    create_upload_s.lookup_neutral [OF refl ok] add_staged_s.lookup_neutral [OF refl ok]
    replace_part_s.lookup_neutral [OF refl ok] abort_upload_s.lookup_neutral [OF refl ok]
    expire_uploads_s.lookup_neutral [OF refl ok] queue_stale_s.lookup_neutral [OF refl ok]
    gc_success_s.lookup_neutral [OF refl ok] gc_failure_s.lookup_neutral [OF refl ok] gc_orphan_s.lookup_neutral [OF refl ok])

lemma exec_served:
  assumes "served d" and "sound w d" and "\<forall>k \<in> new_keys w. valid_text k"
  shows "served (exec w d)"
proof (rule served_grows [OF assms(1)])
  note ok = served_db_ok [OF assms(1)]
  let ?K = "new_keys w \<union> urow_key ` set (multipart_uploads d)"
  show "grows ?K d (exec w d)"
    unfolding grows_def using exec_ok [OF ok assms(2)] exec_uploads [OF ok, of w] exec_lookup [OF ok assms(2)]
    by (auto split: if_splits)
  show "\<forall>k \<in> ?K. valid_text k"
    using assms(1,3) by (auto simp: served_def uploads_valid_def list_all_iff)
qed

section \<open>The background tasks\<close>

text \<open>
  The contract of a task that runs beside the requests, and what the server owes to it: the store
  stays consistent and every key reads the same.
\<close>

locale background_task =
  fixes task :: "server \<Rightarrow> server"
  assumes tidy: "tidies (srv_db s) (srv_db (task s))"
begin

lemma keeps_served: "served (srv_db s) \<Longrightarrow> served (srv_db (task s))"
  by (rule served_tidies [OF _ tidy])

lemma keeps_objects: "served (srv_db s) \<Longrightarrow> lookup (srv_db (task s)) = lookup (srv_db s)"
  using tidy [of s] served_db_ok by (simp add: tidies_def)

end

interpretation tick: background_task "gc_tick tenv timestamp t c" for tenv timestamp t c
  by unfold_locales (simp add: gc_tick_def tidies_run_gc)

interpretation reclaim: background_task "reclaim_blocks_now tenv timestamp bs" for tenv timestamp bs
  by unfold_locales (rule tidies_reclaim)

section \<open>The invariant\<close>

lemma router_total:
  assumes "served (srv_db s)" and "0 < ue_chunk_size (en_upload (s3_engine env))" and "query_valid (rq_query rq)"
  shows "\<exists>r s' spawned. router env ping rq frames s = Some (r, s', spawned) \<and> served (srv_db s')"
  using handle_total [OF assms] assms(1) by (auto simp: router_def)

lemma serve_env_chunk [simp]: "ue_chunk_size (en_upload (s3_engine (serve_env c env))) = int (cfg_chunk_size c)"
  by (simp add: serve_env_def upload_env_of_def transfer_limits_of_def)

lemma site_step_served:
  assumes "site_step c s s'" and "served (srv_db (site_server s))" and "0 < cfg_chunk_size c"
  shows "served (srv_db (site_server s'))"
  using assms(1)
proof (cases rule: site_step.cases)
  case (site_request env ping rq frames r t spawned)
  with router_total [OF assms(2), of "serve_env c env" rq ping frames] assms(3) show ?thesis by auto
next
  case (site_reclaim bs tenv timestamp)
  with reclaim.keeps_served [OF assms(2)] show ?thesis by simp
next
  case (site_tick tenv timestamp t)
  with tick.keeps_served [OF assms(2)] show ?thesis by simp
next
  case (site_call w)
  with exec_served [OF assms(2)] show ?thesis by simp
qed (use assms(2) in simp_all)

lemma site_reachable_served:
  assumes "site_reachable c d s" and "served d" and "0 < cfg_chunk_size c"
  shows "served (srv_db (site_server s))"
  using assms(1)
proof (induction rule: site_reachable.induct)
  case (site_next s s')
  with site_step_served assms(3) show ?case by blast
qed (use assms(2) in simp)

end
