(* ===== verification/Request_Runs.thy ===== *)
theory Request_Runs
  imports Server_Run
begin

text \<open>
  Every request, every reclaim and every tick of the running server that is not interrupted is a run of
  the system of \<open>Gc_System\<close>, whatever claims other tasks hold while it runs (\<open>cl\<close>). In that system
  clients, collection and cleanup interleave, and of its states it is proved that no message something
  needs was deleted. What a request needs of Telegram is the rule that the messages it is given are new.
\<close>

section \<open>Runs\<close>

definition runs :: "(int \<times> int) list \<Rightarrow> server \<Rightarrow> server \<Rightarrow> bool" where
  "runs cl s s' \<longleftrightarrow> (sys_reachable (sys_of s cl) \<longrightarrow> sys_reachable (sys_of s' cl))"

lemma runs_refl [simp]: "runs cl s s"
  by (simp add: runs_def)

lemma runs_trans: "runs cl s s1 \<Longrightarrow> runs cl s1 s' \<Longrightarrow> runs cl s s'"
  by (simp add: runs_def)

lemma runs_call: "db_call (srv_db s) d \<Longrightarrow> runs cl s (s\<lparr>srv_db := d\<rparr>)"
  by (simp add: runs_def sys_reach_call)

text \<open>A call whose result is taken apart.\<close>

lemma runs_called: "op = (x, d) \<Longrightarrow> db_call (srv_db s) (snd op) \<Longrightarrow> runs cl s (s\<lparr>srv_db := d\<rparr>)"
  using runs_call [of s d] by simp

lemma reachable_db_ok': "sys_reachable (sys_of s cl) \<Longrightarrow> db_ok (srv_db s)"
  using sys_reachable_ok [of "sys_of s cl"] by (simp add: sys_ok_def sys_of_def)

section \<open>The tasks of an upload\<close>

text \<open>Telegram gives every piece that is sent a message with an id no known message has.\<close>

definition new_messages :: "(int \<times> int) list \<Rightarrow> (block_spec \<Rightarrow> bytes \<Rightarrow> error + stored_document) \<Rightarrow> piece list \<Rightarrow> server \<Rightarrow> bool" where
  "new_messages cl store ps s \<longleftrightarrow> distinct ps
     \<and> (\<forall>p \<in> set ps. \<forall>doc. store (fst p) (snd p) = Inr doc \<longrightarrow> sd_message_id doc \<notin> used_messages (sys_of s cl))
     \<and> (\<forall>p \<in> set ps. \<forall>q \<in> set ps. \<forall>x y. store (fst p) (snd p) = Inr x \<longrightarrow> store (fst q) (snd q) = Inr y
          \<longrightarrow> sd_message_id x = sd_message_id y \<longrightarrow> p = q)"

lemma new_messages_inj:
  assumes "new_messages cl store ps s" and "p \<in> set ps" and "q \<in> set ps" and "store (fst p) (snd p) = Inr x"
    and "store (fst q) (snd q) = Inr y" and "sd_message_id x = sd_message_id y"
  shows "p = q"
proof -
  from assms(1) have "\<forall>p \<in> set ps. \<forall>q \<in> set ps. \<forall>x y. store (fst p) (snd p) = Inr x \<longrightarrow> store (fst q) (snd q) = Inr y
      \<longrightarrow> sd_message_id x = sd_message_id y \<longrightarrow> p = q" unfolding new_messages_def by (elim conjE)
  from this [rule_format, OF assms(2-6)] show ?thesis .
qed

lemma new_messages_new:
  "new_messages cl store ps s \<Longrightarrow> p \<in> set ps \<Longrightarrow> store (fst p) (snd p) = Inr doc \<Longrightarrow> sd_message_id doc \<notin> used_messages (sys_of s cl)"
  unfolding new_messages_def by blast

lemma new_messages_distinct: "new_messages cl store ps s \<Longrightarrow> distinct ps"
  by (simp add: new_messages_def)

lemma used_messages_of: "used_messages (sys_of s cl) = set (srv_deleted s) \<union> row_messages (srv_db s) \<union> snd ` set cl"
  by (simp add: used_messages_def sys_of_def)

lemma new_messages_mono:
  "new_messages cl store ps s \<Longrightarrow> used_messages (sys_of s' cl) \<subseteq> used_messages (sys_of s cl) \<Longrightarrow> new_messages cl store ps s'"
  by (fastforce simp: new_messages_def)

lemma row_messages_staged:
  assumes "db_ok d"
  shows "row_messages (snd (add_staged_block t b d)) \<subseteq> insert (blk_message_id b) (row_messages d)"
  using add_staged_block_pairs(1) [OF assms, of t b] by (force simp: row_messages_def)

lemma upload_one_uses:
  assumes ok: "db_ok (srv_db s)" and up: "upload_one tg chat store t sp c (s, reg) = (r, s', reg', spawned)"
  shows "used_messages (sys_of s' cl) \<subseteq> used_messages (sys_of s cl) \<union> {sd_message_id doc | doc. store sp c = Inr doc}"
proof (cases "store sp c")
  case (Inl e)
  with up show ?thesis by (simp add: upload_one_def)
next
  case (Inr doc)
  let ?b = "to_block_ref chat (uploaded_block (spec_ordinal sp) (spec_offset sp) (spec_size sp) doc)"
  have m: "blk_message_id ?b = sd_message_id doc" by (simp add: to_block_ref_def uploaded_block_def)
  obtain y d where add: "add_staged_block t ?b (srv_db s) = (y, d)" by (cases "add_staged_block t ?b (srv_db s)") auto
  have d: "row_messages d \<subseteq> insert (sd_message_id doc) (row_messages (srv_db s))"
    using row_messages_staged [OF ok, of t ?b] m by (simp add: add)
  from up Inr add d show ?thesis
    by (cases y) (auto simp: upload_one_def Let_def request_delete_def used_messages_of split: if_splits prod.splits)
qed

lemma run_tasks_runs:
  assumes "sys_reachable (sys_of s cl)" and "new_messages cl (en_store env) (map snd ts) s"
    and "run_tasks env ts s reg = (rs, s', reg', spawned)"
  shows "sys_reachable (sys_of s' cl)"
  using assms
proof (induction ts arbitrary: s reg rs s' reg' spawned)
  case (Cons x ts)
  obtain t sp c where x: "x = (t, sp, c)" by (cases x) auto
  obtain r s1 reg1 sp1 where up: "upload_one (en_tg env) (ue_chat_id (en_upload env)) (en_store env) t sp c (s, reg)
      = (r, s1, reg1, sp1)" by (metis prod_cases4)
  obtain rs2 sp2 where rest: "run_tasks env ts s1 reg1 = (rs2, s', reg', sp2)"
    using Cons.prems(3) x up by (auto split: prod.splits)
  have new: "sd_message_id doc \<notin> used_messages (sys_of s cl)" if "en_store env sp c = Inr doc" for doc
    by (rule new_messages_new [OF Cons.prems(2), of "(sp, c)"]) (simp_all add: x that)
  have dist: "distinct (map snd (x # ts))" by (rule new_messages_distinct [OF Cons.prems(2)])
  have 1: "sys_reachable (sys_of s1 cl)" by (rule upload_one_refines [OF Cons.prems(1) new up])
  have inj: "p = q" if "p \<in> set (map snd (x # ts))" "q \<in> set (map snd (x # ts))"
      "en_store env (fst p) (snd p) = Inr y" "en_store env (fst q) (snd q) = Inr z" "sd_message_id y = sd_message_id z" for p q y z
    by (rule new_messages_inj [OF Cons.prems(2) that])
  note uses = upload_one_uses [OF reachable_db_ok' [OF Cons.prems(1)] up, of cl]
  have "sd_message_id doc \<notin> used_messages (sys_of s1 cl)"
    if p: "p \<in> set (map snd ts)" "en_store env (fst p) (snd p) = Inr doc" for p doc
  proof -
    have "p \<noteq> (sp, c)" using dist p(1) by (simp add: x del: set_map) blast
    moreover have "p = (sp, c)" if "en_store env sp c = Inr y" "sd_message_id y = sd_message_id doc" for y
    proof (rule inj)
      show "p \<in> set (map snd (x # ts))" "(sp, c) \<in> set (map snd (x # ts))" using p(1) by (simp_all add: x)
      show "en_store env (fst p) (snd p) = Inr doc" by (rule p(2))
      show "en_store env (fst (sp, c)) (snd (sp, c)) = Inr y" using that(1) by simp
      show "sd_message_id doc = sd_message_id y" by (rule that(2) [symmetric])
    qed
    moreover have "sd_message_id doc \<notin> used_messages (sys_of s cl)"
      by (rule new_messages_new [OF Cons.prems(2), of p]) (simp_all add: p(1)[simplified] p(2))
    ultimately show ?thesis using uses by auto
  qed
  moreover have "distinct (map snd ts)" using dist by simp
  moreover have "p = q" if "p \<in> set (map snd ts)" "q \<in> set (map snd ts)" "en_store env (fst p) (snd p) = Inr y"
      "en_store env (fst q) (snd q) = Inr z" "sd_message_id y = sd_message_id z" for p q y z
    by (rule inj [OF _ _ that(3-5)]) (use that(1,2) in simp_all)
  ultimately have "new_messages cl (en_store env) (map snd ts) s1" unfolding new_messages_def by blast
  from Cons.IH [OF 1 this rest] show ?case .
qed simp

lemma staged_tracked: "staged d b \<Longrightarrow> tracked d b"
  by (simp add: staged_def tracked_def)

lemma upload_stream_runs:
  assumes "new_messages cl (en_store env) (map snd (en_order env)) s"
  shows "runs cl s (snd (upload_stream env u n frames len s))"
  unfolding runs_def
proof
  assume r: "sys_reachable (sys_of s cl)"
  from upload_stream_run [OF reachable_db_ok' [OF r], of env u n frames len] obtain rs s1 reg where
    run: "run_tasks env (en_order env) s \<lparr>cl_closed = False, cl_references = []\<rparr> = (rs, s1, reg, [])"
    and ran: "ran env s rs s1"
    and eq: "upload_stream env u n frames len s =
       (case upload (with_tasks env rs) u n frames len of
          Inl e \<Rightarrow> (Inl e, cleanup_block_refs (en_tg env) (en_clock env 0) (staged_refs env rs) s1)
        | Inr r \<Rightarrow> (Inr r, s1))" by auto
  have 1: "sys_reachable (sys_of s1 cl)" by (rule run_tasks_runs [OF r assms run])
  have "\<forall>b \<in> set (staged_refs env rs). tracked (srv_db s1) b"
    using ran staged_tracked by (fastforce simp: staged_refs_def ran_def came_from_def split: sum.splits)
  from cleanup_block_refs_refines [OF 1 this] 1 show "sys_reachable (sys_of (snd (upload_stream env u n frames len s)) cl)"
    unfolding eq by (simp split: sum.splits)
qed

section \<open>The operations of the engine\<close>

text \<open>The part an upload leaves is replaced, and cleaned up when that fails.\<close>

lemma replace_uploaded_runs:
  assumes ok: "db_ok (srv_db s)" and part: "uploaded_part env d (srv_db s) u n body us part"
    and rp: "replace_part t u n sz etag (part_blocks part) (srv_db s) = (r, d2)"
  shows "runs cl s (s\<lparr>srv_db := d2\<rparr>)"
    and "r = Inl e \<Longrightarrow> runs cl s (cleanup_block_refs tg t' (part_blocks part) (s\<lparr>srv_db := d2\<rparr>))"
proof -
  have st: "\<forall>b \<in> set (part_blocks part). staged (srv_db s) b" using part by (simp add: uploaded_part_def)
  then have "blocks_free (srv_db s) u n (part_blocks part)" by (intro refs_zero_free) (simp add: staged_def)
  then show 1: "runs cl s (s\<lparr>srv_db := d2\<rparr>)" using rp by (intro runs_called [OF rp] call_replace_part)
  show "runs cl s (cleanup_block_refs tg t' (part_blocks part) (s\<lparr>srv_db := d2\<rparr>))" if "r = Inl e"
  proof -
    have "d2 = srv_db s" using rp that by (auto simp: replace_part_def transact_def split: sum.splits)
    then have "\<forall>b \<in> set (part_blocks part). tracked (srv_db (s\<lparr>srv_db := d2\<rparr>)) b" using st staged_tracked by simp
    with 1 cleanup_block_refs_refines [of "s\<lparr>srv_db := d2\<rparr>" cl] show ?thesis by (simp add: runs_def)
  qed
qed

lemma commit_runs: "commit_upload t u sz etag parts c d = (x, d') \<Longrightarrow> runs cl (s\<lparr>srv_db := d\<rparr>) (s\<lparr>srv_db := d'\<rparr>)"
  using runs_called [of "commit_upload t u sz etag parts c d" x d' "s\<lparr>srv_db := d\<rparr>"]
    call_commit_upload [of d t u sz etag parts c] by simp

lemma abort_runs: "abort_upload_with_blocks t u (srv_db s) = (x, d) \<Longrightarrow> runs cl s (s\<lparr>srv_db := d\<rparr>)"
  by (erule runs_called) (rule call_abort_upload)

lemma create_upload_runs: "create_upload up (srv_db s) = (x, d) \<Longrightarrow> runs cl s (s\<lparr>srv_db := d\<rparr>)"
  by (erule runs_called) (rule call_create_upload)

lemma put_body_runs:
  assumes chunk: "0 < ue_chunk_size (en_upload env)" and new: "new_messages cl (en_store env) (map snd (en_order env)) s"
    and put: "put_body env uid frames expected c s = (x, s', sp)"
  shows "runs cl s s'"
  unfolding runs_def
proof
  assume r: "sys_reachable (sys_of s cl)"
  note ok = reachable_db_ok' [OF r]
  obtain y s1 where up: "upload_stream env uid 0 frames expected s = (y, s1)"
    by (cases "upload_stream env uid 0 frames expected s") auto
  have r1: "sys_reachable (sys_of s1 cl)"
    using upload_stream_runs [OF new, of uid 0 frames expected] r by (simp add: up runs_def)
  show "sys_reachable (sys_of s' cl)"
  proof (cases y)
    case (Inl e)
    with put up r1 show ?thesis by (simp add: put_body_def)
  next
    case (Inr z)
    obtain part actual where z: "z = (part, actual)" by (cases z) auto
    from upload_stream_Inr [OF ok chunk up [unfolded Inr z]] obtain chunks us where
      part: "uploaded_part env (srv_db s) (srv_db s1) uid 0 (concat chunks) us part" and ok1: "db_ok (srv_db s1)"
      by blast
    obtain r2 d2 where rp: "replace_part (en_clock env 2) uid 0 actual (part_etag part) (part_blocks part) (srv_db s1) = (r2, d2)"
      by (cases "replace_part (en_clock env 2) uid 0 actual (part_etag part) (part_blocks part) (srv_db s1)") auto
    obtain r3 d3 where cm: "commit_upload (en_clock env 3) uid actual (part_etag part) [part] c d2 = (r3, d3)"
      by (cases "commit_upload (en_clock env 3) uid actual (part_etag part) [part] c d2") auto
    have r2': "sys_reachable (sys_of (s1\<lparr>srv_db := d2\<rparr>) cl)"
      using replace_uploaded_runs(1) [OF ok1 part rp] r1 by (simp add: runs_def)
    have clean: "sys_reachable (sys_of (cleanup_block_refs (en_tg env) (en_clock env 0) (part_blocks part) (s1\<lparr>srv_db := d2\<rparr>)) cl)"
      if "r2 = Inl e" for e
      using replace_uploaded_runs(2) [OF ok1 part rp that] r1 by (simp add: runs_def)
    have r3': "sys_reachable (sys_of (s1\<lparr>srv_db := d3\<rparr>) cl)"
      using commit_runs [OF cm, of cl s1] r2' by (simp add: runs_def)
    show ?thesis
      using put up Inr z rp cm r1 r2' clean r3'
      by (auto simp: put_body_def split: option.splits sum.splits if_splits)
  qed
qed

lemma put_object_runs:
  assumes "0 < ue_chunk_size (en_upload env)" and new: "new_messages cl (en_store env) (map snd (en_order env)) s"
    and put: "put_object env uid b k frames m expected c s = (x, s', sp)"
  shows "runs cl s s'"
  unfolding runs_def
proof
  assume r: "sys_reachable (sys_of s cl)"
  let ?up = "\<lparr>up_upload_id = uid, up_bucket = b, up_key = k, up_metadata = m, up_kind = lit ''put'',
      up_created_at = en_clock env 1\<rparr>"
  obtain y d where cu: "create_upload ?up (srv_db s) = (y, d)" by (cases "create_upload ?up (srv_db s)") auto
  have r1: "sys_reachable (sys_of (s\<lparr>srv_db := d\<rparr>) cl)" using create_upload_runs [OF cu] r by (simp add: runs_def)
  have "telegram_blocks d = telegram_blocks (srv_db s)"
    using cu by (auto simp: create_upload_def insert_upload_def transact_def bind_res_def split: sum.splits if_splits)
  then have new1: "new_messages cl (en_store env) (map snd (en_order env)) (s\<lparr>srv_db := d\<rparr>)"
    using new by (intro new_messages_mono [OF new]) (simp add: used_messages_of row_messages_def pairs_def)
  obtain z s1 sp1 where pb: "put_body env uid frames expected c (s\<lparr>srv_db := d\<rparr>) = (z, s1, sp1)"
    by (cases "put_body env uid frames expected c (s\<lparr>srv_db := d\<rparr>)")
  have r2: "sys_reachable (sys_of s1 cl)" using put_body_runs [OF assms(1) new1 pb] r1 by (simp add: runs_def)
  obtain w d3 where ab: "abort_upload_with_blocks (en_clock env 4) uid (srv_db s1) = (w, d3)"
    by (cases "abort_upload_with_blocks (en_clock env 4) uid (srv_db s1)") auto
  have r3: "sys_reachable (sys_of (s1\<lparr>srv_db := d3\<rparr>) cl)" using abort_runs [OF ab] r2 by (simp add: runs_def)
  show "sys_reachable (sys_of s' cl)"
    using put cu pb ab r r1 r2 r3
    by (auto simp: put_object_def simp del: lit_simps split: sum.splits option.splits)
qed

lemma upload_part_runs:
  assumes chunk: "0 < ue_chunk_size (en_upload env)" and new: "new_messages cl (en_store env) (map snd (en_order env)) s"
    and up: "upload_part env uid n frames expected s = (x, s', sp)"
  shows "runs cl s s'"
  unfolding runs_def
proof
  assume r: "sys_reachable (sys_of s cl)"
  note ok = reachable_db_ok' [OF r]
  obtain y s1 where us: "upload_stream env uid n frames expected s = (y, s1)"
    by (cases "upload_stream env uid n frames expected s") auto
  have r1: "sys_reachable (sys_of s1 cl)"
    using upload_stream_runs [OF new, of uid n frames expected] r by (simp add: us runs_def)
  show "sys_reachable (sys_of s' cl)"
  proof (cases y)
    case (Inl e)
    with up us r r1 show ?thesis by (auto simp: upload_part_def split: sum.splits if_splits)
  next
    case (Inr z)
    obtain part actual where z: "z = (part, actual)" by (cases z) auto
    from upload_stream_Inr [OF ok chunk us [unfolded Inr z]] obtain chunks bs where
      part: "uploaded_part env (srv_db s) (srv_db s1) uid n (concat chunks) bs part" and ok1: "db_ok (srv_db s1)"
      by blast
    obtain r2 d2 where rp: "replace_part (en_clock env 2) uid n actual (part_etag part) (part_blocks part) (srv_db s1) = (r2, d2)"
      by (cases "replace_part (en_clock env 2) uid n actual (part_etag part) (part_blocks part) (srv_db s1)") auto
    have r2': "sys_reachable (sys_of (s1\<lparr>srv_db := d2\<rparr>) cl)"
      using replace_uploaded_runs(1) [OF ok1 part rp] r1 by (simp add: runs_def)
    have clean: "sys_reachable (sys_of (cleanup_block_refs (en_tg env) (en_clock env 0) (part_blocks part) (s1\<lparr>srv_db := d2\<rparr>)) cl)"
      if "r2 = Inl e" for e
      using replace_uploaded_runs(2) [OF ok1 part rp that] r1 by (simp add: runs_def)
    show ?thesis
      using up us Inr z rp r r2' clean by (auto simp: upload_part_def split: sum.splits if_splits)
  qed
qed

lemma delete_runs:
  assumes "engine_delete_object t b k c s = (x, s', sp)"
  shows "runs cl s s'"
proof -
  obtain y d where del: "delete_object t b k c (srv_db s) = (y, d)" by (cases "delete_object t b k c (srv_db s)") auto
  have "runs cl s (s\<lparr>srv_db := d\<rparr>)" by (rule runs_called [OF del call_delete_object])
  with assms del show ?thesis by (auto simp: engine_delete_object_def split: sum.splits option.splits)
qed

lemma copy_runs:
  assumes "engine_copy_object t sb sk b k m c s = (x, s', sp)"
  shows "runs cl s s'"
  unfolding runs_def
proof
  assume r: "sys_reachable (sys_of s cl)"
  note ok = reachable_db_ok' [OF r]
  show "sys_reachable (sys_of s' cl)"
  proof (cases "require_bucket b (srv_db s)")
    case (Inl e)
    with assms r show ?thesis by (simp add: engine_copy_object_def)
  next
    case b: (Inr u)
    then have bk: "bucket_named (srv_db s) b" by (simp add: require_bucket_def bucket_exists_def split: if_splits)
    show ?thesis
    proof (cases "engine_get_object sb sk (srv_db s)")
      case (Inl e)
      with assms r b show ?thesis by (simp add: engine_copy_object_def)
    next
      case (Inr source)
      then have "get_object sb sk (srv_db s) = Inr (Some source)"
        by (auto simp: engine_get_object_def bind_res_Inr_iff split: option.splits)
      then have v: "source_valid (srv_db s) source" by (rule get_object_source_valid [OF ok])
      obtain y d where cp: "copy_object t source b k m c (srv_db s) = (y, d)"
        by (cases "copy_object t source b k m c (srv_db s)") auto
      have "sys_reachable (sys_of (s\<lparr>srv_db := d\<rparr>) cl)"
        using runs_called [OF cp call_copy_object [OF v bk]] r by (simp add: runs_def)
      with assms b Inr cp show ?thesis by (auto simp: engine_copy_object_def split: sum.splits)
    qed
  qed
qed

lemma complete_runs:
  assumes "complete_multipart env hex uid requested s = (x, s', sp)"
  shows "runs cl s s'"
proof -
  have "runs cl s (s\<lparr>srv_db := d\<rparr>)" if "commit_upload t u sz etag parts c (srv_db s) = (y, d)" for t u sz etag parts c y d
    using commit_runs [OF that, of cl s] by simp
  with assms show ?thesis
    by (auto simp: complete_multipart_def split: sum.splits option.splits if_splits prod.splits)
qed

lemma abort_multipart_runs: "abort_multipart t uid s = (x, s', sp) \<Longrightarrow> runs cl s s'"
  using abort_runs by (auto simp: abort_multipart_def split: sum.splits option.splits prod.splits)

lemma create_multipart_runs: "create_multipart t uid b k m s = (x, s') \<Longrightarrow> runs cl s s'"
  using create_upload_runs by (auto simp: create_multipart_def split: sum.splits prod.splits)

section \<open>The handlers\<close>

definition answer_runs :: "(int \<times> int) list \<Rightarrow> server \<Rightarrow> answer \<Rightarrow> bool" where
  "answer_runs cl s a \<longleftrightarrow> runs cl s (fst (snd a))"

lemma answer_runs_reply [simp]: "answer_runs cl s (reply r s)"
  by (simp add: answer_runs_def reply_def)

lemma answer_runs_pair [simp]: "answer_runs cl s (r, s', sp) \<longleftrightarrow> runs cl s s'"
  by (simp add: answer_runs_def)

lemma answer_runs_with: "(\<And>x s' sp. h = (x, s', sp) \<Longrightarrow> runs cl s s') \<Longrightarrow> answer_runs cl s (answer_with f h)"
  by (cases h) (simp add: answer_runs_def answer_with_def)

lemma delete_each_runs: "delete_each env bucket i keys s = (deleted, errors, s', sp) \<Longrightarrow> runs cl s s'"
proof (induction env bucket i keys s arbitrary: deleted errors s' sp rule: delete_each.induct)
  case (2 env bucket i key keys s)
  obtain r s1 sp1 where d: "engine_delete_object (s3_clock env i) bucket key default_condition s = (r, s1, sp1)"
    by (cases "engine_delete_object (s3_clock env i) bucket key default_condition s")
  obtain del err s2 sp2 where rest: "delete_each env bucket (i + 1) keys s1 = (del, err, s2, sp2)"
    by (cases "delete_each env bucket (i + 1) keys s1")
  have "runs cl s1 s2" using 2(1) [OF d [symmetric] refl rest] .
  with delete_runs [OF d] have "runs cl s s2" by (rule runs_trans)
  with 2(2) d rest show ?case by (auto split: sum.splits)
qed simp

lemma handlers_run [simp]:
  "answer_runs cl s (s3_copy_object env bucket key source headers condition s)"
  "answer_runs cl s (s3_complete_multipart env upload_id frames s)"
  "answer_runs cl s (s3_multi_delete env bucket frames s)"
  "answer_runs cl s (s3_put_bucket_cors env bucket frames s)"
  "answer_runs cl s (s3_delete_bucket_cors bucket s)"
proof -
  have "answer_runs cl s (answer_with f (engine_copy_object t sb sk bucket key m condition s))" for f t sb sk m
    by (rule answer_runs_with) (rule copy_runs)
  then show "answer_runs cl s (s3_copy_object env bucket key source headers condition s)"
    by (simp add: s3_copy_object_def Let_def split: sum.splits prod.splits)
  have "answer_runs cl s (answer_with f (complete_multipart e h upload_id parts s))" for f e h parts
    by (rule answer_runs_with) (rule complete_runs)
  then show "answer_runs cl s (s3_complete_multipart env upload_id frames s)"
    by (simp add: s3_complete_multipart_def split: sum.splits)
  show "answer_runs cl s (s3_multi_delete env bucket frames s)"
    by (auto simp: s3_multi_delete_def split: sum.splits prod.splits intro: delete_each_runs)
  show "answer_runs cl s (s3_put_bucket_cors env bucket frames s)" "answer_runs cl s (s3_delete_bucket_cors bucket s)"
    by (auto simp: s3_put_bucket_cors_def s3_delete_bucket_cors_def
        intro: runs_call call_set_cors call_delete_cors split: sum.splits)
qed

section \<open>The dispatchers\<close>

lemma dispatch_bucket_runs:
  assumes "dispatch_bucket env meth bucket q frames s = Some a"
  shows "answer_runs cl s a"
proof -
  have "answer_runs cl s (r, s\<lparr>srv_db := snd (create_bucket t b (srv_db s))\<rparr>, [])" for r t b
    by (simp add: answer_runs_def runs_call call_create_bucket)
  moreover have "answer_runs cl s (r, s\<lparr>srv_db := d\<rparr>, [])" if "delete_bucket bucket (srv_db s) = (x, d)" for r x d
    using runs_called [OF that call_delete_bucket] by (simp add: answer_runs_def)
  ultimately show ?thesis
    using assms handlers_run unfolding dispatch_bucket_def Let_def
    by (auto split: if_splits http_method.splits sum.splits prod.splits option.splits bool.splits)
qed

text \<open>What a request relies on: a positive chunk size, and that the messages Telegram gives it are new.\<close>

definition fresh_request :: "(int \<times> int) list \<Rightarrow> s3_env \<Rightarrow> server \<Rightarrow> bool" where
  "fresh_request cl env s \<longleftrightarrow> 0 < ue_chunk_size (en_upload (s3_engine env))
     \<and> new_messages cl (en_store (s3_engine env)) (map snd (en_order (s3_engine env))) s"

lemma dispatch_upload_runs:
  assumes "fresh_request cl env s"
  shows "answer_runs cl s (dispatch_upload env meth bucket key headers q upload_id frames s)"
proof -
  have "answer_runs cl s (answer_with f (upload_part (s3_engine env) upload_id n frames len s))" for f n len
    using assms by (intro answer_runs_with upload_part_runs) (auto simp: fresh_request_def)
  moreover have "answer_runs cl s (answer_with f (abort_multipart t upload_id s))" for f t
    by (rule answer_runs_with) (rule abort_multipart_runs)
  ultimately show ?thesis
    by (auto simp: dispatch_upload_def dispatch_part_upload_def split: option.splits http_method.splits sum.splits)
qed

lemma dispatch_put_runs:
  assumes "fresh_request cl env s"
  shows "answer_runs cl s (dispatch_put env bucket key headers frames s)"
proof -
  have "answer_runs cl s (answer_with f (put_object (s3_engine env) u bucket key frames m len c s))" for f u m len c
    using assms by (intro answer_runs_with put_object_runs) (auto simp: fresh_request_def)
  then show ?thesis by (auto simp: dispatch_put_def Let_def split: option.splits sum.splits)
qed

lemma dispatch_object_runs:
  assumes "fresh_request cl env s"
  shows "answer_runs cl s (dispatch_object env meth bucket key q headers frames s)"
proof -
  have "answer_runs cl s (answer_with f (case create_multipart t u bucket key m s of (r, s1) \<Rightarrow> (r, s1, [])))" for f t u m
    using create_multipart_runs by (intro answer_runs_with) (auto split: prod.splits)
  moreover have "answer_runs cl s (answer_with f (engine_delete_object t bucket key c s))" for f t c
    by (rule answer_runs_with) (rule delete_runs)
  ultimately show ?thesis
    using dispatch_upload_runs [OF assms] dispatch_put_runs [OF assms]
    by (simp add: dispatch_object_def Let_def split: option.splits sum.splits)
qed

lemma dispatch_runs:
  assumes "fresh_request cl env s" and "dispatch env rq frames s = Some a"
  shows "answer_runs cl s a"
  using assms(2) dispatch_bucket_runs dispatch_object_runs [OF assms(1)]
  by (auto simp: dispatch_def split: sum.splits if_splits option.splits)

lemma handle_runs:
  assumes "fresh_request cl env s" and "handle env rq frames s = Some (r, s', spawned)"
  shows "runs cl s s'"
  using assms(2)
proof (cases rule: handle_cases)
  case (served payload_hash body a)
  from respond_server [OF served(5) [symmetric]] have "fst (snd a) = s'" by simp
  with dispatch_runs [OF assms(1) served(4)] show ?thesis by (simp add: answer_runs_def)
qed simp

section \<open>The running server\<close>

text \<open>
  The running server and the claims that tasks in progress hold on messages. A request, a reclaim and a
  tick that nothing interrupts is one step, whatever those tasks hold; a request has an environment
  whose Telegram numbers its messages anew. Between them the tasks in progress make their accesses, each
  a step of \<open>Gc_System\<close>, and spawn reclaims. A restart of the server loses the reclaims that were
  spawned. The deletions requested before it stay in the log.
\<close>

inductive numbered_step :: "config \<Rightarrow> site \<times> (int \<times> int) list \<Rightarrow> site \<times> (int \<times> int) list \<Rightarrow> bool" for c where
  numbered_request: "new_messages cl (en_store (s3_engine env)) (map snd (en_order (s3_engine env))) (site_server s)
    \<Longrightarrow> router (serve_env c env) ping rq frames (site_server s) = Some (r, s', spawned)
    \<Longrightarrow> numbered_step c (s, cl) (\<lparr>site_server = s', site_spawned = site_spawned s @ spawned\<rparr>, cl)"
| numbered_reclaim: "bs \<in> set (site_spawned s)
    \<Longrightarrow> numbered_step c (s, cl) (\<lparr>site_server = reclaim_blocks_now tenv timestamp bs (site_server s),
          site_spawned = remove1 bs (site_spawned s)\<rparr>, cl)"
| numbered_tick: "numbered_step c (s, cl) (s\<lparr>site_server := gc_tick tenv timestamp t c (site_server s)\<rparr>, cl)"
| numbered_access: "sys_step (sys_of (site_server s) cl) (sys_of s' cl')
    \<Longrightarrow> numbered_step c (s, cl) (\<lparr>site_server = s', site_spawned = site_spawned s @ spawned\<rparr>, cl')"
| numbered_restart: "numbered_step c (s, cl) (s\<lparr>site_spawned := []\<rparr>, cl)"

inductive numbered_reachable :: "config \<Rightarrow> server \<Rightarrow> site \<times> (int \<times> int) list \<Rightarrow> bool" for c s0 where
  numbered_start: "numbered_reachable c s0 (\<lparr>site_server = s0, site_spawned = []\<rparr>, [])"
| numbered_next: "numbered_reachable c s0 x \<Longrightarrow> numbered_step c x y \<Longrightarrow> numbered_reachable c s0 y"

definition site_sys :: "site \<times> (int \<times> int) list \<Rightarrow> gc_sys" where
  "site_sys x = sys_of (site_server (fst x)) (snd x)"

lemma router_runs:
  assumes "fresh_request cl env s" and "router env ping rq frames s = Some (r, s', spawned)"
  shows "runs cl s s'"
  using assms(2) handle_runs [OF assms(1)] by (auto simp: router_def simp del: lit_simps split: if_splits)

lemma serve_env_engine [simp]:
  "en_store (s3_engine (serve_env c env)) = en_store (s3_engine env)"
  "en_order (s3_engine (serve_env c env)) = en_order (s3_engine env)"
  by (simp_all add: serve_env_def)

lemma numbered_step_runs:
  assumes "numbered_step c x y" and "0 < cfg_chunk_size c" and "sys_reachable (site_sys x)"
  shows "sys_reachable (site_sys y)"
  using assms(1)
proof (cases rule: numbered_step.cases)
  case (numbered_request cl env s ping rq frames r t spawned)
  then have "fresh_request cl (serve_env c env) (site_server s)"
    using assms(2) by (simp add: fresh_request_def)
  from router_runs [OF this numbered_request(4)] assms(3) show ?thesis
    by (simp add: numbered_request(1,2) runs_def site_sys_def)
next
  case (numbered_access s cl t cl' spawned)
  then show ?thesis using assms(3) reach_step by (auto simp: site_sys_def)
qed (use assms(3) in \<open>simp_all add: site_sys_def gc_tick_def reclaim_blocks_now_refines run_gc_refines_sys\<close>)

lemma numbered_reachable_runs:
  assumes "numbered_reachable c s0 x" and "0 < cfg_chunk_size c" and "sys_reachable (sys_of s0 [])"
  shows "sys_reachable (site_sys x)"
  using assms(1)
proof (induction rule: numbered_reachable.induct)
  case numbered_start
  show ?case by (simp add: site_sys_def assms(3))
next
  case (numbered_next x y)
  from numbered_step_runs [OF numbered_next.hyps(2) assms(2) numbered_next.IH] show ?case .
qed

end
