(* ===== verification/Spec_Boot.thy ===== *)
theory Spec_Boot
  imports Request_Runs Spec_Requests Spec_Db Spec_Gc
begin

text \<open>
  The properties of the configuration and of the start: the bounds every accepted configuration
  satisfies, what is true of the server before its first request, and that a configured server
  authenticates its writers.
\<close>

section \<open>The configuration\<close>

text \<open>
  C30: Every configuration that is accepted is in bounds: chunk sizes, concurrency, timeouts,
  collection limits, object sizes and rates lie in their ranges (so the engine's chunk size is
  positive and sizes fit SQLite's integers), the credentials come in pairs and exist when
  authentication is required, the bot token and the chat are there when Telegram is used, the
  buckets have valid names and the CORS lists are usable.
\<close>

theorem config_in_bounds:
  assumes "into_config env args require_telegram require_auth = Inr c"
  shows "config_ok require_telegram require_auth c"
  using assms by (rule into_config_ok)

definition ex_cenv :: config_env where
  "ex_cenv = \<lparr>ce_url = \<lambda>_. Some \<lparr>url_scheme = lit ''https'', url_host = Some (lit ''h''), url_port = None,
     url_path = lit ''/'', url_query = None, url_fragment = None\<rparr>, ce_create_dir = \<lambda>_. True\<rparr>"

definition ex_args :: config_args where
  "ex_args = default_args\<lparr>ca_bot_token := Some (lit ''7:t''), ca_chat_id := Some 5, ca_access_key := Some (lit ''AK''),
     ca_secret_key := Some (lit ''secret''), ca_init_buckets := lit ''b, c''\<rparr>"

lemma ex_lists:
  "split_list (lit ''b, c'') = [lit ''b'', lit ''c'']" "split_list (lit ''*'') = [lit ''*'']"
  "split_list (lit ''GET,POST,PUT,DELETE,HEAD'') = [lit ''GET'', lit ''POST'', lit ''PUT'', lit ''DELETE'', lit ''HEAD'']"
  "trim (lit ''7:t'') = lit ''7:t''" "trim (lit ''us-east-1'') = lit ''us-east-1''"
  "backend_from_str (lit ''bot_api'') = Inr BotApi"
  by (simp_all add: split_list_def trim_def trim_by_def trim_start_by_def trim_end_by_def is_white_def
      backend_from_str_def to_ascii_lowercase_def ascii_lower_def)

lemma ex_names: "bucket_name_valid [98]" "bucket_name_valid [99]"
  by code_simp+

lemma ex_config: "\<exists>c. into_config ex_cenv ex_args True True = Inr c \<and> cfg_public_host c = None
   \<and> cfg_telegram_backend c = BotApi"
proof -
  have args: "ca_telegram_backend ex_args = lit ''bot_api''" "ca_chunk_size ex_args = None" "ca_local_bot_api ex_args = False"
    "ca_bot_token ex_args = Some (lit ''7:t'')" "ca_chat_id ex_args = Some 5" "ca_region ex_args = lit ''us-east-1''"
    "ca_init_buckets ex_args = lit ''b, c''" "ca_cors_allowed_origins ex_args = lit ''*''" "ca_public_host ex_args = None"
    "ca_cors_allowed_methods ex_args = lit ''GET,POST,PUT,DELETE,HEAD''" "ca_cors_allowed_headers ex_args = lit ''*''"
    "ca_max_object_size ex_args = default_max_object_size"
    by (simp_all add: ex_args_def default_args_def del: lit_simps)
  have "check_transfers ex_args = Inr ()" "check_limits ex_args = Inr ()"
    by (simp_all add: check_transfers_Inr check_limits_Inr ex_args_def default_args_def config_limits del: lit_simps)
  moreover have "check_credentials ex_args True = Inr ()"
    by (simp add: check_credentials_def ex_args_def ensure_def)
  moreover have "validate_cors (cors_of ex_args) = Inr ()"
    by (simp add: validate_cors_def cors_of_def args ex_lists [simplified])
  moreover have "create_dir ex_cenv what path = Inr ()" "create_parent ex_cenv what path = Inr ()" for what path
    by (simp_all add: create_dir_def create_parent_def ex_cenv_def ensure_def split: option.splits)
  moreover have "\<exists>url. normalize_telegram_api_url ex_cenv value = Inr url" for "value"
    by (simp add: normalize_telegram_api_url_def ex_cenv_def)
  then obtain url where "normalize_telegram_api_url ex_cenv (ca_telegram_api_url ex_args) = Inr url" by blast
  moreover have "normalize_public_host ex_cenv None = Inr None" by (simp add: normalize_public_host_def)
  ultimately show ?thesis
    by (simp add: into_config_def Let_def args ex_lists ensure_def config_limits i64_defs del: lit_simps)
      (simp add: validate_bucket_name_def ex_names assemble_def)
qed

theorem config_in_bounds_witness: "\<exists>c. into_config ex_cenv ex_args True True = Inr c \<and> config_ok True True c"
  using ex_config config_in_bounds by blast

section \<open>The start\<close>

text \<open>
  C31: A server that starts serves a consistent store. When \<open>prepare\<close> with Telegram succeeds on a
  database that satisfies the invariant, the database still does and holds the same objects, every
  bucket of the configuration exists and no other was added, SQLite found no corruption, and
  Telegram can be used: the backend of the configuration is active; the bot may delete messages,
  and post when the chat is a channel that does not delete by itself; a grammers client is logged
  in as the bot of the token and talks to the configured chat.
\<close>

theorem prepared_server:
  assumes "prepare env c True = Inr (d, tg, peer)" and "bt_open env (cfg_db_path c) = Inr d0" and "served d0"
  shows "served d \<and> lookup d = lookup d0
    \<and> (\<forall>b. bucket_named d b \<longleftrightarrow> bucket_named d0 b \<or> b \<in> set (cfg_init_buckets c))
    \<and> bt_integrity env d = Inr (lit ''ok'') \<and> active_backend tg = cfg_telegram_backend c
    \<and> (cfg_telegram_backend c = BotApi \<longrightarrow> (\<exists>ch m. bt_chat env = Inr ch \<and> bt_member env = Inr m
         \<and> has_admin_permission m (can_delete_messages m)
         \<and> (chat_kind ch = lit ''channel'' \<longrightarrow> has_admin_permission m (can_post_messages m))
         \<and> (\<forall>n. chat_auto_delete ch = Some n \<longrightarrow> n \<le> 0)))
    \<and> (\<forall>channel. peer = Some channel \<longrightarrow> gc_dialog_id channel = Some (cfg_chat_id c)
         \<and> (\<exists>i. bot_id_from_token (cfg_bot_token c) = Inr i \<and> gn_me (bt_net env) = Inr (Some i)))
    \<and> (cfg_telegram_backend c = Grammers \<longrightarrow> has_grammers tg)"
  using assms(1)
proof (cases rule: prepare_Inr)
  case (1 d0')
  then have same: "d0' = d0" using assms(2) by simp
  note con = telegram_connect_Inr [OF 1(4) [OF TrueI]]
  have "\<exists>r. bot_verify (bt_chat env) (bt_member env) = Inr r" if "cfg_telegram_backend c = BotApi"
    using 1(5) [OF TrueI] con that by (simp add: telegram_verify_def)
  then have verified: "cfg_telegram_backend c = BotApi \<longrightarrow> (\<exists>ch m. bt_chat env = Inr ch \<and> bt_member env = Inr m
         \<and> has_admin_permission m (can_delete_messages m)
         \<and> (chat_kind ch = lit ''channel'' \<longrightarrow> has_admin_permission m (can_post_messages m))
         \<and> (\<forall>n. chat_auto_delete ch = Some n \<longrightarrow> n \<le> 0))"
    using bot_verify_Inr by blast
  have "\<forall>channel. peer = Some channel \<longrightarrow> gc_dialog_id channel = Some (cfg_chat_id c)
         \<and> (\<exists>i. bot_id_from_token (cfg_bot_token c) = Inr i \<and> gn_me (bt_net env) = Inr (Some i))"
    using con grammers_connect_Inr by blast
  with verified con 1(3) init_buckets_props [OF assms(3), of "bt_now env" "cfg_init_buckets c"] 1(2) [unfolded same]
  show ?thesis by blast
qed

definition ex_benv :: boot_env where
  "ex_benv = \<lparr>bt_spools = \<lambda>_. Inr None, bt_open = \<lambda>_. Inr ex_db5, bt_http = \<lambda>_. Inr (),
     bt_net = \<lparr>gn_open_session = \<lambda>_. None, gn_authorized = Inr True, gn_sign_in = \<lambda>_ _. Inr (), gn_me = Inr None,
       gn_username = \<lambda>_. Inr None, gn_dialog_peer = \<lambda>_. None, gn_channel = \<lambda>_ _. Inr Peer_Other,
       gn_storage = \<lambda>_. Inr Peer_Other, gn_is_admin = \<lambda>_. Inr False\<rparr>,
     bt_integrity = \<lambda>_. Inr (lit ''ok''),
     bt_chat = Inr \<lparr>chat_kind = lit ''supergroup'', chat_title = [], chat_auto_delete = None\<rparr>,
     bt_member = Inr \<lparr>member_status = lit ''creator'', can_post_messages = None, can_delete_messages = None\<rparr>, bt_now = 9\<rparr>"

definition ex_cfg :: config where
  "ex_cfg = assemble ex_args BotApi 2 [] [] [] 5 None None [[98], [99]] (cors_of ex_args) [] [] None"

lemma ex_prepared: "prepare ex_benv ex_cfg True
   = Inr (init_buckets 9 [[98], [99]] ex_db5, \<lparr>active_backend = BotApi, has_grammers = False\<rparr>, None)"
proof -
  have "\<not> has_backend Grammers ex_db5" by (simp add: has_backend_def ex_db5_def ex_row_def)
  then show ?thesis
    by (simp add: prepare_def ex_benv_def ex_cfg_def assemble_def cleanup_stale_spools_def telegram_connect_def
        telegram_verify_def bot_verify_def has_admin_permission_def Let_def)
qed

theorem prepared_server_witness:
  "served (init_buckets 9 [[98], [99]] ex_db5) \<and> bucket_named (init_buckets 9 [[98], [99]] ex_db5) [99]"
  using prepared_server [OF ex_prepared _ ex_served(2)] by (simp add: ex_benv_def ex_cfg_def assemble_def)

section \<open>A configured server\<close>

text \<open>
  C6: A server started by \<open>serve\<close> without \<open>TG2S3_ALLOW_ANONYMOUS\<close> changes nothing for a request
  it cannot authenticate. From the command line to the handler: the configuration that was accepted
  holds an access key and a secret key, both not empty, and whenever a request changed the
  database, deleted a message or spawned a reclaim, its signature was verified with exactly them.
\<close>

theorem serve_authenticates_writes:
  assumes "command_config cenv args Serve = Inr c" and "\<not> ca_allow_anonymous args"
    and "handle (serve_env c env) rq frames s = Some (r, s', spawned)" and "s' \<noteq> s \<or> spawned \<noteq> []"
  shows "\<exists>ak sk payload_hash. ca_access_key args = Some ak \<and> ca_secret_key args = Some sk \<and> ak \<noteq> [] \<and> sk \<noteq> []
    \<and> verify_with_payload_hash (s3_crypto env)
        \<lparr>sv_access_key = Some ak, sv_secret_key = Some sk, sv_region = trim (ca_region args), sv_allow_anonymous = False\<rparr>
        (s3_now env) rq payload_hash = Inr ()"
proof -
  from handle_verified [OF assms(3,4)] obtain ph where
    ph: "verify_with_payload_hash (s3_crypto env) (sigv4_of c) (s3_now env) rq ph = Inr ()"
    by (auto simp: serve_env_def)
  from assms(1) have "into_config cenv args True True = Inr c"
    by (simp add: command_config_def requires_telegram_def requires_auth_def)
  from into_config_credentials [OF this assms(2)] ph show ?thesis by (auto simp: sigv4_of_def)
qed

definition ex_env_at :: s3_env where
  "ex_env_at = ex_s3\<lparr>s3_now := 1000 * 10 ^ 9\<rparr>"

lemma ex_served_write:
  assumes "into_config ex_cenv ex_args True True = Inr c" and "cfg_public_host c = None"
  shows "\<exists>r s' spawned. handle (serve_env c ex_env_at) (ex_signed PUT [47, 99]) [] (ex_server ex_db5) = Some (r, s', spawned)
    \<and> s' \<noteq> ex_server ex_db5"
proof -
  let ?env = "serve_env c ex_env_at" and ?rq = "ex_signed PUT [47, 99]"
  have "\<not> ca_allow_anonymous ex_args" by (simp add: ex_args_def default_args_def)
  from into_config_credentials [OF assms(1) this] have "sigv4_of c = ex_sigv4"
    by (auto simp: sigv4_of_def ex_sigv4_def ex_args_def default_args_def ex_lists(5) simp del: lit_simps)
  then have env: "s3_auth ?env = ex_sigv4" "s3_crypto ?env = ex_crypto" "s3_now ?env = 1000 * 10 ^ 9" "s3_public_host ?env = None"
    "s3_lib ?env = s3_lib ex_s3"
    by (simp_all add: serve_env_def ex_env_at_def assms(2)) (simp add: ex_s3_def)
  have rq: "rq_method ?rq = PUT" "rq_path ?rq = [47, 99]" "rq_query ?rq = []"
    "header_text (rq_headers ?rq) (lit ''host'') = Some (lit ''h'')" "\<not> is_streaming_payload (rq_headers ?rq)"
    by (simp_all add: ex_signed_def header_text_def is_streaming_payload_def)
  have "parse_target (s3_lib ex_s3) [47, 99] hs None = Inr \<lparr>tgt_bucket = Some [99], tgt_key = None\<rparr>" for hs
    using ex_target(2) by (simp add: parse_target_def)
  moreover have "validate_bucket [99] = Inr ()" by code_simp
  ultimately obtain a where "dispatch ?env ?rq [] (ex_server ex_db5)
      = Some (a, (ex_server ex_db5)\<lparr>srv_db := snd (create_bucket (s3_clock ?env 5) [99] ex_db5)\<rparr>, [])"
    by (simp add: dispatch_def rq env dispatch_bucket_def Let_def ex_plain)
  moreover have "snd (create_bucket t [99] ex_db5) \<noteq> ex_db5" for t
    by (simp add: create_bucket_def ex_db5_def ex_db1_def empty_db_def ex_bucket_def bucket_named_def)
  moreover have "hash_cors_body ?env ?rq [] = Inr (None, [])" by (simp add: hash_cors_body_def is_cors_put_def rq)
  ultimately show ?thesis
    using ex_verified [of PUT "[47, 99]"] by (simp add: handle_def rq env respond_def Let_def ex_server_def)
qed

theorem serve_authenticates_writes_witness:
  "\<exists>c r s' spawned payload_hash. handle (serve_env c ex_env_at) (ex_signed PUT [47, 99]) [] (ex_server ex_db5) = Some (r, s', spawned)
    \<and> s' \<noteq> ex_server ex_db5
    \<and> verify_with_payload_hash ex_crypto \<lparr>sv_access_key = Some (lit ''AK''), sv_secret_key = Some (lit ''secret''),
        sv_region = trim (lit ''us-east-1''), sv_allow_anonymous = False\<rparr> (1000 * 10 ^ 9) (ex_signed PUT [47, 99]) payload_hash = Inr ()"
proof -
  obtain c where c: "into_config ex_cenv ex_args True True = Inr c" "cfg_public_host c = None" using ex_config by blast
  then have com: "command_config ex_cenv ex_args Serve = Inr c"
    by (simp add: command_config_def requires_telegram_def requires_auth_def)
  obtain r s' sp where h: "handle (serve_env c ex_env_at) (ex_signed PUT [47, 99]) [] (ex_server ex_db5) = Some (r, s', sp)"
    and ne: "s' \<noteq> ex_server ex_db5" using ex_served_write [OF c] by blast
  have args: "\<not> ca_allow_anonymous ex_args" "ca_access_key ex_args = Some (lit ''AK'')"
    "ca_secret_key ex_args = Some (lit ''secret'')" "ca_region ex_args = lit ''us-east-1''"
    by (simp_all add: ex_args_def default_args_def del: lit_simps)
  have env: "s3_crypto ex_env_at = ex_crypto" "s3_now ex_env_at = 1000 * 10 ^ 9"
    by (simp_all add: ex_env_at_def ex_s3_def)
  from serve_authenticates_writes [OF com args(1) h] ne h show ?thesis
    unfolding args(2-4) env option.inject by blast
qed

section \<open>The running server\<close>

text \<open>
  C5: A started server keeps running. From a store that satisfies the invariant, whatever requests
  arrive, whenever the reclaims they spawned run, however often the background collection ticks,
  whatever Telegram answers, and whatever database calls, deletions and reclaims the requests and tasks
  that run at the same time make, one transaction at a time in any interleaving: in every state the
  server reaches the store satisfies the invariant, the next request is answered, the next tick of the
  collection succeeds within its limit, and neither it nor a reclaim changes what any key reads. It is
  assumed of each of the interleaved calls that it is \<open>sound\<close> when it is made. That leaves out what two
  transactions commit without a check: a \<open>replace_part\<close> whose blocks have come to belong to something
  else (Telegram gave a message id twice), and a \<open>copy_object\<close> into a bucket that was deleted after the
  engine looked it up, or of a source whose blocks are not what the engine read.
\<close>

theorem server_keeps_running:
  assumes "command_config cenv args Serve = Inr c" and "prepare benv c True = Inr (d, tg, peer)"
    and "bt_open benv (cfg_db_path c) = Inr d0" and "served d0" and "site_reachable c d s"
  shows "served (srv_db (site_server s))
    \<and> (\<forall>env ping rq frames. query_valid (rq_query rq) \<longrightarrow> router (serve_env c env) ping rq frames (site_server s) \<noteq> None)
    \<and> (\<forall>tenv timestamp t. (\<exists>n. fst (run_gc tenv timestamp t (cfg_gc_limit c) (site_server s)) = Inr n \<and> n \<le> cfg_gc_limit c)
        \<and> lookup (srv_db (gc_tick tenv timestamp t c (site_server s))) = lookup (srv_db (site_server s)))
    \<and> (\<forall>tenv timestamp bs. lookup (srv_db (reclaim_blocks_now tenv timestamp bs (site_server s)))
          = lookup (srv_db (site_server s)))"
proof -
  from assms(1) into_config_ok have c: "config_ok True True c"
    by (simp add: command_config_def requires_telegram_def requires_auth_def)
  then have lim: "0 < cfg_chunk_size c" "0 < cfg_gc_limit c" "cfg_gc_limit c \<le> max_gc_limit"
    by (simp_all add: config_ok_def max_gc_limit_def)
  from prepare_Inr [OF assms(2)] assms(3) have "d = init_buckets (bt_now benv) (cfg_init_buckets c) d0" by (metis Inr_inject)
  with init_buckets_props [OF assms(4)] have "served d" by simp
  from site_reachable_served [OF assms(5) this lim(1)] have sv: "served (srv_db (site_server s))" .
  note ok = served_db_ok [OF sv]
  have "router (serve_env c env) ping rq frames (site_server s) \<noteq> None" if "query_valid (rq_query rq)" for env ping rq frames
    using router_total [OF sv _ that, of "serve_env c env" ping frames] lim(1) by auto
  then show ?thesis using sv run_gc_returns [OF ok lim(2,3)] tick.keeps_objects [OF sv] reclaim.keeps_objects [OF sv] by blast
qed

lemma ex_site: "site_reachable c d
   \<lparr>site_server = gc_tick ex_tenv 10000 10000 c \<lparr>srv_db = d, srv_deleted = []\<rparr>, site_spawned = []\<rparr>"
  using site_next [OF site_start site_tick [of c "\<lparr>site_server = \<lparr>srv_db = d, srv_deleted = []\<rparr>, site_spawned = []\<rparr>" ex_tenv 10000 10000]]
  by simp

theorem server_keeps_running_witness:
  "\<exists>c d tg peer. command_config ex_cenv ex_args Serve = Inr c \<and> prepare ex_benv c True = Inr (d, tg, peer)
     \<and> served (srv_db (gc_tick ex_tenv 10000 10000 c \<lparr>srv_db = d, srv_deleted = []\<rparr>))"
proof -
  obtain c where c: "into_config ex_cenv ex_args True True = Inr c" and be: "cfg_telegram_backend c = BotApi"
    using ex_config by blast
  from c have com: "command_config ex_cenv ex_args Serve = Inr c"
    by (simp add: command_config_def requires_telegram_def requires_auth_def)
  have "\<not> has_backend Grammers ex_db5" by (simp add: has_backend_def ex_db5_def ex_row_def)
  with be obtain d tg peer where p: "prepare ex_benv c True = Inr (d, tg, peer)"
    by (simp add: prepare_def ex_benv_def cleanup_stale_spools_def telegram_connect_def
        telegram_verify_def bot_verify_def has_admin_permission_def Let_def)
  from server_keeps_running [OF com p _ ex_served(2) ex_site] com p show ?thesis
    by (auto simp: ex_benv_def)
qed

text \<open>
  C8: What the running server does deletes no message that something needs. The server starts from a
  store and a log of deletions that some run of the system of \<open>Gc_System\<close> leads to, and Telegram gives
  each message a new id. Then requests, spawned reclaims and ticks of the collection, each of them not
  interrupted, and restarts, in any order, whatever claims other tasks hold and whatever steps of that
  system those tasks take between them, are together a run of that system: no object that can be read
  has a block whose message was deleted. The accesses of one request that other tasks' accesses cut in
  two are only covered as steps of the system, with the guards of \<open>db_call\<close>.
\<close>

theorem server_refines_system:
  assumes "numbered_reachable c s0 (s, claims)" and "sys_reachable (sys_of s0 [])" and "0 < cfg_chunk_size c"
  shows "sys_reachable (sys_of (site_server s) claims)
    \<and> (\<forall>b k ob. get_object b k (srv_db (site_server s)) = Inr (Some ob) \<longrightarrow>
        (\<forall>x \<in> set (obj_blocks ob). blk_message_id x \<notin> set (srv_deleted (site_server s))))"
proof -
  have r: "sys_reachable (sys_of (site_server s) claims)"
    using numbered_reachable_runs [OF assms(1,3,2)] by (simp add: site_sys_def)
  have "blk_message_id x \<notin> set (srv_deleted (site_server s))"
    if "get_object b k (srv_db (site_server s)) = Inr (Some ob)" "x \<in> set (obj_blocks ob)" for b k ob x
    using object_message_kept [OF r, of b k ob x] that by (simp add: sys_of_def)
  with r show ?thesis by blast
qed

definition ex_numbered :: site where
  "ex_numbered = \<lparr>site_server = gc_tick ex_tenv 10000 10000 ex_cfg \<lparr>srv_db = ex_db3, srv_deleted = [77]\<rparr>, site_spawned = []\<rparr>"

text \<open>A task in progress has message 77, which was never entered in a row, deleted; then the collection ticks.\<close>

lemma ex_ticked: "numbered_reachable ex_cfg \<lparr>srv_db = ex_db3, srv_deleted = []\<rparr> (ex_numbered, [])"
proof -
  have "77 \<notin> row_messages (sys_db (sys_of \<lparr>srv_db = ex_db3, srv_deleted = []\<rparr> []))" by code_simp
  from step_discard [OF this]
  have "sys_step (sys_of \<lparr>srv_db = ex_db3, srv_deleted = []\<rparr> []) (sys_of \<lparr>srv_db = ex_db3, srv_deleted = [77]\<rparr> [])"
    by (simp add: sys_of_def)
  from numbered_next [OF numbered_start numbered_access [of "\<lparr>site_server = \<lparr>srv_db = ex_db3, srv_deleted = []\<rparr>, site_spawned = []\<rparr>"]] this
  have "numbered_reachable ex_cfg \<lparr>srv_db = ex_db3, srv_deleted = []\<rparr>
      (\<lparr>site_server = \<lparr>srv_db = ex_db3, srv_deleted = [77]\<rparr>, site_spawned = [] @ []\<rparr>, [])" by simp
  from numbered_next [OF this numbered_tick [of ex_cfg _ "[]" ex_tenv 10000 10000]] show ?thesis by (simp add: ex_numbered_def)
qed

theorem server_refines_system_witness:
  "sys_reachable (sys_of (site_server ex_numbered) [])"
proof -
  have "0 < cfg_chunk_size ex_cfg" by (simp add: ex_cfg_def assemble_def)
  from server_refines_system [OF ex_ticked ex_reachable this] show ?thesis by simp
qed

end
