(* ===== verification/Bot_Client.thy ===== *)
theory Bot_Client
  imports Telegram_Connect Download Auth
begin

text \<open>
  \<open>BotApiClient\<close> (\<open>src/telegram/bot_api.rs\<close>): the client, the URLs and parameters of its requests, and
  its operations over the answers to them. \<open>web\<close> is the HTTP client: the answer to an attempt of a
  request. \<open>serde_json\<close> is the record of parsers, one for each type a method is decoded at.
\<close>

section \<open>The client\<close>

record bot_client =
  bc_token :: str
  bc_chat_id :: int
  bc_api_url :: str
  bc_local_bot_api :: bool

text \<open>What \<open>new\<close> sets on the builder of the HTTP client.\<close>

record http_settings =
  hs_pool_max_idle :: nat
  hs_connect_timeout :: nat
  hs_timeout :: nat

definition bot_client_new :: "(http_settings \<Rightarrow> error + unit) \<Rightarrow> config \<Rightarrow> error + bot_client" where
  "bot_client_new build c =
     bind_res (build \<lparr>hs_pool_max_idle = max (cfg_upload_concurrency c + cfg_download_concurrency c) 8,
         hs_connect_timeout = 20, hs_timeout = cfg_telegram_timeout_secs c\<rparr>) (\<lambda>_.
     Inr \<lparr>bc_token = cfg_bot_token c, bc_chat_id = cfg_chat_id c, bc_api_url = cfg_telegram_api_url c,
       bc_local_bot_api = cfg_local_bot_api c\<rparr>)"

definition method_url :: "bot_client \<Rightarrow> str \<Rightarrow> str" where
  "method_url bc method = bc_api_url bc @ lit ''/bot'' @ bc_token bc @ lit ''/'' @ method"

definition file_url :: "bot_client \<Rightarrow> str \<Rightarrow> str" where
  "file_url bc path = bc_api_url bc @ lit ''/file/bot'' @ bc_token bc @ lit ''/'' @ path"

section \<open>Requests\<close>

type_synonym params = "(str \<times> str) list"

datatype web_request = Get str params | Post str params

type_synonym web = "web_request \<Rightarrow> nat \<Rightarrow> error + api_response"

definition call_get ::
  "bot_client \<Rightarrow> web \<Rightarrow> str \<Rightarrow> (nat list \<Rightarrow> str + 'a api_envelope) \<Rightarrow> params \<Rightarrow> error + 'a"
where
  "call_get bc web method parse ps = call_api method parse (web (Get (method_url bc method) ps))"

definition call_post ::
  "bot_client \<Rightarrow> web \<Rightarrow> str \<Rightarrow> (nat list \<Rightarrow> str + 'a api_envelope) \<Rightarrow> params \<Rightarrow> error + 'a"
where
  "call_post bc web method parse ps = call_api method parse (web (Post (method_url bc method) ps))"

record file_info =
  fi_file_path :: "str option"

record bot_parsers =
  bp_chat :: "nat list \<Rightarrow> str + chat api_envelope"
  bp_member :: "nat list \<Rightarrow> str + chat_member api_envelope"
  bp_user :: "nat list \<Rightarrow> str + int api_envelope"
  bp_bool :: "nat list \<Rightarrow> str + bool api_envelope"
  bp_file :: "nat list \<Rightarrow> str + file_info api_envelope"
  bp_message :: "nat list \<Rightarrow> str + api_message api_envelope"

definition chat_param :: "bot_client \<Rightarrow> str \<times> str" where
  "chat_param bc = (lit ''chat_id'', show_int (bc_chat_id bc))"

definition get_me_id :: "bot_client \<Rightarrow> web \<Rightarrow> bot_parsers \<Rightarrow> error + int" where
  "get_me_id bc web p = call_get bc web (lit ''getMe'') (bp_user p) []"

definition bot_client_verify :: "bot_client \<Rightarrow> web \<Rightarrow> bot_parsers \<Rightarrow> error + (str \<times> str)" where
  "bot_client_verify bc web p =
     bot_verify (call_get bc web (lit ''getChat'') (bp_chat p) [chat_param bc])
       (bind_res (get_me_id bc web p) (\<lambda>me.
          call_get bc web (lit ''getChatMember'') (bp_member p) [chat_param bc, (lit ''user_id'', show_int me)]))"

text \<open>\<open>serde_json::to_string\<close> of a list of integers.\<close>

definition json_ints :: "int list \<Rightarrow> str" where
  "json_ints is = lit ''['' @ join (lit '','') (map show_int is) @ lit '']''"

definition client_delete_message :: "bot_client \<Rightarrow> web \<Rightarrow> bot_parsers \<Rightarrow> int \<Rightarrow> error + unit" where
  "client_delete_message bc web p =
     bot_delete_message (\<lambda>ids. map_sum id (\<lambda>_. ()) (call_post bc web (lit ''deleteMessage'') (bp_bool p)
       [chat_param bc, (lit ''message_id'', show_int (hd ids))]))"

definition client_delete_messages :: "bot_client \<Rightarrow> web \<Rightarrow> bot_parsers \<Rightarrow> int list \<Rightarrow> (error + unit) \<times> int list" where
  "client_delete_messages bc web p =
     bot_delete_messages (\<lambda>ids. map_sum id (\<lambda>_. ()) (call_post bc web (lit ''deleteMessages'') (bp_bool p)
       [chat_param bc, (lit ''message_ids'', json_ints ids)]))"

definition client_bot_env ::
  "bot_client \<Rightarrow> web \<Rightarrow> bot_parsers \<Rightarrow> (str \<Rightarrow> nat \<Rightarrow> nat \<Rightarrow> error + stream)
     \<Rightarrow> (str \<Rightarrow> str \<Rightarrow> nat \<Rightarrow> error + http_response) \<Rightarrow> bot_env"
where
  "client_bot_env bc web p open_file fetch =
     \<lparr>be_local = bc_local_bot_api bc,
      be_get_file = (\<lambda>file_id. map_sum id fi_file_path
        (call_get bc web (lit ''getFile'') (bp_file p) [(lit ''file_id'', file_id)])),
      be_open = open_file,
      be_get = (\<lambda>path start stop. fetch (file_url bc path) (lit ''bytes='' @ show_int start @ lit ''-'' @ show_int stop))\<rparr>"

section \<open>What is asked\<close>

text \<open>
  Deletions only ask about the chat of the configuration: two HTTP clients that agree on the
  requests with that \<open>chat_id\<close> cannot be told apart. The chat stored with a block plays no part.
\<close>

definition same_chat :: "bot_client \<Rightarrow> web \<Rightarrow> web \<Rightarrow> bool" where
  "same_chat bc web web' \<longleftrightarrow> (\<forall>url ps n. chat_param bc \<in> set ps \<longrightarrow> web (Post url ps) n = web' (Post url ps) n)"

lemma call_post_same_chat:
  assumes "same_chat bc web web'" and "chat_param bc \<in> set ps"
  shows "call_post bc web method parse ps = call_post bc web' method parse ps"
proof -
  have "web (Post url ps) = web' (Post url ps)" for url
    using assms by (auto simp: same_chat_def fun_eq_iff)
  then show ?thesis by (simp add: call_post_def)
qed

lemma deletions_ask_one_chat:
  assumes "same_chat bc web web'"
  shows "client_delete_message bc web p = client_delete_message bc web' p"
    and "client_delete_messages bc web p = client_delete_messages bc web' p"
  by (simp_all add: client_delete_message_def client_delete_messages_def call_post_same_chat [OF assms] del: lit_simps)

text \<open>
  The error of a failed connection can hold the URL, and with it the token. No call lets it out,
  but \<open>upload_stream\<close>, which does not go through \<open>retry\<close>, returns it as it is.
\<close>

lemma calls_masked:
  "call_get bc web method parse ps \<noteq> Inl (Transport m)" "call_post bc web method parse ps \<noteq> Inl (Transport m)"
  unfolding call_get_def call_post_def call_api_def retry_def using retry_loop_masked by metis+

lemma upload_error_unmasked: "bot_upload_stream parse (Inl (Transport m)) sz = (Inl (Transport m), [])"
  by (simp add: bot_upload_stream_def)

end
