(* ===== verification/Block_Ids.thy ===== *)
theory Block_Ids
  imports Spec_Db
begin

text \<open>
  A run of the database that shows what the reuse of block ids does.

  \<open>telegram_blocks.id\<close> is an \<open>INTEGER PRIMARY KEY\<close> without \<open>AUTOINCREMENT\<close>, so SQLite gives the
  next row one more than the largest id in the table (\<open>next_rowid\<close>), and the id of a collected
  row is given out again. An upload that stays in progress for more than an hour keeps the
  ids of its first blocks in memory; the stale sweep collects their rows, another upload gets
  an id back, and the first upload's part and completion then succeed, because they compare
  ids, offsets and sizes only. The object that results reads the other upload's message.
\<close>

text \<open>The block the other upload stages, and the rows that follow.\<close>

definition other_block :: block_ref where
  "other_block = ex_block\<lparr>blk_message_id := 41, blk_file_id := [104], blk_message_date := 4010\<rparr>"

definition other_row :: "block_state \<Rightarrow> block_row" where
  "other_row st = (ex_row st 1)\<lparr>trow_message_id := 41, trow_file_id := [104],
     trow_message_date := 4010, trow_created_at := 4010\<rparr>"

definition late_orow :: object_row where "late_orow = ex_orow\<lparr>orow_modified_at := 4020\<rparr>"

definition swapped_object :: object_record where
  "swapped_object = ex_object\<lparr>obj_modified_at := 4020, obj_blocks := [other_block]\<rparr>"

definition reused_db :: db where
  "reused_db = ex_db2\<lparr>telegram_blocks := [other_row Staged]\<rparr>"

definition reused_part_db :: db where
  "reused_part_db = ex_db4\<lparr>telegram_blocks := [other_row Staged]\<rparr>"

definition swapped_db :: db where
  "swapped_db = ex_db5\<lparr>objects := [late_orow], telegram_blocks := [other_row Committed]\<rparr>"

lemmas other_defs = other_block_def other_row_def late_orow_def swapped_object_def reused_db_def
  reused_part_db_def swapped_db_def ex_defs

lemma reused_sweep:
  "gc_success 1 (snd (queue_stale_block 4000 1 ex_db3)) = ex_db2"
  by (simp add: ex_defs queue_stale_block_def gc_success_def delete_block_row_def unreferenced_def
      in_object_def in_part_def update_block_def enqueue_gc_def queued_def block_exists_def)

lemma reused_stage: "add_staged_block 4010 other_block ex_db2 = (Inr 1, reused_db)"
  by (simp add: other_defs add_staged_block_def insert_telegram_block_def transact_def next_rowid_def)

lemma reused_part: "replace_part 4015 ex_upload 0 3 [101] [ex_block] reused_db = (Inr [], reused_part_db)"
  by (simp add: other_defs replace_part_def replace_part_tx_def upload_rows_def
      ensure_blocks_not_queued_def rows_of_part_def join_blocks_def delete_part_row_def
      insert_part_def insert_part_blocks_def insert_part_block_def block_exists_def transact_def
      enumerate_eq_zip)

lemma reused_verify: "verify_parts ex_upload [ex_part] reused_part_db = Inr ()"
  by (simp add: verify_parts_def other_defs rows_of_upload_def ordered_part_blocks_def
      group_entries_def push_entry_def)

lemma reused_insert:
  "insert_object \<lparr>orow_id = 0, orow_bucket = ex_bucket, orow_key = ex_key, orow_size = 3,
     orow_etag = [101], orow_metadata = default_metadata, orow_created_at = 1,
     orow_modified_at = 4020\<rparr> reused_part_db = Inr (1, reused_part_db\<lparr>objects := [late_orow]\<rparr>)"
  by (simp add: insert_object_def other_defs object_rows_def next_rowid_def)

lemma reused_attach:
  "attach_blocks 1 0 0 [ex_block] (reused_part_db\<lparr>objects := [late_orow]\<rparr>)
     = Inr (reused_part_db\<lparr>objects := [late_orow], telegram_blocks := [other_row Committed],
     object_blocks := [\<lparr>ob_object_id = 1, ob_ordinal = 0, ob_block_id = 1, ob_byte_offset = 0,
       ob_size = 3\<rparr>]\<rparr>)"
  by (simp add: attach_block_def insert_object_block_def update_block_def dequeue_gc_def
      block_exists_def other_defs)

lemma reused_commit_tx:
  "commit_upload_tx 4020 ex_urow 3 [101] [ex_part] default_condition reused_part_db
     = Inr ([], swapped_db)"
proof -
  have "all_blocks [ex_part] = [ex_block]" by (simp add: all_blocks_def ex_part_def)
  moreover have "ensure_blocks_not_queued (map blk_id [ex_block]) reused_part_db = Inr ()"
    by (simp add: ensure_blocks_not_queued_def other_defs)
  moreover have "remove_existing_object 4020 ex_bucket ex_key default_condition reused_part_db
      = Inr (None, reused_part_db)"
    by (simp add: remove_existing_object_def object_rows_def other_defs)
  ultimately show ?thesis
    unfolding commit_upload_tx_def
    by (simp add: ex_urow_simps reused_verify reused_insert reused_attach del: attach_blocks.simps)
      (simp add: other_defs ordered_part_blocks_def rows_of_upload_def join_blocks_def delete_upload_row_def)
qed

lemma reused_get: "get_object ex_bucket ex_key swapped_db = Inr (Some swapped_object)"
  by (simp add: get_object_def other_defs object_rows_def load_object_blocks_def rows_of_object_def
      join_blocks_def object_block_ref_def block_from_row_def object_from_row_def
      ex_backend [simplified])

lemma reused_upload_rows: "upload_rows reused_part_db ex_upload = [ex_urow]"
  by (simp add: upload_rows_def other_defs)

lemma reused_commit:
  "commit_upload 4020 ex_upload 3 [101] [ex_part] default_condition reused_part_db
     = (Inr (Some (swapped_object, [])), swapped_db)"
  by (simp add: commit_upload_def ex_layout reused_upload_rows reused_commit_tx transact_def
      read_back_def reused_get ex_urow_simps)

lemma reused_stale: "\<exists>g. stale_blocks (4000 - 3600) 10 ex_db3 = Inr [g] \<and> gb_block_id g = 1"
proof -
  have "i64_max \<ge> int 10" by (simp add: i64_defs)
  moreover have "unreferenced ex_db3 1"
    by (simp add: unreferenced_def in_object_def in_part_def block_exists_def ex_defs)
  moreover have "\<exists>g. garbage_from_row (\<lparr>q_block_id = 1, q_attempts = 0, q_next_attempt = 0,
      q_last_error = None, q_state = Pending\<rparr>, ex_row Staged 1) = Inr g \<and> gb_block_id g = 1"
    by (simp add: garbage_from_row_def ex_row_def ex_backend [simplified])
  ultimately show ?thesis by (auto simp: stale_blocks_def ex_db3_def ex_row_def)
qed

text \<open>
  The whole run. The first upload has staged its block of message 40 as id 1 (\<open>ex_db3\<close>). The
  sweep finds the row stale, queues and collects it. A second upload stages message 41 and
  gets id 1. The first upload stores its part and completes: both succeed, for blocks that
  name message 40, and the object reads message 41.
\<close>

lemma reused_block_id:
  "add_staged_block 2 ex_block ex_db2 = (Inr 1, ex_db3)"
  "\<exists>g. stale_blocks (4000 - 3600) 10 ex_db3 = Inr [g] \<and> gb_block_id g = 1"
  "gc_success 1 (snd (queue_stale_block 4000 1 ex_db3)) = ex_db2"
  "add_staged_block 4010 other_block ex_db2 = (Inr 1, reused_db)"
  "replace_part 4015 ex_upload 0 3 [101] [ex_block] reused_db = (Inr [], reused_part_db)"
  "commit_upload 4020 ex_upload 3 [101] [ex_part] default_condition reused_part_db
     = (Inr (Some (swapped_object, [])), swapped_db)"
  "map blk_message_id (all_blocks [ex_part]) = [40]"
  "\<exists>ob. get_object ex_bucket ex_key swapped_db = Inr (Some ob)
     \<and> map blk_message_id (obj_blocks ob) = [41]"
  by (rule ex_step3 reused_stale reused_sweep reused_stage reused_part reused_commit)+
    (simp_all add: reused_get all_blocks_def ex_part_def ex_block_def swapped_object_def
      other_block_def)

end
