(* ===== verification/Spec2Isabelle.thy ===== *)
theory Spec2Isabelle
  imports Spec_Db Spec_Objects Spec_Transfer Spec_Gc Spec_Limits Spec_Engine Spec_S3 Spec_Auth Spec_Requests
    Spec_Session Spec_Boot Spool_File Bot_Client Block_Ids
begin

text \<open>
  tg2s3 is an S3 server whose objects are Telegram messages: SQLite holds the names, the layout
  and the reference counts, Telegram holds the bytes. This library models the program from the
  handler of a request down to the SQL statements, and proves that it stores what it is given,
  returns what it stored, and never deletes a message something still needs.

  \<^bold>\<open>The program and its parts\<close>

  A request enters \<open>router\<close> and \<open>handle\<close> (\<open>src/s3.rs\<close>), is authenticated (\<open>src/auth.rs\<close>), and is
  dispatched on its target (\<open>src/s3/target.rs\<close>) to a handler (\<open>src/s3/\<close>). Handlers call the engine
  (\<open>src/engine/\<close>), which cuts bodies into blocks and sends them through the Telegram client
  (\<open>src/transfer/\<close>, \<open>src/telegram/\<close>), records them in the database (\<open>src/db/\<close>), and spawns the
  reclaim of blocks that lost their last reference. Collection (\<open>src/engine/gc.rs\<close>) runs beside the
  requests. \<open>src/config.rs\<close>, \<open>src/bootstrap.rs\<close> and \<open>src/main.rs\<close> build the server.

  \<^bold>\<open>The theories, from the bottom\<close>

  \<^item> \<open>Prelude\<close>, \<open>Utf8\<close>: results (\<open>bind_res\<close>, an \<open>error + 'a\<close> chained as \<open>?\<close> does), text as lists of
    code points, \<open>i64\<close> and \<open>usize\<close> arithmetic as the code does it (checked, saturating), number
    parsing and printing, UTF-8 with its order.
  \<^item> \<open>Model\<close>: \<open>src/model.rs\<close>; the errors of the program with the texts that status codes are read from.
  \<^item> \<open>Db_Schema\<close>, \<open>Db_Support\<close>, \<open>Db_Ops\<close>: the tables of \<open>migrations/\<close> as lists of row records, the SQL
    statements, and every method of \<open>Db\<close>. A transaction is a function that gives back the old
    database with an error (\<open>transact\<close>).
  \<^item> \<open>Db_Inv\<close>, \<open>Db_Frame\<close>, \<open>Db_Balance\<close>, \<open>Db_Preserve\<close>, \<open>Db_Uploads\<close>, \<open>Db_Commit\<close>, \<open>Db_Methods\<close>: the
    invariant \<open>db_ok\<close> (keys, foreign keys, reference counts equal to the number of references, blocks
    that tile their object) and that every method keeps it. \<open>Db_Calls\<close>: the
    writing methods as data (\<open>exec\<close>), and what a call relies on without checking it (\<open>sound\<close>);
    \<open>Unsound_Calls\<close>: calls that break the invariant because it does not hold. \<open>Db_Store\<close>, \<open>Db_Results\<close>, \<open>Db_Progress\<close>,
    \<open>Db_Listing\<close>: the database as a map \<open>lookup\<close> from bucket and key to objects, which each method
    changes at its own key only (locale \<open>store_method\<close>), and when the methods succeed.
  \<^item> \<open>Db_Keeps\<close>, \<open>Gc_System\<close>: the contract of a method that may run between the steps of collection
    (locale \<open>db_method\<close>) and the transition system \<open>sys_step\<close> in which database calls, claims,
    deletions and crashes interleave.
  \<^item> \<open>Size_Limits\<close>, \<open>Float64\<close>, \<open>Bandwidth\<close>, \<open>Admission\<close>: \<open>src/limits.rs\<close>; \<open>Float64\<close> is the rounding of
    binary64 and the conversion to a duration that \<open>reserve\<close> uses. \<open>Telegram\<close>, \<open>Telegram_Connect\<close>, \<open>Bot_Client\<close>, \<open>Session\<close>: \<open>src/telegram/\<close>.
  \<^item> \<open>Upload\<close>, \<open>Upload_Props\<close>, \<open>Upload_Total\<close>, \<open>Download\<close>, \<open>Cleanup\<close>,
    \<open>Cleanup_Runs\<close>, \<open>Upload_Tasks\<close>, \<open>Spool_File\<close>: \<open>src/transfer/\<close>. \<open>cut\<close> says into
    which pieces a body goes, for both ways of uploading; \<open>run_step\<close> interleaves the tasks of an upload
    with aborts and the events of its guard, and keeps Telegram's answer to each deletion; \<open>cleanup_at\<close>
    takes the cleanup of a failed upload access by access, with the rest of the server between; \<open>spool_write\<close>
    writes the spool file, which is gone afterwards on every path; \<open>block_reader\<close> is the locale of what a
    download relies on in a backend.
  \<^item> \<open>Engine_Gc\<close>, \<open>Engine_Upload\<close>, \<open>Engine_Object\<close>, \<open>Engine_Multipart\<close>, \<open>Engine_Read\<close> and
    \<open>Engine_Gc_Props\<close>, \<open>Complete_Reads\<close> (reads that no failure cuts short): \<open>src/engine/\<close>. The state is \<open>server\<close>: the database and the log of messages whose
    deletion was requested. A handler returns its result, the new state and what it spawned.
  \<^item> \<open>S3_Xml\<close>, \<open>S3_Http\<close>, \<open>S3_List\<close>, \<open>Auth\<close>, \<open>S3_Dispatch\<close>: the S3 interface; \<open>S3_List_Props\<close>,
    \<open>Auth_Props\<close>, \<open>S3_Props\<close>, \<open>S3_Effects\<close>, \<open>S3_Response\<close>, \<open>S3_Types\<close>: its lemmas (\<open>served\<close> is the
    invariant every request keeps; \<open>error_safe\<close> says that an error changed no object; \<open>kind_of_response\<close>
    types the answers).
  \<^item> \<open>Config\<close>, \<open>Bootstrap\<close>, \<open>Server_Run\<close>: \<open>into_config\<close>, \<open>prepare\<close>, the commands, and the running server
    as the step relation \<open>site_step\<close> of requests, reclaims and ticks of the collection, whose
    contract is the locale \<open>background_task\<close>, and of the single accesses of tasks that run at the same
    time. \<open>Request_Runs\<close>: each request, reclaim and tick is a run of \<open>sys_step\<close>, whatever claims others hold.
  \<^item> \<open>Block_Ids\<close>: a run in which a reused block id gives an object the bytes of another upload.
  \<^item> \<open>Examples\<close>, \<open>Examples_Transfer\<close>: a small store and a small Telegram, built by running the model.
  \<^item> \<open>Spec_Db\<close>, \<open>Spec_Objects\<close>, \<open>Spec_Transfer\<close>, \<open>Spec_Gc\<close>, \<open>Spec_Limits\<close>, \<open>Spec_Engine\<close>, \<open>Spec_S3\<close>,
    \<open>Spec_Auth\<close>, \<open>Spec_Requests\<close>, \<open>Spec_Session\<close>, \<open>Spec_Boot\<close>: the properties, each with an instance on the examples.

  \<^bold>\<open>What is proved\<close>

  Of whole requests: each is answered (\<open>request_answered\<close>), an object put is the object read, exactly,
  when no transfer fails (\<open>put_then_get\<close>), only authenticated writes change anything
  (\<open>changes_authorized\<close>, \<open>serve_authenticates_writes\<close>), an error changes no object
  (\<open>error_changes_no_object\<close>), and this goes on for as long as the server runs, with other tasks' calls
  interleaved one transaction at a time (\<open>server_keeps_running\<close>). Of the store: the invariant and exact
  reference counts after every run of sound calls (\<open>reachable_db_ok\<close>, \<open>reference_counts_exact\<close>), no
  message of a readable object deleted in any interleaving (\<open>messages_kept\<close>), nothing leaked
  (\<open>unreferenced_blocks_collectable\<close>), no message an upload sent forgotten, but in two ways that are
  named (\<open>no_message_forgotten\<close>), and that the requests and tasks of the server and every cleanup are
  runs of the system these speak of (\<open>server_refines_system\<close>, \<open>cleanup_refines_system\<close>). Of the answers:
  they are of five kinds (\<open>response_typed\<close>). Of the limits: the bytes admitted keep the configured rate
  (\<open>limiter_respects_rate\<close>). Of the operations: what each does on success and that it does nothing on
  an error. Of the protocols: listings against a sorted list of lines, ranges against RFC 9110,
  signatures sound and complete, the session store against the state grammers means. Of the start:
  every accepted configuration is in bounds, and a prepared server is consistent and may use its chat.

  \<^bold>\<open>Bounds and termination\<close>

  Text is a list of Unicode code points and a body a list of bytes; sizes are unbounded integers with
  the \<open>i64\<close> checks of the code written out. The loop of the listing is \<open>partial_function (option)\<close> and
  proved to return. The loops of an upload take fuel: each turn consumes at least one byte, so the
  length of the data is enough, and \<open>upload_succeeds\<close> proves that it is. \<open>retry\<close> makes at most five
  attempts. Row ids are one more than the largest in use, as SQLite chooses them without
  \<open>AUTOINCREMENT\<close>.

  \<^bold>\<open>Parameters\<close>

  What is not in the repository is an argument: the answers of Telegram (\<open>tg_env\<close>, \<open>engine_env\<close>,
  \<open>gram_net\<close>), the crates (\<open>http_lib\<close>, \<open>crypto\<close>, \<open>session_lib\<close>, \<open>config_env\<close>), the clock, the order in
  which upload tasks finish and the identifiers drawn, and what tokio's semaphore and timeout answer to \<open>acquire\<close>. What the proofs need of them is named:
  \<open>crates_ok\<close>, \<open>etags_visible\<close>, \<open>bot_faithful\<close>, \<open>grammers_faithful\<close>, \<open>addrs_parse_back\<close>; Telegram's rule is
  that a new message has a new id.

  \<^bold>\<open>Not modelled\<close>

  Logging and tracing; the HTTP server and client, TLS and signals; SQLite's failures other than
  constraint violations; the migration of older databases; concurrency inside one database
  transaction, which SQLite serialises. The semaphores of the engine only bound how many tasks run at
  once; the model lets any number run in any order, and the fairness of tokio's semaphore and timers is
  not modelled. In \<open>server_refines_system\<close> a request is one step; accesses of one request that others' cut
  in two are steps of \<open>Gc_System\<close>, \<open>Upload_Tasks\<close> and \<open>Cleanup_Runs\<close>, under the guards of \<open>db_call\<close>.
  Those guards, like \<open>sound\<close>, are what two transactions commit without checking: that the blocks of a
  part are nobody else's (not so when a block id is given out twice, \<open>shared_block_unbalanced\<close> and
  \<open>Block_Ids\<close>) and that the bucket of a copy still exists (\<open>copy_into_deleted_bucket\<close>). \<open>Gc_System\<close> has no
  step for the deletion a dropped message guard spawns after its block's row was written: that row
  names no reference and is collected as a stale one.
\<close>

end
